(* ===== verification/Prelude.thy ===== *)
theory Prelude
  imports Main "HOL-Library.Word" "HOL-Library.Monad_Syntax"
begin

section \<open>Shared types, collections and generic lemmas\<close>

text \<open>
  This theory holds what the component theories share: the names of the model's basic
  types, the collections of facts the proofs draw on, and generic lemmas on lists,
  options and association lists. A Go \<open>string\<close> and a Go byte slice that holds text are both
  \<^typ>\<open>string\<close> (a HOL character is one byte); raw bytes are \<open>8 word\<close> values; a
  \<open>time.Time\<close> is its \<open>UnixNano\<close> value as an \<^typ>\<open>int\<close>.
\<close>

type_synonym u8 = "8 word"
type_synonym i8 = "8 word"
type_synonym i16 = "16 word"
type_synonym i32 = "32 word"
type_synonym i64 = "64 word"
type_synonym u64 = "64 word"
type_synonym time = int
type_synonym duration = int

named_theorems trace_simps \<open>unfolding the trace component\<close>
named_theorems go_simps \<open>unfolding small translated helpers\<close>

subsection \<open>Decimal numbers as \<open>strconv\<close> prints them\<close>

definition digitChars :: string where
  "digitChars = ''0123456789abcdefghijklmnopqrstuvwxyz''"

fun formatNat :: "nat \<Rightarrow> nat \<Rightarrow> string" where
  "formatNat base n =
     (if base < 2 then [] else
      if n < base then [digitChars ! n]
      else formatNat base (n div base) @ [digitChars ! (n mod base)])"

declare formatNat.simps [simp del]

definition FormatInt :: "int \<Rightarrow> nat \<Rightarrow> string" where
  "FormatInt v base = (if v < 0 then CHR ''-'' # formatNat base (nat (- v)) else formatNat base (nat v))"

definition Itoa :: "int \<Rightarrow> string" where
  "Itoa v = FormatInt v 10"

fun digitVal :: "char \<Rightarrow> nat option" where
  "digitVal c =
     (let n = of_char c :: nat in
      if 48 \<le> n \<and> n \<le> 57 then Some (n - 48)
      else if 97 \<le> n \<and> n \<le> 122 then Some (n - 87)
      else if 65 \<le> n \<and> n \<le> 90 then Some (n - 55)
      else None)"

fun parseDigits :: "nat \<Rightarrow> nat \<Rightarrow> string \<Rightarrow> nat option" where
  "parseDigits base acc [] = Some acc"
| "parseDigits base acc (c # cs) =
     (case digitVal c of
        None \<Rightarrow> None
      | Some d \<Rightarrow> if d < base then parseDigits base (acc * base + d) cs else None)"

definition ParseNat :: "nat \<Rightarrow> string \<Rightarrow> nat option" where
  "ParseNat base s = (if s = [] then None else parseDigits base 0 s)"

lemma parseDigits_append:
  "parseDigits base acc (xs @ ys) =
     Option.bind (parseDigits base acc xs) (\<lambda>a. parseDigits base a ys)"
  by (induction base acc xs rule: parseDigits.induct) (auto split: option.splits)

lemma length_digitChars [simp]: "length digitChars = 36"
  by (simp add: digitChars_def)

lemma digitVal_digitChars_map: "map digitVal digitChars = map Some [0..<36]"
  by (simp add: digitChars_def upt_rec)

lemma digitVal_digitChars: "n < 36 \<Longrightarrow> digitVal (digitChars ! n) = Some n"
proof -
  assume n: "n < 36"
  have "map digitVal digitChars ! n = map Some [0..<36] ! n"
    by (simp only: digitVal_digitChars_map)
  with n show ?thesis by (simp del: digitVal.simps)
qed

lemma formatNat_nonempty: "2 \<le> base \<Longrightarrow> formatNat base n \<noteq> []"
  by (subst formatNat.simps) simp

lemma parseDigits_formatNat:
  "2 \<le> base \<Longrightarrow> base \<le> 36 \<Longrightarrow> parseDigits base 0 (formatNat base n) = Some n"
proof (induction base n rule: formatNat.induct)
  case (1 base n)
  show ?case
  proof (cases "n < base")
    case True
    with "1.prems" show ?thesis
      by (subst formatNat.simps) (simp add: digitVal_digitChars del: digitVal.simps)
  next
    case False
    then have "parseDigits base 0 (formatNat base (n div base)) = Some (n div base)"
      using "1.IH" "1.prems" by simp
    moreover have "n mod base < base" using "1.prems" by simp
    moreover from this have "digitVal (digitChars ! (n mod base)) = Some (n mod base)"
      using "1.prems" by (intro digitVal_digitChars) linarith
    ultimately show ?thesis
      using False "1.prems"
      by (subst formatNat.simps) (simp add: parseDigits_append del: digitVal.simps)
  qed
qed

lemma ParseNat_formatNat:
  "2 \<le> base \<Longrightarrow> base \<le> 36 \<Longrightarrow> ParseNat base (formatNat base n) = Some n"
  by (simp add: ParseNat_def formatNat_nonempty parseDigits_formatNat)

lemma formatNat_inj:
  "2 \<le> base \<Longrightarrow> base \<le> 36 \<Longrightarrow> formatNat base m = formatNat base n \<Longrightarrow> m = n"
  by (metis ParseNat_formatNat option.inject)

lemma set_formatNat:
  "2 \<le> base \<Longrightarrow> set (formatNat base n) \<subseteq> (\<lambda>d. digitChars ! d) ` {..<base}"
proof (induction base n rule: formatNat.induct)
  case (1 base n)
  show ?case
  proof (cases "n < base")
    case True
    with "1.prems" show ?thesis by (subst formatNat.simps) auto
  next
    case False
    then have "set (formatNat base (n div base)) \<subseteq> (\<lambda>d. digitChars ! d) ` {..<base}"
      using "1.IH" "1.prems" by simp
    moreover have "n mod base < base" using "1.prems" by simp
    ultimately show ?thesis
      using False "1.prems" by (subst formatNat.simps) auto
  qed
qed

subsection \<open>Association lists in insertion order\<close>

text \<open>
  A Go map whose iteration is modelled explicitly is an association list; \<open>aput\<close> replaces
  the value of a key in place or appends a new pair at the end.
\<close>

fun aput :: "'k \<Rightarrow> 'v \<Rightarrow> ('k \<times> 'v) list \<Rightarrow> ('k \<times> 'v) list" where
  "aput k v [] = [(k, v)]"
| "aput k v ((k', v') # m) = (if k = k' then (k, v) # m else (k', v') # aput k v m)"

lemma map_of_aput [simp]: "map_of (aput k v m) = (map_of m)(k \<mapsto> v)"
  by (induction m) auto

lemma set_map_fst_aput [simp]: "fst ` set (aput k v m) = insert k (fst ` set m)"
proof (induction m)
  case (Cons a m)
  then show ?case by (cases a) (simp add: insert_commute)
qed simp

lemma map_fst_aput: "map fst (aput k v m) = (if k \<in> fst ` set m then map fst m else map fst m @ [k])"
proof (induction m)
  case (Cons a m)
  then show ?case by (cases a) simp
qed simp

lemma distinct_aput [simp]: "distinct (map fst m) \<Longrightarrow> distinct (map fst (aput k v m))"
  by (simp add: map_fst_aput)

definition adel :: "'k \<Rightarrow> ('k \<times> 'v) list \<Rightarrow> ('k \<times> 'v) list" where
  "adel k m = filter (\<lambda>p. fst p \<noteq> k) m"

lemma map_of_adel [simp]: "map_of (adel k m) = (map_of m)(k := None)"
  by (induction m) (auto simp: adel_def)

lemma distinct_adel [simp]: "distinct (map fst m) \<Longrightarrow> distinct (map fst (adel k m))"
  by (simp add: adel_def distinct_map_filter)

lemma set_map_fst_adel [simp]: "fst ` set (adel k m) = fst ` set m - {k}"
  by (auto simp: adel_def)

lemma aput_subset: "set (aput k v m) \<subseteq> insert (k, v) (set m)"
  by (induction m) (auto split: if_splits)

lemma adel_subset: "set (adel k m) \<subseteq> set m"
  by (auto simp: adel_def)

subsection \<open>Prefixes of lists\<close>

lemma take_drop_nth_decomp:
  "i < length xs \<Longrightarrow> drop j (take (Suc i) xs) = (if j \<le> i then drop j (take i xs) @ [xs ! i] else [])"
  by (simp add: take_Suc_conv_app_nth)

end
