(* ===== verification/JBuilder.thy ===== *)
theory JBuilder
  imports Prelude
begin

section \<open>The JSON builder\<close>

text \<open>
  Models \<open>xoputil/jbuilder.go\<close> and the escaping of \<open>xoputil/fromphu.go\<close>, and \<open>support.go\<close>'s
  \<open>base26\<close>. The builder is a growing byte slice; every method is a function from builder to
  builder. Against them stands a small strict reader of JSON texts (strings, integers, booleans
  and flat objects), which the round trips are stated over: bytes from \<open>0x80\<close> up are copied, as a
  JSON reader does for valid UTF-8.
\<close>

record JBuilder =
  jb_B :: string
  jb_FastKeys :: bool

definition appendB :: "string \<Rightarrow> JBuilder \<Rightarrow> JBuilder" where
  "appendB v b = b\<lparr>jb_B := jb_B b @ v\<rparr>"

definition Comma :: "JBuilder \<Rightarrow> JBuilder" where
  "Comma b =
     (if jb_B b = [] then b
      else if last (jb_B b) \<in> {CHR ''['', CHR ''{'', CHR '':''} then b
      else appendB '','' b)"

definition AppendByte :: "char \<Rightarrow> JBuilder \<Rightarrow> JBuilder" where
  "AppendByte v b = appendB [v] b"

definition AppendBytes :: "string \<Rightarrow> JBuilder \<Rightarrow> JBuilder" where
  "AppendBytes v b = appendB v b"

definition AppendString :: "string \<Rightarrow> JBuilder \<Rightarrow> JBuilder" where
  "AppendString v b = appendB v b"

definition JB_Write :: "string \<Rightarrow> JBuilder \<Rightarrow> JBuilder \<times> nat" where
  "JB_Write v b = (appendB v b, length v)"

definition JB_Reset :: "JBuilder \<Rightarrow> JBuilder" where
  "JB_Reset b = b\<lparr>jb_B := []\<rparr>"

subsection \<open>Escaping\<close>

definition escapes :: "char \<Rightarrow> bool" where
  "escapes c \<longleftrightarrow> c \<in> {CHR 0x22, CHR ''<'', CHR 0x27, CHR 0x5C, CHR 0x08, CHR 0x0C, CHR 0x0A, CHR 0x0D, CHR 0x09}"

definition escapeSeq :: "char \<Rightarrow> string option" where
  "escapeSeq c =
     (if c = CHR 0x22 then Some [CHR 0x5C, CHR 0x22]
      else if c = CHR 0x5C then Some [CHR 0x5C, CHR 0x5C]
      else if c = CHR 0x0A then Some [CHR 0x5C, CHR ''n'']
      else if c = CHR 0x0D then Some [CHR 0x5C, CHR ''r'']
      else if c = CHR 0x09 then Some [CHR 0x5C, CHR ''t'']
      else if c = CHR 0x0C then Some (CHR 0x5C # ''u000c'')
      else if c = CHR 0x08 then Some (CHR 0x5C # ''u0008'')
      else if c = CHR ''<'' then Some (CHR 0x5C # ''u003c'')
      else if c = CHR 0x27 then Some (CHR 0x5C # ''u0027'')
      else if c = CHR 0x00 then Some (CHR 0x5C # ''u0000'')
      else None)"

text \<open>
  The loop of \<open>(*JBuilder).escapes\<close>: \<open>i\<close> runs over the string, \<open>j\<close> is the start of the part
  that has not been copied yet.
\<close>

function escapesLoop :: "string \<Rightarrow> nat \<Rightarrow> nat \<Rightarrow> string \<Rightarrow> string" where
  "escapesLoop s i j B =
     (if i < length s then
        (case escapeSeq (s ! i) of
           Some e \<Rightarrow> escapesLoop s (i + 1) (i + 1) (B @ drop j (take i s) @ e)
         | None \<Rightarrow> escapesLoop s (i + 1) j B)
      else B @ drop j s)"
  by pat_completeness auto
termination by (relation "measure (\<lambda>(s, i, j, B). length s - i)") auto

declare escapesLoop.simps [simp del]

definition JB_escapes :: "string \<Rightarrow> JBuilder \<Rightarrow> JBuilder" where
  "JB_escapes s b = b\<lparr>jb_B := escapesLoop s 0 0 (jb_B b)\<rparr>"

definition AddStringBody :: "string \<Rightarrow> JBuilder \<Rightarrow> JBuilder" where
  "AddStringBody s b = (if list_ex escapes s then JB_escapes s b else appendB s b)"

definition AddSafeString :: "string \<Rightarrow> JBuilder \<Rightarrow> JBuilder" where
  "AddSafeString v b = appendB [CHR 0x22] (AppendString v (appendB [CHR 0x22] b))"

definition AddString :: "string \<Rightarrow> JBuilder \<Rightarrow> JBuilder" where
  "AddString v b = appendB [CHR 0x22] (AddStringBody v (appendB [CHR 0x22] b))"

definition AddUint64 :: "u64 \<Rightarrow> JBuilder \<Rightarrow> JBuilder" where
  "AddUint64 i b = appendB (FormatInt (uint i) 10) b"

definition AddInt64 :: "i64 \<Rightarrow> JBuilder \<Rightarrow> JBuilder" where
  "AddInt64 i b = appendB (FormatInt (sint i) 10) b"

definition AddInt32 :: "i32 \<Rightarrow> JBuilder \<Rightarrow> JBuilder" where
  "AddInt32 i b = appendB (FormatInt (sint i) 10) b"

definition AddBool :: "bool \<Rightarrow> JBuilder \<Rightarrow> JBuilder" where
  "AddBool v b = appendB (if v then ''true'' else ''false'') b"

definition AddSafeKey :: "string \<Rightarrow> JBuilder \<Rightarrow> JBuilder" where
  "AddSafeKey v b = appendB [CHR 0x22, CHR '':''] (appendB v (appendB [CHR 0x22] (Comma b)))"

definition AddKey :: "string \<Rightarrow> JBuilder \<Rightarrow> JBuilder" where
  "AddKey v b =
     (if jb_FastKeys b then AddSafeKey v b else appendB '':'' (AddString v (Comma b)))"

definition emptyJB :: JBuilder where
  "emptyJB = \<lparr>jb_B = [], jb_FastKeys = False\<rparr>"

definition BuildKey :: "string \<Rightarrow> string" where
  "BuildKey v = jb_B (appendB '':'' (AddString v (appendB '','' emptyJB)))"

subsection \<open>The escape loop computes a map over the bytes\<close>

definition escapeByte :: "char \<Rightarrow> string" where
  "escapeByte c = (case escapeSeq c of Some e \<Rightarrow> e | None \<Rightarrow> [c])"

lemma escapesLoop_eq:
  "j \<le> i \<Longrightarrow> i \<le> length s \<Longrightarrow>
   (\<forall>k. j \<le> k \<and> k < i \<longrightarrow> escapeSeq (s ! k) = None) \<Longrightarrow>
   escapesLoop s i j B = B @ drop j (take i s) @ concat (map escapeByte (drop i s))"
proof (induction s i j B rule: escapesLoop.induct)
  case (1 s i j B)
  show ?case
  proof (cases "i < length s")
    case False
    with 1 show ?thesis by (subst escapesLoop.simps) simp
  next
    case True
    then have d: "drop i s = s ! i # drop (Suc i) s" by (simp add: Cons_nth_drop_Suc)
    show ?thesis
    proof (cases "escapeSeq (s ! i)")
      case (Some e)
      have no: "\<forall>k. i + 1 \<le> k \<and> k < i + 1 \<longrightarrow> escapeSeq (s ! k) = None" by auto
      have "escapesLoop s (i + 1) (i + 1) (B @ drop j (take i s) @ e) =
          (B @ drop j (take i s) @ e) @ drop (i + 1) (take (i + 1) s) @ concat (map escapeByte (drop (i + 1) s))"
        using "1.IH"(2) [OF True Some _ _ no] True by simp
      with Some True d show ?thesis
        by (subst escapesLoop.simps) (simp add: escapeByte_def)
    next
      case None
      have "\<forall>k. j \<le> k \<and> k < i + 1 \<longrightarrow> escapeSeq (s ! k) = None"
        using 1(5) None by (metis Suc_eq_plus1 less_Suc_eq)
      then have "escapesLoop s (i + 1) j B =
          B @ drop j (take (i + 1) s) @ concat (map escapeByte (drop (i + 1) s))"
        using "1.IH"(1) [OF True None] True 1(3) by simp
      with None True d 1(3) show ?thesis
        by (subst escapesLoop.simps) (simp add: escapeByte_def take_Suc_conv_app_nth)
    qed
  qed
qed

definition escapedBody :: "string \<Rightarrow> string" where
  "escapedBody s = (if list_ex escapes s then concat (map escapeByte s) else s)"

lemma AddStringBody_eq: "jb_B (AddStringBody s b) = jb_B b @ escapedBody s"
  by (simp add: AddStringBody_def escapedBody_def JB_escapes_def escapesLoop_eq appendB_def)

lemma appendB_B [simp]: "jb_B (appendB v b) = jb_B b @ v"
  by (simp add: appendB_def)

lemma AddString_B [simp]: "jb_B (AddString v b) = jb_B b @ CHR 0x22 # escapedBody v @ [CHR 0x22]"
  by (simp add: AddString_def AddStringBody_eq)

lemma FastKeys_simps [simp]:
  "jb_FastKeys (appendB v b) = jb_FastKeys b"
  "jb_FastKeys (AddStringBody s b) = jb_FastKeys b"
  "jb_FastKeys (AddString s b) = jb_FastKeys b"
  "jb_FastKeys (Comma b) = jb_FastKeys b"
  by (simp_all add: appendB_def AddString_def AddStringBody_def JB_escapes_def Comma_def)

subsection \<open>A strict reader\<close>

definition hexVal :: "char \<Rightarrow> nat option" where
  "hexVal c = (case digitVal c of None \<Rightarrow> None | Some d \<Rightarrow> if d < 16 then Some d else None)"

text \<open>
  The part of a JSON string after its opening quote: the text and what follows the closing
  quote. Escapes \<open>\u00XY\<close> below \<open>0x80\<close> are one byte; larger code points are outside this reader.
\<close>

fun readBody :: "string \<Rightarrow> (string \<times> string) option" where
  "readBody [] = None"
| "readBody (c # cs) =
     (if c = CHR 0x22 then Some ([], cs)
      else if c = CHR 0x5C then
        (case cs of
           [] \<Rightarrow> None
         | e # cs1 \<Rightarrow>
             let more = (\<lambda>x. case readBody cs1 of None \<Rightarrow> None | Some (r, cs') \<Rightarrow> Some (x # r, cs')) in
             if e = CHR 0x22 \<or> e = CHR 0x5C \<or> e = CHR ''/'' then more e
             else if e = CHR ''b'' then more (CHR 0x08)
             else if e = CHR ''f'' then more (CHR 0x0C)
             else if e = CHR ''n'' then more (CHR 0x0A)
             else if e = CHR ''r'' then more (CHR 0x0D)
             else if e = CHR ''t'' then more (CHR 0x09)
             else if e = CHR ''u'' then
               (case cs1 of
                  h1 # h2 # h3 # h4 # cs2 \<Rightarrow>
                    (case (hexVal h1, hexVal h2, hexVal h3, hexVal h4) of
                       (Some d1, Some d2, Some d3, Some d4) \<Rightarrow>
                         if d1 = 0 \<and> d2 = 0 \<and> d3 < 8 then
                           (case readBody cs2 of
                              None \<Rightarrow> None
                            | Some (r, cs') \<Rightarrow> Some (char_of (d3 * 16 + d4) # r, cs'))
                         else None
                     | _ \<Rightarrow> None)
                | _ \<Rightarrow> None)
             else None)
      else if of_char c < (0x20 :: nat) then None
      else (case readBody cs of None \<Rightarrow> None | Some (r, cs') \<Rightarrow> Some (c # r, cs')))"

definition readString :: "string \<Rightarrow> (string \<times> string) option" where
  "readString s = (case s of c # cs \<Rightarrow> if c = CHR 0x22 then readBody cs else None | [] \<Rightarrow> None)"

lemma escapeSeq_cases:
  "escapeSeq c = Some e \<Longrightarrow>
   c \<in> {CHR 0x22, CHR 0x5C, CHR 0x0A, CHR 0x0D, CHR 0x09, CHR 0x0C, CHR 0x08, CHR ''<'', CHR 0x27, CHR 0x00}"
  by (auto simp: escapeSeq_def split: if_splits)

lemma char_of_consts:
  "char_of (8 :: nat) = CHR 0x08" "char_of (12 :: nat) = CHR 0x0C" "char_of (60 :: nat) = CHR ''<''"
  "char_of (39 :: nat) = CHR 0x27" "char_of (0 :: nat) = CHR 0x00"
  by code_simp+

lemma readBody_escapeByte:
  assumes "escapeSeq c \<noteq> None \<or> (0x20 :: nat) \<le> of_char c"
  shows "readBody (escapeByte c @ rest) =
    (case readBody rest of None \<Rightarrow> None | Some (r, cs') \<Rightarrow> Some (c # r, cs'))"
proof (cases "escapeSeq c")
  case None
  then have "c \<noteq> CHR 0x22" "c \<noteq> CHR 0x5C" by (auto simp: escapeSeq_def)
  with None assms show ?thesis by (simp add: escapeByte_def)
next
  case (Some e)
  from escapeSeq_cases [OF Some] show ?thesis
    by (auto simp: escapeByte_def escapeSeq_def hexVal_def char_of_consts split: option.splits)
qed

lemma readBody_escaped:
  "(\<forall>c \<in> set s. escapeSeq c \<noteq> None \<or> (0x20 :: nat) \<le> of_char c) \<Longrightarrow>
   readBody (concat (map escapeByte s) @ CHR 0x22 # rest) = Some (s, rest)"
  by (induction s) (simp_all add: readBody_escapeByte)

lemma readBody_escaped_bad:
  "\<exists>c \<in> set s. escapeSeq c = None \<and> of_char c < (0x20 :: nat) \<Longrightarrow>
   readBody (concat (map escapeByte s) @ rest) = None"
proof (induction s)
  case (Cons c s)
  show ?case
  proof (cases "escapeSeq c = None \<and> of_char c < (0x20 :: nat)")
    case True
    then have "c \<noteq> CHR 0x22" "c \<noteq> CHR 0x5C" by (auto simp: escapeSeq_def)
    with True show ?thesis by (simp add: escapeByte_def)
  next
    case False
    then have "escapeSeq c \<noteq> None \<or> (0x20 :: nat) \<le> of_char c" by auto
    from readBody_escapeByte [OF this] Cons False show ?thesis by auto
  qed
qed simp

lemma escapes_escapeSeq: "escapeSeq c \<noteq> None \<longleftrightarrow> escapes c \<or> c = CHR 0x00"
  by (auto simp: escapeSeq_def escapes_def)

text \<open>The texts that survive: a control character needs an escape sequence that is really used.\<close>

definition jsonSafe :: "string \<Rightarrow> bool" where
  "jsonSafe s \<longleftrightarrow> (\<forall>c \<in> set s. (0x20 :: nat) \<le> of_char c \<or> escapes c \<or> (c = CHR 0x00 \<and> list_ex escapes s))"

lemma readBody_raw:
  "\<not> list_ex escapes s \<Longrightarrow>
   readBody (s @ CHR 0x22 # rest) = (if list_all (\<lambda>c. (0x20 :: nat) \<le> of_char c) s then Some (s, rest) else None)"
  by (induction s) (auto simp: escapes_def)

lemma readBody_escapedBody:
  "readBody (escapedBody s @ CHR 0x22 # rest) = (if jsonSafe s then Some (s, rest) else None)"
proof (cases "list_ex escapes s")
  case True
  have safe: "jsonSafe s \<longleftrightarrow> (\<forall>c \<in> set s. escapeSeq c \<noteq> None \<or> (0x20 :: nat) \<le> of_char c)"
    unfolding jsonSafe_def escapes_escapeSeq using True by blast
  show ?thesis
  proof (cases "jsonSafe s")
    case True
    with \<open>list_ex escapes s\<close> safe show ?thesis by (simp add: escapedBody_def readBody_escaped)
  next
    case False
    with safe have "\<exists>c \<in> set s. escapeSeq c = None \<and> of_char c < (0x20 :: nat)" by (auto simp: not_le)
    with False \<open>list_ex escapes s\<close> show ?thesis by (simp add: escapedBody_def readBody_escaped_bad)
  qed
next
  case False
  then have "jsonSafe s \<longleftrightarrow> list_all (\<lambda>c. (0x20 :: nat) \<le> of_char c) s"
    by (auto simp: jsonSafe_def list_all_iff list_ex_iff)
  with False show ?thesis by (simp add: escapedBody_def readBody_raw)
qed

text \<open>
  C36. What \<open>AddString\<close> appends is a JSON string that reads back as the original text exactly
  when every control character of the text has an escape sequence that the builder uses. The
  five escaped ones always do; a NUL does only if the text holds another character of the
  \<open>escapes\<close> table, which has no entry for NUL; any other control character makes invalid JSON.
\<close>

theorem AddString_read:
  "readString (drop (length (jb_B b)) (jb_B (AddString s b)) @ rest) =
     (if jsonSafe s then Some (s, rest) else None)"
  by (simp add: readString_def readBody_escapedBody)

subsection \<open>Values and flat objects\<close>

datatype jval = JString string | JInt int | JBool bool

fun valText :: "jval \<Rightarrow> string" where
  "valText (JString s) = CHR 0x22 # escapedBody s @ [CHR 0x22]"
| "valText (JInt i) = FormatInt i 10"
| "valText (JBool v) = (if v then ''true'' else ''false'')"

fun valSafe :: "jval \<Rightarrow> bool" where
  "valSafe (JString s) = jsonSafe s"
| "valSafe _ = True"

definition isDigit :: "char \<Rightarrow> bool" where
  "isDigit c \<longleftrightarrow> (48 :: nat) \<le> of_char c \<and> of_char c \<le> (57 :: nat)"

definition readNat :: "string \<Rightarrow> (nat \<times> string) option" where
  "readNat s = map_option (\<lambda>n. (n, dropWhile isDigit s)) (ParseNat 10 (takeWhile isDigit s))"

definition readVal :: "string \<Rightarrow> (jval \<times> string) option" where
  "readVal s =
     (case s of
        [] \<Rightarrow> None
      | c # cs \<Rightarrow>
          if c = CHR 0x22 then map_option (\<lambda>(t, r). (JString t, r)) (readBody cs)
          else if take 4 s = ''true'' then Some (JBool True, drop 4 s)
          else if take 5 s = ''false'' then Some (JBool False, drop 5 s)
          else if c = CHR ''-'' then map_option (\<lambda>(n, r). (JInt (- int n), r)) (readNat cs)
          else map_option (\<lambda>(n, r). (JInt (int n), r)) (readNat s))"

text \<open>The fuel bounds the number of fields; \<open>readObject\<close> gives it the length of the text.\<close>

fun readFields :: "nat \<Rightarrow> string \<Rightarrow> ((string \<times> jval) list \<times> string) option" where
  "readFields 0 s = None"
| "readFields (Suc n) s =
     (case readString s of
        Some (k, c # s1) \<Rightarrow>
          if c = CHR '':'' then
            (case readVal s1 of
               Some (v, d # s2) \<Rightarrow>
                 if d = CHR ''}'' then Some ([(k, v)], s2)
                 else if d = CHR '','' then map_option (\<lambda>(fs, r). ((k, v) # fs, r)) (readFields n s2)
                 else None
             | _ \<Rightarrow> None)
          else None
      | _ \<Rightarrow> None)"

definition readObject :: "string \<Rightarrow> ((string \<times> jval) list \<times> string) option" where
  "readObject s =
     (case s of
        c # d # r \<Rightarrow>
          if c = CHR ''{'' then (if d = CHR ''}'' then Some ([], r) else readFields (length s) (d # r)) else None
      | _ \<Rightarrow> None)"

definition fieldText :: "string \<times> jval \<Rightarrow> string" where
  "fieldText f = CHR 0x22 # escapedBody (fst f) @ [CHR 0x22, CHR '':''] @ valText (snd f)"

fun fieldsText :: "(string \<times> jval) list \<Rightarrow> string" where
  "fieldsText [] = []"
| "fieldsText [f] = fieldText f"
| "fieldsText (f # fs) = fieldText f @ '','' @ fieldsText fs"

definition objectText :: "(string \<times> jval) list \<Rightarrow> string" where
  "objectText fs = ''{'' @ fieldsText fs @ ''}''"

lemma digitChars_isDigit: "\<forall>d < 10. isDigit (digitChars ! d)"
proof -
  have "\<forall>d \<in> {0, 1, 2, 3, 4, 5, 6, 7, 8, 9}. isDigit (digitChars ! d)" by code_simp
  moreover have "d < 10 \<Longrightarrow> d \<in> {0, 1, 2, 3, 4, 5, 6, 7, 8, 9}" for d :: nat by auto
  ultimately show ?thesis by blast
qed

lemma formatNat_digits: "\<forall>c \<in> set (formatNat 10 n). isDigit c"
  using set_formatNat [of 10 n] digitChars_isDigit by fastforce

lemma readNat_formatNat:
  assumes "\<not> isDigit d"
  shows "readNat (formatNat 10 n @ d # r) = Some (n, d # r)"
proof -
  have "takeWhile isDigit (formatNat 10 n @ d # r) = formatNat 10 n"
    "dropWhile isDigit (formatNat 10 n @ d # r) = d # r"
    using formatNat_digits [of n] assms by (simp_all add: takeWhile_append dropWhile_append)
  then show ?thesis by (simp add: readNat_def ParseNat_formatNat)
qed

lemma isDigit_neq:
  "isDigit c \<Longrightarrow> c \<noteq> CHR 0x22 \<and> c \<noteq> CHR ''t'' \<and> c \<noteq> CHR ''f'' \<and> c \<noteq> CHR ''-'' \<and> c \<noteq> CHR ''{''
     \<and> c \<noteq> CHR ''['' \<and> c \<noteq> CHR '':''"
  by (auto simp: isDigit_def)

lemma readVal_valText:
  assumes "valSafe v" "d = CHR '','' \<or> d = CHR ''}''"
  shows "readVal (valText v @ d # r) = Some (v, d # r)"
proof (cases v)
  case (JString s)
  with assms(1) show ?thesis by (simp add: readVal_def readBody_escapedBody)
next
  case (JBool b)
  then show ?thesis by (simp add: readVal_def)
next
  case (JInt i)
  have d: "\<not> isDigit d" using assms(2) by (auto simp: isDigit_def)
  have num: "readVal (formatNat 10 n @ d # r) = Some (JInt (int n), d # r)" for n
  proof -
    obtain c cs where c: "formatNat 10 n = c # cs"
      using formatNat_nonempty [of 10 n] by (cases "formatNat 10 n") auto
    then have "isDigit c" using formatNat_digits [of n] by simp
    with isDigit_neq [OF this] readNat_formatNat [OF d, of n r] c show ?thesis
      by (simp add: readVal_def)
  qed
  show ?thesis
  proof (cases "i < 0")
    case True
    then show ?thesis using JInt readNat_formatNat [OF d, of "nat (- i)" r]
      by (simp add: readVal_def FormatInt_def)
  next
    case False
    then show ?thesis using JInt num [of "nat i"] by (simp add: FormatInt_def)
  qed
qed

definition fieldSafe :: "string \<times> jval \<Rightarrow> bool" where
  "fieldSafe f \<longleftrightarrow> jsonSafe (fst f) \<and> valSafe (snd f)"

lemma readFields_fieldsText:
  "fs \<noteq> [] \<Longrightarrow> list_all fieldSafe fs \<Longrightarrow> length fs \<le> n \<Longrightarrow>
   readFields n (fieldsText fs @ CHR ''}'' # r) = Some (fs, r)"
proof (induction fs arbitrary: n rule: fieldsText.induct)
  case (2 f)
  then obtain m where "n = Suc m" by (cases n) auto
  with 2 readVal_valText [of "snd f" "CHR ''}''" r] show ?case
    by (simp add: fieldText_def fieldSafe_def readString_def readBody_escapedBody)
next
  case (3 f g fs)
  then obtain m where m: "n = Suc m" "length (g # fs) \<le> m" by (cases n) auto
  with 3 readVal_valText [of "snd f" "CHR '',''" "fieldsText (g # fs) @ CHR ''}'' # r"] show ?case
    by (simp add: fieldText_def fieldSafe_def readString_def readBody_escapedBody)
qed simp

lemma fieldText_length: "0 < length (fieldText f)"
  by (simp add: fieldText_def)

lemma fieldsText_length: "length fs \<le> length (fieldsText fs)"
proof (induction fs rule: fieldsText.induct)
  case (2 f)
  then show ?case using fieldText_length [of f] by (simp add: Suc_le_eq)
qed auto

lemma readObject_objectText:
  assumes "list_all fieldSafe fs"
  shows "readObject (objectText fs @ r) = Some (fs, r)"
proof (cases fs)
  case Nil
  then show ?thesis by (simp add: readObject_def objectText_def)
next
  case (Cons f gs)
  then obtain rest where rest: "fieldsText fs = CHR 0x22 # rest"
    by (cases gs) (auto simp: fieldText_def)
  have "readFields (length (objectText fs @ r)) (fieldsText fs @ CHR ''}'' # r) = Some (fs, r)"
    using Cons assms fieldsText_length [of fs]
    by (intro readFields_fieldsText) (auto simp: objectText_def simp del: fieldsText.simps)
  with rest show ?thesis
    by (simp add: readObject_def objectText_def)
qed

subsection \<open>Building an object with the builder's methods\<close>

fun addVal :: "jval \<Rightarrow> JBuilder \<Rightarrow> JBuilder" where
  "addVal (JString s) b = AddString s b"
| "addVal (JInt i) b = appendB (FormatInt i 10) b"
| "addVal (JBool v) b = AddBool v b"

definition addField :: "string \<times> jval \<Rightarrow> JBuilder \<Rightarrow> JBuilder" where
  "addField f b = addVal (snd f) (AddKey (fst f) b)"

definition buildObject :: "(string \<times> jval) list \<Rightarrow> JBuilder \<Rightarrow> JBuilder" where
  "buildObject fs b = AppendByte (CHR ''}'') (fold addField fs (AppendByte (CHR ''{'') b))"

lemma addVal_B [simp]: "jb_B (addVal v b) = jb_B b @ valText v" "jb_FastKeys (addVal v b) = jb_FastKeys b"
  by (cases v; simp add: AddBool_def)+

lemma formatNat_last: "isDigit (last (formatNat 10 n))"
  using formatNat_digits [of n] formatNat_nonempty [of 10 n] by auto

lemma valText_last:
  "valText v \<noteq> [] \<and> last (valText v) \<notin> {CHR ''['', CHR ''{'', CHR '':''}"
proof (cases v)
  case (JInt i)
  from isDigit_neq [OF formatNat_last] formatNat_nonempty [of 10] show ?thesis
    by (auto simp: JInt FormatInt_def)
qed auto

lemma Comma_B:
  "jb_B (Comma b) = jb_B b @
     (if jb_B b = [] \<or> last (jb_B b) \<in> {CHR ''['', CHR ''{'', CHR '':''} then [] else '','')"
  by (simp add: Comma_def)

lemma addField_B:
  assumes "\<not> jb_FastKeys b"
  shows "jb_B (addField f b) = jb_B (Comma b) @ fieldText f" "\<not> jb_FastKeys (addField f b)"
  using assms by (simp_all add: addField_def AddKey_def fieldText_def)

lemma fieldText_last:
  "fieldText f \<noteq> [] \<and> last (fieldText f) \<notin> {CHR ''['', CHR ''{'', CHR '':''}"
  using valText_last [of "snd f"] by (simp add: fieldText_def)

lemma fold_addField_after:
  assumes "\<not> jb_FastKeys b" "jb_B b \<noteq> []" "last (jb_B b) \<notin> {CHR ''['', CHR ''{'', CHR '':''}"
  shows "jb_B (fold addField fs b) = jb_B b @ concat (map (\<lambda>f. CHR '','' # fieldText f) fs)"
  using assms
proof (induction fs arbitrary: b)
  case (Cons f fs)
  have "last (jb_B (addField f b)) = last (fieldText f)"
    using addField_B [OF Cons.prems(1)] fieldText_last [of f] by simp
  with fieldText_last [of f] Cons.IH [of "addField f b"] addField_B [OF Cons.prems(1)] Cons.prems
  show ?case by (simp add: Comma_B)
qed simp

lemma fieldsText_Cons: "fieldsText (f # fs) = fieldText f @ concat (map (\<lambda>f. CHR '','' # fieldText f) fs)"
  by (induction fs arbitrary: f) simp_all

lemma buildObject_B:
  assumes "\<not> jb_FastKeys b"
  shows "jb_B (buildObject fs b) = jb_B b @ objectText fs"
proof (cases fs)
  case Nil
  then show ?thesis by (simp add: buildObject_def AppendByte_def objectText_def)
next
  case (Cons f gs)
  let ?b = "AppendByte (CHR ''{'') b"
  have fk: "\<not> jb_FastKeys ?b" using assms by (simp add: AppendByte_def)
  have B: "jb_B (addField f ?b) = jb_B b @ ''{'' @ fieldText f"
    by (simp add: addField_B [OF fk]) (simp add: Comma_B AppendByte_def)
  then have "last (jb_B (addField f ?b)) = last (fieldText f)"
    using fieldText_last [of f] by simp
  then have "jb_B (fold addField gs (addField f ?b)) =
      (jb_B b @ ''{'' @ fieldText f) @ concat (map (\<lambda>f. CHR '','' # fieldText f) gs)"
    using fold_addField_after [OF addField_B(2) [OF fk], of f gs] fieldText_last [of f] B by simp
  then show ?thesis
    by (simp add: buildObject_def Cons objectText_def fieldsText_Cons AppendByte_def)
qed

text \<open>
  C20. Keys and values added with \<open>AddKey\<close> and the value methods between braces make a JSON
  object that reads back as the same fields in the same order: \<open>Comma\<close> puts a separator exactly
  where one is needed, whatever stands before the object in the buffer.
\<close>

theorem buildObject_roundtrip:
  assumes "\<not> jb_FastKeys b" "list_all fieldSafe fs"
  shows "readObject (drop (length (jb_B b)) (jb_B (buildObject fs b))) = Some (fs, [])"
  using readObject_objectText [OF assms(2), of "[]"] by (simp add: buildObject_B [OF assms(1)])

theorem buildObject_roundtrip_witness:
  "readObject (jb_B (buildObject [(''k'', JString ''a<b''), (''n'', JInt (- 12))] emptyJB)) =
     Some ([(''k'', JString ''a<b''), (''n'', JInt (- 12))], [])"
proof -
  have "list_all fieldSafe [(''k'', JString ''a<b''), (''n'', JInt (- 12))]" by code_simp
  from buildObject_roundtrip [OF _ this, of emptyJB] show ?thesis by (simp add: emptyJB_def)
qed

end
