(* ===== verification/Enums.thy ===== *)
theory Enums
  imports JBuilder
begin

section \<open>Enumerations and their text forms\<close>

text \<open>
  Models the generated \<open>xopnum/level_enumer.go\<close>, \<open>xopconst/spankindenum_enumer.go\<close> and
  \<open>xoprecorder/eventtype_enumer.go\<close> with the constants they stand for, the JSON form of
  \<open>xopproto/extra.go\<close>'s \<open>Encoding\<close> and \<open>AttributeType\<close>, and the data type abbreviations of
  \<open>xopbase/abbr.go\<close>. The contract they share, that parsing a value's name gives the value, is the
  locale \<open>enum_codec\<close>. A Go result \<open>(value, error)\<close> is a pair of the value and a flag that is
  true for an error.
\<close>

subsection \<open>\<open>encoding/json\<close> on strings\<close>

definition goEscape :: "char \<Rightarrow> string" where
  "goEscape c =
     (if c = CHR 0x22 \<or> c = CHR 0x5C then [CHR 0x5C, c]
      else if c = CHR 0x0A then [CHR 0x5C, CHR ''n'']
      else if c = CHR 0x0D then [CHR 0x5C, CHR ''r'']
      else if c = CHR 0x09 then [CHR 0x5C, CHR ''t'']
      else if of_char c < (0x20 :: nat) \<or> c \<in> {CHR ''<'', CHR ''>'', CHR ''&''} then
        CHR 0x5C # ''u00'' @ [digitChars ! (of_char c div 16), digitChars ! (of_char c mod 16)]
      else [c])"

definition json_Marshal_string :: "string \<Rightarrow> string" where
  "json_Marshal_string s = CHR 0x22 # concat (map goEscape s) @ [CHR 0x22]"

definition isJSONSpace :: "char \<Rightarrow> bool" where
  "isJSONSpace c \<longleftrightarrow> c \<in> {CHR '' '', CHR 0x09, CHR 0x0A, CHR 0x0D}"

text \<open>\<open>json.Unmarshal\<close> into a string; \<open>None\<close> is an error.\<close>

definition json_Unmarshal_string :: "string \<Rightarrow> string option" where
  "json_Unmarshal_string d =
     (case readString (dropWhile isJSONSpace d) of
        Some (s, r) \<Rightarrow> if list_all isJSONSpace r then Some s else None
      | None \<Rightarrow> None)"

lemma hexVal_digitChars: "n < 16 \<Longrightarrow> hexVal (digitChars ! n) = Some n"
  by (simp add: hexVal_def digitVal_digitChars del: digitVal.simps)

lemma readBody_u00:
  assumes "a < 8" "b < 16"
  shows "readBody (CHR 0x5C # ''u00'' @ [digitChars ! a, digitChars ! b] @ rest) =
    (case readBody rest of None \<Rightarrow> None | Some (r, cs') \<Rightarrow> Some (char_of (a * 16 + b) # r, cs'))"
proof -
  have "hexVal (CHR ''0'') = Some 0" by code_simp
  with assms show ?thesis by (simp add: hexVal_digitChars)
qed

lemma char_of_split: "char_of (of_char c div 16 * 16 + of_char c mod 16 :: nat) = (c :: char)"
  by (simp only: div_mult_mod_eq char_of_char)

lemma readBody_goEscape:
  "readBody (goEscape c @ rest) = (case readBody rest of None \<Rightarrow> None | Some (r, cs') \<Rightarrow> Some (c # r, cs'))"
proof (cases "c \<in> {CHR 0x22, CHR 0x5C, CHR 0x0A, CHR 0x0D, CHR 0x09}")
  case True
  then show ?thesis by (auto simp: goEscape_def)
next
  case False
  then have n: "c \<noteq> CHR 0x22" "c \<noteq> CHR 0x5C" "c \<noteq> CHR 0x0A" "c \<noteq> CHR 0x0D" "c \<noteq> CHR 0x09" by auto
  show ?thesis
  proof (cases "of_char c < (0x20 :: nat) \<or> c \<in> {CHR ''<'', CHR ''>'', CHR ''&''}")
    case True
    then have "of_char c < (128 :: nat)" by auto
    then have "of_char c div 16 < (8 :: nat)" "of_char c mod 16 < (16 :: nat)" by auto
    from readBody_u00 [OF this, of rest, unfolded char_of_split] True n show ?thesis
      by (simp add: goEscape_def del: readBody.simps)
  next
    case False
    with n show ?thesis by (simp add: goEscape_def)
  qed
qed

lemma readBody_goEscaped: "readBody (concat (map goEscape s) @ CHR 0x22 # rest) = Some (s, rest)"
  by (induction s) (simp_all add: readBody_goEscape del: readBody.simps(2), simp)

lemma json_string_roundtrip: "json_Unmarshal_string (json_Marshal_string s) = Some s"
  using readBody_goEscaped [of s "[]"]
  by (simp add: json_Unmarshal_string_def json_Marshal_string_def readString_def isJSONSpace_def)

subsection \<open>What every \<open>enumer\<close> file does\<close>

text \<open>A map literal: the last of several equal keys counts.\<close>

definition mapLiteral :: "('k \<times> 'v) list \<Rightarrow> 'k \<Rightarrow> 'v option" where
  "mapLiteral m = map_of (rev m)"

definition toLowerChar :: "char \<Rightarrow> char" where
  "toLowerChar c =
     (let n = of_char c :: nat in if 65 \<le> n \<and> n \<le> 90 then char_of (n + 32) else c)"

definition ToLower :: "string \<Rightarrow> string" where
  "ToLower = map toLowerChar"

definition enumer_parse :: "(string \<times> int) list \<Rightarrow> string \<Rightarrow> int \<times> bool" where
  "enumer_parse m s =
     (case mapLiteral m s of
        Some v \<Rightarrow> (v, False)
      | None \<Rightarrow> (case mapLiteral m (ToLower s) of Some v \<Rightarrow> (v, False) | None \<Rightarrow> (0, True)))"

definition enumer_MarshalJSON :: "(int \<Rightarrow> string) \<Rightarrow> int \<Rightarrow> string" where
  "enumer_MarshalJSON name i = json_Marshal_string (name i)"

text \<open>\<open>UnmarshalJSON\<close> stores the value it parsed, also the zero that comes with an error.\<close>

definition enumer_UnmarshalJSON :: "(string \<Rightarrow> int \<times> bool) \<Rightarrow> string \<Rightarrow> int \<Rightarrow> int \<times> bool" where
  "enumer_UnmarshalJSON parse data i =
     (case json_Unmarshal_string data of None \<Rightarrow> (i, True) | Some s \<Rightarrow> parse s)"

datatype scan_value = ScanNil | ScanBytes string | ScanString string | ScanStringer string | ScanOther

definition enumer_Scan :: "(string \<Rightarrow> int \<times> bool) \<Rightarrow> scan_value \<Rightarrow> int \<Rightarrow> int \<times> bool" where
  "enumer_Scan parse v i =
     (let scan = (\<lambda>s. case parse s of (x, err) \<Rightarrow> if err then (i, True) else (x, False)) in
      case v of
        ScanNil \<Rightarrow> (i, False)
      | ScanBytes s \<Rightarrow> scan s
      | ScanString s \<Rightarrow> scan s
      | ScanStringer s \<Rightarrow> scan s
      | ScanOther \<Rightarrow> (i, True))"

definition index_name :: "string \<Rightarrow> nat list \<Rightarrow> string \<Rightarrow> int \<Rightarrow> string" where
  "index_name ty idx names i =
     (if i < 0 \<or> i \<ge> int (length idx - 1) then ty @ ''('' @ Itoa i @ '')''
      else take (idx ! (nat i + 1) - idx ! nat i) (drop (idx ! nat i) names))"

definition index_map :: "nat list \<Rightarrow> string \<Rightarrow> string \<Rightarrow> (string \<times> int) list" where
  "index_map idx names lower =
     concat (map (\<lambda>k. [(take (idx ! (k + 1) - idx ! k) (drop (idx ! k) names), int k),
                      (take (idx ! (k + 1) - idx ! k) (drop (idx ! k) lower), int k)])
       [0..<length idx - 1])"

locale enum_codec =
  fixes vals :: "int list"
    and name :: "int \<Rightarrow> string"
    and parse :: "string \<Rightarrow> int \<times> bool"
  assumes parse_name: "v \<in> set vals \<Longrightarrow> parse (name v) = (v, False)"
begin

lemma name_inj: "inj_on name (set vals)"
  by (rule inj_onI) (metis parse_name prod.inject)

lemma JSON_roundtrip:
  "v \<in> set vals \<Longrightarrow> enumer_UnmarshalJSON parse (enumer_MarshalJSON name v) i = (v, False)"
  by (simp add: enumer_UnmarshalJSON_def enumer_MarshalJSON_def json_string_roundtrip parse_name)

lemma Scan_roundtrip:
  "v \<in> set vals \<Longrightarrow> x \<in> {ScanBytes (name v), ScanString (name v), ScanStringer (name v)} \<Longrightarrow>
   enumer_Scan parse x i = (v, False)"
  by (auto simp: enumer_Scan_def parse_name)

end

subsection \<open>Levels\<close>

definition TraceLevel :: int where "TraceLevel = 2"
definition DebugLevel :: int where "DebugLevel = 7"
definition LogLevel :: int where "LogLevel = 9"
definition InfoLevel :: int where "InfoLevel = 11"
definition WarnLevel :: int where "WarnLevel = 13"
definition ErrorLevel :: int where "ErrorLevel = 17"
definition AlertLevel :: int where "AlertLevel = 20"

lemmas level_defs = TraceLevel_def DebugLevel_def LogLevel_def InfoLevel_def WarnLevel_def
  ErrorLevel_def AlertLevel_def

definition LevelValues :: "int list" where
  "LevelValues = [TraceLevel, DebugLevel, LogLevel, InfoLevel, WarnLevel, ErrorLevel, AlertLevel]"

definition Level_String :: "int \<Rightarrow> string" where
  "Level_String i =
     (if i = 2 then ''trace'' else if i = 7 then ''debug'' else if i = 9 then ''log''
      else if i = 11 then ''info'' else if i = 13 then ''warn'' else if i = 17 then ''error''
      else if i = 20 then ''alert'' else ''Level('' @ Itoa i @ '')'')"

definition LevelNames :: "string list" where
  "LevelNames = [''trace'', ''debug'', ''log'', ''info'', ''warn'', ''error'', ''alert'']"

definition LevelNameToValueMap :: "(string \<times> int) list" where
  "LevelNameToValueMap = concat (map2 (\<lambda>n v. [(n, v), (n, v)]) LevelNames LevelValues)"

definition LevelString :: "string \<Rightarrow> int \<times> bool" where
  "LevelString s = enumer_parse LevelNameToValueMap s"

definition IsALevel :: "int \<Rightarrow> bool" where
  "IsALevel i \<longleftrightarrow> list_ex (\<lambda>v. i = v) LevelValues"

definition Level_MarshalJSON :: "int \<Rightarrow> string" where
  "Level_MarshalJSON = enumer_MarshalJSON Level_String"

definition Level_UnmarshalJSON :: "string \<Rightarrow> int \<Rightarrow> int \<times> bool" where
  "Level_UnmarshalJSON = enumer_UnmarshalJSON LevelString"

definition Level_Scan :: "scan_value \<Rightarrow> int \<Rightarrow> int \<times> bool" where
  "Level_Scan = enumer_Scan LevelString"

lemma LevelString_name: "v \<in> set LevelValues \<Longrightarrow> LevelString (Level_String v) = (v, False)"
proof -
  have "list_all (\<lambda>v. LevelString (Level_String v) = (v, False)) LevelValues" by code_simp
  then show "v \<in> set LevelValues \<Longrightarrow> LevelString (Level_String v) = (v, False)"
    by (simp add: list_all_iff)
qed

interpretation level: enum_codec LevelValues Level_String LevelString
  by unfold_locales (rule LevelString_name)

lemma Level_String_len: "\<not> IsALevel v \<Longrightarrow> Level_String v = ''Level('' @ Itoa v @ '')''"
  by (simp add: IsALevel_def LevelValues_def level_defs Level_String_def)

text \<open>Upper and mixed case names are accepted, a name outside the enumeration is an error.\<close>

lemma LevelString_values: "LevelString s = (v, False) \<Longrightarrow> v \<in> set LevelValues"
proof -
  assume a: "LevelString s = (v, False)"
  have "\<forall>p \<in> set LevelNameToValueMap. snd p \<in> set LevelValues"
    by (simp add: LevelNameToValueMap_def LevelValues_def LevelNames_def)
  moreover have "\<exists>k. (k, v) \<in> set LevelNameToValueMap"
    using a by (auto simp: LevelString_def enumer_parse_def mapLiteral_def split: option.splits
        dest!: map_of_SomeD)
  ultimately show ?thesis by auto
qed

text \<open>
  C37. Every level goes through JSON unchanged, its names are distinct and in the order of the
  levels' numbers, and whatever text parses without error is one of the seven levels.
\<close>

theorem Level_codec:
  "(\<forall>v \<in> set LevelValues. \<forall>i. Level_UnmarshalJSON (Level_MarshalJSON v) i = (v, False)) \<and>
   inj_on Level_String (set LevelValues) \<and> map Level_String LevelValues = LevelNames \<and>
   sorted LevelValues \<and> (\<forall>s v. LevelString s = (v, False) \<longrightarrow> IsALevel v)"
proof (intro conjI allI ballI impI)
  show "map Level_String LevelValues = LevelNames" "sorted LevelValues" by code_simp+
  show "IsALevel v" if "LevelString s = (v, False)" for s v
    using LevelString_values [OF that] by (auto simp: IsALevel_def list_ex_iff)
qed (simp_all add: Level_UnmarshalJSON_def Level_MarshalJSON_def level.JSON_roundtrip level.name_inj)

theorem Level_codec_witness:
  "AlertLevel \<in> set LevelValues \<and> Level_UnmarshalJSON (Level_MarshalJSON AlertLevel) 0 = (AlertLevel, False)"
proof -
  have "AlertLevel \<in> set LevelValues" by (simp add: LevelValues_def)
  with Level_codec show ?thesis by blast
qed

subsection \<open>Span kinds\<close>

definition SpanKindEnumName :: string where
  "SpanKindEnumName = ''UNSPECIFIEDINTERNALSERVERCLIENTPRODUCERCONSUMER''"

definition SpanKindEnumIndex :: "nat list" where
  "SpanKindEnumIndex = [0, 11, 19, 25, 31, 39, 47]"

definition SpanKindEnumLowerName :: string where
  "SpanKindEnumLowerName = ''unspecifiedinternalserverclientproducerconsumer''"

definition SpanKindEnumValues :: "int list" where
  "SpanKindEnumValues = [0, 1, 2, 3, 4, 5]"

definition SpanKindEnum_String :: "int \<Rightarrow> string" where
  "SpanKindEnum_String = index_name ''SpanKindEnum'' SpanKindEnumIndex SpanKindEnumName"

definition SpanKindEnumString :: "string \<Rightarrow> int \<times> bool" where
  "SpanKindEnumString = enumer_parse (index_map SpanKindEnumIndex SpanKindEnumName SpanKindEnumLowerName)"

lemma SpanKindEnumString_name:
  "v \<in> set SpanKindEnumValues \<Longrightarrow> SpanKindEnumString (SpanKindEnum_String v) = (v, False)"
proof -
  have "list_all (\<lambda>v. SpanKindEnumString (SpanKindEnum_String v) = (v, False)) SpanKindEnumValues"
    by code_simp
  then show "v \<in> set SpanKindEnumValues \<Longrightarrow> SpanKindEnumString (SpanKindEnum_String v) = (v, False)"
    by (simp add: list_all_iff)
qed

interpretation spankind: enum_codec SpanKindEnumValues SpanKindEnum_String SpanKindEnumString
  by unfold_locales (rule SpanKindEnumString_name)

subsection \<open>The recorder's event types\<close>

definition LineEvent :: int where "LineEvent = 0"
definition RequestStart :: int where "RequestStart = 1"
definition RequestDone :: int where "RequestDone = 2"
definition SpanStart :: int where "SpanStart = 3"
definition SpanDone :: int where "SpanDone = 4"
definition FlushEvent :: int where "FlushEvent = 5"
definition MetadataSet :: int where "MetadataSet = 6"
definition CustomEvent :: int where "CustomEvent = 7"

definition EventTypeName :: string where
  "EventTypeName = ''linerequestStartrequestDonespanStartspanStartflushmetadatacustom''"

definition EventTypeIndex :: "nat list" where
  "EventTypeIndex = [0, 4, 16, 27, 36, 45, 50, 58, 64]"

definition EventTypeLowerName :: string where
  "EventTypeLowerName = ''linerequeststartrequestdonespanstartspanstartflushmetadatacustom''"

definition EventTypeValues :: "int list" where
  "EventTypeValues = [LineEvent, RequestStart, RequestDone, SpanStart, SpanDone, FlushEvent, MetadataSet, CustomEvent]"

lemmas event_type_defs = LineEvent_def RequestStart_def RequestDone_def SpanStart_def SpanDone_def
  FlushEvent_def MetadataSet_def CustomEvent_def

definition EventType_String :: "int \<Rightarrow> string" where
  "EventType_String = index_name ''EventType'' EventTypeIndex EventTypeName"

definition EventTypeString :: "string \<Rightarrow> int \<times> bool" where
  "EventTypeString = enumer_parse (index_map EventTypeIndex EventTypeName EventTypeLowerName)"

definition EventType_MarshalJSON :: "int \<Rightarrow> string" where
  "EventType_MarshalJSON = enumer_MarshalJSON EventType_String"

definition EventType_UnmarshalJSON :: "string \<Rightarrow> int \<Rightarrow> int \<times> bool" where
  "EventType_UnmarshalJSON = enumer_UnmarshalJSON EventTypeString"

lemma EventTypeString_name:
  "v \<in> set (remove1 SpanStart EventTypeValues) \<Longrightarrow> EventTypeString (EventType_String v) = (v, False)"
proof -
  have "list_all (\<lambda>v. EventTypeString (EventType_String v) = (v, False)) (remove1 SpanStart EventTypeValues)"
    by code_simp
  then show "v \<in> set (remove1 SpanStart EventTypeValues) \<Longrightarrow> EventTypeString (EventType_String v) = (v, False)"
    by (simp add: list_all_iff)
qed

interpretation event_type: enum_codec "remove1 SpanStart EventTypeValues" EventType_String EventTypeString
  by unfold_locales (rule EventTypeString_name)

text \<open>
  Seven of the recorder's eight event types go through JSON unchanged. \<open>SpanStart\<close> does not:
  it shares its name with \<open>SpanDone\<close> and comes back as that.
\<close>

theorem EventType_codec:
  "EventType_UnmarshalJSON (EventType_MarshalJSON v) i =
     (if v = SpanStart then (SpanDone, False) else (v, False)) \<or> v \<notin> set EventTypeValues"
proof (cases "v = SpanStart")
  case True
  have "EventTypeString (EventType_String SpanStart) = (SpanDone, False)" by code_simp
  then show ?thesis using True
    by (simp add: EventType_UnmarshalJSON_def EventType_MarshalJSON_def enumer_UnmarshalJSON_def
        enumer_MarshalJSON_def json_string_roundtrip)
next
  case False
  show ?thesis
  proof (cases "v \<in> set EventTypeValues")
    case True
    with False have "v \<in> set (remove1 SpanStart EventTypeValues)" by (simp add: in_set_remove1)
    from event_type.JSON_roundtrip [OF this] False show ?thesis
      by (simp add: EventType_UnmarshalJSON_def EventType_MarshalJSON_def)
  qed simp
qed

theorem EventType_codec_witness:
  "EventType_UnmarshalJSON (EventType_MarshalJSON SpanStart) 0 = (SpanDone, False)"
proof -
  have "SpanStart \<in> set EventTypeValues" by (simp add: EventTypeValues_def)
  with EventType_codec [of SpanStart 0] show ?thesis by simp
qed

subsection \<open>Attribute types and encodings\<close>

definition AttributeType_name :: "(int \<times> string) list" where
  "AttributeType_name =
    [
     (0, ''Unknown''), (1, ''Bool''), (2, ''Float64''), (3, ''Float32''), (4, ''Int64''),
     (5, ''Int32''), (6, ''Int16''), (7, ''Int8''), (8, ''Int''), (9, ''String''),
     (10, ''Link''), (11, ''Any''), (12, ''Time''), (13, ''Duration''), (14, ''Enum''),
     (100, ''Uint64''), (101, ''Uint32''), (102, ''Uint16''), (103, ''Uint8''), (104, ''Uint''),
     (105, ''Uintptr''), (106, ''Stringer''), (107, ''Error''), (201, ''ArrayBool''),
     (202, ''ArrayFloat64''), (203, ''ArrayFloat32''), (204, ''ArrayInt64''),
     (205, ''ArrayInt32''), (206, ''ArrayInt16''), (207, ''ArrayInt8''), (208, ''ArrayInt''),
     (209, ''ArrayString''), (210, ''ArrayLink''), (211, ''ArrayAny''), (212, ''ArrayTime''),
     (213, ''ArrayDuration''), (214, ''ArrayEnum''), (300, ''ArrayUint64''),
     (301, ''ArrayUint32''), (302, ''ArrayUint16''), (303, ''ArrayUint8''), (304, ''ArrayUint''),
     (305, ''ArrayUintptr''), (306, ''ArrayStringer''), (307, ''ArrayError'')]"

definition Encoding_name :: "(int \<times> string) list" where
  "Encoding_name = [(0, ''Unset''), (1, ''JSON''), (2, ''XML''), (3, ''CSV''), (4, ''ErrorMessage''),
     (5, ''OneLineCSV'')]"

definition swapPairs :: "('a \<times> 'b) list \<Rightarrow> ('b \<times> 'a) list" where
  "swapPairs = map (\<lambda>(a, b). (b, a))"

definition AttributeType_value :: "string \<Rightarrow> int option" where
  "AttributeType_value = mapLiteral (swapPairs AttributeType_name)"

definition Encoding_value :: "string \<Rightarrow> int option" where
  "Encoding_value = mapLiteral (swapPairs Encoding_name)"

text \<open>The quoted names of \<open>encodingBytes\<close> and \<open>attributeTypeBytes\<close>.\<close>

definition nameBytes :: "(int \<times> string) list \<Rightarrow> int \<Rightarrow> string option" where
  "nameBytes m i = map_option (\<lambda>s. CHR 0x22 # s @ [CHR 0x22]) (mapLiteral m i)"

text \<open>\<open>strconv.ParseInt(s, 10, 64)\<close> of a text that starts with a digit.\<close>

definition ParseInt64 :: "string \<Rightarrow> int option" where
  "ParseInt64 s =
     (case ParseNat 10 s of None \<Rightarrow> None | Some n \<Rightarrow> if n < 2 ^ 63 then Some (int n) else None)"

text \<open>The conversion of an \<open>int64\<close> to a type whose underlying type is \<open>int32\<close>.\<close>

definition toInt32 :: "int \<Rightarrow> int" where
  "toInt32 i = signed_take_bit 31 i"

text \<open>The result is \<^term>\<open>None\<close> where the code panics, else the new value and the error flag.\<close>

definition xopproto_unmarshal ::
    "int \<Rightarrow> string \<Rightarrow> (string \<Rightarrow> int option) \<Rightarrow> (int \<Rightarrow> string option) \<Rightarrow> (int \<times> bool) option" where
  "xopproto_unmarshal x b s2i i2b =
     (if b = [] then Some (x, True)
      else if isDigit (hd b) then
        (case ParseInt64 b of
           None \<Rightarrow> Some (x, True)
         | Some i \<Rightarrow> if i2b (toInt32 i) = None then Some (x, True) else Some (toInt32 i, False))
      else if hd b = CHR 0x22 then
        (if last b \<noteq> CHR 0x22 then Some (x, True)
         else if length b < 2 then None
         else (case s2i (butlast (tl b)) of Some i \<Rightarrow> Some (i, False) | None \<Rightarrow> Some (x, True)))
      else Some (x, True))"

definition Encoding_MarshalJSON :: "int \<Rightarrow> string option" where
  "Encoding_MarshalJSON x = nameBytes Encoding_name x"

definition Encoding_UnmarshalJSON :: "string \<Rightarrow> int \<Rightarrow> (int \<times> bool) option" where
  "Encoding_UnmarshalJSON b x = xopproto_unmarshal x b Encoding_value (nameBytes Encoding_name)"

definition AttributeType_MarshalJSON :: "int \<Rightarrow> string option" where
  "AttributeType_MarshalJSON x = nameBytes AttributeType_name x"

definition AttributeType_UnmarshalJSON :: "string \<Rightarrow> int \<Rightarrow> (int \<times> bool) option" where
  "AttributeType_UnmarshalJSON b x = xopproto_unmarshal x b AttributeType_value (nameBytes AttributeType_name)"

definition Encoding_ToString :: "int \<Rightarrow> string" where
  "Encoding_ToString x = (case mapLiteral Encoding_name x of Some s \<Rightarrow> s | None \<Rightarrow> Itoa x)"

definition Encoding_FromString :: "string \<Rightarrow> int \<Rightarrow> (int \<times> bool) option" where
  "Encoding_FromString s x =
     (if s = [] then None
      else if isDigit (hd s) then
        (case ParseInt64 s of None \<Rightarrow> Some (x, True) | Some i \<Rightarrow> Some (toInt32 i, False))
      else (case Encoding_value s of Some i \<Rightarrow> Some (i, False) | None \<Rightarrow> Some (x, True)))"

definition named_parse :: "(string \<Rightarrow> int option) \<Rightarrow> string \<Rightarrow> int \<times> bool" where
  "named_parse s2i s = (case s2i s of Some i \<Rightarrow> (i, False) | None \<Rightarrow> (0, True))"

text \<open>
  A table of names read in both directions: no value and no name occurs twice.
\<close>

definition bijective_table :: "(int \<times> string) list \<Rightarrow> bool" where
  "bijective_table m \<longleftrightarrow> distinct (map fst m) \<and> distinct (map snd m)"

lemma mapLiteral_distinct: "distinct (map fst m) \<Longrightarrow> mapLiteral m k = Some v \<longleftrightarrow> (k, v) \<in> set m"
  unfolding mapLiteral_def by (subst map_of_eq_Some_iff) (simp_all add: rev_map [symmetric])

lemma mapLiteral_swap:
  assumes "bijective_table m"
  shows "mapLiteral (swapPairs m) s = Some i \<longleftrightarrow> mapLiteral m i = Some s"
proof -
  have "map fst (swapPairs m) = map snd m"
    by (simp add: swapPairs_def split_beta)
  then have d: "distinct (map fst (swapPairs m))" "distinct (map fst m)"
    using assms by (simp_all add: bijective_table_def)
  have "(s, i) \<in> set (swapPairs m) \<longleftrightarrow> (i, s) \<in> set m"
    by (auto simp: swapPairs_def)
  with mapLiteral_distinct [OF d(1)] mapLiteral_distinct [OF d(2)] show ?thesis by simp
qed

lemma distinct_ints:
  "distinct (map fst AttributeType_name)" "distinct (map fst Encoding_name)"
  by (simp_all add: AttributeType_name_def Encoding_name_def)

lemma AttributeType_table: "bijective_table AttributeType_name"
proof -
  have "distinct (map snd AttributeType_name)" by code_simp
  then show ?thesis by (simp add: bijective_table_def distinct_ints)
qed

lemma Encoding_table: "bijective_table Encoding_name"
proof -
  have "distinct (map snd Encoding_name)" by code_simp
  then show ?thesis by (simp add: bijective_table_def distinct_ints)
qed

lemma unmarshal_name:
  assumes "bijective_table m" "nameBytes m v = Some b"
  shows "xopproto_unmarshal x b (mapLiteral (swapPairs m)) (nameBytes m) = Some (v, False)"
proof -
  obtain s where s: "mapLiteral m v = Some s" "b = CHR 0x22 # s @ [CHR 0x22]"
    using assms(2) by (auto simp: nameBytes_def)
  then have "mapLiteral (swapPairs m) s = Some v" using mapLiteral_swap [OF assms(1)] by simp
  then show ?thesis using s(2) by (simp add: xopproto_unmarshal_def isDigit_def)
qed

lemma unmarshal_defined:
  assumes "bijective_table m"
    "xopproto_unmarshal x b (mapLiteral (swapPairs m)) (nameBytes m) = Some (v, False)"
  shows "nameBytes m v \<noteq> None"
  using assms(2) mapLiteral_swap [OF assms(1)]
  by (auto simp: xopproto_unmarshal_def nameBytes_def split: if_splits option.splits)

lemma named_parse_name:
  assumes "bijective_table m" "v \<in> set (map fst m)"
  shows "named_parse (mapLiteral (swapPairs m)) (the (mapLiteral m v)) = (v, False)"
proof -
  have "distinct (map fst m)" using assms(1) by (simp add: bijective_table_def)
  with assms(2) obtain s where s: "mapLiteral m v = Some s"
    using mapLiteral_distinct [of m] by fastforce
  then have "mapLiteral (swapPairs m) s = Some v" using mapLiteral_swap [OF assms(1)] by simp
  with s show ?thesis by (simp add: named_parse_def)
qed

interpretation attribute_type: enum_codec "map fst AttributeType_name"
    "\<lambda>i. the (mapLiteral AttributeType_name i)" "named_parse AttributeType_value"
  unfolding AttributeType_value_def
  by unfold_locales (rule named_parse_name [OF AttributeType_table])

interpretation encoding: enum_codec "map fst Encoding_name"
    "\<lambda>i. the (mapLiteral Encoding_name i)" "named_parse Encoding_value"
  unfolding Encoding_value_def
  by unfold_locales (rule named_parse_name [OF Encoding_table])

text \<open>
  C38. The JSON form of attribute types and encodings: exactly the declared values can be
  written, each reads back as itself, and nothing but a declared value is ever read without an
  error. Numbers are reduced to 32 bits before the check, so \<open>4294967297\<close> reads as the value 1.
\<close>

theorem xopproto_JSON:
  "(\<forall>v b. AttributeType_MarshalJSON v = Some b \<longrightarrow> AttributeType_UnmarshalJSON b x = Some (v, False)) \<and>
   (\<forall>v b. Encoding_MarshalJSON v = Some b \<longrightarrow> Encoding_UnmarshalJSON b x = Some (v, False)) \<and>
   (\<forall>v b. AttributeType_UnmarshalJSON b x = Some (v, False) \<longrightarrow> AttributeType_MarshalJSON v \<noteq> None) \<and>
   (\<forall>v b. Encoding_UnmarshalJSON b x = Some (v, False) \<longrightarrow> Encoding_MarshalJSON v \<noteq> None) \<and>
   Encoding_UnmarshalJSON ''4294967297'' x = Some (1, False)"
proof (intro conjI allI impI)
  show "Encoding_UnmarshalJSON ''4294967297'' x = Some (1, False)"
  proof -
    have "ParseInt64 ''4294967297'' = Some 4294967297" by (simp add: ParseInt64_def ParseNat_def)
    moreover have "nameBytes Encoding_name 1 \<noteq> None" by code_simp
    moreover have "toInt32 4294967297 = 1"
      by (simp add: toInt32_def signed_take_bit_eq_take_bit_shift take_bit_int_def)
    ultimately show ?thesis by (simp add: Encoding_UnmarshalJSON_def xopproto_unmarshal_def isDigit_def)
  qed
next
  note defs = AttributeType_MarshalJSON_def AttributeType_UnmarshalJSON_def AttributeType_value_def
    Encoding_MarshalJSON_def Encoding_UnmarshalJSON_def Encoding_value_def
  fix v b
  show "AttributeType_MarshalJSON v = Some b \<Longrightarrow> AttributeType_UnmarshalJSON b x = Some (v, False)"
    "Encoding_MarshalJSON v = Some b \<Longrightarrow> Encoding_UnmarshalJSON b x = Some (v, False)"
    unfolding defs by (rule unmarshal_name [OF AttributeType_table], assumption,
        rule unmarshal_name [OF Encoding_table])
  show "AttributeType_UnmarshalJSON b x = Some (v, False) \<Longrightarrow> AttributeType_MarshalJSON v \<noteq> None"
    "Encoding_UnmarshalJSON b x = Some (v, False) \<Longrightarrow> Encoding_MarshalJSON v \<noteq> None"
    unfolding defs by (rule unmarshal_defined [OF AttributeType_table], assumption,
        rule unmarshal_defined [OF Encoding_table])
qed

theorem xopproto_JSON_witness:
  "Encoding_MarshalJSON 2 = Some (CHR 0x22 # ''XML'' @ [CHR 0x22]) \<and>
   Encoding_UnmarshalJSON (CHR 0x22 # ''XML'' @ [CHR 0x22]) 0 = Some (2, False)"
proof -
  have "Encoding_MarshalJSON 2 = Some (CHR 0x22 # ''XML'' @ [CHR 0x22])" by code_simp
  with xopproto_JSON [of 0] show ?thesis by blast
qed

lemma ParseInt64_Itoa: "0 \<le> x \<Longrightarrow> x < 2 ^ 31 \<Longrightarrow> ParseInt64 (Itoa x) = Some x"
  by (simp add: ParseInt64_def Itoa_def FormatInt_def ParseNat_formatNat)

lemma Itoa_digit: "0 \<le> x \<Longrightarrow> Itoa x \<noteq> [] \<and> isDigit (hd (Itoa x))"
  using formatNat_digits [of "nat x"] formatNat_nonempty [of 10 "nat x"]
  by (cases "formatNat 10 (nat x)") (auto simp: Itoa_def FormatInt_def)

lemma toInt32_id: "0 \<le> x \<Longrightarrow> x < 2 ^ 31 \<Longrightarrow> toInt32 x = x"
  by (simp add: toInt32_def signed_take_bit_int_eq_self)

text \<open>
  \<open>FromString\<close> reads back what \<open>ToString\<close> writes for every encoding that is not negative,
  a declared one by its name and any other by its number; it panics on the empty string only.
\<close>

theorem Encoding_string_roundtrip:
  assumes "0 \<le> e" "e < 2 ^ 31"
  shows "Encoding_FromString (Encoding_ToString e) x = Some (e, False) \<and>
    (\<forall>s. Encoding_FromString s x = None \<longleftrightarrow> s = [])"
proof
  show "Encoding_FromString (Encoding_ToString e) x = Some (e, False)"
  proof (cases "mapLiteral Encoding_name e")
    case None
    then show ?thesis
      using Itoa_digit [OF assms(1)] ParseInt64_Itoa [OF assms] toInt32_id [OF assms]
      by (simp add: Encoding_ToString_def Encoding_FromString_def)
  next
    case (Some s)
    have "list_all (\<lambda>(i, s). s \<noteq> [] \<and> \<not> isDigit (hd s)) Encoding_name" by code_simp
    moreover have "(e, s) \<in> set Encoding_name"
      using Some mapLiteral_distinct [OF distinct_ints(2)] by simp
    ultimately have "s \<noteq> [] \<and> \<not> isDigit (hd s)" by (auto simp: list_all_iff)
    moreover have "Encoding_value s = Some e"
      using Some mapLiteral_swap [OF Encoding_table] by (simp add: Encoding_value_def)
    ultimately show ?thesis using Some by (simp add: Encoding_ToString_def Encoding_FromString_def)
  qed
qed (auto simp: Encoding_FromString_def split: option.splits)

theorem Encoding_string_roundtrip_witness:
  "Encoding_FromString (Encoding_ToString 77) 0 = Some (77, False)"
  using Encoding_string_roundtrip [of 77 0] by simp

subsection \<open>Data type abbreviations\<close>

definition DataTypeToString :: "(int \<times> string) list" where
  "DataTypeToString =
    [
     (11, ''any''), (1, ''bool''), (13, ''dur''), (14, ''enum''), (107, ''error''), (3, ''f32''),
     (2, ''f64''), (8, ''i''), (6, ''i16''), (5, ''i32''), (4, ''i64''), (7, ''i8''), (9, ''s''),
     (106, ''stringer''), (12, ''time''), (104, ''u''), (102, ''u16''), (101, ''u32''),
     (100, ''u64''), (103, ''u8''), (105, ''uintptr'')]"

definition StringToDataType :: "string \<Rightarrow> int option" where
  "StringToDataType = mapLiteral (swapPairs DataTypeToString)"

lemma DataType_table: "bijective_table DataTypeToString"
proof -
  have "distinct (map snd DataTypeToString)" by code_simp
  moreover have "distinct (map fst DataTypeToString)" by (simp add: DataTypeToString_def)
  ultimately show ?thesis by (simp add: bijective_table_def)
qed

interpretation data_type: enum_codec "map fst DataTypeToString"
    "\<lambda>i. the (mapLiteral DataTypeToString i)" "named_parse StringToDataType"
  unfolding StringToDataType_def
  by unfold_locales (rule named_parse_name [OF DataType_table])

end
