(* ===== verification/Attributes.thy ===== *)
theory Attributes
  imports Enums
begin

section \<open>Attribute definitions and their registry\<close>

text \<open>
  Models \<open>xopat/attributes.go\<close>, \<open>xopat/registry.go\<close>, \<open>xopat/reserved.go\<close>, \<open>xopat/mappings.go\<close>,
  \<open>xopat/json.go\<close>, \<open>xopat/key.go\<close>, \<open>xopat/enum.go\<close> and \<open>xoputil/xopversion\<close>. An example value is known by its type's name
  (\<open>None\<close> for nil). The process-wide attribute counter is passed along with the registry. Two
  parameters stand for code outside the repository: \<open>strict\<close> is \<open>semver.StrictNewVersion\<close> followed
  by \<open>String\<close>, \<open>quote\<close> is \<open>strconv.AppendQuote\<close>'s text.
\<close>

subsection \<open>Namespaces with a version\<close>

definition isGoSpace :: "char \<Rightarrow> bool" where
  "isGoSpace c \<longleftrightarrow> c \<in> {CHR '' '', CHR 0x09, CHR 0x0A, CHR 0x0C, CHR 0x0D}"

text \<open>\<open>\d+\<close> followed by the character \<open>c\<close>: what is left of the text.\<close>

definition digitsThen :: "char \<Rightarrow> string \<Rightarrow> string option" where
  "digitsThen c s =
     (case dropWhile isDigit s of
        d # r \<Rightarrow> if takeWhile isDigit s \<noteq> [] \<and> d = c then Some r else None
      | [] \<Rightarrow> None)"

text \<open>\<open>^\d+\.\d+\.\d+(?:-\S+)?$\<close>\<close>

definition isVersionText :: "string \<Rightarrow> bool" where
  "isVersionText s =
     (case digitsThen (CHR ''.'') s of
        None \<Rightarrow> False
      | Some s1 \<Rightarrow>
          (case digitsThen (CHR ''.'') s1 of
             None \<Rightarrow> False
           | Some s2 \<Rightarrow>
               takeWhile isDigit s2 \<noteq> [] \<and>
               (case dropWhile isDigit s2 of
                  [] \<Rightarrow> True
                | d # r \<Rightarrow> d = CHR ''-'' \<and> r \<noteq> [] \<and> list_all (\<lambda>c. \<not> isGoSpace c) r)))"

text \<open>\<open>[- ]v?\<close> and a version: the version.\<close>

definition versionSuffix :: "string \<Rightarrow> string option" where
  "versionSuffix s =
     (case s of
        [] \<Rightarrow> None
      | c # r \<Rightarrow>
          if c = CHR ''-'' \<or> c = CHR '' '' then
            (let v = (case r of d # r' \<Rightarrow> if d = CHR ''v'' then r' else r | [] \<Rightarrow> r) in
             if isVersionText v then Some v else None)
          else None)"

text \<open>The greedy \<open>^(.+)\<close> prefers the longest name; \<open>n\<close> counts down from the longest.\<close>

fun namespaceVersionFrom :: "nat \<Rightarrow> string \<Rightarrow> (string \<times> string) option" where
  "namespaceVersionFrom 0 s = None"
| "namespaceVersionFrom (Suc n) s =
     (case versionSuffix (drop (Suc n) s) of
        Some v \<Rightarrow> if list_all (\<lambda>c. c \<noteq> CHR 0x0A) (take (Suc n) s) then Some (take (Suc n) s, v)
                  else namespaceVersionFrom n s
      | None \<Rightarrow> namespaceVersionFrom n s)"

definition namespaceVersionRE :: "string \<Rightarrow> (string \<times> string) option" where
  "namespaceVersionRE s = namespaceVersionFrom (length s) s"

definition SplitVersionWithError :: "(string \<Rightarrow> string option) \<Rightarrow> string \<Rightarrow> (string \<times> string) option" where
  "SplitVersionWithError strict namespace =
     (let (namespace, version) =
        (case namespaceVersionRE namespace of Some m \<Rightarrow> m | None \<Rightarrow> (namespace, ''0.0.0'')) in
      case strict version of None \<Rightarrow> None | Some sver \<Rightarrow> Some (namespace, sver))"

definition SplitVersion :: "(string \<Rightarrow> string option) \<Rightarrow> string \<Rightarrow> string \<times> string" where
  "SplitVersion strict namespace =
     (case SplitVersionWithError strict namespace of Some r \<Rightarrow> r | None \<Rightarrow> (namespace, ''0.0.0''))"

subsection \<open>Console keys\<close>

definition isWordChar :: "char \<Rightarrow> bool" where
  "isWordChar c \<longleftrightarrow>
     (let n = of_char c :: nat in
      48 \<le> n \<and> n \<le> 57 \<or> 65 \<le> n \<and> n \<le> 90 \<or> 97 \<le> n \<and> n \<le> 122 \<or> n = 95)"

definition isSafeEdge :: "char \<Rightarrow> bool" where
  "isSafeEdge c \<longleftrightarrow> isWordChar c \<or> c = CHR 0x27 \<or> c = CHR 0x60 \<or> c \<in> set ''-_~!@#$%^&*[]{};<>.?/''"

definition safeRE :: "string \<Rightarrow> bool" where
  "safeRE s \<longleftrightarrow> s \<noteq> [] \<and> isSafeEdge (hd s) \<and> isSafeEdge (last s) \<and>
     list_all (\<lambda>c. isSafeEdge c \<or> c = CHR '':'') s"

definition AddConsoleString :: "(string \<Rightarrow> string) \<Rightarrow> string \<Rightarrow> JBuilder \<Rightarrow> JBuilder" where
  "AddConsoleString quote s b =
     (if safeRE s \<and> s \<noteq> ''t'' \<and> s \<noteq> ''f'' then appendB s b else appendB (quote s) b)"

subsection \<open>Attributes\<close>

record Make =
  mk_Key :: string
  mk_Description :: string
  mk_Namespace :: string
  mk_Indexed :: bool
  mk_Prominence :: int
  mk_Multiple :: bool
  mk_Distinct :: bool
  mk_Ranged :: bool
  mk_Locked :: bool

record enumValue =
  ev_value :: i64
  ev_str :: string

record Attribute =
  at_namespace :: string
  at_version :: string
  at_properties :: Make
  at_key :: string
  at_jsonKey :: string
  at_consoleKey :: string
  at_reflectType :: "string option"
  at_typeName :: string
  at_subType :: int
  at_names :: "(i64 \<times> string) list"
  at_values :: "(string \<times> enumValue) list"
  at_defSize :: i32
  at_number :: i32
  at_jsonDef :: string

definition zeroMake :: Make where
  "zeroMake = \<lparr>mk_Key = [], mk_Description = [], mk_Namespace = [], mk_Indexed = False,
     mk_Prominence = 0, mk_Multiple = False, mk_Distinct = False, mk_Ranged = False, mk_Locked = False\<rparr>"

definition zeroAttribute :: Attribute where
  "zeroAttribute = \<lparr>at_namespace = [], at_version = [], at_properties = zeroMake, at_key = [],
     at_jsonKey = [], at_consoleKey = [], at_reflectType = None, at_typeName = [], at_subType = 0,
     at_names = [], at_values = [], at_defSize = 0, at_number = 0, at_jsonDef = []\<rparr>"

record Registry =
  rg_registeredNames :: "(string \<times> Attribute) list"
  rg_allAttributes :: "Attribute list"
  rg_errOnDuplicate :: bool

definition NewRegistry :: "bool \<Rightarrow> Registry" where
  "NewRegistry e = \<lparr>rg_registeredNames = [], rg_allAttributes = [], rg_errOnDuplicate = e\<rparr>"

definition reservedKeys :: "string list" where
  "reservedKeys =
    [''dur'', ''impl'', ''name'', ''request'', ''request.id'', ''span'', ''span.ver'', ''trace'',
     ''trace.baggage'', ''trace.header'', ''trace.id'', ''trace.parent'', ''trace.state'', ''ts'', ''type'']"

definition K_JSON :: "string \<Rightarrow> string" where
  "K_JSON k = jb_B (AppendByte (CHR 0x22) (AddStringBody k (AppendByte (CHR 0x22) emptyJB)))"

definition AttributeType_String :: "int \<Rightarrow> string" where
  "AttributeType_String t = (case mapLiteral AttributeType_name t of Some s \<Rightarrow> s | None \<Rightarrow> Itoa t)"

text \<open>A Go string literal that holds double quotes, written with \<open>`\<close> in their place.\<close>

definition q :: "string \<Rightarrow> string" where
  "q s = map (\<lambda>c. if c = CHR 0x60 then CHR 0x22 else c) s"

definition jsonAttributeDefinition :: "Attribute \<Rightarrow> string" where
  "jsonAttributeDefinition k =
     (let p = at_properties k;
          b = AppendBytes (q ''{`type`:`defineKey`,`key`:'') emptyJB;
          b = AppendBytes (K_JSON (at_key k)) b;
          b = AppendBytes (q '',`desc`:`'') b;
          b = AddStringBody (mk_Description p) b;
          b = AppendBytes (q ''`,`ns`:`'') b;
          b = AddStringBody (at_namespace k) b;
          b = AppendByte (CHR '' '') b;
          b = AddStringBody (at_version k) b;
          b = AppendBytes (if mk_Indexed p then q ''`,`indexed`:true,`prom`:'' else q ''`,`prom`:'') b;
          b = AddInt32 (word_of_int (mk_Prominence p)) b;
          b = AppendBytes
                (if mk_Multiple p then
                   (if mk_Distinct p then q '',`mult`:true,`distinct`:true,`vtype`:''
                    else q '',`mult`:true,`vtype`:'')
                 else if mk_Locked p then q '',`locked`:true,`vtype`:'' else q '',`vtype`:'') b;
          b = AddSafeString (AttributeType_String (at_subType k)) b;
          b = (if mk_Ranged p then AppendBytes (q '',`ranged`:true'') b else b)
      in jb_B (AppendBytes (''}'' @ [CHR 0x0A]) b))"

datatype make_error = DuplicateKey | ReservedKey | BadVersion

text \<open>
  \<open>(Make).make\<close>: the attribute, the error, the registry and the attribute counter. The mutex is
  held for the whole call.
\<close>

definition Make_make ::
    "(string \<Rightarrow> string option) \<Rightarrow> (string \<Rightarrow> string) \<Rightarrow> string \<Rightarrow> Make \<Rightarrow> string option \<Rightarrow> int \<Rightarrow>
     Registry \<times> i32 \<Rightarrow> (Attribute \<times> make_error option) \<times> (Registry \<times> i32)" where
  "Make_make strict quote DefaultNamespace s example subType st =
     (let (r, count) = st in
      case map_of (rg_registeredNames r) (mk_Key s) of
        Some prior \<Rightarrow> ((prior, if rg_errOnDuplicate r then Some DuplicateKey else None), st)
      | None \<Rightarrow>
          if mk_Key s \<in> set reservedKeys then ((zeroAttribute, Some ReservedKey), st)
          else
            let namespace = (if mk_Namespace s = [] then DefaultNamespace else mk_Namespace s);
                jsonKey = json_Marshal_string (mk_Key s) @ '':'';
                ck = AppendByte (CHR ''='') (AddConsoleString quote (mk_Key s) emptyJB)
            in case SplitVersionWithError strict namespace of
                 None \<Rightarrow> ((zeroAttribute, Some BadVersion), st)
               | Some (namespace, sver) \<Rightarrow>
                   let count = count + 1;
                       ra = \<lparr>at_namespace = namespace, at_version = sver, at_properties = s,
                         at_key = mk_Key s, at_jsonKey = jsonKey, at_consoleKey = jb_B ck,
                         at_reflectType = example,
                         at_typeName = (case example of Some t \<Rightarrow> t | None \<Rightarrow> ''<nil>''),
                         at_subType = subType, at_names = [], at_values = [],
                         at_defSize = word_of_nat (length namespace + length (mk_Key s) +
                           length (mk_Description s) + length sver),
                         at_number = count, at_jsonDef = []\<rparr>;
                       ra = ra\<lparr>at_jsonDef := jsonAttributeDefinition ra\<rparr>
                   in ((ra, None),
                       (r\<lparr>rg_registeredNames := aput (mk_Key s) ra (rg_registeredNames r),
                          rg_allAttributes := rg_allAttributes r @ [ra]\<rparr>, count)))"

text \<open>
  \<open>(Make).attribute\<close>: without a place to report the error it panics, which is \<^term>\<open>None\<close>.
\<close>

definition Make_attribute ::
    "(string \<Rightarrow> string option) \<Rightarrow> (string \<Rightarrow> string) \<Rightarrow> string \<Rightarrow> bool \<Rightarrow> Make \<Rightarrow> string option \<Rightarrow> int \<Rightarrow>
     Registry \<times> i32 \<Rightarrow> ((Attribute \<times> make_error option) \<times> (Registry \<times> i32)) option" where
  "Make_attribute strict quote dflt report s example subType st =
     (let ((a, err), st') = Make_make strict quote dflt s example subType st in
      if err \<noteq> None \<and> \<not> report then None else Some ((a, err), st'))"

definition SpanAttributeType :: "int \<Rightarrow> int" where
  "SpanAttributeType t = (if t \<in> {8, 7, 6, 5, 13} then 4 else t)"

text \<open>
  The generated constructors of the typed attributes differ in the example value and the type
  they pass; \<open>attribute_kind\<close> lists them.
\<close>

datatype attribute_kind =
  AnyK | BoolK | Float64K | Int64K | LinkK | StringK | TimeK | EnumK | DurationK | IntK | Int16K | Int32K | Int8K

fun kind_type :: "attribute_kind \<Rightarrow> int" where
  "kind_type AnyK = 11"
| "kind_type BoolK = 1"
| "kind_type Float64K = 2"
| "kind_type Int64K = 4"
| "kind_type LinkK = 10"
| "kind_type StringK = 9"
| "kind_type TimeK = 12"
| "kind_type EnumK = 14"
| "kind_type DurationK = 13"
| "kind_type IntK = 8"
| "kind_type Int16K = 6"
| "kind_type Int32K = 5"
| "kind_type Int8K = 7"

fun kind_example :: "attribute_kind \<Rightarrow> string option" where
  "kind_example AnyK = Some ''int''"
| "kind_example BoolK = Some ''bool''"
| "kind_example Float64K = Some ''float64''"
| "kind_example Int64K = Some ''int64''"
| "kind_example LinkK = Some ''xoptrace.Trace''"
| "kind_example StringK = Some ''string''"
| "kind_example TimeK = Some ''time.Time''"
| "kind_example EnumK = None"
| "kind_example DurationK = Some ''time.Duration''"
| "kind_example IntK = Some ''int''"
| "kind_example Int16K = Some ''int16''"
| "kind_example Int32K = Some ''int32''"
| "kind_example Int8K = Some ''int8''"

datatype construct_error = WrongKind | MakeError make_error

text \<open>
  The attribute that comes with an error is the zero one or the prior one; only the constructor
  of enums withholds it.
\<close>

definition Registry_Construct ::
    "(string \<Rightarrow> string option) \<Rightarrow> (string \<Rightarrow> string) \<Rightarrow> string \<Rightarrow> attribute_kind \<Rightarrow> Make \<Rightarrow> int \<Rightarrow>
     Registry \<times> i32 \<Rightarrow> (Attribute option \<times> construct_error option) \<times> (Registry \<times> i32)" where
  "Registry_Construct strict quote dflt k s t st =
     (if SpanAttributeType t \<noteq> SpanAttributeType (kind_type k) then ((None, Some WrongKind), st)
      else let ((a, err), st') = Make_make strict quote dflt s (kind_example k) t st in
           (case err of
              Some e \<Rightarrow> ((if k = EnumK then None else Some a, Some (MakeError e)), st')
            | None \<Rightarrow> ((Some a, None), st')))"

subsection \<open>Enumerated values\<close>

definition EnumName :: "Attribute \<Rightarrow> i64 \<Rightarrow> string" where
  "EnumName a v = (case map_of (at_names a) v of Some n \<Rightarrow> n | None \<Rightarrow> [])"

definition GetEnum :: "Attribute \<Rightarrow> string \<Rightarrow> enumValue option" where
  "GetEnum a n = map_of (at_values a) n"

definition Add64 :: "i64 \<Rightarrow> string \<Rightarrow> Attribute \<Rightarrow> Attribute \<times> enumValue" where
  "Add64 i s a =
     (let n = \<lparr>ev_value = i, ev_str = s\<rparr> in
      (a\<lparr>at_names := aput i s (at_names a), at_values := aput s n (at_values a)\<rparr>, n))"

record IotaEnumAttribute =
  ie_counter :: i64
  ie_Attribute :: Attribute

definition Iota :: "string \<Rightarrow> IotaEnumAttribute \<Rightarrow> IotaEnumAttribute \<times> enumValue" where
  "Iota s e =
     (let old = ie_counter e + 1;
          a = ie_Attribute e;
          n = \<lparr>ev_value = old + 1, ev_str = s\<rparr>
      in (e\<lparr>ie_counter := old,
            ie_Attribute := a\<lparr>at_names := aput (old + 1) s (at_names a), at_values := aput s n (at_values a)\<rparr>\<rparr>, n))"

text \<open>\<open>reflect.TypeOf(v)\<close>, whether the value is an integer, its value and its \<open>String()\<close>.\<close>

record stringer =
  sg_type :: "string option"
  sg_isInt :: bool
  sg_Int :: i64
  sg_String :: string

definition TryAddStringer :: "stringer \<Rightarrow> Attribute \<Rightarrow> Attribute \<times> enumValue option" where
  "TryAddStringer v a =
     (if sg_type v = None then (a, None)
      else if sg_type v \<noteq> at_reflectType a then (a, None)
      else if \<not> sg_isInt v then (a, None)
      else let (a', e) = Add64 (sg_Int v) (sg_String v) a in (a', Some e))"

end
