(* ===== verification/AttributeRegistry.thy ===== *)
theory AttributeRegistry
  imports Attributes
begin

section \<open>What the attribute registry guarantees\<close>

text \<open>
  Lemmas about the definitions of the theory \<open>Attributes\<close>: the invariant of a registry under any
  sequence of registrations, what a second registration of a key gives, and the values that
  \<open>Iota\<close> hands out.
\<close>

subsection \<open>The invariant\<close>

definition registry_inv :: "Registry \<times> i32 \<Rightarrow> bool" where
  "registry_inv st \<longleftrightarrow>
     (let (r, count) = st in
      distinct (map fst (rg_registeredNames r)) \<and>
      map snd (rg_registeredNames r) = rg_allAttributes r \<and>
      (\<forall>(k, a) \<in> set (rg_registeredNames r).
         at_key a = k \<and> mk_Key (at_properties a) = k \<and> k \<notin> set reservedKeys) \<and>
      sorted_wrt (\<lambda>a b. at_number a < at_number b) (rg_allAttributes r) \<and>
      (\<forall>a \<in> set (rg_allAttributes r). at_number a \<le> count))"

lemma NewRegistry_inv: "registry_inv (NewRegistry e, c)"
  by (simp add: registry_inv_def NewRegistry_def)

lemma aput_new: "k \<notin> fst ` set m \<Longrightarrow> aput k v m = m @ [(k, v)]"
  by (induction m) auto

text \<open>One call of \<open>make\<close> with its arguments; the results are dropped.\<close>

record make_call =
  mc_Make :: Make
  mc_example :: "string option"
  mc_type :: int

definition make_step ::
    "(string \<Rightarrow> string option) \<Rightarrow> (string \<Rightarrow> string) \<Rightarrow> string \<Rightarrow> make_call \<Rightarrow> Registry \<times> i32 \<Rightarrow> Registry \<times> i32" where
  "make_step strict quote dflt c st = snd (Make_make strict quote dflt (mc_Make c) (mc_example c) (mc_type c) st)"

text \<open>What a call can do to the state.\<close>

lemma Make_make_cases:
  obtains (same) res where "Make_make strict quote dflt s ex t (r, count) = (res, (r, count))"
  | (new) a where "Make_make strict quote dflt s ex t (r, count) =
       ((a, None), (r\<lparr>rg_registeredNames := aput (mk_Key s) a (rg_registeredNames r),
                      rg_allAttributes := rg_allAttributes r @ [a]\<rparr>, count + 1))"
      "mk_Key s \<notin> fst ` set (rg_registeredNames r)" "mk_Key s \<notin> set reservedKeys"
      "at_key a = mk_Key s" "at_properties a = s" "at_number a = count + 1" "at_subType a = t"
      "at_names a = []" "at_values a = []"
proof (cases "map_of (rg_registeredNames r) (mk_Key s)")
  case (Some prior)
  then show ?thesis by (intro same) (simp add: Make_make_def)
next
  case None
  show ?thesis
  proof (cases "mk_Key s \<in> set reservedKeys")
    case True
    with None show ?thesis by (intro same) (simp add: Make_make_def)
  next
    case False
    show ?thesis
    proof (cases "SplitVersionWithError strict (if mk_Namespace s = [] then dflt else mk_Namespace s)")
      case None
      with \<open>map_of _ _ = None\<close> False show ?thesis by (intro same) (simp add: Make_make_def Let_def)
    next
      case (Some nv)
      obtain ns v where "nv = (ns, v)" by (cases nv)
      with Some None False have "\<exists>a. Make_make strict quote dflt s ex t (r, count) =
         ((a, None), (r\<lparr>rg_registeredNames := aput (mk_Key s) a (rg_registeredNames r),
                        rg_allAttributes := rg_allAttributes r @ [a]\<rparr>, count + 1)) \<and>
         at_key a = mk_Key s \<and> at_properties a = s \<and> at_number a = count + 1 \<and> at_subType a = t \<and>
         at_names a = [] \<and> at_values a = []"
        by (simp add: Make_make_def Let_def)
      moreover have "mk_Key s \<notin> fst ` set (rg_registeredNames r)"
        using None by (simp add: map_of_eq_None_iff)
      ultimately show ?thesis using new False by blast
    qed
  qed
qed

lemma make_step_inv:
  assumes "registry_inv st" "unat (snd st) + 1 < 2 ^ 32"
  shows "registry_inv (make_step strict quote dflt c st) \<and>
    unat (snd (make_step strict quote dflt c st)) \<le> unat (snd st) + 1 \<and>
    rg_errOnDuplicate (fst (make_step strict quote dflt c st)) = rg_errOnDuplicate (fst st) \<and>
    (\<forall>k a. map_of (rg_registeredNames (fst st)) k = Some a \<longrightarrow>
       map_of (rg_registeredNames (fst (make_step strict quote dflt c st))) k = Some a)"
proof -
  obtain r count where st: "st = (r, count)" by (cases st)
  show ?thesis
  proof (cases rule: Make_make_cases [of strict quote dflt "mc_Make c" "mc_example c" "mc_type c" r count])
    case (same res)
    with assms show ?thesis by (simp add: st make_step_def)
  next
    case (new a)
    have lt: "count < count + 1"
      using assms(2) by (simp add: st word_less_nat_alt unat_word_ariths)
    have le: "unat (count + 1) \<le> unat count + 1"
      by (simp add: unat_word_ariths)
    have k: "map_of (rg_registeredNames r) (mk_Key (mc_Make c)) = None"
      using new(2) by (simp add: map_of_eq_None_iff)
    let ?n = "rg_registeredNames r @ [(mk_Key (mc_Make c), a)]"
    have eq: "make_step strict quote dflt c st =
        (r\<lparr>rg_registeredNames := ?n, rg_allAttributes := rg_allAttributes r @ [a]\<rparr>, count + 1)"
      using new(1,2) by (simp add: st make_step_def aput_new)
    have old: "\<forall>b \<in> set (rg_allAttributes r). at_number b < count + 1"
      using assms(1) lt by (auto simp: st registry_inv_def intro: le_less_trans)
    have "registry_inv (make_step strict quote dflt c st)"
      using assms(1) new old unfolding eq
      by (auto simp: st registry_inv_def sorted_wrt_append intro: less_imp_le)
    moreover have "map_of ?n x = Some b" if "map_of (rg_registeredNames r) x = Some b" for x b
      using that by (simp add: map_add_def)
    ultimately show ?thesis using le unfolding eq by (simp add: st)
  qed
qed

lemma make_steps_inv:
  assumes "registry_inv st" "unat (snd st) + length cs < 2 ^ 32"
  shows "registry_inv (fold (make_step strict quote dflt) cs st) \<and>
    (\<forall>k a. map_of (rg_registeredNames (fst st)) k = Some a \<longrightarrow>
       map_of (rg_registeredNames (fst (fold (make_step strict quote dflt) cs st))) k = Some a)"
  using assms
proof (induction cs arbitrary: st)
  case (Cons c cs)
  let ?st = "make_step strict quote dflt c st"
  have s: "registry_inv ?st" "unat (snd ?st) \<le> unat (snd st) + 1"
    and keep: "\<forall>k a. map_of (rg_registeredNames (fst st)) k = Some a \<longrightarrow>
      map_of (rg_registeredNames (fst ?st)) k = Some a"
    using make_step_inv [OF Cons.prems(1), of strict quote dflt c] Cons.prems(2) by auto
  have "unat (snd ?st) + length cs < 2 ^ 32" using s(2) Cons.prems(2) by simp
  from Cons.IH [OF s(1) this] keep show ?case by simp
qed simp


definition sampleCall :: "string \<Rightarrow> make_call" where
  "sampleCall k = \<lparr>mc_Make = zeroMake\<lparr>mk_Key := k, mk_Namespace := ''OTEL''\<rparr>, mc_example = Some ''string'', mc_type = 9\<rparr>"




subsection \<open>Iota\<close>

text \<open>The values in the order they are handed out.\<close>

fun Iotas :: "string list \<Rightarrow> IotaEnumAttribute \<Rightarrow> IotaEnumAttribute \<times> enumValue list" where
  "Iotas [] e = (e, [])"
| "Iotas (s # ss) e = (let (e, v) = Iota s e; (e, vs) = Iotas ss e in (e, v # vs))"

lemma Iotas_snoc:
  "Iotas (ss @ [s]) e = (let (e, vs) = Iotas ss e; (e, v) = Iota s e in (e, vs @ [v]))"
  by (induction ss arbitrary: e) (auto simp: Let_def split: prod.splits)

lemma Iotas_values:
  assumes "Iotas ss e = (e', vs)"
  shows "ie_counter e' = ie_counter e + of_nat (length ss)"
    "vs = map2 (\<lambda>i s. \<lparr>ev_value = ie_counter e + of_nat i + 2, ev_str = s\<rparr>) [0..<length ss] ss"
  using assms
proof (induction ss arbitrary: e' vs rule: rev_induct)
  case (snoc s ss)
  obtain e1 vs1 where 1: "Iotas ss e = (e1, vs1)" by fastforce
  { case 1 with snoc \<open>Iotas ss e = (e1, vs1)\<close> show ?case
      by (auto simp: Iotas_snoc Iota_def Let_def) }
  { case 2 with snoc.IH [OF \<open>Iotas ss e = (e1, vs1)\<close>] \<open>Iotas ss e = (e1, vs1)\<close> show ?case
      by (auto simp: Iotas_snoc Iota_def Let_def) }
qed simp_all

lemma Iotas_tables:
  assumes "Iotas ss e = (e', vs)" "at_names (ie_Attribute e) = []" "at_values (ie_Attribute e) = []"
  shows "map_of (at_names (ie_Attribute e')) = map_of (rev (map (\<lambda>v. (ev_value v, ev_str v)) vs))"
    "map_of (at_values (ie_Attribute e')) = map_of (rev (map (\<lambda>v. (ev_str v, v)) vs))"
  using assms
proof (induction ss arbitrary: e' vs rule: rev_induct)
  case (snoc s ss)
  obtain e1 vs1 where 1: "Iotas ss e = (e1, vs1)" by fastforce
  { case 1 with snoc.IH [OF \<open>Iotas ss e = (e1, vs1)\<close>] \<open>Iotas ss e = (e1, vs1)\<close> show ?case
      by (auto simp: Iotas_snoc Iota_def Let_def) }
  { case 2 with snoc.IH [OF \<open>Iotas ss e = (e1, vs1)\<close>] \<open>Iotas ss e = (e1, vs1)\<close> show ?case
      by (auto simp: Iotas_snoc Iota_def Let_def) }
qed simp_all

definition newIota :: "Attribute \<Rightarrow> IotaEnumAttribute" where
  "newIota a = \<lparr>ie_counter = 0, ie_Attribute = a\<rparr>"

text \<open>
  The values \<open>Iota\<close> hands out are 2, 3, 4, ... in the order of the calls (1 is skipped), so
  they are all different, and \<open>EnumName\<close> and, for names used once, \<open>GetEnum\<close> find each of them.
\<close>

theorem Iota_values:
  assumes "Iotas ss (newIota a) = (e, vs)" "at_names a = []" "at_values a = []" "length ss < 2 ^ 63"
  shows "map (\<lambda>v. (uint (ev_value v), ev_str v)) vs = zip (map int [2..<length ss + 2]) ss \<and>
    (\<forall>v \<in> set vs. EnumName (ie_Attribute e) (ev_value v) = ev_str v) \<and>
    (distinct ss \<longrightarrow> (\<forall>v \<in> set vs. GetEnum (ie_Attribute e) (ev_str v) = Some v))"
proof -
  have vs: "vs = map2 (\<lambda>i s. \<lparr>ev_value = of_nat i + 2, ev_str = s\<rparr>) [0..<length ss] ss"
    using Iotas_values(2) [OF assms(1)] by (simp add: newIota_def)
  have val: "uint (of_nat i + 2 :: i64) = int i + 2" if "i < length ss" for i
    using that assms(4) by (simp add: uint_word_ariths unsigned_of_nat take_bit_nat_def)
  have len: "length vs = length ss" by (simp add: vs)
  have nth: "uint (ev_value (vs ! i)) = int i + 2" "ev_str (vs ! i) = ss ! i" if "i < length ss" for i
    using that val [of i] by (simp_all add: vs)
  have "map (\<lambda>v. (uint (ev_value v), ev_str v)) vs = zip (map int [2..<length ss + 2]) ss"
    by (rule nth_equalityI) (simp_all add: len nth del: upt_Suc)
  moreover have dv: "distinct (map ev_value vs)"
    unfolding distinct_conv_nth
  proof (intro allI impI)
    fix i j assume "i < length (map ev_value vs)" "j < length (map ev_value vs)" "i \<noteq> j"
    then show "map ev_value vs ! i \<noteq> map ev_value vs ! j"
      using nth(1) [of i] nth(1) [of j] len by auto
  qed
  have "EnumName (ie_Attribute e) (ev_value v) = ev_str v" if "v \<in> set vs" for v
  proof -
    have "map_of (rev (map (\<lambda>v. (ev_value v, ev_str v)) vs)) (ev_value v) = Some (ev_str v)"
      using that dv by (intro map_of_is_SomeI) (auto simp: rev_map [symmetric] comp_def)
    then show ?thesis
      using Iotas_tables(1) [OF assms(1)] assms(2,3) by (simp add: newIota_def EnumName_def)
  qed
  moreover have "GetEnum (ie_Attribute e) (ev_str v) = Some v" if "distinct ss" "v \<in> set vs" for v
  proof -
    have "map ev_str vs = ss" by (rule nth_equalityI) (simp_all add: len nth)
    then have "map_of (rev (map (\<lambda>v. (ev_str v, v)) vs)) (ev_str v) = Some v"
      using that by (intro map_of_is_SomeI) (auto simp: rev_map [symmetric] comp_def)
    then show ?thesis
      using Iotas_tables(2) [OF assms(1)] assms(2,3) by (simp add: newIota_def GetEnum_def)
  qed
  ultimately show ?thesis by blast
qed

theorem Iota_values_witness:
  "EnumName (ie_Attribute (fst (Iotas [''endpoint'', ''REST''] (newIota zeroAttribute)))) 3 = ''REST''"
proof -
  obtain e vs where e: "Iotas [''endpoint'', ''REST''] (newIota zeroAttribute) = (e, vs)" by fastforce
  then have vs: "vs = [\<lparr>ev_value = 2, ev_str = ''endpoint''\<rparr>, \<lparr>ev_value = 3, ev_str = ''REST''\<rparr>]"
    by (auto simp: Iota_def newIota_def Let_def)
  have z: "at_names zeroAttribute = []" "at_values zeroAttribute = []"
    by (simp_all add: zeroAttribute_def)
  from Iota_values [OF e z] show ?thesis unfolding e by (simp add: vs)
qed

end
