(* ===== verification/HexBytes.thy ===== *)
theory HexBytes
  imports Prelude
begin

section \<open>Fixed-size byte arrays with a cached hex form\<close>

text \<open>
  Models \<open>xoptrace/hexbytes.go\<close>: the three generated types \<open>HexBytes1\<close>, \<open>HexBytes8\<close> and
  \<open>HexBytes16\<close> differ only in their size, so one record with a size invariant stands for
  them and each operation takes the size (or reads it off the array). The array \<open>b\<close> is a
  list of bytes, the array \<open>h\<close> the text of its cached hexadecimal form. \<open>encoding/hex\<close> and the byte
  source of \<open>crypto/rand\<close> are the standard library: the first is written out, the second is
  the parameter \<open>rnd\<close> (the result of the k-th call of \<open>rand.Read\<close> on a buffer of n bytes).
\<close>

subsection \<open>\<open>encoding/hex\<close>\<close>

definition hexDigits :: string where
  "hexDigits = ''0123456789abcdef''"

definition hex_byte :: "u8 \<Rightarrow> string" where
  "hex_byte b = [hexDigits ! (unat b div 16), hexDigits ! (unat b mod 16)]"

definition hex_Encode :: "u8 list \<Rightarrow> string" where
  "hex_Encode bs = concat (map hex_byte bs)"

definition fromHexChar :: "char \<Rightarrow> nat option" where
  "fromHexChar c =
     (let n = of_char c :: nat in
      if 48 \<le> n \<and> n \<le> 57 then Some (n - 48)
      else if 97 \<le> n \<and> n \<le> 102 then Some (n - 87)
      else if 65 \<le> n \<and> n \<le> 70 then Some (n - 55)
      else None)"

fun hex_DecodeString :: "string \<Rightarrow> u8 list option" where
  "hex_DecodeString [] = Some []"
| "hex_DecodeString [c] = None"
| "hex_DecodeString (c # d # s) =
     (case (fromHexChar c, fromHexChar d) of
        (Some x, Some y) \<Rightarrow> map_option (\<lambda>bs. word_of_nat (x * 16 + y) # bs) (hex_DecodeString s)
      | _ \<Rightarrow> None)"

definition isHexChar :: "char \<Rightarrow> bool" where
  "isHexChar c \<longleftrightarrow> fromHexChar c \<noteq> None"

text \<open>\<open>strings.ToLower\<close> on one ASCII byte.\<close>

definition lowerChar :: "char \<Rightarrow> char" where
  "lowerChar c =
     (let n = of_char c :: nat in if 65 \<le> n \<and> n \<le> 90 then char_of (n + 32) else c)"

lemma length_hexDigits [simp]: "length hexDigits = 16"
  by (simp add: hexDigits_def)

lemma fromHexChar_hexDigits_map: "map fromHexChar hexDigits = map Some [0..<16]"
  by (simp add: hexDigits_def upt_rec fromHexChar_def)

lemma fromHexChar_hexDigits: "n < 16 \<Longrightarrow> fromHexChar (hexDigits ! n) = Some n"
proof -
  assume n: "n < 16"
  have "map fromHexChar hexDigits ! n = map Some [0..<16] ! n"
    by (simp only: fromHexChar_hexDigits_map)
  with n show ?thesis by simp
qed

lemma unat_u8_div_mod: "unat (b :: u8) div 16 < 16" "unat b mod 16 < 16"
proof -
  have "unat b < 256" using unsigned_less [of b] by simp
  then show "unat b div 16 < 16" "unat b mod 16 < 16" by auto
qed

lemma hex_Decode_Encode [simp]: "hex_DecodeString (hex_Encode bs) = Some bs"
  by (induction bs)
    (simp_all add: hex_Encode_def hex_byte_def fromHexChar_hexDigits unat_u8_div_mod)

lemma length_hex_Encode [simp]: "length (hex_Encode bs) = 2 * length bs"
  by (induction bs) (simp_all add: hex_Encode_def hex_byte_def)

lemma hex_Encode_inj [simp]: "hex_Encode xs = hex_Encode ys \<longleftrightarrow> xs = ys"
  by (metis hex_Decode_Encode option.inject)

lemma isHexChar_hexDigits [simp]: "n < 16 \<Longrightarrow> isHexChar (hexDigits ! n)"
  by (simp add: isHexChar_def fromHexChar_hexDigits)

lemma hex_Encode_isHex: "list_all isHexChar (hex_Encode bs)"
  by (induction bs) (simp_all add: hex_Encode_def hex_byte_def unat_u8_div_mod)

lemma fromHexChar_bound: "fromHexChar c = Some n \<Longrightarrow> n < 16"
  by (auto simp: fromHexChar_def Let_def split: if_splits)

lemma hexDigits_code:
  "n < 16 \<Longrightarrow> hexDigits ! n = char_of (if n < 10 then 48 + n else 87 + n)"
proof -
  assume n: "n < 16"
  have "map of_char hexDigits = map (\<lambda>n. if n < 10 then 48 + n else 87 + n :: nat) [0..<16]"
    by (simp add: hexDigits_def upt_rec)
  then have "map of_char hexDigits ! n =
      map (\<lambda>n. if n < 10 then 48 + n else 87 + n :: nat) [0..<16] ! n"
    by simp
  with n have "(of_char (hexDigits ! n) :: nat) = (if n < 10 then 48 + n else 87 + n)"
    by simp
  then show ?thesis by (metis char_of_char)
qed

lemma hexDigits_fromHexChar: "fromHexChar c = Some n \<Longrightarrow> hexDigits ! n = lowerChar c"
proof -
  assume a: "fromHexChar c = Some n"
  then have n: "n < 16" by (rule fromHexChar_bound)
  have c: "char_of (of_char c :: nat) = c" by simp
  show ?thesis
    using a c by (auto simp: hexDigits_code [OF n] fromHexChar_def lowerChar_def Let_def
        split: if_splits)
qed

lemma hex_Encode_Decode:
  "hex_DecodeString s = Some bs \<Longrightarrow> hex_Encode bs = map lowerChar s"
proof (induction s arbitrary: bs rule: hex_DecodeString.induct)
  case (3 c d s)
  then obtain x y bs' where
    x: "fromHexChar c = Some x" and y: "fromHexChar d = Some y"
    and s: "hex_DecodeString s = Some bs'" and bs: "bs = word_of_nat (x * 16 + y) # bs'"
    by (auto split: option.splits)
  have "x < 16" "y < 16" using x y by (auto dest: fromHexChar_bound)
  then have "unat (word_of_nat (x * 16 + y) :: u8) = x * 16 + y"
    by (simp add: unat_of_nat del: of_nat_add of_nat_mult)
  then have "hex_byte (word_of_nat (x * 16 + y)) = [lowerChar c, lowerChar d]"
    using \<open>y < 16\<close> x y by (simp add: hex_byte_def hexDigits_fromHexChar)
  moreover have "hex_Encode bs' = map lowerChar s" using 3 x y s by simp
  ultimately show ?case by (simp add: bs hex_Encode_def)
qed (simp_all add: hex_Encode_def)

lemma hex_Decode_total:
  "list_all isHexChar s \<Longrightarrow> even (length s) \<Longrightarrow>
   \<exists>bs. hex_DecodeString s = Some bs \<and> length bs = length s div 2"
proof (induction s rule: hex_DecodeString.induct)
  case (3 c d s)
  then obtain x y where "fromHexChar c = Some x" "fromHexChar d = Some y"
    by (auto simp: isHexChar_def)
  moreover from 3 this have "\<exists>bs. hex_DecodeString s = Some bs \<and> length bs = length s div 2"
    by simp
  ultimately show ?case by auto
qed simp_all

subsection \<open>The type and its constructors\<close>

record HexBytes =
  hb_b :: "u8 list"
  hb_h :: string

definition zeroBytesN :: "nat \<Rightarrow> u8 list" where
  "zeroBytesN n = replicate n 0"

text \<open>The zero value of the Go type: both arrays hold zero bytes.\<close>

definition zeroHexBytes :: "nat \<Rightarrow> HexBytes" where
  "zeroHexBytes n = \<lparr>hb_b = zeroBytesN n, hb_h = replicate (2 * n) (CHR 0x00)\<rparr>"

definition newHexBytes :: "nat \<Rightarrow> HexBytes" where
  "newHexBytes n = (zeroHexBytes n)\<lparr>hb_h := replicate (2 * n) (CHR ''0'')\<rparr>"

definition setBytes :: "u8 list \<Rightarrow> u8 list \<Rightarrow> u8 list" where
  "setBytes dest b =
     (if length b \<ge> length dest then take (length dest) b
      else b @ zeroBytesN (length dest - length b))"

definition setBytesFromString :: "u8 list \<Rightarrow> string \<Rightarrow> u8 list" where
  "setBytesFromString dest h =
     (case hex_DecodeString h of
        None \<Rightarrow> zeroBytesN (length dest)
      | Some b \<Rightarrow> setBytes dest b)"

definition hb_encode :: "HexBytes \<Rightarrow> HexBytes" where
  "hb_encode x = x\<lparr>hb_h := hex_Encode (hb_b x)\<rparr>"

definition NewHexBytesFromSlice :: "nat \<Rightarrow> u8 list \<Rightarrow> HexBytes" where
  "NewHexBytesFromSlice n b =
     (let x = zeroHexBytes n in hb_encode (x\<lparr>hb_b := setBytes (hb_b x) b\<rparr>))"

definition NewHexBytesFromString :: "nat \<Rightarrow> string \<Rightarrow> HexBytes" where
  "NewHexBytesFromString n s =
     (let x = zeroHexBytes n in hb_encode (x\<lparr>hb_b := setBytesFromString (hb_b x) s\<rparr>))"

definition HexBytes_IsZero :: "HexBytes \<Rightarrow> bool" where
  "HexBytes_IsZero x \<longleftrightarrow> hb_b x = zeroBytesN (length (hb_b x))"

definition HexBytes_String :: "HexBytes \<Rightarrow> string" where
  "HexBytes_String x = hb_h x"

definition HexBytes_Array :: "HexBytes \<Rightarrow> u8 list" where
  "HexBytes_Array x = hb_b x"

text \<open>
  \<open>setRandom\<close> reads until the bytes are not all zero; \<open>k\<close> counts the calls of \<open>rand.Read\<close>.
  A source that only ever yields zeros makes it run forever, which is the result \<^term>\<open>None\<close>.
\<close>

partial_function (option) HexBytes_setRandom ::
    "(nat \<Rightarrow> nat \<Rightarrow> u8 list) \<Rightarrow> nat \<Rightarrow> HexBytes \<Rightarrow> (HexBytes \<times> nat) option" where
  "HexBytes_setRandom rnd k x =
     (let x' = x\<lparr>hb_b := rnd k (length (hb_b x))\<rparr> in
      if HexBytes_IsZero x' then HexBytes_setRandom rnd (Suc k) x'
      else Some (hb_encode x', Suc k))"

declare HexBytes_setRandom.simps [code]

subsection \<open>Sizes and the cached form\<close>

definition hb_size :: "nat \<Rightarrow> HexBytes \<Rightarrow> bool" where
  "hb_size n x \<longleftrightarrow> length (hb_b x) = n \<and> length (hb_h x) = 2 * n"

definition hb_cached :: "HexBytes \<Rightarrow> bool" where
  "hb_cached x \<longleftrightarrow> hb_h x = hex_Encode (hb_b x)"

text \<open>What \<open>rand.Read\<close> promises: it fills the whole buffer.\<close>

definition rand_fills :: "(nat \<Rightarrow> nat \<Rightarrow> u8 list) \<Rightarrow> bool" where
  "rand_fills rnd \<longleftrightarrow> (\<forall>k n. length (rnd k n) = n)"

lemma length_zeroBytesN [simp]: "length (zeroBytesN n) = n"
  by (simp add: zeroBytesN_def)

lemma length_setBytes [simp]: "length (setBytes dest b) = length dest"
  by (simp add: setBytes_def)

lemma length_setBytesFromString [simp]: "length (setBytesFromString dest h) = length dest"
  by (simp add: setBytesFromString_def split: option.splits)

lemma setBytes_full [simp]: "length b = length dest \<Longrightarrow> setBytes dest b = b"
  by (simp add: setBytes_def)

lemma hb_b_encode [simp]: "hb_b (hb_encode x) = hb_b x"
  by (simp add: hb_encode_def)

lemma hb_h_encode [simp]: "hb_h (hb_encode x) = hex_Encode (hb_b x)"
  by (simp add: hb_encode_def)

lemma hb_cached_encode [simp, intro]: "hb_cached (hb_encode x)"
  by (simp add: hb_cached_def)

lemma hb_size_encode [simp]: "hb_size n (hb_encode x) \<longleftrightarrow> length (hb_b x) = n"
  by (auto simp: hb_size_def)

lemma hb_encode_cached: "hb_cached x \<Longrightarrow> hb_encode x = x"
  by (simp add: hb_cached_def hb_encode_def)

lemma hb_size_zero [simp]: "hb_size n (zeroHexBytes n)"
  by (simp add: hb_size_def zeroHexBytes_def)

lemma hex_Encode_zero: "hex_Encode (zeroBytesN n) = replicate (2 * n) (CHR ''0'')"
  by (induction n) (simp_all add: zeroBytesN_def hex_Encode_def hex_byte_def hexDigits_def)

lemma newHexBytes_cached: "hb_cached (newHexBytes n) \<and> hb_size n (newHexBytes n)"
  by (simp add: newHexBytes_def hb_cached_def hb_size_def zeroHexBytes_def hex_Encode_zero)

lemma NewHexBytesFromString_cached:
  "hb_cached (NewHexBytesFromString n s) \<and> hb_size n (NewHexBytesFromString n s)"
  by (simp add: NewHexBytesFromString_def Let_def zeroHexBytes_def)

lemma setRandom_Some:
  assumes fills: "rand_fills rnd" and nz: "rnd j n \<noteq> zeroBytesN n" and kj: "k \<le> j"
    and len: "length (hb_b x) = n"
  shows "\<exists>x' k'. HexBytes_setRandom rnd k x = Some (x', k') \<and> k < k' \<and> \<not> HexBytes_IsZero x'
    \<and> hb_size n x' \<and> hb_cached x'"
  using kj len
proof (induction "j - k" arbitrary: k x)
  case 0
  then have "k = j" by simp
  with 0 nz fills show ?case
    by (subst HexBytes_setRandom.simps)
      (auto simp: Let_def HexBytes_IsZero_def rand_fills_def)
next
  case (Suc m)
  let ?x' = "x\<lparr>hb_b := rnd k n\<rparr>"
  have len': "length (hb_b ?x') = n" using fills by (simp add: rand_fills_def)
  show ?case
  proof (cases "HexBytes_IsZero ?x'")
    case False
    then show ?thesis
      using Suc.prems fills
      by (subst HexBytes_setRandom.simps) (auto simp: Let_def rand_fills_def HexBytes_IsZero_def)
  next
    case True
    have "m = j - Suc k" "Suc k \<le> j" using Suc.hyps(2) by auto
    then obtain x'' k' where "HexBytes_setRandom rnd (Suc k) ?x' = Some (x'', k')" "Suc k < k'"
        "\<not> HexBytes_IsZero x''" "hb_size n x''" "hb_cached x''"
      using Suc.hyps(1) [of "Suc k" ?x'] len' by auto
    moreover have "HexBytes_setRandom rnd k x = HexBytes_setRandom rnd (Suc k) ?x'"
      using True Suc.prems by (subst HexBytes_setRandom.simps) (simp add: Let_def)
    ultimately show ?thesis by auto
  qed
qed

lemma setRandom_result:
  assumes fills: "rand_fills rnd" and ret: "HexBytes_setRandom rnd k x = Some (x', k')"
  shows "\<not> HexBytes_IsZero x' \<and> hb_size (length (hb_b x)) x' \<and> hb_cached x'"
proof -
  let ?P = "\<lambda>rnd (k :: nat) x (r :: HexBytes \<times> nat). rand_fills rnd \<longrightarrow>
      \<not> HexBytes_IsZero (fst r) \<and> hb_size (length (hb_b x)) (fst r) \<and> hb_cached (fst r)"
  have step: "?P rnd k x r"
    if IH: "\<And>rnd k x r. f rnd k x = Some r \<Longrightarrow> ?P rnd k x r"
      and eq: "(let x' = x\<lparr>hb_b := rnd k (length (hb_b x))\<rparr> in
          if HexBytes_IsZero x' then f rnd (Suc k) x' else Some (hb_encode x', Suc k)) = Some r"
    for f rnd k x r
  proof
    assume "rand_fills rnd"
    then have len: "length (rnd k (length (hb_b x))) = length (hb_b x)"
      by (simp add: rand_fills_def)
    show "\<not> HexBytes_IsZero (fst r) \<and> hb_size (length (hb_b x)) (fst r) \<and> hb_cached (fst r)"
    proof (cases "HexBytes_IsZero (x\<lparr>hb_b := rnd k (length (hb_b x))\<rparr>)")
      case True
      with eq have "f rnd (Suc k) (x\<lparr>hb_b := rnd k (length (hb_b x))\<rparr>) = Some r"
        by (simp add: Let_def)
      from IH [OF this] len \<open>rand_fills rnd\<close> show ?thesis by simp
    next
      case False
      with eq len show ?thesis by (auto simp: Let_def HexBytes_IsZero_def)
    qed
  qed
  from ret have ret': "(case ((rnd, k), x) of (x, xa) \<Rightarrow>
      (case x of (x, xa) \<Rightarrow> HexBytes_setRandom x xa) xa) = Some (x', k')"
    by simp
  have "(case ((rnd, k), x) of (x, xa) \<Rightarrow> (case x of (rnd, k) \<Rightarrow> ?P rnd k) xa) (x', k')"
    by (rule HexBytes_setRandom.raw_induct [where P = ?P, OF _ ret']) (rule step)
  with fills show ?thesis by simp
qed

end
