(* ===== verification/Trace.thy ===== *)
theory Trace
  imports HexBytes
begin

section \<open>W3C trace headers\<close>

text \<open>
  Models \<open>xoptrace/trace.go\<close>, the \<open>Wrapped\<close> types of \<open>xoptrace/hexbytes.go\<close> and
  \<open>xoptrace/bundle.go\<close>. A \<open>WrappedHexBytes\<close> is a pointer into a \<open>Trace\<close> together with the
  offset of the field in the cached header; here it is the field's name, and every method
  of the wrapper is a function of the trace. The accessors (\<open>Version()\<close>, \<open>TraceID()\<close>, ...)
  initialise the trace first, so a call \<open>t.SpanID().SetString(s)\<close> is
  \<open>Wrapped_SetString SpanID s (initialize t)\<close>.
\<close>

record Trace =
  tr_version :: HexBytes
  tr_traceID :: HexBytes
  tr_spanID :: HexBytes
  tr_flags :: HexBytes
  tr_headerString :: string
  tr_initialized :: bool

datatype TraceField = VersionField | TraceIDField | SpanIDField | FlagsField

fun field_size :: "TraceField \<Rightarrow> nat" where
  "field_size VersionField = 1"
| "field_size TraceIDField = 16"
| "field_size SpanIDField = 8"
| "field_size FlagsField = 1"

definition startOfVersion :: nat where "startOfVersion = 0"
definition startOfTraceID :: nat where "startOfTraceID = startOfVersion + 2 + 1"
definition startOfSpanID :: nat where "startOfSpanID = startOfTraceID + 32 + 1"
definition startOfFlags :: nat where "startOfFlags = startOfSpanID + 16 + 1"

fun startOf :: "TraceField \<Rightarrow> nat" where
  "startOf VersionField = startOfVersion"
| "startOf TraceIDField = startOfTraceID"
| "startOf SpanIDField = startOfSpanID"
| "startOf FlagsField = startOfFlags"

lemmas startOf_defs = startOfFlags_def startOfSpanID_def startOfTraceID_def startOfVersion_def

fun get_field :: "TraceField \<Rightarrow> Trace \<Rightarrow> HexBytes" where
  "get_field VersionField t = tr_version t"
| "get_field TraceIDField t = tr_traceID t"
| "get_field SpanIDField t = tr_spanID t"
| "get_field FlagsField t = tr_flags t"

fun put_field :: "TraceField \<Rightarrow> HexBytes \<Rightarrow> Trace \<Rightarrow> Trace" where
  "put_field VersionField x t = t\<lparr>tr_version := x\<rparr>"
| "put_field TraceIDField x t = t\<lparr>tr_traceID := x\<rparr>"
| "put_field SpanIDField x t = t\<lparr>tr_spanID := x\<rparr>"
| "put_field FlagsField x t = t\<lparr>tr_flags := x\<rparr>"

definition zeroTrace :: Trace where
  "zeroTrace = \<lparr>tr_version = zeroHexBytes 1, tr_traceID = zeroHexBytes 16,
     tr_spanID = zeroHexBytes 8, tr_flags = zeroHexBytes 1,
     tr_headerString = [], tr_initialized = False\<rparr>"

definition rebuild :: "Trace \<Rightarrow> Trace" where
  "rebuild t = t\<lparr>tr_headerString :=
     hb_h (tr_version t) @ ''-'' @ hb_h (tr_traceID t) @ ''-'' @
     hb_h (tr_spanID t) @ ''-'' @ hb_h (tr_flags t)\<rparr>"

definition initialize :: "Trace \<Rightarrow> Trace" where
  "initialize t =
     (if tr_initialized t then t
      else rebuild (t\<lparr>tr_initialized := True,
             tr_version := hb_encode (tr_version t),
             tr_traceID := hb_encode (tr_traceID t),
             tr_spanID := hb_encode (tr_spanID t),
             tr_flags := hb_encode (tr_flags t)\<rparr>))"

text \<open>\<open>t.flags.b[0] = 1\<close>.\<close>

definition set_flags_b0 :: "u8 \<Rightarrow> Trace \<Rightarrow> Trace" where
  "set_flags_b0 v t = t\<lparr>tr_flags := (tr_flags t)\<lparr>hb_b := (hb_b (tr_flags t))[0 := v]\<rparr>\<rparr>"

definition NewTrace :: Trace where
  "NewTrace = initialize (set_flags_b0 1 zeroTrace)"

subsection \<open>The wrapper's methods\<close>

definition Wrapped_put :: "TraceField \<Rightarrow> (HexBytes \<Rightarrow> HexBytes) \<Rightarrow> Trace \<Rightarrow> Trace" where
  "Wrapped_put f g t = rebuild (put_field f (g (get_field f t)) t)"

definition Wrapped_String :: "TraceField \<Rightarrow> Trace \<Rightarrow> string" where
  "Wrapped_String f t = take (field_size f * 2) (drop (startOf f) (tr_headerString t))"

definition Wrapped_SetBytes :: "TraceField \<Rightarrow> u8 list \<Rightarrow> Trace \<Rightarrow> Trace" where
  "Wrapped_SetBytes f b = Wrapped_put f (\<lambda>x. hb_encode (x\<lparr>hb_b := setBytes (hb_b x) b\<rparr>))"

definition Wrapped_SetArray :: "TraceField \<Rightarrow> u8 list \<Rightarrow> Trace \<Rightarrow> Trace" where
  "Wrapped_SetArray f b = Wrapped_put f (\<lambda>x. hb_encode (x\<lparr>hb_b := b\<rparr>))"

definition Wrapped_SetString :: "TraceField \<Rightarrow> string \<Rightarrow> Trace \<Rightarrow> Trace" where
  "Wrapped_SetString f s = Wrapped_put f (\<lambda>x. hb_encode (x\<lparr>hb_b := setBytesFromString (hb_b x) s\<rparr>))"

definition Wrapped_SetZero :: "TraceField \<Rightarrow> Trace \<Rightarrow> Trace" where
  "Wrapped_SetZero f = Wrapped_put f (\<lambda>x. hb_encode (x\<lparr>hb_b := zeroBytesN (field_size f)\<rparr>))"

definition Wrapped_Set :: "TraceField \<Rightarrow> HexBytes \<Rightarrow> Trace \<Rightarrow> Trace" where
  "Wrapped_Set f b = Wrapped_put f (\<lambda>x. b)"

definition Wrapped_SetRandom ::
    "(nat \<Rightarrow> nat \<Rightarrow> u8 list) \<Rightarrow> TraceField \<Rightarrow> nat \<Rightarrow> Trace \<Rightarrow> (Trace \<times> nat) option" where
  "Wrapped_SetRandom rnd f k t =
     map_option (\<lambda>(x, k'). (Wrapped_put f (\<lambda>_. x) t, k')) (HexBytes_setRandom rnd k (get_field f t))"

subsection \<open>Parsing, printing and the zero test\<close>

definition traceRE :: "string \<Rightarrow> (string \<times> string \<times> string \<times> string) option" where
  "traceRE s =
     (let m1 = take 2 s; m2 = take 32 (drop 3 s); m3 = take 16 (drop 36 s); m4 = take 2 (drop 53 s) in
      if length s = 55 \<and> s ! 2 = CHR ''-'' \<and> s ! 35 = CHR ''-'' \<and> s ! 52 = CHR ''-''
         \<and> list_all isHexChar m1 \<and> list_all isHexChar m2
         \<and> list_all isHexChar m3 \<and> list_all isHexChar m4
      then Some (m1, m2, m3, m4) else None)"

definition Trace_SetString :: "string \<Rightarrow> Trace \<Rightarrow> Trace \<times> bool" where
  "Trace_SetString s t =
     (case traceRE s of
        None \<Rightarrow> (initialize (set_flags_b0 1 t), False)
      | Some (m1, m2, m3, m4) \<Rightarrow>
          let t = Wrapped_SetString VersionField m1 (initialize t);
              t = Wrapped_SetString TraceIDField m2 (initialize t);
              t = Wrapped_SetString SpanIDField m3 (initialize t);
              t = Wrapped_SetString FlagsField m4 (initialize t)
          in (t, True))"

definition TraceFromString :: "string \<Rightarrow> Trace \<times> bool" where
  "TraceFromString s = Trace_SetString s zeroTrace"

definition zeroHeader :: string where
  "zeroHeader = ''00-00000000000000000000000000000000-0000000000000000-00''"

definition Trace_String :: "Trace \<Rightarrow> string" where
  "Trace_String t = (if tr_initialized t then tr_headerString t else zeroHeader)"

definition Trace_IsZero :: "Trace \<Rightarrow> bool" where
  "Trace_IsZero t \<longleftrightarrow> HexBytes_IsZero (tr_traceID t) \<and> HexBytes_IsZero (tr_spanID t)"

text \<open>\<open>GetVersion()\<close>, \<open>GetTraceID()\<close>, \<open>GetSpanID()\<close>, \<open>GetFlags()\<close>.\<close>

definition Trace_Get :: "TraceField \<Rightarrow> Trace \<Rightarrow> HexBytes" where
  "Trace_Get f t = (if tr_initialized t then get_field f t else hb_encode (get_field f t))"

definition RebuildSetNonZero ::
    "(nat \<Rightarrow> nat \<Rightarrow> u8 list) \<Rightarrow> nat \<Rightarrow> Trace \<Rightarrow> (Trace \<times> nat) option" where
  "RebuildSetNonZero rnd k t = do {
     (t, k) \<leftarrow> (if HexBytes_IsZero (tr_traceID t)
                then map_option (\<lambda>(x, k). (t\<lparr>tr_traceID := x\<rparr>, k)) (HexBytes_setRandom rnd k (tr_traceID t))
                else Some (t, k));
     (t, k) \<leftarrow> (if HexBytes_IsZero (tr_spanID t)
                then map_option (\<lambda>(x, k). (t\<lparr>tr_spanID := x\<rparr>, k)) (HexBytes_setRandom rnd k (tr_spanID t))
                else Some (t, k));
     Some (rebuild t, k)
   }"

text \<open>
  \<open>json.Marshal\<close> of a Go string; the header holds hex digits and dashes only, which it copies
  between double quotes.
\<close>

definition Trace_MarshalJSON :: "Trace \<Rightarrow> string" where
  "Trace_MarshalJSON t = CHR 0x22 # tr_headerString t @ [CHR 0x22]"

datatype unmarshal_error = WrongLength | NotQuoted | InvalidInput

definition Trace_UnmarshalJSON :: "string \<Rightarrow> Trace \<Rightarrow> unmarshal_error option \<times> Trace" where
  "Trace_UnmarshalJSON b t =
     (if length b \<noteq> 57 then (Some WrongLength, t)
      else if b ! 0 \<noteq> CHR 0x22 \<or> b ! 56 \<noteq> CHR 0x22 then (Some NotQuoted, t)
      else let (t', ok) = Trace_SetString (take 55 (drop 1 b)) t
           in (if ok then None else Some InvalidInput, t'))"

subsection \<open>Bundles\<close>

record Bundle =
  bu_Parent :: Trace
  bu_Trace :: Trace
  bu_State :: string
  bu_Baggage :: string

definition NewBundle :: Bundle where
  "NewBundle = \<lparr>bu_Parent = NewTrace, bu_Trace = NewTrace, bu_State = [], bu_Baggage = []\<rparr>"

definition ParentTraceIsDifferent :: "Bundle \<Rightarrow> bool" where
  "ParentTraceIsDifferent b \<longleftrightarrow>
     \<not> HexBytes_IsZero (tr_traceID (bu_Parent b)) \<and>
     hb_b (tr_traceID (bu_Parent b)) \<noteq> hb_b (tr_traceID (bu_Trace b))"

subsection \<open>The representation invariant\<close>

definition trace_sized :: "Trace \<Rightarrow> bool" where
  "trace_sized t \<longleftrightarrow> hb_size 1 (tr_version t) \<and> hb_size 16 (tr_traceID t)
     \<and> hb_size 8 (tr_spanID t) \<and> hb_size 1 (tr_flags t)"

definition trace_cached :: "Trace \<Rightarrow> bool" where
  "trace_cached t \<longleftrightarrow> hb_cached (tr_version t) \<and> hb_cached (tr_traceID t)
     \<and> hb_cached (tr_spanID t) \<and> hb_cached (tr_flags t)
     \<and> tr_headerString t = tr_headerString (rebuild t)"

text \<open>
  The sizes are right and, once the trace is initialised, every cached text agrees with the
  bytes it was made from.
\<close>

definition trace_ok :: "Trace \<Rightarrow> bool" where
  "trace_ok t \<longleftrightarrow> trace_sized t \<and> (tr_initialized t \<longrightarrow> trace_cached t)"

lemmas trace_defs = trace_ok_def trace_sized_def trace_cached_def rebuild_def

lemma get_field_size: "trace_sized t \<Longrightarrow> hb_size (field_size f) (get_field f t)"
  by (cases f) (simp_all add: trace_sized_def)

lemma get_field_cached: "trace_cached t \<Longrightarrow> hb_cached (get_field f t)"
  by (cases f) (simp_all add: trace_cached_def)

lemma length_get_field: "trace_sized t \<Longrightarrow> length (hb_b (get_field f t)) = field_size f"
  using get_field_size [of t f] by (simp add: hb_size_def)

lemma initialized_rebuild [simp]: "tr_initialized (rebuild t) = tr_initialized t"
  by (simp add: rebuild_def)

lemma initialized_put_field [simp]: "tr_initialized (put_field f x t) = tr_initialized t"
  by (cases f) simp_all

lemma initialized_initialize [simp]: "tr_initialized (initialize t)"
  by (simp add: initialize_def)

lemma initialize_id [simp]: "tr_initialized t \<Longrightarrow> initialize t = t"
  by (simp add: initialize_def)

lemma initialize_ok [intro]: "trace_ok t \<Longrightarrow> trace_ok (initialize t)"
  by (auto simp: initialize_def trace_defs hb_size_def)

lemma get_field_initialize_b [simp]: "hb_b (get_field f (initialize t)) = hb_b (get_field f t)"
  by (cases f) (simp_all add: initialize_def rebuild_def)

lemma zeroTrace_ok: "trace_ok zeroTrace"
  by (simp add: trace_ok_def trace_sized_def zeroTrace_def)

lemma set_flags_b0_sized: "trace_sized t \<Longrightarrow> trace_sized (set_flags_b0 v t)"
  by (simp add: trace_sized_def set_flags_b0_def hb_size_def)

lemma set_flags_b0_fresh_ok:
  "trace_ok t \<Longrightarrow> \<not> tr_initialized t \<Longrightarrow> trace_ok (set_flags_b0 v t)"
  by (simp add: trace_ok_def set_flags_b0_sized) (simp add: set_flags_b0_def)

lemma NewTrace_ok: "trace_ok NewTrace" "tr_initialized NewTrace"
  unfolding NewTrace_def
  by (rule initialize_ok, rule set_flags_b0_fresh_ok [OF zeroTrace_ok])
    (simp_all add: zeroTrace_def)

lemma Wrapped_put_ok:
  assumes ok: "trace_ok t" and init: "tr_initialized t"
    and size: "hb_size (field_size f) (g (get_field f t))" and cached: "hb_cached (g (get_field f t))"
  shows "trace_ok (Wrapped_put f g t) \<and> tr_initialized (Wrapped_put f g t)"
  using assms by (cases f) (auto simp: Wrapped_put_def trace_defs)

lemma get_field_Wrapped_put [simp]:
  "get_field f' (Wrapped_put f g t) = (if f = f' then g (get_field f t) else get_field f' t)"
  by (cases f; cases f') (simp_all add: Wrapped_put_def rebuild_def)

lemma initialized_Wrapped_put [simp]: "tr_initialized (Wrapped_put f g t) = tr_initialized t"
  by (simp add: Wrapped_put_def)

lemma trace_eqI:
  assumes "trace_ok t" "trace_ok t'" "tr_initialized t" "tr_initialized t'"
    and "\<And>f. hb_b (get_field f t) = hb_b (get_field f t')"
  shows "t = t'"
proof -
  have "get_field f t = get_field f t'" for f
    using assms(5) [of f] get_field_cached [of t f] get_field_cached [of t' f] assms(1-4)
    by (auto simp: trace_ok_def hb_cached_def)
  from this [of VersionField] this [of TraceIDField] this [of SpanIDField] this [of FlagsField]
  show ?thesis using assms(1-4)
    by (auto simp: trace_ok_def trace_cached_def rebuild_def)
qed

lemma header_length: "trace_ok t \<Longrightarrow> tr_initialized t \<Longrightarrow> length (tr_headerString t) = 55"
  by (simp add: trace_defs hb_size_def)

lemma Wrapped_String_eq:
  assumes "trace_ok t" "tr_initialized t"
  shows "Wrapped_String f t = hex_Encode (hb_b (get_field f t))"
  using assms
  by (cases f) (simp_all add: Wrapped_String_def startOf_defs trace_defs hb_size_def hb_cached_def)

subsection \<open>The operations keep it\<close>

lemma Wrapped_ops_ok:
  assumes "trace_ok t" "tr_initialized t"
  shows "trace_ok (Wrapped_SetBytes f b t)" "trace_ok (Wrapped_SetString f s t)"
    "trace_ok (Wrapped_SetZero f t)"
    "length b = field_size f \<Longrightarrow> trace_ok (Wrapped_SetArray f b t)"
    "hb_size (field_size f) x \<Longrightarrow> hb_cached x \<Longrightarrow> trace_ok (Wrapped_Set f x t)"
proof -
  have len: "length (hb_b (get_field f t)) = field_size f"
    using assms(1) by (simp add: trace_ok_def length_get_field)
  note put = Wrapped_put_ok [OF assms, THEN conjunct1]
  show "trace_ok (Wrapped_SetBytes f b t)" "trace_ok (Wrapped_SetString f s t)"
    "trace_ok (Wrapped_SetZero f t)"
    "length b = field_size f \<Longrightarrow> trace_ok (Wrapped_SetArray f b t)"
    "hb_size (field_size f) x \<Longrightarrow> hb_cached x \<Longrightarrow> trace_ok (Wrapped_Set f x t)"
    unfolding Wrapped_SetBytes_def Wrapped_SetString_def Wrapped_SetZero_def
      Wrapped_SetArray_def Wrapped_Set_def
    by (rule put; simp add: len)+
qed

lemma Wrapped_ops_initialized [simp]:
  "tr_initialized (Wrapped_SetBytes f b t) = tr_initialized t"
  "tr_initialized (Wrapped_SetString f s t) = tr_initialized t"
  "tr_initialized (Wrapped_SetZero f t) = tr_initialized t"
  "tr_initialized (Wrapped_SetArray f b t) = tr_initialized t"
  "tr_initialized (Wrapped_Set f x t) = tr_initialized t"
  by (simp_all add: Wrapped_SetBytes_def Wrapped_SetString_def Wrapped_SetZero_def
      Wrapped_SetArray_def Wrapped_Set_def)

lemma get_field_Wrapped_SetString:
  "hb_b (get_field f' (Wrapped_SetString f s t)) =
     (if f = f' then setBytesFromString (hb_b (get_field f t)) s else hb_b (get_field f' t))"
  by (auto simp: Wrapped_SetString_def)

lemma setBytesFromString_hex [simp]:
  "length b = length dest \<Longrightarrow> setBytesFromString dest (hex_Encode b) = b"
  by (simp add: setBytesFromString_def)

subsection \<open>Parsing and printing\<close>

lemma traceRE_header:
  assumes ok: "trace_ok t" and init: "tr_initialized t"
  shows "traceRE (tr_headerString t) =
    Some (hex_Encode (hb_b (tr_version t)), hex_Encode (hb_b (tr_traceID t)),
          hex_Encode (hb_b (tr_spanID t)), hex_Encode (hb_b (tr_flags t)))"
proof -
  note W = Wrapped_String_eq [OF ok init, unfolded Wrapped_String_def]
  have "take 2 (tr_headerString t) = hex_Encode (hb_b (tr_version t))"
    "take 32 (drop 3 (tr_headerString t)) = hex_Encode (hb_b (tr_traceID t))"
    "take 16 (drop 36 (tr_headerString t)) = hex_Encode (hb_b (tr_spanID t))"
    "take 2 (drop 53 (tr_headerString t)) = hex_Encode (hb_b (tr_flags t))"
    using W [of VersionField] W [of TraceIDField] W [of SpanIDField] W [of FlagsField]
    by (simp_all add: startOf_defs numeral_3_eq_3)
  moreover have "tr_headerString t ! 2 = CHR ''-''" "tr_headerString t ! 35 = CHR ''-''"
    "tr_headerString t ! 52 = CHR ''-''"
    using ok init by (simp_all add: trace_defs hb_size_def nth_append)
  ultimately show ?thesis
    by (simp only: traceRE_def Let_def header_length [OF ok init] hex_Encode_isHex simp_thms if_True)
qed

definition parsed_fields :: "string \<times> string \<times> string \<times> string \<Rightarrow> TraceField \<Rightarrow> string" where
  "parsed_fields m f = (case m of (m1, m2, m3, m4) \<Rightarrow>
     (case f of VersionField \<Rightarrow> m1 | TraceIDField \<Rightarrow> m2 | SpanIDField \<Rightarrow> m3 | FlagsField \<Rightarrow> m4))"

lemma Trace_SetString_Some:
  assumes ok: "trace_ok t0" and re: "traceRE s = Some m" and ret: "Trace_SetString s t0 = (t, b)"
  shows "b \<and> trace_ok t \<and> tr_initialized t \<and>
    (\<forall>f. hb_b (get_field f t) = setBytesFromString (hb_b (get_field f t0)) (parsed_fields m f))"
proof -
  obtain m1 m2 m3 m4 where m: "m = (m1, m2, m3, m4)" by (cases m)
  have i0: "trace_ok (initialize t0)" "tr_initialized (initialize t0)"
    using ok by auto
  have t: "t = Wrapped_SetString FlagsField m4 (Wrapped_SetString SpanIDField m3
      (Wrapped_SetString TraceIDField m2 (Wrapped_SetString VersionField m1 (initialize t0))))" and b
    using ret by (simp_all add: Trace_SetString_def re m Let_def)
  moreover have "trace_ok t \<and> tr_initialized t"
    by (simp add: t Wrapped_ops_ok i0)
  moreover have "hb_b (get_field f t) = setBytesFromString (hb_b (get_field f t0)) (parsed_fields m f)" for f
    by (cases f) (simp_all add: t m parsed_fields_def get_field_Wrapped_SetString del: get_field.simps)
  ultimately show ?thesis by blast
qed

lemma traceRE_Some_text:
  assumes "traceRE s = Some (m1, m2, m3, m4)"
  shows "s = m1 @ ''-'' @ m2 @ ''-'' @ m3 @ ''-'' @ m4 \<and>
    length m1 = 2 \<and> length m2 = 32 \<and> length m3 = 16 \<and> length m4 = 2 \<and>
    list_all isHexChar m1 \<and> list_all isHexChar m2 \<and> list_all isHexChar m3 \<and> list_all isHexChar m4"
proof -
  from assms have len: "length s = 55"
    and d: "s ! 2 = CHR ''-''" "s ! 35 = CHR ''-''" "s ! 52 = CHR ''-''"
    and m: "m1 = take 2 s" "m2 = take 32 (drop 3 s)" "m3 = take 16 (drop 36 s)" "m4 = take 2 (drop 53 s)"
    and h: "list_all isHexChar m1" "list_all isHexChar m2" "list_all isHexChar m3" "list_all isHexChar m4"
    by (auto simp: traceRE_def Let_def split: if_splits)
  have split: "drop n s = s ! n # drop (Suc n) s" if "n < 55" for n
    using that len by (simp add: Cons_nth_drop_Suc)
  have cut: "drop n s = take k (drop n s) @ drop (n + k) s" for n k
    by (metis append_take_drop_id drop_drop add.commute)
  have "s = m1 @ drop 2 s" using cut [of 0 2] m by simp
  also have "drop 2 s = CHR ''-'' # drop 3 s" using split [of 2] d by simp
  also have "drop 3 s = m2 @ drop 35 s" using cut [of 3 32] m by simp
  also have "drop 35 s = CHR ''-'' # drop 36 s" using split [of 35] d by simp
  also have "drop 36 s = m3 @ drop 52 s" using cut [of 36 16] m by simp
  also have "drop 52 s = CHR ''-'' # drop 53 s" using split [of 52] d by simp
  also have "drop 53 s = m4" using m len by simp
  finally have "s = m1 @ ''-'' @ m2 @ ''-'' @ m3 @ ''-'' @ m4" by simp
  then show ?thesis using h m len by simp
qed

lemma setBytesFromString_parsed:
  assumes "list_all isHexChar h" and "length h = 2 * length dest"
  shows "hex_Encode (setBytesFromString dest h) = map lowerChar h"
proof -
  obtain bs where "hex_DecodeString h = Some bs" "length bs = length dest"
    using hex_Decode_total [OF assms(1)] assms(2) by auto
  then show ?thesis by (simp add: setBytesFromString_def hex_Encode_Decode)
qed

lemma SetString_roundtrip_eq:
  assumes "trace_ok t" "tr_initialized t" "trace_ok t0"
  shows "Trace_SetString (Trace_String t) t0 = (t, True)"
proof -
  obtain t' b where ret: "Trace_SetString (Trace_String t) t0 = (t', b)" by fastforce
  note re = traceRE_header [OF assms(1,2)]
  have str: "Trace_String t = tr_headerString t" using assms(2) by (simp add: Trace_String_def)
  have R: "b" "trace_ok t'" "tr_initialized t'"
    and F: "\<And>f. hb_b (get_field f t') = setBytesFromString (hb_b (get_field f t0)) (parsed_fields
      (hex_Encode (hb_b (tr_version t)), hex_Encode (hb_b (tr_traceID t)),
       hex_Encode (hb_b (tr_spanID t)), hex_Encode (hb_b (tr_flags t))) f)"
    using Trace_SetString_Some [OF assms(3) re, of t' b] ret str by auto
  have "hb_b (get_field f t') = hb_b (get_field f t)" for f
  proof -
    have len: "length (hb_b (get_field f t)) = length (hb_b (get_field f t0))"
      using assms(1,3) by (simp add: trace_ok_def length_get_field)
    then show ?thesis
      using F [of f] by (cases f) (simp_all add: parsed_fields_def)
  qed
  then have "t' = t" using trace_eqI [OF R(2) assms(1) R(3) assms(2)] by simp
  with R ret show ?thesis by simp
qed

text \<open>
  C11. Printing a trace and reading the text back gives the same trace, whatever (valid) trace
  value \<open>SetString\<close> is called on: the 55-byte header determines the whole value.
\<close>

theorem SetString_roundtrip:
  assumes "trace_ok t" "tr_initialized t" "trace_ok t0"
  shows "Trace_SetString (Trace_String t) t0 = (t, True)"
  using assms by (rule SetString_roundtrip_eq)

theorem SetString_roundtrip_witness:
  "trace_ok NewTrace \<and> tr_initialized NewTrace \<and> trace_ok zeroTrace \<and>
   Trace_SetString (Trace_String NewTrace) zeroTrace = (NewTrace, True)"
  using SetString_roundtrip [OF NewTrace_ok zeroTrace_ok] NewTrace_ok zeroTrace_ok by simp

lemma TraceFromString_case:
  "case TraceFromString s of (t, ok) \<Rightarrow>
     trace_ok t \<and> tr_initialized t \<and> (ok \<longleftrightarrow> traceRE s \<noteq> None) \<and>
     Trace_String t = (if ok then map lowerChar s
                       else ''00-00000000000000000000000000000000-0000000000000000-01'')"
proof (cases "traceRE s")
  case None
  have "Trace_String NewTrace = ''00-00000000000000000000000000000000-0000000000000000-01''"
    by code_simp
  with None NewTrace_ok show ?thesis
    by (simp add: TraceFromString_def Trace_SetString_def NewTrace_def)
next
  case (Some m)
  obtain m1 m2 m3 m4 where m: "m = (m1, m2, m3, m4)" by (cases m)
  obtain t b where ret: "Trace_SetString s zeroTrace = (t, b)" by fastforce
  from Trace_SetString_Some [OF zeroTrace_ok Some ret]
  have R: "b" "trace_ok t" "tr_initialized t"
    and F: "\<And>f. hb_b (get_field f t) = setBytesFromString (hb_b (get_field f zeroTrace)) (parsed_fields m f)"
    by auto
  have text_s: "s = m1 @ ''-'' @ m2 @ ''-'' @ m3 @ ''-'' @ m4"
    and len: "length m1 = 2" "length m2 = 32" "length m3 = 16" "length m4 = 2"
    and hex: "list_all isHexChar m1" "list_all isHexChar m2" "list_all isHexChar m3" "list_all isHexChar m4"
    using traceRE_Some_text [OF Some [unfolded m]] by auto
  have cached: "hb_h (get_field f t) = hex_Encode (hb_b (get_field f t))" for f
    using R by (simp add: trace_ok_def get_field_cached flip: hb_cached_def)
  have fields: "hb_h (get_field f t) = map lowerChar (parsed_fields m f)" for f
    by (cases f; simp add: cached F m parsed_fields_def setBytesFromString_parsed len hex
        zeroTrace_def zeroHexBytes_def del: get_field.simps;
      subst setBytesFromString_parsed; simp add: len hex)
  have "Trace_String t = map lowerChar s"
    using R fields [of VersionField] fields [of TraceIDField] fields [of SpanIDField] fields [of FlagsField]
    by (simp add: Trace_String_def trace_ok_def trace_cached_def rebuild_def text_s m parsed_fields_def lowerChar_def)
  with R ret Some show ?thesis by (simp add: TraceFromString_def)
qed

lemma TraceFromString_ok: "trace_ok (fst (TraceFromString s))"
  using TraceFromString_case [of s] by (auto split: prod.splits)

text \<open>
  C32. \<open>TraceFromString\<close> accepts a text exactly when it matches the header pattern, and then
  the trace it returns is valid, initialised and prints as the text in lower case; a text
  that does not match gives the default trace (all zero, flags 01).
\<close>

theorem TraceFromString_spec:
  "case TraceFromString s of (t, ok) \<Rightarrow>
     trace_ok t \<and> tr_initialized t \<and> (ok \<longleftrightarrow> traceRE s \<noteq> None) \<and>
     Trace_String t = (if ok then map lowerChar s
                       else ''00-00000000000000000000000000000000-0000000000000000-01'')"
  by (rule TraceFromString_case)

text \<open>
  C33. What \<open>SetString\<close> does with a text that is not a header: it reports failure and leaves the
  ids alone, but it writes the flag byte without refreshing the cached text. On a fresh trace
  the initialisation that follows repairs this; on a trace that was initialised before, the
  cached header agrees with the bytes afterwards only if the flags were 01 already.
\<close>

theorem SetString_reject:
  assumes "trace_ok t" "traceRE s = None"
  shows "case Trace_SetString s t of (t', ok) \<Rightarrow> \<not> ok \<and> tr_initialized t' \<and>
    (\<forall>f. f \<noteq> FlagsField \<longrightarrow> hb_b (get_field f t') = hb_b (get_field f t)) \<and>
    hb_b (tr_flags t') = [1] \<and>
    (trace_ok t' \<longleftrightarrow> \<not> tr_initialized t \<or> hb_b (tr_flags t) = [1])"
proof -
  let ?u = "set_flags_b0 1 t"
  have len: "length (hb_b (tr_flags t)) = 1" using assms(1) by (simp add: trace_defs hb_size_def)
  then have one: "(hb_b (tr_flags t))[0 := 1] = [1]" by (cases "hb_b (tr_flags t)") auto
  have flags: "hb_b (tr_flags (initialize ?u)) = [1]"
    using get_field_initialize_b [of FlagsField ?u] one by (simp add: set_flags_b0_def)
  have others: "\<forall>f. f \<noteq> FlagsField \<longrightarrow> hb_b (get_field f (initialize ?u)) = hb_b (get_field f t)"
  proof (intro allI impI)
    fix f assume "f \<noteq> FlagsField"
    then show "hb_b (get_field f (initialize ?u)) = hb_b (get_field f t)"
      by (cases f) (simp_all add: set_flags_b0_def del: get_field.simps,
          simp_all add: set_flags_b0_def)
  qed
  have "trace_ok (initialize ?u) \<longleftrightarrow> \<not> tr_initialized t \<or> hb_b (tr_flags t) = [1]"
  proof (cases "tr_initialized t")
    case False
    then show ?thesis
      using initialize_ok [OF set_flags_b0_fresh_ok [OF assms(1) False]] by simp
  next
    case True
    then have "initialize ?u = ?u" by (simp add: set_flags_b0_def)
    moreover have "trace_ok ?u \<longleftrightarrow> hb_h (tr_flags t) = hex_Encode [1]"
      using True assms(1) one
      by (auto simp: trace_ok_def trace_sized_def hb_size_def trace_cached_def rebuild_def
          set_flags_b0_def hb_cached_def)
    moreover have "hb_h (tr_flags t) = hex_Encode (hb_b (tr_flags t))"
      using True assms(1) by (simp add: trace_ok_def trace_cached_def hb_cached_def)
    ultimately show ?thesis using True by simp
  qed
  with flags others show ?thesis
    by (simp add: Trace_SetString_def assms(2))
qed

definition unsampled_trace :: Trace where
  "unsampled_trace = Wrapped_SetBytes FlagsField [0] NewTrace"

theorem SetString_reject_witness:
  "trace_ok unsampled_trace \<and> traceRE ''junk'' = None \<and>
   \<not> trace_ok (fst (Trace_SetString ''junk'' unsampled_trace))"
proof -
  have ok: "trace_ok unsampled_trace"
    by (simp add: unsampled_trace_def Wrapped_ops_ok NewTrace_ok)
  have no: "traceRE ''junk'' = None" by (simp add: traceRE_def)
  have init: "tr_initialized unsampled_trace"
    by (simp add: unsampled_trace_def NewTrace_ok)
  have "hb_b (tr_flags unsampled_trace) = [0]" by code_simp
  with SetString_reject [OF ok no] ok no init show ?thesis
    by (auto split: prod.splits)
qed

subsection \<open>Runs of updates\<close>

datatype trace_op =
    OpSetBytes TraceField "u8 list"
  | OpSetArray TraceField "u8 list"
  | OpSetString TraceField string
  | OpSetZero TraceField
  | OpSet TraceField HexBytes
  | OpParse string

fun trace_op_ok :: "trace_op \<Rightarrow> bool" where
  "trace_op_ok (OpSetArray f b) = (length b = field_size f)"
| "trace_op_ok (OpSet f x) = (hb_size (field_size f) x \<and> hb_cached x)"
| "trace_op_ok (OpParse s) = (traceRE s \<noteq> None)"
| "trace_op_ok _ = True"

fun trace_op_step :: "trace_op \<Rightarrow> Trace \<Rightarrow> Trace" where
  "trace_op_step (OpSetBytes f b) t = Wrapped_SetBytes f b (initialize t)"
| "trace_op_step (OpSetArray f b) t = Wrapped_SetArray f b (initialize t)"
| "trace_op_step (OpSetString f s) t = Wrapped_SetString f s (initialize t)"
| "trace_op_step (OpSetZero f) t = Wrapped_SetZero f (initialize t)"
| "trace_op_step (OpSet f x) t = Wrapped_Set f x (initialize t)"
| "trace_op_step (OpParse s) t = fst (Trace_SetString s t)"

lemma trace_op_step_ok:
  "trace_ok t \<Longrightarrow> trace_op_ok p \<Longrightarrow> trace_ok (trace_op_step p t) \<and> tr_initialized (trace_op_step p t)"
proof (cases p)
  case (OpParse s)
  assume a: "trace_ok t" "trace_op_ok p"
  then obtain m where m: "traceRE s = Some m" using OpParse by auto
  obtain t' b where r: "Trace_SetString s t = (t', b)" by fastforce
  from Trace_SetString_Some [OF a(1) m r] r OpParse show ?thesis by simp
qed (auto intro!: Wrapped_ops_ok initialize_ok)

lemma trace_ops_ok:
  "trace_ok t \<Longrightarrow> list_all trace_op_ok ps \<Longrightarrow> trace_ok (fold trace_op_step ps t)"
  by (induction ps arbitrary: t) (auto simp: trace_op_step_ok)

text \<open>
  C19. However a trace is built up by the methods of its wrapped fields (bytes, arrays, hex
  text, zeroing, copying a field, parsing a header), the cached header stays in step with the
  bytes: the slice of the header that each accessor's \<open>String()\<close> cuts out is the hex form of
  exactly that field.
\<close>

theorem Wrapped_String_after_updates:
  assumes "trace_ok t" "list_all trace_op_ok ps"
  shows "trace_ok (fold trace_op_step ps t) \<and>
    Wrapped_String f (initialize (fold trace_op_step ps t)) =
      hex_Encode (hb_b (get_field f (fold trace_op_step ps t)))"
  using trace_ops_ok [OF assms] Wrapped_String_eq [OF initialize_ok initialized_initialize, of _ f]
  by simp

theorem Wrapped_String_after_updates_witness:
  "Wrapped_String SpanIDField (initialize (fold trace_op_step
     [OpSetString SpanIDField ''b7ad6b7169203331'', OpSetBytes FlagsField [0]] zeroTrace)) =
   ''b7ad6b7169203331''"
proof -
  have "hex_Encode (hb_b (get_field SpanIDField (fold trace_op_step
     [OpSetString SpanIDField ''b7ad6b7169203331'', OpSetBytes FlagsField [0]] zeroTrace))) =
    ''b7ad6b7169203331''"
    by code_simp
  with Wrapped_String_after_updates [OF zeroTrace_ok,
      of "[OpSetString SpanIDField ''b7ad6b7169203331'', OpSetBytes FlagsField [0]]" SpanIDField]
  show ?thesis by simp
qed

subsection \<open>Random ids\<close>

lemma Wrapped_SetRandom_result:
  assumes "rand_fills rnd" "trace_ok t" "tr_initialized t" "Wrapped_SetRandom rnd f k t = Some (t', k')"
  shows "trace_ok t' \<and> tr_initialized t' \<and> \<not> HexBytes_IsZero (get_field f t') \<and>
    (\<forall>f'. f' \<noteq> f \<longrightarrow> get_field f' t' = get_field f' t)"
proof -
  obtain x where x: "HexBytes_setRandom rnd k (get_field f t) = Some (x, k')"
    and t': "t' = Wrapped_put f (\<lambda>_. x) t"
    using assms(4) by (auto simp: Wrapped_SetRandom_def)
  have "length (hb_b (get_field f t)) = field_size f"
    using assms(2) by (simp add: trace_ok_def length_get_field)
  with setRandom_result [OF assms(1) x] Wrapped_put_ok [OF assms(2,3), of f "\<lambda>_. x"]
  show ?thesis by (simp add: t')
qed

text \<open>
  C34. \<open>RebuildSetNonZero\<close> (called when a request starts) returns as soon as the random source
  yields usable bytes, keeps an id that is already set, and gives every unset id a value that
  is not zero; its cached header is rebuilt from the parts.
\<close>

theorem RebuildSetNonZero_spec:
  assumes fills: "rand_fills rnd" and live: "\<forall>n \<in> {8, 16}. \<forall>i. \<exists>j \<ge> i. rnd j n \<noteq> zeroBytesN n"
    and ok: "trace_ok t"
  shows "\<exists>t' k'. RebuildSetNonZero rnd k t = Some (t', k') \<and> trace_ok t' \<and>
    \<not> HexBytes_IsZero (tr_traceID t') \<and> \<not> HexBytes_IsZero (tr_spanID t') \<and>
    (HexBytes_IsZero (tr_traceID t) \<or> tr_traceID t' = tr_traceID t) \<and>
    (HexBytes_IsZero (tr_spanID t) \<or> tr_spanID t' = tr_spanID t) \<and>
    tr_headerString t' = tr_headerString (rebuild t')"
proof -
  have step: "\<exists>x' k'. (if HexBytes_IsZero x then HexBytes_setRandom rnd k x else Some (x, k)) = Some (x', k')
      \<and> \<not> HexBytes_IsZero x' \<and> (HexBytes_IsZero x \<or> x' = x) \<and> hb_size n x' \<and> (hb_cached x \<longrightarrow> hb_cached x')"
    if n: "n \<in> {8, 16}" and x: "hb_size n x" for n x k
  proof -
    obtain j where "j \<ge> k" "rnd j n \<noteq> zeroBytesN n" using live n by blast
    with setRandom_Some [OF fills, of j n k x] x show ?thesis
      by (auto simp: hb_size_def)
  qed
  have sz: "hb_size 16 (tr_traceID t)" "hb_size 8 (tr_spanID t)"
    using ok by (auto simp: trace_defs)
  obtain x k1 where x: "(if HexBytes_IsZero (tr_traceID t) then HexBytes_setRandom rnd k (tr_traceID t)
        else Some (tr_traceID t, k)) = Some (x, k1)" "\<not> HexBytes_IsZero x"
      "HexBytes_IsZero (tr_traceID t) \<or> x = tr_traceID t" "hb_size 16 x"
      "hb_cached (tr_traceID t) \<longrightarrow> hb_cached x"
    using step [OF _ sz(1)] by blast
  obtain y k2 where y: "(if HexBytes_IsZero (tr_spanID t) then HexBytes_setRandom rnd k1 (tr_spanID t)
        else Some (tr_spanID t, k1)) = Some (y, k2)" "\<not> HexBytes_IsZero y"
      "HexBytes_IsZero (tr_spanID t) \<or> y = tr_spanID t" "hb_size 8 y"
      "hb_cached (tr_spanID t) \<longrightarrow> hb_cached y"
    using step [OF _ sz(2)] by blast
  let ?t' = "rebuild (t\<lparr>tr_traceID := x, tr_spanID := y\<rparr>)"
  have "RebuildSetNonZero rnd k t = Some (?t', k2)"
    using x(1,3) y(1,3) by (auto simp: RebuildSetNonZero_def split: if_splits)
  moreover have "trace_ok ?t'"
    using ok x(4,5) y(4,5) by (auto simp: trace_defs)
  ultimately show ?thesis
    using x(2,3) y(2,3) by (auto simp: rebuild_def)
qed

definition ones_rnd :: "nat \<Rightarrow> nat \<Rightarrow> u8 list" where
  "ones_rnd k n = replicate n 1"

lemma ones_rnd_fills: "rand_fills ones_rnd"
  by (simp add: rand_fills_def ones_rnd_def)

lemma ones_rnd_live: "\<forall>n \<in> {8, 16}. \<forall>i. \<exists>j \<ge> i. ones_rnd j n \<noteq> zeroBytesN n"
  by (auto simp: ones_rnd_def zeroBytesN_def)

theorem RebuildSetNonZero_spec_witness:
  "\<exists>t' k'. RebuildSetNonZero ones_rnd 0 zeroTrace = Some (t', k') \<and> \<not> HexBytes_IsZero (tr_spanID t')"
  using RebuildSetNonZero_spec [OF ones_rnd_fills ones_rnd_live zeroTrace_ok, of 0] by blast

subsection \<open>JSON\<close>

text \<open>
  \<open>UnmarshalJSON\<close> reads back what \<open>MarshalJSON\<close> writes for an initialised trace; the zero
  value, whose header was never built, marshals to an empty string that it refuses.
\<close>

theorem Trace_JSON_roundtrip:
  assumes "trace_ok t" "trace_ok t0"
  shows "Trace_UnmarshalJSON (Trace_MarshalJSON (initialize t)) t0 = (None, initialize t) \<and>
    Trace_UnmarshalJSON (Trace_MarshalJSON zeroTrace) t0 = (Some WrongLength, t0)"
proof -
  let ?t = "initialize t"
  have ok: "trace_ok ?t" "tr_initialized ?t" using assms(1) by auto
  have len: "length (tr_headerString ?t) = 55" by (rule header_length [OF ok])
  have "Trace_SetString (tr_headerString ?t) t0 = (?t, True)"
    using SetString_roundtrip_eq [OF ok assms(2)] by (simp add: Trace_String_def)
  then show ?thesis
    by (simp add: Trace_UnmarshalJSON_def Trace_MarshalJSON_def len nth_append zeroTrace_def)
qed

theorem Trace_JSON_roundtrip_witness:
  "Trace_UnmarshalJSON (Trace_MarshalJSON (initialize NewTrace)) zeroTrace = (None, initialize NewTrace)"
  using Trace_JSON_roundtrip [OF NewTrace_ok(1) zeroTrace_ok] by simp

end
