(* ===== verification/Metadata.thy ===== *)
theory Metadata
  imports Attributes Trace
begin

section \<open>Models and span metadata\<close>

text \<open>
  Models \<open>xopbase/model.go\<close> (the argument of \<open>Any\<close>) and \<open>xopbase/xopbaseutil/metadata.go\<close> (the
  metadata store that base loggers share). A model's object is of the type parameter \<open>'m\<close>;
  what the marshallers of the standard library do with it is a record of functions. The store
  is a map from an attribute's key to a tracker; each call holds the tracker's lock from before
  it reads it to its end, so calls are steps. A type assertion that fails panics, which is
  \<^term>\<open>None\<close>.
\<close>

subsection \<open>\<open>ModelArg\<close>\<close>

record 'm ModelArg =
  ma_Encoding :: int
  ma_Encoded :: string
  ma_ModelType :: string
  ma_Model :: "'m option"

datatype csv_result = NotTable string | HeaderError string | RowsError string | CSVText string

text \<open>\<open>reflect.TypeOf(x).String()\<close>, \<open>json.Marshal\<close>, \<open>xml.Marshal\<close> and the table interface with \<open>encoding/csv\<close>.\<close>

record 'm marshallers =
  ms_typeName :: "'m \<Rightarrow> string"
  ms_json :: "'m option \<Rightarrow> string + string"
  ms_xml :: "'m option \<Rightarrow> string + string"
  ms_csv :: "'m option \<Rightarrow> csv_result"

definition Encoding_Unset :: int where "Encoding_Unset = 0"
definition Encoding_JSON :: int where "Encoding_JSON = 1"
definition Encoding_XML :: int where "Encoding_XML = 2"
definition Encoding_CSV :: int where "Encoding_CSV = 3"
definition Encoding_ErrorMessage :: int where "Encoding_ErrorMessage = 4"

lemmas encoding_defs = Encoding_Unset_def Encoding_JSON_def Encoding_XML_def Encoding_CSV_def
  Encoding_ErrorMessage_def

definition ma_fail :: "string \<Rightarrow> 'm ModelArg \<Rightarrow> 'm ModelArg" where
  "ma_fail err m = m\<lparr>ma_Encoded := err, ma_Encoding := Encoding_ErrorMessage\<rparr>"

definition ma_marshal :: "string + string \<Rightarrow> 'm ModelArg \<Rightarrow> 'm ModelArg" where
  "ma_marshal r m = (case r of Inl err \<Rightarrow> ma_fail err m | Inr enc \<Rightarrow> m\<lparr>ma_Encoded := enc\<rparr>)"

definition ModelArg_Encode :: "'m marshallers \<Rightarrow> 'm ModelArg \<Rightarrow> 'm ModelArg" where
  "ModelArg_Encode ms m =
     (let m = (case ma_Model m of
                 Some x \<Rightarrow> if ma_ModelType m = [] then m\<lparr>ma_ModelType := ms_typeName ms x\<rparr> else m
               | None \<Rightarrow> m) in
      if ma_Encoded m \<noteq> [] then m
      else if ma_Encoding m = Encoding_Unset then
        ma_marshal (ms_json ms (ma_Model m)) (m\<lparr>ma_Encoding := Encoding_JSON\<rparr>)
      else if ma_Encoding m = Encoding_JSON then ma_marshal (ms_json ms (ma_Model m)) m
      else if ma_Encoding m = Encoding_XML then ma_marshal (ms_xml ms (ma_Model m)) m
      else if ma_Encoding m = Encoding_CSV then
        (case ms_csv ms (ma_Model m) of
           NotTable t \<Rightarrow> ma_fail (''do not know how to turn '' @ t @ '' into a CSV'') m
         | HeaderError err \<Rightarrow> ma_fail err m
         | RowsError err \<Rightarrow> ma_fail err m
         | CSVText t \<Rightarrow> m\<lparr>ma_Encoded := t\<rparr>)
      else if ma_Encoding m = Encoding_ErrorMessage then
        m\<lparr>ma_Encoded := ''Error is not a valid encoding''\<rparr>
      else ma_fail (''unknown encoding '' @ Encoding_ToString (ma_Encoding m)) m)"

definition ModelArg_MarshalJSON :: "'m marshallers \<Rightarrow> 'm ModelArg \<Rightarrow> string" where
  "ModelArg_MarshalJSON ms m =
     (let m = ModelArg_Encode ms m;
          b = AppendBytes (q ''{`v`:'') \<lparr>jb_B = [], jb_FastKeys = True\<rparr>;
          b = (if ma_Encoding m = Encoding_JSON then AppendBytes (ma_Encoded m) b
               else AddSafeString (Encoding_ToString (ma_Encoding m))
                      (AppendBytes (q '',`encoding`:'') (AddString (ma_Encoded m) b)));
          b = AddString (ma_ModelType m) (AppendBytes (q '',`modelType`:'') b)
      in jb_B (AppendByte (CHR ''}'') b))"

text \<open>
  The marshallers that succeed give a text that is not empty (JSON and XML always do).
\<close>

definition marshallers_ok :: "'m marshallers \<Rightarrow> bool" where
  "marshallers_ok ms \<longleftrightarrow>
     (\<forall>x. ms_json ms x \<notin> {Inl [], Inr []}) \<and> (\<forall>x. ms_xml ms x \<notin> {Inl [], Inr []}) \<and>
     (\<forall>x. ms_csv ms x \<notin> {HeaderError [], RowsError [], CSVText []})"

lemma ma_simps [simp]:
  "ma_Model (ma_fail e m) = ma_Model m" "ma_ModelType (ma_fail e m) = ma_ModelType m"
  "ma_Encoded (ma_fail e m) = e" "ma_Encoding (ma_fail e m) = Encoding_ErrorMessage"
  "ma_Model (ma_marshal r m) = ma_Model m" "ma_ModelType (ma_marshal r m) = ma_ModelType m"
  by (simp_all add: ma_fail_def ma_marshal_def split: sum.splits)

lemma ma_Encoded_marshal: "ma_Encoded (ma_marshal r m) = (case r of Inl e \<Rightarrow> e | Inr t \<Rightarrow> t)"
  by (simp add: ma_marshal_def split: sum.splits)

lemma Encode_Encoded:
  assumes "marshallers_ok ms"
  shows "ma_Encoded (ModelArg_Encode ms m) \<noteq> []"
proof -
  have j: "(case ms_json ms x of Inl e \<Rightarrow> e | Inr t \<Rightarrow> t) \<noteq> []"
    and xm: "(case ms_xml ms x of Inl e \<Rightarrow> e | Inr t \<Rightarrow> t) \<noteq> []" for x
    using assms by (auto simp: marshallers_ok_def split: sum.splits)
  have c: "ms_csv ms x \<noteq> HeaderError []" "ms_csv ms x \<noteq> RowsError []" "ms_csv ms x \<noteq> CSVText []" for x
    using assms by (auto simp: marshallers_ok_def)
  show ?thesis
    using j xm c
    by (auto simp: ModelArg_Encode_def Let_def ma_Encoded_marshal split: csv_result.split option.split)
qed

lemma Encode_fixed: "ma_Encoded m \<noteq> [] \<Longrightarrow> ma_ModelType m \<noteq> [] \<or> ma_Model m = None \<Longrightarrow> ModelArg_Encode ms m = m"
  by (auto simp: ModelArg_Encode_def Let_def split: option.splits)

lemma Encode_Model [simp]: "ma_Model (ModelArg_Encode ms m) = ma_Model m"
  by (auto simp: ModelArg_Encode_def Let_def split: option.split csv_result.split)

lemma Encode_ModelType:
  "ma_ModelType (ModelArg_Encode ms m) =
     (case ma_Model m of Some x \<Rightarrow> if ma_ModelType m = [] then ms_typeName ms x else ma_ModelType m
      | None \<Rightarrow> ma_ModelType m)"
  by (auto simp: ModelArg_Encode_def Let_def split: option.split csv_result.split)

text \<open>
  \<open>Encode\<close> always leaves an encoded text, keeps the model, and a second call changes nothing.
\<close>

theorem Encode_idempotent:
  assumes "marshallers_ok ms" "\<forall>x. ms_typeName ms x \<noteq> []"
  shows "ModelArg_Encode ms (ModelArg_Encode ms m) = ModelArg_Encode ms m \<and>
    ma_Encoded (ModelArg_Encode ms m) \<noteq> [] \<and> ma_Model (ModelArg_Encode ms m) = ma_Model m"
proof -
  have "ma_ModelType (ModelArg_Encode ms m) \<noteq> [] \<or> ma_Model (ModelArg_Encode ms m) = None"
    using assms(2) by (auto simp: Encode_ModelType split: option.split)
  with Encode_Encoded [OF assms(1), of m] Encode_fixed [of "ModelArg_Encode ms m" ms] show ?thesis by simp
qed

definition int_marshallers :: "int marshallers" where
  "int_marshallers = \<lparr>ms_typeName = (\<lambda>_. ''int''),
     ms_json = (\<lambda>x. Inr (case x of Some i \<Rightarrow> Itoa i | None \<Rightarrow> ''null'')),
     ms_xml = (\<lambda>_. Inl ''no''), ms_csv = (\<lambda>_. NotTable ''int'')\<rparr>"

lemma int_marshallers_ok: "marshallers_ok int_marshallers"
  by (auto simp: marshallers_ok_def int_marshallers_def Itoa_def FormatInt_def formatNat_nonempty
      split: option.split)

theorem Encode_idempotent_witness:
  "ma_Encoded (ModelArg_Encode int_marshallers
     \<lparr>ma_Encoding = 0, ma_Encoded = [], ma_ModelType = [], ma_Model = Some 7\<rparr>) \<noteq> []"
  using Encode_idempotent [OF int_marshallers_ok] by (simp add: int_marshallers_def)

subsection \<open>Trackers\<close>

text \<open>
  A \<open>float64\<close> is its 64 bits; as a map key it is compared the way Go compares floats. A
  \<open>time.Time\<close> is its nanoseconds and the rest of its representation (monotonic reading and
  location), which a comparison as a map key takes into account.
\<close>

definition f64_isNaN :: "u64 \<Rightarrow> bool" where
  "f64_isNaN w \<longleftrightarrow> take_bit 63 (uint w) > 0x7FF0000000000000"

definition f64_eq :: "u64 \<Rightarrow> u64 \<Rightarrow> bool" where
  "f64_eq a b \<longleftrightarrow> \<not> f64_isNaN a \<and> \<not> f64_isNaN b \<and>
     (a = b \<or> take_bit 63 (uint a) = 0 \<and> take_bit 63 (uint b) = 0)"

datatype 'm metavalue =
  MAny "'m ModelArg" | MBool bool | MEnum enumValue | MFloat64 u64 | MInt64 i64 | MLink Trace
  | MString string | MTime int nat

text \<open>The keys of the \<open>Seen\<close> maps; the constructor is the map's key type.\<close>

datatype seen_key = SKBool bool | SKFloat64 u64 | SKInt64 i64 | SKLink Trace | SKString string | SKTime int nat

fun seen_kind :: "seen_key \<Rightarrow> nat" where
  "seen_kind (SKBool _) = 0"
| "seen_kind (SKFloat64 _) = 1"
| "seen_kind (SKInt64 _) = 2"
| "seen_kind (SKLink _) = 3"
| "seen_kind (SKString _) = 4"
| "seen_kind (SKTime _ _) = 5"

fun seen_eq :: "seen_key \<Rightarrow> seen_key \<Rightarrow> bool" where
  "seen_eq (SKFloat64 a) (SKFloat64 b) = f64_eq a b"
| "seen_eq a b = (a = b)"

fun metavalue_key :: "'m marshallers \<Rightarrow> 'm metavalue \<Rightarrow> seen_key" where
  "metavalue_key ms (MAny v) = SKString (ma_Encoded (ModelArg_Encode ms (ModelArg_Encode ms v)))"
| "metavalue_key ms (MBool v) = SKBool v"
| "metavalue_key ms (MEnum v) = SKString (ev_str v)"
| "metavalue_key ms (MFloat64 v) = SKFloat64 v"
| "metavalue_key ms (MInt64 v) = SKInt64 v"
| "metavalue_key ms (MLink v) = SKLink v"
| "metavalue_key ms (MString v) = SKString v"
| "metavalue_key ms (MTime t r) = SKTime t r"

text \<open>The data types that a new tracker gets, without and with \<open>Multiple\<close>.\<close>

fun metavalue_type :: "'m metavalue \<Rightarrow> bool \<Rightarrow> int" where
  "metavalue_type (MAny _) arr = (if arr then 211 else 11)"
| "metavalue_type (MBool _) arr = (if arr then 201 else 1)"
| "metavalue_type (MEnum _) arr = (if arr then 214 else 14)"
| "metavalue_type (MFloat64 _) arr = (if arr then 202 else 2)"
| "metavalue_type (MInt64 _) arr = (if arr then 204 else 4)"
| "metavalue_type (MLink _) arr = (if arr then 210 else 10)"
| "metavalue_type (MString _) arr = (if arr then 209 else 9)"
| "metavalue_type (MTime _ _) arr = (if arr then 212 else 12)"

datatype 'm tracked = Single "'m metavalue" | Many "'m metavalue list"

record 'm MetadataTracker =
  mt_Value :: "'m tracked option"
  mt_Type :: int
  mt_Attribute :: Attribute
  mt_Seen :: "(nat \<times> seen_key list) option"

type_synonym 'm SpanMetadata = "(string \<times> 'm MetadataTracker) list"

definition Metadata_Get :: "string \<Rightarrow> 'm SpanMetadata \<Rightarrow> 'm MetadataTracker option" where
  "Metadata_Get k s = map_of s k"

definition Metadata_GetValue :: "string \<Rightarrow> 'm SpanMetadata \<Rightarrow> 'm tracked option" where
  "Metadata_GetValue k s = (case map_of s k of None \<Rightarrow> None | Some mt \<Rightarrow> mt_Value mt)"

text \<open>
  The part of every generated method after \<open>Load\<close>: \<open>loaded\<close> says whether the tracker was
  there. The result \<^term>\<open>None\<close> is a panic of a type assertion.
\<close>

definition tracker_append :: "bool \<Rightarrow> 'm metavalue \<Rightarrow> 'm MetadataTracker \<Rightarrow> 'm MetadataTracker option" where
  "tracker_append loaded v t =
     (if loaded then
        (case mt_Value t of
           Some (Many vs) \<Rightarrow> Some (t\<lparr>mt_Value := Some (Many (vs @ [v]))\<rparr>)
         | _ \<Rightarrow> None)
      else Some (t\<lparr>mt_Value := Some (Many [v]), mt_Type := metavalue_type v True\<rparr>))"

definition tracker_set ::
    "bool \<Rightarrow> seen_key \<Rightarrow> 'm metavalue \<Rightarrow> 'm MetadataTracker \<Rightarrow> 'm MetadataTracker option" where
  "tracker_set loaded key v t =
     (if mk_Multiple (at_properties (mt_Attribute t)) then
        (if mk_Distinct (at_properties (mt_Attribute t)) then
           (if \<not> loaded then tracker_append loaded v (t\<lparr>mt_Seen := Some (seen_kind key, [key])\<rparr>)
            else (case mt_Seen t of
                    Some (kind, seen) \<Rightarrow>
                      if kind \<noteq> seen_kind key then None
                      else if list_ex (seen_eq key) seen then Some t
                      else tracker_append loaded v (t\<lparr>mt_Seen := Some (kind, seen @ [key])\<rparr>)
                  | None \<Rightarrow> None))
         else tracker_append loaded v t)
      else if loaded \<and> mk_Locked (at_properties (mt_Attribute t)) then Some t
      else Some (t\<lparr>mt_Value := Some (Single v),
                  mt_Type := (if loaded then mt_Type t else metavalue_type v False)\<rparr>))"

definition newTracker :: "Attribute \<Rightarrow> 'm MetadataTracker" where
  "newTracker k = \<lparr>mt_Value = None, mt_Type = 0, mt_Attribute = k, mt_Seen = None\<rparr>"

definition Metadata_store ::
    "Attribute \<Rightarrow> seen_key \<Rightarrow> 'm metavalue \<Rightarrow> 'm SpanMetadata \<Rightarrow> 'm SpanMetadata option" where
  "Metadata_store k key v s =
     (let (t, loaded) = (case map_of s (at_key k) of Some t \<Rightarrow> (t, True) | None \<Rightarrow> (newTracker k, False)) in
      map_option (\<lambda>t. aput (at_key k) t s) (tracker_set loaded key v t))"

subsection \<open>The methods\<close>

definition MetadataAny :: "'m marshallers \<Rightarrow> Attribute \<Rightarrow> 'm ModelArg \<Rightarrow> 'm SpanMetadata \<Rightarrow> 'm SpanMetadata option" where
  "MetadataAny ms k v s =
     (let v = ModelArg_Encode ms v in Metadata_store k (SKString (ma_Encoded (ModelArg_Encode ms v))) (MAny v) s)"

definition MetadataBool :: "Attribute \<Rightarrow> bool \<Rightarrow> 'm SpanMetadata \<Rightarrow> 'm SpanMetadata option" where
  "MetadataBool k v s = Metadata_store k (SKBool v) (MBool v) s"

definition MetadataEnum :: "Attribute \<Rightarrow> enumValue \<Rightarrow> 'm SpanMetadata \<Rightarrow> 'm SpanMetadata option" where
  "MetadataEnum k v s = Metadata_store k (SKString (ev_str v)) (MEnum v) s"

definition MetadataFloat64 :: "Attribute \<Rightarrow> u64 \<Rightarrow> 'm SpanMetadata \<Rightarrow> 'm SpanMetadata option" where
  "MetadataFloat64 k v s = Metadata_store k (SKFloat64 v) (MFloat64 v) s"

definition MetadataInt64 :: "Attribute \<Rightarrow> i64 \<Rightarrow> 'm SpanMetadata \<Rightarrow> 'm SpanMetadata option" where
  "MetadataInt64 k v s = Metadata_store k (SKInt64 v) (MInt64 v) s"

definition MetadataLink :: "Attribute \<Rightarrow> Trace \<Rightarrow> 'm SpanMetadata \<Rightarrow> 'm SpanMetadata option" where
  "MetadataLink k v s = Metadata_store k (SKLink v) (MLink v) s"

definition MetadataString :: "Attribute \<Rightarrow> string \<Rightarrow> 'm SpanMetadata \<Rightarrow> 'm SpanMetadata option" where
  "MetadataString k v s = Metadata_store k (SKString v) (MString v) s"

definition MetadataTime :: "Attribute \<Rightarrow> int \<Rightarrow> nat \<Rightarrow> 'm SpanMetadata \<Rightarrow> 'm SpanMetadata option" where
  "MetadataTime k t r s = Metadata_store k (SKTime t r) (MTime t r) s"

text \<open>A call of one of them, by its value.\<close>

fun Metadata_call :: "'m marshallers \<Rightarrow> Attribute \<times> 'm metavalue \<Rightarrow> 'm SpanMetadata \<Rightarrow> 'm SpanMetadata option" where
  "Metadata_call ms (k, MAny v) s = MetadataAny ms k v s"
| "Metadata_call ms (k, MBool v) s = MetadataBool k v s"
| "Metadata_call ms (k, MEnum v) s = MetadataEnum k v s"
| "Metadata_call ms (k, MFloat64 v) s = MetadataFloat64 k v s"
| "Metadata_call ms (k, MInt64 v) s = MetadataInt64 k v s"
| "Metadata_call ms (k, MLink v) s = MetadataLink k v s"
| "Metadata_call ms (k, MString v) s = MetadataString k v s"
| "Metadata_call ms (k, MTime t r) s = MetadataTime k t r s"

fun Metadata_calls :: "'m marshallers \<Rightarrow> (Attribute \<times> 'm metavalue) list \<Rightarrow> 'm SpanMetadata \<Rightarrow> 'm SpanMetadata option" where
  "Metadata_calls ms [] s = Some s"
| "Metadata_calls ms (c # cs) s =
     (case Metadata_call ms c s of None \<Rightarrow> None | Some s \<Rightarrow> Metadata_calls ms cs s)"

subsection \<open>The store against its specification\<close>

text \<open>The first of every group of equal keys; a NaN is equal to nothing, itself included.\<close>

function first_occ :: "(seen_key \<times> 'a) list \<Rightarrow> (seen_key \<times> 'a) list" where
  "first_occ [] = []"
| "first_occ (x # xs) = x # first_occ (filter (\<lambda>y. \<not> seen_eq (fst y) (fst x)) xs)"
  by pat_completeness auto
termination by (relation "measure length") (auto simp: le_imp_less_Suc)

lemma f64_eq_sym: "f64_eq a b = f64_eq b a"
  by (auto simp: f64_eq_def)

lemma f64_eq_trans: "f64_eq a b \<Longrightarrow> f64_eq b c \<Longrightarrow> f64_eq a c"
  by (auto simp: f64_eq_def)

lemma seen_eq_sym: "seen_eq a b = seen_eq b a"
  by (cases a; cases b) (auto simp: f64_eq_sym)

lemma seen_eq_trans: "seen_eq a b \<Longrightarrow> seen_eq b c \<Longrightarrow> seen_eq a c"
  by (cases a; cases b; cases c) (auto intro: f64_eq_trans)

lemma filter_seen:
  assumes "\<not> seen_eq ky kx"
  shows "(\<exists>z \<in> set (filter (\<lambda>z. \<not> seen_eq (fst z) kx) xs). seen_eq ky (fst z)) \<longleftrightarrow>
    (\<exists>z \<in> set xs. seen_eq ky (fst z))"
proof
  assume "\<exists>z \<in> set xs. seen_eq ky (fst z)"
  then obtain z where z: "z \<in> set xs" "seen_eq ky (fst z)" by blast
  then have "\<not> seen_eq (fst z) kx" using seen_eq_trans assms by blast
  with z show "\<exists>z \<in> set (filter (\<lambda>z. \<not> seen_eq (fst z) kx) xs). seen_eq ky (fst z)"
    by (intro bexI [of _ z]) auto
next
  assume "\<exists>z \<in> set (filter (\<lambda>z. \<not> seen_eq (fst z) kx) xs). seen_eq ky (fst z)"
  then obtain z where "z \<in> set xs" "seen_eq ky (fst z)" by auto
  then show "\<exists>z \<in> set xs. seen_eq ky (fst z)" by (rule bexI [rotated])
qed

lemma first_occ_keys:
  "(\<exists>x \<in> set (first_occ xs). seen_eq y (fst x)) \<longleftrightarrow> (\<exists>x \<in> set xs. seen_eq y (fst x))"
proof (induction xs rule: first_occ.induct)
  case (2 x xs)
  show ?case
  proof (cases "seen_eq y (fst x)")
    case True
    then show ?thesis by simp
  next
    case False
    from 2 filter_seen [OF False, of xs] False show ?thesis by simp
  qed
qed simp

lemma first_occ_snoc:
  "first_occ (xs @ [y]) = first_occ xs @ (if \<exists>x \<in> set xs. seen_eq (fst y) (fst x) then [] else [y])"
proof (induction xs rule: first_occ.induct)
  case (2 x xs)
  show ?case
  proof (cases "seen_eq (fst y) (fst x)")
    case True
    then show ?thesis by simp
  next
    case False
    from 2 filter_seen [OF False, of xs] False show ?thesis by simp
  qed
qed simp

definition metavalue_stored :: "'m marshallers \<Rightarrow> 'm metavalue \<Rightarrow> 'm metavalue" where
  "metavalue_stored ms v = (case v of MAny m \<Rightarrow> MAny (ModelArg_Encode ms m) | _ \<Rightarrow> v)"

lemma metavalue_type_stored [simp]: "metavalue_type (metavalue_stored ms v) b = metavalue_type v b"
  by (cases v) (simp_all add: metavalue_stored_def)

lemma Metadata_call_store:
  "Metadata_call ms (k, v) s = Metadata_store k (metavalue_key ms v) (metavalue_stored ms v) s"
  by (cases v) (simp_all add: metavalue_stored_def MetadataAny_def MetadataBool_def MetadataEnum_def
      MetadataFloat64_def MetadataInt64_def MetadataLink_def MetadataString_def MetadataTime_def Let_def)

text \<open>
  What a key holds after the calls that were made with it: the attribute of the first call
  decides, the rest of the calls only bring values.
\<close>

definition tracked_spec :: "Make \<Rightarrow> (seen_key \<times> 'm metavalue) list \<Rightarrow> 'm tracked" where
  "tracked_spec p xs =
     (if mk_Multiple p then Many (map snd (if mk_Distinct p then first_occ xs else xs))
      else Single (snd (if mk_Locked p then hd xs else last xs)))"

definition tracker_spec :: "Attribute \<Rightarrow> (seen_key \<times> 'm metavalue) list \<Rightarrow> 'm MetadataTracker" where
  "tracker_spec a xs =
     (let p = at_properties a in
      \<lparr>mt_Value = Some (tracked_spec p xs), mt_Type = metavalue_type (snd (hd xs)) (mk_Multiple p),
       mt_Attribute = a,
       mt_Seen = (if mk_Multiple p \<and> mk_Distinct p
                  then Some (seen_kind (fst (hd xs)), map fst (first_occ xs)) else None)\<rparr>)"

definition key_items ::
    "'m marshallers \<Rightarrow> string \<Rightarrow> (Attribute \<times> 'm metavalue) list \<Rightarrow> (seen_key \<times> 'm metavalue) list" where
  "key_items ms k cs =
     map (\<lambda>(a, v). (metavalue_key ms v, metavalue_stored ms v)) (filter (\<lambda>(a, v). at_key a = k) cs)"

definition key_attribute :: "string \<Rightarrow> (Attribute \<times> 'm metavalue) list \<Rightarrow> Attribute" where
  "key_attribute k cs = fst (hd (filter (\<lambda>(a, v). at_key a = k) cs))"

definition key_tracker ::
    "'m marshallers \<Rightarrow> string \<Rightarrow> (Attribute \<times> 'm metavalue) list \<Rightarrow> 'm MetadataTracker option" where
  "key_tracker ms k cs =
     (if key_items ms k cs = [] then None else Some (tracker_spec (key_attribute k cs) (key_items ms k cs)))"

lemma tracker_set_new:
  "tracker_set False key v (newTracker a) = Some (tracker_spec a [(key, v)])"
  by (simp add: tracker_set_def tracker_append_def newTracker_def tracker_spec_def tracked_spec_def Let_def)

lemma tracker_set_loaded:
  assumes "xs \<noteq> []"
  shows "tracker_set True key v (tracker_spec a xs) =
    (if mk_Multiple (at_properties a) \<and> mk_Distinct (at_properties a) \<and> seen_kind (fst (hd xs)) \<noteq> seen_kind key
     then None else Some (tracker_spec a (xs @ [(key, v)])))"
proof -
  have "list_ex (seen_eq key) (map fst (first_occ xs)) \<longleftrightarrow> (\<exists>x \<in> set xs. seen_eq key (fst x))"
    using first_occ_keys [of xs key] by (auto simp: list_ex_iff)
  with assms show ?thesis
    by (auto simp: tracker_set_def tracker_append_def tracker_spec_def tracked_spec_def Let_def first_occ_snoc)
qed

lemma key_items_snoc:
  "key_items ms k (cs @ [(a, v)]) =
     key_items ms k cs @ (if at_key a = k then [(metavalue_key ms v, metavalue_stored ms v)] else [])"
  by (simp add: key_items_def)

lemma key_attribute_snoc:
  "key_attribute k (cs @ [(a, v)]) =
     (if key_items ms k cs \<noteq> [] then key_attribute k cs else if at_key a = k then a else key_attribute k (cs @ [(a, v)]))"
  by (simp add: key_items_def key_attribute_def hd_append)

text \<open>The condition under which the type assertion on \<open>Seen\<close> fails.\<close>

definition seen_conflict ::
    "'m marshallers \<Rightarrow> (Attribute \<times> 'm metavalue) list \<Rightarrow> Attribute \<times> 'm metavalue \<Rightarrow> bool" where
  "seen_conflict ms cs c \<longleftrightarrow>
     (let k = at_key (fst c); xs = key_items ms k cs; p = at_properties (key_attribute k cs) in
      xs \<noteq> [] \<and> mk_Multiple p \<and> mk_Distinct p \<and> seen_kind (fst (hd xs)) \<noteq> seen_kind (metavalue_key ms (snd c)))"

lemma Metadata_call_spec:
  assumes "\<forall>k. map_of s k = key_tracker ms k cs"
  shows "if seen_conflict ms cs c then Metadata_call ms c s = None
    else \<exists>s'. Metadata_call ms c s = Some s' \<and> (\<forall>k. map_of s' k = key_tracker ms k (cs @ [c]))"
proof -
  obtain a v where c: "c = (a, v)" by (cases c)
  let ?k = "at_key a"
  let ?xs = "key_items ms ?k cs"
  have other: "key_tracker ms k (cs @ [(a, v)]) = key_tracker ms k cs" if "k \<noteq> ?k" for k
    using that by (simp add: key_tracker_def key_items_def key_attribute_def)
  show ?thesis
  proof (cases "?xs = []")
    case True
    then have none: "map_of s ?k = None" using assms by (simp add: key_tracker_def)
    have "key_tracker ms ?k (cs @ [(a, v)]) =
        Some (tracker_spec a [(metavalue_key ms v, metavalue_stored ms v)])"
      using True key_attribute_snoc [of ?k cs a v ms] by (simp add: key_tracker_def key_items_snoc)
    with True none other assms show ?thesis
      by (simp add: c Metadata_call_store Metadata_store_def tracker_set_new seen_conflict_def)
  next
    case False
    then have some: "map_of s ?k = Some (tracker_spec (key_attribute ?k cs) ?xs)"
      using assms by (simp add: key_tracker_def)
    have "key_tracker ms ?k (cs @ [(a, v)]) =
        Some (tracker_spec (key_attribute ?k cs) (?xs @ [(metavalue_key ms v, metavalue_stored ms v)]))"
      using False key_attribute_snoc [of ?k cs a v ms] by (simp add: key_tracker_def key_items_snoc)
    with False some other assms tracker_set_loaded [OF False, of "metavalue_key ms v" "metavalue_stored ms v"]
    show ?thesis
      by (simp add: c Metadata_call_store Metadata_store_def seen_conflict_def Let_def)
  qed
qed

lemma Metadata_calls_append:
  "Metadata_calls ms (cs @ ds) s =
     (case Metadata_calls ms cs s of None \<Rightarrow> None | Some s \<Rightarrow> Metadata_calls ms ds s)"
  by (induction cs arbitrary: s) (auto split: option.splits)

text \<open>No call of a sequence conflicts with the ones before it.\<close>

definition no_conflicts :: "'m marshallers \<Rightarrow> (Attribute \<times> 'm metavalue) list \<Rightarrow> bool" where
  "no_conflicts ms cs \<longleftrightarrow> (\<forall>i < length cs. \<not> seen_conflict ms (take i cs) (cs ! i))"

lemma no_conflicts_snoc: "no_conflicts ms (cs @ [c]) \<longleftrightarrow> no_conflicts ms cs \<and> \<not> seen_conflict ms cs c"
  by (auto simp: no_conflicts_def nth_append less_Suc_eq)

lemma Metadata_calls_spec:
  "if no_conflicts ms cs
   then \<exists>s. Metadata_calls ms cs [] = Some s \<and> (\<forall>k. map_of s k = key_tracker ms k cs)
   else Metadata_calls ms cs [] = None"
proof (induction cs rule: rev_induct)
  case Nil
  then show ?case by (simp add: no_conflicts_def key_tracker_def key_items_def)
next
  case (snoc c cs)
  show ?case
  proof (cases "no_conflicts ms cs")
    case False
    with snoc show ?thesis by (simp add: no_conflicts_snoc Metadata_calls_append)
  next
    case True
    with snoc obtain s where "Metadata_calls ms cs [] = Some s" "\<forall>k. map_of s k = key_tracker ms k cs"
      by auto
    with Metadata_call_spec [OF this(2), of c] True show ?thesis
      by (auto simp: no_conflicts_snoc Metadata_calls_append)
  qed
qed

lemma Metadata_GetValue_calls:
  "Metadata_calls ms cs [] = Some s \<Longrightarrow>
   Metadata_GetValue k s =
     (if key_items ms k cs = [] then None
      else Some (tracked_spec (at_properties (key_attribute k cs)) (key_items ms k cs)))"
  using Metadata_calls_spec [of ms cs]
  by (auto simp: Metadata_GetValue_def key_tracker_def tracker_spec_def Let_def split: if_splits)

text \<open>
  C16. Whatever metadata calls are made on a span, in any interleaving of keys, each key ends up
  with what its attribute promises about the values given under it: all of them in order
  (\<open>Multiple\<close>), the first of each group of equal ones (\<open>Multiple\<close> and \<open>Distinct\<close>), the first
  value (\<open>Locked\<close>), else the last one. The calls go through exactly if no two values of one
  distinct attribute need differently typed sets.
\<close>

theorem Metadata_calls_value:
  "(Metadata_calls ms cs [] \<noteq> None \<longleftrightarrow> no_conflicts ms cs) \<and>
   (\<forall>s k. Metadata_calls ms cs [] = Some s \<longrightarrow>
      Metadata_GetValue k s =
        (if key_items ms k cs = [] then None
         else Some (tracked_spec (at_properties (key_attribute k cs)) (key_items ms k cs))))"
  using Metadata_calls_spec [of ms cs] Metadata_GetValue_calls [of ms cs] by (auto split: if_splits)

definition distinctAttr :: Attribute where
  "distinctAttr = zeroAttribute\<lparr>at_key := ''d'',
     at_properties := zeroMake\<lparr>mk_Key := ''d'', mk_Multiple := True, mk_Distinct := True\<rparr>\<rparr>"

theorem Metadata_calls_value_witness:
  "\<exists>s. Metadata_calls int_marshallers
     [(distinctAttr, MString ''x''), (distinctAttr, MString ''y''), (distinctAttr, MString ''x'')] [] = Some s \<and>
   Metadata_GetValue ''d'' s = Some (Many [MString ''x'', MString ''y''])"
proof -
  let ?cs = "[(distinctAttr, MString ''x''), (distinctAttr, MString ''y''), (distinctAttr, MString ''x'')]"
  have "no_conflicts int_marshallers ?cs" by code_simp
  moreover have "key_items int_marshallers ''d'' ?cs \<noteq> []"
    "tracked_spec (at_properties (key_attribute ''d'' ?cs)) (key_items int_marshallers ''d'' ?cs) =
      Many [MString ''x'', MString ''y'']" by code_simp+
  ultimately show ?thesis
    using Metadata_calls_value [of int_marshallers ?cs] by auto
qed



end
