(* ===== verification/BaseAPI.thy ===== *)
theory BaseAPI
  imports Metadata
begin

section \<open>The interface of base loggers\<close>

text \<open>
  Models the interfaces of \<open>xopbase/base.go\<close>. A base logger is a record of what its methods do
  to its state \<open>'w\<close>; spans, lines and prefills are handles of type \<open>'h\<close>. A method that makes a
  new object is a \<open>create\<close>, any other method that changes something is an \<open>action\<close>. \<^term>\<open>None\<close>
  is a panic. A client of the interface is a script: a list of calls in which later calls name
  the objects of earlier ones by their number.
\<close>

record SourceInfo =
  si_Source :: string
  si_SourceVersion :: string
  si_Namespace :: string
  si_NamespaceVersion :: string

definition SourceInfo_Size :: "SourceInfo \<Rightarrow> i32" where
  "SourceInfo_Size si = word_of_nat (length (si_Source si) + length (si_Namespace si) +
     length (si_SourceVersion si) + length (si_NamespaceVersion si))"

type_synonym frame = "string \<times> int"

text \<open>\<open>Builder\<close>: data for a line or a prefill. A duration and a time are their nanoseconds.\<close>

datatype 'm build_call =
  BEnum Attribute enumValue
| BFloat64 string u64 int
| BInt64 string i64 int
| BString string string int
| BUint64 string u64 int
| BAny string "'m ModelArg"
| BBool string bool
| BDuration string int
| BTime string int nat

text \<open>\<open>LineDone\<close>.\<close>

datatype 'm line_end =
  LMsg string
| LTemplate string
| LModel string "'m ModelArg"
| LLink string Trace

text \<open>\<open>Logger.Request\<close>, \<open>Span.Span\<close>, \<open>NoPrefill\<close>, \<open>StartPrefill\<close>, \<open>PrefillComplete\<close> and \<open>Line\<close>.\<close>

datatype create =
  NRequest time Bundle string SourceInfo
| NSpan time Bundle string string
| NNoPrefill
| NStartPrefill
| NPrefillComplete string
| NLine int time "frame list"

text \<open>The methods of \<open>Request\<close> but \<open>Final\<close>, of \<open>Span\<close>, \<open>Prefilling\<close> and \<open>Line\<close>.\<close>

datatype 'm action =
  AFlush
| ASetErrorReporter
| ADone time bool
| ABoring bool
| AMetadata Attribute "'m metavalue"
| ABuild "'m build_call"
| AEnd "'m line_end"

record ('h, 'w, 'm) base =
  b_ID :: string
  b_ReferencesKept :: bool
  b_Buffered :: bool
  b_new :: "create \<Rightarrow> 'h option \<Rightarrow> 'w \<Rightarrow> ('h \<times> 'w) option"
  b_do :: "'m action \<Rightarrow> 'h \<Rightarrow> 'w \<Rightarrow> 'w option"
  b_Final :: "'h \<Rightarrow> 'w \<Rightarrow> 'w option"

subsection \<open>Scripts\<close>

datatype 'm cmd = New create "nat option" | Do "'m action" nat

fun exec_cmd :: "('h, 'w, 'm) base \<Rightarrow> 'm cmd \<Rightarrow> 'w \<times> 'h list \<Rightarrow> ('w \<times> 'h list) option" where
  "exec_cmd b (New c None) (w, env) = map_option (\<lambda>(h, w). (w, env @ [h])) (b_new b c None w)"
| "exec_cmd b (New c (Some n)) (w, env) =
     (if n < length env then map_option (\<lambda>(h, w). (w, env @ [h])) (b_new b c (Some (env ! n)) w) else None)"
| "exec_cmd b (Do a n) (w, env) =
     (if n < length env then map_option (\<lambda>w. (w, env)) (b_do b a (env ! n) w) else None)"

fun exec :: "('h, 'w, 'm) base \<Rightarrow> 'm cmd list \<Rightarrow> 'w \<times> 'h list \<Rightarrow> ('w \<times> 'h list) option" where
  "exec b [] st = Some st"
| "exec b (c # cs) st = (case exec_cmd b c st of None \<Rightarrow> None | Some st \<Rightarrow> exec b cs st)"

lemma exec_append: "exec b (cs @ ds) st = (case exec b cs st of None \<Rightarrow> None | Some st \<Rightarrow> exec b ds st)"
  by (induction cs arbitrary: st) (auto split: option.splits)

subsection \<open>One base logger refines another\<close>

text \<open>
  The most general contract between two base loggers: a relation between their states and objects
  that every allowed call keeps, and calls that go through on \<open>a\<close> go through on \<open>c\<close>.
\<close>

locale base_refinement =
  fixes a :: "('h, 'w, 'm) base"
    and c :: "('k, 'v, 'm) base"
    and rel :: "'v \<times> 'k list \<Rightarrow> 'w \<times> 'h list \<Rightarrow> bool"
    and allowed :: "'m cmd \<Rightarrow> bool"
  assumes cmd_refines: "\<lbrakk>exec_cmd a x s = Some s'; rel r s; allowed x\<rbrakk> \<Longrightarrow> \<exists>r'. exec_cmd c x r = Some r' \<and> rel r' s'"
begin

lemma exec_refines:
  "exec a xs s = Some s' \<Longrightarrow> rel r s \<Longrightarrow> list_all allowed xs \<Longrightarrow> \<exists>r'. exec c xs r = Some r' \<and> rel r' s'"
proof (induction xs arbitrary: s r)
  case (Cons x xs)
  then obtain s1 where s1: "exec_cmd a x s = Some s1" "exec a xs s1 = Some s'" by (auto split: option.splits)
  with cmd_refines [OF this(1) Cons.prems(2)] Cons.prems(3) obtain r1 where "exec_cmd c x r = Some r1" "rel r1 s1" by auto
  with Cons.IH [OF s1(2)] Cons.prems(3) show ?case by simp
qed auto

end

subsection \<open>One base logger simulates another\<close>

text \<open>
  What a client can rely on when a base logger \<open>c\<close> stands in front of a base logger \<open>a\<close>: whenever
  a call on \<open>c\<close> goes through, the call on \<open>a\<close> goes through from the state and the objects that
  \<open>\<alpha>\<close> and \<open>\<eta>\<close> read off, and the results correspond again.
\<close>

locale base_simulation =
  fixes a :: "('h, 'w, 'm) base"
    and c :: "('k, 'v, 'm) base"
    and \<alpha> :: "'v \<Rightarrow> 'w"
    and \<eta> :: "'k \<Rightarrow> 'h"
    and ok :: "'v \<Rightarrow> 'k list \<Rightarrow> bool"
  assumes new_sim: "\<lbrakk>b_new c x h v = Some (h', v'); ok v env; h = None \<or> (\<exists>k \<in> set env. h = Some k)\<rbrakk> \<Longrightarrow>
      b_new a x (map_option \<eta> h) (\<alpha> v) = Some (\<eta> h', \<alpha> v') \<and> ok v' (env @ [h'])"
    and do_sim: "\<lbrakk>b_do c y k v = Some v'; ok v env; k \<in> set env\<rbrakk> \<Longrightarrow>
      b_do a y (\<eta> k) (\<alpha> v) = Some (\<alpha> v') \<and> ok v' env"
begin

lemma exec_cmd_sim:
  assumes "exec_cmd c x (v, env) = Some (v', env')" "ok v env"
  shows "exec_cmd a x (\<alpha> v, map \<eta> env) = Some (\<alpha> v', map \<eta> env') \<and> ok v' env'"
proof (cases x)
  case (New y n)
  show ?thesis
  proof (cases n)
    case None
    with assms(1) New obtain h where "b_new c y None v = Some (h, v')" "env' = env @ [h]" by auto
    with new_sim [OF this(1) assms(2)] New None show ?thesis by simp
  next
    case (Some m)
    with assms(1) New obtain h where m: "m < length env" and h: "b_new c y (Some (env ! m)) v = Some (h, v')"
      "env' = env @ [h]" by (auto split: if_splits)
    from new_sim [OF h(1) assms(2)] m h New Some show ?thesis by auto
  qed
next
  case (Do y n)
  with assms(1) have n: "n < length env" and d: "b_do c y (env ! n) v = Some v'" "env' = env"
    by (auto split: if_splits)
  from do_sim [OF d(1) assms(2)] n d Do show ?thesis by auto
qed

end

text \<open>That is a refinement of \<open>c\<close> by \<open>a\<close>.\<close>

sublocale base_simulation \<subseteq> sim: base_refinement c a
    "\<lambda>(w, hs) (v, ks). w = \<alpha> v \<and> hs = map \<eta> ks \<and> ok v ks" "\<lambda>x. True"
  by unfold_locales (use exec_cmd_sim in force)

context base_simulation
begin

lemma exec_sim:
  "exec c xs (v, env) = Some (v', env') \<Longrightarrow> ok v env \<Longrightarrow>
   exec a xs (\<alpha> v, map \<eta> env) = Some (\<alpha> v', map \<eta> env') \<and> ok v' env'"
  using sim.exec_refines [of xs "(v, env)" "(v', env')" "(\<alpha> v, map \<eta> env)"] by (simp add: list_all_iff)

end

subsection \<open>Invariants of a base logger\<close>

text \<open>What every call on a base logger keeps, of its state and the objects it handed out.\<close>

locale base_invariant =
  fixes b :: "('h, 'w, 'm) base"
    and inv :: "'w \<Rightarrow> 'h list \<Rightarrow> bool"
  assumes new_inv: "\<lbrakk>b_new b x h w = Some (h', w'); inv w env; h = None \<or> (\<exists>k \<in> set env. h = Some k)\<rbrakk> \<Longrightarrow>
      inv w' (env @ [h'])"
    and do_inv: "\<lbrakk>b_do b y k w = Some w'; inv w env; k \<in> set env\<rbrakk> \<Longrightarrow> inv w' env"
begin

lemma exec_cmd_inv: "exec_cmd b x (w, env) = Some (w', env') \<Longrightarrow> inv w env \<Longrightarrow> inv w' env'"
proof (cases x)
  case (New y n)
  assume a: "exec_cmd b x (w, env) = Some (w', env')" "inv w env"
  show ?thesis
  proof (cases n)
    case None
    with a(1) New obtain h where "b_new b y None w = Some (h, w')" "env' = env @ [h]" by auto
    with new_inv [OF this(1) a(2)] show ?thesis by simp
  next
    case (Some m)
    with a(1) New obtain h where m: "m < length env" and h: "b_new b y (Some (env ! m)) w = Some (h, w')"
      "env' = env @ [h]" by (auto split: if_splits)
    from new_inv [OF h(1) a(2)] m h show ?thesis by auto
  qed
next
  case (Do y n)
  assume a: "exec_cmd b x (w, env) = Some (w', env')" "inv w env"
  with Do have "n < length env" "b_do b y (env ! n) w = Some w'" "env' = env"
    by (auto split: if_splits)
  with do_inv [OF this(2) a(2)] show ?thesis by simp
qed

lemma exec_inv: "exec b xs (w, env) = Some (w', env') \<Longrightarrow> inv w env \<Longrightarrow> inv w' env'"
proof (induction xs arbitrary: w env)
  case (Cons x xs)
  then obtain w1 env1 where "exec_cmd b x (w, env) = Some (w1, env1)" "exec b xs (w1, env1) = Some (w', env')"
    by (auto split: option.splits)
  with exec_cmd_inv [OF this(1) Cons.prems(2)] Cons.IH [of w1 env1] show ?case by simp
qed simp

end

end
