(* ===== verification/Counter.thy ===== *)
theory Counter
  imports Trace
begin

section \<open>Numbering traces and requests\<close>

text \<open>
  Models \<open>xoputil/counter.go\<close> and \<open>xoputil/atomic.go\<close> as one caller at a time sees them: a trace's
  first use gives it the next trace number, a request's first use within its trace gives it the
  next request number there. The maps are keyed by the bytes of the ids.
\<close>

definition AtomicMaxInt64 :: "int \<Rightarrow> int \<Rightarrow> int \<times> int" where
  "AtomicMaxInt64 target value = (if target \<ge> value then (target, target) else (value, value))"

lemma AtomicMaxInt64_max [simp]: "AtomicMaxInt64 t v = (max t v, max t v)"
  by (simp add: AtomicMaxInt64_def)

record traceInfo =
  ti_requestCount :: i32
  ti_traceNum :: i32
  ti_requestMap :: "(u8 list \<times> i32) list"

record RequestCounter =
  ct_traceCount :: i32
  ct_traceMap :: "(u8 list \<times> traceInfo) list"

definition NewRequestCounter :: RequestCounter where
  "NewRequestCounter = \<lparr>ct_traceCount = 0, ct_traceMap = []\<rparr>"

definition GetNumber :: "Trace \<Rightarrow> RequestCounter \<Rightarrow> (i32 \<times> i32 \<times> bool) \<times> RequestCounter" where
  "GetNumber trace c =
     (let traceID = hb_b (get_field TraceIDField (initialize trace));
          (ti, c) =
            (case map_of (ct_traceMap c) traceID of
               Some ti \<Rightarrow> (ti, c)
             | None \<Rightarrow>
                 let n = ct_traceCount c + 1;
                     ti = \<lparr>ti_requestCount = 0, ti_traceNum = n, ti_requestMap = []\<rparr>
                 in (ti, c\<lparr>ct_traceCount := n, ct_traceMap := aput traceID ti (ct_traceMap c)\<rparr>));
          spanID = hb_b (get_field SpanIDField (initialize trace))
      in case map_of (ti_requestMap ti) spanID of
           Some num \<Rightarrow> ((ti_traceNum ti, num, False), c)
         | None \<Rightarrow>
             let n = ti_requestCount ti + 1;
                 ti = ti\<lparr>ti_requestCount := n, ti_requestMap := aput spanID n (ti_requestMap ti)\<rparr>
             in ((ti_traceNum ti, n, True), c\<lparr>ct_traceMap := aput traceID ti (ct_traceMap c)\<rparr>))"

subsection \<open>The numbers identify traces and requests\<close>

definition traceKey :: "Trace \<Rightarrow> u8 list" where
  "traceKey t = hb_b (tr_traceID t)"

definition spanKey :: "Trace \<Rightarrow> u8 list" where
  "spanKey t = hb_b (tr_spanID t)"

lemma initialize_keys [simp]:
  "hb_b (tr_traceID (initialize t)) = traceKey t"
  "hb_b (tr_spanID (initialize t)) = spanKey t"
  using get_field_initialize_b [of TraceIDField t] get_field_initialize_b [of SpanIDField t]
  by (simp_all add: traceKey_def spanKey_def)

definition numbered :: "i32 \<Rightarrow> ('k \<times> i32) list \<Rightarrow> bool" where
  "numbered n m \<longleftrightarrow> distinct (map fst m) \<and> map (\<lambda>p. unat (snd p)) m = [1..<Suc (unat n)]"

lemma numbered_empty: "numbered 0 []"
  by (simp add: numbered_def)

lemma numbered_add:
  assumes "numbered n m" "k \<notin> fst ` set m" "unat n + 1 < 2 ^ 32"
  shows "numbered (n + 1) (m @ [(k, n + 1)])"
proof -
  have "unat (n + 1) = unat n + 1" using assms(3) by (simp add: unat_word_ariths)
  with assms(1,2) show ?thesis by (simp add: numbered_def)
qed

lemma numbered_inj:
  assumes "numbered n m" "map_of m k = Some i" "map_of m l = Some i"
  shows "k = l"
proof -
  have "distinct (map (\<lambda>p. unat (snd p)) m)" using assms(1) by (simp add: numbered_def del: upt_Suc)
  moreover have "(k, i) \<in> set m" "(l, i) \<in> set m" using assms(2,3) by (auto dest: map_of_SomeD)
  moreover have "inj_on (\<lambda>p. unat (snd p)) (set m)"
    using \<open>distinct (map _ m)\<close> by (simp add: distinct_map)
  ultimately show ?thesis using inj_onD [of _ "set m" "(k, i)" "(l, i)"] by fastforce
qed

lemma numbered_pos: "numbered n m \<Longrightarrow> map_of m k = Some i \<Longrightarrow> i \<noteq> 0"
proof -
  assume a: "numbered n m" "map_of m k = Some i"
  then have "unat i \<in> set (map (\<lambda>p. unat (snd p)) m)" by (force dest: map_of_SomeD)
  also have "\<dots> = set [1..<Suc (unat n)]" using a(1) by (simp only: numbered_def)
  finally show "i \<noteq> 0" by auto
qed

definition counter_inv :: "RequestCounter \<Rightarrow> bool" where
  "counter_inv c \<longleftrightarrow>
     numbered (ct_traceCount c) (map (\<lambda>(k, ti). (k, ti_traceNum ti)) (ct_traceMap c)) \<and>
     (\<forall>(k, ti) \<in> set (ct_traceMap c). numbered (ti_requestCount ti) (ti_requestMap ti))"

text \<open>What the counter knows of a trace value: its two numbers.\<close>

definition numberOf :: "Trace \<Rightarrow> RequestCounter \<Rightarrow> (i32 \<times> i32) option" where
  "numberOf t c =
     (case map_of (ct_traceMap c) (traceKey t) of
        None \<Rightarrow> None
      | Some ti \<Rightarrow> map_option (\<lambda>n. (ti_traceNum ti, n)) (map_of (ti_requestMap ti) (spanKey t)))"

definition counter_room :: "RequestCounter \<Rightarrow> bool" where
  "counter_room c \<longleftrightarrow> unat (ct_traceCount c) + 1 < 2 ^ 32 \<and>
     (\<forall>(k, ti) \<in> set (ct_traceMap c). unat (ti_requestCount ti) + 1 < 2 ^ 32)"

lemma aput_present: "map_of m k = Some w \<Longrightarrow> distinct (map fst m) \<Longrightarrow>
  map (\<lambda>(k, v). (k, f v)) (aput k v m) = (if f v = f w then map (\<lambda>(k, v). (k, f v)) m else map (\<lambda>(k, v). (k, f v)) (aput k v m))"
  by (induction m) (auto split: if_splits)

lemma set_aput: "p \<in> set (aput k v m) \<Longrightarrow> p = (k, v) \<or> p \<in> set m"
  by (induction m) (auto split: if_splits)

lemma aput_append_new: "k \<notin> fst ` set m \<Longrightarrow> aput k v m = m @ [(k, v)]"
  by (induction m) auto

lemma counter_inv_trace:
  assumes inv: "counter_inv c" and room: "counter_room c"
    and new: "map_of (ct_traceMap c) k = None"
  shows "counter_inv (c\<lparr>ct_traceCount := ct_traceCount c + 1,
    ct_traceMap := aput k \<lparr>ti_requestCount = 0, ti_traceNum = ct_traceCount c + 1, ti_requestMap = []\<rparr> (ct_traceMap c)\<rparr>)"
proof -
  have k: "k \<notin> fst ` set (ct_traceMap c)" using new by (simp add: map_of_eq_None_iff)
  then have "k \<notin> fst ` set (map (\<lambda>(k, ti). (k, ti_traceNum ti)) (ct_traceMap c))" by force
  from numbered_add [OF _ this] inv room k show ?thesis
    by (auto simp: counter_inv_def counter_room_def aput_append_new numbered_empty)
qed

lemma counter_inv_request:
  assumes inv: "counter_inv c" and ti: "map_of (ct_traceMap c) k = Some ti"
    and new: "map_of (ti_requestMap ti) s = None" and room: "unat (ti_requestCount ti) + 1 < 2 ^ 32"
  shows "counter_inv (c\<lparr>ct_traceMap := aput k (ti\<lparr>ti_requestCount := ti_requestCount ti + 1,
    ti_requestMap := aput s (ti_requestCount ti + 1) (ti_requestMap ti)\<rparr>) (ct_traceMap c)\<rparr>)"
proof -
  have s: "s \<notin> fst ` set (ti_requestMap ti)" using new by (simp add: map_of_eq_None_iff)
  have "numbered (ti_requestCount ti) (ti_requestMap ti)"
    using inv ti by (auto simp: counter_inv_def dest!: map_of_SomeD)
  then have n: "numbered (ti_requestCount ti + 1) (aput s (ti_requestCount ti + 1) (ti_requestMap ti))"
    using numbered_add [OF _ s room] s by (simp add: aput_append_new)
  have "distinct (map fst (ct_traceMap c))"
    using inv by (simp add: counter_inv_def numbered_def comp_def split_def)
  note same = aput_present [OF ti this, of ti_traceNum "ti\<lparr>ti_requestCount := ti_requestCount ti + 1,
      ti_requestMap := aput s (ti_requestCount ti + 1) (ti_requestMap ti)\<rparr>"]
  from same inv n show ?thesis
    by (auto simp: counter_inv_def dest!: set_aput)
qed

lemma GetNumber_step:
  assumes inv: "counter_inv c" and room: "counter_room c" and ret: "GetNumber t c = ((tn, rn, new), c')"
  shows "counter_inv c' \<and> numberOf t c' = Some (tn, rn) \<and> (new \<longleftrightarrow> numberOf t c = None) \<and>
    (\<forall>u r. numberOf u c = Some r \<longrightarrow> numberOf u c' = Some r)"
proof (cases "map_of (ct_traceMap c) (traceKey t)")
  case None
  let ?ti = "\<lparr>ti_requestCount = 0, ti_traceNum = ct_traceCount c + 1, ti_requestMap = []\<rparr> :: traceInfo"
  let ?c = "c\<lparr>ct_traceCount := ct_traceCount c + 1, ct_traceMap := aput (traceKey t) ?ti (ct_traceMap c)\<rparr>"
  have i1: "counter_inv ?c" by (rule counter_inv_trace [OF inv room None])
  have ti: "map_of (ct_traceMap ?c) (traceKey t) = Some ?ti" by simp
  have i2: "counter_inv (?c\<lparr>ct_traceMap := aput (traceKey t) (?ti\<lparr>ti_requestCount := 0 + 1,
      ti_requestMap := aput (spanKey t) (0 + 1) []\<rparr>) (ct_traceMap ?c)\<rparr>)"
    using counter_inv_request [OF i1 ti, of "spanKey t"] by simp
  from ret None have r: "tn = ct_traceCount c + 1" "rn = 1" "new"
    "c' = ?c\<lparr>ct_traceMap := aput (traceKey t) (?ti\<lparr>ti_requestCount := 0 + 1,
      ti_requestMap := aput (spanKey t) (0 + 1) []\<rparr>) (ct_traceMap ?c)\<rparr>"
    by (auto simp: GetNumber_def Let_def)
  have "numberOf u c' = (if traceKey u = traceKey t then if spanKey u = spanKey t then Some (tn, rn) else None
      else numberOf u c)" for u
    by (simp add: r numberOf_def)
  moreover have "numberOf u c = None" if "traceKey u = traceKey t" for u
    using that None by (simp add: numberOf_def)
  ultimately show ?thesis using i2 r(3,4) by auto
next
  case (Some ti)
  show ?thesis
  proof (cases "map_of (ti_requestMap ti) (spanKey t)")
    case None
    have "unat (ti_requestCount ti) + 1 < 2 ^ 32"
      using room Some by (auto simp: counter_room_def dest!: map_of_SomeD)
    note i = counter_inv_request [OF inv Some None this]
    from ret Some None have r: "tn = ti_traceNum ti" "rn = ti_requestCount ti + 1" "new"
      "c' = c\<lparr>ct_traceMap := aput (traceKey t) (ti\<lparr>ti_requestCount := ti_requestCount ti + 1,
        ti_requestMap := aput (spanKey t) (ti_requestCount ti + 1) (ti_requestMap ti)\<rparr>) (ct_traceMap c)\<rparr>"
      by (auto simp: GetNumber_def Let_def)
    have "numberOf u c' = (if traceKey u = traceKey t \<and> spanKey u = spanKey t then Some (tn, rn)
        else numberOf u c)" for u
      using Some by (simp add: r numberOf_def)
    moreover have "numberOf u c = None" if "traceKey u = traceKey t" "spanKey u = spanKey t" for u
      using that Some None by (simp add: numberOf_def)
    ultimately show ?thesis using i r(3,4) by auto
  next
    case (Some num)
    from ret Some \<open>map_of (ct_traceMap c) (traceKey t) = Some ti\<close> have
      "tn = ti_traceNum ti" "rn = num" "\<not> new" "c' = c"
      by (simp_all add: GetNumber_def Let_def)
    with inv Some \<open>map_of (ct_traceMap c) (traceKey t) = Some ti\<close> show ?thesis
      by (simp add: numberOf_def)
  qed
qed

lemma numberOf_inj:
  assumes inv: "counter_inv c" and t: "numberOf t c = Some (tn, rn)" and u: "numberOf u c = Some (tn', rn')"
  shows "(tn = tn' \<longleftrightarrow> traceKey t = traceKey u) \<and>
    ((tn, rn) = (tn', rn') \<longleftrightarrow> traceKey t = traceKey u \<and> spanKey t = spanKey u) \<and> tn \<noteq> 0 \<and> rn \<noteq> 0"
proof -
  obtain ti where ti: "map_of (ct_traceMap c) (traceKey t) = Some ti" "ti_traceNum ti = tn"
      "map_of (ti_requestMap ti) (spanKey t) = Some rn"
    using t by (auto simp: numberOf_def split: option.splits)
  obtain ui where ui: "map_of (ct_traceMap c) (traceKey u) = Some ui" "ti_traceNum ui = tn'"
      "map_of (ti_requestMap ui) (spanKey u) = Some rn'"
    using u by (auto simp: numberOf_def split: option.splits)
  let ?m = "map (\<lambda>(k, ti). (k, ti_traceNum ti)) (ct_traceMap c)"
  have n: "numbered (ct_traceCount c) ?m" using inv by (simp add: counter_inv_def)
  have m: "map_of ?m k = map_option ti_traceNum (map_of (ct_traceMap c) k)" for k
    by (simp add: map_of_map)
  have mt: "map_of ?m (traceKey t) = Some tn" "map_of ?m (traceKey u) = Some tn'"
    using ti ui by (simp_all add: m)
  have 1: "tn = tn' \<longleftrightarrow> traceKey t = traceKey u"
  proof
    assume "tn = tn'"
    then show "traceKey t = traceKey u" using numbered_inj [OF n mt(1)] mt(2) by simp
  next
    assume "traceKey t = traceKey u"
    then show "tn = tn'" using ti ui by simp
  qed
  have r: "numbered (ti_requestCount ti) (ti_requestMap ti)"
    using inv ti(1) by (auto simp: counter_inv_def dest!: map_of_SomeD)
  have 2: "spanKey t = spanKey u" if "traceKey t = traceKey u" "rn = rn'"
    using that ti ui numbered_inj [OF r ti(3)] by (metis option.inject)
  have 3: "rn = rn'" if "traceKey t = traceKey u" "spanKey t = spanKey u"
    using that ti ui by (metis option.inject)
  have "tn \<noteq> 0" by (rule numbered_pos [OF n mt(1)])
  with 1 2 3 numbered_pos [OF r ti(3)] show ?thesis by auto
qed

text \<open>The numbers of a sequence of calls.\<close>

fun GetNumbers :: "Trace list \<Rightarrow> RequestCounter \<Rightarrow> (i32 \<times> i32 \<times> bool) list \<times> RequestCounter" where
  "GetNumbers [] c = ([], c)"
| "GetNumbers (t # ts) c = (let (r, c) = GetNumber t c; (rs, c) = GetNumbers ts c in (r # rs, c))"

lemma GetNumber_room:
  assumes "GetNumber t c = (r, c')"
    "unat (ct_traceCount c) + n + 1 < 2 ^ 32" "\<forall>(k, ti) \<in> set (ct_traceMap c). unat (ti_requestCount ti) + n + 1 < 2 ^ 32"
  shows "unat (ct_traceCount c') + n < 2 ^ 32" "\<forall>(k, ti) \<in> set (ct_traceMap c'). unat (ti_requestCount ti) + n < 2 ^ 32"
proof -
  have inc: "unat (x + 1) \<le> unat x + 1" for x :: i32 by (simp add: unat_word_ariths)
  have a: "(k, ti) \<in> set (ct_traceMap c) \<Longrightarrow> unat (ti_requestCount ti) + n + 1 < 2 ^ 32" for k ti
    using assms(3) by blast
  show "unat (ct_traceCount c') + n < 2 ^ 32"
    using assms(1,2) inc [of "ct_traceCount c"]
    by (auto simp: GetNumber_def Let_def split: option.splits)
  show "\<forall>(k, ti) \<in> set (ct_traceMap c'). unat (ti_requestCount ti) + n < 2 ^ 32"
  proof (clarify)
    fix k ti assume k: "(k, ti) \<in> set (ct_traceMap c')"
    have old: "unat (ti_requestCount ti) + n < 2 ^ 32" if "(k, ti) \<in> set (ct_traceMap c)"
      using a [OF that] by simp
    show "unat (ti_requestCount ti) + n < 2 ^ 32"
    proof (cases "map_of (ct_traceMap c) (traceKey t)")
      case None
      then have "c' = c\<lparr>ct_traceCount := ct_traceCount c + 1, ct_traceMap := aput (traceKey t)
          \<lparr>ti_requestCount = 1, ti_traceNum = ct_traceCount c + 1, ti_requestMap = [(spanKey t, 1)]\<rparr>
          (aput (traceKey t) \<lparr>ti_requestCount = 0, ti_traceNum = ct_traceCount c + 1, ti_requestMap = []\<rparr> (ct_traceMap c))\<rparr>"
        using assms(1) by (simp add: GetNumber_def Let_def)
      with k old assms(2) show ?thesis by (auto dest!: set_aput)
    next
      case (Some ui)
      note ui = a [OF map_of_SomeD [OF this]]
      show ?thesis
      proof (cases "map_of (ti_requestMap ui) (spanKey t)")
        case (Some num)
        with \<open>map_of (ct_traceMap c) _ = _\<close> assms(1) have "c' = c" by (simp add: GetNumber_def Let_def)
        with k old show ?thesis by simp
      next
        case None
        with Some assms(1) have "c' = c\<lparr>ct_traceMap := aput (traceKey t) (ui\<lparr>ti_requestCount := ti_requestCount ui + 1,
          ti_requestMap := aput (spanKey t) (ti_requestCount ui + 1) (ti_requestMap ui)\<rparr>) (ct_traceMap c)\<rparr>"
          by (simp add: GetNumber_def Let_def)
        with k old ui inc [of "ti_requestCount ui"] show ?thesis by (auto dest!: set_aput)
      qed
    qed
  qed
qed

lemma GetNumbers_result:
  assumes "counter_inv c" "unat (ct_traceCount c) + length ts < 2 ^ 32"
    "\<forall>(k, ti) \<in> set (ct_traceMap c). unat (ti_requestCount ti) + length ts < 2 ^ 32"
    "GetNumbers ts c = (rs, c')"
  shows "counter_inv c' \<and> length rs = length ts \<and>
    (\<forall>u r. numberOf u c = Some r \<longrightarrow> numberOf u c' = Some r) \<and>
    (\<forall>i < length ts. numberOf (ts ! i) c' = Some (fst (rs ! i), fst (snd (rs ! i)))) \<and>
    (\<forall>i < length ts. snd (snd (rs ! i)) \<longleftrightarrow> numberOf (ts ! i) c = None \<and>
       (\<forall>j < i. \<not> (traceKey (ts ! j) = traceKey (ts ! i) \<and> spanKey (ts ! j) = spanKey (ts ! i))))"
  using assms
proof (induction ts arbitrary: c rs)
  case (Cons t ts)
  obtain r c1 where g: "GetNumber t c = (r, c1)" by fastforce
  obtain tn rn nw where r: "r = (tn, rn, nw)" by (cases r)
  obtain rs1 where gs: "GetNumbers ts c1 = (rs1, c')" "rs = r # rs1"
    using Cons.prems(4) g by (auto split: prod.splits)
  have room: "counter_room c"
    using Cons.prems(2,3) by (fastforce simp: counter_room_def)
  note step = GetNumber_step [OF Cons.prems(1) room g [unfolded r]]
  have pre: "unat (ct_traceCount c1) + length ts < 2 ^ 32"
    "\<forall>(k, ti) \<in> set (ct_traceMap c1). unat (ti_requestCount ti) + length ts < 2 ^ 32"
    using GetNumber_room [OF g, of "length ts"] Cons.prems(2,3) by simp_all
  note IH = Cons.IH [OF _ pre gs(1)]
  have nums: "numberOf ((t # ts) ! i) c' = Some (fst (rs ! i), fst (snd (rs ! i)))" if "i < length (t # ts)" for i
    using that IH step gs(2) r by (cases i) auto
  have same: "numberOf u c1 = (if traceKey t = traceKey u \<and> spanKey t = spanKey u then Some (tn, rn) else numberOf u c)" for u
  proof (cases "traceKey t = traceKey u \<and> spanKey t = spanKey u")
    case True
    then have "traceKey u = traceKey t" "spanKey u = spanKey t" by simp_all
    then have "numberOf u c1 = numberOf t c1" by (simp add: numberOf_def cong: option.case_cong)
    with step True show ?thesis by simp
  next
    case False
    show ?thesis
    proof (cases "numberOf u c")
      case (Some x)
      with step have "numberOf u c1 = Some x" by blast
      with Some False show ?thesis by auto
    next
      case None
      with False g r show ?thesis
        by (auto simp: GetNumber_def Let_def numberOf_def split: option.splits if_splits)
    qed
  qed
  have news: "snd (snd (rs ! i)) \<longleftrightarrow> numberOf ((t # ts) ! i) c = None \<and>
       (\<forall>j < i. \<not> (traceKey ((t # ts) ! j) = traceKey ((t # ts) ! i) \<and> spanKey ((t # ts) ! j) = spanKey ((t # ts) ! i)))"
    if "i < length (t # ts)" for i
  proof (cases i)
    case 0
    with step gs(2) r show ?thesis by simp
  next
    case (Suc k)
    with that have k: "k < length ts" by simp
    then have "snd (snd (rs1 ! k)) \<longleftrightarrow> numberOf (ts ! k) c1 = None \<and>
       (\<forall>j < k. \<not> (traceKey (ts ! j) = traceKey (ts ! k) \<and> spanKey (ts ! j) = spanKey (ts ! k)))"
      using IH step by blast
    with same [of "ts ! k"] gs(2) Suc show ?thesis by (auto simp: All_less_Suc2)
  qed
  from IH step gs(2) nums news show ?case by auto
qed simp

lemma NewRequestCounter_inv: "counter_inv NewRequestCounter"
  by (simp add: counter_inv_def NewRequestCounter_def numbered_empty)



end
