(* ===== verification/Recorder.thy ===== *)
theory Recorder
  imports BaseAPI Counter
begin

section \<open>The recorder\<close>

text \<open>
  Models \<open>xoprecorder/recorder.go\<close>: a base logger that keeps everything in memory. Spans, prefills
  and lines are shared objects, so each kind has a store (a list) in the state and a pointer is
  an index into it. A line that was sent is copied by value (\<open>func (line Line) send\<close>); the interface
  forbids to touch it afterwards, so the recorded line is a value of its own and the store has no
  line for the handle any more. Contexts are not modelled. \<open>sprint\<close> is \<open>fmt.Sprint\<close> of a value.
\<close>

datatype 'm dataval =
  DAny "'m ModelArg" | DBool bool | DDuration int | DTime int nat | DFloat64 u64 | DInt64 i64
| DString string | DUint64 u64 | DEnum enumValue

record 'm Builder =
  bl_Enums :: "(string \<times> Attribute) list"
  bl_Data :: "(string \<times> 'm dataval) list"
  bl_DataType :: "(string \<times> int) list"
  bl_Span :: nat

text \<open>\<open>NoPrefill\<close> leaves the maps nil, \<open>PrefillComplete\<close> shares those of the prefilling.\<close>

record Prefilled =
  pf_builder :: "nat option"
  pf_Span :: nat
  pf_Msg :: string

record 'm Line = "'m Builder" +
  ln_Level :: int
  ln_Timestamp :: time
  ln_Message :: string
  ln_Tmpl :: string
  ln_AsLink :: "Trace option"
  ln_AsModel :: "'m ModelArg option"
  ln_Stack :: "frame list"

record 'm RSpan =
  sp_EndTime :: int
  sp_provisionalEndTime :: int
  sp_RequestNum :: i32
  sp_TraceNum :: i32
  sp_Bundle :: Bundle
  sp_IsRequest :: bool
  sp_Parent :: nat
  sp_Spans :: "nat list"
  sp_Lines :: "'m Line list"
  sp_Links :: "'m Line list"
  sp_StartTime :: time
  sp_Name :: string
  sp_SpanSequenceCode :: string
  sp_SourceInfo :: "SourceInfo option"
  sp_SpanMetadata :: "'m SpanMetadata"

datatype 'm Event =
  EvLine "'m Line"
| EvRequestStart nat
| EvRequestDone nat bool
| EvSpanStart nat
| EvSpanDone nat bool
| EvFlush nat
| EvMetadata nat Attribute "'m metavalue"
| EvCustom string

record 'm Recorder =
  rc_Requests :: "nat list"
  rc_Spans :: "nat list"
  rc_Lines :: "'m Line list"
  rc_Events :: "'m Event list"
  rc_SpanIndex :: "(u8 list \<times> nat) list"
  rc_counter :: RequestCounter
  rc_spanStore :: "'m RSpan list"
  rc_prefillings :: "'m Builder list"
  rc_prefilleds :: "Prefilled list"
  rc_lineStore :: "'m Line option list"

datatype rhandle = HSpan nat | HPrefilling nat | HPrefilled nat | HLine nat

definition Recorder_New :: "RequestCounter \<Rightarrow> 'm Recorder" where
  "Recorder_New c = \<lparr>rc_Requests = [], rc_Spans = [], rc_Lines = [], rc_Events = [], rc_SpanIndex = [],
     rc_counter = c, rc_spanStore = [], rc_prefillings = [], rc_prefilleds = [], rc_lineStore = []\<rparr>"

definition add_event :: "'m Event \<Rightarrow> 'm Recorder \<Rightarrow> 'm Recorder" where
  "add_event e r = r\<lparr>rc_Events := rc_Events r @ [e]\<rparr>"

definition Recorder_CustomEvent :: "string \<Rightarrow> 'm Recorder \<Rightarrow> 'm Recorder" where
  "Recorder_CustomEvent msg r = add_event (EvCustom msg) r"

definition upd_span :: "nat \<Rightarrow> ('m RSpan \<Rightarrow> 'm RSpan) \<Rightarrow> 'm Recorder \<Rightarrow> 'm Recorder" where
  "upd_span s g r = r\<lparr>rc_spanStore := (rc_spanStore r)[s := g (rc_spanStore r ! s)]\<rparr>"

subsection \<open>Requests and spans\<close>

definition Recorder_Request :: "time \<Rightarrow> Bundle \<Rightarrow> string \<Rightarrow> SourceInfo \<Rightarrow> 'm Recorder \<Rightarrow> nat \<times> 'm Recorder" where
  "Recorder_Request ts bundle name sourceInfo r =
     (let ((traceNum, requestNum, _), c) = GetNumber (bu_Trace bundle) (rc_counter r);
          s = length (rc_spanStore r);
          span = \<lparr>sp_EndTime = 0, sp_provisionalEndTime = 0, sp_RequestNum = requestNum,
            sp_TraceNum = traceNum, sp_Bundle = bundle, sp_IsRequest = True, sp_Parent = s,
            sp_Spans = [], sp_Lines = [], sp_Links = [], sp_StartTime = ts, sp_Name = name,
            sp_SpanSequenceCode = [], sp_SourceInfo = Some sourceInfo, sp_SpanMetadata = []\<rparr>;
          r = r\<lparr>rc_counter := c, rc_spanStore := rc_spanStore r @ [span],
                rc_Requests := rc_Requests r @ [s]\<rparr>;
          r = add_event (EvRequestStart s) r
      in (s, r\<lparr>rc_SpanIndex := aput (spanKey (bu_Trace bundle)) s (rc_SpanIndex r)\<rparr>))"

definition Span_Done :: "time \<Rightarrow> bool \<Rightarrow> nat \<Rightarrow> 'm Recorder \<Rightarrow> 'm Recorder" where
  "Span_Done t final s r =
     (let span = rc_spanStore r ! s;
          (prov, p) = AtomicMaxInt64 (sp_provisionalEndTime span) t;
          (end_time, _) = AtomicMaxInt64 (sp_EndTime span) p;
          r = upd_span s (\<lambda>x. x\<lparr>sp_provisionalEndTime := prov, sp_EndTime := end_time\<rparr>) r
      in add_event (if sp_IsRequest span then EvRequestDone s final else EvSpanDone s final) r)"

definition Span_Flush :: "nat \<Rightarrow> 'm Recorder \<Rightarrow> 'm Recorder" where
  "Span_Flush s r = add_event (EvFlush s) r"

definition Span_Span ::
    "time \<Rightarrow> Bundle \<Rightarrow> string \<Rightarrow> string \<Rightarrow> nat \<Rightarrow> 'm Recorder \<Rightarrow> nat \<times> 'm Recorder" where
  "Span_Span ts bundle name spanSequenceCode s r =
     (let parent = rc_spanStore r ! (sp_Parent (rc_spanStore r ! s));
          n = length (rc_spanStore r);
          span = \<lparr>sp_EndTime = 0, sp_provisionalEndTime = 0, sp_RequestNum = sp_RequestNum parent,
            sp_TraceNum = sp_TraceNum parent, sp_Bundle = bundle, sp_IsRequest = False, sp_Parent = s,
            sp_Spans = [], sp_Lines = [], sp_Links = [], sp_StartTime = ts, sp_Name = name,
            sp_SpanSequenceCode = spanSequenceCode, sp_SourceInfo = None, sp_SpanMetadata = []\<rparr>;
          r = upd_span s (\<lambda>x. x\<lparr>sp_Spans := sp_Spans x @ [n]\<rparr>) r;
          r = r\<lparr>rc_spanStore := rc_spanStore r @ [span], rc_Spans := rc_Spans r @ [n]\<rparr>;
          r = add_event (EvSpanStart n) r
      in (n, r\<lparr>rc_SpanIndex := aput (spanKey (bu_Trace bundle)) n (rc_SpanIndex r)\<rparr>))"

text \<open>
  \<open>ParentRequest\<close> follows the parents; \<open>Parent\<close> of a request is the request itself. The bound
  is the number of spans: a parent is older than its child.
\<close>

fun ParentRequest :: "nat \<Rightarrow> nat \<Rightarrow> 'm Recorder \<Rightarrow> nat option" where
  "ParentRequest 0 s r = None"
| "ParentRequest (Suc n) s r =
     (if sp_IsRequest (rc_spanStore r ! s) then Some s else ParentRequest n (sp_Parent (rc_spanStore r ! s)) r)"

definition Span_Short :: "nat \<Rightarrow> 'm Recorder \<Rightarrow> string" where
  "Span_Short s r =
     (let x = rc_spanStore r ! s in
      CHR ''T'' # Itoa (sint (sp_TraceNum x)) @ ''.'' @ Itoa (sint (sp_RequestNum x)) @ sp_SpanSequenceCode x)"

definition Span_Metadata ::
    "'m marshallers \<Rightarrow> Attribute \<Rightarrow> 'm metavalue \<Rightarrow> nat \<Rightarrow> 'm Recorder \<Rightarrow> 'm Recorder option" where
  "Span_Metadata ms k v s r =
     (case Metadata_call ms (k, v) (sp_SpanMetadata (rc_spanStore r ! s)) of
        None \<Rightarrow> None
      | Some m \<Rightarrow> Some (add_event (EvMetadata s k v) (upd_span s (\<lambda>x. x\<lparr>sp_SpanMetadata := m\<rparr>) r)))"

subsection \<open>Prefills and lines\<close>

definition emptyBuilder :: "nat \<Rightarrow> 'm Builder" where
  "emptyBuilder s = \<lparr>bl_Enums = [], bl_Data = [], bl_DataType = [], bl_Span = s\<rparr>"

definition Span_NoPrefill :: "nat \<Rightarrow> 'm Recorder \<Rightarrow> nat \<times> 'm Recorder" where
  "Span_NoPrefill s r =
     (length (rc_prefilleds r),
      r\<lparr>rc_prefilleds := rc_prefilleds r @ [\<lparr>pf_builder = None, pf_Span = s, pf_Msg = []\<rparr>]\<rparr>)"

definition Span_StartPrefill :: "nat \<Rightarrow> 'm Recorder \<Rightarrow> nat \<times> 'm Recorder" where
  "Span_StartPrefill s r =
     (length (rc_prefillings r), r\<lparr>rc_prefillings := rc_prefillings r @ [emptyBuilder s]\<rparr>)"

definition PrefillComplete :: "string \<Rightarrow> nat \<Rightarrow> 'm Recorder \<Rightarrow> nat \<times> 'm Recorder" where
  "PrefillComplete m p r =
     (length (rc_prefilleds r),
      r\<lparr>rc_prefilleds := rc_prefilleds r @
         [\<lparr>pf_builder = Some p, pf_Span = bl_Span (rc_prefillings r ! p), pf_Msg = m\<rparr>]\<rparr>)"

text \<open>The loop of \<open>Prefilled.Line\<close> that copies the prefilled data.\<close>

fun copy_prefill :: "(string \<times> 'm dataval) list \<Rightarrow> 'm Builder \<Rightarrow> ('m, 'z) Builder_scheme \<Rightarrow> ('m, 'z) Builder_scheme" where
  "copy_prefill [] p l = l"
| "copy_prefill ((k, v) # kvs) p l =
     copy_prefill kvs p
       (l\<lparr>bl_Data := aput k v (bl_Data l),
          bl_DataType := aput k (case map_of (bl_DataType p) k of Some t \<Rightarrow> t | None \<Rightarrow> 0) (bl_DataType l),
          bl_Enums := (case map_of (bl_Enums p) k of Some e \<Rightarrow> aput k e (bl_Enums l) | None \<Rightarrow> bl_Enums l)\<rparr>)"

definition Prefilled_Line :: "int \<Rightarrow> time \<Rightarrow> frame list \<Rightarrow> nat \<Rightarrow> 'm Recorder \<Rightarrow> nat \<times> 'm Recorder" where
  "Prefilled_Line level t frames p r =
     (let pf = rc_prefilleds r ! p;
          r = upd_span (pf_Span pf) (\<lambda>x. x\<lparr>sp_provisionalEndTime := fst (AtomicMaxInt64 (sp_provisionalEndTime x) t)\<rparr>) r;
          line = \<lparr>bl_Enums = [], bl_Data = [], bl_DataType = [], bl_Span = pf_Span pf, ln_Level = level,
            ln_Timestamp = t, ln_Message = [], ln_Tmpl = [], ln_AsLink = None, ln_AsModel = None, ln_Stack = frames\<rparr>;
          line = (case pf_builder pf of
                    None \<Rightarrow> line
                  | Some b \<Rightarrow> copy_prefill (bl_Data (rc_prefillings r ! b)) (rc_prefillings r ! b) line);
          line = line\<lparr>ln_Message := pf_Msg pf\<rparr>
      in (length (rc_lineStore r), r\<lparr>rc_lineStore := rc_lineStore r @ [Some line]\<rparr>))"

definition build_any :: "string \<Rightarrow> 'm dataval \<Rightarrow> int \<Rightarrow> ('m, 'z) Builder_scheme \<Rightarrow> ('m, 'z) Builder_scheme" where
  "build_any k v dt b = b\<lparr>bl_Data := aput k v (bl_Data b), bl_DataType := aput k dt (bl_DataType b)\<rparr>"

fun build :: "'m build_call \<Rightarrow> ('m, 'z) Builder_scheme \<Rightarrow> ('m, 'z) Builder_scheme" where
  "build (BEnum k v) b =
     b\<lparr>bl_Enums := aput (at_key k) k (bl_Enums b), bl_Data := aput (at_key k) (DEnum v) (bl_Data b),
       bl_DataType := aput (at_key k) 14 (bl_DataType b)\<rparr>"
| "build (BAny k v) b = build_any k (DAny v) 11 b"
| "build (BBool k v) b = build_any k (DBool v) 1 b"
| "build (BDuration k v) b = build_any k (DDuration v) 13 b"
| "build (BTime k v rep) b = build_any k (DTime v rep) 12 b"
| "build (BFloat64 k v dt) b = build_any k (DFloat64 v) dt b"
| "build (BInt64 k v dt) b = build_any k (DInt64 v) dt b"
| "build (BString k v dt) b = build_any k (DString v) dt b"
| "build (BUint64 k v dt) b = build_any k (DUint64 v) dt b"

text \<open>
  \<open>templateRE\<close> is \<open>\{.+?\}\<close>: an opening brace, at least one character, and the first closing brace
  after those; a newline does not match. \<open>findClose\<close> gives the text between the braces.
\<close>

fun findClose :: "string \<Rightarrow> string \<Rightarrow> (string \<times> string) option" where
  "findClose acc [] = None"
| "findClose acc (c # cs) =
     (if c = CHR ''}'' \<and> acc \<noteq> [] then Some (acc, cs)
      else if c = CHR 0x0A then None
      else findClose (acc @ [c]) cs)"

lemma findClose_length: "findClose acc s = Some (k, r) \<Longrightarrow> length r < length s"
  by (induction acc s rule: findClose.induct) (auto split: if_splits)

function expandTemplate :: "(string \<Rightarrow> string option) \<Rightarrow> string \<Rightarrow> string" where
  "expandTemplate f [] = []"
| "expandTemplate f (c # cs) =
     (if c = CHR ''{'' then
        (case findClose [] cs of
           Some (k, r) \<Rightarrow> (case f k of Some t \<Rightarrow> t | None \<Rightarrow> [CHR 0x27, CHR 0x27]) @ expandTemplate f r
         | None \<Rightarrow> c # expandTemplate f cs)
      else c # expandTemplate f cs)"
  by pat_completeness auto
termination
  by (relation "measure (\<lambda>(f, s). length s)") (auto dest: findClose_length)

definition template_message :: "('m dataval \<Rightarrow> string) \<Rightarrow> 'm Line \<Rightarrow> string \<Rightarrow> string" where
  "template_message sprint l t = expandTemplate (\<lambda>k. map_option sprint (map_of (bl_Data l) k)) t"

definition Line_send :: "bool \<Rightarrow> 'm Line \<Rightarrow> 'm Recorder \<Rightarrow> 'm Recorder" where
  "Line_send isLink line r =
     (let r = r\<lparr>rc_Lines := rc_Lines r @ [line]\<rparr>;
          r = add_event (EvLine line) r
      in upd_span (bl_Span line)
           (\<lambda>x. x\<lparr>sp_Lines := sp_Lines x @ [line], sp_Links := (if isLink then sp_Links x @ [line] else sp_Links x)\<rparr>) r)"

fun line_finish :: "('m dataval \<Rightarrow> string) \<Rightarrow> 'm line_end \<Rightarrow> 'm Line \<Rightarrow> 'm Line \<times> bool" where
  "line_finish sprint (LLink m v) l = (l\<lparr>ln_AsLink := Some v, ln_Message := ln_Message l @ m\<rparr>, True)"
| "line_finish sprint (LModel m v) l = (l\<lparr>ln_AsModel := Some v, ln_Message := ln_Message l @ m\<rparr>, False)"
| "line_finish sprint (LMsg m) l = (l\<lparr>ln_Message := ln_Message l @ m\<rparr>, False)"
| "line_finish sprint (LTemplate m) l =
     (let l = l\<lparr>ln_Tmpl := ln_Message l @ m\<rparr> in (l\<lparr>ln_Message := template_message sprint l (ln_Tmpl l)\<rparr>, False))"

definition Line_end :: "('m dataval \<Rightarrow> string) \<Rightarrow> 'm line_end \<Rightarrow> nat \<Rightarrow> 'm Recorder \<Rightarrow> 'm Recorder option" where
  "Line_end sprint e l r =
     (case rc_lineStore r ! l of
        None \<Rightarrow> None
      | Some line \<Rightarrow>
          let (line, isLink) = line_finish sprint e line in
          Some (Line_send isLink line (r\<lparr>rc_lineStore := (rc_lineStore r)[l := None]\<rparr>)))"

definition TemplateOrMessage :: "'m Line \<Rightarrow> string" where
  "TemplateOrMessage l = (if ln_Tmpl l \<noteq> [] then ln_Tmpl l else ln_Message l)"

subsection \<open>The recorder as a base logger\<close>

text \<open>
  A call on an object of the wrong kind (\<open>Flush\<close> on a span that is not a request, say) is not part
  of the interface and gives \<^term>\<open>None\<close>.
\<close>

fun recorder_new :: "create \<Rightarrow> rhandle option \<Rightarrow> 'm Recorder \<Rightarrow> (rhandle \<times> 'm Recorder) option" where
  "recorder_new (NRequest ts b n si) None r = (let (s, r) = Recorder_Request ts b n si r in Some (HSpan s, r))"
| "recorder_new (NSpan ts b n code) (Some (HSpan s)) r = (let (n, r) = Span_Span ts b n code s r in Some (HSpan n, r))"
| "recorder_new NNoPrefill (Some (HSpan s)) r = (let (p, r) = Span_NoPrefill s r in Some (HPrefilled p, r))"
| "recorder_new NStartPrefill (Some (HSpan s)) r = (let (p, r) = Span_StartPrefill s r in Some (HPrefilling p, r))"
| "recorder_new (NPrefillComplete m) (Some (HPrefilling p)) r =
     (let (p, r) = PrefillComplete m p r in Some (HPrefilled p, r))"
| "recorder_new (NLine level t frames) (Some (HPrefilled p)) r =
     (let (l, r) = Prefilled_Line level t frames p r in Some (HLine l, r))"
| "recorder_new _ _ r = None"

fun recorder_do ::
    "'m marshallers \<Rightarrow> ('m dataval \<Rightarrow> string) \<Rightarrow> 'm action \<Rightarrow> rhandle \<Rightarrow> 'm Recorder \<Rightarrow> 'm Recorder option" where
  "recorder_do ms sprint AFlush (HSpan s) r = (if sp_IsRequest (rc_spanStore r ! s) then Some (Span_Flush s r) else None)"
| "recorder_do ms sprint ASetErrorReporter (HSpan s) r = (if sp_IsRequest (rc_spanStore r ! s) then Some r else None)"
| "recorder_do ms sprint (ADone t final) (HSpan s) r = Some (Span_Done t final s r)"
| "recorder_do ms sprint (ABoring b) (HSpan s) r = Some r"
| "recorder_do ms sprint (AMetadata k v) (HSpan s) r = Span_Metadata ms k v s r"
| "recorder_do ms sprint (ABuild c) (HPrefilling p) r =
     Some (r\<lparr>rc_prefillings := (rc_prefillings r)[p := build c (rc_prefillings r ! p)]\<rparr>)"
| "recorder_do ms sprint (ABuild c) (HLine l) r =
     (case rc_lineStore r ! l of
        None \<Rightarrow> None
      | Some line \<Rightarrow> Some (r\<lparr>rc_lineStore := (rc_lineStore r)[l := Some (build c line)]\<rparr>))"
| "recorder_do ms sprint (AEnd e) (HLine l) r = Line_end sprint e l r"
| "recorder_do ms sprint _ _ r = None"

definition recorder_base ::
    "string \<Rightarrow> 'm marshallers \<Rightarrow> ('m dataval \<Rightarrow> string) \<Rightarrow> (rhandle, 'm Recorder, 'm) base" where
  "recorder_base ident ms sprint =
     \<lparr>b_ID = ident, b_ReferencesKept = True, b_Buffered = False, b_new = recorder_new,
      b_do = recorder_do ms sprint, b_Final = (\<lambda>h r. Some r)\<rparr>"

end
