(* ===== verification/RecorderInv.thy ===== *)
theory RecorderInv
  imports Recorder
begin

section \<open>The recorder's invariant\<close>

text \<open>
  What holds of a recorder that is used through the interface of base loggers, whatever the
  client does: spans are started before they are used and parents before their children, every
  recorded line is complete, and the metadata of a span is what its metadata events say.
\<close>

subsection \<open>Builders\<close>

definition bl_ok :: "('m, 'z) Builder_scheme \<Rightarrow> bool" where
  "bl_ok b \<longleftrightarrow> distinct (map fst (bl_Data b)) \<and>
     (\<forall>k a. map_of (bl_Enums b) k = Some a \<longrightarrow> at_key a = k) \<and>
     (\<forall>k v. map_of (bl_Data b) k = Some (DEnum v) \<longrightarrow> map_of (bl_Enums b) k \<noteq> None) \<and>
     (\<forall>k. map_of (bl_Data b) k \<noteq> None \<longrightarrow> map_of (bl_DataType b) k \<noteq> None)"

lemma bl_ok_emptyBuilder: "bl_ok (emptyBuilder s)"
  by (simp add: bl_ok_def emptyBuilder_def)

lemma bl_ok_any: "bl_ok b \<Longrightarrow> (\<And>e. v \<noteq> DEnum e) \<Longrightarrow> bl_ok (build_any k v dt b)"
  by (auto simp: bl_ok_def build_any_def)

lemma bl_ok_build: "bl_ok b \<Longrightarrow> bl_ok (build c b)"
proof (cases c)
  case (BEnum k v)
  assume "bl_ok b"
  then show ?thesis by (auto simp: BEnum bl_ok_def)
qed (auto intro: bl_ok_any)

lemma bl_Span_build [simp]: "bl_Span (build c b) = bl_Span b"
  by (cases c) (simp_all add: build_any_def)

lemma bl_ok_copy_one:
  assumes p: "bl_ok p" and l: "bl_ok l" and v: "map_of (bl_Data p) k = Some v"
  shows "bl_ok (l\<lparr>bl_Data := aput k v (bl_Data l),
    bl_DataType := aput k (case map_of (bl_DataType p) k of Some t \<Rightarrow> t | None \<Rightarrow> 0) (bl_DataType l),
    bl_Enums := (case map_of (bl_Enums p) k of Some e \<Rightarrow> aput k e (bl_Enums l) | None \<Rightarrow> bl_Enums l)\<rparr>)"
proof (cases "map_of (bl_Enums p) k")
  case None
  then have "v \<noteq> DEnum e" for e using p v unfolding bl_ok_def by metis
  with l None show ?thesis by (auto simp: bl_ok_def)
next
  case (Some a)
  then have "at_key a = k" using p by (auto simp: bl_ok_def)
  with l Some show ?thesis by (auto simp: bl_ok_def)
qed

lemma bl_ok_copy_prefill:
  assumes "bl_ok p" "bl_ok l" "\<forall>(k, v) \<in> set kvs. map_of (bl_Data p) k = Some v"
  shows "bl_ok (copy_prefill kvs p l)"
  using assms(2,3)
proof (induction kvs arbitrary: l)
  case (Cons kv kvs)
  obtain k v where kv: "kv = (k, v)" by (cases kv)
  with Cons.prems have "map_of (bl_Data p) k = Some v" by auto
  with Cons.IH [OF bl_ok_copy_one [OF assms(1) Cons.prems(1) this]] Cons.prems kv show ?case by simp
qed simp

lemma copy_prefill_fields [simp]:
  "bl_Span (copy_prefill kvs p l) = bl_Span l"
  by (induction kvs arbitrary: l) auto

lemma copy_prefill_line [simp]:
  "ln_Tmpl (copy_prefill kvs p l) = ln_Tmpl l" "ln_AsLink (copy_prefill kvs p l) = ln_AsLink l"
  "ln_AsModel (copy_prefill kvs p l) = ln_AsModel l" "ln_Level (copy_prefill kvs p l) = ln_Level l"
  "ln_Timestamp (copy_prefill kvs p l) = ln_Timestamp l" "ln_Stack (copy_prefill kvs p l) = ln_Stack l"
  "ln_Message (copy_prefill kvs p l) = ln_Message l"
  by (induction kvs arbitrary: l) auto

lemma build_line [simp]:
  "ln_Tmpl (build c l) = ln_Tmpl l" "ln_AsLink (build c l) = ln_AsLink l"
  "ln_AsModel (build c l) = ln_AsModel l" "ln_Level (build c l) = ln_Level l"
  "ln_Timestamp (build c l) = ln_Timestamp l" "ln_Stack (build c l) = ln_Stack l"
  "ln_Message (build c l) = ln_Message l"
  by (cases c; simp add: build_any_def)+

lemma bl_ok_ext [simp]:
  "bl_ok (l\<lparr>ln_Message := m\<rparr>) = bl_ok (l :: 'm Line)" "bl_ok (l\<lparr>ln_Tmpl := m\<rparr>) = bl_ok l"
  "bl_ok (l\<lparr>ln_AsLink := x\<rparr>) = bl_ok l" "bl_ok (l\<lparr>ln_AsModel := y\<rparr>) = bl_ok l"
  by (simp_all add: bl_ok_def)

subsection \<open>What a span is started with\<close>

record static =
  st_Bundle :: Bundle
  st_IsRequest :: bool
  st_Parent :: nat
  st_StartTime :: time
  st_Name :: string
  st_Code :: string
  st_SourceInfo :: "SourceInfo option"

definition static_of :: "'m RSpan \<Rightarrow> static" where
  "static_of x = \<lparr>st_Bundle = sp_Bundle x, st_IsRequest = sp_IsRequest x, st_Parent = sp_Parent x,
     st_StartTime = sp_StartTime x, st_Name = sp_Name x, st_Code = sp_SpanSequenceCode x,
     st_SourceInfo = sp_SourceInfo x\<rparr>"

definition statics :: "'m Recorder \<Rightarrow> static list" where
  "statics r = map static_of (rc_spanStore r)"

definition static_ok :: "nat \<Rightarrow> static \<Rightarrow> bool" where
  "static_ok n x \<longleftrightarrow> (if st_IsRequest x then st_Parent x = n \<and> st_SourceInfo x \<noteq> None \<and> st_Code x = []
     else st_Parent x < n \<and> st_SourceInfo x = None)"

definition statics_ok :: "static list \<Rightarrow> bool" where
  "statics_ok st \<longleftrightarrow> (\<forall>n < length st. static_ok n (st ! n))"

lemma statics_ok_snoc: "statics_ok (st @ [x]) \<longleftrightarrow> statics_ok st \<and> static_ok (length st) x"
  by (auto simp: statics_ok_def nth_append less_Suc_eq)

lemma length_statics [simp]: "length (statics r) = length (rc_spanStore r)"
  by (simp add: statics_def)

subsection \<open>Events\<close>

text \<open>A line after its last call: a template's text has been expanded, and at most one ending was used.\<close>

definition line_sent :: "('m dataval \<Rightarrow> string) \<Rightarrow> 'm Line \<Rightarrow> bool" where
  "line_sent sprint l \<longleftrightarrow>
     (ln_Tmpl l \<noteq> [] \<longrightarrow> ln_Message l = template_message sprint l (ln_Tmpl l) \<and>
        ln_AsLink l = None \<and> ln_AsModel l = None) \<and>
     (ln_AsLink l \<noteq> None \<longrightarrow> ln_AsModel l = None)"

definition line_fresh :: "'m Line \<Rightarrow> bool" where
  "line_fresh l \<longleftrightarrow> ln_Tmpl l = [] \<and> ln_AsLink l = None \<and> ln_AsModel l = None"

lemma line_finish_sent:
  "line_fresh l \<Longrightarrow> bl_ok l \<Longrightarrow> line_finish sprint e l = (l', b) \<Longrightarrow>
   line_sent sprint l' \<and> bl_ok l' \<and> bl_Span l' = bl_Span l"
  by (cases e) (auto simp: line_fresh_def line_sent_def template_message_def Let_def)

fun ev_ok :: "('m dataval \<Rightarrow> string) \<Rightarrow> static list \<Rightarrow> nat \<Rightarrow> 'm Event \<Rightarrow> bool" where
  "ev_ok sprint st n (EvLine l) = (bl_Span l < n \<and> bl_ok l \<and> line_sent sprint l)"
| "ev_ok sprint st n (EvRequestStart s) = (s = n \<and> n < length st \<and> st_IsRequest (st ! s))"
| "ev_ok sprint st n (EvRequestDone s b) = (s < n \<and> st_IsRequest (st ! s))"
| "ev_ok sprint st n (EvSpanStart s) = (s = n \<and> n < length st \<and> \<not> st_IsRequest (st ! s))"
| "ev_ok sprint st n (EvSpanDone s b) = (s < n \<and> \<not> st_IsRequest (st ! s))"
| "ev_ok sprint st n (EvFlush s) = (s < n \<and> st_IsRequest (st ! s))"
| "ev_ok sprint st n (EvMetadata s k v) = (s < n)"
| "ev_ok sprint st n (EvCustom m) = True"

fun is_start :: "'m Event \<Rightarrow> bool" where
  "is_start (EvRequestStart s) = True"
| "is_start (EvSpanStart s) = True"
| "is_start _ = False"

definition starts :: "'m Event list \<Rightarrow> nat" where
  "starts es = length (filter is_start es)"

definition evs_ok :: "('m dataval \<Rightarrow> string) \<Rightarrow> static list \<Rightarrow> 'm Event list \<Rightarrow> bool" where
  "evs_ok sprint st es \<longleftrightarrow> starts es = length st \<and>
     (\<forall>i < length es. ev_ok sprint st (starts (take i es)) (es ! i))"

fun meta_event :: "nat \<Rightarrow> 'm Event \<Rightarrow> (Attribute \<times> 'm metavalue) list" where
  "meta_event s (EvMetadata s' k v) = (if s = s' then [(k, v)] else [])"
| "meta_event s _ = []"

definition meta_of :: "nat \<Rightarrow> 'm Event list \<Rightarrow> (Attribute \<times> 'm metavalue) list" where
  "meta_of s es = concat (map (meta_event s) es)"

lemma starts_snoc [simp]: "starts (es @ [e]) = starts es + (if is_start e then 1 else 0)"
  by (simp add: starts_def)

lemma meta_of_snoc [simp]: "meta_of s (es @ [e]) = meta_of s es @ meta_event s e"
  by (simp add: meta_of_def)

lemma starts_take_le: "starts (take i es) \<le> starts es"
  unfolding starts_def
  by (metis append_take_drop_id filter_append length_append le_add1)

lemma ev_ok_grow: "ev_ok sprint st n e \<Longrightarrow> n \<le> length st \<Longrightarrow> ev_ok sprint (st @ [x]) n e"
  by (cases e) (auto simp: nth_append)

lemma evs_ok_add:
  assumes "evs_ok sprint st es" "\<not> is_start e" "ev_ok sprint st (length st) e"
  shows "evs_ok sprint st (es @ [e])"
  using assms by (auto simp: evs_ok_def nth_append less_Suc_eq)

lemma evs_ok_start:
  assumes "evs_ok sprint st es" "is_start e" "ev_ok sprint (st @ [x]) (length st) e"
  shows "evs_ok sprint (st @ [x]) (es @ [e])"
  using assms starts_take_le [of _ es]
  by (auto simp: evs_ok_def nth_append less_Suc_eq intro!: ev_ok_grow)

lemma meta_of_unstarted:
  assumes "evs_ok sprint st es" "length st \<le> s"
  shows "meta_of s es = []"
proof -
  have "meta_event s e = []" if "e \<in> set es" for e
  proof -
    obtain i where i: "i < length es" "es ! i = e" using \<open>e \<in> set es\<close> by (auto simp: in_set_conv_nth)
    then have "ev_ok sprint st (starts (take i es)) e" "starts (take i es) \<le> length st"
      using assms(1) starts_take_le [of i es] by (auto simp: evs_ok_def)
    then show ?thesis using assms(2) by (cases e) auto
  qed
  then show ?thesis by (simp add: meta_of_def concat_eq_Nil_conv)
qed

subsection \<open>The invariant and its preservation\<close>

definition metas_ok :: "'m marshallers \<Rightarrow> 'm Recorder \<Rightarrow> bool" where
  "metas_ok ms r \<longleftrightarrow> (\<forall>s < length (rc_spanStore r).
     Metadata_calls ms (meta_of s (rc_Events r)) [] = Some (sp_SpanMetadata (rc_spanStore r ! s)))"

fun handle_ok :: "'m Recorder \<Rightarrow> rhandle \<Rightarrow> bool" where
  "handle_ok r (HSpan s) = (s < length (rc_spanStore r))"
| "handle_ok r (HPrefilling p) = (p < length (rc_prefillings r))"
| "handle_ok r (HPrefilled p) = (p < length (rc_prefilleds r))"
| "handle_ok r (HLine l) = (l < length (rc_lineStore r))"

definition builders_ok :: "'m Recorder \<Rightarrow> bool" where
  "builders_ok r \<longleftrightarrow>
     (\<forall>b \<in> set (rc_prefillings r). bl_ok b \<and> bl_Span b < length (rc_spanStore r)) \<and>
     (\<forall>p \<in> set (rc_prefilleds r). pf_Span p < length (rc_spanStore r) \<and>
        (\<forall>b. pf_builder p = Some b \<longrightarrow> b < length (rc_prefillings r))) \<and>
     (\<forall>l. Some l \<in> set (rc_lineStore r) \<longrightarrow> bl_ok l \<and> line_fresh l \<and> bl_Span l < length (rc_spanStore r))"

definition rec_ok :: "'m marshallers \<Rightarrow> ('m dataval \<Rightarrow> string) \<Rightarrow> 'm Recorder \<Rightarrow> bool" where
  "rec_ok ms sprint r \<longleftrightarrow> statics_ok (statics r) \<and> evs_ok sprint (statics r) (rc_Events r) \<and>
     metas_ok ms r \<and> builders_ok r"

definition rec_inv ::
    "'m marshallers \<Rightarrow> ('m dataval \<Rightarrow> string) \<Rightarrow> 'm Recorder \<Rightarrow> rhandle list \<Rightarrow> bool" where
  "rec_inv ms sprint r env \<longleftrightarrow> rec_ok ms sprint r \<and> (\<forall>h \<in> set env. handle_ok r h)"

text \<open>Updates of a span that keep what it was started with and its metadata.\<close>

lemma statics_upd_span:
  "s < length (rc_spanStore r) \<Longrightarrow> static_of (g (rc_spanStore r ! s)) = static_of (rc_spanStore r ! s) \<Longrightarrow>
   statics (upd_span s g r) = statics r"
  unfolding statics_def upd_span_def
  by (simp add: map_update list_update_same_conv)

lemma upd_span_simps [simp]:
  "rc_Events (upd_span s g r) = rc_Events r" "rc_prefillings (upd_span s g r) = rc_prefillings r"
  "rc_prefilleds (upd_span s g r) = rc_prefilleds r" "rc_lineStore (upd_span s g r) = rc_lineStore r"
  "length (rc_spanStore (upd_span s g r)) = length (rc_spanStore r)"
  by (simp_all add: upd_span_def)

lemma upd_span_ok:
  assumes "rec_ok ms sprint r" "s < length (rc_spanStore r)"
    "static_of (g (rc_spanStore r ! s)) = static_of (rc_spanStore r ! s)"
    "sp_SpanMetadata (g (rc_spanStore r ! s)) = sp_SpanMetadata (rc_spanStore r ! s)"
  shows "rec_ok ms sprint (upd_span s g r)"
proof -
  have "metas_ok ms (upd_span s g r)"
    using assms by (auto simp: rec_ok_def metas_ok_def upd_span_def nth_list_update)
  with assms statics_upd_span [of s r g, OF assms(2,3)] show ?thesis
    by (auto simp: rec_ok_def builders_ok_def)
qed

lemma add_event_simps [simp]:
  "rc_Events (add_event e r) = rc_Events r @ [e]" "rc_prefillings (add_event e r) = rc_prefillings r"
  "rc_prefilleds (add_event e r) = rc_prefilleds r" "rc_lineStore (add_event e r) = rc_lineStore r"
  "rc_spanStore (add_event e r) = rc_spanStore r" "statics (add_event e r) = statics r"
  by (simp_all add: add_event_def statics_def)

lemma add_event_ok:
  assumes "rec_ok ms sprint r" "\<not> is_start e" "ev_ok sprint (statics r) (length (rc_spanStore r)) e"
    "\<forall>s. meta_event s e = []"
  shows "rec_ok ms sprint (add_event e r)"
  using assms evs_ok_add [of sprint "statics r" "rc_Events r" e]
  by (auto simp: rec_ok_def metas_ok_def builders_ok_def)

text \<open>A new span with its start event.\<close>

lemma new_span_ok:
  assumes ok: "rec_ok ms sprint r" and st: "static_ok (length (rc_spanStore r)) (static_of x)"
    and e: "is_start e" "ev_ok sprint (statics r @ [static_of x]) (length (rc_spanStore r)) e"
    and x: "sp_SpanMetadata x = []"
    and r': "rc_spanStore r' = rc_spanStore r @ [x]" "rc_Events r' = rc_Events r @ [e]"
      "rc_prefillings r' = rc_prefillings r" "rc_prefilleds r' = rc_prefilleds r" "rc_lineStore r' = rc_lineStore r"
  shows "rec_ok ms sprint r'"
proof -
  have s: "statics r' = statics r @ [static_of x]" by (simp add: statics_def r')
  have m: "meta_event s e = []" for s using e(1) by (cases e) auto
  have "metas_ok ms r'"
    unfolding metas_ok_def
  proof (intro allI impI)
    fix s assume "s < length (rc_spanStore r')"
    then consider "s < length (rc_spanStore r)" | "s = length (rc_spanStore r)" using r' by fastforce
    then show "Metadata_calls ms (meta_of s (rc_Events r')) [] = Some (sp_SpanMetadata (rc_spanStore r' ! s))"
    proof cases
      case 1
      with ok m show ?thesis by (simp add: rec_ok_def metas_ok_def r' nth_append)
    next
      case 2
      have "meta_of s (rc_Events r) = []"
        using ok 2 meta_of_unstarted [of sprint "statics r" "rc_Events r" s] by (simp add: rec_ok_def)
      with 2 m x show ?thesis by (simp add: r')
    qed
  qed
  moreover have "builders_ok r'"
    using ok by (fastforce simp: rec_ok_def builders_ok_def r')
  ultimately show ?thesis
    using ok st e evs_ok_start [of sprint "statics r" "rc_Events r" e]
    by (simp add: rec_ok_def s r'(2) statics_ok_snoc)
qed

lemma rec_okD:
  "rec_ok ms sprint r \<Longrightarrow> statics_ok (statics r)" "rec_ok ms sprint r \<Longrightarrow> evs_ok sprint (statics r) (rc_Events r)"
  "rec_ok ms sprint r \<Longrightarrow> metas_ok ms r" "rec_ok ms sprint r \<Longrightarrow> builders_ok r"
  by (simp_all add: rec_ok_def)

lemma nth_statics: "s < length (rc_spanStore r) \<Longrightarrow> statics r ! s = static_of (rc_spanStore r ! s)"
  by (simp add: statics_def)

lemma SpanIndex_ok [simp]:
  "rec_ok ms sprint (r\<lparr>rc_SpanIndex := x\<rparr>) = rec_ok ms sprint r"
  "rec_ok ms sprint (r\<lparr>rc_Lines := ls\<rparr>) = rec_ok ms sprint r"
  by (simp_all add: rec_ok_def statics_def metas_ok_def builders_ok_def)

lemma Recorder_Request_ok:
  assumes "rec_ok ms sprint r" "Recorder_Request ts b n si r = (s, r')"
  shows "rec_ok ms sprint r' \<and> s = length (rc_spanStore r) \<and> length (rc_spanStore r') = Suc s \<and>
    rc_prefillings r' = rc_prefillings r \<and> rc_prefilleds r' = rc_prefilleds r \<and> rc_lineStore r' = rc_lineStore r"
proof -
  obtain tn rn w c where g: "GetNumber (bu_Trace b) (rc_counter r) = ((tn, rn, w), c)"
    by (metis prod.collapse)
  let ?s = "length (rc_spanStore r)"
  let ?x = "\<lparr>sp_EndTime = 0, sp_provisionalEndTime = 0, sp_RequestNum = rn, sp_TraceNum = tn, sp_Bundle = b,
    sp_IsRequest = True, sp_Parent = ?s, sp_Spans = [], sp_Lines = [], sp_Links = [], sp_StartTime = ts,
    sp_Name = n, sp_SpanSequenceCode = [], sp_SourceInfo = Some si, sp_SpanMetadata = []\<rparr>"
  have r': "s = ?s" "rc_spanStore r' = rc_spanStore r @ [?x]" "rc_Events r' = rc_Events r @ [EvRequestStart ?s]"
    "rc_prefillings r' = rc_prefillings r" "rc_prefilleds r' = rc_prefilleds r" "rc_lineStore r' = rc_lineStore r"
    using assms(2) g by (auto simp: Recorder_Request_def Let_def add_event_def)
  have "rec_ok ms sprint r'"
    by (rule new_span_ok [OF assms(1) _ _ _ _ r'(2,3,4,5,6)])
      (simp_all add: static_ok_def static_of_def nth_append)
  with r' show ?thesis by simp
qed

lemma Span_Span_ok:
  assumes "rec_ok ms sprint r" "s < length (rc_spanStore r)" "Span_Span ts b n code s r = (m, r')"
  shows "rec_ok ms sprint r' \<and> m = length (rc_spanStore r) \<and> length (rc_spanStore r') = Suc m \<and>
    rc_prefillings r' = rc_prefillings r \<and> rc_prefilleds r' = rc_prefilleds r \<and> rc_lineStore r' = rc_lineStore r"
proof -
  let ?m = "length (rc_spanStore r)"
  let ?r = "upd_span s (\<lambda>x. x\<lparr>sp_Spans := sp_Spans x @ [?m]\<rparr>) r"
  have ok: "rec_ok ms sprint ?r"
    by (rule upd_span_ok [OF assms(1,2)]) (simp_all add: static_of_def)
  let ?p = "rc_spanStore r ! (sp_Parent (rc_spanStore r ! s))"
  let ?x = "\<lparr>sp_EndTime = 0, sp_provisionalEndTime = 0, sp_RequestNum = sp_RequestNum ?p,
    sp_TraceNum = sp_TraceNum ?p, sp_Bundle = b, sp_IsRequest = False, sp_Parent = s, sp_Spans = [],
    sp_Lines = [], sp_Links = [], sp_StartTime = ts, sp_Name = n, sp_SpanSequenceCode = code,
    sp_SourceInfo = None, sp_SpanMetadata = []\<rparr>"
  have r': "m = ?m" "rc_spanStore r' = rc_spanStore ?r @ [?x]" "rc_Events r' = rc_Events ?r @ [EvSpanStart ?m]"
    "rc_prefillings r' = rc_prefillings ?r" "rc_prefilleds r' = rc_prefilleds ?r" "rc_lineStore r' = rc_lineStore ?r"
    using assms(3) unfolding Span_Span_def Let_def add_event_def prod.inject by auto
  have "rec_ok ms sprint r'"
    by (rule new_span_ok [OF ok _ _ _ _ r'(2-6)])
      (use assms(2) in \<open>simp_all add: static_ok_def static_of_def nth_append\<close>)
  with r' show ?thesis by simp
qed

lemma Span_Done_ok:
  assumes "rec_ok ms sprint r" "s < length (rc_spanStore r)"
  shows "rec_ok ms sprint (Span_Done t final s r)"
proof -
  let ?g = "\<lambda>x :: 'a RSpan. x\<lparr>sp_provisionalEndTime := max (sp_provisionalEndTime (rc_spanStore r ! s)) t,
    sp_EndTime := max (sp_EndTime (rc_spanStore r ! s)) (max (sp_provisionalEndTime (rc_spanStore r ! s)) t)\<rparr>"
  have ok: "rec_ok ms sprint (upd_span s ?g r)"
    by (rule upd_span_ok [OF assms]) (simp_all add: static_of_def)
  have st: "statics (upd_span s ?g r) = statics r"
    by (rule statics_upd_span [OF assms(2)]) (simp add: static_of_def)
  show ?thesis
    unfolding Span_Done_def Let_def AtomicMaxInt64_max prod.case
    by (rule add_event_ok [OF ok])
      (use assms(2) in \<open>auto simp: st nth_statics static_of_def\<close>)
qed

lemma Span_Flush_ok:
  assumes "rec_ok ms sprint r" "s < length (rc_spanStore r)" "sp_IsRequest (rc_spanStore r ! s)"
  shows "rec_ok ms sprint (Span_Flush s r)"
  unfolding Span_Flush_def
  by (rule add_event_ok [OF assms(1)]) (use assms in \<open>simp_all add: nth_statics static_of_def\<close>)

lemma Span_Metadata_ok:
  assumes "rec_ok ms sprint r" "s < length (rc_spanStore r)" "Span_Metadata ms k v s r = Some r'"
  shows "rec_ok ms sprint r'"
proof -
  obtain m where m: "Metadata_call ms (k, v) (sp_SpanMetadata (rc_spanStore r ! s)) = Some m"
    and r': "r' = add_event (EvMetadata s k v) (upd_span s (\<lambda>x. x\<lparr>sp_SpanMetadata := m\<rparr>) r)"
    using assms(3) by (auto simp: Span_Metadata_def split: option.splits)
  have st: "statics (upd_span s (\<lambda>x. x\<lparr>sp_SpanMetadata := m\<rparr>) r) = statics r"
    by (rule statics_upd_span [OF assms(2)]) (simp add: static_of_def)
  have "metas_ok ms r'"
    using rec_okD(3) [OF assms(1)] m
    by (auto simp: metas_ok_def r' upd_span_def nth_list_update Metadata_calls_append simp del: Metadata_call.simps)
  moreover have "evs_ok sprint (statics r') (rc_Events r')"
    using evs_ok_add [OF rec_okD(2) [OF assms(1)], of "EvMetadata s k v"] assms(2) by (simp add: r' st)
  ultimately show ?thesis
    using rec_okD [OF assms(1)] by (simp add: rec_ok_def r' st builders_ok_def)
qed

lemma Prefilled_Line_ok:
  assumes "rec_ok ms sprint r" "p < length (rc_prefilleds r)" "Prefilled_Line level t frames p r = (l, r')"
  shows "rec_ok ms sprint r' \<and> l = length (rc_lineStore r) \<and> length (rc_lineStore r') = Suc l \<and>
    length (rc_spanStore r') = length (rc_spanStore r) \<and> rc_prefillings r' = rc_prefillings r \<and> rc_prefilleds r' = rc_prefilleds r"
proof -
  let ?pf = "rc_prefilleds r ! p"
  let ?g = "\<lambda>x :: 'a RSpan. x\<lparr>sp_provisionalEndTime := fst (AtomicMaxInt64 (sp_provisionalEndTime x) t)\<rparr>"
  let ?r = "upd_span (pf_Span ?pf) ?g r"
  have "?pf \<in> set (rc_prefilleds r)" using assms(2) by simp
  with rec_okD(4) [OF assms(1)] have pf: "pf_Span ?pf < length (rc_spanStore r)"
    "\<And>b. pf_builder ?pf = Some b \<Longrightarrow> b < length (rc_prefillings r)" by (auto simp: builders_ok_def)
  have ok: "rec_ok ms sprint ?r"
    by (rule upd_span_ok [OF assms(1) pf(1)]) (simp_all add: static_of_def)
  let ?line = "\<lparr>bl_Enums = [], bl_Data = [], bl_DataType = [], bl_Span = pf_Span ?pf, ln_Level = level,
    ln_Timestamp = t, ln_Message = [], ln_Tmpl = [], ln_AsLink = None, ln_AsModel = None, ln_Stack = frames\<rparr> :: 'a Line"
  let ?line2 = "case pf_builder ?pf of None \<Rightarrow> ?line
    | Some b \<Rightarrow> copy_prefill (bl_Data (rc_prefillings r ! b)) (rc_prefillings r ! b) ?line"
  have line: "bl_ok ?line2 \<and> bl_Span ?line2 = pf_Span ?pf \<and> line_fresh ?line2"
  proof (cases "pf_builder ?pf")
    case None
    then show ?thesis by (simp add: bl_ok_def line_fresh_def)
  next
    case (Some b)
    with pf(2) have "rc_prefillings r ! b \<in> set (rc_prefillings r)" by simp
    then have "bl_ok (rc_prefillings r ! b)" using rec_okD(4) [OF assms(1)] by (auto simp: builders_ok_def)
    moreover have "\<forall>(k, v) \<in> set (bl_Data (rc_prefillings r ! b)). map_of (bl_Data (rc_prefillings r ! b)) k = Some v"
      using \<open>bl_ok (rc_prefillings r ! b)\<close> by (auto simp: bl_ok_def)
    moreover have "bl_ok ?line" by (simp add: bl_ok_def)
    ultimately show ?thesis using Some bl_ok_copy_prefill by (simp add: line_fresh_def)
  qed
  have r': "l = length (rc_lineStore r)"
    "r' = ?r\<lparr>rc_lineStore := rc_lineStore ?r @ [Some (?line2\<lparr>ln_Message := pf_Msg ?pf\<rparr>)]\<rparr>"
    using assms(3) unfolding Prefilled_Line_def Let_def prod.inject by (auto cong: option.case_cong)
  have "bl_ok (?line2\<lparr>ln_Message := pf_Msg ?pf\<rparr>) \<and> line_fresh (?line2\<lparr>ln_Message := pf_Msg ?pf\<rparr>) \<and>
      bl_Span (?line2\<lparr>ln_Message := pf_Msg ?pf\<rparr>) < length (rc_spanStore ?r)"
    using line pf(1) by (simp add: line_fresh_def)
  then have "builders_ok r'" using rec_okD(4) [OF ok] unfolding r'(2) by (auto simp: builders_ok_def)
  then have "rec_ok ms sprint r'"
    using rec_okD [OF ok] by (simp add: rec_ok_def r'(2) statics_def metas_ok_def)
  with r' show ?thesis by simp
qed

lemma Line_end_ok:
  assumes "rec_ok ms sprint r" "l < length (rc_lineStore r)" "Line_end sprint e l r = Some r'"
  shows "rec_ok ms sprint r' \<and> length (rc_lineStore r') = length (rc_lineStore r) \<and>
    length (rc_spanStore r') = length (rc_spanStore r) \<and> rc_prefillings r' = rc_prefillings r \<and> rc_prefilleds r' = rc_prefilleds r"
proof -
  obtain line0 line b where l0: "rc_lineStore r ! l = Some line0" and fin: "line_finish sprint e line0 = (line, b)"
    and r': "r' = Line_send b line (r\<lparr>rc_lineStore := (rc_lineStore r)[l := None]\<rparr>)"
    using assms(3) by (auto simp: Line_end_def Let_def split: option.splits prod.splits)
  have "Some line0 \<in> set (rc_lineStore r)" using l0 assms(2) by (metis nth_mem)
  then have "bl_ok line0 \<and> line_fresh line0 \<and> bl_Span line0 < length (rc_spanStore r)"
    using rec_okD(4) [OF assms(1)] by (auto simp: builders_ok_def)
  with line_finish_sent [OF _ _ fin] have line: "line_sent sprint line" "bl_ok line"
    "bl_Span line < length (rc_spanStore r)" by auto
  let ?r = "r\<lparr>rc_lineStore := (rc_lineStore r)[l := None]\<rparr>"
  have "\<forall>x. Some x \<in> set ((rc_lineStore r)[l := None]) \<longrightarrow> Some x \<in> set (rc_lineStore r)"
    using set_update_subset_insert [of "rc_lineStore r" l None] by auto
  then have "builders_ok ?r" using rec_okD(4) [OF assms(1)] by (auto simp: builders_ok_def)
  then have "rec_ok ms sprint ?r"
    using rec_okD [OF assms(1)] by (simp add: rec_ok_def statics_def metas_ok_def)
  then have "rec_ok ms sprint (?r\<lparr>rc_Lines := rc_Lines ?r @ [line]\<rparr>)" by simp
  then have "rec_ok ms sprint (add_event (EvLine line) (?r\<lparr>rc_Lines := rc_Lines ?r @ [line]\<rparr>))"
    by (rule add_event_ok) (use line in \<open>simp_all\<close>)
  then have "rec_ok ms sprint r'"
    unfolding r' Line_send_def Let_def
    by (rule upd_span_ok) (use line in \<open>simp_all add: static_of_def\<close>)
  then show ?thesis by (simp add: r' Line_send_def Let_def)
qed

text \<open>Prefills.\<close>

lemma handle_ok_mono:
  assumes "handle_ok r h" "length (rc_spanStore r) \<le> length (rc_spanStore r')"
    "length (rc_prefillings r) \<le> length (rc_prefillings r')" "length (rc_prefilleds r) \<le> length (rc_prefilleds r')"
    "length (rc_lineStore r) \<le> length (rc_lineStore r')"
  shows "handle_ok r' h"
  using assms by (cases h) auto

lemma prefilled_add_ok:
  assumes "rec_ok ms sprint r" "pf_Span p < length (rc_spanStore r)"
    "\<And>b. pf_builder p = Some b \<Longrightarrow> b < length (rc_prefillings r)"
  shows "rec_ok ms sprint (r\<lparr>rc_prefilleds := rc_prefilleds r @ [p]\<rparr>)"
proof -
  have "builders_ok (r\<lparr>rc_prefilleds := rc_prefilleds r @ [p]\<rparr>)"
    using rec_okD(4) [OF assms(1)] assms(2,3) by (auto simp: builders_ok_def)
  with rec_okD [OF assms(1)] show ?thesis by (simp add: rec_ok_def statics_def metas_ok_def)
qed

lemma prefilling_add_ok:
  assumes "rec_ok ms sprint r" "s < length (rc_spanStore r)"
  shows "rec_ok ms sprint (r\<lparr>rc_prefillings := rc_prefillings r @ [emptyBuilder s]\<rparr>)"
proof -
  have "builders_ok (r\<lparr>rc_prefillings := rc_prefillings r @ [emptyBuilder s]\<rparr>)"
    using rec_okD(4) [OF assms(1)] assms(2) bl_ok_emptyBuilder [of s]
    by (auto simp: builders_ok_def emptyBuilder_def less_Suc_eq)
  with rec_okD [OF assms(1)] show ?thesis by (simp add: rec_ok_def statics_def metas_ok_def)
qed

lemma prefilling_build_ok:
  assumes "rec_ok ms sprint r" "p < length (rc_prefillings r)"
  shows "rec_ok ms sprint (r\<lparr>rc_prefillings := (rc_prefillings r)[p := build c (rc_prefillings r ! p)]\<rparr>)"
proof -
  have "rc_prefillings r ! p \<in> set (rc_prefillings r)" using assms(2) by simp
  with rec_okD(4) [OF assms(1)] have "bl_ok (rc_prefillings r ! p)" "bl_Span (rc_prefillings r ! p) < length (rc_spanStore r)"
    by (auto simp: builders_ok_def)
  then have "builders_ok (r\<lparr>rc_prefillings := (rc_prefillings r)[p := build c (rc_prefillings r ! p)]\<rparr>)"
    using rec_okD(4) [OF assms(1)] set_update_subset_insert [of "rc_prefillings r" p "build c (rc_prefillings r ! p)"]
    by (auto simp: builders_ok_def bl_ok_build)
  with rec_okD [OF assms(1)] show ?thesis by (simp add: rec_ok_def statics_def metas_ok_def)
qed

lemma line_build_ok:
  assumes "rec_ok ms sprint r" "l < length (rc_lineStore r)" "rc_lineStore r ! l = Some line"
  shows "rec_ok ms sprint (r\<lparr>rc_lineStore := (rc_lineStore r)[l := Some (build c line)]\<rparr>)"
proof -
  have "Some line \<in> set (rc_lineStore r)" using assms(2,3) by (metis nth_mem)
  then have "bl_ok line" "line_fresh line" "bl_Span line < length (rc_spanStore r)"
    using rec_okD(4) [OF assms(1)] by (auto simp: builders_ok_def)
  then have "builders_ok (r\<lparr>rc_lineStore := (rc_lineStore r)[l := Some (build c line)]\<rparr>)"
    using rec_okD(4) [OF assms(1)] set_update_subset_insert [of "rc_lineStore r" l "Some (build c line)"]
    by (auto simp: builders_ok_def bl_ok_build line_fresh_def)
  with rec_okD [OF assms(1)] show ?thesis by (simp add: rec_ok_def statics_def metas_ok_def)
qed

subsection \<open>The recorder keeps its invariant\<close>

lemma recorder_new_inv:
  assumes "recorder_new x h r = Some (h', r')" "rec_inv ms sprint r env" "h = None \<or> (\<exists>k \<in> set env. h = Some k)"
  shows "rec_inv ms sprint r' (env @ [h'])"
proof -
  have ok: "rec_ok ms sprint r" and env: "\<And>k. k \<in> set env \<Longrightarrow> handle_ok r k"
    and h: "\<And>k. h = Some k \<Longrightarrow> handle_ok r k"
    using assms(2,3) by (auto simp: rec_inv_def)
  have "rec_ok ms sprint r' \<and> handle_ok r' h' \<and> (\<forall>k \<in> set env. handle_ok r' k)"
  proof (cases "(x, h, r)" rule: recorder_new.cases)
    case (1 ts b n si r0)
    then obtain s where s: "Recorder_Request ts b n si r = (s, r')" "h' = HSpan s"
      using assms(1) by (auto split: prod.splits)
    from Recorder_Request_ok [OF ok s(1)] env s(2) show ?thesis by (auto intro!: handle_ok_mono [OF env])
  next
    case (2 ts b n code s r0)
    then obtain m where m: "Span_Span ts b n code s r = (m, r')" "h' = HSpan m"
      using assms(1) by (auto split: prod.splits)
    have "s < length (rc_spanStore r)" using h 2 by auto
    from Span_Span_ok [OF ok this m(1)] env m(2) show ?thesis
      by (auto intro!: handle_ok_mono [OF env] simp: le_Suc_eq)
  next
    case (3 s r0)
    then have r': "r' = r\<lparr>rc_prefilleds := rc_prefilleds r @ [\<lparr>pf_builder = None, pf_Span = s, pf_Msg = []\<rparr>]\<rparr>"
      "h' = HPrefilled (length (rc_prefilleds r))"
      using assms(1) by (auto simp: Span_NoPrefill_def)
    have "s < length (rc_spanStore r)" using h 3 by auto
    with prefilled_add_ok [OF ok, of "\<lparr>pf_builder = None, pf_Span = s, pf_Msg = []\<rparr>"] env show ?thesis unfolding r' by (auto intro!: handle_ok_mono [OF env])
  next
    case (4 s r0)
    then have r': "r' = r\<lparr>rc_prefillings := rc_prefillings r @ [emptyBuilder s]\<rparr>"
      "h' = HPrefilling (length (rc_prefillings r))"
      using assms(1) by (auto simp: Span_StartPrefill_def)
    have "s < length (rc_spanStore r)" using h 4 by auto
    from prefilling_add_ok [OF ok this] env show ?thesis unfolding r' by (auto intro!: handle_ok_mono [OF env])
  next
    case (5 m p r0)
    then have r': "r' = r\<lparr>rc_prefilleds := rc_prefilleds r @
        [\<lparr>pf_builder = Some p, pf_Span = bl_Span (rc_prefillings r ! p), pf_Msg = m\<rparr>]\<rparr>"
      "h' = HPrefilled (length (rc_prefilleds r))"
      using assms(1) by (auto simp: PrefillComplete_def)
    have p: "p < length (rc_prefillings r)" using h 5 by auto
    then have "bl_Span (rc_prefillings r ! p) < length (rc_spanStore r)"
      using rec_okD(4) [OF ok] nth_mem by (fastforce simp: builders_ok_def)
    with p prefilled_add_ok [OF ok, of "\<lparr>pf_builder = Some p, pf_Span = bl_Span (rc_prefillings r ! p), pf_Msg = m\<rparr>"] env show ?thesis unfolding r' by (auto intro!: handle_ok_mono [OF env])
  next
    case (6 level t frames p r0)
    then obtain l where l: "Prefilled_Line level t frames p r = (l, r')" "h' = HLine l"
      using assms(1) by (auto split: prod.splits)
    have "p < length (rc_prefilleds r)" using h 6 by auto
    from Prefilled_Line_ok [OF ok this l(1)] env l(2) show ?thesis by (auto intro!: handle_ok_mono [OF env])
  qed (use assms(1) in auto)
  then show ?thesis by (auto simp: rec_inv_def)
qed

lemma recorder_do_inv:
  assumes "recorder_do ms sprint y k r = Some r'" "rec_inv ms sprint r env" "k \<in> set env"
  shows "rec_inv ms sprint r' env"
proof -
  have ok: "rec_ok ms sprint r" and env: "\<And>k. k \<in> set env \<Longrightarrow> handle_ok r k"
    and h: "handle_ok r k"
    using assms(2,3) by (auto simp: rec_inv_def)
  have "rec_ok ms sprint r' \<and> (\<forall>k \<in> set env. handle_ok r' k)"
  proof (cases "(ms, sprint, y, k, r)" rule: recorder_do.cases)
    case (1 ms0 sprint0 s r0)
    then have s: "s < length (rc_spanStore r)" "sp_IsRequest (rc_spanStore r ! s)" "r' = Span_Flush s r"
      using assms(1) h by (auto split: if_splits)
    from Span_Flush_ok [OF ok s(1,2)] env show ?thesis unfolding s(3)
      by (auto intro!: handle_ok_mono [OF env] simp: Span_Flush_def)
  next
    case (2 ms0 sprint0 s r0)
    with assms(1) ok env show ?thesis by (auto split: if_splits)
  next
    case (3 ms0 sprint0 t final s r0)
    then have s: "s < length (rc_spanStore r)" "r' = Span_Done t final s r" using assms(1) h by auto
    from Span_Done_ok [OF ok s(1)] env show ?thesis unfolding s(2)
      by (auto intro!: handle_ok_mono [OF env] simp: Span_Done_def Let_def split: prod.splits)
  next
    case (4 ms0 sprint0 b s r0)
    with assms(1) ok env show ?thesis by auto
  next
    case (5 ms0 sprint0 a v s r0)
    then have s: "s < length (rc_spanStore r)" "Span_Metadata ms a v s r = Some r'" using assms(1) h by auto
    from Span_Metadata_ok [OF ok s] env s(2) show ?thesis
      by (auto intro!: handle_ok_mono [OF env] simp: Span_Metadata_def split: option.splits)
  next
    case (6 ms0 sprint0 c p r0)
    then have r': "p < length (rc_prefillings r)"
      "r' = r\<lparr>rc_prefillings := (rc_prefillings r)[p := build c (rc_prefillings r ! p)]\<rparr>"
      using assms(1) h by auto
    from prefilling_build_ok [OF ok r'(1)] env show ?thesis unfolding r'(2) by (auto intro!: handle_ok_mono [OF env])
  next
    case (7 ms0 sprint0 c l r0)
    then obtain line where l: "l < length (rc_lineStore r)" "rc_lineStore r ! l = Some line"
      "r' = r\<lparr>rc_lineStore := (rc_lineStore r)[l := Some (build c line)]\<rparr>"
      using assms(1) h by (auto split: option.splits)
    from line_build_ok [OF ok l(1,2)] env show ?thesis unfolding l(3) by (auto intro!: handle_ok_mono [OF env])
  next
    case (8 ms0 sprint0 e l r0)
    then have l: "l < length (rc_lineStore r)" "Line_end sprint e l r = Some r'" using assms(1) h by auto
    from Line_end_ok [OF ok l] env show ?thesis by (auto intro!: handle_ok_mono [OF env])
  qed (use assms(1) in auto)
  then show ?thesis by (auto simp: rec_inv_def)
qed

interpretation recorder: base_invariant "recorder_base ident ms sprint" "rec_inv ms sprint"
  by unfold_locales (auto simp: recorder_base_def intro: recorder_new_inv recorder_do_inv)

lemma rec_inv_New: "rec_inv ms sprint (Recorder_New c) []"
  by (simp add: rec_inv_def rec_ok_def Recorder_New_def statics_def statics_ok_def evs_ok_def starts_def
      metas_ok_def builders_ok_def)

definition zeroSourceInfo :: SourceInfo where
  "zeroSourceInfo = \<lparr>si_Source = [], si_SourceVersion = [], si_Namespace = [], si_NamespaceVersion = []\<rparr>"

text \<open>
  C9. Whatever a client does with a new recorder through the interface of base loggers, the
  recorder stays well-formed: every span has a start event and a parent that started before it,
  an event names a span that has started, of its own kind; every recorded line is complete (an
  expanded template, at most one of link and model, each of its values with a type and, for an
  enumeration, the attribute); and the metadata of each span is what its metadata events, replayed
  into an empty store, give.
\<close>

theorem recorder_well_formed:
  assumes "exec (recorder_base ident ms sprint) cs (Recorder_New c, []) = Some (r, env)"
  shows "rec_ok ms sprint r"
  using recorder.exec_inv [OF assms rec_inv_New] by (simp add: rec_inv_def)

definition demo_script :: "int cmd list" where
  "demo_script = [New (NRequest 5 NewBundle ''req'' zeroSourceInfo) None, New (NSpan 6 NewBundle ''child'' ''.A'') (Some 0),
     New NNoPrefill (Some 1), New (NLine 9 7 []) (Some 2), Do (ABuild (BString ''k'' ''v'' 9)) 3,
     Do (AEnd (LTemplate ''{k}'')) 3, Do (AMetadata zeroAttribute (MInt64 4)) 1, Do (ADone 8 True) 0]"

theorem recorder_well_formed_witness:
  "\<exists>r env. exec (recorder_base ''x'' int_marshallers (\<lambda>_. ''value'')) demo_script (Recorder_New (NewRequestCounter), []) = Some (r, env) \<and>
     length env = 4 \<and> length (rc_Events r) = 5 \<and> rec_ok int_marshallers (\<lambda>_. ''value'') r"
proof -
  have "case exec (recorder_base ''x'' int_marshallers (\<lambda>_. ''value'')) demo_script (Recorder_New NewRequestCounter, []) of
      None \<Rightarrow> False | Some (r, env) \<Rightarrow> length env = 4 \<and> length (rc_Events r) = 5"
    by code_simp
  with recorder_well_formed show ?thesis by (auto split: option.splits)
qed

end
