(* ===== verification/RecorderReplay.thy ===== *)
theory RecorderReplay
  imports RecorderInv
begin

section \<open>Replay of a recorder\<close>

text \<open>
  Models \<open>xoprecorder/replay.go\<close>: a recorder's events are replayed, in order, as calls on any
  other base logger. The theorems replay into a second recorder and compare what both hold.
  \<open>ord\<close> is the order in which the runtime walks over the map of a line's data. Errors that the
  destination reports on its own, through the error reporter, are not modelled. \<^term>\<open>None\<close> is
  a panic.
\<close>

subsection \<open>The code\<close>

datatype replay_error =
  NoRequestStart Trace | NoSpanStart Trace | FlushUnknown Trace | MissingSpanForLine Trace
| MissingSpanForMetadata Trace | MissingEnumValue string | UnknownAttributeType int

text \<open>One iteration of \<open>ReplayLineData\<close>: the call for the key \<open>k\<close> with the value \<open>v\<close>.\<close>

definition replay_build :: "('m dataval \<Rightarrow> string) \<Rightarrow> 'm Line \<Rightarrow> string \<Rightarrow> 'm dataval \<Rightarrow> 'm build_call option" where
  "replay_build unexpected source k v =
     (let dt = (case map_of (bl_DataType source) k of Some t \<Rightarrow> t | None \<Rightarrow> 0) in
      if dt = 11 then (case v of DAny m \<Rightarrow> Some (BAny k m) | _ \<Rightarrow> None)
      else if dt = 1 then (case v of DBool x \<Rightarrow> Some (BBool k x) | _ \<Rightarrow> None)
      else if dt = 13 then (case v of DDuration x \<Rightarrow> Some (BDuration k x) | _ \<Rightarrow> None)
      else if dt = 12 then (case v of DTime x rep \<Rightarrow> Some (BTime k x rep) | _ \<Rightarrow> None)
      else if dt \<in> {2, 3} then (case v of DFloat64 x \<Rightarrow> Some (BFloat64 k x dt) | _ \<Rightarrow> None)
      else if dt \<in> {9, 106, 107} then (case v of DString x \<Rightarrow> Some (BString k x dt) | _ \<Rightarrow> None)
      else if dt \<in> {4, 5, 6, 7, 8} then (case v of DInt64 x \<Rightarrow> Some (BInt64 k x dt) | _ \<Rightarrow> None)
      else if dt \<in> {100, 101, 102, 103, 104, 105} then (case v of DUint64 x \<Rightarrow> Some (BUint64 k x dt) | _ \<Rightarrow> None)
      else if dt = 14 then
        (case (v, map_of (bl_Enums source) k) of (DEnum x, Some a) \<Rightarrow> Some (BEnum a x) | _ \<Rightarrow> None)
      else Some (BString k (unexpected v) 107))"

fun ReplayLineData ::
    "('m dataval \<Rightarrow> string) \<Rightarrow> ('h, 'w, 'm) base \<Rightarrow> 'm Line \<Rightarrow> (string \<times> 'm dataval) list \<Rightarrow> 'h \<Rightarrow> 'w \<Rightarrow> 'w option" where
  "ReplayLineData unexpected dest source [] line w = Some w"
| "ReplayLineData unexpected dest source ((k, v) # kvs) line w =
     (case replay_build unexpected source k v of
        None \<Rightarrow> None
      | Some c \<Rightarrow>
          (case b_do dest (ABuild c) line w of
             None \<Rightarrow> None
           | Some w \<Rightarrow> ReplayLineData unexpected dest source kvs line w))"

record ('h, 'w) replaying =
  rp_dest :: 'w
  rp_requests :: "(HexBytes \<times> 'h) list"
  rp_spans :: "(HexBytes \<times> 'h) list"

type_synonym ('h, 'w) replayed = "(('h, 'w) replaying \<times> replay_error option) option"

definition span_id :: "'m Recorder \<Rightarrow> nat \<Rightarrow> HexBytes" where
  "span_id r s = Trace_Get SpanIDField (bu_Trace (sp_Bundle (rc_spanStore r ! s)))"

definition replay_do :: "('h, 'w, 'm) base \<Rightarrow> 'm action \<Rightarrow> 'h \<Rightarrow> ('h, 'w) replaying \<Rightarrow> ('h, 'w) replayed" where
  "replay_do dest a h st =
     (case b_do dest a h (rp_dest st) of None \<Rightarrow> None | Some w \<Rightarrow> Some (st\<lparr>rp_dest := w\<rparr>, None))"

definition line_ending :: "'m Line \<Rightarrow> 'm line_end" where
  "line_ending l =
     (if ln_Tmpl l \<noteq> [] then LTemplate (ln_Tmpl l)
      else case ln_AsLink l of
        Some t \<Rightarrow> LLink (ln_Message l) t
      | None \<Rightarrow> (case ln_AsModel l of Some m \<Rightarrow> LModel (ln_Message l) m | None \<Rightarrow> LMsg (ln_Message l)))"

definition replay_line ::
    "('m dataval \<Rightarrow> string) \<Rightarrow> ((string \<times> 'm dataval) list \<Rightarrow> (string \<times> 'm dataval) list) \<Rightarrow>
     ('h, 'w, 'm) base \<Rightarrow> 'm Line \<Rightarrow> 'h \<Rightarrow> 'w \<Rightarrow> 'w option" where
  "replay_line unexpected ord dest l span w =
     (case b_new dest NNoPrefill (Some span) w of
        None \<Rightarrow> None
      | Some (p, w) \<Rightarrow>
          (case b_new dest (NLine (ln_Level l) (ln_Timestamp l) (ln_Stack l)) (Some p) w of
             None \<Rightarrow> None
           | Some (line, w) \<Rightarrow>
               (case ReplayLineData unexpected dest l (ord (bl_Data l)) line w of
                  None \<Rightarrow> None
                | Some w \<Rightarrow> b_do dest (AEnd (line_ending l)) line w)))"

text \<open>
  The assertions \<open>event.Attribute.(*T)\<close> hold when the attribute has the type of the method
  that recorded it, which the value tells.
\<close>

definition replay_metadata ::
    "('h, 'w, 'm) base \<Rightarrow> Attribute \<Rightarrow> 'm metavalue \<Rightarrow> 'h \<Rightarrow> ('h, 'w) replaying \<Rightarrow> ('h, 'w) replayed" where
  "replay_metadata dest k v span st =
     (let t = SpanAttributeType (at_subType k) in
      if t \<notin> {11, 1, 14, 2, 4, 10, 9, 12} then Some (st, Some (UnknownAttributeType (at_subType k)))
      else if t = metavalue_type v False then replay_do dest (AMetadata k v) span st
      else if t = 14 then Some (st, Some (MissingEnumValue (at_key k)))
      else None)"

fun replay_event ::
    "('m dataval \<Rightarrow> string) \<Rightarrow> ((string \<times> 'm dataval) list \<Rightarrow> (string \<times> 'm dataval) list) \<Rightarrow>
     ('h, 'w, 'm) base \<Rightarrow> 'm Recorder \<Rightarrow> 'm Event \<Rightarrow> ('h, 'w) replaying \<Rightarrow> ('h, 'w) replayed" where
  "replay_event unexpected ord dest r (EvCustom m) st = Some (st, None)"
| "replay_event unexpected ord dest r (EvRequestStart s) st =
     (let x = rc_spanStore r ! s in
      case sp_SourceInfo x of
        None \<Rightarrow> None
      | Some si \<Rightarrow>
          (case b_new dest (NRequest (sp_StartTime x) (sp_Bundle x) (sp_Name x) si) None (rp_dest st) of
             None \<Rightarrow> None
           | Some (h, w) \<Rightarrow>
               (case b_do dest ASetErrorReporter h w of
                  None \<Rightarrow> None
                | Some w \<Rightarrow> Some (\<lparr>rp_dest = w, rp_requests = aput (span_id r s) h (rp_requests st),
                    rp_spans = aput (span_id r s) h (rp_spans st)\<rparr>, None))))"
| "replay_event unexpected ord dest r (EvRequestDone s final) st =
     (case map_of (rp_requests st) (span_id r s) of
        Some h \<Rightarrow> replay_do dest (ADone (sp_EndTime (rc_spanStore r ! s)) final) h st
      | None \<Rightarrow> Some (st, Some (NoRequestStart (bu_Trace (sp_Bundle (rc_spanStore r ! s))))))"
| "replay_event unexpected ord dest r (EvSpanDone s final) st =
     (case map_of (rp_spans st) (span_id r s) of
        Some h \<Rightarrow> replay_do dest (ADone (sp_EndTime (rc_spanStore r ! s)) final) h st
      | None \<Rightarrow> Some (st, Some (NoSpanStart (bu_Trace (sp_Bundle (rc_spanStore r ! s))))))"
| "replay_event unexpected ord dest r (EvFlush s) st =
     (case map_of (rp_requests st) (span_id r s) of
        Some h \<Rightarrow> replay_do dest AFlush h st
      | None \<Rightarrow> Some (st, Some (FlushUnknown (bu_Trace (sp_Bundle (rc_spanStore r ! s))))))"
| "replay_event unexpected ord dest r (EvSpanStart s) st =
     (let x = rc_spanStore r ! s in
      case map_of (rp_spans st) (span_id r (sp_Parent x)) of
        None \<Rightarrow> Some (st, None)
      | Some parent \<Rightarrow>
          (case b_new dest (NSpan (sp_StartTime x) (sp_Bundle x) (sp_Name x) (sp_SpanSequenceCode x))
                  (Some parent) (rp_dest st) of
             None \<Rightarrow> None
           | Some (h, w) \<Rightarrow> Some (st\<lparr>rp_dest := w, rp_spans := aput (span_id r s) h (rp_spans st)\<rparr>, None)))"
| "replay_event unexpected ord dest r (EvLine l) st =
     (case map_of (rp_spans st) (span_id r (bl_Span l)) of
        None \<Rightarrow> Some (st, Some (MissingSpanForLine (bu_Trace (sp_Bundle (rc_spanStore r ! bl_Span l)))))
      | Some span \<Rightarrow>
          (case replay_line unexpected ord dest l span (rp_dest st) of
             None \<Rightarrow> None
           | Some w \<Rightarrow> Some (st\<lparr>rp_dest := w\<rparr>, None)))"
| "replay_event unexpected ord dest r (EvMetadata s k v) st =
     (case map_of (rp_spans st) (span_id r s) of
        None \<Rightarrow> Some (st, Some (MissingSpanForMetadata (bu_Trace (sp_Bundle (rc_spanStore r ! s)))))
      | Some span \<Rightarrow> replay_metadata dest k v span st)"

fun replay_events ::
    "('m dataval \<Rightarrow> string) \<Rightarrow> ((string \<times> 'm dataval) list \<Rightarrow> (string \<times> 'm dataval) list) \<Rightarrow>
     ('h, 'w, 'm) base \<Rightarrow> 'm Recorder \<Rightarrow> 'm Event list \<Rightarrow> ('h, 'w) replaying \<Rightarrow> ('h, 'w) replayed" where
  "replay_events unexpected ord dest r [] st = Some (st, None)"
| "replay_events unexpected ord dest r (e # es) st =
     (case replay_event unexpected ord dest r e st of
        Some (st, None) \<Rightarrow> replay_events unexpected ord dest r es st
      | stopped \<Rightarrow> stopped)"

definition Recorder_Replay ::
    "('m dataval \<Rightarrow> string) \<Rightarrow> ((string \<times> 'm dataval) list \<Rightarrow> (string \<times> 'm dataval) list) \<Rightarrow>
     ('h, 'w, 'm) base \<Rightarrow> 'm Recorder \<Rightarrow> 'w \<Rightarrow> ('h, 'w) replayed" where
  "Recorder_Replay unexpected ord dest r w =
     replay_events unexpected ord dest r (rc_Events r) \<lparr>rp_dest = w, rp_requests = [], rp_spans = []\<rparr>"

subsection \<open>What two recorders have in common\<close>

text \<open>The data of a line, whatever the order in which its keys were set.\<close>

definition line_data :: "('m, 'z) Builder_scheme \<Rightarrow> string \<Rightarrow> ('m dataval \<times> int option \<times> Attribute option) option" where
  "line_data l k = map_option (\<lambda>v. (v, map_of (bl_DataType l) k,
     if map_of (bl_DataType l) k = Some 14 then map_of (bl_Enums l) k else None)) (map_of (bl_Data l) k)"

definition line_text :: "'m Line \<Rightarrow> nat \<times> int \<times> time \<times> frame list \<times> string \<times> string \<times> Trace option \<times> 'm ModelArg option" where
  "line_text l = (bl_Span l, ln_Level l, ln_Timestamp l, ln_Stack l, ln_Message l, ln_Tmpl l, ln_AsLink l, ln_AsModel l)"

fun same_event :: "'m Event \<Rightarrow> 'm Event \<Rightarrow> bool" where
  "same_event (EvLine l) (EvLine l') \<longleftrightarrow> line_data l = line_data l' \<and> line_text l = line_text l'"
| "same_event e e' \<longleftrightarrow> e = e'"

fun not_custom :: "'m Event \<Rightarrow> bool" where
  "not_custom (EvCustom m) = False"
| "not_custom e = True"

text \<open>A value has the type it was logged with.\<close>

fun dataval_typed :: "'m dataval \<Rightarrow> int \<Rightarrow> bool" where
  "dataval_typed (DAny m) dt = (dt = 11)"
| "dataval_typed (DBool b) dt = (dt = 1)"
| "dataval_typed (DDuration d) dt = (dt = 13)"
| "dataval_typed (DTime t rep) dt = (dt = 12)"
| "dataval_typed (DFloat64 x) dt = (dt \<in> {2, 3})"
| "dataval_typed (DString x) dt = (dt \<in> {9, 106, 107})"
| "dataval_typed (DInt64 x) dt = (dt \<in> {4, 5, 6, 7, 8})"
| "dataval_typed (DUint64 x) dt = (dt \<in> {100, 101, 102, 103, 104, 105})"
| "dataval_typed (DEnum x) dt = (dt = 14)"

fun event_typed :: "'m Event \<Rightarrow> bool" where
  "event_typed (EvLine l) = list_all (\<lambda>(k, v). case map_of (bl_DataType l) k of
     Some dt \<Rightarrow> dataval_typed v dt | None \<Rightarrow> False) (bl_Data l)"
| "event_typed (EvMetadata s k v) = (SpanAttributeType (at_subType k) = metavalue_type v False)"
| "event_typed _ = True"

subsection \<open>What each call does to the destination\<close>

definition metas :: "'m Recorder \<Rightarrow> 'm SpanMetadata list" where
  "metas r = map sp_SpanMetadata (rc_spanStore r)"

definition static_request :: "Bundle \<Rightarrow> nat \<Rightarrow> time \<Rightarrow> string \<Rightarrow> SourceInfo \<Rightarrow> static" where
  "static_request b n ts nm si = \<lparr>st_Bundle = b, st_IsRequest = True, st_Parent = n, st_StartTime = ts,
     st_Name = nm, st_Code = [], st_SourceInfo = Some si\<rparr>"

definition static_span :: "Bundle \<Rightarrow> nat \<Rightarrow> time \<Rightarrow> string \<Rightarrow> string \<Rightarrow> static" where
  "static_span b n ts nm code = \<lparr>st_Bundle = b, st_IsRequest = False, st_Parent = n, st_StartTime = ts,
     st_Name = nm, st_Code = code, st_SourceInfo = None\<rparr>"

lemma request_effect:
  "\<exists>w'. recorder_new (NRequest ts b nm si) None w = Some (HSpan (length (rc_spanStore w)), w') \<and>
     statics w' = statics w @ [static_request b (length (rc_spanStore w)) ts nm si] \<and>
     metas w' = metas w @ [[]] \<and> rc_Events w' = rc_Events w @ [EvRequestStart (length (rc_spanStore w))]"
  by (simp add: Recorder_Request_def Let_def add_event_def statics_def static_of_def metas_def
      static_request_def split: prod.split)

lemma metas_upd_span:
  "s < length (rc_spanStore r) \<Longrightarrow> metas (upd_span s g r) = (metas r)[s := sp_SpanMetadata (g (rc_spanStore r ! s))]"
  by (simp add: metas_def upd_span_def map_update)

lemma metas_add_event [simp]: "metas (add_event e r) = metas r"
  by (simp add: metas_def)

lemma metas_nth: "s < length (rc_spanStore r) \<Longrightarrow> metas r ! s = sp_SpanMetadata (rc_spanStore r ! s)"
  by (simp add: metas_def)

lemma span_effect:
  assumes "s < length (rc_spanStore w)"
  shows "\<exists>w'. recorder_new (NSpan ts b nm code) (Some (HSpan s)) w = Some (HSpan (length (rc_spanStore w)), w') \<and>
     statics w' = statics w @ [static_span b s ts nm code] \<and>
     metas w' = metas w @ [[]] \<and> rc_Events w' = rc_Events w @ [EvSpanStart (length (rc_spanStore w))]"
proof -
  let ?g = "\<lambda>x :: 'a RSpan. x\<lparr>sp_Spans := sp_Spans x @ [length (rc_spanStore w)]\<rparr>"
  have "statics (upd_span s ?g w) = statics w" "metas (upd_span s ?g w) = metas w"
    using assms by (simp_all add: statics_upd_span static_of_def metas_upd_span metas_nth [symmetric])
  then show ?thesis
    by (simp add: Span_Span_def Let_def add_event_def static_span_def)
      (simp add: statics_def metas_def static_of_def)
qed

lemma done_effect:
  assumes "s < length (rc_spanStore w)"
  shows "\<exists>w'. recorder_do ms sprint (ADone t final) (HSpan s) w = Some w' \<and> statics w' = statics w \<and>
     metas w' = metas w \<and> rc_Events w' = rc_Events w @
       [if st_IsRequest (statics w ! s) then EvRequestDone s final else EvSpanDone s final]"
proof -
  have g: "statics (upd_span s g w) = statics w \<and> metas (upd_span s g w) = metas w"
    if "\<And>x. static_of (g x) = static_of x \<and> sp_SpanMetadata (g x) = sp_SpanMetadata x" for g
    using assms that by (simp add: statics_upd_span metas_upd_span metas_nth [symmetric])
  obtain prov en where d: "Span_Done t final s w = add_event
      (if sp_IsRequest (rc_spanStore w ! s) then EvRequestDone s final else EvSpanDone s final)
      (upd_span s (\<lambda>x. x\<lparr>sp_provisionalEndTime := prov, sp_EndTime := en\<rparr>) w)"
    by (simp add: Span_Done_def Let_def split: prod.split)
  have "statics (upd_span s (\<lambda>x. x\<lparr>sp_provisionalEndTime := prov, sp_EndTime := en\<rparr>) w) = statics w \<and>
      metas (upd_span s (\<lambda>x. x\<lparr>sp_provisionalEndTime := prov, sp_EndTime := en\<rparr>) w) = metas w"
    by (rule g) (simp add: static_of_def)
  moreover have "st_IsRequest (statics w ! s) = sp_IsRequest (rc_spanStore w ! s)"
    using assms by (simp add: nth_statics static_of_def)
  ultimately show ?thesis by (simp add: d)
qed

lemma flush_effect:
  assumes "s < length (rc_spanStore w)" "st_IsRequest (statics w ! s)"
  shows "\<exists>w'. recorder_do ms sprint AFlush (HSpan s) w = Some w' \<and> statics w' = statics w \<and>
     metas w' = metas w \<and> rc_Events w' = rc_Events w @ [EvFlush s]"
  using assms by (simp add: Span_Flush_def nth_statics) (simp add: static_of_def)

lemma metadata_effect:
  assumes "s < length (rc_spanStore w)" "Metadata_call ms (k, v) (metas w ! s) = Some m"
  shows "\<exists>w'. recorder_do ms sprint (AMetadata k v) (HSpan s) w = Some w' \<and> statics w' = statics w \<and>
     metas w' = (metas w)[s := m] \<and> rc_Events w' = rc_Events w @ [EvMetadata s k v]"
proof -
  let ?w = "upd_span s (\<lambda>x. x\<lparr>sp_SpanMetadata := m\<rparr>) w"
  have "recorder_do ms sprint (AMetadata k v) (HSpan s) w = Some (add_event (EvMetadata s k v) ?w)"
    using assms by (simp add: Span_Metadata_def metas_nth del: Metadata_call.simps)
  moreover have "statics ?w = statics w" "metas ?w = (metas w)[s := m]"
    using assms(1) by (simp_all add: statics_upd_span static_of_def metas_upd_span)
  ultimately show ?thesis by simp
qed

subsection \<open>Replay of a line\<close>

lemma replay_build_data:
  assumes "bl_ok src" "event_typed (EvLine src)" "(k, v) \<in> set (bl_Data src)"
  shows "\<exists>c. replay_build u src k v = Some c \<and>
     (\<forall>l. line_data (build c l) = (line_data (l :: 'm Line))(k := line_data src k))"
proof -
  have "distinct (map fst (bl_Data src))" using assms(1) by (simp add: bl_ok_def)
  with assms(3) have v: "map_of (bl_Data src) k = Some v" by simp
  obtain dt where dt: "map_of (bl_DataType src) k = Some dt" "dataval_typed v dt"
    using assms(2,3) by (fastforce simp: list_all_iff split: option.splits)
  show ?thesis
  proof (cases v)
    case (DEnum x)
    with assms(1) v have "map_of (bl_Enums src) k \<noteq> None" by (auto simp: bl_ok_def)
    then obtain a where a: "map_of (bl_Enums src) k = Some a" by auto
    with assms(1) have "at_key a = k" by (auto simp: bl_ok_def)
    with DEnum v dt a show ?thesis by (auto simp: replay_build_def line_data_def fun_eq_iff)
  qed (use v dt in \<open>auto simp: replay_build_def line_data_def build_any_def fun_eq_iff\<close>)
qed

definition replayed_line :: "('m dataval \<Rightarrow> string) \<Rightarrow> 'm Line \<Rightarrow> (string \<times> 'm dataval) list \<Rightarrow> 'm Line \<Rightarrow> 'm Line" where
  "replayed_line u src kvs = fold (\<lambda>(k, v). build (the (replay_build u src k v))) kvs"

lemma replayed_line_fields [simp]:
  "bl_Span (replayed_line u src kvs l) = bl_Span l" "ln_Tmpl (replayed_line u src kvs l) = ln_Tmpl l"
  "ln_AsLink (replayed_line u src kvs l) = ln_AsLink l" "ln_AsModel (replayed_line u src kvs l) = ln_AsModel l"
  "ln_Level (replayed_line u src kvs l) = ln_Level l" "ln_Timestamp (replayed_line u src kvs l) = ln_Timestamp l"
  "ln_Stack (replayed_line u src kvs l) = ln_Stack l" "ln_Message (replayed_line u src kvs l) = ln_Message l"
  by (induction kvs arbitrary: l) (auto simp: replayed_line_def)

lemma replayed_line_data:
  assumes "bl_ok src" "event_typed (EvLine src)" "set kvs \<subseteq> set (bl_Data src)"
  shows "line_data (replayed_line u src kvs l) k = (if k \<in> fst ` set kvs then line_data src k else line_data l k)"
  using assms(3)
proof (induction kvs arbitrary: l)
  case (Cons kv kvs)
  obtain k' v where kv: "kv = (k', v)" by (cases kv)
  with Cons.prems obtain c where c: "replay_build u src k' v = Some c"
    "line_data (build c l) = (line_data l)(k' := line_data src k')"
    using replay_build_data [OF assms(1,2), of k' v u] by auto
  from Cons.IH [of "build c l"] Cons.prems show ?case
    by (auto simp: replayed_line_def kv c)
qed (simp add: replayed_line_def)

lemma ReplayLineData_recorder:
  assumes "bl_ok src" "event_typed (EvLine src)" "set kvs \<subseteq> set (bl_Data src)"
    "rc_lineStore w = xs @ [Some l]"
  shows "ReplayLineData u (recorder_base ident ms sprint) src kvs (HLine (length xs)) w =
     Some (w\<lparr>rc_lineStore := xs @ [Some (replayed_line u src kvs l)]\<rparr>)"
  using assms(3,4)
proof (induction kvs arbitrary: w l)
  case (Cons kv kvs)
  obtain k v where kv: "kv = (k, v)" by (cases kv)
  with Cons.prems obtain c where c: "replay_build u src k v = Some c"
    using replay_build_data [OF assms(1,2), of k v u] by auto
  from Cons.IH [of "w\<lparr>rc_lineStore := xs @ [Some (build c l)]\<rparr>" "build c l"] Cons.prems
  show ?case by (simp add: kv c recorder_base_def replayed_line_def)
qed (simp add: replayed_line_def)

lemma line_data_text: "line_data l = line_data l' \<Longrightarrow> template_message sprint l t = template_message sprint l' t"
proof -
  have d: "map_of (bl_Data l) k = map_option fst (line_data l k)" for l :: "'a Line" and k
    by (cases "map_of (bl_Data l) k") (simp_all add: line_data_def)
  assume "line_data l = line_data l'"
  then show ?thesis unfolding template_message_def by (simp add: d)
qed

lemma line_data_ext [simp]:
  "line_data (l\<lparr>ln_Message := m\<rparr>) = line_data (l :: 'm Line)" "line_data (l\<lparr>ln_Tmpl := m\<rparr>) = line_data l"
  "line_data (l\<lparr>ln_AsLink := x\<rparr>) = line_data l" "line_data (l\<lparr>ln_AsModel := y\<rparr>) = line_data l"
  by (simp_all add: line_data_def fun_eq_iff)

text \<open>A line that has the data of \<open>src\<close> and no text yet, after the ending that \<open>Replay\<close> chooses.\<close>

lemma line_ending_same:
  assumes "line_sent sprint src" "line_data l = line_data src" "line_fresh l" "ln_Message l = []"
    "bl_Span l = bl_Span src" "ln_Level l = ln_Level src" "ln_Timestamp l = ln_Timestamp src" "ln_Stack l = ln_Stack src"
  obtains l' b where "line_finish sprint (line_ending src) l = (l', b)" "same_event (EvLine src) (EvLine l')"
proof -
  obtain l' b where fin: "line_finish sprint (line_ending src) l = (l', b)" by (cases "line_finish sprint (line_ending src) l")
  have "same_event (EvLine src) (EvLine l')"
  proof (cases "ln_Tmpl src = []")
    case True
    with assms fin show ?thesis
      by (cases "ln_AsLink src"; cases "ln_AsModel src")
        (auto simp: line_ending_def line_fresh_def line_sent_def line_text_def)
  next
    case False
    with fin assms(3,4) have l': "l' = l\<lparr>ln_Tmpl := ln_Tmpl src,
        ln_Message := template_message sprint (l\<lparr>ln_Tmpl := ln_Tmpl src\<rparr>) (ln_Tmpl src)\<rparr>"
      by (auto simp: line_ending_def Let_def)
    have "template_message sprint (l\<lparr>ln_Tmpl := ln_Tmpl src\<rparr>) (ln_Tmpl src) = ln_Message src"
      using False assms(1,2) line_data_text [of "l\<lparr>ln_Tmpl := ln_Tmpl src\<rparr>" src] by (simp add: line_sent_def)
    with False assms show ?thesis by (simp add: l' line_fresh_def line_sent_def line_text_def)
  qed
  with fin that show ?thesis by blast
qed

lemma line_effect:
  assumes s: "bl_Span src < length (rc_spanStore w)"
    and src: "bl_ok src" "event_typed (EvLine src)" "line_sent sprint src"
    and ord: "set (ord (bl_Data src)) = set (bl_Data src)"
  shows "\<exists>w' l. replay_line u ord (recorder_base ident ms sprint) src (HSpan (bl_Span src)) w = Some w' \<and>
     statics w' = statics w \<and> metas w' = metas w \<and> rc_Events w' = rc_Events w @ [EvLine l] \<and>
     same_event (EvLine src) (EvLine l)"
proof -
  let ?g = "\<lambda>x :: 'a RSpan. x\<lparr>sp_provisionalEndTime := fst (AtomicMaxInt64 (sp_provisionalEndTime x) (ln_Timestamp src))\<rparr>"
  let ?new = "\<lparr>bl_Enums = [], bl_Data = [], bl_DataType = [], bl_Span = bl_Span src, ln_Level = ln_Level src,
    ln_Timestamp = ln_Timestamp src, ln_Message = [], ln_Tmpl = [], ln_AsLink = None, ln_AsModel = None,
    ln_Stack = ln_Stack src\<rparr> :: 'a Line"
  let ?w1 = "upd_span (bl_Span src) ?g
    (w\<lparr>rc_prefilleds := rc_prefilleds w @ [\<lparr>pf_builder = None, pf_Span = bl_Span src, pf_Msg = []\<rparr>]\<rparr>)"
  let ?w2 = "?w1\<lparr>rc_lineStore := rc_lineStore w @ [Some ?new]\<rparr>"
  let ?l = "replayed_line u src (ord (bl_Data src)) ?new"
  have data: "line_data ?l = line_data src"
  proof
    fix k
    have l: "line_data ?l k = (if k \<in> fst ` set (bl_Data src) then line_data src k else line_data ?new k)"
      using replayed_line_data [OF src(1,2), of "ord (bl_Data src)" u ?new k] unfolding ord by blast
    show "line_data ?l k = line_data src k"
    proof (cases "k \<in> fst ` set (bl_Data src)")
      case False
      then have "line_data src k = None" by (simp add: line_data_def map_of_eq_None_iff)
      moreover have "line_data ?new k = None" by (simp add: line_data_def)
      ultimately show ?thesis using l by simp
    qed (use l in simp)
  qed
  obtain l b where fin: "line_finish sprint (line_ending src) ?l = (l, b)" "same_event (EvLine src) (EvLine l)"
    by (rule line_ending_same [OF src(3) data]) (simp_all add: line_fresh_def)
  have span: "bl_Span l = bl_Span src" using fin(2) by (simp add: line_text_def)
  let ?w3 = "?w1\<lparr>rc_lineStore := (rc_lineStore w @ [Some ?l])[length (rc_lineStore w) := None]\<rparr>"
  have "replay_line u ord (recorder_base ident ms sprint) src (HSpan (bl_Span src)) w = Some (Line_send b l ?w3)"
  proof -
    have d: "ReplayLineData u (recorder_base ident ms sprint) src (ord (bl_Data src)) (HLine (length (rc_lineStore w))) ?w2 =
        Some (?w2\<lparr>rc_lineStore := rc_lineStore w @ [Some ?l]\<rparr>)"
      by (rule ReplayLineData_recorder [OF src(1,2)]) (use ord in simp_all)
    have n: "b_new (recorder_base ident ms sprint) NNoPrefill (Some (HSpan (bl_Span src))) w = Some (HPrefilled (length (rc_prefilleds w)),
        w\<lparr>rc_prefilleds := rc_prefilleds w @ [\<lparr>pf_builder = None, pf_Span = bl_Span src, pf_Msg = []\<rparr>]\<rparr>)"
      by (simp add: recorder_base_def Span_NoPrefill_def)
    have l: "b_new (recorder_base ident ms sprint) (NLine (ln_Level src) (ln_Timestamp src) (ln_Stack src))
        (Some (HPrefilled (length (rc_prefilleds w))))
        (w\<lparr>rc_prefilleds := rc_prefilleds w @ [\<lparr>pf_builder = None, pf_Span = bl_Span src, pf_Msg = []\<rparr>]\<rparr>) =
        Some (HLine (length (rc_lineStore w)), ?w2)"
      by (simp add: recorder_base_def Prefilled_Line_def Let_def)
    have e: "b_do (recorder_base ident ms sprint) (AEnd (line_ending src)) (HLine (length (rc_lineStore w)))
        (?w2\<lparr>rc_lineStore := rc_lineStore w @ [Some ?l]\<rparr>) = Some (Line_send b l ?w3)"
      by (simp add: recorder_base_def Line_end_def fin(1))
    show ?thesis by (simp only: replay_line_def n l d e option.case prod.case)
  qed
  moreover have "statics (Line_send b l ?w3) = statics w" "metas (Line_send b l ?w3) = metas w"
    using s by (simp_all add: Line_send_def Let_def span upd_span_def add_event_def statics_def metas_def
        map_update static_of_def nth_list_update list_update_same_conv)
  ultimately show ?thesis using fin(2) by (auto simp: Line_send_def Let_def)
qed

end
