(* ===== verification/ReplayCorrect.thy ===== *)
theory ReplayCorrect
  imports RecorderReplay
begin

section \<open>A replayed recorder is the same recorder\<close>

text \<open>
  A recorder is replayed into a second one. The destination holds the same spans, the same
  events and the same metadata, when no two spans have the same id.
\<close>

subsection \<open>Replay event by event\<close>

definition replayable :: "'m marshallers \<Rightarrow> ('m dataval \<Rightarrow> string) \<Rightarrow> 'm Recorder \<Rightarrow> bool" where
  "replayable ms sprint r \<longleftrightarrow> rec_ok ms sprint r \<and> distinct (map (span_id r) [0..<length (rc_spanStore r)]) \<and>
     list_all event_typed (rc_Events r)"

text \<open>The destination after the first \<open>i\<close> events of \<open>r\<close>.\<close>

definition replay_rel :: "'m marshallers \<Rightarrow> 'm Recorder \<Rightarrow> nat \<Rightarrow> (rhandle, 'm Recorder) replaying \<Rightarrow> bool" where
  "replay_rel ms r i st \<longleftrightarrow>
     (let es = take i (rc_Events r); n = starts es; w = rp_dest st in
      statics w = take n (statics r) \<and> length (metas w) = n \<and>
      list_all2 same_event (filter not_custom es) (rc_Events w) \<and>
      (\<forall>s < n. map_of (rp_spans st) (span_id r s) = Some (HSpan s) \<and>
        (st_IsRequest (statics r ! s) \<longrightarrow> map_of (rp_requests st) (span_id r s) = Some (HSpan s)) \<and>
        Metadata_calls ms (meta_of s es) [] = Some (metas w ! s)))"

lemma metas_length [simp]: "length (metas w) = length (rc_spanStore w)"
  by (simp add: metas_def)

lemma replay_rel_event:
  assumes rel: "replay_rel ms r i st" and i: "i < length (rc_Events r)"
    and e: "\<not> is_start (rc_Events r ! i)" "same_event (rc_Events r ! i) e'" "not_custom (rc_Events r ! i)"
    and w': "statics w' = statics (rp_dest st)" "rc_Events w' = rc_Events (rp_dest st) @ [e']"
    and m: "length (metas w') = length (metas (rp_dest st))"
      "\<And>s. s < length (metas w') \<Longrightarrow> Metadata_calls ms (meta_event s (rc_Events r ! i)) (metas (rp_dest st) ! s) = Some (metas w' ! s)"
  shows "replay_rel ms r (Suc i) (st\<lparr>rp_dest := w'\<rparr>)"
  using rel e m w' i
  by (auto simp: replay_rel_def Let_def take_Suc_conv_app_nth Metadata_calls_append list_all2_appendI)

lemma replay_rel_start:
  assumes rel: "replay_rel ms r i st" and i: "i < length (rc_Events r)"
    and e: "is_start (rc_Events r ! i)" and n: "n = length (rc_spanStore (rp_dest st))" "n < length (statics r)"
    and w': "statics w' = statics (rp_dest st) @ [statics r ! n]" "rc_Events w' = rc_Events (rp_dest st) @ [rc_Events r ! i]"
      "metas w' = metas (rp_dest st) @ [[]]"
    and d: "\<And>s. s < n \<Longrightarrow> span_id r s \<noteq> span_id r n"
    and unstarted: "meta_of n (take i (rc_Events r)) = []"
    and st': "rp_dest st' = w'" "rp_spans st' = aput (span_id r n) (HSpan n) (rp_spans st)"
      "rp_requests st' = (if st_IsRequest (statics r ! n) then aput (span_id r n) (HSpan n) (rp_requests st) else rp_requests st)"
  shows "replay_rel ms r (Suc i) st'"
proof -
  have m: "meta_event s (rc_Events r ! i) = []" for s using e by (cases "rc_Events r ! i") auto
  have nc: "not_custom (rc_Events r ! i)" "same_event (rc_Events r ! i) (rc_Events r ! i)"
    using e by (cases "rc_Events r ! i"; simp)+
  have "n = starts (take i (rc_Events r))" using rel n(1) by (simp add: replay_rel_def Let_def)
  moreover have "length (rc_spanStore w') = Suc n" using arg_cong [OF w'(3), of length] n(1) by simp
  ultimately show ?thesis using assms m nc
    by (auto simp: replay_rel_def Let_def take_Suc_conv_app_nth list_all2_appendI less_Suc_eq nth_append)
qed

text \<open>What an event and the destination before it have to do with each other.\<close>

lemma replay_relD:
  assumes "replay_rel ms r i st" "replayable ms sprint r" "i < length (rc_Events r)"
  shows "length (rc_spanStore (rp_dest st)) = starts (take i (rc_Events r))"
    "statics (rp_dest st) = take (starts (take i (rc_Events r))) (statics r)"
    "ev_ok sprint (statics r) (starts (take i (rc_Events r))) (rc_Events r ! i)"
    "event_typed (rc_Events r ! i)"
    "\<And>s. s < starts (take i (rc_Events r)) \<Longrightarrow> map_of (rp_spans st) (span_id r s) = Some (HSpan s)"
    "\<And>s. s < starts (take i (rc_Events r)) \<Longrightarrow> st_IsRequest (statics r ! s) \<Longrightarrow>
       map_of (rp_requests st) (span_id r s) = Some (HSpan s)"
    "\<And>s. s < starts (take i (rc_Events r)) \<Longrightarrow>
       Metadata_calls ms (meta_of s (take i (rc_Events r))) [] = Some (metas (rp_dest st) ! s)"
    "starts (take i (rc_Events r)) \<le> length (statics r)"
  using assms starts_take_le [of i "rc_Events r"]
  by (auto simp: replay_rel_def Let_def replayable_def rec_ok_def evs_ok_def list_all_length)

lemma meta_of_take_unstarted:
  assumes "evs_ok sprint st es" "starts (take i es) \<le> s"
  shows "meta_of s (take i es) = []"
proof -
  have "meta_event s e = []" if "e \<in> set (take i es)" for e
  proof -
    obtain j where j: "j < length es" "j < i" "es ! j = e" using \<open>e \<in> set (take i es)\<close> by (auto simp: in_set_conv_nth)
    then have "ev_ok sprint st (starts (take j es)) e" using assms(1) by (auto simp: evs_ok_def)
    moreover have "starts (take j es) \<le> starts (take i es)"
      using starts_take_le [of j "take i es"] j(2) by (simp add: min_absorb1)
    ultimately show ?thesis using assms(2) by (cases e) auto
  qed
  then show ?thesis by (simp add: meta_of_def concat_eq_Nil_conv)
qed

lemma meta_of_append: "meta_of s (xs @ ys) = meta_of s xs @ meta_of s ys"
  by (simp add: meta_of_def)

lemma meta_of_single: "meta_of s [EvMetadata s k v] = [(k, v)]"
  by (simp add: meta_of_def)

lemma replayable_distinct:
  "replayable ms sprint r \<Longrightarrow> s < n \<Longrightarrow> n < length (rc_spanStore r) \<Longrightarrow> span_id r s \<noteq> span_id r n"
  by (auto simp: replayable_def distinct_conv_nth)

lemma static_request_ok:
  assumes "rec_ok ms sprint r" "n < length (rc_spanStore r)" "st_IsRequest (statics r ! n)"
  obtains si where "sp_SourceInfo (rc_spanStore r ! n) = Some si"
    "static_request (sp_Bundle (rc_spanStore r ! n)) n (sp_StartTime (rc_spanStore r ! n))
       (sp_Name (rc_spanStore r ! n)) si = statics r ! n"
proof -
  have st: "statics r ! n = static_of (rc_spanStore r ! n)" by (rule nth_statics [OF assms(2)])
  have ok: "static_ok n (statics r ! n)" using assms(1,2) by (simp add: rec_ok_def statics_ok_def)
  then obtain si where "sp_SourceInfo (rc_spanStore r ! n) = Some si"
    using assms(3) by (auto simp: static_ok_def st static_of_def)
  with ok assms(3) that show ?thesis by (auto simp: static_ok_def st static_of_def static_request_def)
qed

lemma static_span_ok:
  assumes "rec_ok ms sprint r" "n < length (rc_spanStore r)" "\<not> st_IsRequest (statics r ! n)"
  shows "sp_Parent (rc_spanStore r ! n) < n"
    "static_span (sp_Bundle (rc_spanStore r ! n)) (sp_Parent (rc_spanStore r ! n)) (sp_StartTime (rc_spanStore r ! n))
       (sp_Name (rc_spanStore r ! n)) (sp_SpanSequenceCode (rc_spanStore r ! n)) = statics r ! n"
proof -
  have st: "statics r ! n = static_of (rc_spanStore r ! n)" by (rule nth_statics [OF assms(2)])
  have ok: "static_ok n (statics r ! n)" using assms(1,2) by (simp add: rec_ok_def statics_ok_def)
  then show "sp_Parent (rc_spanStore r ! n) < n"
    "static_span (sp_Bundle (rc_spanStore r ! n)) (sp_Parent (rc_spanStore r ! n)) (sp_StartTime (rc_spanStore r ! n))
       (sp_Name (rc_spanStore r ! n)) (sp_SpanSequenceCode (rc_spanStore r ! n)) = statics r ! n"
    using assms(3) by (auto simp: static_ok_def st static_of_def static_span_def)
qed

lemma replay_step_request:
  assumes rel: "replay_rel ms r i st" and ok: "replayable ms sprint r" and i: "i < length (rc_Events r)"
    and e: "rc_Events r ! i = EvRequestStart s"
  shows "\<exists>st'. replay_event u ord (recorder_base ident ms sprint) r (rc_Events r ! i) st = Some (st', None) \<and>
    replay_rel ms r (Suc i) st'"
proof -
  note d = replay_relD [OF rel ok i]
  let ?n = "starts (take i (rc_Events r))"
  have s: "s = ?n" "?n < length (statics r)" "st_IsRequest (statics r ! ?n)" using d(3) by (auto simp: e)
  have rok: "rec_ok ms sprint r" using ok by (simp add: replayable_def)
  obtain si where si: "sp_SourceInfo (rc_spanStore r ! s) = Some si"
    "static_request (sp_Bundle (rc_spanStore r ! s)) s (sp_StartTime (rc_spanStore r ! s)) (sp_Name (rc_spanStore r ! s)) si = statics r ! s"
    by (rule static_request_ok [OF rok, of s]) (use s in auto)
  obtain w' where w': "recorder_new (NRequest (sp_StartTime (rc_spanStore r ! s)) (sp_Bundle (rc_spanStore r ! s))
      (sp_Name (rc_spanStore r ! s)) si) None (rp_dest st) = Some (HSpan s, w')"
    "statics w' = statics (rp_dest st) @ [statics r ! s]" "metas w' = metas (rp_dest st) @ [[]]"
    "rc_Events w' = rc_Events (rp_dest st) @ [EvRequestStart s]"
    using request_effect [of "sp_StartTime (rc_spanStore r ! s)" "sp_Bundle (rc_spanStore r ! s)" "sp_Name (rc_spanStore r ! s)"
        si "rp_dest st"] d(1) s(1) si(2) by auto
  have "length (rc_spanStore w') = Suc s" using arg_cong [OF w'(3), of length] d(1) s(1) by simp
  moreover have "statics w' ! s = statics r ! s" using w'(2) d(1) s(1) by (simp add: nth_append)
  ultimately have "static_of (rc_spanStore w' ! s) = statics r ! s" by (simp add: nth_statics)
  then have q: "sp_IsRequest (rc_spanStore w' ! s)" using s(1,3) by (metis static.select_convs(2) static_of_def)
  let ?st = "\<lparr>rp_dest = w', rp_requests = aput (span_id r s) (HSpan s) (rp_requests st),
    rp_spans = aput (span_id r s) (HSpan s) (rp_spans st)\<rparr>"
  have "meta_of s (take i (rc_Events r)) = []"
    by (rule meta_of_take_unstarted [OF rec_okD(2) [OF rok]]) (simp add: s(1))
  then have "replay_rel ms r (Suc i) ?st"
    by (intro replay_rel_start [OF rel i _ _ _ w'(2) _ w'(3)])
      (use s d(1) w'(4) replayable_distinct [OF ok] in \<open>auto simp: e\<close>)
  moreover have "replay_event u ord (recorder_base ident ms sprint) r (rc_Events r ! i) st = Some (?st, None)"
    using si(1) w'(1) q by (simp add: e recorder_base_def)
  ultimately show ?thesis by blast
qed

lemma replay_step_span:
  assumes rel: "replay_rel ms r i st" and ok: "replayable ms sprint r" and i: "i < length (rc_Events r)"
    and e: "rc_Events r ! i = EvSpanStart s"
  shows "\<exists>st'. replay_event u ord (recorder_base ident ms sprint) r (rc_Events r ! i) st = Some (st', None) \<and>
    replay_rel ms r (Suc i) st'"
proof -
  note d = replay_relD [OF rel ok i]
  let ?n = "starts (take i (rc_Events r))"
  let ?x = "rc_spanStore r ! s"
  have s: "s = ?n" "?n < length (statics r)" "\<not> st_IsRequest (statics r ! ?n)" using d(3) by (auto simp: e)
  have rok: "rec_ok ms sprint r" using ok by (simp add: replayable_def)
  have p: "sp_Parent ?x < s" "static_span (sp_Bundle ?x) (sp_Parent ?x) (sp_StartTime ?x) (sp_Name ?x)
      (sp_SpanSequenceCode ?x) = statics r ! s"
    by (rule static_span_ok [OF rok]; use s in simp)+
  obtain w' where w': "recorder_new (NSpan (sp_StartTime ?x) (sp_Bundle ?x) (sp_Name ?x) (sp_SpanSequenceCode ?x))
      (Some (HSpan (sp_Parent ?x))) (rp_dest st) = Some (HSpan s, w')"
    "statics w' = statics (rp_dest st) @ [statics r ! s]" "metas w' = metas (rp_dest st) @ [[]]"
    "rc_Events w' = rc_Events (rp_dest st) @ [EvSpanStart s]"
    using span_effect [of "sp_Parent ?x" "rp_dest st" "sp_StartTime ?x" "sp_Bundle ?x" "sp_Name ?x" "sp_SpanSequenceCode ?x"]
      d(1) s(1) p by auto
  let ?st = "st\<lparr>rp_dest := w', rp_spans := aput (span_id r s) (HSpan s) (rp_spans st)\<rparr>"
  have "meta_of s (take i (rc_Events r)) = []"
    by (rule meta_of_take_unstarted [OF rec_okD(2) [OF rok]]) (simp add: s(1))
  then have "replay_rel ms r (Suc i) ?st"
    by (intro replay_rel_start [OF rel i _ _ _ w'(2) _ w'(3)])
      (use s d(1) w'(4) replayable_distinct [OF ok] in \<open>auto simp: e\<close>)
  moreover have "replay_event u ord (recorder_base ident ms sprint) r (rc_Events r ! i) st = Some (?st, None)"
    using d(5) [of "sp_Parent ?x"] p(1) s(1) w'(1) by (simp add: e recorder_base_def)
  ultimately show ?thesis by blast
qed

lemma replay_step_done:
  assumes rel: "replay_rel ms r i st" and ok: "replayable ms sprint r" and i: "i < length (rc_Events r)"
    and e: "rc_Events r ! i = EvRequestDone s final \<or> rc_Events r ! i = EvSpanDone s final"
  shows "\<exists>st'. replay_event u ord (recorder_base ident ms sprint) r (rc_Events r ! i) st = Some (st', None) \<and>
    replay_rel ms r (Suc i) st'"
proof -
  note d = replay_relD [OF rel ok i]
  have s: "s < starts (take i (rc_Events r))" "rc_Events r ! i = EvRequestDone s final \<longleftrightarrow> st_IsRequest (statics r ! s)"
    using d(3) e by auto
  have ev: "rc_Events r ! i = (if st_IsRequest (statics (rp_dest st) ! s) then EvRequestDone s final else EvSpanDone s final)"
    using s e by (auto simp: d(2))
  obtain w' where w': "recorder_do ms sprint (ADone (sp_EndTime (rc_spanStore r ! s)) final) (HSpan s) (rp_dest st) = Some w'"
    "statics w' = statics (rp_dest st)" "metas w' = metas (rp_dest st)" "rc_Events w' = rc_Events (rp_dest st) @ [rc_Events r ! i]"
    using done_effect [of s "rp_dest st" ms sprint "sp_EndTime (rc_spanStore r ! s)" final] s(1) d(1)
    unfolding ev by auto
  have "replay_rel ms r (Suc i) (st\<lparr>rp_dest := w'\<rparr>)"
    by (rule replay_rel_event [OF rel i _ _ _ w'(2,4)]) (use e in \<open>auto simp: w'(3)\<close>)
  moreover have "replay_event u ord (recorder_base ident ms sprint) r (rc_Events r ! i) st = Some (st\<lparr>rp_dest := w'\<rparr>, None)"
    using e s w'(1) d(5,6) [OF s(1)] by (auto simp: replay_do_def recorder_base_def)
  ultimately show ?thesis by blast
qed

lemma replay_step_flush:
  assumes rel: "replay_rel ms r i st" and ok: "replayable ms sprint r" and i: "i < length (rc_Events r)"
    and e: "rc_Events r ! i = EvFlush s"
  shows "\<exists>st'. replay_event u ord (recorder_base ident ms sprint) r (rc_Events r ! i) st = Some (st', None) \<and>
    replay_rel ms r (Suc i) st'"
proof -
  note d = replay_relD [OF rel ok i]
  have s: "s < starts (take i (rc_Events r))" "st_IsRequest (statics r ! s)" using d(3) by (auto simp: e)
  obtain w' where w': "recorder_do ms sprint AFlush (HSpan s) (rp_dest st) = Some w'"
    "statics w' = statics (rp_dest st)" "metas w' = metas (rp_dest st)" "rc_Events w' = rc_Events (rp_dest st) @ [EvFlush s]"
    using flush_effect [of s "rp_dest st" ms sprint] s d(1,2) by auto
  have "replay_rel ms r (Suc i) (st\<lparr>rp_dest := w'\<rparr>)"
    by (rule replay_rel_event [OF rel i _ _ _ w'(2,4)]) (auto simp: e w'(3))
  moreover have "replay_event u ord (recorder_base ident ms sprint) r (rc_Events r ! i) st = Some (st\<lparr>rp_dest := w'\<rparr>, None)"
    using w'(1) d(6) [OF s] by (simp add: e replay_do_def recorder_base_def)
  ultimately show ?thesis by blast
qed

lemma replay_step_metadata:
  assumes rel: "replay_rel ms r i st" and ok: "replayable ms sprint r" and i: "i < length (rc_Events r)"
    and e: "rc_Events r ! i = EvMetadata s k v"
  shows "\<exists>st'. replay_event u ord (recorder_base ident ms sprint) r (rc_Events r ! i) st = Some (st', None) \<and>
    replay_rel ms r (Suc i) st'"
proof -
  note d = replay_relD [OF rel ok i]
  have s: "s < starts (take i (rc_Events r))" using d(3) by (auto simp: e)
  then have "s < length (rc_spanStore r)" using d(8) by simp
  then have "Metadata_calls ms (meta_of s (rc_Events r)) [] \<noteq> None"
    using ok by (simp add: replayable_def rec_ok_def metas_ok_def)
  moreover have "rc_Events r = take i (rc_Events r) @ [EvMetadata s k v] @ drop (Suc i) (rc_Events r)"
    using id_take_nth_drop [OF i] by (simp add: e)
  then have "meta_of s (rc_Events r) = meta_of s (take i (rc_Events r)) @ [(k, v)] @ meta_of s (drop (Suc i) (rc_Events r))"
    by (metis meta_of_append meta_of_single)
  ultimately obtain m where m: "Metadata_call ms (k, v) (metas (rp_dest st) ! s) = Some m"
    using d(7) [OF s] by (auto simp: Metadata_calls_append simp del: Metadata_call.simps split: option.splits)
  obtain w' where w': "recorder_do ms sprint (AMetadata k v) (HSpan s) (rp_dest st) = Some w'"
    "statics w' = statics (rp_dest st)" "metas w' = (metas (rp_dest st))[s := m]"
    "rc_Events w' = rc_Events (rp_dest st) @ [EvMetadata s k v]"
    using metadata_effect [of s "rp_dest st" ms k v m sprint] s d(1) m by auto
  have "replay_rel ms r (Suc i) (st\<lparr>rp_dest := w'\<rparr>)"
  proof (rule replay_rel_event [OF rel i _ _ _ w'(2,4)])
    show l: "length (metas w') = length (metas (rp_dest st))" using arg_cong [OF w'(3), of length] by simp
    fix s' assume "s' < length (metas w')"
    with l m show "Metadata_calls ms (meta_event s' (rc_Events r ! i)) (metas (rp_dest st) ! s') = Some (metas w' ! s')"
      by (simp add: e w'(3) nth_list_update del: Metadata_call.simps)
  qed (simp_all add: e)
  moreover have "SpanAttributeType (at_subType k) = metavalue_type v False" using d(4) by (simp add: e)
  then have "replay_event u ord (recorder_base ident ms sprint) r (rc_Events r ! i) st = Some (st\<lparr>rp_dest := w'\<rparr>, None)"
    using w'(1) d(5) [OF s] by (cases v) (simp_all add: e replay_metadata_def replay_do_def recorder_base_def)
  ultimately show ?thesis by blast
qed

lemma replay_step_line:
  assumes rel: "replay_rel ms r i st" and ok: "replayable ms sprint r" and i: "i < length (rc_Events r)"
    and e: "rc_Events r ! i = EvLine l" and ord: "\<And>xs. set (ord xs) = set xs"
  shows "\<exists>st'. replay_event u ord (recorder_base ident ms sprint) r (rc_Events r ! i) st = Some (st', None) \<and>
    replay_rel ms r (Suc i) st'"
proof -
  note d = replay_relD [OF rel ok i]
  have s: "bl_Span l < starts (take i (rc_Events r))" "bl_ok l" "line_sent sprint l" using d(3) by (auto simp: e)
  obtain w' l' where w': "replay_line u ord (recorder_base ident ms sprint) l (HSpan (bl_Span l)) (rp_dest st) = Some w'"
    "statics w' = statics (rp_dest st)" "metas w' = metas (rp_dest st)" "rc_Events w' = rc_Events (rp_dest st) @ [EvLine l']"
    "same_event (EvLine l) (EvLine l')"
    using line_effect [of l "rp_dest st" sprint ord u ident ms] s d(1,4) ord unfolding e by metis
  have "replay_rel ms r (Suc i) (st\<lparr>rp_dest := w'\<rparr>)"
    by (rule replay_rel_event [OF rel i _ _ _ w'(2,4)]) (use w'(5) in \<open>auto simp: e w'(3)\<close>)
  moreover have "replay_event u ord (recorder_base ident ms sprint) r (rc_Events r ! i) st = Some (st\<lparr>rp_dest := w'\<rparr>, None)"
    using w'(1) d(5) [OF s(1)] by (simp add: e)
  ultimately show ?thesis by blast
qed

lemma replay_step:
  assumes "replay_rel ms r i st" "replayable ms sprint r" "i < length (rc_Events r)" "\<And>xs. set (ord xs) = set xs"
  shows "\<exists>st'. replay_event u ord (recorder_base ident ms sprint) r (rc_Events r ! i) st = Some (st', None) \<and>
    replay_rel ms r (Suc i) st'"
proof (cases "rc_Events r ! i")
  case (EvCustom m)
  moreover have "replay_rel ms r (Suc i) st"
    using assms(1,3) by (simp add: replay_rel_def Let_def take_Suc_conv_app_nth EvCustom)
  ultimately show ?thesis by simp
qed (use assms in \<open>blast intro: replay_step_request replay_step_span replay_step_done replay_step_flush
  replay_step_metadata replay_step_line\<close>)+

lemma replay_suffix:
  assumes "replay_rel ms r i st" "replayable ms sprint r" "i \<le> length (rc_Events r)" "\<And>xs. set (ord xs) = set xs"
  shows "\<exists>st'. replay_events u ord (recorder_base ident ms sprint) r (drop i (rc_Events r)) st = Some (st', None) \<and>
    replay_rel ms r (length (rc_Events r)) st'"
  using assms(1,3)
proof (induction "length (rc_Events r) - i" arbitrary: i st)
  case (Suc n)
  then have i: "i < length (rc_Events r)" by simp
  from replay_step [OF Suc.prems(1) assms(2) i assms(4)] obtain st1
    where st1: "replay_event u ord (recorder_base ident ms sprint) r (rc_Events r ! i) st = Some (st1, None)"
      "replay_rel ms r (Suc i) st1" by blast
  from Suc.hyps(1) [OF _ st1(2)] Suc.hyps(2) i st1(1) show ?case
    by (simp add: Cons_nth_drop_Suc [symmetric] del: replay_event.simps)
qed auto

text \<open>
  C1. Replay of a recorder that a client filled into a new recorder: it goes through without an
  error and without a panic, and the destination then holds the same spans (bundle, parent, name,
  start time, sequence code, source), the same events in the same order but for the custom ones
  (every line with the same text and the same data, however the runtime orders the keys), and the
  same metadata for each span. The spans must have different ids, and each value the data type of the
  call it was logged with.
\<close>

theorem replay_reproduces:
  assumes run: "exec (recorder_base ident ms sprint) cs (Recorder_New c, []) = Some (r, env)"
    and ids: "distinct (map (span_id r) [0..<length (rc_spanStore r)])"
    and typed: "list_all event_typed (rc_Events r)"
    and ord: "\<And>xs. set (ord xs) = set xs"
  shows "\<exists>st. Recorder_Replay u ord (recorder_base ident' ms sprint) r (Recorder_New c') = Some (st, None) \<and>
     statics (rp_dest st) = statics r \<and>
     list_all2 same_event (filter not_custom (rc_Events r)) (rc_Events (rp_dest st)) \<and>
     map sp_SpanMetadata (rc_spanStore (rp_dest st)) = map sp_SpanMetadata (rc_spanStore r)"
proof -
  have rok: "rec_ok ms sprint r" using recorder.exec_inv [OF run rec_inv_New] by (simp add: rec_inv_def)
  then have ok: "replayable ms sprint r" using ids typed by (simp add: replayable_def)
  have st: "starts (rc_Events r) = length (rc_spanStore r)" using rec_okD(2) [OF rok] by (simp add: evs_ok_def)
  let ?st = "\<lparr>rp_dest = Recorder_New c', rp_requests = [], rp_spans = []\<rparr>"
  have "replay_rel ms r 0 ?st"
    by (simp add: replay_rel_def Recorder_New_def statics_def metas_def starts_def)
  from replay_suffix [OF this ok _ ord] obtain st
    where run': "Recorder_Replay u ord (recorder_base ident' ms sprint) r (Recorder_New c') = Some (st, None)"
      and rel: "replay_rel ms r (length (rc_Events r)) st" by (auto simp: Recorder_Replay_def)
  have "metas (rp_dest st) = metas r"
    using rel rec_okD(3) [OF rok] by (auto simp: replay_rel_def Let_def metas_ok_def st metas_nth intro!: nth_equalityI)
  with rel run' show ?thesis by (auto simp: replay_rel_def Let_def st metas_def)
qed

definition replay_script :: "int cmd list" where
  "replay_script = [New (NRequest 5 NewBundle ''req'' zeroSourceInfo) None,
     New (NSpan 6 (NewBundle\<lparr>bu_Trace := (bu_Trace NewBundle)\<lparr>tr_spanID := NewHexBytesFromSlice 8 [1]\<rparr>\<rparr>) ''child'' ''.A'') (Some 0),
     New NNoPrefill (Some 1), New (NLine 9 7 []) (Some 2), Do (ABuild (BString ''k'' ''v'' 9)) 3,
     Do (ABuild (BBool ''ok'' True)) 3, Do (AEnd (LTemplate ''{k}'')) 3, Do (ADone 8 True) 0]"

theorem replay_reproduces_witness:
  "\<exists>r env st. exec (recorder_base ''x'' int_marshallers (\<lambda>_. ''value'')) replay_script (Recorder_New NewRequestCounter, []) = Some (r, env) \<and>
     Recorder_Replay (\<lambda>_. []) rev (recorder_base ''y'' int_marshallers (\<lambda>_. ''value'')) r (Recorder_New NewRequestCounter) = Some (st, None) \<and>
     length (rc_Events r) = 4 \<and> list_all2 same_event (filter not_custom (rc_Events r)) (rc_Events (rp_dest st))"
proof -
  have "case exec (recorder_base ''x'' int_marshallers (\<lambda>_. ''value'')) replay_script (Recorder_New NewRequestCounter, []) of
      None \<Rightarrow> False
    | Some (r, env) \<Rightarrow> length (rc_Events r) = 4 \<and> distinct (map (span_id r) [0..<length (rc_spanStore r)]) \<and>
        list_all event_typed (rc_Events r)"
    by code_simp
  then obtain r env where r: "exec (recorder_base ''x'' int_marshallers (\<lambda>_. ''value'')) replay_script (Recorder_New NewRequestCounter, []) = Some (r, env)"
    "length (rc_Events r) = 4" "distinct (map (span_id r) [0..<length (rc_spanStore r)])" "list_all event_typed (rc_Events r)"
    by (auto split: option.splits)
  from replay_reproduces [OF r(1,3,4), of rev "\<lambda>_. []" "''y''" NewRequestCounter] r(1,2) show ?thesis by auto
qed

end
