(* ===== verification/Settings.thy ===== *)
theory Settings
  imports BaseAPI
begin

section \<open>Log settings and the methods of a line\<close>

text \<open>
  Models \<open>sub.go\<close> (but \<open>Fork\<close> and \<open>Step\<close>, which are in \<open>FrontEnd\<close>), \<open>line.go\<close> and
  \<open>xopbase/skip.go\<close>. A prefill function, a closure that makes one call on the prefilling it is
  given, is that call. A redaction function is user code that makes calls on the line it is given:
  the list of those calls. \<open>widen\<close> is the conversion of a \<open>float32\<close> to a \<open>float64\<close>. An error is
  the text of its \<open>Error\<close> method, a \<open>fmt.Stringer\<close> that of its \<open>String\<close> method.
\<close>

record 'm LogSettings =
  ls_prefillMsg :: string
  ls_prefillData :: "'m build_call list"
  ls_minimumLogLevel :: int
  ls_stackFramesWanted :: "int list"
  ls_tagLinesWithSpanSequence :: bool
  ls_synchronousFlushWhenDone :: bool
  ls_redactAny :: "(string \<Rightarrow> 'm \<Rightarrow> bool \<Rightarrow> 'm build_call list) option"
  ls_redactString :: "(string \<Rightarrow> string \<Rightarrow> 'm build_call list) option"
  ls_redactError :: "(string \<Rightarrow> string \<Rightarrow> 'm build_call list) option"
  ls_stackFilenameRewrite :: "string \<Rightarrow> string"

definition DefaultSettings :: "'m LogSettings" where
  "DefaultSettings =
     \<lparr>ls_prefillMsg = [], ls_prefillData = [], ls_minimumLogLevel = DebugLevel,
      ls_stackFramesWanted = (replicate 21 0)[nat AlertLevel := 20, nat ErrorLevel := 10],
      ls_tagLinesWithSpanSequence = False, ls_synchronousFlushWhenDone = True, ls_redactAny = None,
      ls_redactString = None, ls_redactError = None, ls_stackFilenameRewrite = (\<lambda>s. s)\<rparr>"

text \<open>For debugging; levels are printed by \<open>xopnum\<close>.\<close>

definition LogSettings_String :: "'m LogSettings \<Rightarrow> string" where
  "LogSettings_String s =
     (if ls_prefillMsg s \<noteq> [] then '' prefill:'' @ ls_prefillMsg s else []) @
     (if ls_prefillData s \<noteq> [] then '' prefillDataCount:'' @ Itoa (int (length (ls_prefillData s))) else []) @
     (if ls_minimumLogLevel s \<noteq> 0 then '' minLevel:'' @ Level_String (ls_minimumLogLevel s) else []) @
     (if ls_synchronousFlushWhenDone s then '' flush-when-done'' else [])"

subsection \<open>Setters\<close>

text \<open>One iteration of the loop of \<open>StackFrames\<close>, at the level \<open>l\<close>.\<close>

definition StackFrames_step :: "int \<Rightarrow> int \<Rightarrow> int \<Rightarrow> int list \<Rightarrow> int list" where
  "StackFrames_step level frameCount l w =
     (let current = w ! nat l;
          w = (if l \<le> level \<and> current > frameCount then w[nat l := frameCount] else w)
      in if l \<ge> level \<and> current < frameCount then w[nat l := frameCount] else w)"

definition StackFrames :: "int \<Rightarrow> int \<Rightarrow> 'm LogSettings \<Rightarrow> 'm LogSettings" where
  "StackFrames level frameCount s =
     s\<lparr>ls_stackFramesWanted := fold (StackFrames_step level frameCount) LevelValues (ls_stackFramesWanted s)\<rparr>"

definition StackFilenameRewrite :: "(string \<Rightarrow> string) \<Rightarrow> 'm LogSettings \<Rightarrow> 'm LogSettings" where
  "StackFilenameRewrite f s = s\<lparr>ls_stackFilenameRewrite := f\<rparr>"

definition SynchronousFlush :: "bool \<Rightarrow> 'm LogSettings \<Rightarrow> 'm LogSettings" where
  "SynchronousFlush b s = s\<lparr>ls_synchronousFlushWhenDone := b\<rparr>"

definition MinLevel :: "int \<Rightarrow> 'm LogSettings \<Rightarrow> 'm LogSettings" where
  "MinLevel level s = s\<lparr>ls_minimumLogLevel := level\<rparr>"

definition TagLinesWithSpanSequence :: "bool \<Rightarrow> 'm LogSettings \<Rightarrow> 'm LogSettings" where
  "TagLinesWithSpanSequence b s = s\<lparr>ls_tagLinesWithSpanSequence := b\<rparr>"

definition PrefillText :: "string \<Rightarrow> 'm LogSettings \<Rightarrow> 'm LogSettings" where
  "PrefillText m s = s\<lparr>ls_prefillMsg := m\<rparr>"

definition Settings_NoPrefill :: "'m LogSettings \<Rightarrow> 'm LogSettings" where
  "Settings_NoPrefill s = s\<lparr>ls_prefillData := [], ls_prefillMsg := []\<rparr>"

definition SetRedactAnyFunc :: "(string \<Rightarrow> 'm \<Rightarrow> bool \<Rightarrow> 'm build_call list) option \<Rightarrow> 'm LogSettings \<Rightarrow> 'm LogSettings" where
  "SetRedactAnyFunc f s = s\<lparr>ls_redactAny := f\<rparr>"

definition SetRedactErrorFunc :: "(string \<Rightarrow> string \<Rightarrow> 'm build_call list) option \<Rightarrow> 'm LogSettings \<Rightarrow> 'm LogSettings" where
  "SetRedactErrorFunc f s = s\<lparr>ls_redactError := f\<rparr>"

definition SetRedactStringFunc :: "(string \<Rightarrow> string \<Rightarrow> 'm build_call list) option \<Rightarrow> 'm LogSettings \<Rightarrow> 'm LogSettings" where
  "SetRedactStringFunc f s = s\<lparr>ls_redactString := f\<rparr>"

subsection \<open>Prefilled data\<close>

text \<open>A model as \<open>xopbase.ModelArg\<close>\<open>{Model: v}\<close>.\<close>

definition modelOf :: "'m \<Rightarrow> 'm ModelArg" where
  "modelOf v = \<lparr>ma_Encoding = 0, ma_Encoded = [], ma_ModelType = [], ma_Model = Some v\<rparr>"

definition prefill :: "'m build_call \<Rightarrow> 'm LogSettings \<Rightarrow> 'm LogSettings" where
  "prefill c s = s\<lparr>ls_prefillData := ls_prefillData s @ [c]\<rparr>"

definition PrefillEnum :: "Attribute \<Rightarrow> enumValue \<Rightarrow> 'm LogSettings \<Rightarrow> 'm LogSettings" where
  "PrefillEnum k v = prefill (BEnum k v)"

text \<open>An embedded enumeration value knows its attribute.\<close>

definition PrefillEmbeddedEnum :: "Attribute \<times> enumValue \<Rightarrow> 'm LogSettings \<Rightarrow> 'm LogSettings" where
  "PrefillEmbeddedEnum k = prefill (BEnum (fst k) (snd k))"

definition PrefillError :: "string \<Rightarrow> string \<Rightarrow> 'm LogSettings \<Rightarrow> 'm LogSettings" where
  "PrefillError k v = prefill (BString k v 107)"

definition PrefillAny :: "string \<Rightarrow> 'm \<Rightarrow> 'm LogSettings \<Rightarrow> 'm LogSettings" where
  "PrefillAny k v = prefill (BAny k (modelOf v))"

definition PrefillFloat32 :: "(32 word \<Rightarrow> u64) \<Rightarrow> string \<Rightarrow> 32 word \<Rightarrow> 'm LogSettings \<Rightarrow> 'm LogSettings" where
  "PrefillFloat32 widen k v = prefill (BFloat64 k (widen v) 3)"

definition PrefillBool :: "string \<Rightarrow> bool \<Rightarrow> 'm LogSettings \<Rightarrow> 'm LogSettings" where
  "PrefillBool k v = prefill (BBool k v)"

definition PrefillDuration :: "string \<Rightarrow> int \<Rightarrow> 'm LogSettings \<Rightarrow> 'm LogSettings" where
  "PrefillDuration k v = prefill (BDuration k v)"

definition PrefillTime :: "string \<Rightarrow> int \<Rightarrow> nat \<Rightarrow> 'm LogSettings \<Rightarrow> 'm LogSettings" where
  "PrefillTime k v rep = prefill (BTime k v rep)"

definition PrefillFloat64 :: "string \<Rightarrow> u64 \<Rightarrow> 'm LogSettings \<Rightarrow> 'm LogSettings" where
  "PrefillFloat64 k v = prefill (BFloat64 k v 2)"

definition PrefillInt64 :: "string \<Rightarrow> i64 \<Rightarrow> 'm LogSettings \<Rightarrow> 'm LogSettings" where
  "PrefillInt64 k v = prefill (BInt64 k v 4)"

definition PrefillString :: "string \<Rightarrow> string \<Rightarrow> 'm LogSettings \<Rightarrow> 'm LogSettings" where
  "PrefillString k v = prefill (BString k v 9)"

definition PrefillUint64 :: "string \<Rightarrow> u64 \<Rightarrow> 'm LogSettings \<Rightarrow> 'm LogSettings" where
  "PrefillUint64 k v = prefill (BUint64 k v 100)"

definition PrefillInt :: "string \<Rightarrow> i64 \<Rightarrow> 'm LogSettings \<Rightarrow> 'm LogSettings" where
  "PrefillInt k v = prefill (BInt64 k v 8)"

definition PrefillInt16 :: "string \<Rightarrow> 16 word \<Rightarrow> 'm LogSettings \<Rightarrow> 'm LogSettings" where
  "PrefillInt16 k v = prefill (BInt64 k (scast v) 6)"

definition PrefillInt32 :: "string \<Rightarrow> 32 word \<Rightarrow> 'm LogSettings \<Rightarrow> 'm LogSettings" where
  "PrefillInt32 k v = prefill (BInt64 k (scast v) 5)"

definition PrefillInt8 :: "string \<Rightarrow> 8 word \<Rightarrow> 'm LogSettings \<Rightarrow> 'm LogSettings" where
  "PrefillInt8 k v = prefill (BInt64 k (scast v) 7)"

definition PrefillUint :: "string \<Rightarrow> u64 \<Rightarrow> 'm LogSettings \<Rightarrow> 'm LogSettings" where
  "PrefillUint k v = prefill (BUint64 k v 104)"

definition PrefillUint16 :: "string \<Rightarrow> 16 word \<Rightarrow> 'm LogSettings \<Rightarrow> 'm LogSettings" where
  "PrefillUint16 k v = prefill (BUint64 k (ucast v) 102)"

definition PrefillUint32 :: "string \<Rightarrow> 32 word \<Rightarrow> 'm LogSettings \<Rightarrow> 'm LogSettings" where
  "PrefillUint32 k v = prefill (BUint64 k (ucast v) 101)"

definition PrefillUint8 :: "string \<Rightarrow> 8 word \<Rightarrow> 'm LogSettings \<Rightarrow> 'm LogSettings" where
  "PrefillUint8 k v = prefill (BUint64 k (ucast v) 103)"

definition PrefillUintptr :: "string \<Rightarrow> u64 \<Rightarrow> 'm LogSettings \<Rightarrow> 'm LogSettings" where
  "PrefillUintptr k v = prefill (BUint64 k v 105)"

subsection \<open>The methods of a line\<close>

text \<open>The calls a user makes on a line; integers at their widths.\<close>

datatype 'm logval =
  is_VAny: VAny string 'm | is_VAnyWithoutRedaction: VAnyWithoutRedaction string 'm | is_VError: VError string string
| is_VStringer: VStringer string string | is_VString: VString string string | VFloat32 string "32 word" | VEmbeddedEnum "Attribute \<times> enumValue"
| VEnum Attribute enumValue | VBool string bool | VDuration string int | VTime string int nat
| VFloat64 string u64 | VInt64 string i64 | VUint64 string u64 | VInt string i64 | VInt16 string "16 word"
| VInt32 string "32 word" | VInt8 string "8 word" | VUint string u64 | VUint16 string "16 word"
| VUint32 string "32 word" | VUint8 string "8 word" | VUintptr string u64

text \<open>The calls on the base line of the methods that never redact.\<close>

fun line_plain :: "(32 word \<Rightarrow> u64) \<Rightarrow> 'm logval \<Rightarrow> 'm build_call list" where
  "line_plain widen (VFloat32 k v) = [BFloat64 k (widen v) 3]"
| "line_plain widen (VEmbeddedEnum kv) = [BEnum (fst kv) (snd kv)]"
| "line_plain widen (VEnum k v) = [BEnum k v]"
| "line_plain widen (VBool k v) = [BBool k v]"
| "line_plain widen (VDuration k v) = [BDuration k v]"
| "line_plain widen (VTime k v rep) = [BTime k v rep]"
| "line_plain widen (VFloat64 k v) = [BFloat64 k v 2]"
| "line_plain widen (VInt64 k v) = [BInt64 k v 4]"
| "line_plain widen (VUint64 k v) = [BUint64 k v 100]"
| "line_plain widen (VInt k v) = [BInt64 k v 8]"
| "line_plain widen (VInt16 k v) = [BInt64 k (scast v) 6]"
| "line_plain widen (VInt32 k v) = [BInt64 k (scast v) 5]"
| "line_plain widen (VInt8 k v) = [BInt64 k (scast v) 7]"
| "line_plain widen (VUint k v) = [BUint64 k v 104]"
| "line_plain widen (VUint16 k v) = [BUint64 k (ucast v) 102]"
| "line_plain widen (VUint32 k v) = [BUint64 k (ucast v) 101]"
| "line_plain widen (VUint8 k v) = [BUint64 k (ucast v) 103]"
| "line_plain widen (VUintptr k v) = [BUint64 k v 105]"
| "line_plain widen v = []"

text \<open>
  All methods; \<open>skip\<close> is the line's flag, \<open>kept\<close> says whether a base logger keeps references
  (then the value is copied first, which a value of HOL does not show).
\<close>

fun line_calls :: "(32 word \<Rightarrow> u64) \<Rightarrow> 'm LogSettings \<Rightarrow> bool \<Rightarrow> bool \<Rightarrow> 'm logval \<Rightarrow> 'm build_call list" where
  "line_calls widen s kept skip (VAnyWithoutRedaction k v) = [BAny k (modelOf v)]"
| "line_calls widen s kept skip (VAny k v) =
     (if skip then [] else
      case ls_redactAny s of Some f \<Rightarrow> f k v (\<not> kept) | None \<Rightarrow> [BAny k (modelOf v)])"
| "line_calls widen s kept skip (VError k v) =
     (if skip then [] else case ls_redactError s of Some f \<Rightarrow> f k v | None \<Rightarrow> [BString k v 107])"
| "line_calls widen s kept skip (VStringer k v) =
     (if skip then [] else case ls_redactString s of Some f \<Rightarrow> f k v | None \<Rightarrow> [BString k v 106])"
| "line_calls widen s kept skip (VString k v) =
     (if skip then [] else case ls_redactString s of Some f \<Rightarrow> f k v | None \<Rightarrow> [BString k v 9])"
| "line_calls widen s kept skip v = line_plain widen v"

subsection \<open>What a call records\<close>

datatype 'm gval =
  GInt int | GText string | GBool bool | GFloat u64 | GTime int nat | GDuration int | GEnum Attribute enumValue | GModel "'m ModelArg"

text \<open>The key, the value and the data type that a base logger is told.\<close>

fun call_meaning :: "'m build_call \<Rightarrow> string \<times> 'm gval \<times> int" where
  "call_meaning (BEnum k v) = (at_key k, GEnum k v, 14)"
| "call_meaning (BFloat64 k v dt) = (k, GFloat v, dt)"
| "call_meaning (BInt64 k v dt) = (k, GInt (sint v), dt)"
| "call_meaning (BString k v dt) = (k, GText v, dt)"
| "call_meaning (BUint64 k v dt) = (k, GInt (uint v), dt)"
| "call_meaning (BAny k v) = (k, GModel v, 11)"
| "call_meaning (BBool k v) = (k, GBool v, 1)"
| "call_meaning (BDuration k v) = (k, GDuration v, 13)"
| "call_meaning (BTime k v rep) = (k, GTime v rep, 12)"

text \<open>What the user meant to record: the number itself, with the type of the method.\<close>

fun logval_meaning :: "(32 word \<Rightarrow> u64) \<Rightarrow> 'm logval \<Rightarrow> string \<times> 'm gval \<times> int" where
  "logval_meaning widen (VAny k v) = (k, GModel (modelOf v), 11)"
| "logval_meaning widen (VAnyWithoutRedaction k v) = (k, GModel (modelOf v), 11)"
| "logval_meaning widen (VError k v) = (k, GText v, 107)"
| "logval_meaning widen (VStringer k v) = (k, GText v, 106)"
| "logval_meaning widen (VString k v) = (k, GText v, 9)"
| "logval_meaning widen (VFloat32 k v) = (k, GFloat (widen v), 3)"
| "logval_meaning widen (VEmbeddedEnum kv) = (at_key (fst kv), GEnum (fst kv) (snd kv), 14)"
| "logval_meaning widen (VEnum k v) = (at_key k, GEnum k v, 14)"
| "logval_meaning widen (VBool k v) = (k, GBool v, 1)"
| "logval_meaning widen (VDuration k v) = (k, GDuration v, 13)"
| "logval_meaning widen (VTime k v rep) = (k, GTime v rep, 12)"
| "logval_meaning widen (VFloat64 k v) = (k, GFloat v, 2)"
| "logval_meaning widen (VInt64 k v) = (k, GInt (sint v), 4)"
| "logval_meaning widen (VUint64 k v) = (k, GInt (uint v), 100)"
| "logval_meaning widen (VInt k v) = (k, GInt (sint v), 8)"
| "logval_meaning widen (VInt16 k v) = (k, GInt (sint v), 6)"
| "logval_meaning widen (VInt32 k v) = (k, GInt (sint v), 5)"
| "logval_meaning widen (VInt8 k v) = (k, GInt (sint v), 7)"
| "logval_meaning widen (VUint k v) = (k, GInt (uint v), 104)"
| "logval_meaning widen (VUint16 k v) = (k, GInt (uint v), 102)"
| "logval_meaning widen (VUint32 k v) = (k, GInt (uint v), 101)"
| "logval_meaning widen (VUint8 k v) = (k, GInt (uint v), 103)"
| "logval_meaning widen (VUintptr k v) = (k, GInt (uint v), 105)"

text \<open>A value has the type that the code of its call admits.\<close>

fun call_typed :: "'m build_call \<Rightarrow> bool" where
  "call_typed (BFloat64 k v dt) = (dt \<in> {2, 3})"
| "call_typed (BInt64 k v dt) = (dt \<in> {4, 5, 6, 7, 8})"
| "call_typed (BString k v dt) = (dt \<in> {9, 106, 107})"
| "call_typed (BUint64 k v dt) = (dt \<in> {100, 101, 102, 103, 104, 105})"
| "call_typed c = True"

definition redaction_typed :: "'m LogSettings \<Rightarrow> bool" where
  "redaction_typed s \<longleftrightarrow>
     (\<forall>f k v b. ls_redactAny s = Some f \<longrightarrow> list_all call_typed (f k v b)) \<and>
     (\<forall>f k v. ls_redactString s = Some f \<longrightarrow> list_all call_typed (f k v)) \<and>
     (\<forall>f k v. ls_redactError s = Some f \<longrightarrow> list_all call_typed (f k v))"

lemma sint_widen [simp]:
  "sint (scast (v :: 16 word) :: i64) = sint v" "sint (scast (w :: 32 word) :: i64) = sint w"
  "sint (scast (x :: 8 word) :: i64) = sint x"
  "uint (ucast (v :: 16 word) :: u64) = uint v" "uint (ucast (w :: 32 word) :: u64) = uint w"
  "uint (ucast (x :: 8 word) :: u64) = uint x"
  by (simp_all add: sint_up_scast is_up uint_up_ucast)

lemma line_calls_typed: "redaction_typed s \<Longrightarrow> list_all call_typed (line_calls widen s kept skip v)"
  by (cases v) (auto simp: redaction_typed_def split: option.split)


subsection \<open>Stack frames\<close>

definition frames_new :: "int \<Rightarrow> int \<Rightarrow> int \<Rightarrow> int \<Rightarrow> int" where
  "frames_new level c l current = (if l < level then min current c else if l = level then c else max current c)"

lemma StackFrames_step_nth:
  assumes "0 \<le> l" "nat l < length w" "0 \<le> m" "nat m < length w"
  shows "StackFrames_step level c l w ! nat m = (if m = l then frames_new level c l (w ! nat l) else w ! nat m)"
    "length (StackFrames_step level c l w) = length w"
  using assms by (auto simp: StackFrames_step_def Let_def frames_new_def nth_list_update eq_nat_nat_iff)

lemma StackFrames_fold:
  assumes "distinct ls" "\<forall>l \<in> set ls. 0 \<le> l \<and> nat l < length w"
  shows "length (fold (StackFrames_step level c) ls w) = length w \<and>
    (\<forall>m. 0 \<le> m \<longrightarrow> nat m < length w \<longrightarrow> fold (StackFrames_step level c) ls w ! nat m =
       (if m \<in> set ls then frames_new level c m (w ! nat m) else w ! nat m))"
  using assms
proof (induction ls arbitrary: w)
  case (Cons l ls)
  let ?w = "StackFrames_step level c l w"
  have l: "0 \<le> l" "nat l < length w" using Cons.prems(2) by auto
  have len: "length ?w = length w" by (rule StackFrames_step_nth(2) [OF l l])
  have "length (fold (StackFrames_step level c) ls ?w) = length ?w \<and>
    (\<forall>m. 0 \<le> m \<longrightarrow> nat m < length ?w \<longrightarrow> fold (StackFrames_step level c) ls ?w ! nat m =
       (if m \<in> set ls then frames_new level c m (?w ! nat m) else ?w ! nat m))"
    by (rule Cons.IH) (use Cons.prems len in auto)
  then show ?case using Cons.prems(1) len StackFrames_step_nth(1) [OF l] by auto
qed simp

text \<open>
  What a table of wanted stack frames must be for \<open>logLine\<close> to make its buffers: the counts of
  the levels grow with the level and are not negative; an index that is no level has none.
\<close>

definition frames_ok :: "int list \<Rightarrow> bool" where
  "frames_ok w \<longleftrightarrow> length w = 21 \<and> (\<forall>l \<in> set LevelValues. 0 \<le> w ! nat l) \<and>
     (\<forall>l \<in> set LevelValues. \<forall>m \<in> set LevelValues. l \<le> m \<longrightarrow> w ! nat l \<le> w ! nat m) \<and>
     (\<forall>i < 21. int i \<notin> set LevelValues \<longrightarrow> w ! i = 0)"

lemma LevelValues_bounds: "l \<in> set LevelValues \<Longrightarrow> 0 \<le> l \<and> nat l < 21"
  by (auto simp: LevelValues_def level_defs)

lemma frames_ok_max:
  assumes "frames_ok w" "i < 21"
  shows "0 \<le> w ! i \<and> w ! i \<le> w ! nat AlertLevel"
proof (cases "int i \<in> set LevelValues")
  case True
  moreover have "AlertLevel \<in> set LevelValues" "int i \<le> AlertLevel"
    using assms(2) by (auto simp: LevelValues_def level_defs)
  ultimately show ?thesis using assms(1) unfolding frames_ok_def by (metis nat_int)
next
  case False
  moreover have "AlertLevel \<in> set LevelValues" by (simp add: LevelValues_def)
  ultimately show ?thesis using assms by (auto simp: frames_ok_def)
qed

lemma DefaultSettings_frames: "frames_ok (ls_stackFramesWanted DefaultSettings)"
  by (auto simp: frames_ok_def DefaultSettings_def LevelValues_def level_defs nth_list_update)

lemma StackFrames_ok:
  assumes "frames_ok (ls_stackFramesWanted s)" "0 \<le> c"
  shows "frames_ok (ls_stackFramesWanted (StackFrames level c s))"
proof -
  let ?w = "ls_stackFramesWanted s"
  let ?w' = "fold (StackFrames_step level c) LevelValues ?w"
  have d: "distinct LevelValues" by (simp add: LevelValues_def level_defs)
  have len: "length ?w = 21" using assms(1) by (simp add: frames_ok_def)
  have b: "\<forall>l \<in> set LevelValues. 0 \<le> l \<and> nat l < length ?w" using LevelValues_bounds len by simp
  have f: "length ?w' = 21" "\<And>m. 0 \<le> m \<Longrightarrow> nat m < 21 \<Longrightarrow> ?w' ! nat m =
      (if m \<in> set LevelValues then frames_new level c m (?w ! nat m) else ?w ! nat m)"
    using StackFrames_fold [OF d b, of level c] len by auto
  have v: "?w' ! nat l = frames_new level c l (?w ! nat l)" if "l \<in> set LevelValues" for l
    using f(2) [of l] LevelValues_bounds [OF that] that by auto
  have o: "?w' ! i = ?w ! i" if "i < 21" "int i \<notin> set LevelValues" for i
    using f(2) [of "int i"] that by auto
  show ?thesis
    unfolding frames_ok_def StackFrames_def
  proof (simp, intro conjI ballI impI allI)
    show "length ?w' = 21" by (rule f(1))
    show "0 \<le> ?w' ! nat l" if "l \<in> set LevelValues" for l
      using assms that v by (auto simp: frames_ok_def frames_new_def)
    show "?w' ! nat l \<le> ?w' ! nat m" if "l \<in> set LevelValues" "m \<in> set LevelValues" "l \<le> m" for l m
    proof -
      have "?w ! nat l \<le> ?w ! nat m" using assms(1) that by (simp add: frames_ok_def)
      then show ?thesis using that by (auto simp: v frames_new_def)
    qed
    show "?w' ! i = 0" if "i < 21" "int i \<notin> set LevelValues" for i
      using assms(1) o that by (simp add: frames_ok_def)
  qed
qed

lemma StackFrames_nth:
  assumes "frames_ok (ls_stackFramesWanted s)" "l \<in> set LevelValues"
  shows "ls_stackFramesWanted (StackFrames level c s) ! nat l = frames_new level c l (ls_stackFramesWanted s ! nat l)"
proof -
  have d: "distinct LevelValues" by (simp add: LevelValues_def level_defs)
  have len: "length (ls_stackFramesWanted s) = 21" using assms(1) by (simp add: frames_ok_def)
  have "\<forall>l \<in> set LevelValues. 0 \<le> l \<and> nat l < length (ls_stackFramesWanted s)" using LevelValues_bounds len by simp
  from StackFrames_fold [OF d this] assms(2) LevelValues_bounds [OF assms(2)] len show ?thesis
    by (auto simp: StackFrames_def)
qed

subsection \<open>Sequences of changes\<close>

text \<open>The methods of \<open>Sub\<close> that change the settings; a prefilled value by the method that takes it.\<close>

datatype 'm setting =
  SStackFrames int int | SStackFilenameRewrite "string \<Rightarrow> string" | SSynchronousFlush bool | SMinLevel int
| STagLines bool | SPrefillText string | SNoPrefill | SPrefill "'m logval"
| SRedactAny "(string \<Rightarrow> 'm \<Rightarrow> bool \<Rightarrow> 'm build_call list) option"
| SRedactString "(string \<Rightarrow> string \<Rightarrow> 'm build_call list) option"
| SRedactError "(string \<Rightarrow> string \<Rightarrow> 'm build_call list) option"

fun apply_prefill :: "(32 word \<Rightarrow> u64) \<Rightarrow> 'm logval \<Rightarrow> 'm LogSettings \<Rightarrow> 'm LogSettings" where
  "apply_prefill widen (VAny k v) = PrefillAny k v"
| "apply_prefill widen (VError k v) = PrefillError k v"
| "apply_prefill widen (VString k v) = PrefillString k v"
| "apply_prefill widen (VFloat32 k v) = PrefillFloat32 widen k v"
| "apply_prefill widen (VEmbeddedEnum kv) = PrefillEmbeddedEnum kv"
| "apply_prefill widen (VEnum k v) = PrefillEnum k v"
| "apply_prefill widen (VBool k v) = PrefillBool k v"
| "apply_prefill widen (VDuration k v) = PrefillDuration k v"
| "apply_prefill widen (VTime k v rep) = PrefillTime k v rep"
| "apply_prefill widen (VFloat64 k v) = PrefillFloat64 k v"
| "apply_prefill widen (VInt64 k v) = PrefillInt64 k v"
| "apply_prefill widen (VUint64 k v) = PrefillUint64 k v"
| "apply_prefill widen (VInt k v) = PrefillInt k v"
| "apply_prefill widen (VInt16 k v) = PrefillInt16 k v"
| "apply_prefill widen (VInt32 k v) = PrefillInt32 k v"
| "apply_prefill widen (VInt8 k v) = PrefillInt8 k v"
| "apply_prefill widen (VUint k v) = PrefillUint k v"
| "apply_prefill widen (VUint16 k v) = PrefillUint16 k v"
| "apply_prefill widen (VUint32 k v) = PrefillUint32 k v"
| "apply_prefill widen (VUint8 k v) = PrefillUint8 k v"
| "apply_prefill widen (VUintptr k v) = PrefillUintptr k v"
| "apply_prefill widen v = id"

fun apply_setting :: "(32 word \<Rightarrow> u64) \<Rightarrow> 'm setting \<Rightarrow> 'm LogSettings \<Rightarrow> 'm LogSettings" where
  "apply_setting widen (SStackFrames l c) = StackFrames l c"
| "apply_setting widen (SStackFilenameRewrite f) = StackFilenameRewrite f"
| "apply_setting widen (SSynchronousFlush b) = SynchronousFlush b"
| "apply_setting widen (SMinLevel l) = MinLevel l"
| "apply_setting widen (STagLines b) = TagLinesWithSpanSequence b"
| "apply_setting widen (SPrefillText m) = PrefillText m"
| "apply_setting widen SNoPrefill = Settings_NoPrefill"
| "apply_setting widen (SPrefill v) = apply_prefill widen v"
| "apply_setting widen (SRedactAny f) = SetRedactAnyFunc f"
| "apply_setting widen (SRedactString f) = SetRedactStringFunc f"
| "apply_setting widen (SRedactError f) = SetRedactErrorFunc f"

definition apply_settings :: "(32 word \<Rightarrow> u64) \<Rightarrow> 'm setting list \<Rightarrow> 'm LogSettings \<Rightarrow> 'm LogSettings" where
  "apply_settings widen = fold (apply_setting widen)"

fun setting_ok :: "'m setting \<Rightarrow> bool" where
  "setting_ok (SStackFrames l c) = (0 \<le> c)"
| "setting_ok s = True"

lemmas prefill_defs = prefill_def PrefillEnum_def PrefillEmbeddedEnum_def PrefillError_def PrefillAny_def
  PrefillFloat32_def PrefillBool_def PrefillDuration_def PrefillTime_def PrefillFloat64_def PrefillInt64_def
  PrefillString_def PrefillUint64_def PrefillInt_def PrefillInt16_def PrefillInt32_def PrefillInt8_def
  PrefillUint_def PrefillUint16_def PrefillUint32_def PrefillUint8_def PrefillUintptr_def

lemmas setter_defs = StackFilenameRewrite_def SynchronousFlush_def MinLevel_def TagLinesWithSpanSequence_def
  PrefillText_def Settings_NoPrefill_def SetRedactAnyFunc_def SetRedactErrorFunc_def SetRedactStringFunc_def

lemma apply_prefill_frames [simp]:
  "ls_stackFramesWanted (apply_prefill widen v s) = ls_stackFramesWanted s"
  by (cases v) (simp_all add: prefill_defs)

lemma apply_setting_frames:
  "setting_ok x \<Longrightarrow> frames_ok (ls_stackFramesWanted s) \<Longrightarrow> frames_ok (ls_stackFramesWanted (apply_setting widen x s))"
  by (cases x) (simp_all add: setter_defs StackFrames_ok)

lemma apply_settings_frames:
  "list_all setting_ok xs \<Longrightarrow> frames_ok (ls_stackFramesWanted s) \<Longrightarrow>
   frames_ok (ls_stackFramesWanted (apply_settings widen xs s))"
  by (induction xs arbitrary: s) (simp_all add: apply_settings_def apply_setting_frames)

lemma apply_prefill_typed:
  "list_all call_typed (ls_prefillData s) \<Longrightarrow> list_all call_typed (ls_prefillData (apply_prefill widen v s))"
  by (cases v) (simp_all add: prefill_defs)


end
