(* ===== verification/Propagation.thy ===== *)
theory Propagation
  imports Trace
begin

section \<open>Trace propagation from HTTP headers\<close>

text \<open>
  Models \<open>xopmiddle/utils.go\<close> (the \<open>traceparent\<close> and \<open>b3\<close> headers) and the part of
  \<open>xopmiddle/middleware.go\<close> that computes the bundle of an inbound request. The request's
  headers are a function from a header's name to its value, the empty string standing for
  an absent header, as \<open>http.Header.Get\<close> does. The byte source of \<open>SetRandom\<close> is the parameter
  \<open>rnd\<close> of the theory \<open>HexBytes\<close>; \<open>None\<close> is a call that never returns.
\<close>

subsection \<open>\<open>traceparent\<close>\<close>

definition set_Trace :: "(Trace \<Rightarrow> Trace) \<Rightarrow> Bundle \<Rightarrow> Bundle" where
  "set_Trace g b = b\<lparr>bu_Trace := g (bu_Trace b)\<rparr>"

definition set_Parent :: "(Trace \<Rightarrow> Trace) \<Rightarrow> Bundle \<Rightarrow> Bundle" where
  "set_Parent g b = b\<lparr>bu_Parent := g (bu_Parent b)\<rparr>"

text \<open>\<open>b.Trace.TraceID().SetRandom()\<close> and \<open>b.Trace.SpanID().SetRandom()\<close>.\<close>

definition Trace_field_SetRandom ::
    "(nat \<Rightarrow> nat \<Rightarrow> u8 list) \<Rightarrow> TraceField \<Rightarrow> nat \<Rightarrow> Bundle \<Rightarrow> (Bundle \<times> nat) option" where
  "Trace_field_SetRandom rnd f k b =
     map_option (\<lambda>(t, k). (b\<lparr>bu_Trace := t\<rparr>, k)) (Wrapped_SetRandom rnd f k (initialize (bu_Trace b)))"

definition SetByParentTraceHeader ::
    "(nat \<Rightarrow> nat \<Rightarrow> u8 list) \<Rightarrow> nat \<Rightarrow> Bundle \<Rightarrow> string \<Rightarrow> (Bundle \<times> nat) option" where
  "SetByParentTraceHeader rnd k b h =
     (let (parent, ok) = TraceFromString h in
      if \<not> ok then do {
        (b, k) \<leftarrow> Trace_field_SetRandom rnd TraceIDField k (b\<lparr>bu_Trace := NewTrace\<rparr>);
        Trace_field_SetRandom rnd SpanIDField k b
      }
      else Trace_field_SetRandom rnd SpanIDField k (b\<lparr>bu_Parent := parent, bu_Trace := parent\<rparr>))"

subsection \<open>\<open>b3\<close>\<close>

definition SetByB3Sampled :: "string \<Rightarrow> Trace \<Rightarrow> Trace" where
  "SetByB3Sampled h t =
     (if h \<in> {''1'', ''true'', ''d''} then Wrapped_SetBytes FlagsField [1] (initialize t)
      else if h \<in> {''0'', ''false''} then Wrapped_SetBytes FlagsField [0] (initialize t)
      else t)"

definition b3RE :: "string \<Rightarrow> (string \<times> string \<times> string \<times> string) option" where
  "b3RE s =
     (let m1 = take 32 s; m2 = take 16 (drop 33 s); r = drop 50 s;
          m3 = takeWhile (\<lambda>c. c \<noteq> CHR ''-'') r; r' = dropWhile (\<lambda>c. c \<noteq> CHR ''-'') r;
          m4 = drop 1 r' in
      if 50 \<le> length s \<and> s ! 32 = CHR ''-'' \<and> s ! 49 = CHR ''-''
         \<and> list_all isHexChar m1 \<and> list_all isHexChar m2
         \<and> m3 \<in> {''0'', ''1'', ''true'', ''false'', ''d''}
         \<and> (r' = [] \<or> length m4 = 16 \<and> list_all isHexChar m4)
      then Some (m1, m2, m3, m4) else None)"

definition SetByB3Header ::
    "(nat \<Rightarrow> nat \<Rightarrow> u8 list) \<Rightarrow> nat \<Rightarrow> Bundle \<Rightarrow> string \<Rightarrow> (Bundle \<times> nat) option" where
  "SetByB3Header rnd k b h =
     (if h \<in> {''0'', ''1'', ''true'', ''false'', ''d''} then do {
        let b = b\<lparr>bu_Parent := SetByB3Sampled h NewTrace\<rparr>;
        let b = b\<lparr>bu_Trace := bu_Parent b\<rparr>;
        (b, k) \<leftarrow> Trace_field_SetRandom rnd TraceIDField k b;
        Trace_field_SetRandom rnd SpanIDField k b
      }
      else case b3RE h of
        None \<Rightarrow> Some (b, k)
      | Some (m1, m2, m3, m4) \<Rightarrow>
          let b = set_Parent (\<lambda>t. Wrapped_SetString TraceIDField m1 (initialize t)) b;
              b = set_Parent (SetByB3Sampled m3) b;
              b = (if m4 = [] then set_Parent (\<lambda>t. Wrapped_SetZero SpanIDField (initialize t)) b
                   else set_Parent (\<lambda>t. Wrapped_SetString SpanIDField m4 (initialize t)) b);
              b = b\<lparr>bu_Trace := bu_Parent b\<rparr>;
              b = set_Trace (\<lambda>t. Wrapped_SetString SpanIDField m2 (initialize t)) b
          in Some (b, k))"

subsection \<open>The bundle of an inbound request\<close>

definition childBundle_XB3 ::
    "(nat \<Rightarrow> nat \<Rightarrow> u8 list) \<Rightarrow> nat \<Rightarrow> (string \<Rightarrow> string) \<Rightarrow> Bundle \<Rightarrow> (Bundle \<times> nat) option" where
  "childBundle_XB3 rnd k hdr b =
     (let b = set_Trace (\<lambda>t. Wrapped_SetString TraceIDField (hdr ''X-B3-TraceId'') (initialize t)) b;
          b = (if hdr ''X-B3-Sampled'' \<noteq> [] then set_Trace (SetByB3Sampled (hdr ''X-B3-Sampled'')) b else b);
          b = b\<lparr>bu_Parent := bu_Trace b\<rparr>;
          b = (if hdr ''X-B3-ParentSpanId'' \<noteq> []
               then set_Parent (\<lambda>t. Wrapped_SetString SpanIDField (hdr ''X-B3-ParentSpanId'') (initialize t)) b
               else set_Parent (\<lambda>t. Wrapped_SetZero SpanIDField (initialize t)) b)
      in if hdr ''X-B3-SpanId'' \<noteq> []
         then Some (set_Trace (\<lambda>t. Wrapped_SetString SpanIDField (hdr ''X-B3-SpanId'') (initialize t)) b, k)
         else Trace_field_SetRandom rnd SpanIDField k b)"

text \<open>\<open>bundle.Trace.TraceID().IsZero()\<close> initialises the trace it is called on.\<close>

definition Trace_field_random_if_zero ::
    "(nat \<Rightarrow> nat \<Rightarrow> u8 list) \<Rightarrow> TraceField \<Rightarrow> nat \<Rightarrow> Bundle \<Rightarrow> (Bundle \<times> nat) option" where
  "Trace_field_random_if_zero rnd f k b =
     (let b = set_Trace initialize b in
      if HexBytes_IsZero (get_field f (bu_Trace b)) then Trace_field_SetRandom rnd f k b
      else Some (b, k))"

definition makeChildBundle ::
    "(nat \<Rightarrow> nat \<Rightarrow> u8 list) \<Rightarrow> nat \<Rightarrow> (string \<Rightarrow> string) \<Rightarrow> Bundle \<Rightarrow> (Bundle \<times> nat) option" where
  "makeChildBundle rnd k hdr b = do {
     (b, k) \<leftarrow>
       (if hdr ''b3'' \<noteq> [] then SetByB3Header rnd k b (hdr ''b3'')
        else if hdr ''traceparent'' \<noteq> [] then SetByParentTraceHeader rnd k b (hdr ''traceparent'')
        else if hdr ''X-B3-TraceId'' \<noteq> [] then childBundle_XB3 rnd k hdr b
        else Some (b, k));
     (b, k) \<leftarrow> Trace_field_random_if_zero rnd TraceIDField k b;
     Trace_field_random_if_zero rnd SpanIDField k b
   }"

subsection \<open>Every step keeps both traces valid\<close>

definition bundle_ok :: "Bundle \<Rightarrow> bool" where
  "bundle_ok b \<longleftrightarrow> trace_ok (bu_Parent b) \<and> trace_ok (bu_Trace b)"

definition rand_live :: "(nat \<Rightarrow> nat \<Rightarrow> u8 list) \<Rightarrow> bool" where
  "rand_live rnd \<longleftrightarrow> rand_fills rnd \<and> (\<forall>n \<in> {8, 16}. \<forall>i. \<exists>j \<ge> i. rnd j n \<noteq> zeroBytesN n)"

lemma NewBundle_ok: "bundle_ok NewBundle"
  by (simp add: bundle_ok_def NewBundle_def NewTrace_ok)

lemma SetByB3Sampled_ok [simp]: "trace_ok t \<Longrightarrow> trace_ok (SetByB3Sampled h t)"
  by (auto simp: SetByB3Sampled_def intro!: Wrapped_ops_ok initialize_ok)

lemma bundle_ok_set:
  "bundle_ok b \<Longrightarrow> (\<And>t. trace_ok t \<Longrightarrow> trace_ok (g t)) \<Longrightarrow> bundle_ok (set_Trace g b)"
  "bundle_ok b \<Longrightarrow> (\<And>t. trace_ok t \<Longrightarrow> trace_ok (g t)) \<Longrightarrow> bundle_ok (set_Parent g b)"
  by (auto simp: bundle_ok_def set_Trace_def set_Parent_def)

lemma Trace_field_SetRandom_returns:
  assumes "rand_live rnd" "bundle_ok b" "f = TraceIDField \<or> f = SpanIDField"
  shows "\<exists>b' k'. Trace_field_SetRandom rnd f k b = Some (b', k') \<and> bundle_ok b' \<and>
    tr_initialized (bu_Trace b') \<and> \<not> HexBytes_IsZero (get_field f (bu_Trace b')) \<and>
    (\<forall>f'. f' \<noteq> f \<longrightarrow> get_field f' (bu_Trace b') = get_field f' (initialize (bu_Trace b))) \<and>
    bu_Parent b' = bu_Parent b \<and> bu_State b' = bu_State b \<and> bu_Baggage b' = bu_Baggage b"
proof -
  let ?t = "initialize (bu_Trace b)"
  have t: "trace_ok ?t" "tr_initialized ?t" using assms(2) by (auto simp: bundle_ok_def)
  have fills: "rand_fills rnd" using assms(1) by (simp add: rand_live_def)
  obtain n where n: "n \<in> {8, 16}" "n = field_size f" using assms(3) by auto
  then obtain j where "k \<le> j" "rnd j n \<noteq> zeroBytesN n"
    using assms(1) unfolding rand_live_def by blast
  moreover have "length (hb_b (get_field f ?t)) = n"
    using t n by (simp add: trace_ok_def length_get_field del: get_field_initialize_b)
  ultimately obtain x k' where "HexBytes_setRandom rnd k (get_field f ?t) = Some (x, k')"
    using setRandom_Some [OF fills, of j n k "get_field f ?t"] n by metis
  then obtain t' where t': "Wrapped_SetRandom rnd f k ?t = Some (t', k')"
    by (simp add: Wrapped_SetRandom_def)
  from Wrapped_SetRandom_result [OF fills t t'] t' assms(2) show ?thesis
    by (auto simp: Trace_field_SetRandom_def bundle_ok_def)
qed

lemma SetByB3Header_returns:
  assumes "rand_live rnd" "bundle_ok b"
  shows "\<exists>b' k'. SetByB3Header rnd k b h = Some (b', k') \<and> bundle_ok b'"
proof (cases "h \<in> {''0'', ''1'', ''true'', ''false'', ''d''}")
  case True
  let ?p = "SetByB3Sampled h NewTrace"
  let ?b = "b\<lparr>bu_Parent := ?p, bu_Trace := ?p\<rparr>"
  have "bundle_ok ?b" by (simp add: bundle_ok_def NewTrace_ok)
  then obtain b1 k1 where "Trace_field_SetRandom rnd TraceIDField k ?b = Some (b1, k1)" "bundle_ok b1"
    using Trace_field_SetRandom_returns [OF assms(1), of ?b TraceIDField k] by auto
  moreover from this obtain b2 k2 where
    "Trace_field_SetRandom rnd SpanIDField k1 b1 = Some (b2, k2)" "bundle_ok b2"
    using Trace_field_SetRandom_returns [OF assms(1), of b1 SpanIDField k1] by auto
  ultimately show ?thesis using True by (simp add: SetByB3Header_def)
next
  case False
  have ok: "bundle_ok (b\<lparr>bu_Trace := bu_Parent b\<rparr>)" if "bundle_ok b" for b
    using that by (simp add: bundle_ok_def)
  from False assms(2) show ?thesis
    by (auto simp: SetByB3Header_def Let_def split: option.splits
        intro!: bundle_ok_set ok Wrapped_ops_ok initialize_ok)
qed

lemma SetByParentTraceHeader_returns:
  assumes "rand_live rnd" "bundle_ok b"
  shows "\<exists>b' k'. SetByParentTraceHeader rnd k b h = Some (b', k') \<and> bundle_ok b'"
proof -
  obtain parent ok where p: "TraceFromString h = (parent, ok)" by fastforce
  show ?thesis
  proof (cases ok)
    case True
    have "trace_ok parent"
      using TraceFromString_ok [of h] p by simp
    then have "bundle_ok (b\<lparr>bu_Parent := parent, bu_Trace := parent\<rparr>)" by (simp add: bundle_ok_def)
    from Trace_field_SetRandom_returns [OF assms(1) this, of SpanIDField k] True p
    show ?thesis by (auto simp: SetByParentTraceHeader_def)
  next
    case False
    have "bundle_ok (b\<lparr>bu_Trace := NewTrace\<rparr>)"
      using assms(2) by (simp add: bundle_ok_def NewTrace_ok)
    then obtain b1 k1 where
      "Trace_field_SetRandom rnd TraceIDField k (b\<lparr>bu_Trace := NewTrace\<rparr>) = Some (b1, k1)" "bundle_ok b1"
      using Trace_field_SetRandom_returns [OF assms(1), of _ TraceIDField k] by blast
    with Trace_field_SetRandom_returns [OF assms(1), of b1 SpanIDField k1] False p
    show ?thesis by (auto simp: SetByParentTraceHeader_def)
  qed
qed

lemma childBundle_XB3_returns:
  assumes "rand_live rnd" "bundle_ok b"
  shows "\<exists>b' k'. childBundle_XB3 rnd k hdr b = Some (b', k') \<and> bundle_ok b'"
proof -
  have ok: "bundle_ok (b\<lparr>bu_Parent := bu_Trace b\<rparr>)" if "bundle_ok b" for b
    using that by (simp add: bundle_ok_def)
  have rnd: "\<exists>b' k'. Trace_field_SetRandom rnd SpanIDField k b = Some (b', k') \<and> bundle_ok b'"
    if "bundle_ok b" for b
    using Trace_field_SetRandom_returns [OF assms(1) that, of SpanIDField k] by blast
  show ?thesis
  proof (cases "hdr ''X-B3-SpanId'' = []")
    case True
    with assms(2) show ?thesis
      by (simp only: childBundle_XB3_def Let_def simp_thms if_False)
        (rule rnd, auto intro!: bundle_ok_set ok Wrapped_ops_ok initialize_ok)
  next
    case False
    with assms(2) show ?thesis
      by (auto simp: childBundle_XB3_def Let_def
          intro!: bundle_ok_set ok Wrapped_ops_ok initialize_ok)
  qed
qed

subsection \<open>What an inbound request's bundle is\<close>

text \<open>A random source that cannot fail: it fills every buffer with ones.\<close>

lemma ones_rnd_rand_live: "rand_live ones_rnd"
  using ones_rnd_live by (simp add: rand_live_def ones_rnd_fills)

lemma makeChildBundle_first:
  assumes "rand_live rnd" "bundle_ok b"
  shows "\<exists>b' k'. (if hdr ''b3'' \<noteq> [] then SetByB3Header rnd k b (hdr ''b3'')
        else if hdr ''traceparent'' \<noteq> [] then SetByParentTraceHeader rnd k b (hdr ''traceparent'')
        else if hdr ''X-B3-TraceId'' \<noteq> [] then childBundle_XB3 rnd k hdr b
        else Some (b, k)) = Some (b', k') \<and> bundle_ok b'"
  using assms SetByB3Header_returns [OF assms] SetByParentTraceHeader_returns [OF assms]
    childBundle_XB3_returns [OF assms] by simp

lemma Trace_field_random_if_zero_returns:
  assumes "rand_live rnd" "bundle_ok b" "f = TraceIDField \<or> f = SpanIDField"
  shows "\<exists>b' k'. Trace_field_random_if_zero rnd f k b = Some (b', k') \<and> bundle_ok b' \<and>
    tr_initialized (bu_Trace b') \<and> \<not> HexBytes_IsZero (get_field f (bu_Trace b')) \<and>
    (\<forall>f'. f' \<noteq> f \<longrightarrow> get_field f' (bu_Trace b') = get_field f' (initialize (bu_Trace b)))"
proof -
  have ok: "bundle_ok (set_Trace initialize b)"
    using assms(2) by (auto simp: bundle_ok_def set_Trace_def)
  from Trace_field_SetRandom_returns [OF assms(1) ok assms(3), of k] ok show ?thesis
    by (auto simp: Trace_field_random_if_zero_def Let_def set_Trace_def)
qed

text \<open>
  C18. Whatever headers a request carries, the middleware's bundle is computed (given that the
  random source works), both its traces satisfy the representation invariant, the span's trace
  is initialised, and neither its trace id nor its span id is zero.
\<close>

theorem makeChildBundle_spec:
  assumes "rand_live rnd" "bundle_ok b"
  shows "\<exists>b' k'. makeChildBundle rnd k hdr b = Some (b', k') \<and> bundle_ok b' \<and>
    tr_initialized (bu_Trace b') \<and>
    \<not> HexBytes_IsZero (tr_traceID (bu_Trace b')) \<and> \<not> HexBytes_IsZero (tr_spanID (bu_Trace b'))"
proof -
  obtain b1 k1 where 1: "(if hdr ''b3'' \<noteq> [] then SetByB3Header rnd k b (hdr ''b3'')
        else if hdr ''traceparent'' \<noteq> [] then SetByParentTraceHeader rnd k b (hdr ''traceparent'')
        else if hdr ''X-B3-TraceId'' \<noteq> [] then childBundle_XB3 rnd k hdr b
        else Some (b, k)) = Some (b1, k1)" "bundle_ok b1"
    using makeChildBundle_first [OF assms] by blast
  obtain b2 k2 where 2: "Trace_field_random_if_zero rnd TraceIDField k1 b1 = Some (b2, k2)" "bundle_ok b2"
      "tr_initialized (bu_Trace b2)" "\<not> HexBytes_IsZero (get_field TraceIDField (bu_Trace b2))"
    using Trace_field_random_if_zero_returns [OF assms(1) 1(2)] by blast
  obtain b3 k3 where 3: "Trace_field_random_if_zero rnd SpanIDField k2 b2 = Some (b3, k3)" "bundle_ok b3"
      "tr_initialized (bu_Trace b3)" "\<not> HexBytes_IsZero (get_field SpanIDField (bu_Trace b3))"
      "get_field TraceIDField (bu_Trace b3) = get_field TraceIDField (initialize (bu_Trace b2))"
    using Trace_field_random_if_zero_returns [OF assms(1) 2(2), of SpanIDField k2] by blast
  have "makeChildBundle rnd k hdr b = Some (b3, k3)"
    unfolding makeChildBundle_def 1(1) by (simp add: 2(1) 3(1))
  with 2 3 show ?thesis by simp
qed

theorem makeChildBundle_spec_witness:
  "\<exists>b' k'. makeChildBundle ones_rnd 0 (\<lambda>h. if h = ''b3'' then ''d'' else []) NewBundle = Some (b', k') \<and>
     \<not> HexBytes_IsZero (tr_spanID (bu_Trace b'))"
  using makeChildBundle_spec [OF ones_rnd_rand_live NewBundle_ok] by blast

lemma get_SetByB3Sampled:
  "f \<noteq> FlagsField \<Longrightarrow> hb_b (get_field f (SetByB3Sampled h t)) = hb_b (get_field f t)"
  by (auto simp: SetByB3Sampled_def Wrapped_SetBytes_def)

lemma get_SetByB3Sampled_flags:
  assumes "trace_ok t" "h \<in> {''0'', ''1'', ''true'', ''false'', ''d''}"
  shows "hb_b (get_field FlagsField (SetByB3Sampled h t)) = [if h \<in> {''1'', ''true'', ''d''} then 1 else 0]"
proof -
  have "length (hb_b (get_field FlagsField t)) = 1"
    using length_get_field [of t FlagsField] assms(1) by (simp add: trace_ok_def)
  then show ?thesis
    using assms(2) by (auto simp: SetByB3Sampled_def Wrapped_SetBytes_def simp del: get_field.simps)
qed

lemma SetByB3Sampled_initialized:
  "h \<in> {''0'', ''1'', ''true'', ''false'', ''d''} \<Longrightarrow> tr_initialized (SetByB3Sampled h t)"
  by (auto simp: SetByB3Sampled_def)

lemma b3RE_Some:
  assumes "b3RE h = Some (m1, m2, m3, m4)"
  shows "h = m1 @ ''-'' @ m2 @ ''-'' @ m3 @ (if m4 = [] then [] else CHR ''-'' # m4)"
    and "length m1 = 32" "length m2 = 16" "m3 \<in> {''0'', ''1'', ''true'', ''false'', ''d''}"
    and "m4 = [] \<or> length m4 = 16"
    and "list_all isHexChar m1" "list_all isHexChar m2" "list_all isHexChar m4"
proof -
  let ?r = "drop 50 h"
  let ?r' = "dropWhile (\<lambda>c. c \<noteq> CHR ''-'') ?r"
  let ?ok = "50 \<le> length h \<and> h ! 32 = CHR ''-'' \<and> h ! 49 = CHR ''-'' \<and>
    list_all isHexChar (take 32 h) \<and> list_all isHexChar (take 16 (drop 33 h)) \<and>
    takeWhile (\<lambda>c. c \<noteq> CHR ''-'') ?r \<in> {''0'', ''1'', ''true'', ''false'', ''d''} \<and>
    (?r' = [] \<or> length (drop 1 ?r') = 16 \<and> list_all isHexChar (drop 1 ?r'))"
  have c: ?ok
    using assms unfolding b3RE_def Let_def by (rule contrapos_pp) (simp only: if_False option.distinct simp_thms)
  have "(take 32 h, take 16 (drop 33 h), takeWhile (\<lambda>c. c \<noteq> CHR ''-'') ?r, drop 1 ?r') = (m1, m2, m3, m4)"
    using assms unfolding b3RE_def Let_def if_P [OF c] by simp
  then have m: "m1 = take 32 h" "m2 = take 16 (drop 33 h)" "m3 = takeWhile (\<lambda>c. c \<noteq> CHR ''-'') ?r"
      "m4 = drop 1 ?r'" by simp_all
  note c' = c [folded m]
  note c2 = c' [THEN conjunct2, THEN conjunct2, THEN conjunct2]
  note c3 = c2 [THEN conjunct2, THEN conjunct2]
  have len: "50 \<le> length h" by (rule c' [THEN conjunct1])
  have d: "h ! 32 = CHR ''-''" by (rule c' [THEN conjunct2, THEN conjunct1])
  have d': "h ! 49 = CHR ''-''" by (rule c' [THEN conjunct2, THEN conjunct2, THEN conjunct1])
  have h: "list_all isHexChar m1" by (rule c2 [THEN conjunct1])
  have h': "list_all isHexChar m2" by (rule c2 [THEN conjunct2, THEN conjunct1])
  have s: "m3 \<in> {''0'', ''1'', ''true'', ''false'', ''d''}" by (rule c3 [THEN conjunct1])
  have r': "?r' = [] \<or> length m4 = 16 \<and> list_all isHexChar m4" by (rule c3 [THEN conjunct2])
  show "length m1 = 32" "length m2 = 16" using len by (simp_all add: m)
  show "m3 \<in> {''0'', ''1'', ''true'', ''false'', ''d''}" by (rule s)
  show "list_all isHexChar m1" "list_all isHexChar m2" by (rule h, rule h')
  have nil: "m4 = []" if "?r' = []" by (simp only: m(4) that drop_Nil)
  show "m4 = [] \<or> length m4 = 16" using r' nil by metis
  show "list_all isHexChar m4" using r' nil list.pred_inject(1) by metis
  have split: "drop n h = h ! n # drop (Suc n) h" if "n < 50" for n
    using that len by (simp add: Cons_nth_drop_Suc)
  have cut: "drop n h = take k (drop n h) @ drop (n + k) h" for n k
    by (metis append_take_drop_id drop_drop add.commute)
  have "h = m1 @ drop 32 h" using cut [of 0 32] m by simp
  also have "drop 32 h = CHR ''-'' # drop 33 h" using split [of 32] d by simp
  also have "drop 33 h = m2 @ drop 49 h" using cut [of 33 16] m by simp
  also have "drop 49 h = CHR ''-'' # ?r" using split [of 49] d' by simp
  also have "?r = m3 @ ?r'" using m by simp
  also have "?r' = (if m4 = [] then [] else CHR ''-'' # m4)"
  proof (cases ?r')
    case Nil
    with nil show ?thesis by metis
  next
    case (Cons c cs)
    then have "c = CHR ''-''" by (metis (full_types) dropWhile_eq_Cons_conv)
    then show ?thesis using Cons r' m by auto
  qed
  finally show "h = m1 @ ''-'' @ m2 @ ''-'' @ m3 @ (if m4 = [] then [] else CHR ''-'' # m4)" by simp
qed

text \<open>
  A well-formed single \<open>b3\<close> header is carried over exactly: the trace and its parent share
  the header's trace id and its sampling flag, the trace has the header's span id, and the
  parent's span id is the optional fourth part, or zero without one. (The ids are compared as
  the lower-case hex text of the header.) No random bytes are drawn.
\<close>

theorem SetByB3Header_match:
  assumes ok: "bundle_ok b" and re: "b3RE h = Some (m1, m2, m3, m4)"
    and long: "h \<notin> {''0'', ''1'', ''true'', ''false'', ''d''}"
  shows "\<exists>b'. SetByB3Header rnd k b h = Some (b', k) \<and> bundle_ok b' \<and>
    hex_Encode (hb_b (get_field TraceIDField (bu_Trace b'))) = map lowerChar m1 \<and>
    hex_Encode (hb_b (get_field TraceIDField (bu_Parent b'))) = map lowerChar m1 \<and>
    hex_Encode (hb_b (get_field SpanIDField (bu_Trace b'))) = map lowerChar m2 \<and>
    hex_Encode (hb_b (get_field SpanIDField (bu_Parent b'))) =
      (if m4 = [] then replicate 16 (CHR ''0'') else map lowerChar m4) \<and>
    hb_b (get_field FlagsField (bu_Trace b')) = [if m3 \<in> {''1'', ''true'', ''d''} then 1 else 0] \<and>
    hb_b (get_field FlagsField (bu_Parent b')) = [if m3 \<in> {''1'', ''true'', ''d''} then 1 else 0]"
proof -
  note m = b3RE_Some [OF re]
  let ?p1 = "SetByB3Sampled m3 (Wrapped_SetString TraceIDField m1 (initialize (bu_Parent b)))"
  let ?p2 = "if m4 = [] then Wrapped_SetZero SpanIDField ?p1 else Wrapped_SetString SpanIDField m4 ?p1"
  let ?t = "Wrapped_SetString SpanIDField m2 ?p2"
  have i: "tr_initialized ?p1" "tr_initialized ?p2"
    using SetByB3Sampled_initialized [OF m(4)] by auto
  have ret: "SetByB3Header rnd k b h = Some (b\<lparr>bu_Parent := ?p2, bu_Trace := ?t\<rparr>, k)"
    using long re i by (simp add: SetByB3Header_def set_Parent_def set_Trace_def Let_def)
  have p0: "trace_ok (Wrapped_SetString TraceIDField m1 (initialize (bu_Parent b)))"
    using ok by (intro Wrapped_ops_ok) (auto simp: bundle_ok_def)
  then have p1: "trace_ok ?p1" by simp
  then have p2: "trace_ok ?p2" using i by (auto intro: Wrapped_ops_ok)
  then have t: "trace_ok ?t" using i by (intro Wrapped_ops_ok)
  have sz: "length (hb_b (get_field f x)) = field_size f" if "trace_ok x" for x f
    using that by (simp add: trace_ok_def length_get_field)
  have "hex_Encode (hb_b (get_field TraceIDField ?p1)) = map lowerChar m1"
    using m sz [of "bu_Parent b" TraceIDField] ok
    by (simp add: get_SetByB3Sampled get_field_Wrapped_SetString setBytesFromString_parsed bundle_ok_def
        del: get_field.simps)
  then have "hex_Encode (hb_b (get_field TraceIDField ?p2)) = map lowerChar m1"
    by (simp add: get_field_Wrapped_SetString Wrapped_SetZero_def del: get_field.simps)
  moreover have "hex_Encode (hb_b (get_field SpanIDField ?p2)) =
      (if m4 = [] then replicate 16 (CHR ''0'') else map lowerChar m4)"
    using m(5,8) sz [OF p1, of SpanIDField]
    by (auto simp: get_field_Wrapped_SetString setBytesFromString_parsed Wrapped_SetZero_def hex_Encode_zero
        simp del: get_field.simps)
  moreover have "hex_Encode (hb_b (get_field SpanIDField ?t)) = map lowerChar m2"
    using m sz [OF p2, of SpanIDField]
    by (simp add: get_field_Wrapped_SetString setBytesFromString_parsed del: get_field.simps)
  moreover have "hb_b (get_field FlagsField ?p2) = [if m3 \<in> {''1'', ''true'', ''d''} then 1 else 0]"
    using get_SetByB3Sampled_flags [OF p0 m(4)]
    by (simp add: get_field_Wrapped_SetString Wrapped_SetZero_def del: get_field.simps insert_iff)
  ultimately show ?thesis
    using ret p2 t
    by (simp add: bundle_ok_def get_field_Wrapped_SetString del: get_field.simps)
qed

theorem SetByB3Header_match_witness:
  "\<exists>b'. SetByB3Header ones_rnd 0 NewBundle
     (replicate 32 (CHR ''a'') @ ''-00f067aa0ba902b7-1'') = Some (b', 0) \<and>
   hex_Encode (hb_b (get_field SpanIDField (bu_Trace b'))) = ''00f067aa0ba902b7''"
proof -
  let ?h = "replicate 32 (CHR ''a'') @ ''-00f067aa0ba902b7-1''"
  have "b3RE ?h = Some (replicate 32 (CHR ''a''), ''00f067aa0ba902b7'', ''1'', [])"
    by code_simp
  moreover have "?h \<notin> {''0'', ''1'', ''true'', ''false'', ''d''}" by simp
  moreover have "map lowerChar ''00f067aa0ba902b7'' = ''00f067aa0ba902b7''" by code_simp
  ultimately show ?thesis
    using SetByB3Header_match [OF NewBundle_ok, of ?h _ "''00f067aa0ba902b7''"] by metis
qed

text \<open>
  C35. A valid \<open>traceparent\<close> header becomes the parent, and the span's trace differs from it in
  nothing but a new span id that is not zero; a malformed one leaves the parent alone and starts
  a new trace.
\<close>

theorem SetByParentTraceHeader_spec:
  assumes live: "rand_live rnd" and ok: "bundle_ok b"
  shows "\<exists>b' k'. SetByParentTraceHeader rnd k b h = Some (b', k') \<and> bundle_ok b' \<and>
    \<not> HexBytes_IsZero (get_field SpanIDField (bu_Trace b')) \<and>
    (if traceRE h \<noteq> None
     then bu_Parent b' = fst (TraceFromString h) \<and>
       (\<forall>f. f \<noteq> SpanIDField \<longrightarrow> get_field f (bu_Trace b') = get_field f (bu_Parent b'))
     else bu_Parent b' = bu_Parent b \<and> \<not> HexBytes_IsZero (get_field TraceIDField (bu_Trace b')))"
proof (cases "traceRE h")
  case (Some m)
  obtain p c where pc: "TraceFromString h = (p, c)" by fastforce
  with Trace_SetString_Some [OF zeroTrace_ok Some] have p: "c" "trace_ok p" "tr_initialized p"
    by (auto simp: TraceFromString_def)
  then have "bundle_ok (b\<lparr>bu_Parent := p, bu_Trace := p\<rparr>)" by (simp add: bundle_ok_def)
  from Trace_field_SetRandom_returns [OF live this, of SpanIDField k] show ?thesis
    using pc p Some by (auto simp: SetByParentTraceHeader_def simp del: get_field.simps)
next
  case None
  then have p: "\<not> snd (TraceFromString h)" by (simp add: TraceFromString_def Trace_SetString_def)
  have "bundle_ok (b\<lparr>bu_Trace := NewTrace\<rparr>)" using ok by (simp add: bundle_ok_def NewTrace_ok)
  from Trace_field_SetRandom_returns [OF live this, of TraceIDField k] obtain b1 k1 where
    1: "Trace_field_SetRandom rnd TraceIDField k (b\<lparr>bu_Trace := NewTrace\<rparr>) = Some (b1, k1)" "bundle_ok b1"
      "tr_initialized (bu_Trace b1)" "\<not> HexBytes_IsZero (get_field TraceIDField (bu_Trace b1))"
      "bu_Parent b1 = bu_Parent b" by (auto simp del: get_field.simps)
  from Trace_field_SetRandom_returns [OF live 1(2), of SpanIDField k1] show ?thesis
    using 1 p None
    by (auto simp: SetByParentTraceHeader_def split_beta simp del: get_field.simps)
qed

theorem SetByParentTraceHeader_spec_witness:
  "\<exists>b' k'. SetByParentTraceHeader ones_rnd 0 NewBundle ''junk'' = Some (b', k') \<and>
    \<not> HexBytes_IsZero (get_field SpanIDField (bu_Trace b'))"
  using SetByParentTraceHeader_spec [OF ones_rnd_rand_live NewBundle_ok] by blast

end
