(* ===== verification/BaseGroup.thy ===== *)
theory BaseGroup
  imports BaseAPI "HOL-Library.Multiset"
begin

section \<open>Several base loggers behind one\<close>

text \<open>
  Models \<open>basegroup.go\<close> (a list of base loggers as one base logger) and \<open>base.go\<close> (the lists of
  base loggers of a seed). The state of the group is the list of its members' states; an object
  of the group is the list of the members' objects, each with the number of its member. The
  methods of the group are generated: every one of them calls the same method on each object,
  which is \<open>each\<close>, and collects the new objects, which is \<open>each_new\<close>.
\<close>

subsection \<open>The group's methods\<close>

fun each :: "(nat \<Rightarrow> 'h \<Rightarrow> 'w \<Rightarrow> 'w option) \<Rightarrow> (nat \<times> 'h) list \<Rightarrow> 'w list \<Rightarrow> 'w list option" where
  "each f [] ws = Some ws"
| "each f ((i, h) # hs) ws =
     (if i < length ws then
        (case f i h (ws ! i) of None \<Rightarrow> None | Some w \<Rightarrow> each f hs (ws[i := w]))
      else None)"

fun each_new ::
    "(nat \<Rightarrow> 'h \<Rightarrow> 'w \<Rightarrow> ('k \<times> 'w) option) \<Rightarrow> (nat \<times> 'h) list \<Rightarrow> 'w list \<Rightarrow> ((nat \<times> 'k) list \<times> 'w list) option" where
  "each_new f [] ws = Some ([], ws)"
| "each_new f ((i, h) # hs) ws =
     (if i < length ws then
        (case f i h (ws ! i) of
           None \<Rightarrow> None
         | Some (k, w) \<Rightarrow> map_option (\<lambda>(ks, ws). ((i, k) # ks, ws)) (each_new f hs (ws[i := w])))
      else None)"

text \<open>
  \<open>startRequests\<close>: a logger whose ID was seen before is skipped. \<open>i\<close> is the number of the first
  of the loggers, \<open>m\<close> the map from IDs to requests.
\<close>

fun startRequests ::
    "create \<Rightarrow> nat \<Rightarrow> ('h, 'w, 'm) base list \<Rightarrow> (string \<times> (nat \<times> 'h)) list \<Rightarrow> 'w list \<Rightarrow>
     ((nat \<times> 'h) list \<times> (string \<times> (nat \<times> 'h)) list \<times> 'w list) option" where
  "startRequests x i [] m ws = Some ([], m, ws)"
| "startRequests x i (b # bs) m ws =
     (if map_of m (b_ID b) \<noteq> None then startRequests x (Suc i) bs m ws
      else if i < length ws then
        (case b_new b x None (ws ! i) of
           None \<Rightarrow> None
         | Some (h, w) \<Rightarrow>
             map_option (\<lambda>(hs, m, ws). ((i, h) # hs, m, ws))
               (startRequests x (Suc i) bs ((b_ID b, (i, h)) # m) (ws[i := w])))
      else None)"

definition strings_Join :: "string list \<Rightarrow> string" where
  "strings_Join ids = (case ids of [] \<Rightarrow> [] | s # ss \<Rightarrow> s @ concat (map (\<lambda>t. CHR ''/'' # t) ss))"

definition group_ID :: "('h, 'w, 'm) base list \<Rightarrow> string" where
  "group_ID bs = strings_Join (map b_ID bs)"

definition group_ReferencesKept :: "('h, 'w, 'm) base list \<Rightarrow> bool" where
  "group_ReferencesKept bs = list_ex b_ReferencesKept bs"

definition group_Buffered :: "('h, 'w, 'm) base list \<Rightarrow> bool" where
  "group_Buffered bs = list_ex b_Buffered bs"

definition group_new ::
    "('h, 'w, 'm) base list \<Rightarrow> create \<Rightarrow> (nat \<times> 'h) list option \<Rightarrow> 'w list \<Rightarrow> ((nat \<times> 'h) list \<times> 'w list) option" where
  "group_new bs x h ws =
     (case h of
        None \<Rightarrow> map_option (\<lambda>(hs, m, ws). (hs, ws)) (startRequests x 0 bs [] ws)
      | Some hs \<Rightarrow> each_new (\<lambda>i h w. b_new (bs ! i) x (Some h) w) hs ws)"

definition group_do ::
    "('h, 'w, 'm) base list \<Rightarrow> 'm action \<Rightarrow> (nat \<times> 'h) list \<Rightarrow> 'w list \<Rightarrow> 'w list option" where
  "group_do bs y hs ws = each (\<lambda>i h w. b_do (bs ! i) y h w) hs ws"

text \<open>
  \<open>baseRequests.Final\<close> starts one goroutine per request, and each of them reads the loop's
  variable when it runs: \<open>sched j\<close> is the number of the request that it holds by then.
\<close>

definition group_Final ::
    "('h, 'w, 'm) base list \<Rightarrow> (nat \<Rightarrow> nat) \<Rightarrow> (nat \<times> 'h) list \<Rightarrow> 'w list \<Rightarrow> 'w list option" where
  "group_Final bs sched hs ws =
     each (\<lambda>i h w. b_Final (bs ! i) h w) (map (\<lambda>j. hs ! sched j) [0..<length hs]) ws"

text \<open>The loop is over by the time any of the goroutines runs.\<close>

definition group_base :: "('h, 'w, 'm) base list \<Rightarrow> ((nat \<times> 'h) list, 'w list, 'm) base" where
  "group_base bs =
     \<lparr>b_ID = group_ID bs, b_ReferencesKept = group_ReferencesKept bs, b_Buffered = group_Buffered bs,
      b_new = group_new bs, b_do = group_do bs,
      b_Final = (\<lambda>hs. group_Final bs (\<lambda>_. length hs - 1) hs)\<rparr>"

definition CombineBaseLoggers ::
    "('h, 'w, 'm) base \<Rightarrow> ('h, 'w, 'm) base list \<Rightarrow> ('h, 'w, 'm) base + ((nat \<times> 'h) list, 'w list, 'm) base" where
  "CombineBaseLoggers first others = (if others = [] then Inl first else Inr (group_base (first # others)))"

subsection \<open>What each member sees\<close>

text \<open>A member counts unless one before it has the same ID.\<close>

definition live :: "('h, 'w, 'm) base list \<Rightarrow> nat \<Rightarrow> bool" where
  "live bs i \<longleftrightarrow> i < length bs \<and> b_ID (bs ! i) \<notin> b_ID ` set (take i bs)"

lemma each_proj:
  assumes "each f hs ws = Some ws'" "distinct (map fst hs)"
  shows "length ws' = length ws \<and>
    (\<forall>i < length ws. case map_of hs i of None \<Rightarrow> ws' ! i = ws ! i | Some h \<Rightarrow> f i h (ws ! i) = Some (ws' ! i))"
  using assms
proof (induction hs arbitrary: ws)
  case (Cons p hs)
  obtain j h where p: "p = (j, h)" by (cases p)
  with Cons.prems obtain w where w: "j < length ws" "f j h (ws ! j) = Some w" "each f hs (ws[j := w]) = Some ws'"
    by (auto split: if_splits option.splits)
  from Cons.IH [OF w(3)] Cons.prems(2)
  have IH: "length ws' = length ws"
    "\<forall>i < length ws. case map_of hs i of None \<Rightarrow> ws' ! i = ws[j := w] ! i
       | Some h \<Rightarrow> f i h (ws[j := w] ! i) = Some (ws' ! i)"
    by simp_all
  have nj: "map_of hs j = None" using Cons.prems(2) by (simp add: p map_of_eq_None_iff)
  have "case map_of (p # hs) i of None \<Rightarrow> ws' ! i = ws ! i | Some h \<Rightarrow> f i h (ws ! i) = Some (ws' ! i)"
    if "i < length ws" for i
    using IH(2) [rule_format, OF that] nj w by (cases "i = j") (auto simp: p split: option.splits)
  with IH(1) show ?case by blast
qed (simp split: option.split)

lemma each_new_proj:
  assumes "each_new f hs ws = Some (ks, ws')" "distinct (map fst hs)"
  shows "length ws' = length ws \<and> map fst ks = map fst hs \<and>
    (\<forall>i < length ws. case map_of hs i of None \<Rightarrow> ws' ! i = ws ! i
       | Some h \<Rightarrow> \<exists>k. map_of ks i = Some k \<and> f i h (ws ! i) = Some (k, ws' ! i))"
  using assms
proof (induction hs arbitrary: ws ks)
  case (Cons p hs)
  obtain j h where p: "p = (j, h)" by (cases p)
  with Cons.prems obtain k w ks1 where w: "j < length ws" "f j h (ws ! j) = Some (k, w)"
      "each_new f hs (ws[j := w]) = Some (ks1, ws')" "ks = (j, k) # ks1"
    by (auto split: if_splits option.splits)
  from Cons.IH [OF w(3)] Cons.prems(2)
  have IH: "length ws' = length ws" "map fst ks1 = map fst hs"
    "\<forall>i < length ws. case map_of hs i of None \<Rightarrow> ws' ! i = ws[j := w] ! i
       | Some h \<Rightarrow> \<exists>k. map_of ks1 i = Some k \<and> f i h (ws[j := w] ! i) = Some (k, ws' ! i)"
    by simp_all
  have nj: "map_of hs j = None" using Cons.prems(2) by (simp add: p map_of_eq_None_iff)
  have "case map_of (p # hs) i of None \<Rightarrow> ws' ! i = ws ! i
      | Some h \<Rightarrow> \<exists>k. map_of ks i = Some k \<and> f i h (ws ! i) = Some (k, ws' ! i)"
    if "i < length ws" for i
    using IH(3) [rule_format, OF that] nj w by (cases "i = j") (auto simp: p split: option.splits)
  with IH(1,2) w(4) show ?case by (simp add: p)
qed (auto split: option.split)

text \<open>The numbers of the members that get a request.\<close>

fun live_ids :: "nat \<Rightarrow> string set \<Rightarrow> ('h, 'w, 'm) base list \<Rightarrow> nat list" where
  "live_ids n seen [] = []"
| "live_ids n seen (b # bs) =
     (if b_ID b \<in> seen then live_ids (Suc n) seen bs else n # live_ids (Suc n) (insert (b_ID b) seen) bs)"

lemma live_ids_bounds: "i \<in> set (live_ids n seen bs) \<Longrightarrow> n \<le> i \<and> i < n + length bs"
  by (induction n seen bs rule: live_ids.induct) (auto split: if_splits)

lemma live_ids_distinct: "distinct (live_ids n seen bs)"
  by (induction n seen bs rule: live_ids.induct) (auto dest: live_ids_bounds)

lemma live_ids_iff:
  "k < length bs \<Longrightarrow>
   n + k \<in> set (live_ids n seen bs) \<longleftrightarrow> b_ID (bs ! k) \<notin> seen \<and> b_ID (bs ! k) \<notin> b_ID ` set (take k bs)"
proof (induction bs arbitrary: n seen k)
  case (Cons b bs)
  show ?case
  proof (cases k)
    case 0
    then show ?thesis by (auto dest: live_ids_bounds)
  next
    case (Suc j)
    with Cons.IH [of j "Suc n"] Cons.prems show ?thesis by auto
  qed
qed simp

lemma live_ids_live: "set (live_ids 0 {} bs) = {i. live bs i}"
proof -
  have "i \<in> set (live_ids 0 {} bs) \<longleftrightarrow> live bs i" for i
    using live_ids_iff [of i bs 0 "{}"] live_ids_bounds [of i 0 "{}" bs]
    by (cases "i < length bs") (auto simp: live_def)
  then show ?thesis by blast
qed

lemma startRequests_eq:
  assumes "bs = drop n all"
  shows "map_option (\<lambda>(hs, m, ws). (hs, ws)) (startRequests x n bs m ws) =
    each_new (\<lambda>i _ w. b_new (all ! i) x None w) (map (\<lambda>i. (i, ())) (live_ids n (fst ` set m) bs)) ws"
  using assms
proof (induction bs arbitrary: n m ws)
  case (Cons b bs)
  have b: "b = all ! n" "bs = drop (Suc n) all"
    using Cons.prems by (metis nth_via_drop, metis list.sel(3) drop_Suc tl_drop)
  have m: "map_of m (b_ID b) \<noteq> None \<longleftrightarrow> b_ID b \<in> fst ` set m" by (simp add: map_of_eq_None_iff)
  show ?case
  proof (cases "b_ID b \<in> fst ` set m")
    case True
    with m Cons.IH [OF b(2), of m ws] show ?thesis by simp
  next
    case False
    show ?thesis
    proof (cases "n < length ws")
      case True
      show ?thesis
      proof (cases "b_new b x None (ws ! n)")
        case None
        with False True m b(1) show ?thesis by simp
      next
        case (Some p)
        obtain h w where p: "p = (h, w)" by (cases p)
        let ?r = "startRequests x (Suc n) bs ((b_ID b, (n, h)) # m) (ws[n := w])"
        have "map_option (\<lambda>(hs, m, ws). (hs, ws)) ?r =
            each_new (\<lambda>i _ w. b_new (all ! i) x None w)
              (map (\<lambda>i. (i, ())) (live_ids (Suc n) (insert (b_ID b) (fst ` set m)) bs)) (ws[n := w])"
          using Cons.IH [OF b(2), of "(b_ID b, (n, h)) # m" "ws[n := w]"] by simp
        note r = this
        have "map_of m (b_ID b) = None" using False by (simp add: map_of_eq_None_iff)
        with False True Some p b(1) r [symmetric] show ?thesis
          by (cases ?r) auto
      qed
    next
      case False
      with \<open>b_ID b \<notin> fst ` set m\<close> m show ?thesis by simp
    qed
  qed
qed simp

definition component :: "nat \<Rightarrow> (nat \<times> 'h) list \<Rightarrow> 'h" where
  "component i hs = the (map_of hs i)"

definition group_ok :: "('h, 'w, 'm) base list \<Rightarrow> nat \<Rightarrow> 'w list \<Rightarrow> (nat \<times> 'h) list list \<Rightarrow> bool" where
  "group_ok bs i ws env \<longleftrightarrow> live bs i \<and> i < length ws \<and>
     (\<forall>hs \<in> set env. distinct (map fst hs) \<and> i \<in> fst ` set hs)"

lemma group_new_request:
  assumes "group_new bs x None ws = Some (hs, ws')" "live bs i" "i < length ws"
  shows "b_new (bs ! i) x None (ws ! i) = Some (component i hs, ws' ! i) \<and>
    distinct (map fst hs) \<and> i \<in> fst ` set hs \<and> length ws' = length ws"
proof -
  let ?hs = "map (\<lambda>i. (i, ())) (live_ids 0 {} bs)"
  have e: "each_new (\<lambda>i _ w. b_new (bs ! i) x None w) ?hs ws = Some (hs, ws')"
    using assms(1) startRequests_eq [of bs 0 bs x "[]" ws] by (simp add: group_new_def)
  have d: "map fst ?hs = live_ids 0 {} bs" by (simp add: comp_def)
  from each_new_proj [OF e] have
    L: "length ws' = length ws" "map fst hs = live_ids 0 {} bs"
    and P: "\<forall>i < length ws. case map_of ?hs i of None \<Rightarrow> ws' ! i = ws ! i
       | Some h \<Rightarrow> \<exists>k. map_of hs i = Some k \<and> b_new (bs ! i) x None (ws ! i) = Some (k, ws' ! i)"
    using live_ids_distinct [of 0 "{}" bs] d by auto
  have i: "i \<in> set (live_ids 0 {} bs)" using assms(2) live_ids_live [of bs] by blast
  then have "map_of ?hs i \<noteq> None" by (auto simp: map_of_eq_None_iff image_iff)
  with P assms(3) have "b_new (bs ! i) x None (ws ! i) = Some (component i hs, ws' ! i)"
    by (fastforce simp: component_def)
  moreover have "i \<in> fst ` set hs" using i L(2) by (metis list.set_map)
  ultimately show ?thesis using L live_ids_distinct [of 0 "{}" bs] by simp
qed

lemma component_in: "distinct (map fst hs) \<Longrightarrow> i \<in> fst ` set hs \<Longrightarrow> map_of hs i = Some (component i hs)"
  by (metis component_def map_of_eq_None_iff option.collapse)

interpretation group: base_simulation "bs ! i" "group_base bs" "\<lambda>ws. ws ! i" "component i" "group_ok bs i" for bs i
proof
  fix x h v h' v' env
  assume a: "b_new (group_base bs) x h v = Some (h', v')" "group_ok bs i v env"
    "h = None \<or> (\<exists>k \<in> set env. h = Some k)"
  show "b_new (bs ! i) x (map_option (component i) h) (v ! i) = Some (component i h', v' ! i) \<and>
    group_ok bs i v' (env @ [h'])"
  proof (cases h)
    case None
    with a group_new_request [of bs x v h' v' i] show ?thesis
      by (simp add: group_base_def group_ok_def)
  next
    case (Some hs)
    with a have hs: "distinct (map fst hs)" "map_of hs i = Some (component i hs)"
      by (auto simp: group_ok_def component_in)
    have "each_new (\<lambda>i h w. b_new (bs ! i) x (Some h) w) hs v = Some (h', v')"
      using a(1) Some by (simp add: group_base_def group_new_def)
    from each_new_proj [OF this hs(1)] hs a(2) obtain k where
      k: "length v' = length v" "map fst h' = map fst hs" "map_of h' i = Some k"
        "b_new (bs ! i) x (Some (component i hs)) (v ! i) = Some (k, v' ! i)"
      by (force simp: group_ok_def)
    moreover have "i \<in> fst ` set h'"
      using k(3) by (metis map_of_eq_None_iff option.distinct(1))
    ultimately show ?thesis
      using a(2) Some hs(1) by (auto simp: group_ok_def component_def)
  qed
next
  fix y k v v' env
  assume a: "b_do (group_base bs) y k v = Some v'" "group_ok bs i v env" "k \<in> set env"
  then have k: "distinct (map fst k)" "map_of k i = Some (component i k)"
    by (auto simp: group_ok_def component_in)
  have "each (\<lambda>i h w. b_do (bs ! i) y h w) k v = Some v'"
    using a(1) by (simp add: group_base_def group_do_def)
  from each_proj [OF this k(1)] k a(2) show
    "b_do (bs ! i) y (component i k) (v ! i) = Some (v' ! i) \<and> group_ok bs i v' env"
    by (auto simp: group_ok_def dest!: spec)
qed


text \<open>A small base logger: its state counts the calls, an object is the count at its creation.\<close>

definition counting_base :: "string \<Rightarrow> (nat, nat, unit) base" where
  "counting_base n = \<lparr>b_ID = n, b_ReferencesKept = False, b_Buffered = False,
     b_new = (\<lambda>x h w. Some (w, w + 1)), b_do = (\<lambda>y h w. Some (w + 1)), b_Final = (\<lambda>h w. Some (w + 100))\<rparr>"

definition sampleInfo :: SourceInfo where
  "sampleInfo = \<lparr>si_Source = ''s'', si_SourceVersion = ''0.0.0'', si_Namespace = ''n'', si_NamespaceVersion = ''0.0.0''\<rparr>"


subsection \<open>Flushing in parallel\<close>

lemma each_Some_iff:
  assumes "distinct (map fst hs)"
  shows "each f hs ws \<noteq> None \<longleftrightarrow> (\<forall>(i, h) \<in> set hs. i < length ws \<and> f i h (ws ! i) \<noteq> None)"
  using assms
proof (induction hs arbitrary: ws)
  case (Cons p hs)
  obtain j h where p: "p = (j, h)" by (cases p)
  have nj: "\<forall>(i, h) \<in> set hs. i \<noteq> j" using Cons.prems by (auto simp: p image_iff)
  show ?case
  proof (cases "j < length ws \<and> f j h (ws ! j) \<noteq> None")
    case True
    then obtain w where "f j h (ws ! j) = Some w" by auto
    then have "each f (p # hs) ws = each f hs (ws[j := w])" using True by (simp add: p)
    moreover have "each f hs (ws[j := w]) \<noteq> None \<longleftrightarrow>
        (\<forall>(i, h) \<in> set hs. i < length (ws[j := w]) \<and> f i h (ws[j := w] ! i) \<noteq> None)"
      using Cons.IH [of "ws[j := w]"] Cons.prems by simp
    moreover have "(\<forall>(i, h) \<in> set hs. i < length (ws[j := w]) \<and> f i h (ws[j := w] ! i) \<noteq> None) \<longleftrightarrow>
        (\<forall>(i, h) \<in> set hs. i < length ws \<and> f i h (ws ! i) \<noteq> None)"
      using nj by fastforce
    ultimately show ?thesis using True p by auto
  next
    case False
    then show ?thesis by (auto simp: p)
  qed
qed simp

text \<open>
  The goroutines of the group's \<open>Flush\<close> may take their turns in any order: the members'
  states afterwards are the same.
\<close>

theorem Flush_order:
  assumes "distinct (map fst hs)" "mset hs' = mset hs"
  shows "group_do bs AFlush hs' ws = group_do bs AFlush hs ws"
proof -
  let ?f = "\<lambda>i h w. b_do (bs ! i) AFlush h w"
  have set: "set hs' = set hs" using assms(2) by (rule mset_eq_setD)
  have d: "distinct (map fst hs')"
  proof -
    have "mset (map fst hs') = mset (map fst hs)" using assms(2) by simp
    then show ?thesis using assms(1) by (metis mset_eq_imp_distinct_iff)
  qed
  have m: "map_of hs' = map_of hs"
    using set d assms(1) by (metis map_of_inject_set)
  show ?thesis
  proof (cases "each ?f hs ws")
    case None
    then have "each ?f hs' ws = None"
      using each_Some_iff [OF d, of ?f ws] each_Some_iff [OF assms(1), of ?f ws] set by blast
    with None show ?thesis by (simp add: group_do_def)
  next
    case (Some ws1)
    then obtain ws2 where 2: "each ?f hs' ws = Some ws2"
      using each_Some_iff [OF d, of ?f ws] each_Some_iff [OF assms(1), of ?f ws] set by fastforce
    have "ws1 = ws2"
    proof (rule nth_equalityI)
      show "length ws1 = length ws2"
        using each_proj [OF Some assms(1)] each_proj [OF 2 d] by simp
      fix i assume "i < length ws1"
      with each_proj [OF Some assms(1)] each_proj [OF 2 d] m show "ws1 ! i = ws2 ! i"
        by (fastforce split: option.splits)
    qed
    with Some 2 show ?thesis by (simp add: group_do_def)
  qed
qed

theorem Flush_order_witness:
  "group_do [counting_base ''a'', counting_base ''b''] AFlush [(1, 0), (0, 0)] [3, 4] =
   group_do [counting_base ''a'', counting_base ''b''] AFlush [(0, 0), (1, 0)] [3, 4]"
  by (rule Flush_order) simp_all

subsection \<open>\<open>Final\<close>\<close>

lemma each_same:
  assumes "each f hs ws = Some ws'" "\<forall>p \<in> set hs. fst p = j" "i \<noteq> j"
  shows "ws' ! i = ws ! i"
  using assms
proof (induction hs arbitrary: ws)
  case (Cons p hs)
  obtain k h where p: "p = (k, h)" by (cases p)
  with Cons.prems obtain w where "each f hs (ws[j := w]) = Some ws'" "k = j"
    by (auto split: if_splits option.splits)
  with Cons.IH [OF this(1)] Cons.prems show ?case by simp
qed simp

text \<open>
  When the goroutines of the group's \<open>Final\<close> run after the loop that started them is over,
  as they usually do, all of them call the last member's request: no other member ever gets
  its \<open>Final\<close>.
\<close>

theorem Final_last_only:
  assumes "b_Final (group_base bs) hs ws = Some ws'" "hs \<noteq> []" "i \<noteq> fst (last hs)"
  shows "ws' ! i = ws ! i"
proof -
  have "\<forall>p \<in> set (map (\<lambda>j. hs ! (length hs - 1)) [0..<length hs]). fst p = fst (last hs)"
    using assms(2) by (simp add: last_conv_nth)
  from each_same [OF _ this assms(3)] assms(1) show ?thesis
    by (simp add: group_base_def group_Final_def)
qed

theorem Final_last_only_witness:
  "\<exists>ws'. b_Final (group_base [counting_base ''a'', counting_base ''b'']) [(0, 0), (1, 0)] [3, 4] = Some ws' \<and>
     ws' ! 0 = 3 \<and> ws' ! 1 = 204"
proof -
  have e: "b_Final (group_base [counting_base ''a'', counting_base ''b'']) [(0, 0), (1, 0)] [3, 4] =
      Some [3, 204]"
    by (simp add: group_base_def group_Final_def counting_base_def upt_rec)
  from Final_last_only [OF e, of 0] e show ?thesis by simp
qed

subsection \<open>The base loggers of a seed\<close>

record 'l loggers =
  lg_List :: "'l list"
  lg_Removed :: "'l list"
  lg_Added :: "'l list"

definition loggers_Copy :: "bool \<Rightarrow> 'l loggers \<Rightarrow> 'l loggers" where
  "loggers_Copy keepHistory s =
     \<lparr>lg_List = lg_List s, lg_Removed = (if keepHistory then lg_Removed s else []),
      lg_Added = (if keepHistory then lg_Added s else [])\<rparr>"

definition swap :: "nat \<Rightarrow> nat \<Rightarrow> 'a list \<Rightarrow> 'a list" where
  "swap i j xs = xs[i := xs ! j, j := xs ! i]"

text \<open>
  The loop of \<open>WithoutBase\<close>: the range is over the slice as it was at the start, so \<open>i\<close> runs
  over all of the array, of which the seed's list is the first \<open>len\<close> elements; \<open>n\<close> iterations
  are left. The elements are read from the array, with the swaps done so far.
\<close>

fun WithoutBase_loop :: "'l \<Rightarrow> nat \<Rightarrow> nat \<Rightarrow> 'l list \<Rightarrow> nat \<Rightarrow> 'l list \<Rightarrow> 'l list \<times> 'l list" where
  "WithoutBase_loop x 0 i arr len removed = (take len arr, removed)"
| "WithoutBase_loop x (Suc n) i arr len removed =
     (if arr ! i = x then
        WithoutBase_loop x n (Suc i) (if i + 1 < len then swap i (len - 1) arr else arr) (len - 1) (removed @ [arr ! i])
      else WithoutBase_loop x n (Suc i) arr len removed)"

definition WithoutBase :: "'l \<Rightarrow> 'l loggers \<Rightarrow> 'l loggers" where
  "WithoutBase x s =
     (let l = lg_List s; (l', removed) = WithoutBase_loop x (length l) 0 l (length l) (lg_Removed s) in
      s\<lparr>lg_List := l', lg_Removed := removed\<rparr>)"

definition WithBase :: "'l \<Rightarrow> 'l loggers \<Rightarrow> 'l loggers" where
  "WithBase x s = s\<lparr>lg_List := lg_List s @ [x], lg_Added := lg_Added s @ [x]\<rparr>"

lemma WithoutBase_loop_skip:
  assumes "i + n = length arr" "\<forall>k. i \<le> k \<and> k < j \<longrightarrow> arr ! k \<noteq> x" "i \<le> j" "j \<le> length arr"
  shows "WithoutBase_loop x n i arr len removed = WithoutBase_loop x (length arr - j) j arr len removed"
  using assms
proof (induction n arbitrary: i)
  case (Suc n)
  show ?case
  proof (cases "i = j")
    case True
    with Suc.prems(1) have "length arr - j = Suc n" by simp
    with True show ?thesis by (simp only:)
  next
    case False
    with Suc.prems have "arr ! i \<noteq> x" by auto
    moreover have "WithoutBase_loop x n (Suc i) arr len removed = WithoutBase_loop x (length arr - j) j arr len removed"
      using Suc.IH [of "Suc i"] Suc.prems False by auto
    ultimately show ?thesis by simp
  qed
qed simp

lemma WithoutBase_absent:
  assumes "x \<notin> set l"
  shows "WithoutBase_loop x (length l) 0 l (length l) r = (l, r)"
proof -
  have "\<forall>k. 0 \<le> k \<and> k < length l \<longrightarrow> l ! k \<noteq> x" using assms by (metis nth_mem)
  from WithoutBase_loop_skip [OF _ this, of "length l"] show ?thesis by simp
qed

lemma WithoutBase_present:
  assumes "distinct l" "p < length l" "l ! p = x"
  shows "WithoutBase_loop x (length l) 0 l (length l) r =
    (if p = length l - 1 then (butlast l, r @ [x])
     else (take (length l - 2) (l[p := last l]), r @ [x, x]))"
proof -
  let ?n = "length l"
  have ne: "l ! k \<noteq> x" if "k < ?n" "k \<noteq> p" for k
    using that assms by (metis nth_eq_iff_index_eq)
  have "\<forall>k. 0 \<le> k \<and> k < p \<longrightarrow> l ! k \<noteq> x" using ne assms(2) by auto
  from WithoutBase_loop_skip [OF _ this, of ?n] assms(2)
  have 1: "WithoutBase_loop x ?n 0 l ?n r = WithoutBase_loop x (Suc (?n - Suc p)) p l ?n r"
    by (simp add: Suc_diff_Suc)
  show ?thesis
  proof (cases "p = ?n - 1")
    case True
    then have "?n - Suc p = 0" "\<not> p + 1 < ?n" by auto
    with 1 True assms show ?thesis by (simp add: butlast_conv_take)
  next
    case False
    let ?l = "swap p (?n - 1) l"
    have len: "length ?l = ?n" by (simp add: swap_def)
    have lt: "p + 1 < ?n" "p < ?n - 1" using False assms(2) by auto
    have "?l ! k \<noteq> x" if "Suc p \<le> k" "k < ?n - 1" for k
      using that ne [of k] by (simp add: swap_def)
    then have "WithoutBase_loop x (?n - Suc p) (Suc p) ?l (?n - 1) (r @ [x]) =
        WithoutBase_loop x (?n - (?n - 1)) (?n - 1) ?l (?n - 1) (r @ [x])"
      using WithoutBase_loop_skip [of "Suc p" "?n - Suc p" ?l "?n - 1" x "?n - 1" "r @ [x]"] lt len by auto
    moreover have "?n - (?n - 1) = Suc 0" using lt by simp
    moreover have "?l ! (?n - 1) = x" using assms lt by (simp add: swap_def)
    moreover have "last l = l ! (?n - 1)" using lt by (intro last_conv_nth) auto
    then have "take (?n - 2) ?l = take (?n - 2) (l[p := last l])"
      using lt assms(2) by (intro nth_equalityI) (auto simp: swap_def nth_list_update)
    moreover have "?n - 1 - 1 = ?n - 2" by simp
    ultimately show ?thesis using 1 False lt assms(3) by simp
  qed
qed

text \<open>
  \<open>WithoutBase\<close> takes one logger out of a list without duplicates only when that logger is
  the last one (or absent). Anywhere else the swap puts it where the loop meets it again, and
  another logger goes with it: the list gets two shorter and the removed one is recorded twice.
\<close>

theorem WithoutBase_spec:
  assumes "distinct (lg_List s)"
  shows "if x \<notin> set (lg_List s) then WithoutBase x s = s
    else if x = last (lg_List s) then
      lg_List (WithoutBase x s) = butlast (lg_List s) \<and> lg_Removed (WithoutBase x s) = lg_Removed s @ [x]
    else length (lg_List (WithoutBase x s)) = length (lg_List s) - 2 \<and>
      lg_Removed (WithoutBase x s) = lg_Removed s @ [x, x]"
proof (cases "x \<in> set (lg_List s)")
  case False
  then show ?thesis by (simp add: WithoutBase_def WithoutBase_absent)
next
  case True
  then obtain p where p: "p < length (lg_List s)" "lg_List s ! p = x" by (auto simp: in_set_conv_nth)
  have "x = last (lg_List s) \<longleftrightarrow> p = length (lg_List s) - 1"
  proof -
    have ne: "lg_List s \<noteq> []" using p(1) by auto
    then have l: "last (lg_List s) = lg_List s ! (length (lg_List s) - 1)" by (rule last_conv_nth)
    show ?thesis unfolding l using p assms ne nth_eq_iff_index_eq [OF assms p(1)] by auto
  qed
  with WithoutBase_present [OF assms p] True show ?thesis
    by (auto simp: WithoutBase_def Let_def)
qed

theorem WithoutBase_spec_witness:
  "length (lg_List (WithoutBase (1 :: nat) \<lparr>lg_List = [1, 2], lg_Removed = [], lg_Added = []\<rparr>)) = 0"
  using WithoutBase_spec [of "\<lparr>lg_List = [1, 2], lg_Removed = [], lg_Added = []\<rparr>" "1 :: nat"] by simp

end
