(* ===== verification/Seed.thy ===== *)
theory Seed
  imports Settings Propagation BaseGroup
begin

section \<open>Seeds\<close>

text \<open>
  Models \<open>seed.go\<close> and \<open>config.go\<close>. A seed is what a logger grows from. Base loggers are known by
  their number, callbacks by a name of the type \<open>'c\<close>: \<open>sf_callback\<close> is the user code behind the name, which
  returns the modifiers to apply. A modifier, a closure that changes a seed, is a constructor.
  A version that is nil is the empty text. Contexts and the error reporter are not modelled; a
  slice is a value, so an element that is replaced is not seen through another seed.
\<close>

record Config =
  cf_UseB3 :: bool
  cf_FlushDelay :: int

definition DefaultConfig :: Config where
  "DefaultConfig = \<lparr>cf_UseB3 = False, cf_FlushDelay = 300000000000\<rparr>"

record ('c, 'm) Seed =
  sd_traceBundle :: Bundle
  sd_spanSequenceCode :: string
  sd_loggers :: "nat loggers"
  sd_config :: Config
  sd_reactive :: "'c option list"
  sd_currentReactiveIndex :: nat
  sd_traceSet :: bool
  sd_spanSet :: bool
  sd_sourceInfo :: SourceInfo
  sd_settings :: "'m LogSettings"

datatype ('c, 'm) SeedModifier =
  WithReactive "'c option" | WithReactiveReplaced "'c option" | WithBundle Bundle | WithSpan "u8 list"
| WithTrace Trace | WithSettings "'m setting list" | WithNamespace string | WithSource string
| AddBase nat | RemoveBase nat | WithFlushDelay int | WithB3 bool | WithConfig Config
| WithConfigChanges "(Config \<Rightarrow> Config) list" | CombineSeedModifiers "('c, 'm) SeedModifier list"

record ('c, 'm) seed_fns =
  sf_rnd :: "nat \<Rightarrow> nat \<Rightarrow> u8 list"
  sf_strict :: "string \<Rightarrow> string option"
  sf_widen :: "32 word \<Rightarrow> u64"
  sf_program :: string
  sf_namespace :: string
  sf_callback :: "'c \<Rightarrow> ('c, 'm) Seed \<Rightarrow> string \<Rightarrow> bool \<Rightarrow> time \<Rightarrow> ('c, 'm) SeedModifier list"

subsection \<open>Modifiers\<close>

definition set_namespace :: "('c, 'm) seed_fns \<Rightarrow> string \<Rightarrow> ('c, 'm) Seed \<Rightarrow> ('c, 'm) Seed" where
  "set_namespace fns namespace s =
     (let (n, v) = SplitVersion (sf_strict fns) namespace in
      s\<lparr>sd_sourceInfo := (sd_sourceInfo s)\<lparr>si_Namespace := n, si_NamespaceVersion := v\<rparr>\<rparr>)"

definition set_source :: "('c, 'm) seed_fns \<Rightarrow> string \<Rightarrow> ('c, 'm) Seed \<Rightarrow> ('c, 'm) Seed" where
  "set_source fns source s =
     (let (n, v) = SplitVersion (sf_strict fns) source in
      s\<lparr>sd_sourceInfo := (sd_sourceInfo s)\<lparr>si_Source := n, si_SourceVersion := v\<rparr>\<rparr>)"

definition set_ids :: "(Trace \<Rightarrow> Trace) \<Rightarrow> bool \<Rightarrow> ('c, 'm) Seed \<Rightarrow> ('c, 'm) Seed" where
  "set_ids f all s =
     (let s = s\<lparr>sd_traceBundle := (sd_traceBundle s)\<lparr>bu_Trace := f (bu_Trace (sd_traceBundle s))\<rparr>\<rparr> in
      if sd_currentReactiveIndex s = 0 then s\<lparr>sd_traceSet := sd_traceSet s \<or> all, sd_spanSet := True\<rparr> else s)"

text \<open>\<^term>\<open>None\<close> is the panic of an index out of range.\<close>

fun apply_mod :: "('c, 'm) seed_fns \<Rightarrow> ('c, 'm) SeedModifier \<Rightarrow> ('c, 'm) Seed \<Rightarrow> ('c, 'm) Seed option"
  and apply_mods_in :: "('c, 'm) seed_fns \<Rightarrow> ('c, 'm) SeedModifier list \<Rightarrow> ('c, 'm) Seed \<Rightarrow> ('c, 'm) Seed option" where
  "apply_mod fns (WithReactive f) s = Some (s\<lparr>sd_reactive := sd_reactive s @ [f]\<rparr>)"
| "apply_mod fns (WithReactiveReplaced f) s =
     (if sd_currentReactiveIndex s = 0 \<or> length (sd_reactive s) < sd_currentReactiveIndex s then None
      else Some (s\<lparr>sd_reactive := (sd_reactive s)[sd_currentReactiveIndex s - 1 := f]\<rparr>))"
| "apply_mod fns (WithBundle b) s =
     (let s = s\<lparr>sd_traceBundle := b\<rparr> in
      Some (if sd_currentReactiveIndex s = 0 then s\<lparr>sd_traceSet := True, sd_spanSet := True\<rparr> else s))"
| "apply_mod fns (WithSpan i) s = Some (set_ids (\<lambda>t. Wrapped_SetArray SpanIDField i (initialize t)) False s)"
| "apply_mod fns (WithTrace t) s = Some (set_ids (\<lambda>_. t) True s)"
| "apply_mod fns (WithSettings xs) s = Some (s\<lparr>sd_settings := apply_settings (sf_widen fns) xs (sd_settings s)\<rparr>)"
| "apply_mod fns (WithNamespace n) s = Some (set_namespace fns n s)"
| "apply_mod fns (WithSource n) s = Some (set_source fns n s)"
| "apply_mod fns (AddBase b) s = Some (s\<lparr>sd_loggers := WithBase b (sd_loggers s)\<rparr>)"
| "apply_mod fns (RemoveBase b) s = Some (s\<lparr>sd_loggers := WithoutBase b (sd_loggers s)\<rparr>)"
| "apply_mod fns (WithFlushDelay d) s = Some (s\<lparr>sd_config := (sd_config s)\<lparr>cf_FlushDelay := d\<rparr>\<rparr>)"
| "apply_mod fns (WithB3 b) s = Some (s\<lparr>sd_config := (sd_config s)\<lparr>cf_UseB3 := b\<rparr>\<rparr>)"
| "apply_mod fns (WithConfig c) s = Some (s\<lparr>sd_config := c\<rparr>)"
| "apply_mod fns (WithConfigChanges fs) s = Some (s\<lparr>sd_config := fold (\<lambda>f. f) fs (sd_config s)\<rparr>)"
| "apply_mod fns (CombineSeedModifiers ms) s = apply_mods_in fns ms s"
| "apply_mods_in fns [] s = Some s"
| "apply_mods_in fns (m # ms) s = (case apply_mod fns m s of None \<Rightarrow> None | Some s \<Rightarrow> apply_mods_in fns ms s)"

text \<open>What \<open>applyMods\<close> does after the modifiers: the defaults of the source.\<close>

definition source_defaults :: "('c, 'm) seed_fns \<Rightarrow> ('c, 'm) Seed \<Rightarrow> ('c, 'm) Seed" where
  "source_defaults fns s =
     (let s = (if si_Source (sd_sourceInfo s) = [] then set_source fns (sf_program fns) s else s);
          s = (if si_SourceVersion (sd_sourceInfo s) = []
               then s\<lparr>sd_sourceInfo := (sd_sourceInfo s)\<lparr>si_SourceVersion := ''0.0.0''\<rparr>\<rparr> else s);
          s = (if si_Namespace (sd_sourceInfo s) = [] then set_namespace fns (sf_namespace fns) s else s)
      in if si_NamespaceVersion (sd_sourceInfo s) = []
         then s\<lparr>sd_sourceInfo := (sd_sourceInfo s)\<lparr>si_NamespaceVersion := ''0.0.0''\<rparr>\<rparr> else s)"

definition applyMods :: "('c, 'm) seed_fns \<Rightarrow> ('c, 'm) SeedModifier list \<Rightarrow> ('c, 'm) Seed \<Rightarrow> ('c, 'm) Seed option" where
  "applyMods fns ms s = map_option (source_defaults fns) (apply_mods_in fns ms s)"

definition emptySeed :: "('c, 'm) Seed" where
  "emptySeed = \<lparr>sd_traceBundle = NewBundle, sd_spanSequenceCode = [],
     sd_loggers = \<lparr>lg_List = [], lg_Removed = [], lg_Added = []\<rparr>, sd_config = DefaultConfig,
     sd_reactive = [], sd_currentReactiveIndex = 0, sd_traceSet = False, sd_spanSet = False,
     sd_sourceInfo = \<lparr>si_Source = [], si_SourceVersion = [], si_Namespace = [], si_NamespaceVersion = []\<rparr>,
     sd_settings = DefaultSettings\<rparr>"

definition NewSeed :: "('c, 'm) seed_fns \<Rightarrow> ('c, 'm) SeedModifier list \<Rightarrow> ('c, 'm) Seed option" where
  "NewSeed fns ms = applyMods fns ms emptySeed"

text \<open>For debugging.\<close>

definition spanSeed_String :: "('c, 'm) Seed \<Rightarrow> string" where
  "spanSeed_String s =
     (let b = sd_traceBundle s; i = sd_sourceInfo s in
      (if \<not> Trace_IsZero (bu_Parent b) then '' parent:'' @ Trace_String (bu_Parent b) else []) @
      (if sd_traceSet s then '' trace:'' @ Wrapped_String TraceIDField (bu_Trace b) else []) @
      (if sd_spanSet s then '' span:'' @ Wrapped_String SpanIDField (bu_Trace b) else []) @
      (if bu_Baggage b \<noteq> [] then '' baggage:'' @ bu_Baggage b else []) @
      (if bu_State b \<noteq> [] then '' state:'' @ bu_State b else []) @
      (if si_Source i \<noteq> [] then '' source:'' @ si_Source i else []) @
      (if si_Namespace i \<noteq> [] then '' namespace:'' @ si_Namespace i else []))"

definition Seed_String :: "('c, 'm) Seed \<Rightarrow> string" where
  "Seed_String s = ''SEED:'' @ spanSeed_String s @ LogSettings_String (sd_settings s)"

subsection \<open>Copies\<close>

definition spanSeed_copy :: "bool \<Rightarrow> ('c, 'm) Seed \<Rightarrow> ('c, 'm) Seed" where
  "spanSeed_copy withHistory s = s\<lparr>sd_loggers := loggers_Copy withHistory (sd_loggers s)\<rparr>"

text \<open>A new random span id; \<open>k\<close> counts the reads of the source of random bytes.\<close>

definition random_span :: "('c, 'm) seed_fns \<Rightarrow> nat \<Rightarrow> ('c, 'm) Seed \<Rightarrow> (('c, 'm) Seed \<times> nat) option" where
  "random_span fns k s =
     map_option (\<lambda>(b, k). (s\<lparr>sd_traceBundle := b\<rparr>, k)) (Trace_field_SetRandom (sf_rnd fns) SpanIDField k (sd_traceBundle s))"

definition with_mods ::
    "('c, 'm) seed_fns \<Rightarrow> ('c, 'm) SeedModifier list \<Rightarrow> ('c, 'm) Seed \<times> nat \<Rightarrow> (('c, 'm) Seed \<times> nat) option" where
  "with_mods fns ms sk = map_option (\<lambda>s. (s, snd sk)) (applyMods fns ms (fst sk))"

definition Seed_Copy ::
    "('c, 'm) seed_fns \<Rightarrow> ('c, 'm) SeedModifier list \<Rightarrow> nat \<Rightarrow> ('c, 'm) Seed \<Rightarrow> (('c, 'm) Seed \<times> nat) option" where
  "Seed_Copy fns ms k seed =
     (let n = spanSeed_copy True seed in
      Option.bind (if sd_spanSet seed then Some (n, k) else random_span fns k n) (with_mods fns ms))"

definition SubSeed ::
    "('c, 'm) seed_fns \<Rightarrow> ('c, 'm) SeedModifier list \<Rightarrow> 'm LogSettings \<Rightarrow> nat \<Rightarrow> ('c, 'm) Seed \<Rightarrow> (('c, 'm) Seed \<times> nat) option" where
  "SubSeed fns ms settings k seed =
     (let n = (spanSeed_copy False seed)\<lparr>sd_settings := settings\<rparr>;
          n = n\<lparr>sd_traceBundle := (sd_traceBundle n)\<lparr>bu_Parent := bu_Trace (sd_traceBundle n)\<rparr>\<rparr>
      in Option.bind (if sd_spanSet seed then Some (n, k) else random_span fns k n) (with_mods fns ms))"

subsection \<open>Reaction\<close>

text \<open>
  The loop of \<open>react\<close>: \<open>n\<close> is the number of callbacks at the start, \<open>nilSeen\<close> says whether one
  was nil. A nil callback moves the index twice.
\<close>

function react_loop ::
    "('c, 'm) seed_fns \<Rightarrow> string \<Rightarrow> bool \<Rightarrow> time \<Rightarrow> nat \<Rightarrow> nat \<Rightarrow> bool \<Rightarrow> ('c, 'm) Seed \<Rightarrow> (('c, 'm) Seed \<times> bool) option" where
  "react_loop fns description isChild now n i nilSeen seed =
     (if i < n then
        (case sd_reactive seed ! i of
           None \<Rightarrow> react_loop fns description isChild now n (i + 2) True seed
         | Some f \<Rightarrow>
             (let seed = seed\<lparr>sd_currentReactiveIndex := i + 1\<rparr> in
              case applyMods fns (sf_callback fns f seed description isChild now) seed of
                None \<Rightarrow> None
              | Some seed \<Rightarrow>
                  react_loop fns description isChild now n (i + 1) (nilSeen \<or> sd_reactive seed ! i = None) seed))
      else Some (seed, nilSeen))"
  by pat_completeness auto
termination by (relation "measure (\<lambda>(fns, description, isChild, now, n, i, nilSeen, seed). n - i)") auto

declare react_loop.simps [simp del]

definition react ::
    "('c, 'm) seed_fns \<Rightarrow> bool \<Rightarrow> string \<Rightarrow> time \<Rightarrow> nat \<Rightarrow> ('c, 'm) Seed \<Rightarrow> (('c, 'm) Seed \<times> nat) option" where
  "react fns isRequest description now k seed =
     Option.bind
       (if isRequest \<and> \<not> sd_traceSet seed then
          map_option (\<lambda>(t, k). (seed\<lparr>sd_traceBundle := (sd_traceBundle seed)\<lparr>bu_Trace := t\<rparr>\<rparr>, k))
            (RebuildSetNonZero (sf_rnd fns) k (bu_Trace (sd_traceBundle seed)))
        else Some (seed, k))
       (\<lambda>(seed, k).
          let seed = seed\<lparr>sd_traceSet := False, sd_spanSet := False\<rparr> in
          if sd_reactive seed = [] then Some (seed, k)
          else
            (case react_loop fns description (\<not> isRequest) now (length (sd_reactive seed)) 0 False seed of
               None \<Rightarrow> None
             | Some (seed, nilSeen) \<Rightarrow>
                 let seed = seed\<lparr>sd_currentReactiveIndex := 0\<rparr> in
                 Some (if nilSeen then seed\<lparr>sd_reactive := filter (\<lambda>f. f \<noteq> None) (sd_reactive seed)\<rparr> else seed, k)))"

subsection \<open>Which callbacks react\<close>

text \<open>The callbacks of a list that the loop calls, with their positions.\<close>

fun called :: "nat \<Rightarrow> 'c option list \<Rightarrow> (nat \<times> 'c) list" where
  "called i [] = []"
| "called i (Some f # fs) = (i, f) # called (Suc i) fs"
| "called i [None] = []"
| "called i (None # g # fs) = called (Suc (Suc i)) fs"

definition call_one ::
    "('c, 'm) seed_fns \<Rightarrow> string \<Rightarrow> bool \<Rightarrow> time \<Rightarrow> nat \<times> 'c \<Rightarrow> ('c, 'm) Seed \<Rightarrow> ('c, 'm) Seed option" where
  "call_one fns description isChild now p seed =
     (let seed = seed\<lparr>sd_currentReactiveIndex := fst p + 1\<rparr> in
      applyMods fns (sf_callback fns (snd p) seed description isChild now) seed)"

fun call_all ::
    "('c, 'm) seed_fns \<Rightarrow> string \<Rightarrow> bool \<Rightarrow> time \<Rightarrow> (nat \<times> 'c) list \<Rightarrow> ('c, 'm) Seed \<Rightarrow> ('c, 'm) Seed option" where
  "call_all fns description isChild now [] seed = Some seed"
| "call_all fns description isChild now (p # ps) seed =
     (case call_one fns description isChild now p seed of
        None \<Rightarrow> None | Some seed \<Rightarrow> call_all fns description isChild now ps seed)"

text \<open>Modifiers touch no callback but the current one.\<close>

definition keeps_reactive :: "('c, 'm) Seed \<Rightarrow> ('c, 'm) Seed \<Rightarrow> bool" where
  "keeps_reactive s s' \<longleftrightarrow> sd_currentReactiveIndex s' = sd_currentReactiveIndex s \<and>
     length (sd_reactive s) \<le> length (sd_reactive s') \<and>
     (\<forall>j < length (sd_reactive s). Suc j \<noteq> sd_currentReactiveIndex s \<longrightarrow> sd_reactive s' ! j = sd_reactive s ! j)"

lemma keeps_reactive_refl [simp]: "keeps_reactive s s"
  by (simp add: keeps_reactive_def)

lemma keeps_reactive_same:
  "sd_reactive s' = sd_reactive s \<Longrightarrow> sd_currentReactiveIndex s' = sd_currentReactiveIndex s \<Longrightarrow> keeps_reactive s s'"
  by (simp add: keeps_reactive_def)

lemma keeps_reactive_trans: "keeps_reactive s t \<Longrightarrow> keeps_reactive t u \<Longrightarrow> keeps_reactive s u"
  by (auto simp: keeps_reactive_def)

lemma apply_mod_keeps:
  "apply_mod fns m s = Some s' \<Longrightarrow> keeps_reactive s s'"
  "apply_mods_in fns ms s = Some s' \<Longrightarrow> keeps_reactive s s'"
proof (induction fns m s and fns ms s arbitrary: s' and s' rule: apply_mod_apply_mods_in.induct)
  case (2 fns f s)
  then show ?case by (auto simp: keeps_reactive_def nth_list_update split: if_splits)
next
  case (17 fns m ms s)
  then show ?case by (auto split: option.splits intro: keeps_reactive_trans)
qed (auto simp: keeps_reactive_def set_namespace_def set_source_def set_ids_def Let_def nth_append
  split: prod.splits)

lemma source_defaults_reactive [simp]:
  "sd_reactive (source_defaults fns s) = sd_reactive s"
  "sd_currentReactiveIndex (source_defaults fns s) = sd_currentReactiveIndex s"
  by (auto simp: source_defaults_def set_source_def set_namespace_def Let_def split: prod.splits)

lemma applyMods_keeps: "applyMods fns ms s = Some s' \<Longrightarrow> keeps_reactive s s'"
  by (auto simp: applyMods_def keeps_reactive_def dest!: apply_mod_keeps(2))

lemma call_one_keeps:
  assumes "call_one fns d c now (i, f) s = Some s'"
  shows "length (sd_reactive s) \<le> length (sd_reactive s')"
    "j < length (sd_reactive s) \<Longrightarrow> j \<noteq> i \<Longrightarrow> sd_reactive s' ! j = sd_reactive s ! j"
proof -
  have "keeps_reactive (s\<lparr>sd_currentReactiveIndex := Suc i\<rparr>) s'"
    using assms by (auto simp: call_one_def Let_def intro: applyMods_keeps)
  then show "length (sd_reactive s) \<le> length (sd_reactive s')"
    "j < length (sd_reactive s) \<Longrightarrow> j \<noteq> i \<Longrightarrow> sd_reactive s' ! j = sd_reactive s ! j"
    by (auto simp: keeps_reactive_def)
qed

lemma react_loop_called:
  assumes "n \<le> length (sd_reactive seed)" "drop i (take n (sd_reactive seed)) = fs"
  shows "map_option fst (react_loop fns d c now n i ns seed) = call_all fns d c now (called i fs) seed"
  using assms
proof (induction i fs arbitrary: ns seed rule: called.induct)
  case (1 i)
  then have "\<not> i < n" by auto
  then show ?case by (simp add: react_loop.simps)
next
  case (2 i f fs)
  then have i: "i < n" by (metis drop_eq_Nil2 length_take list.distinct(1) min.absorb2 not_le)
  have nth: "sd_reactive seed ! i = Some f" and rest: "drop (Suc i) (take n (sd_reactive seed)) = fs"
    using 2 i by (metis Cons_nth_drop_Suc length_take list.inject min.absorb2 nth_take)+
  show ?case
  proof (cases "call_one fns d c now (i, f) seed")
    case None
    then show ?thesis using i nth by (simp add: react_loop.simps [of _ _ _ _ n i] call_one_def Let_def)
  next
    case (Some s')
    note k = call_one_keeps [OF Some]
    have n: "n \<le> length (sd_reactive s')" using k(1) 2 by simp
    have "drop (Suc i) (take n (sd_reactive s')) = fs"
      unfolding rest [symmetric] using 2 n k(2) by (intro nth_equalityI) auto
    from "2.IH" [OF n this] Some i nth show ?thesis
      by (simp add: react_loop.simps [of _ _ _ _ n i] call_one_def Let_def)
  qed
next
  case (3 i)
  have "length (drop i (take n (sd_reactive seed))) = 1" unfolding "3.prems"(2) by simp
  then have i: "i < n" "n \<le> Suc i" using "3.prems"(1) by auto
  moreover have "sd_reactive seed ! i = None"
    using 3 i by (metis Cons_nth_drop_Suc length_take list.inject min.absorb2 nth_take)
  ultimately show ?case by (simp add: react_loop.simps)
next
  case (4 i g fs)
  have "length (drop i (take n (sd_reactive seed))) = Suc (Suc (length fs))" unfolding "4.prems"(2) by simp
  then have i: "Suc i < n" using "4.prems"(1) by auto
  moreover have "sd_reactive seed ! i = None" "drop (Suc (Suc i)) (take n (sd_reactive seed)) = fs"
    using 4 i by (metis Cons_nth_drop_Suc Suc_lessD length_take list.inject min.absorb2 nth_take)+
  ultimately show ?case using "4.IH" [OF "4.prems"(1)] by (simp add: react_loop.simps [of _ _ _ _ n i])
qed

lemma called_all: "called i (map Some fs) = zip [i..<i + length fs] fs"
  by (induction fs arbitrary: i) (simp_all add: upt_conv_Cons del: upt_Suc)

definition drop_nil :: "('c, 'm) Seed \<Rightarrow> ('c, 'm) Seed" where
  "drop_nil s = s\<lparr>sd_reactive := filter (\<lambda>f. f \<noteq> None) (sd_reactive s)\<rparr>"

lemma drop_nil_idem [simp]: "drop_nil (drop_nil s) = drop_nil s"
  by (simp add: drop_nil_def)

lemma react_called:
  assumes "sd_currentReactiveIndex seed = 0"
  shows "map_option (\<lambda>(s, k). (drop_nil s, k)) (react fns False d now k seed) =
    map_option (\<lambda>s. (drop_nil (s\<lparr>sd_currentReactiveIndex := 0\<rparr>), k))
      (call_all fns d True now (called 0 (sd_reactive seed)) (seed\<lparr>sd_traceSet := False, sd_spanSet := False\<rparr>))"
proof (cases "sd_reactive seed = []")
  case True
  with assms show ?thesis by (simp add: react_def Let_def drop_nil_def)
next
  case False
  let ?s = "seed\<lparr>sd_traceSet := False, sd_spanSet := False\<rparr>"
  let ?r = "react_loop fns d True now (length (sd_reactive seed)) 0 False ?s"
  have "map_option fst ?r = call_all fns d True now (called 0 (sd_reactive seed)) ?s"
    using react_loop_called [of "length (sd_reactive seed)" ?s 0 "sd_reactive seed" fns d True now False] by simp
  then show ?thesis using False
    by (cases ?r) (auto simp: react_def Let_def drop_nil_def simp flip: \<open>map_option fst ?r = _\<close>)
qed


definition demo_fns :: "(nat, int) seed_fns" where
  "demo_fns = \<lparr>sf_rnd = ones_rnd, sf_strict = Some, sf_widen = (\<lambda>_. 0), sf_program = ''prog 1.2.3'', sf_namespace = ''ns'',
     sf_callback = (\<lambda>c seed d isChild now. [WithFlushDelay (int c), WithSource d])\<rparr>"

definition demo_seed :: "(nat, int) Seed" where
  "demo_seed = emptySeed\<lparr>sd_reactive := [Some 1, None, Some 2, Some 3]\<rparr>"


text \<open>
  C25. The seed of a sub-span, when nothing overrides it: it stays in the trace of its span, has the
  span as its parent, and a span id of its own that is not zero; the rest of the seed but the
  settings and the history of its loggers is the span's.
\<close>

theorem SubSeed_child:
  assumes rnd: "rand_live (sf_rnd fns)" and b: "bundle_ok (sd_traceBundle seed)" and s: "\<not> sd_spanSet seed"
  shows "\<exists>n k'. SubSeed fns [] settings k seed = Some (n, k') \<and> bundle_ok (sd_traceBundle n) \<and>
    bu_Parent (sd_traceBundle n) = bu_Trace (sd_traceBundle seed) \<and>
    (\<forall>f. f \<noteq> SpanIDField \<longrightarrow>
       get_field f (bu_Trace (sd_traceBundle n)) = get_field f (initialize (bu_Trace (sd_traceBundle seed)))) \<and>
    \<not> HexBytes_IsZero (tr_spanID (bu_Trace (sd_traceBundle n))) \<and>
    sd_settings n = settings \<and> sd_reactive n = sd_reactive seed \<and>
    sd_spanSequenceCode n = sd_spanSequenceCode seed \<and> lg_List (sd_loggers n) = lg_List (sd_loggers seed) \<and>
    lg_Added (sd_loggers n) = [] \<and> lg_Removed (sd_loggers n) = []"
proof -
  let ?b = "(sd_traceBundle seed)\<lparr>bu_Parent := bu_Trace (sd_traceBundle seed)\<rparr>"
  have "bundle_ok ?b" using b by (simp add: bundle_ok_def)
  from Trace_field_SetRandom_returns [OF rnd this, of SpanIDField k] obtain b' k' where
    b': "Trace_field_SetRandom (sf_rnd fns) SpanIDField k ?b = Some (b', k')" "bundle_ok b'"
    "\<not> HexBytes_IsZero (get_field SpanIDField (bu_Trace b'))"
    "\<forall>f'. f' \<noteq> SpanIDField \<longrightarrow> get_field f' (bu_Trace b') = get_field f' (initialize (bu_Trace ?b))"
    "bu_Parent b' = bu_Parent ?b" by blast
  let ?n = "(spanSeed_copy False seed)\<lparr>sd_settings := settings, sd_traceBundle := b'\<rparr>"
  have r: "random_span fns k ((spanSeed_copy False seed)\<lparr>sd_settings := settings, sd_traceBundle := ?b\<rparr>) = Some (?n, k')"
    using b'(1) by (simp add: random_span_def)
  have "SubSeed fns [] settings k seed = Some (source_defaults fns ?n, k')"
    using s r by (simp add: SubSeed_def Let_def with_mods_def applyMods_def spanSeed_copy_def)
  moreover have "sd_traceBundle (source_defaults fns ?n) = b'" "sd_settings (source_defaults fns ?n) = settings"
    "sd_spanSequenceCode (source_defaults fns ?n) = sd_spanSequenceCode seed"
    "sd_loggers (source_defaults fns ?n) = loggers_Copy False (sd_loggers seed)"
    by (auto simp: source_defaults_def set_source_def set_namespace_def Let_def spanSeed_copy_def split: prod.splits)
  moreover have "sd_reactive (source_defaults fns ?n) = sd_reactive seed" by (simp add: spanSeed_copy_def)
  ultimately show ?thesis using b' by (auto simp: loggers_Copy_def)
qed

theorem SubSeed_child_witness:
  "\<exists>n k'. SubSeed demo_fns [] DefaultSettings 0 demo_seed = Some (n, k') \<and> \<not> HexBytes_IsZero (tr_spanID (bu_Trace (sd_traceBundle n)))"
proof -
  have "rand_live (sf_rnd demo_fns)"
    using ones_rnd_fills ones_rnd_live by (simp add: demo_fns_def rand_live_def)
  moreover have "bundle_ok (sd_traceBundle demo_seed)" "\<not> sd_spanSet demo_seed"
    by (simp_all add: demo_seed_def emptySeed_def NewBundle_ok)
  ultimately show ?thesis using SubSeed_child by blast
qed

end
