(* ===== verification/FrontEnd.thy ===== *)
theory FrontEnd
  imports Seed
begin

section \<open>Loggers and spans\<close>

text \<open>
  Models \<open>logger.go\<close>, \<open>span.go\<close>, \<open>support.go\<close> and \<open>Fork\<close>, \<open>Step\<close>, \<open>sendPrefill\<close> of \<open>sub.go\<close>:
  one request with its sub-spans, over any set of base loggers. Loggers, spans and lines are shared
  objects, so each kind has a store and a pointer is an index; logger 0 and span 0 are the request's.
  A base span, prefill or line is the list of the members' handles, each with the number of its
  base logger (a single member and a group of one make the same calls). The functions that call each
  other (\<open>hasActivity\<close>, \<open>done\<close>, \<open>Flush\<close>, \<dots>) have fuel; running out of it is an error of its
  own. What the runtime decides is a parameter: the clock, the order in which it walks over a map,
  the stack frames of a caller, and the object that a \<open>sync.Pool\<close> gives back. Calls run one after
  the other; the goroutine of an asynchronous flush is a step of its own, as is the flush timer.
\<close>

datatype stuck = Panicked | OutOfFuel

type_synonym 'a result = "stuck + 'a"

fun andThen :: "'a result \<Rightarrow> ('a \<Rightarrow> 'b result) \<Rightarrow> 'b result" where
  "andThen (Inl e) f = Inl e"
| "andThen (Inr x) f = f x"

definition orPanic :: "'a option \<Rightarrow> 'a result" where
  "orPanic x = (case x of None \<Rightarrow> Inl Panicked | Some y \<Rightarrow> Inr y)"

record ('h, 'w, 'c, 'm) runtime =
  rt_bases :: "('h, 'w, 'm) base list"
  rt_fns :: "('c, 'm) seed_fns"
  rt_clock :: "nat \<Rightarrow> time"
  rt_callers :: "nat \<Rightarrow> nat \<Rightarrow> frame list"
  rt_pool :: "nat \<Rightarrow> nat list \<Rightarrow> nat option"
  rt_deps :: "nat list \<Rightarrow> nat list"
  rt_set :: "(nat \<times> 'h) list \<Rightarrow> (nat \<times> 'h) list"

record ('h, 'm) flogger =
  fl_span :: nat
  fl_parent :: nat
  fl_settings :: "'m LogSettings"
  fl_nonSpanSubLog :: bool
  fl_prefilled :: "(nat \<times> 'h) list"

record ('h, 'c, 'm) fspan =
  sn_seed :: "('c, 'm) Seed"
  sn_referencesKept :: bool
  sn_base :: "(nat \<times> 'h) list"
  sn_linePool :: "nat list"
  sn_boring :: i32
  sn_buffered :: bool
  sn_description :: string
  sn_stepCounter :: i32
  sn_forkCounter :: i32
  sn_detached :: bool
  sn_activeDependents :: "(i32 \<times> nat) list"
  sn_doneCount :: i32
  sn_knownActive :: bool
  sn_logNumber :: i32

text \<open>\<open>fi_pc\<close> is the capacity of the buffer of program counters, \<open>fi_line\<close> is \<^term>\<open>None\<close> for \<open>SkipLine\<close>.\<close>

record 'h fline =
  fi_logger :: nat
  fi_line :: "(nat \<times> 'h) list option"
  fi_pc :: "int option"
  fi_skip :: bool

record ('h, 'w, 'c, 'm) front =
  fe_ws :: "'w list"
  fe_loggers :: "('h, 'm) flogger list"
  fe_spans :: "('h, 'c, 'm) fspan list"
  fe_lines :: "'h fline list"
  fe_Flushers :: "(string \<times> (nat \<times> 'h)) list"
  fe_FlushActive :: bool
  fe_LogCount :: i32
  fe_ActiveDetached :: "(i32 \<times> nat) list"
  fe_WaitingForDetached :: bool
  fe_async :: nat
  fe_tick :: nat
  fe_rand :: nat

definition span_of :: "nat \<Rightarrow> ('h, 'w, 'c, 'm) front \<Rightarrow> ('h, 'c, 'm) fspan" where
  "span_of l st = fe_spans st ! fl_span (fe_loggers st ! l)"

definition upd_fspan ::
    "nat \<Rightarrow> (('h, 'c, 'm) fspan \<Rightarrow> ('h, 'c, 'm) fspan) \<Rightarrow> ('h, 'w, 'c, 'm) front \<Rightarrow> ('h, 'w, 'c, 'm) front" where
  "upd_fspan l f st =
     (let s = fl_span (fe_loggers st ! l) in st\<lparr>fe_spans := (fe_spans st)[s := f (fe_spans st ! s)]\<rparr>)"

text \<open>\<open>time.Now()\<close>.\<close>

definition clock_now :: "('h, 'w, 'c, 'm) runtime \<Rightarrow> ('h, 'w, 'c, 'm) front \<Rightarrow> time \<times> ('h, 'w, 'c, 'm) front" where
  "clock_now rt st = (rt_clock rt (fe_tick st), st\<lparr>fe_tick := Suc (fe_tick st)\<rparr>)"

subsection \<open>Calls on the base loggers\<close>

definition base_call ::
    "('h, 'w, 'c, 'm) runtime \<Rightarrow> 'm action \<Rightarrow> (nat \<times> 'h) list \<Rightarrow> ('h, 'w, 'c, 'm) front \<Rightarrow> ('h, 'w, 'c, 'm) front result" where
  "base_call rt a hs st =
     orPanic (map_option (\<lambda>ws. st\<lparr>fe_ws := ws\<rparr>) (each (\<lambda>i h w. b_do (rt_bases rt ! i) a h w) hs (fe_ws st)))"

definition base_create ::
    "('h, 'w, 'c, 'm) runtime \<Rightarrow> create \<Rightarrow> (nat \<times> 'h) list \<Rightarrow> ('h, 'w, 'c, 'm) front \<Rightarrow>
     ((nat \<times> 'h) list \<times> ('h, 'w, 'c, 'm) front) result" where
  "base_create rt x hs st =
     orPanic (map_option (\<lambda>(ks, ws). (ks, st\<lparr>fe_ws := ws\<rparr>))
       (each_new (\<lambda>i h w. b_new (rt_bases rt ! i) x (Some h) w) hs (fe_ws st)))"

fun base_calls ::
    "('h, 'w, 'c, 'm) runtime \<Rightarrow> 'm action list \<Rightarrow> (nat \<times> 'h) list \<Rightarrow> ('h, 'w, 'c, 'm) front \<Rightarrow> ('h, 'w, 'c, 'm) front result" where
  "base_calls rt [] hs st = Inr st"
| "base_calls rt (a # as) hs st = andThen (base_call rt a hs st) (base_calls rt as hs)"

text \<open>A request on the base logger with number \<open>i\<close>.\<close>

definition base_request ::
    "('h, 'w, 'c, 'm) runtime \<Rightarrow> create \<Rightarrow> nat \<Rightarrow> ('h, 'w, 'c, 'm) front \<Rightarrow> ('h \<times> ('h, 'w, 'c, 'm) front) result" where
  "base_request rt x i st =
     (if i < length (fe_ws st) then
        orPanic (map_option (\<lambda>(h, w). (h, st\<lparr>fe_ws := (fe_ws st)[i := w]\<rparr>)) (b_new (rt_bases rt ! i) x None (fe_ws st ! i)))
      else Inl Panicked)"

subsection \<open>Prefill\<close>

definition sendPrefill :: "('h, 'w, 'c, 'm) runtime \<Rightarrow> nat \<Rightarrow> ('h, 'w, 'c, 'm) front \<Rightarrow> ('h, 'w, 'c, 'm) front result" where
  "sendPrefill rt l st =
     (let s = fl_settings (fe_loggers st ! l); hs = sn_base (span_of l st);
          store = (\<lambda>(p, st). Inr (st\<lparr>fe_loggers := (fe_loggers st)[l := (fe_loggers st ! l)\<lparr>fl_prefilled := p\<rparr>]\<rparr>)) in
      if ls_prefillData s = [] \<and> ls_prefillMsg s = [] \<and> \<not> ls_tagLinesWithSpanSequence s then
        andThen (base_create rt NNoPrefill hs st) store
      else
        andThen (base_create rt NStartPrefill hs st) (\<lambda>(p, st).
        andThen (base_calls rt (map ABuild (ls_prefillData s) @
            (if ls_tagLinesWithSpanSequence s
             then [ABuild (BString ''span.seq'' (sd_spanSequenceCode (sn_seed (span_of l st))) 9)] else [])) p st)
          (\<lambda>st. andThen (base_create rt (NPrefillComplete (ls_prefillMsg s)) p st) store)))"

subsection \<open>Lines\<close>

fun contains_text :: "string \<Rightarrow> string \<Rightarrow> bool" where
  "contains_text sub [] = (sub = [])"
| "contains_text sub (c # cs) = (take (length sub) (c # cs) = sub \<or> contains_text sub cs)"

text \<open>The loop of \<open>logLine\<close> over the frames.\<close>

fun collect_frames :: "(string \<Rightarrow> string) \<Rightarrow> frame list \<Rightarrow> frame list" where
  "collect_frames rewrite [] = []"
| "collect_frames rewrite ((file, n) # fs) =
     (if contains_text ''/runtime/'' file then []
      else if rewrite file = [] then []
      else (rewrite file, n) # collect_frames rewrite fs)"

text \<open>
  The buffer of program counters: its new capacity and the length that \<open>runtime.Callers\<close> may
  fill, for a buffer \<open>pc\<close> from before. \<^term>\<open>None\<close> is the panic of an index or of \<open>make\<close>.
\<close>

definition stack_buffer :: "int list \<Rightarrow> int \<Rightarrow> int option \<Rightarrow> (int option \<times> int) option" where
  "stack_buffer wanted level pc =
     (if level < 0 \<or> int (length wanted) \<le> level then None
      else let n = wanted ! nat level in
        if n = 0 then Some (pc, 0)
        else if pc = None \<or> the pc < n then
          (if n < 0 \<or> wanted ! nat AlertLevel < n then None
           else Some (Some (wanted ! nat AlertLevel), n))
        else Some (pc, the pc))"

text \<open>\<open>linePool.Get()\<close> of the logger's span, or a new line.\<close>

definition take_line :: "('h, 'w, 'c, 'm) runtime \<Rightarrow> nat \<Rightarrow> ('h, 'w, 'c, 'm) front \<Rightarrow> nat \<times> ('h, 'w, 'c, 'm) front" where
  "take_line rt l st =
     (let pool = sn_linePool (span_of l st);
          new = (length (fe_lines st),
                 st\<lparr>fe_lines := fe_lines st @ [\<lparr>fi_logger = l, fi_line = None, fi_pc = None, fi_skip = False\<rparr>]\<rparr>) in
      case rt_pool rt (fe_tick st) pool of
        Some i \<Rightarrow> if i \<in> set pool then (i, upd_fspan l (\<lambda>x. x\<lparr>sn_linePool := remove1 i pool\<rparr>) st) else new
      | None \<Rightarrow> new)"

definition logLine ::
    "('h, 'w, 'c, 'm) runtime \<Rightarrow> nat \<Rightarrow> int \<Rightarrow> ('h, 'w, 'c, 'm) front \<Rightarrow> (nat \<times> ('h, 'w, 'c, 'm) front) result" where
  "logLine rt l level st =
     (let s = fl_settings (fe_loggers st ! l);
          skip = (level < ls_minimumLogLevel s);
          (i, st) = take_line rt l st;
          ll = fe_lines st ! i
      in
      if skip then Inr (i, st\<lparr>fe_lines := (fe_lines st)[i := ll\<lparr>fi_line := None, fi_skip := True\<rparr>]\<rparr>)
      else
        andThen (orPanic (stack_buffer (ls_stackFramesWanted s) level (fi_pc ll))) (\<lambda>(pc, n).
          let frames = (if n = 0 then [] else collect_frames (ls_stackFilenameRewrite s) (rt_callers rt (fe_tick st) (nat n)));
              (t, st) = clock_now rt st
          in andThen (base_create rt (NLine level t frames) (fl_prefilled (fe_loggers st ! l)) st)
               (\<lambda>(hs, st). Inr (i, st\<lparr>fe_lines := (fe_lines st)[i := ll\<lparr>fi_line := Some hs, fi_pc := pc, fi_skip := False\<rparr>]\<rparr>))))"

text \<open>A method that adds to a line; \<open>SkipLine\<close> ignores it.\<close>

definition line_add :: "('h, 'w, 'c, 'm) runtime \<Rightarrow> nat \<Rightarrow> 'm logval \<Rightarrow> ('h, 'w, 'c, 'm) front \<Rightarrow> ('h, 'w, 'c, 'm) front result" where
  "line_add rt i v st =
     (let ll = fe_lines st ! i; l = fi_logger ll in
      case fi_line ll of
        None \<Rightarrow> Inr st
      | Some hs \<Rightarrow>
          base_calls rt (map ABuild (line_calls (sf_widen (rt_fns rt)) (fl_settings (fe_loggers st ! l))
            (sn_referencesKept (span_of l st)) (fi_skip ll) v)) hs st)"

text \<open>The call of an ending on the base line, and the line's way back into the pool of its logger.\<close>

definition line_send :: "('h, 'w, 'c, 'm) runtime \<Rightarrow> nat \<Rightarrow> 'm line_end \<Rightarrow> ('h, 'w, 'c, 'm) front \<Rightarrow> ('h, 'w, 'c, 'm) front result" where
  "line_send rt i e st =
     (let ll = fe_lines st ! i in
      andThen (case fi_line ll of None \<Rightarrow> Inr st | Some hs \<Rightarrow> base_call rt (AEnd e) hs st)
        (\<lambda>st. Inr (upd_fspan (fi_logger ll) (\<lambda>x. x\<lparr>sn_linePool := sn_linePool x @ [i]\<rparr>) st)))"

subsection \<open>Activity, done and flush\<close>

definition addMyselfAsDependent :: "nat \<Rightarrow> ('h, 'w, 'c, 'm) front \<Rightarrow> bool \<times> ('h, 'w, 'c, 'm) front" where
  "addMyselfAsDependent l st =
     (let x = span_of l st; p = fl_parent (fe_loggers st ! l) in
      if l = 0 then (False, st)
      else if sn_detached x then
        (False, st\<lparr>fe_ActiveDetached := aput (sn_logNumber x) l (fe_ActiveDetached st)\<rparr>)
      else
        (let deps = aput (sn_logNumber x) l (sn_activeDependents (span_of p st)) in
         (length deps = 1, upd_fspan p (\<lambda>y. y\<lparr>sn_activeDependents := deps\<rparr>) st)))"

text \<open>The part of \<open>done\<close> that decides about flushing, and the removal from the parent's dependents.\<close>

definition done_detached :: "nat \<Rightarrow> ('h, 'w, 'c, 'm) front \<Rightarrow> bool \<times> ('h, 'w, 'c, 'm) front" where
  "done_detached l st =
     (let st = st\<lparr>fe_ActiveDetached := adel (sn_logNumber (span_of l st)) (fe_ActiveDetached st)\<rparr> in
      if fe_WaitingForDetached st \<and> fe_ActiveDetached st = [] \<and> sn_activeDependents (span_of 0 st) = []
      then (True, st\<lparr>fe_WaitingForDetached := False\<rparr>) else (False, st))"

definition done_request :: "('h, 'w, 'c, 'm) front \<Rightarrow> bool \<times> ('h, 'w, 'c, 'm) front" where
  "done_request st =
     (if sn_activeDependents (span_of 0 st) \<noteq> [] then (False, st)
      else if fe_ActiveDetached st \<noteq> [] then (False, st\<lparr>fe_WaitingForDetached := True\<rparr>)
      else (True, st))"

definition done_dependent :: "nat \<Rightarrow> ('h, 'w, 'c, 'm) front \<Rightarrow> ('h, 'w, 'c, 'm) front" where
  "done_dependent l st =
     upd_fspan (fl_parent (fe_loggers st ! l))
       (\<lambda>y. y\<lparr>sn_activeDependents := adel (sn_logNumber (span_of l st)) (sn_activeDependents y)\<rparr>) st"

text \<open>What \<open>recursiveDone\<close> does to its own span.\<close>

definition mark_done ::
    "('h, 'w, 'c, 'm) runtime \<Rightarrow> nat \<Rightarrow> bool \<Rightarrow> time \<Rightarrow> ('h, 'w, 'c, 'm) front \<Rightarrow> (i32 \<times> ('h, 'w, 'c, 'm) front) result" where
  "mark_done rt l final now st =
     (let x = span_of l st in
      if final then
        (let st = upd_fspan l (\<lambda>x. x\<lparr>sn_knownActive := False, sn_doneCount := sn_doneCount x + 1\<rparr>) st;
             (t, st) = clock_now rt st
         in andThen (base_call rt (ADone t True) (sn_base x) st) (\<lambda>st. Inr (sn_doneCount x + 1, st)))
      else if sn_knownActive x then
        andThen (base_call rt (ADone now False) (sn_base x) (upd_fspan l (\<lambda>x. x\<lparr>sn_knownActive := False\<rparr>) st))
          (\<lambda>st. Inr (0, st))
      else Inr (0, st))"

text \<open>The end of \<open>Flush\<close>: the timer stops and the flushers flush.\<close>

definition flush_bases :: "('h, 'w, 'c, 'm) runtime \<Rightarrow> ('h, 'w, 'c, 'm) front \<Rightarrow> ('h, 'w, 'c, 'm) front result" where
  "flush_bases rt st =
     base_call rt AFlush (rt_set rt (map snd (fe_Flushers st))) (st\<lparr>fe_FlushActive := False\<rparr>)"

text \<open>\<open>notBoring\<close> up to the call of \<open>hasActivity\<close>, which is made when the first result is true.\<close>

definition mark_notBoring ::
    "('h, 'w, 'c, 'm) runtime \<Rightarrow> nat \<Rightarrow> ('h, 'w, 'c, 'm) front \<Rightarrow> (bool \<times> ('h, 'w, 'c, 'm) front) result" where
  "mark_notBoring rt l st =
     (let st = upd_fspan l (\<lambda>x. x\<lparr>sn_boring := sn_boring x + 1\<rparr>) st in
      if sn_boring (span_of l st) = 1 then
        andThen (base_call rt (ABoring False) (sn_base (span_of l st)) st) (\<lambda>st.
          let st = upd_fspan 0 (\<lambda>x. x\<lparr>sn_boring := sn_boring x + 1\<rparr>) st in
          andThen (if sn_boring (span_of 0 st) = 1 then base_call rt (ABoring False) (sn_base (span_of 0 st)) st else Inr st)
            (\<lambda>st. Inr (True, st)))
      else Inr (False, st))"

text \<open>
  The functions that call each other. A body is written over \<open>run\<close>, which makes the calls in it;
  \<open>invoke\<close> ties the knot, with fuel. The result carries the count of \<open>recursiveDone\<close> (0 else).
\<close>

datatype callee =
  CHasActivity nat bool | CLogError nat string | CNotBoring nat | CDone nat bool time
| CRecursiveDone nat bool time | CDoneAll "nat list" bool time | CDetachedDone "nat list" time
| CRequestFlush | CFlush

type_synonym ('h, 'w, 'c, 'm) runner = "callee \<Rightarrow> ('h, 'w, 'c, 'm) front \<Rightarrow> (i32 \<times> ('h, 'w, 'c, 'm) front) result"

definition ret :: "('h, 'w, 'c, 'm) front \<Rightarrow> (i32 \<times> ('h, 'w, 'c, 'm) front) result" where
  "ret st = Inr (0, st)"

definition hasActivity ::
    "('h, 'w, 'c, 'm) runtime \<Rightarrow> ('h, 'w, 'c, 'm) runner \<Rightarrow> nat \<Rightarrow> bool \<Rightarrow> ('h, 'w, 'c, 'm) front \<Rightarrow> (i32 \<times> ('h, 'w, 'c, 'm) front) result" where
  "hasActivity rt run l startFlusher st =
     (let was = sn_knownActive (span_of l st); st = upd_fspan l (\<lambda>x. x\<lparr>sn_knownActive := True\<rparr>) st in
      if was then ret st
      else
        (let (first, st) = addMyselfAsDependent l st in
         andThen (if first then run (CHasActivity (fl_parent (fe_loggers st ! l)) False) st else ret st) (\<lambda>(_, st).
         if startFlusher then
           andThen (if sn_doneCount (span_of l st) \<noteq> 0
                    then run (CLogError l ''XOP: logger was already done, but was used again'') (st\<lparr>fe_FlushActive := True\<rparr>)
                    else ret (st\<lparr>fe_FlushActive := True\<rparr>)) (\<lambda>(_, st).
             let (t, st) = clock_now rt st in run (CDone l False t) st)
         else ret st)))"

text \<open>\<open>logger.Error().Msg(msg)\<close>.\<close>

definition logError ::
    "('h, 'w, 'c, 'm) runtime \<Rightarrow> ('h, 'w, 'c, 'm) runner \<Rightarrow> nat \<Rightarrow> string \<Rightarrow> ('h, 'w, 'c, 'm) front \<Rightarrow> (i32 \<times> ('h, 'w, 'c, 'm) front) result" where
  "logError rt run l msg st =
     andThen (run (CNotBoring l) st) (\<lambda>(_, st).
     andThen (logLine rt l ErrorLevel st) (\<lambda>(i, st).
     andThen (line_send rt i (LMsg msg) st) (\<lambda>st.
     run (CHasActivity (fi_logger (fe_lines st ! i)) True) st)))"

definition notBoring ::
    "('h, 'w, 'c, 'm) runtime \<Rightarrow> ('h, 'w, 'c, 'm) runner \<Rightarrow> nat \<Rightarrow> ('h, 'w, 'c, 'm) front \<Rightarrow> (i32 \<times> ('h, 'w, 'c, 'm) front) result" where
  "notBoring rt run l st =
     andThen (mark_notBoring rt l st) (\<lambda>(first, st). if first then run (CHasActivity l True) st else ret st)"

definition logger_done ::
    "('h, 'w, 'c, 'm) runner \<Rightarrow> nat \<Rightarrow> bool \<Rightarrow> time \<Rightarrow> ('h, 'w, 'c, 'm) front \<Rightarrow> (i32 \<times> ('h, 'w, 'c, 'm) front) result" where
  "logger_done run l explicit now st =
     andThen (run (CRecursiveDone l True now) st) (\<lambda>(postCount, st).
     andThen (if sint postCount > 1 \<and> explicit
              then run (CLogError l ''XOP: Done() called on logger object when it was already Done()'') st
              else ret st) (\<lambda>(_, st).
       if sn_detached (span_of l st) then
         (let (flush, st) = done_detached l st in if flush then run CRequestFlush st else ret st)
       else if fl_parent (fe_loggers st ! l) = l then
         (let (flush, st) = done_request st in if flush then run CRequestFlush st else ret st)
       else ret (done_dependent l st)))"

definition recursiveDone ::
    "('h, 'w, 'c, 'm) runtime \<Rightarrow> ('h, 'w, 'c, 'm) runner \<Rightarrow> nat \<Rightarrow> bool \<Rightarrow> time \<Rightarrow> ('h, 'w, 'c, 'm) front \<Rightarrow> (i32 \<times> ('h, 'w, 'c, 'm) front) result" where
  "recursiveDone rt run l done now st =
     andThen (mark_done rt l done now st) (\<lambda>(count, st).
     andThen (run (CDoneAll (rt_deps rt (map snd (sn_activeDependents (span_of l st)))) done now) st)
       (\<lambda>(_, st). Inr (count, st)))"

definition doneAll ::
    "('h, 'w, 'c, 'm) runner \<Rightarrow> nat list \<Rightarrow> bool \<Rightarrow> time \<Rightarrow> ('h, 'w, 'c, 'm) front \<Rightarrow> (i32 \<times> ('h, 'w, 'c, 'm) front) result" where
  "doneAll run deps done now st =
     (case deps of [] \<Rightarrow> ret st
      | d # ds \<Rightarrow> andThen (run (CDone d done now) st) (\<lambda>(_, st). run (CDoneAll ds done now) st))"

definition detachedDone ::
    "('h, 'w, 'c, 'm) runner \<Rightarrow> nat list \<Rightarrow> time \<Rightarrow> ('h, 'w, 'c, 'm) front \<Rightarrow> (i32 \<times> ('h, 'w, 'c, 'm) front) result" where
  "detachedDone run deps now st =
     (case deps of [] \<Rightarrow> ret st
      | d # ds \<Rightarrow> andThen (run (CRecursiveDone d False now) st) (\<lambda>(_, st). run (CDetachedDone ds now) st))"

text \<open>\<open>logger.request.flush()\<close>: now, or in a goroutine.\<close>

definition request_flush ::
    "('h, 'w, 'c, 'm) runner \<Rightarrow> ('h, 'w, 'c, 'm) front \<Rightarrow> (i32 \<times> ('h, 'w, 'c, 'm) front) result" where
  "request_flush run st =
     (if ls_synchronousFlushWhenDone (fl_settings (fe_loggers st ! 0)) then run CFlush st
      else ret (st\<lparr>fe_async := Suc (fe_async st)\<rparr>))"

definition Flush ::
    "('h, 'w, 'c, 'm) runtime \<Rightarrow> ('h, 'w, 'c, 'm) runner \<Rightarrow> ('h, 'w, 'c, 'm) front \<Rightarrow> (i32 \<times> ('h, 'w, 'c, 'm) front) result" where
  "Flush rt run st =
     (let (now, st) = clock_now rt st in
      andThen (run (CDetachedDone (rt_deps rt (map snd (fe_ActiveDetached st))) now) st) (\<lambda>(_, st).
      andThen (run (CRecursiveDone 0 False now) st) (\<lambda>(_, st). andThen (flush_bases rt st) ret)))"

definition body :: "('h, 'w, 'c, 'm) runtime \<Rightarrow> ('h, 'w, 'c, 'm) runner \<Rightarrow> ('h, 'w, 'c, 'm) runner" where
  "body rt run c =
     (case c of
        CHasActivity l start \<Rightarrow> hasActivity rt run l start
      | CLogError l msg \<Rightarrow> logError rt run l msg
      | CNotBoring l \<Rightarrow> notBoring rt run l
      | CDone l explicit now \<Rightarrow> logger_done run l explicit now
      | CRecursiveDone l done now \<Rightarrow> recursiveDone rt run l done now
      | CDoneAll ds done now \<Rightarrow> doneAll run ds done now
      | CDetachedDone ds now \<Rightarrow> detachedDone run ds now
      | CRequestFlush \<Rightarrow> request_flush run
      | CFlush \<Rightarrow> Flush rt run)"

primrec invoke :: "('h, 'w, 'c, 'm) runtime \<Rightarrow> nat \<Rightarrow> ('h, 'w, 'c, 'm) runner" where
  "invoke rt 0 = (\<lambda>c st. Inl OutOfFuel)"
| "invoke rt (Suc n) = body rt (invoke rt n)"

subsection \<open>New loggers\<close>

text \<open>\<open>startRequests\<close> over the base loggers of a seed: the handles and the map from IDs to requests.\<close>

fun start_list ::
    "('h, 'w, 'c, 'm) runtime \<Rightarrow> create \<Rightarrow> nat list \<Rightarrow> (string \<times> (nat \<times> 'h)) list \<Rightarrow> ('h, 'w, 'c, 'm) front \<Rightarrow>
     ((string \<times> (nat \<times> 'h)) list \<times> ('h, 'w, 'c, 'm) front) result" where
  "start_list rt x [] m st = Inr (m, st)"
| "start_list rt x (i # is) m st =
     (if map_of m (b_ID (rt_bases rt ! i)) \<noteq> None then start_list rt x is m st
      else andThen (base_request rt x i st)
             (\<lambda>(h, st). start_list rt x is (aput (b_ID (rt_bases rt ! i)) (i, h) m) st))"

definition loggers_flag :: "('h, 'w, 'c, 'm) runtime \<Rightarrow> (('h, 'w, 'm) base \<Rightarrow> bool) \<Rightarrow> ('c, 'm) Seed \<Rightarrow> bool" where
  "loggers_flag rt f seed = list_ex (\<lambda>i. f (rt_bases rt ! i)) (lg_List (sd_loggers seed))"

text \<open>\<open>seed.request\<close>, into base loggers that are in the states \<open>ws\<close>; \<open>k\<close> is the count of random reads.\<close>

definition seed_request ::
    "('h, 'w, 'c, 'm) runtime \<Rightarrow> ('c, 'm) Seed \<Rightarrow> string \<Rightarrow> time \<Rightarrow> nat \<Rightarrow> 'w list \<Rightarrow> ('h, 'w, 'c, 'm) front result" where
  "seed_request rt seed0 description now k ws =
     (let seed = spanSeed_copy False seed0;
          buffered = loggers_flag rt b_Buffered seed;
          span = \<lparr>sn_seed = seed, sn_referencesKept = loggers_flag rt b_ReferencesKept seed, sn_base = [],
            sn_linePool = [], sn_boring = 0, sn_buffered = buffered, sn_description = description,
            sn_stepCounter = 0, sn_forkCounter = 0, sn_detached = False, sn_activeDependents = [],
            sn_doneCount = 0, sn_knownActive = True, sn_logNumber = 0\<rparr>;
          st = \<lparr>fe_ws = ws, fe_loggers = [\<lparr>fl_span = 0, fl_parent = 0, fl_settings = sd_settings seed,
                  fl_nonSpanSubLog = False, fl_prefilled = []\<rparr>],
                fe_spans = [span], fe_lines = [], fe_Flushers = [], fe_FlushActive = buffered,
                fe_LogCount = 0, fe_ActiveDetached = [], fe_WaitingForDetached = False, fe_async = 0,
                fe_tick = 1, fe_rand = k\<rparr>
      in andThen (start_list rt (NRequest now (sd_traceBundle seed) description (sd_sourceInfo seed))
             (lg_List (sd_loggers seed)) [] st) (\<lambda>(m, st).
         andThen (base_call rt ASetErrorReporter (map snd m)
             (upd_fspan 0 (\<lambda>x. x\<lparr>sn_base := map snd m\<rparr>) (st\<lparr>fe_Flushers := m\<rparr>))) (sendPrefill rt 0)))"

definition Seed_Request ::
    "('h, 'w, 'c, 'm) runtime \<Rightarrow> ('c, 'm) Seed \<Rightarrow> string \<Rightarrow> nat \<Rightarrow> 'w list \<Rightarrow> ('h, 'w, 'c, 'm) front result" where
  "Seed_Request rt seed description k ws =
     andThen (orPanic (react (rt_fns rt) True description (rt_clock rt 0) k seed))
       (\<lambda>(seed, k). seed_request rt seed description (rt_clock rt 0) k ws)"

definition Seed_SubSpan ::
    "('h, 'w, 'c, 'm) runtime \<Rightarrow> ('c, 'm) Seed \<Rightarrow> string \<Rightarrow> nat \<Rightarrow> 'w list \<Rightarrow> ('h, 'w, 'c, 'm) front result" where
  "Seed_SubSpan rt seed description k ws =
     andThen (orPanic (react (rt_fns rt) False description (rt_clock rt 0) k seed))
       (\<lambda>(seed, k). seed_request rt seed description (rt_clock rt 0) k ws)"

text \<open>\<open>Sub().Logger()\<close>.\<close>

definition Sub_Logger ::
    "('h, 'w, 'c, 'm) runtime \<Rightarrow> nat \<Rightarrow> 'm LogSettings \<Rightarrow> nat \<Rightarrow> ('h, 'w, 'c, 'm) front \<Rightarrow> ('h, 'w, 'c, 'm) front result" where
  "Sub_Logger rt fuel settings l st =
     (let old = fe_loggers st ! l; n = length (fe_loggers st);
          st = st\<lparr>fe_loggers := fe_loggers st @ [old\<lparr>fl_settings := settings, fl_nonSpanSubLog := True\<rparr>]\<rparr>
      in andThen (sendPrefill rt n st) (\<lambda>st. andThen (invoke rt fuel (CHasActivity n False) st) (\<lambda>(_, st). Inr st)))"

text \<open>The base loggers that a seed added, in \<open>newChildLog\<close>.\<close>

fun add_bases ::
    "('h, 'w, 'c, 'm) runtime \<Rightarrow> create \<Rightarrow> nat list \<Rightarrow> (string \<times> (nat \<times> 'h)) list \<Rightarrow> ('h, 'w, 'c, 'm) front \<Rightarrow>
     ((string \<times> (nat \<times> 'h)) list \<times> ('h, 'w, 'c, 'm) front) result" where
  "add_bases rt x [] spanSet st = Inr (spanSet, st)"
| "add_bases rt x (i # is) spanSet st =
     (let ident = b_ID (rt_bases rt ! i) in
      if map_of spanSet ident \<noteq> None \<or> map_of (fe_Flushers st) ident \<noteq> None then add_bases rt x is spanSet st
      else andThen (base_request rt x i st) (\<lambda>(h, st).
           andThen (base_call rt ASetErrorReporter [(i, h)] st) (\<lambda>st.
             add_bases rt x is (aput ident (i, h) spanSet) (st\<lparr>fe_Flushers := aput ident (i, h) (fe_Flushers st)\<rparr>))))"

definition span_set :: "('h, 'w, 'c, 'm) runtime \<Rightarrow> (nat \<times> 'h) list \<Rightarrow> nat list \<Rightarrow> (string \<times> (nat \<times> 'h)) list" where
  "span_set rt hs removed =
     fold (\<lambda>i. adel (b_ID (rt_bases rt ! i))) removed (fold (\<lambda>p. aput (b_ID (rt_bases rt ! fst p)) p) hs [])"

text \<open>The new span's base span once the seed's history is taken into account.\<close>

definition adjust_bases ::
    "('h, 'w, 'c, 'm) runtime \<Rightarrow> ('c, 'm) Seed \<Rightarrow> time \<Rightarrow> ('h, 'c, 'm) fspan \<Rightarrow> (nat \<times> 'h) list \<Rightarrow> ('h, 'w, 'c, 'm) front \<Rightarrow>
     (((nat \<times> 'h) list \<times> bool \<times> bool) \<times> ('h, 'w, 'c, 'm) front) result" where
  "adjust_bases rt seed now old hs st =
     (if lg_Added (sd_loggers seed) = [] \<and> lg_Removed (sd_loggers seed) = [] then
        Inr ((hs, sn_buffered old, sn_referencesKept old), st)
      else
        (let request = span_of 0 st;
             x = NRequest now (sd_traceBundle (sn_seed request)) (sn_description request) (sd_sourceInfo (sn_seed request))
         in andThen (add_bases rt x (lg_Added (sd_loggers seed)) (span_set rt hs (lg_Removed (sd_loggers seed))) st)
              (\<lambda>(spanSet, st). Inr ((rt_set rt (map snd spanSet), loggers_flag rt b_Buffered seed,
                 loggers_flag rt b_ReferencesKept seed), st))))"

text \<open>The new logger and its span, with their first calls on the base span; the end of \<open>newChildLog\<close>.\<close>

definition child_log ::
    "('h, 'w, 'c, 'm) runtime \<Rightarrow> nat \<Rightarrow> ('c, 'm) Seed \<Rightarrow> ('h, 'c, 'm) fspan \<Rightarrow> ('h, 'w, 'c, 'm) front \<Rightarrow> ('h, 'w, 'c, 'm) front result" where
  "child_log rt l seed span st =
     (let n = length (fe_loggers st);
          st = st\<lparr>fe_loggers := fe_loggers st @ [\<lparr>fl_span = length (fe_spans st), fl_parent = l,
                     fl_settings = sd_settings seed, fl_nonSpanSubLog = False, fl_prefilled = []\<rparr>],
                  fe_spans := fe_spans st @ [span]\<rparr>
      in andThen (base_call rt (ABoring True) (sn_base span) st) (\<lambda>st.
         andThen (sendPrefill rt n st) (\<lambda>st. Inr (snd (addMyselfAsDependent n st)))))"

definition newChildLog ::
    "('h, 'w, 'c, 'm) runtime \<Rightarrow> nat \<Rightarrow> ('c, 'm) Seed \<Rightarrow> string \<Rightarrow> bool \<Rightarrow> ('h, 'w, 'c, 'm) front \<Rightarrow> ('h, 'w, 'c, 'm) front result" where
  "newChildLog rt l seed0 description detached st =
     (let (now, st) = clock_now rt st; old = span_of l st in
      andThen (orPanic (react (rt_fns rt) False description now (fe_rand st) seed0)) (\<lambda>(seed, k).
      let st = st\<lparr>fe_rand := k, fe_LogCount := fe_LogCount st + 1\<rparr>; number = fe_LogCount st in
      andThen (base_create rt (NSpan now (sd_traceBundle seed) description (sd_spanSequenceCode seed)) (sn_base old) st) (\<lambda>(hs, st).
      andThen (adjust_bases rt seed now old hs st) (\<lambda>((hs, buffered, kept), st).
      child_log rt l seed
        \<lparr>sn_seed = seed, sn_referencesKept = kept, sn_base = hs, sn_linePool = [], sn_boring = 0,
         sn_buffered = buffered, sn_description = description, sn_stepCounter = 0, sn_forkCounter = 0,
         sn_detached = detached, sn_activeDependents = [], sn_doneCount = 0, sn_knownActive = True,
         sn_logNumber = number\<rparr> st))))"

text \<open>\<open>base26\<close> (\<open>support.go\<close>).\<close>

definition base26_char :: "char \<Rightarrow> char" where
  "base26_char c =
     (if c = CHR ''-'' then c
      else if (of_char c :: nat) \<ge> 97 then char_of ((of_char c :: nat) + 10 + 65 - 97)
      else char_of ((of_char c :: nat) + 17))"

definition base26 :: "int \<Rightarrow> string" where
  "base26 v = map base26_char (FormatInt v 26)"

text \<open>\<open>Fork\<close> and \<open>Step\<close> of a \<open>Sub\<close> with the settings \<open>s\<close>, detached or not.\<close>

definition Sub_Fork ::
    "('h, 'w, 'c, 'm) runtime \<Rightarrow> nat \<Rightarrow> 'm LogSettings \<Rightarrow> bool \<Rightarrow> string \<Rightarrow> ('c, 'm) SeedModifier list \<Rightarrow>
     ('h, 'w, 'c, 'm) front \<Rightarrow> ('h, 'w, 'c, 'm) front result" where
  "Sub_Fork rt l s detached msg mods st =
     andThen (orPanic (SubSeed (rt_fns rt) mods (fl_settings (fe_loggers st ! l)) (fe_rand st) (sn_seed (span_of l st)))) (\<lambda>(seed, k).
       let st = upd_fspan l (\<lambda>x. x\<lparr>sn_forkCounter := sn_forkCounter x + 1\<rparr>) (st\<lparr>fe_rand := k\<rparr>);
           counter = sint (sn_forkCounter (span_of l st));
           seed = seed\<lparr>sd_spanSequenceCode := sd_spanSequenceCode seed @ ''.'' @ base26 (counter - 1), sd_settings := s\<rparr>
       in newChildLog rt l seed msg detached st)"

definition Sub_Step ::
    "('h, 'w, 'c, 'm) runtime \<Rightarrow> nat \<Rightarrow> 'm LogSettings \<Rightarrow> bool \<Rightarrow> string \<Rightarrow> ('c, 'm) SeedModifier list \<Rightarrow>
     ('h, 'w, 'c, 'm) front \<Rightarrow> ('h, 'w, 'c, 'm) front result" where
  "Sub_Step rt l s detached msg mods st =
     andThen (orPanic (SubSeed (rt_fns rt) mods (fl_settings (fe_loggers st ! l)) (fe_rand st) (sn_seed (span_of l st)))) (\<lambda>(seed, k).
       let st = upd_fspan l (\<lambda>x. x\<lparr>sn_stepCounter := sn_stepCounter x + 1\<rparr>) (st\<lparr>fe_rand := k\<rparr>);
           counter = sint (sn_stepCounter (span_of l st));
           seed = seed\<lparr>sd_spanSequenceCode := sd_spanSequenceCode seed @ ''.'' @ Itoa counter, sd_settings := s\<rparr>
       in newChildLog rt l seed msg detached st)"

subsection \<open>What a user can do\<close>

text \<open>The metadata methods of \<open>Span\<close>; the small integers are kept as \<open>int64\<close> attributes.\<close>

datatype 'm spanval =
  PInt64 i64 | PAnyImmutable 'm | PAny 'm | PBool bool | PEnum enumValue | PFloat64 u64 | PLink Trace | PString string
| PTime int nat | PDuration i64 | PInt i64 | PInt16 "16 word" | PInt32 "32 word" | PInt8 "8 word"

fun span_metavalue :: "'m spanval \<Rightarrow> 'm metavalue" where
  "span_metavalue (PInt64 v) = MInt64 v"
| "span_metavalue (PAnyImmutable v) = MAny (modelOf v)"
| "span_metavalue (PAny v) = MAny (modelOf v)"
| "span_metavalue (PBool v) = MBool v"
| "span_metavalue (PEnum v) = MEnum v"
| "span_metavalue (PFloat64 v) = MFloat64 v"
| "span_metavalue (PLink v) = MLink v"
| "span_metavalue (PString v) = MString v"
| "span_metavalue (PTime v rep) = MTime v rep"
| "span_metavalue (PDuration v) = MInt64 v"
| "span_metavalue (PInt v) = MInt64 v"
| "span_metavalue (PInt16 v) = MInt64 (scast v)"
| "span_metavalue (PInt32 v) = MInt64 (scast v)"
| "span_metavalue (PInt8 v) = MInt64 (scast v)"

datatype ('c, 'm) fe_op =
  OLine nat int | OError nat | OAlert nat | OAdd nat "'m logval" | OEnd nat "'m line_end"
| OMsgf nat string
| OSpan nat Attribute "'m spanval"
| OLogger nat "'m setting list"
| OFork nat "'m setting list" bool string "('c, 'm) SeedModifier list"
| OStep nat "'m setting list" bool string "('c, 'm) SeedModifier list"
| ODone nat | OFlush | OBoring nat | OTimer | OAsync

definition run_unit :: "(i32 \<times> ('h, 'w, 'c, 'm) front) result \<Rightarrow> ('h, 'w, 'c, 'm) front result" where
  "run_unit r = andThen r (\<lambda>(_, st). Inr st)"

text \<open>\<open>Msg\<close> and the other endings; a skipped \<open>Model\<close> is a \<open>Msg\<close>, which \<open>SkipLine\<close> ignores as well.\<close>

definition Line_finish ::
    "('h, 'w, 'c, 'm) runtime \<Rightarrow> nat \<Rightarrow> nat \<Rightarrow> 'm line_end \<Rightarrow> ('h, 'w, 'c, 'm) front \<Rightarrow> ('h, 'w, 'c, 'm) front result" where
  "Line_finish rt fuel i e st =
     andThen (line_send rt i e st) (\<lambda>st. run_unit (invoke rt fuel (CHasActivity (fi_logger (fe_lines st ! i)) True) st))"

definition Line_Msgf ::
    "('h, 'w, 'c, 'm) runtime \<Rightarrow> nat \<Rightarrow> nat \<Rightarrow> string \<Rightarrow> ('h, 'w, 'c, 'm) front \<Rightarrow> ('h, 'w, 'c, 'm) front result" where
  "Line_Msgf rt fuel i msg st = (if fi_skip (fe_lines st ! i) then Inr st else Line_finish rt fuel i (LMsg msg) st)"

definition Logger_Error ::
    "('h, 'w, 'c, 'm) runtime \<Rightarrow> nat \<Rightarrow> nat \<Rightarrow> int \<Rightarrow> ('h, 'w, 'c, 'm) front \<Rightarrow> ('h, 'w, 'c, 'm) front result" where
  "Logger_Error rt fuel l level st =
     andThen (invoke rt fuel (CNotBoring l) st) (\<lambda>(_, st). andThen (logLine rt l level st) (\<lambda>(_, st). Inr st))"

definition Span_metadata ::
    "('h, 'w, 'c, 'm) runtime \<Rightarrow> nat \<Rightarrow> nat \<Rightarrow> Attribute \<Rightarrow> 'm spanval \<Rightarrow> ('h, 'w, 'c, 'm) front \<Rightarrow> ('h, 'w, 'c, 'm) front result" where
  "Span_metadata rt fuel l k v st =
     andThen (base_call rt (AMetadata k (span_metavalue v)) (sn_base (span_of l st)) st)
       (\<lambda>st. run_unit (invoke rt fuel (CHasActivity l True) st))"

definition Logger_Done ::
    "('h, 'w, 'c, 'm) runtime \<Rightarrow> nat \<Rightarrow> nat \<Rightarrow> ('h, 'w, 'c, 'm) front \<Rightarrow> ('h, 'w, 'c, 'm) front result" where
  "Logger_Done rt fuel l st =
     (if fl_nonSpanSubLog (fe_loggers st ! l)
      then run_unit (invoke rt fuel (CLogError l ''XOP: invalid call to Done() in non-span sub-logger'') st)
      else let (t, st) = clock_now rt st in run_unit (invoke rt fuel (CDone l True t) st))"

text \<open>\<open>Boring\<close>, when nothing happens between its two looks at the request.\<close>

definition Logger_Boring ::
    "('h, 'w, 'c, 'm) runtime \<Rightarrow> nat \<Rightarrow> nat \<Rightarrow> ('h, 'w, 'c, 'm) front \<Rightarrow> ('h, 'w, 'c, 'm) front result" where
  "Logger_Boring rt fuel l st =
     (if sn_boring (span_of 0 st) \<noteq> 0 then Inr st
      else andThen (base_call rt (ABoring True) (sn_base (span_of 0 st)) st)
             (\<lambda>st. run_unit (invoke rt fuel (CHasActivity l True) st)))"

definition Sub_settings ::
    "('h, 'w, 'c, 'm) runtime \<Rightarrow> nat \<Rightarrow> 'm setting list \<Rightarrow> ('h, 'w, 'c, 'm) front \<Rightarrow> 'm LogSettings" where
  "Sub_settings rt l xs st = apply_settings (sf_widen (rt_fns rt)) xs (fl_settings (fe_loggers st ! l))"

fun fe_step :: "('h, 'w, 'c, 'm) runtime \<Rightarrow> nat \<Rightarrow> ('c, 'm) fe_op \<Rightarrow> ('h, 'w, 'c, 'm) front \<Rightarrow> ('h, 'w, 'c, 'm) front result" where
  "fe_step rt fuel (OLine l level) st = andThen (logLine rt l level st) (\<lambda>(_, st). Inr st)"
| "fe_step rt fuel (OError l) st = Logger_Error rt fuel l ErrorLevel st"
| "fe_step rt fuel (OAlert l) st = Logger_Error rt fuel l AlertLevel st"
| "fe_step rt fuel (OAdd i v) st = line_add rt i v st"
| "fe_step rt fuel (OEnd i e) st = Line_finish rt fuel i e st"
| "fe_step rt fuel (OMsgf i msg) st = Line_Msgf rt fuel i msg st"
| "fe_step rt fuel (OSpan l k v) st = Span_metadata rt fuel l k v st"
| "fe_step rt fuel (OLogger l xs) st = Sub_Logger rt fuel (Sub_settings rt l xs st) l st"
| "fe_step rt fuel (OFork l xs detached msg mods) st = Sub_Fork rt l (Sub_settings rt l xs st) detached msg mods st"
| "fe_step rt fuel (OStep l xs detached msg mods) st = Sub_Step rt l (Sub_settings rt l xs st) detached msg mods st"
| "fe_step rt fuel (ODone l) st = Logger_Done rt fuel l st"
| "fe_step rt fuel OFlush st = run_unit (invoke rt fuel CFlush st)"
| "fe_step rt fuel (OBoring l) st = Logger_Boring rt fuel l st"
| "fe_step rt fuel OTimer st = (if fe_FlushActive st then run_unit (invoke rt fuel CFlush st) else Inr st)"
| "fe_step rt fuel OAsync st =
     (case fe_async st of 0 \<Rightarrow> Inr st | Suc k \<Rightarrow> run_unit (invoke rt fuel CFlush (st\<lparr>fe_async := k\<rparr>)))"

text \<open>
  The operation names loggers and lines that exist. Nothing stops a user from going on with a line
  that was sent.
\<close>

fun op_ok :: "('c, 'm) fe_op \<Rightarrow> ('h, 'w, 'c, 'm) front \<Rightarrow> bool" where
  "op_ok (OAdd i v) st = (i < length (fe_lines st))"
| "op_ok (OEnd i e) st = (i < length (fe_lines st))"
| "op_ok (OMsgf i msg) st = (i < length (fe_lines st))"
| "op_ok (OLine l level) st = (l < length (fe_loggers st))"
| "op_ok (OError l) st = (l < length (fe_loggers st))"
| "op_ok (OAlert l) st = (l < length (fe_loggers st))"
| "op_ok (OSpan l k v) st = (l < length (fe_loggers st))"
| "op_ok (OLogger l xs) st = (l < length (fe_loggers st))"
| "op_ok (OFork l xs detached msg mods) st = (l < length (fe_loggers st))"
| "op_ok (OStep l xs detached msg mods) st = (l < length (fe_loggers st))"
| "op_ok (ODone l) st = (l < length (fe_loggers st))"
| "op_ok (OBoring l) st = (l < length (fe_loggers st))"
| "op_ok _ st = True"

fun fe_run :: "('h, 'w, 'c, 'm) runtime \<Rightarrow> nat \<Rightarrow> ('c, 'm) fe_op list \<Rightarrow> ('h, 'w, 'c, 'm) front \<Rightarrow> ('h, 'w, 'c, 'm) front result" where
  "fe_run rt fuel [] st = Inr st"
| "fe_run rt fuel (x # xs) st = (if op_ok x st then andThen (fe_step rt fuel x st) (fe_run rt fuel xs) else Inl Panicked)"

end
