(* ===== verification/FrontRules.thy ===== *)
theory FrontRules
  imports FrontEnd
begin

section \<open>Rules for the steps of the front end\<close>

text \<open>
  \<open>outcome E Q r\<close>: the result \<open>r\<close> is an error in \<open>E\<close>, or a value with \<open>Q\<close>. With all errors in
  \<open>E\<close> it is partial correctness, with \<open>{Panicked}\<close> it says that the fuel was enough. The rules
  follow the code's sequencing, so a proof about an operation is a chain of them.
\<close>

definition outcome :: "stuck set \<Rightarrow> ('a \<Rightarrow> bool) \<Rightarrow> 'a result \<Rightarrow> bool" where
  "outcome E Q r = (case r of Inl e \<Rightarrow> e \<in> E | Inr x \<Rightarrow> Q x)"

lemma outcome_simps [simp]: "outcome E Q (Inl e) \<longleftrightarrow> e \<in> E" "outcome E Q (Inr x) \<longleftrightarrow> Q x"
  by (simp_all add: outcome_def)

lemma outcome_ret [simp]: "outcome E Q (ret st) \<longleftrightarrow> Q (0, st)"
  by (simp add: ret_def)

lemma outcome_andThen: "outcome E P r \<Longrightarrow> (\<And>x. P x \<Longrightarrow> outcome E Q (f x)) \<Longrightarrow> outcome E Q (andThen r f)"
  by (cases r) simp_all

lemma outcome_mono: "outcome E P r \<Longrightarrow> (\<And>x. P x \<Longrightarrow> Q x) \<Longrightarrow> outcome E Q r"
  by (cases r) simp_all

lemma outcome_errors: "outcome E P r \<Longrightarrow> E \<subseteq> F \<Longrightarrow> outcome F P r"
  by (cases r) auto

lemma outcome_Inr: "outcome E P r \<Longrightarrow> r = Inr x \<Longrightarrow> P x"
  by simp

lemma outcome_orPanic: "Panicked \<in> E \<Longrightarrow> (\<And>x. r = Some x \<Longrightarrow> Q x) \<Longrightarrow> outcome E Q (orPanic r)"
  by (cases r) (simp_all add: orPanic_def)

lemma outcome_run_unit: "outcome E (\<lambda>(_, st). Q st) r \<Longrightarrow> outcome E Q (run_unit r)"
  unfolding run_unit_def by (erule outcome_andThen) auto

lemma andThen_Inr: "andThen r f = Inr y \<longleftrightarrow> (\<exists>x. r = Inr x \<and> f x = Inr y)"
  by (cases r) auto

subsection \<open>What the calls on base loggers leave alone\<close>

lemma outcome_base_call:
  assumes "Panicked \<in> E" "\<And>ws. each (\<lambda>i h w. b_do (rt_bases rt ! i) a h w) hs (fe_ws st) = Some ws \<Longrightarrow> Q (st\<lparr>fe_ws := ws\<rparr>)"
  shows "outcome E Q (base_call rt a hs st)"
  unfolding base_call_def by (rule outcome_orPanic) (use assms in auto)

lemma outcome_base_create:
  assumes "Panicked \<in> E" "\<And>ks ws. each_new (\<lambda>i h w. b_new (rt_bases rt ! i) x (Some h) w) hs (fe_ws st) = Some (ks, ws) \<Longrightarrow>
      Q (ks, st\<lparr>fe_ws := ws\<rparr>)"
  shows "outcome E Q (base_create rt x hs st)"
  unfolding base_create_def by (rule outcome_orPanic) (use assms in auto)

lemma outcome_base_request:
  assumes "Panicked \<in> E" "\<And>h w. i < length (fe_ws st) \<Longrightarrow> b_new (rt_bases rt ! i) x None (fe_ws st ! i) = Some (h, w) \<Longrightarrow>
      Q (h, st\<lparr>fe_ws := (fe_ws st)[i := w]\<rparr>)"
  shows "outcome E Q (base_request rt x i st)"
  unfolding base_request_def using assms by (auto intro!: outcome_orPanic)

lemma outcome_base_calls:
  assumes E: "Panicked \<in> E"
  shows "Q st \<Longrightarrow> (\<And>a st ws. Q st \<Longrightarrow> each (\<lambda>i h w. b_do (rt_bases rt ! i) a h w) hs (fe_ws st) = Some ws \<Longrightarrow> Q (st\<lparr>fe_ws := ws\<rparr>)) \<Longrightarrow>
    outcome E Q (base_calls rt as hs st)"
proof (induction as arbitrary: st)
  case (Cons a as)
  show ?case unfolding base_calls.simps
    by (rule outcome_andThen [where P = Q]) (use Cons E in \<open>auto intro: outcome_base_call\<close>)
qed simp

subsection \<open>Stores\<close>

lemma upd_fspan_simps [simp]:
  "fe_ws (upd_fspan l f st) = fe_ws st" "fe_loggers (upd_fspan l f st) = fe_loggers st"
  "fe_lines (upd_fspan l f st) = fe_lines st" "fe_Flushers (upd_fspan l f st) = fe_Flushers st"
  "fe_FlushActive (upd_fspan l f st) = fe_FlushActive st" "fe_ActiveDetached (upd_fspan l f st) = fe_ActiveDetached st"
  "fe_WaitingForDetached (upd_fspan l f st) = fe_WaitingForDetached st" "fe_async (upd_fspan l f st) = fe_async st"
  "fe_tick (upd_fspan l f st) = fe_tick st" "fe_rand (upd_fspan l f st) = fe_rand st" "fe_LogCount (upd_fspan l f st) = fe_LogCount st"
  "fe_spans (upd_fspan l f st) =
     (fe_spans st)[fl_span (fe_loggers st ! l) := f (fe_spans st ! fl_span (fe_loggers st ! l))]"
  by (simp_all add: upd_fspan_def Let_def)

lemma length_upd_fspan [simp]: "length (fe_spans (upd_fspan l f st)) = length (fe_spans st)"
  by simp

lemma in_upd_fspan: "x \<in> set (fe_spans (upd_fspan l f st)) \<Longrightarrow> fl_span (fe_loggers st ! l) < length (fe_spans st) \<Longrightarrow>
    x \<in> set (fe_spans st) \<or> x = f (span_of l st)"
  by (auto simp: span_of_def dest: set_update_subset_insert [THEN subsetD])

lemma span_of_upd: "fl_span (fe_loggers st ! k) < length (fe_spans st) \<Longrightarrow>
    span_of k (upd_fspan l f st) = (if fl_span (fe_loggers st ! k) = fl_span (fe_loggers st ! l) then f (span_of k st) else span_of k st)"
  by (simp add: span_of_def nth_list_update)

lemma clock_now_eq: "clock_now rt st = (rt_clock rt (fe_tick st), st\<lparr>fe_tick := Suc (fe_tick st)\<rparr>)"
  by (simp add: clock_now_def)

text \<open>The order in which the runtime walks over a map is a permutation.\<close>

definition rt_ok :: "('h, 'w, 'c, 'm) runtime \<Rightarrow> bool" where
  "rt_ok rt \<longleftrightarrow> (\<forall>xs. mset (rt_deps rt xs) = mset xs) \<and> (\<forall>xs. mset (rt_set rt xs) = mset xs)"

lemma rt_ok_set: "rt_ok rt \<Longrightarrow> set (rt_deps rt xs) = set xs" "rt_ok rt \<Longrightarrow> set (rt_set rt ys) = set ys"
  by (auto simp: rt_ok_def dest: mset_eq_setD)

end
