(* ===== verification/FrontTerm.thy ===== *)
theory FrontTerm
  imports FrontRules
begin

section \<open>The front end terminates on spans\<close>

text \<open>
  The functions of \<open>logger.go\<close> that call each other return when no logger is its own dependent:
  every dependent of a span belongs to a later span (\<open>tree\<close>), which holds as long as the request's
  own logger has no \<open>Sub().Logger()\<close>. The fuel needed is bounded by the square of the number of
  spans.
\<close>

subsection \<open>The part of the state that calls do not change\<close>

type_synonym ('h, 'm) shape = "('h, 'm) flogger list \<times> bool list \<times> i32 list"

definition shape :: "('h, 'w, 'c, 'm) front \<Rightarrow> ('h, 'm) shape" where
  "shape st = (fe_loggers st, map sn_detached (fe_spans st), map sn_logNumber (fe_spans st))"

definition frame :: "('h, 'm) shape \<Rightarrow> bool" where
  "frame x = (case x of (L, D, N) \<Rightarrow>
     length N = length D \<and> L \<noteq> [] \<and> D \<noteq> [] \<and> \<not> D ! 0 \<and> fl_span (L ! 0) = 0 \<and> fl_parent (L ! 0) = 0 \<and>
     (\<forall>l < length L. fl_span (L ! l) < length D \<and> fl_parent (L ! l) < length L \<and>
        (l \<noteq> 0 \<longrightarrow> fl_span (L ! fl_parent (L ! l)) < fl_span (L ! l))))"

text \<open>Entries of a span's dependents, of the detached loggers, and of a pool of lines.\<close>

definition dep_in :: "('h, 'm) shape \<Rightarrow> nat \<Rightarrow> i32 \<times> nat \<Rightarrow> bool" where
  "dep_in x s p = (case x of (L, D, N) \<Rightarrow> case p of (k, d) \<Rightarrow>
     d < length L \<and> d \<noteq> 0 \<and> fl_span (L ! fl_parent (L ! d)) = s \<and> \<not> D ! fl_span (L ! d) \<and> k = N ! fl_span (L ! d))"

definition det_in :: "('h, 'm) shape \<Rightarrow> i32 \<times> nat \<Rightarrow> bool" where
  "det_in x p = (case x of (L, D, N) \<Rightarrow> case p of (k, d) \<Rightarrow>
     d < length L \<and> D ! fl_span (L ! d) \<and> k = N ! fl_span (L ! d))"

definition line_in :: "('h, 'm) shape \<Rightarrow> 'h fline list \<Rightarrow> nat \<Rightarrow> nat \<Rightarrow> bool" where
  "line_in x lines s i = (case x of (L, D, N) \<Rightarrow> i < length lines \<and> fl_span (L ! fi_logger (lines ! i)) = s)"

definition span_tree :: "('h, 'm) shape \<Rightarrow> 'h fline list \<Rightarrow> nat \<Rightarrow> ('h, 'c, 'm) fspan \<Rightarrow> bool" where
  "span_tree x lines s y \<longleftrightarrow> distinct (map fst (sn_activeDependents y)) \<and>
     (\<forall>p \<in> set (sn_activeDependents y). dep_in x s p) \<and> (\<forall>i \<in> set (sn_linePool y). line_in x lines s i)"

definition tree :: "('h, 'w, 'c, 'm) front \<Rightarrow> bool" where
  "tree st \<longleftrightarrow> frame (shape st) \<and>
     (\<forall>s < length (fe_spans st). span_tree (shape st) (fe_lines st) s (fe_spans st ! s)) \<and>
     distinct (map fst (fe_ActiveDetached st)) \<and> (\<forall>p \<in> set (fe_ActiveDetached st). det_in (shape st) p) \<and>
     (\<forall>x \<in> set (fe_lines st). fi_logger x < length (fe_loggers st))"

definition active :: "nat \<Rightarrow> ('h, 'w, 'c, 'm) front \<Rightarrow> bool" where
  "active s st \<longleftrightarrow> sn_knownActive (fe_spans st ! s)"

text \<open>A step that keeps the tree, its shape, and the activity of the spans in \<open>A\<close>.\<close>

definition steady :: "nat set \<Rightarrow> ('h, 'w, 'c, 'm) front \<Rightarrow> ('h, 'w, 'c, 'm) front \<Rightarrow> bool" where
  "steady A st st' \<longleftrightarrow> tree st' \<and> shape st' = shape st \<and> (\<forall>s \<in> A. active s st \<longrightarrow> active s st')"

lemma steady_refl: "tree st \<Longrightarrow> steady A st st"
  by (simp add: steady_def)

lemma steady_trans: "steady A st st' \<Longrightarrow> steady A st' st'' \<Longrightarrow> steady A st st''"
  by (simp add: steady_def)

lemma steady_mono: "steady A st st' \<Longrightarrow> B \<subseteq> A \<Longrightarrow> steady B st st'"
  unfolding steady_def by blast

lemma shape_eqs: "shape st' = shape st \<Longrightarrow> fe_loggers st' = fe_loggers st"
  "shape st' = shape st \<Longrightarrow> length (fe_spans st') = length (fe_spans st)"
  unfolding shape_def by (auto dest: map_eq_imp_length_eq)

lemma steady_tree: "steady A st st' \<Longrightarrow> tree st'"
  "steady A st st' \<Longrightarrow> fe_loggers st' = fe_loggers st"
  "steady A st st' \<Longrightarrow> length (fe_spans st') = length (fe_spans st)"
  by (auto simp: steady_def dest: shape_eqs)

lemma steady_active: "steady A st st' \<Longrightarrow> s \<in> A \<Longrightarrow> active s st \<Longrightarrow> active s st'"
  by (simp add: steady_def)

lemma tree_frame:
  assumes "tree st"
  shows "fe_loggers st \<noteq> []" "fl_span (fe_loggers st ! 0) = 0" "fl_parent (fe_loggers st ! 0) = 0"
    and "l < length (fe_loggers st) \<Longrightarrow> fl_span (fe_loggers st ! l) < length (fe_spans st)"
    and "l < length (fe_loggers st) \<Longrightarrow> fl_parent (fe_loggers st ! l) < length (fe_loggers st)"
    and "l < length (fe_loggers st) \<Longrightarrow> l \<noteq> 0 \<Longrightarrow>
      fl_span (fe_loggers st ! fl_parent (fe_loggers st ! l)) < fl_span (fe_loggers st ! l)"
    and "fe_spans st \<noteq> []" "\<not> sn_detached (fe_spans st ! 0)"
  using assms by (auto simp: tree_def frame_def shape_def)

lemma tree_parent:
  assumes "tree st" "l < length (fe_loggers st)"
  shows "fl_parent (fe_loggers st ! l) = l \<longleftrightarrow> l = 0" "fl_span (fe_loggers st ! l) = 0 \<longleftrightarrow> l = 0"
  using tree_frame(2,3) [OF assms(1)] tree_frame(6) [OF assms] by (cases "l = 0"; auto)+

lemma tree_dep:
  assumes t: "tree st" and s: "s < length (fe_spans st)" and d: "(k, d) \<in> set (sn_activeDependents (fe_spans st ! s))"
  shows "d < length (fe_loggers st)" "d \<noteq> 0" "s < fl_span (fe_loggers st ! d)"
    "\<not> sn_detached (fe_spans st ! fl_span (fe_loggers st ! d))"
proof -
  have "dep_in (shape st) s (k, d)" using t s d unfolding tree_def span_tree_def by blast
  then have dep: "d < length (fe_loggers st)" "d \<noteq> 0" "fl_span (fe_loggers st ! fl_parent (fe_loggers st ! d)) = s"
    "\<not> map sn_detached (fe_spans st) ! fl_span (fe_loggers st ! d)" by (auto simp: dep_in_def shape_def)
  then show "d < length (fe_loggers st)" "d \<noteq> 0" by simp_all
  from dep tree_frame(4,6) [OF t, of d] show "s < fl_span (fe_loggers st ! d)"
    "\<not> sn_detached (fe_spans st ! fl_span (fe_loggers st ! d))" by auto
qed

lemma keys_bound:
  assumes "distinct (map fst m)" "fst ` set m \<subseteq> set ns"
  shows "length m \<le> length ns"
  using assms by (metis card_length card_mono distinct_card finite_set le_trans length_map set_map)

lemma tree_deps_length:
  assumes t: "tree st" and s: "s < length (fe_spans st)"
  shows "length (sn_activeDependents (fe_spans st ! s)) \<le> length (fe_spans st)"
proof -
  have d: "distinct (map fst (sn_activeDependents (fe_spans st ! s)))"
    "\<forall>p \<in> set (sn_activeDependents (fe_spans st ! s)). dep_in (shape st) s p"
    using t s unfolding tree_def span_tree_def by blast+
  have "fst ` set (sn_activeDependents (fe_spans st ! s)) \<subseteq> set (map sn_logNumber (fe_spans st))"
    using d(2) tree_frame(4) [OF t] by (auto simp: dep_in_def shape_def intro!: nth_mem split: prod.splits)
  from keys_bound [OF d(1) this] show ?thesis by simp
qed

lemma tree_detached:
  assumes t: "tree st"
  shows "(k, d) \<in> set (fe_ActiveDetached st) \<Longrightarrow> d < length (fe_loggers st)"
    "length (fe_ActiveDetached st) \<le> length (fe_spans st)"
proof -
  have d: "distinct (map fst (fe_ActiveDetached st))" "\<forall>p \<in> set (fe_ActiveDetached st). det_in (shape st) p"
    using t unfolding tree_def by blast+
  show "(k, d) \<in> set (fe_ActiveDetached st) \<Longrightarrow> d < length (fe_loggers st)"
    using d(2) by (auto simp: det_in_def shape_def)
  have "fst ` set (fe_ActiveDetached st) \<subseteq> set (map sn_logNumber (fe_spans st))"
    using d(2) tree_frame(4) [OF t] by (auto simp: det_in_def shape_def intro!: nth_mem split: prod.splits)
  from keys_bound [OF d(1) this] show "length (fe_ActiveDetached st) \<le> length (fe_spans st)" by simp
qed

subsection \<open>Steps\<close>

text \<open>Changes of a state besides its spans, lines and detached loggers.\<close>

lemma steady_other:
  assumes "tree st" "fe_loggers st' = fe_loggers st" "fe_spans st' = fe_spans st" "fe_lines st' = fe_lines st"
    "fe_ActiveDetached st' = fe_ActiveDetached st"
  shows "steady A st st'"
proof -
  have "shape st' = shape st" by (simp add: shape_def assms)
  with assms(1) show ?thesis by (simp add: steady_def tree_def active_def assms(2-5))
qed

lemma map_list_update_same: "i < length xs \<Longrightarrow> f y = f (xs ! i) \<Longrightarrow> map f (xs[i := y]) = map f xs"
  by (metis list_update_id map_update nth_map)

text \<open>A change of the span of a logger.\<close>

lemma shape_upd_fspan:
  assumes "fl_span (fe_loggers st ! l) < length (fe_spans st)"
    "\<And>y. sn_detached (f y) = sn_detached y" "\<And>y. sn_logNumber (f y) = sn_logNumber y"
  shows "shape (upd_fspan l f st) = shape st"
  using assms by (simp add: shape_def map_list_update_same)

lemma steady_upd_fspan:
  fixes f :: "('h, 'c, 'm) fspan \<Rightarrow> ('h, 'c, 'm) fspan"
  defines "s st l \<equiv> fl_span (fe_loggers st ! l)"
  assumes t: "tree st" and l: "l < length (fe_loggers st)"
    and f: "\<And>y. sn_detached (f y) = sn_detached y" "\<And>y. sn_logNumber (f y) = sn_logNumber y"
    and y: "span_tree (shape st) (fe_lines st) (s st l) (f (fe_spans st ! s st l))"
    and A: "s st l \<in> A \<longrightarrow> sn_knownActive (fe_spans st ! s st l) \<longrightarrow> sn_knownActive (f (fe_spans st ! s st l))"
  shows "steady A st (upd_fspan l f st)"
proof -
  have sl: "s st l < length (fe_spans st)" using tree_frame(4) [OF t l] by (simp add: s_def)
  have sh: "shape (upd_fspan l f st) = shape st" by (rule shape_upd_fspan) (use sl f in \<open>simp_all add: s_def\<close>)
  have "span_tree (shape st) (fe_lines st) i (fe_spans (upd_fspan l f st) ! i)" if "i < length (fe_spans st)" for i
    using that t y by (cases "i = fl_span (fe_loggers st ! l)") (auto simp: tree_def s_def)
  then have "tree (upd_fspan l f st)" using t unfolding tree_def sh by (simp del: upd_fspan_simps(12))
  moreover have "\<forall>i \<in> A. active i st \<longrightarrow> active i (upd_fspan l f st)"
    using A sl by (auto simp: active_def s_def nth_list_update)
  ultimately show ?thesis using sh by (simp add: steady_def)
qed

text \<open>A change of fields that the tree does not look at, and that keeps or clears activity.\<close>

lemma steady_upd_field:
  assumes "tree st" "l < length (fe_loggers st)"
    and "\<And>y. sn_detached (f y) = sn_detached y" "\<And>y. sn_logNumber (f y) = sn_logNumber y"
    and "\<And>y. sn_activeDependents (f y) = sn_activeDependents y" "\<And>y. sn_linePool (f y) = sn_linePool y"
    and "fl_span (fe_loggers st ! l) \<in> A \<Longrightarrow> \<forall>y. sn_knownActive y \<longrightarrow> sn_knownActive (f y)"
  shows "steady A st (upd_fspan l f st)"
  using assms tree_frame(4) [OF assms(1,2)]
  by (intro steady_upd_fspan) (auto simp: tree_def span_tree_def)

lemma out_base_call: "tree st \<Longrightarrow> outcome {Panicked} (steady A st) (base_call rt a hs st)"
  by (rule outcome_base_call) (auto intro: steady_other)

lemma out_base_create: "tree st \<Longrightarrow> outcome {Panicked} (\<lambda>(ks, st'). steady A st st' \<and> fe_lines st' = fe_lines st) (base_create rt x hs st)"
  by (rule outcome_base_create) (auto intro: steady_other)

lemma distinct_put: "distinct (map fst m) \<Longrightarrow> distinct (map fst (aput k v m))"
  by simp

lemma steady_addMyself:
  assumes t: "tree st" and l: "l < length (fe_loggers st)"
  shows "steady UNIV st (snd (addMyselfAsDependent l st))"
proof (cases "l = 0")
  case True
  with t show ?thesis by (simp add: addMyselfAsDependent_def steady_refl)
next
  case False
  let ?p = "fl_parent (fe_loggers st ! l)" and ?k = "sn_logNumber (span_of l st)"
  note fr = tree_frame(4,5) [OF t l] tree_frame(4) [OF t tree_frame(5) [OF t l]]
  show ?thesis
  proof (cases "sn_detached (span_of l st)")
    case True
    have "det_in (shape st) (?k, l)" using True l fr(1) by (simp add: det_in_def shape_def span_of_def)
    then have "tree (st\<lparr>fe_ActiveDetached := aput ?k l (fe_ActiveDetached st)\<rparr>)"
      using t aput_subset [of ?k l "fe_ActiveDetached st"] unfolding tree_def by (auto simp: shape_def)
    with True False show ?thesis by (simp add: addMyselfAsDependent_def Let_def steady_def shape_def active_def)
  next
    case det: False
    let ?f = "\<lambda>y. y\<lparr>sn_activeDependents := aput ?k l (sn_activeDependents (span_of ?p st))\<rparr>"
    have "dep_in (shape st) (fl_span (fe_loggers st ! ?p)) (?k, l)"
      using det False l fr(1) by (simp add: dep_in_def shape_def span_of_def)
    then have "span_tree (shape st) (fe_lines st) (fl_span (fe_loggers st ! ?p)) (?f (fe_spans st ! fl_span (fe_loggers st ! ?p)))"
      using t fr(3) aput_subset [of ?k l "sn_activeDependents (span_of ?p st)"]
      unfolding tree_def span_tree_def by (auto simp: span_of_def)
    then have "steady UNIV st (upd_fspan ?p ?f st)"
      by (intro steady_upd_fspan [OF t fr(2)]) simp_all
    with det False show ?thesis by (simp add: addMyselfAsDependent_def Let_def)
  qed
qed

lemma steady_del_detached: "tree st \<Longrightarrow> steady UNIV st (st\<lparr>fe_ActiveDetached := adel k (fe_ActiveDetached st)\<rparr>)"
  using adel_subset [of k "fe_ActiveDetached st"]
  unfolding steady_def tree_def by (auto simp: shape_def active_def)

lemma steady_done_dependent:
  assumes t: "tree st" and l: "l < length (fe_loggers st)"
  shows "steady UNIV st (done_dependent l st)"
  unfolding done_dependent_def
proof (rule steady_upd_fspan [OF t tree_frame(5) [OF t l]])
  let ?s = "fl_span (fe_loggers st ! fl_parent (fe_loggers st ! l))" and ?k = "sn_logNumber (span_of l st)"
  have "span_tree (shape st) (fe_lines st) ?s (fe_spans st ! ?s)"
    using t tree_frame(4) [OF t tree_frame(5) [OF t l]] by (simp add: tree_def)
  then show "span_tree (shape st) (fe_lines st) ?s
      ((fe_spans st ! ?s)\<lparr>sn_activeDependents := adel ?k (sn_activeDependents (fe_spans st ! ?s))\<rparr>)"
    using adel_subset [of ?k "sn_activeDependents (fe_spans st ! ?s)"] unfolding span_tree_def by auto
qed simp_all

text \<open>Lines: new ones, and changes that keep the logger of a line.\<close>

lemma line_in_mono:
  "line_in x lines s i \<Longrightarrow> length lines \<le> length lines' \<Longrightarrow> (\<And>j. j < length lines \<Longrightarrow> fi_logger (lines' ! j) = fi_logger (lines ! j)) \<Longrightarrow>
   line_in x lines' s i"
  by (auto simp: line_in_def)

lemma steady_lines:
  assumes t: "tree st" and n: "length (fe_lines st) \<le> length lines"
    and k: "\<And>j. j < length (fe_lines st) \<Longrightarrow> fi_logger (lines ! j) = fi_logger (fe_lines st ! j)"
    and l: "\<And>j. j < length lines \<Longrightarrow> fi_logger (lines ! j) < length (fe_loggers st)"
  shows "steady UNIV st (st\<lparr>fe_lines := lines\<rparr>)"
proof -
  have "span_tree (shape st) lines s y" if "span_tree (shape st) (fe_lines st) s y" for s y
    using that line_in_mono [OF _ n k] unfolding span_tree_def by blast
  then show ?thesis using t l unfolding steady_def tree_def by (auto simp: shape_def active_def in_set_conv_nth)
qed

lemma line_logger:
  assumes "tree st" "i < length (fe_lines st)"
  shows "fi_logger (fe_lines st ! i) < length (fe_loggers st)"
  using assms unfolding tree_def by simp

lemma pool_line:
  assumes "tree st" "l < length (fe_loggers st)" "i \<in> set (sn_linePool (span_of l st))"
  shows "i < length (fe_lines st)" "fl_span (fe_loggers st ! fi_logger (fe_lines st ! i)) = fl_span (fe_loggers st ! l)"
proof -
  have "line_in (shape st) (fe_lines st) (fl_span (fe_loggers st ! l)) i"
    using assms tree_frame(4) [OF assms(1,2)] unfolding tree_def span_tree_def span_of_def by blast
  then show "i < length (fe_lines st)" "fl_span (fe_loggers st ! fi_logger (fe_lines st ! i)) = fl_span (fe_loggers st ! l)"
    by (auto simp: line_in_def shape_def)
qed

lemma steady_take_line:
  assumes t: "tree st" and l: "l < length (fe_loggers st)" and e: "take_line rt l st = (i, st1)"
  shows "steady UNIV st st1 \<and> i < length (fe_lines st1) \<and>
    fl_span (fe_loggers st ! fi_logger (fe_lines st1 ! i)) = fl_span (fe_loggers st ! l)"
proof -
  consider (old) "i \<in> set (sn_linePool (span_of l st))"
      "st1 = upd_fspan l (\<lambda>x. x\<lparr>sn_linePool := remove1 i (sn_linePool (span_of l st))\<rparr>) st"
    | (new) "i = length (fe_lines st)"
      "st1 = st\<lparr>fe_lines := fe_lines st @ [\<lparr>fi_logger = l, fi_line = None, fi_pc = None, fi_skip = False\<rparr>]\<rparr>"
    using e by (auto simp: take_line_def Let_def split: option.splits if_splits)
  then show ?thesis
  proof cases
    case old
    have "span_tree (shape st) (fe_lines st) (fl_span (fe_loggers st ! l)) (fe_spans st ! fl_span (fe_loggers st ! l))"
      using t tree_frame(4) [OF t l] by (simp add: tree_def)
    then have "steady UNIV st st1" unfolding old(2)
      by (intro steady_upd_fspan [OF t l])
        (auto simp: span_tree_def span_of_def dest: set_remove1_subset [THEN subsetD])
    with old pool_line [OF t l old(1)] show ?thesis by simp
  next
    case new
    have "steady UNIV st st1" unfolding new(2)
      using line_logger [OF t] l by (intro steady_lines [OF t]) (auto simp: nth_append)
    with new show ?thesis by simp
  qed
qed

lemma steady_set_line:
  assumes t: "tree st" and f: "\<And>y. fi_logger (f y) = fi_logger y"
  shows "steady UNIV st (st\<lparr>fe_lines := (fe_lines st)[i := f (fe_lines st ! i)]\<rparr>)"
proof -
  have "fi_logger ((fe_lines st)[i := f (fe_lines st ! i)] ! j) = fi_logger (fe_lines st ! j)" if "j < length (fe_lines st)" for j
    using that by (cases "i = j") (simp_all add: f)
  then show ?thesis using line_logger [OF t] by (intro steady_lines [OF t]) auto
qed

lemma out_logLine:
  assumes t: "tree st" and l: "l < length (fe_loggers st)"
  shows "outcome {Panicked} (\<lambda>(i, st'). steady UNIV st st' \<and> i < length (fe_lines st') \<and>
    fl_span (fe_loggers st ! fi_logger (fe_lines st' ! i)) = fl_span (fe_loggers st ! l)) (logLine rt l level st)"
    (is "outcome _ ?Q _")
proof -
  obtain i st1 where e: "take_line rt l st = (i, st1)" by (cases "take_line rt l st")
  note st1 = steady_take_line [OF t l e]
  have put: "?Q (i, st'\<lparr>fe_lines := (fe_lines st')[i := f (fe_lines st1 ! i)]\<rparr>)"
    if "steady UNIV st1 st'" "fe_lines st' = fe_lines st1" "\<And>y. fi_logger (f y) = fi_logger y" for f st'
    using steady_trans [OF conjunct1 [OF st1] steady_trans [OF that(1) steady_set_line [OF steady_tree(1) [OF that(1)] that(3)]]] st1 that
    by simp
  have skip: "?Q (i, st1\<lparr>fe_lines := (fe_lines st1)[i := (fe_lines st1 ! i)\<lparr>fi_line := None, fi_skip := True\<rparr>]\<rparr>)"
    using put [of st1 "\<lambda>y. y\<lparr>fi_line := None, fi_skip := True\<rparr>"] st1 steady_tree(1) by (auto intro: steady_refl)
  have line: "outcome {Panicked} ?Q (andThen (base_create rt x hs (st1\<lparr>fe_tick := n\<rparr>))
     (\<lambda>(hs, st). Inr (i, st\<lparr>fe_lines := (fe_lines st)[i := (fe_lines st1 ! i)\<lparr>fi_line := Some hs, fi_pc := pc, fi_skip := False\<rparr>]\<rparr>)))"
    for x hs n pc
  proof (rule outcome_andThen [OF out_base_create [where A = UNIV]], goal_cases)
    case 1
    have "steady UNIV st1 (st1\<lparr>fe_tick := n\<rparr>)" by (rule steady_other) (use st1 in \<open>auto simp: steady_tree(1)\<close>)
    then show ?case by (rule steady_tree(1))
  next
    case (2 p)
    then obtain ks y where p: "p = (ks, y)" and y: "steady UNIV (st1\<lparr>fe_tick := n\<rparr>) y" "fe_lines y = fe_lines st1" by (cases p) auto
    have "steady UNIV st1 (st1\<lparr>fe_tick := n\<rparr>)" by (rule steady_other) (use st1 in \<open>auto simp: steady_tree(1)\<close>)
    from steady_trans [OF this y(1)]
    show ?case using put [of y "\<lambda>x. x\<lparr>fi_line := Some ks, fi_pc := pc, fi_skip := False\<rparr>"] y(2) st1 by (simp add: p)
  qed
  show ?thesis
  proof (cases "level < ls_minimumLogLevel (fl_settings (fe_loggers st ! l))")
    case True
    then show ?thesis using skip st1 by (simp add: logLine_def Let_def e)
  next
    case False
    then show ?thesis
      by (auto simp: logLine_def Let_def e clock_now_eq intro!: outcome_andThen [where P = "\<lambda>_. True"] outcome_orPanic line)
  qed
qed

lemma out_line_send:
  assumes t: "tree st" and i: "i < length (fe_lines st)"
  shows "outcome {Panicked} (\<lambda>st'. steady UNIV st st' \<and> fe_lines st' = fe_lines st) (line_send rt i e st)"
proof -
  let ?l = "fi_logger (fe_lines st ! i)"
  have send: "outcome {Panicked} (\<lambda>st'. steady UNIV st st' \<and> fe_lines st' = fe_lines st)
      (case fi_line (fe_lines st ! i) of None \<Rightarrow> Inr st | Some hs \<Rightarrow> base_call rt (AEnd e) hs st)"
    using t by (auto simp: steady_refl split: option.splits intro!: outcome_base_call steady_other)
  show ?thesis unfolding line_send_def Let_def
  proof (rule outcome_andThen [OF send], elim conjE)
    fix x assume x: "steady UNIV st x" "fe_lines x = fe_lines st"
    let ?x = "upd_fspan ?l (\<lambda>y. y\<lparr>sn_linePool := sn_linePool y @ [i]\<rparr>) x"
    have l: "?l < length (fe_loggers x)" using line_logger [OF t i] steady_tree(2) [OF x(1)] by simp
    have tx: "tree x" by (rule steady_tree(1) [OF x(1)])
    have "span_tree (shape x) (fe_lines x) (fl_span (fe_loggers x ! ?l)) (fe_spans x ! fl_span (fe_loggers x ! ?l))"
      using tx tree_frame(4) [OF tx l] by (simp add: tree_def)
    moreover have "line_in (shape x) (fe_lines x) (fl_span (fe_loggers x ! ?l)) i"
      using i x(2) by (simp add: line_in_def shape_def)
    ultimately have "steady UNIV x ?x"
      by (intro steady_upd_fspan [OF tx l]) (auto simp: span_tree_def)
    with x show "outcome {Panicked} (\<lambda>st'. steady UNIV st st' \<and> fe_lines st' = fe_lines st) (Inr ?x)"
      by (simp del: upd_fspan_simps(12)) (blast intro: steady_trans)
  qed
qed

lemma out_mark_done:
  assumes t: "tree st" and l: "l < length (fe_loggers st)"
  shows "outcome {Panicked} (\<lambda>(k, st'). steady {} st st') (mark_done rt l final now st)"
proof -
  have call: "outcome {Panicked} (\<lambda>(k, st'). steady {} st st') (andThen (base_call rt a hs s) (\<lambda>st. Inr (k, st)))"
    if "steady {} st s" for a hs s and k :: i32
    by (rule outcome_andThen [OF out_base_call [where A = "{}", OF steady_tree(1) [OF that]]]) (simp add: steady_trans [OF that])
  have f: "steady {} st (upd_fspan l (\<lambda>x. x\<lparr>sn_knownActive := False, sn_doneCount := sn_doneCount x + 1\<rparr>) st)"
    and g: "steady {} st (upd_fspan l (\<lambda>x. x\<lparr>sn_knownActive := False\<rparr>) st)"
    by (rule steady_upd_field [OF t l]; simp)+
  have f': "steady {} st (upd_fspan l (\<lambda>x. x\<lparr>sn_knownActive := False, sn_doneCount := sn_doneCount x + 1\<rparr>) st\<lparr>fe_tick := n\<rparr>)" for n
    by (rule steady_trans [OF f steady_other [OF steady_tree(1) [OF f]]]) simp_all
  show ?thesis
    by (cases final) (auto simp: mark_done_def Let_def clock_now_eq steady_refl [OF t] intro!: call f' g)
qed

lemma out_mark_notBoring:
  assumes t: "tree st" and l: "l < length (fe_loggers st)"
  shows "outcome {Panicked} (\<lambda>(b, st'). steady UNIV st st') (mark_notBoring rt l st)"
proof -
  let ?up = "\<lambda>j. upd_fspan j (\<lambda>x. x\<lparr>sn_boring := sn_boring x + 1\<rparr>)"
  have up: "steady UNIV s (?up j s)" if "tree s" "j < length (fe_loggers s)" for j s
    using that by (intro steady_upd_field) simp_all
  note b = up [OF t l]
  have next_step: "outcome {Panicked} (\<lambda>(b, st'). steady UNIV st st') (andThen
      (if sn_boring (span_of 0 (?up 0 x)) = 1 then base_call rt (ABoring False) (sn_base (span_of 0 (?up 0 x))) (?up 0 x) else Inr (?up 0 x))
      (\<lambda>st. Inr (True, st)))" if "steady UNIV st x" for x
  proof -
    have z: "0 < length (fe_loggers x)" using tree_frame(1) [OF steady_tree(1) [OF that]] by simp
    have x: "steady UNIV st (?up 0 x)" by (rule steady_trans [OF that up [OF steady_tree(1) [OF that] z]])
    have "outcome {Panicked} (steady UNIV (?up 0 x))
        (if sn_boring (span_of 0 (?up 0 x)) = 1 then base_call rt (ABoring False) (sn_base (span_of 0 (?up 0 x))) (?up 0 x) else Inr (?up 0 x))"
      using out_base_call [OF steady_tree(1) [OF x]] steady_refl [OF steady_tree(1) [OF x]] by (auto simp del: upd_fspan_simps(12))
    then show ?thesis by (rule outcome_andThen) (simp add: steady_trans [OF x])
  qed
  show ?thesis unfolding mark_notBoring_def Let_def
    by (auto simp: b simp del: upd_fspan_simps(12)
        intro!: outcome_andThen [OF out_base_call [where A = UNIV, OF steady_tree(1) [OF b]]] next_step steady_trans [OF b])
qed

lemma out_flush_bases: "tree st \<Longrightarrow> outcome {Panicked} (steady UNIV st) (flush_bases rt st)"
  unfolding flush_bases_def
  by (rule outcome_base_call) (auto intro: steady_other)

subsection \<open>Fuel\<close>

text \<open>
  What a call needs: \<open>unit_fuel\<close> for each span below, twice as many spans again for the loggers
  whose end flushes the request.
\<close>

definition unit_fuel :: "('h, 'w, 'c, 'm) front \<Rightarrow> nat" where
  "unit_fuel st = 2 * length (fe_spans st) + 20"

definition height :: "('h, 'w, 'c, 'm) front \<Rightarrow> nat \<Rightarrow> nat" where
  "height st l = length (fe_spans st) - fl_span (fe_loggers st ! l)"

definition top :: "('h, 'w, 'c, 'm) front \<Rightarrow> nat \<Rightarrow> bool" where
  "top st l \<longleftrightarrow> l = 0 \<or> sn_detached (span_of l st)"

definition rec_fuel :: "('h, 'w, 'c, 'm) front \<Rightarrow> nat \<Rightarrow> nat" where
  "rec_fuel st l = height st l * unit_fuel st + length (fe_spans st)"

definition flush_fuel :: "('h, 'w, 'c, 'm) front \<Rightarrow> nat" where
  "flush_fuel st = length (fe_spans st) * unit_fuel st + 2 * length (fe_spans st) + 3"

definition done_fuel :: "('h, 'w, 'c, 'm) front \<Rightarrow> nat \<Rightarrow> nat" where
  "done_fuel st l = (if top st l then flush_fuel st else 0) + rec_fuel st l + 5"

fun fits :: "nat \<Rightarrow> callee \<Rightarrow> ('h, 'w, 'c, 'm) front \<Rightarrow> bool" where
  "fits n (CHasActivity l b) st = (l < length (fe_loggers st) \<and>
     (if sn_knownActive (span_of l st) then 1 else if b then done_fuel st l + 4 else fl_span (fe_loggers st ! l) + 1) \<le> n)"
| "fits n (CNotBoring l) st = (l < length (fe_loggers st) \<and> (if sn_knownActive (span_of l st) then 2 else done_fuel st l + 5) \<le> n)"
| "fits n (CLogError l m) st = (l < length (fe_loggers st) \<and> (if sn_knownActive (span_of l st) then 3 else done_fuel st l + 7) \<le> n)"
| "fits n (CDone l explicit t) st = (l < length (fe_loggers st) \<and> done_fuel st l + (if explicit then 8 else 0) \<le> n)"
| "fits n (CRecursiveDone l b t) st = (l < length (fe_loggers st) \<and> rec_fuel st l \<le> n)"
| "fits n (CDoneAll ds b t) st = (length ds < n \<and>
     (\<forall>d \<in> set ds. d < length (fe_loggers st) \<and> length ds + done_fuel st d + 8 \<le> n))"
| "fits n (CDetachedDone ds t) st = (length ds < n \<and> (\<forall>d \<in> set ds. d < length (fe_loggers st) \<and> length ds + rec_fuel st d \<le> n))"
| "fits n CRequestFlush st = (flush_fuel st + 1 \<le> n)"
| "fits n CFlush st = (flush_fuel st \<le> n)"

text \<open>The spans that stay active during a call.\<close>

fun kept :: "callee \<Rightarrow> ('h, 'w, 'c, 'm) front \<Rightarrow> nat set" where
  "kept (CHasActivity l b) st = (if sn_knownActive (span_of l st) \<or> \<not> b then UNIV else {})"
| "kept (CNotBoring l) st = (if sn_knownActive (span_of l st) then UNIV else {})"
| "kept c st = {}"

lemma steady_fuel:
  assumes "steady A st st'"
  shows "unit_fuel st' = unit_fuel st" "rec_fuel st' l = rec_fuel st l" "flush_fuel st' = flush_fuel st"
    "l < length (fe_loggers st) \<Longrightarrow> tree st \<Longrightarrow> top st' l = top st l"
    "l < length (fe_loggers st) \<Longrightarrow> tree st \<Longrightarrow> done_fuel st' l = done_fuel st l"
proof -
  have s: "shape st' = shape st" "fe_loggers st' = fe_loggers st" "length (fe_spans st') = length (fe_spans st)"
    using assms by (auto simp: steady_def dest: shape_eqs)
  show u: "unit_fuel st' = unit_fuel st" and r: "rec_fuel st' l = rec_fuel st l" and f: "flush_fuel st' = flush_fuel st"
    by (simp_all add: unit_fuel_def rec_fuel_def height_def flush_fuel_def s(2,3))
  show t: "top st' l = top st l" if "l < length (fe_loggers st)" "tree st"
  proof -
    have "map sn_detached (fe_spans st') ! fl_span (fe_loggers st ! l) = map sn_detached (fe_spans st) ! fl_span (fe_loggers st ! l)"
      using s(1) by (simp add: shape_def)
    with tree_frame(4) [OF that(2,1)] show ?thesis by (simp add: top_def span_of_def s(2,3))
  qed
  show "done_fuel st' l = done_fuel st l" if "l < length (fe_loggers st)" "tree st"
    using t [OF that] r f by (simp add: done_fuel_def)
qed

subsection \<open>The calls return\<close>

definition returns :: "nat \<Rightarrow> ('h, 'w, 'c, 'm) runner \<Rightarrow> bool" where
  "returns n run \<longleftrightarrow> (\<forall>c st. tree st \<longrightarrow> fits n c st \<longrightarrow> outcome {Panicked} (\<lambda>(k, st'). steady (kept c st) st st') (run c st))"

lemma returnsD: "returns n run \<Longrightarrow> tree st \<Longrightarrow> fits n c st \<Longrightarrow> outcome {Panicked} (\<lambda>(k, st'). steady (kept c st) st st') (run c st)"
  by (simp add: returns_def)

lemma steady_less: "steady A st st' \<Longrightarrow> l < length (fe_loggers st') \<longleftrightarrow> l < length (fe_loggers st)"
  by (simp add: steady_tree(2))

text \<open>A call, as a step that forgets activity.\<close>

lemma out_call: "returns n run \<Longrightarrow> tree st \<Longrightarrow> fits n c st \<Longrightarrow> outcome {Panicked} (\<lambda>(k, st'). steady {} st st') (run c st)"
  by (rule outcome_mono, erule (2) returnsD) (auto intro: steady_mono)

lemma out_then:
  assumes "outcome {Panicked} (\<lambda>(k, st'). steady A st st') r"
    "\<And>k x. steady A st x \<Longrightarrow> outcome {Panicked} (\<lambda>(k, st'). steady A x st') (f (k, x))"
  shows "outcome {Panicked} (\<lambda>(k, st'). steady A st st') (andThen r f)"
proof (rule outcome_andThen [OF assms(1)], clarify)
  fix k x assume x: "steady A st x"
  show "outcome {Panicked} (\<lambda>(k, st'). steady A st st') (f (k, x))"
    by (rule outcome_mono [OF assms(2) [OF x]]) (auto intro: steady_trans [OF x])
qed

lemma out_from:
  assumes "steady A st x" "outcome {Panicked} (\<lambda>(k, st'). steady A x st') r"
  shows "outcome {Panicked} (\<lambda>(k, st'). steady A st st') r"
  by (rule outcome_mono [OF assms(2)]) (auto intro: steady_trans [OF assms(1)])

lemma returns_doneAll:
  assumes run: "returns n run" and t: "tree st" and f: "fits (Suc n) (CDoneAll ds explicit now) st"
  shows "outcome {Panicked} (\<lambda>(k, st'). steady {} st st') (doneAll run ds explicit now st)"
proof (cases ds)
  case Nil
  with t show ?thesis by (simp add: doneAll_def steady_refl)
next
  case (Cons d es)
  have "fits n (CDone d explicit now) st" using f by (simp add: Cons)
  from out_call [OF run t this] show ?thesis unfolding doneAll_def Cons list.case
  proof (rule out_then)
    fix k x assume x: "steady {} st x"
    have "fits n (CDoneAll es explicit now) x"
      using f t by (auto simp: Cons steady_less [OF x] steady_fuel(5) [OF x])
    from out_call [OF run steady_tree(1) [OF x] this]
    show "outcome {Panicked} (\<lambda>(k, st'). steady {} x st') (case (k, x) of (_, st) \<Rightarrow> run (CDoneAll es explicit now) st)" by simp
  qed
qed

lemma returns_detachedDone:
  assumes run: "returns n run" and t: "tree st" and f: "fits (Suc n) (CDetachedDone ds now) st"
  shows "outcome {Panicked} (\<lambda>(k, st'). steady {} st st') (detachedDone run ds now st)"
proof (cases ds)
  case Nil
  with t show ?thesis by (simp add: detachedDone_def steady_refl)
next
  case (Cons d es)
  have "fits n (CRecursiveDone d False now) st" using f by (simp add: Cons)
  from out_call [OF run t this] show ?thesis unfolding detachedDone_def Cons list.case
  proof (rule out_then)
    fix k x assume x: "steady {} st x"
    have "fits n (CDetachedDone es now) x"
      using f t by (auto simp: Cons steady_less [OF x] steady_fuel(2) [OF x])
    from out_call [OF run steady_tree(1) [OF x] this]
    show "outcome {Panicked} (\<lambda>(k, st'). steady {} x st') (case (k, x) of (_, st) \<Rightarrow> run (CDetachedDone es now) st)" by simp
  qed
qed

text \<open>The dependents of a span lie above it, and are no ends of a request.\<close>

lemma dep_fuel:
  assumes t: "tree st" and l: "l < length (fe_loggers st)" and d: "d \<in> snd ` set (sn_activeDependents (span_of l st))"
  shows "d < length (fe_loggers st)" "done_fuel st d + length (fe_spans st) + 9 \<le> rec_fuel st l"
proof -
  from d obtain k where k: "(k, d) \<in> set (sn_activeDependents (fe_spans st ! fl_span (fe_loggers st ! l)))"
    by (auto simp: span_of_def)
  note dep = tree_dep [OF t tree_frame(4) [OF t l] k]
  show "d < length (fe_loggers st)" by (rule dep(1))
  have "Suc (height st d) \<le> height st l"
    using dep(3) tree_frame(4) [OF t dep(1)] by (simp add: height_def)
  then have "Suc (height st d) * unit_fuel st \<le> height st l * unit_fuel st" by (rule mult_le_mono1)
  moreover have "\<not> top st d" using dep(2,4) by (simp add: top_def span_of_def)
  ultimately show "done_fuel st d + length (fe_spans st) + 9 \<le> rec_fuel st l"
    by (simp add: done_fuel_def rec_fuel_def unit_fuel_def)
qed

lemma rec_fuel_flush: "rec_fuel st l + length (fe_spans st) + 3 \<le> flush_fuel st"
  using mult_le_mono1 [of "height st l" "length (fe_spans st)" "unit_fuel st"]
  by (simp add: rec_fuel_def flush_fuel_def height_def)

lemma rec_fuel_spans:
  assumes "tree st" "l < length (fe_loggers st)"
  shows "length (fe_spans st) + 20 \<le> rec_fuel st l"
proof -
  have "1 \<le> height st l" using tree_frame(4) [OF assms] by (simp add: height_def)
  then have "1 * 20 \<le> height st l * unit_fuel st" by (rule mult_le_mono) (simp add: unit_fuel_def)
  then show ?thesis by (simp add: rec_fuel_def)
qed

lemma returns_recursiveDone:
  assumes rt: "rt_ok rt" and run: "returns n run" and t: "tree st" and f: "fits (Suc n) (CRecursiveDone l final now) st"
  shows "outcome {Panicked} (\<lambda>(k, st'). steady {} st st') (recursiveDone rt run l final now st)"
proof -
  have l: "l < length (fe_loggers st)" and n: "rec_fuel st l \<le> Suc n" using f by simp_all
  show ?thesis unfolding recursiveDone_def
  proof (rule out_then [OF out_mark_done [OF t l]])
    fix k x assume x: "steady {} st x"
    note tx = steady_tree(1) [OF x]
    have lx: "l < length (fe_loggers x)" using l by (simp add: steady_less [OF x])
    let ?ds = "rt_deps rt (map snd (sn_activeDependents (span_of l x)))"
    have len: "length ?ds \<le> length (fe_spans x)"
    proof -
      have "length ?ds = length (map snd (sn_activeDependents (span_of l x)))"
        using rt unfolding rt_ok_def by (metis size_mset)
      with tree_deps_length [OF tx tree_frame(4) [OF tx lx]] show ?thesis by (simp add: span_of_def)
    qed
    have dep: "d < length (fe_loggers x)" "done_fuel x d + length (fe_spans x) + 9 \<le> rec_fuel x l" if "d \<in> set ?ds" for d
      using dep_fuel [OF tx lx, of d] that by (simp_all add: rt_ok_set [OF rt])
    have "fits n (CDoneAll ?ds final now) x"
      using len dep n rec_fuel_spans [OF tx lx] steady_fuel(2) [OF x, of l] by fastforce
    from out_call [OF run tx this] show "outcome {Panicked} (\<lambda>(k, st'). steady {} x st')
        (case (k, x) of (m, st) \<Rightarrow> andThen (run (CDoneAll (rt_deps rt (map snd (sn_activeDependents (span_of l st)))) final now) st)
          (\<lambda>(_, st). Inr (m, st)))"
      by (auto intro!: outcome_andThen [where P = "\<lambda>(k, st'). steady {} x st'"])
  qed
qed

lemma returns_Flush:
  assumes rt: "rt_ok rt" and run: "returns n run" and t: "tree st" and f: "fits (Suc n) CFlush st"
  shows "outcome {Panicked} (\<lambda>(k, st'). steady {} st st') (Flush rt run st)"
proof -
  let ?st = "st\<lparr>fe_tick := Suc (fe_tick st)\<rparr>" and ?now = "rt_clock rt (fe_tick st)"
  have st: "steady {} st ?st" by (rule steady_other [OF t]) simp_all
  note tst = steady_tree(1) [OF st]
  let ?ds = "rt_deps rt (map snd (fe_ActiveDetached ?st))"
  have "length ?ds = length (map snd (fe_ActiveDetached ?st))" using rt unfolding rt_ok_def by (metis size_mset)
  then have len: "length ?ds \<le> length (fe_spans ?st)" using tree_detached(2) [OF tst] by simp
  have n: "flush_fuel ?st \<le> Suc n" using f steady_fuel(3) [OF st] by simp
  have "d < length (fe_loggers ?st) \<and> length ?ds + rec_fuel ?st d \<le> n" if "d \<in> set ?ds" for d
    using tree_detached(1) [OF tst, of _ d] that rec_fuel_flush [of ?st d] len n by (fastforce simp: rt_ok_set [OF rt])
  moreover have "length ?ds < n" using len n tree_frame(7) [OF t] by (simp add: flush_fuel_def)
  ultimately have d: "fits n (CDetachedDone ?ds ?now) ?st" by simp
  have "outcome {Panicked} (\<lambda>(k, st'). steady {} ?st st') (andThen (run (CDetachedDone ?ds ?now) ?st)
      (\<lambda>(_, st). andThen (run (CRecursiveDone 0 False ?now) st) (\<lambda>(_, st). andThen (flush_bases rt st) ret)))"
  proof (rule out_then [OF out_call [OF run tst d]], unfold prod.case)
    fix x assume x: "steady {} ?st x"
    have "fits n (CRecursiveDone 0 False ?now) x"
      using tree_frame(1) [OF t] rec_fuel_flush [of ?st 0] n steady_fuel(2) [OF x, of 0] steady_less [OF x, of 0] by simp
    from out_call [OF run steady_tree(1) [OF x] this]
    show "outcome {Panicked} (\<lambda>(k, st'). steady {} x st')
       (andThen (run (CRecursiveDone 0 False ?now) x) (\<lambda>(_, st). andThen (flush_bases rt st) ret))"
    proof (rule out_then, unfold prod.case)
      fix y assume y: "steady {} x y"
      show "outcome {Panicked} (\<lambda>(k, st'). steady {} y st') (andThen (flush_bases rt y) ret)"
        by (rule outcome_andThen [OF out_flush_bases [OF steady_tree(1) [OF y]]]) (auto intro: steady_mono)
    qed
  qed
  from out_from [OF st this] show ?thesis by (simp add: Flush_def clock_now_eq)
qed

lemma returns_request_flush:
  assumes run: "returns n run" and t: "tree st" and f: "fits (Suc n) CRequestFlush st"
  shows "outcome {Panicked} (\<lambda>(k, st'). steady {} st st') (request_flush run st)"
  using out_call [OF run t, of CFlush] f by (auto simp: request_flush_def intro: steady_other [OF t])

lemma returns_logger_done:
  assumes run: "returns n run" and t: "tree st" and f: "fits (Suc n) (CDone l explicit now) st"
  shows "outcome {Panicked} (\<lambda>(k, st'). steady {} st st') (logger_done run l explicit now st)"
proof -
  have l: "l < length (fe_loggers st)" and n: "done_fuel st l + (if explicit then 8 else 0) \<le> Suc n" using f by simp_all
  have r: "fits n (CRecursiveDone l True now) st" using l n by (simp add: done_fuel_def)
  show ?thesis unfolding logger_done_def
  proof (rule out_then [OF out_call [OF run t r]], unfold prod.case, rule out_then, goal_cases)
    case (1 k x)
    note x = this
    have "fits n (CLogError l m) x" if explicit for m
      using that n l steady_less [OF x, of l] steady_fuel(5) [OF x l t] by simp
    then show ?case using out_call [OF run steady_tree(1) [OF x]] by (auto intro: steady_refl steady_tree(1) [OF x])
  next
    case (2 k x k' y)
    have y: "steady {} st y" by (rule steady_trans [OF 2])
    note ty = steady_tree(1) [OF y]
    have ly: "l < length (fe_loggers y)" using l by (simp add: steady_less [OF y])
    have flush: "outcome {Panicked} (\<lambda>(k, st'). steady {} y st') (case p of (flush, st) \<Rightarrow> if flush then run CRequestFlush st else ret st)"
      if p: "steady {} y (snd p)" and top: "top y l" for p
    proof -
      have "fits n CRequestFlush (snd p)"
        using n top steady_fuel(3) [OF p] steady_fuel(5) [OF y l t] by (simp add: done_fuel_def)
      from out_from [OF p out_call [OF run steady_tree(1) [OF p] this]] p show ?thesis by (cases p) auto
    qed
    have d: "steady {} y (snd (done_detached l y))"
    proof -
      let ?y = "y\<lparr>fe_ActiveDetached := adel (sn_logNumber (span_of l y)) (fe_ActiveDetached y)\<rparr>"
      have y1: "steady {} y ?y" by (rule steady_mono [OF steady_del_detached [OF ty]]) simp
      have "steady {} y (?y\<lparr>fe_WaitingForDetached := False\<rparr>)"
        by (rule steady_trans [OF y1 steady_other [OF steady_tree(1) [OF y1]]]) simp_all
      with y1 show ?thesis by (auto simp: done_detached_def Let_def)
    qed
    have r: "steady {} y (snd (done_request y))"
      using ty by (auto simp: done_request_def intro: steady_refl steady_other)
    show ?case
      using flush [OF d] flush [OF r] steady_done_dependent [OF ty ly] tree_parent(1) [OF ty ly]
      by (auto simp: Let_def top_def intro: steady_mono)
  qed
qed

lemma returns_hasActivity:
  assumes run: "returns n run" and t: "tree st" and f: "fits (Suc n) (CHasActivity l b) st"
  shows "outcome {Panicked} (\<lambda>(k, st'). steady (kept (CHasActivity l b) st) st st') (hasActivity rt run l b st)"
proof -
  have l: "l < length (fe_loggers st)" using f by simp
  let ?st = "upd_fspan l (\<lambda>x. x\<lparr>sn_knownActive := True\<rparr>) st" and ?s = "fl_span (fe_loggers st ! l)"
  have st: "steady UNIV st ?st" by (rule steady_upd_field [OF t l]) simp_all
  have on: "active ?s ?st" using tree_frame(4) [OF t l] by (simp add: active_def)
  show ?thesis
  proof (cases "sn_knownActive (span_of l st)")
    case True
    with st show ?thesis by (simp add: hasActivity_def del: upd_fspan_simps(12))
  next
    case False
    obtain first st1 where a: "addMyselfAsDependent l ?st = (first, st1)" by (cases "addMyselfAsDependent l ?st")
    have st1: "steady UNIV st st1" "steady UNIV ?st st1"
      using steady_addMyself [OF steady_tree(1) [OF st], of l] l a steady_trans [OF st] by simp_all
    note t1 = steady_tree(1) [OF st1(1)]
    have on1: "active ?s st1" by (rule steady_active [OF st1(2) UNIV_I on])
    have parent: "outcome {Panicked} (\<lambda>(k, st'). steady UNIV st1 st')
        (if first then run (CHasActivity (fl_parent (fe_loggers st1 ! l)) False) st1 else ret st1)"
    proof (cases first)
      case True
      with a have l0: "l \<noteq> 0" by (cases "l = 0") (simp_all add: addMyselfAsDependent_def Let_def)
      let ?p = "fl_parent (fe_loggers st1 ! l)"
      have "fits n (CHasActivity ?p False) st1"
        using tree_frame(4,5,6) [OF t l] rec_fuel_spans [OF t l] l0 f False steady_tree(2) [OF st1(1)]
        by (auto simp: done_fuel_def split: if_splits)
      from returnsD [OF run t1 this] True show ?thesis by simp
    qed (simp add: steady_refl [OF t1])
    have start: "outcome {Panicked} (\<lambda>(k, st'). steady {} x st')
        (andThen (if sn_doneCount (span_of l x) \<noteq> 0
                  then run (CLogError l ''XOP: logger was already done, but was used again'') (x\<lparr>fe_FlushActive := True\<rparr>)
                  else ret (x\<lparr>fe_FlushActive := True\<rparr>)) (\<lambda>(_, st). let (t, st) = clock_now rt st in run (CDone l False t) st))"
      if x: "steady UNIV st1 x" and b for x
    proof (rule out_then)
      let ?x = "x\<lparr>fe_FlushActive := True\<rparr>"
      have x': "steady {} x ?x" by (rule steady_other [OF steady_tree(1) [OF x]]) simp_all
      have sx: "steady UNIV st x" by (rule steady_trans [OF st1(1) x])
      have n: "done_fuel st l + 4 \<le> Suc n" using f False \<open>b\<close> by simp
      have "sn_knownActive (span_of l ?x)"
        using steady_active [OF x UNIV_I on1] steady_tree(2) [OF sx] by (simp add: active_def span_of_def)
      then have "fits n (CLogError l m) ?x" for m using n l steady_less [OF sx] by (simp add: done_fuel_def)
      from out_from [OF x' out_call [OF run steady_tree(1) [OF x'] this]] x'
      show "outcome {Panicked} (\<lambda>(k, st'). steady {} x st') (if sn_doneCount (span_of l x) \<noteq> 0
          then run (CLogError l ''XOP: logger was already done, but was used again'') ?x else ret ?x)" by simp
      fix k y assume y: "steady {} x y"
      let ?y = "y\<lparr>fe_tick := Suc (fe_tick y)\<rparr>"
      have y': "steady {} y ?y" by (rule steady_other [OF steady_tree(1) [OF y]]) simp_all
      have sy: "steady {} st ?y" by (rule steady_trans [OF steady_mono [OF sx] steady_trans [OF y y']]) simp
      have "fits n (CDone l False (rt_clock rt (fe_tick y))) ?y"
        using n l steady_less [OF sy] steady_fuel(5) [OF sy l t] by simp
      from out_from [OF y' out_call [OF run steady_tree(1) [OF y'] this]]
      show "outcome {Panicked} (\<lambda>(k, st'). steady {} y st') (case (k, y) of (_, st) \<Rightarrow> let (t, st) = clock_now rt st in run (CDone l False t) st)"
        by (simp add: clock_now_eq)
    qed
    let ?A = "if \<not> b then UNIV else {} :: nat set"
    have "outcome {Panicked} (\<lambda>(k, st'). steady ?A st st') (andThen
        (if first then run (CHasActivity (fl_parent (fe_loggers st1 ! l)) False) st1 else ret st1) (\<lambda>(_, st).
         if b then
           andThen (if sn_doneCount (span_of l st) \<noteq> 0
                    then run (CLogError l ''XOP: logger was already done, but was used again'') (st\<lparr>fe_FlushActive := True\<rparr>)
                    else ret (st\<lparr>fe_FlushActive := True\<rparr>)) (\<lambda>(_, st).
             let (t, st) = clock_now rt st in run (CDone l False t) st)
         else ret st))"
    proof (rule outcome_andThen [OF parent], clarify)
      fix k x assume x: "steady UNIV st1 x"
      have sx: "steady UNIV st x" by (rule steady_trans [OF st1(1) x])
      show "outcome {Panicked} (\<lambda>(k, st'). steady ?A st st') (if b then
           andThen (if sn_doneCount (span_of l x) \<noteq> 0
                    then run (CLogError l ''XOP: logger was already done, but was used again'') (x\<lparr>fe_FlushActive := True\<rparr>)
                    else ret (x\<lparr>fe_FlushActive := True\<rparr>)) (\<lambda>(_, st).
             let (t, st) = clock_now rt st in run (CDone l False t) st)
         else ret x)"
        using out_from [OF steady_mono [OF sx] start [OF x]] sx by (cases b) simp_all
    qed
    with False show ?thesis by (simp add: hasActivity_def a split del: if_split)
  qed
qed

lemma returns_notBoring:
  assumes run: "returns n run" and t: "tree st" and f: "fits (Suc n) (CNotBoring l) st"
  shows "outcome {Panicked} (\<lambda>(k, st'). steady (kept (CNotBoring l) st) st st') (notBoring rt run l st)"
proof -
  let ?A = "if sn_knownActive (span_of l st) then UNIV else {} :: nat set"
  have l: "l < length (fe_loggers st)" using f by simp
  show ?thesis unfolding notBoring_def
  proof (rule outcome_andThen [OF out_mark_notBoring [OF t l]], clarify)
    fix b x assume x: "steady UNIV st x"
    have act: "sn_knownActive (span_of l st) \<Longrightarrow> sn_knownActive (span_of l x)"
      using steady_active [OF x UNIV_I, of "fl_span (fe_loggers st ! l)"] steady_tree(2) [OF x] by (simp add: active_def span_of_def)
    have "fits n (CHasActivity l True) x"
      using f act steady_less [OF x, of l] steady_fuel(5) [OF x l t] rec_fuel_spans [OF t l] by (auto simp: done_fuel_def split: if_splits)
    from returnsD [OF run steady_tree(1) [OF x] this]
    have "outcome {Panicked} (\<lambda>(k, st'). steady ?A x st') (run (CHasActivity l True) x)"
      by (rule outcome_mono) (use act in \<open>auto intro: steady_mono\<close>)
    then show "outcome {Panicked} (\<lambda>(k, st'). steady (kept (CNotBoring l) st) st st') (if b then run (CHasActivity l True) x else ret x)"
      using out_from [OF steady_mono [OF x, of ?A]] steady_mono [OF x, of ?A] by (cases b) auto
  qed
qed

lemma returns_logError:
  assumes run: "returns n run" and t: "tree st" and f: "fits (Suc n) (CLogError l msg) st"
  shows "outcome {Panicked} (\<lambda>(k, st'). steady {} st st') (logError rt run l msg st)"
proof -
  let ?A = "if sn_knownActive (span_of l st) then UNIV else {} :: nat set"
  have l: "l < length (fe_loggers st)" using f by simp
  have nb: "fits n (CNotBoring l) st" using f by (auto split: if_splits)
  show ?thesis unfolding logError_def
  proof (rule outcome_andThen [OF returnsD [OF run t nb]], clarify)
    fix k x assume "steady (kept (CNotBoring l) st) st x"
    then have x: "steady ?A st x" by simp
    have lx: "l < length (fe_loggers x)" using l by (simp add: steady_less [OF x])
    show "outcome {Panicked} (\<lambda>(k, st'). steady {} st st') (andThen (logLine rt l ErrorLevel x) (\<lambda>(i, st).
        andThen (line_send rt i (LMsg msg) st) (\<lambda>st. run (CHasActivity (fi_logger (fe_lines st ! i)) True) st)))"
    proof (rule outcome_andThen [OF out_logLine [OF steady_tree(1) [OF x] lx]], clarify)
      fix i y assume y: "steady UNIV x y" "i < length (fe_lines y)"
        and i: "fl_span (fe_loggers x ! fi_logger (fe_lines y ! i)) = fl_span (fe_loggers x ! l)"
      show "outcome {Panicked} (\<lambda>(k, st'). steady {} st st') (andThen (line_send rt i (LMsg msg) y)
          (\<lambda>st. run (CHasActivity (fi_logger (fe_lines st ! i)) True) st))"
      proof (rule outcome_andThen [OF out_line_send [OF steady_tree(1) [OF y(1)] y(2)]], elim conjE)
        fix z assume z: "steady UNIV y z" "fe_lines z = fe_lines y"
        have sz: "steady ?A st z" by (rule steady_trans [OF x steady_mono [OF steady_trans [OF y(1) z(1)]]]) simp
        note tz = steady_tree(1) [OF z(1)]
        let ?l = "fi_logger (fe_lines z ! i)"
        have l': "?l < length (fe_loggers st)" using line_logger [OF tz, of i] y(2) z(2) steady_tree(2) [OF sz] by simp
        have sp: "fl_span (fe_loggers st ! ?l) = fl_span (fe_loggers st ! l)" using i steady_tree(2) [OF x] z(2) by simp
        have act: "sn_knownActive (span_of l st) \<Longrightarrow> sn_knownActive (span_of ?l z)"
          using steady_active [OF sz, of "fl_span (fe_loggers st ! l)"] steady_tree(2) [OF sz] sp by (simp add: active_def span_of_def)
        have "top st ?l = top st l" using tree_parent(2) [OF t l'] tree_parent(2) [OF t l] sp by (simp add: top_def span_of_def)
        then have "done_fuel st ?l = done_fuel st l" using sp by (simp add: done_fuel_def rec_fuel_def height_def)
        then have "done_fuel z ?l = done_fuel st l" using steady_fuel(5) [OF sz l' t] by simp
        then have "fits n (CHasActivity ?l True) z"
          using f act l' steady_less [OF sz, of ?l] by (auto split: if_splits)
        from out_from [OF steady_mono [OF sz empty_subsetI] out_call [OF run tz this]]
        show "outcome {Panicked} (\<lambda>(k, st'). steady {} st st') (run (CHasActivity ?l True) z)" .
      qed
    qed
  qed
qed

lemma invoke_returns:
  fixes rt :: "('h, 'w, 'c, 'm) runtime"
  assumes rt: "rt_ok rt"
  shows "returns n (invoke rt n)"
proof (induction n)
  case 0
  have "\<not> fits 0 c st" if "tree st" for c and st :: "('h, 'w, 'c, 'm) front"
    using rec_fuel_spans [OF that] by (cases c) (auto simp: flush_fuel_def done_fuel_def dest: rec_fuel_spans [OF that])
  then show ?case by (simp add: returns_def)
next
  case (Suc n)
  note run = Suc.IH
  show ?case unfolding returns_def
  proof (intro allI impI)
    fix c and st :: "('h, 'w, 'c, 'm) front" assume t: "tree st" and f: "fits (Suc n) c st"
    show "outcome {Panicked} (\<lambda>(k, st'). steady (kept c st) st st') (invoke rt (Suc n) c st)"
    proof (cases c)
      case (CHasActivity l b)
      show ?thesis using returns_hasActivity [OF run t f [unfolded CHasActivity]] unfolding CHasActivity invoke.simps body_def callee.case .
    next
      case (CNotBoring l)
      show ?thesis using returns_notBoring [OF run t f [unfolded CNotBoring]] unfolding CNotBoring invoke.simps body_def callee.case .
    next
      case (CLogError l m)
      with returns_logError [OF run t] f show ?thesis by (simp add: body_def)
    next
      case (CDone l e now)
      with returns_logger_done [OF run t] f show ?thesis by (simp add: body_def)
    next
      case (CRecursiveDone l e now)
      with returns_recursiveDone [OF rt run t] f show ?thesis by (simp add: body_def)
    next
      case (CDoneAll ds e now)
      with returns_doneAll [OF run t] f show ?thesis by (simp add: body_def)
    next
      case (CDetachedDone ds now)
      with returns_detachedDone [OF run t] f show ?thesis by (simp add: body_def)
    next
      case CRequestFlush
      with returns_request_flush [OF run t] f show ?thesis by (simp add: body_def)
    next
      case CFlush
      with returns_Flush [OF rt run t] f show ?thesis by (simp add: body_def)
    qed
  qed
qed

subsection \<open>New loggers and spans\<close>

text \<open>Only the spans and parents of the loggers matter.\<close>

lemma tree_loggers:
  assumes t: "tree st" and n: "length (fe_loggers st) \<le> length ls"
    and old: "\<And>l. l < length (fe_loggers st) \<Longrightarrow> fl_span (ls ! l) = fl_span (fe_loggers st ! l) \<and> fl_parent (ls ! l) = fl_parent (fe_loggers st ! l)"
    and new: "\<And>l. length (fe_loggers st) \<le> l \<Longrightarrow> l < length ls \<Longrightarrow> fl_span (ls ! l) < length (fe_spans st) \<and>
      fl_parent (ls ! l) < length (fe_loggers st) \<and> fl_span (fe_loggers st ! fl_parent (ls ! l)) < fl_span (ls ! l)"
  shows "tree (st\<lparr>fe_loggers := ls\<rparr>)"
proof -
  let ?x = "shape (st\<lparr>fe_loggers := ls\<rparr>)"
  have z: "ls \<noteq> []" "fl_span (ls ! 0) = 0" "fl_parent (ls ! 0) = 0"
    using old [of 0] tree_frame(1,2,3) [OF t] n by auto
  have r: "fl_span (ls ! l) < length (fe_spans st)" "fl_parent (ls ! l) < length ls" if "l < length ls" for l
    using old [of l] new [of l] that n tree_frame(4,5) [OF t, of l] by (cases "l < length (fe_loggers st)"; force)+
  have p: "fl_span (ls ! fl_parent (ls ! l)) < fl_span (ls ! l)" if "l < length ls" "l \<noteq> 0" for l
    using old [of l] old [of "fl_parent (ls ! l)"] new [of l] that tree_frame(5,6) [OF t, of l]
    by (cases "l < length (fe_loggers st)") auto
  have "frame ?x" using z r p tree_frame(7,8) [OF t] by (simp add: frame_def shape_def)
  moreover have "dep_in ?x s p" if "dep_in (shape st) s p" for s p
    using that old tree_frame(5) [OF t] n by (auto simp: dep_in_def shape_def)
  moreover have "det_in ?x p" if "det_in (shape st) p" for p
    using that old n by (auto simp: det_in_def shape_def)
  moreover have "line_in ?x (fe_lines st) s i" if "line_in (shape st) (fe_lines st) s i" for s i
    using that old line_logger [OF t, of i] by (auto simp: line_in_def shape_def)
  ultimately show ?thesis
    using t n unfolding tree_def span_tree_def by fastforce
qed

lemma tree_new_span:
  assumes t: "tree st" and x: "sn_activeDependents x = []" "sn_linePool x = []"
  shows "tree (st\<lparr>fe_spans := fe_spans st @ [x]\<rparr>)"
proof -
  let ?x = "shape (st\<lparr>fe_spans := fe_spans st @ [x]\<rparr>)"
  have "frame ?x"
    using tree_frame [OF t] by (auto simp: frame_def shape_def nth_append less_SucI)
  moreover have "dep_in ?x s p" if "dep_in (shape st) s p" for s p
    using that tree_frame(4) [OF t] by (auto simp: dep_in_def shape_def nth_append)
  moreover have "det_in ?x p" if "det_in (shape st) p" for p
    using that tree_frame(4) [OF t] by (auto simp: det_in_def shape_def nth_append)
  moreover have "line_in ?x = line_in (shape st)" by (auto simp: line_in_def shape_def fun_eq_iff)
  ultimately show ?thesis
    using t x unfolding tree_def span_tree_def by (auto simp: nth_append less_Suc_eq)
qed

end
