(* ===== verification/FrontClient.thy ===== *)
theory FrontClient
  imports FrontRules
begin

section \<open>The front end as a client of its base loggers\<close>

text \<open>
  Whatever a user does with the loggers of a request, each base logger is told a legal script: a
  span, prefill or line is used only after the call that made it. The states of the front end that
  are reached have all their indices and handles in range (\<open>good\<close>).
\<close>

subsection \<open>Scripts seen by the members\<close>

definition valid ::
    "('h, 'w, 'm) base list \<Rightarrow> 'w list \<Rightarrow> 'w list \<Rightarrow> (nat \<times> 'h) set \<Rightarrow> bool" where
  "valid bs ws0 ws V \<longleftrightarrow> length ws = length bs \<and>
     (\<exists>css envs. (\<forall>i < length bs. exec (bs ! i) (css i) (ws0 ! i, []) = Some (ws ! i, envs i)) \<and>
        (\<forall>(i, h) \<in> V. i < length bs \<and> h \<in> set (envs i)))"

lemma valid_mono: "valid bs ws0 ws V \<Longrightarrow> V' \<subseteq> V \<Longrightarrow> valid bs ws0 ws V'"
  unfolding valid_def by blast

lemma valid_start: "length ws = length bs \<Longrightarrow> valid bs ws ws {}"
  unfolding valid_def by (intro conjI exI [of _ "\<lambda>_. []"]) auto

text \<open>One more call of the script of member \<open>i\<close>.\<close>

lemma valid_step:
  assumes v: "valid bs ws0 ws V" and i: "i < length bs"
    and c: "\<And>env. (\<forall>h. (i, h) \<in> V \<longrightarrow> h \<in> set env) \<Longrightarrow> \<exists>c. exec_cmd (bs ! i) c (ws ! i, env) = Some (w, env @ hs)"
  shows "valid bs ws0 (ws[i := w]) (V \<union> Pair i ` set hs)"
proof -
  obtain css envs where len: "length ws = length bs"
    and e: "\<And>j. j < length bs \<Longrightarrow> exec (bs ! j) (css j) (ws0 ! j, []) = Some (ws ! j, envs j)"
    and V: "\<And>j h. (j, h) \<in> V \<Longrightarrow> j < length bs \<and> h \<in> set (envs j)"
    using v unfolding valid_def by blast
  obtain c where c': "exec_cmd (bs ! i) c (ws ! i, envs i) = Some (w, envs i @ hs)" using c [of "envs i"] V by blast
  let ?css = "css(i := css i @ [c])" and ?envs = "envs(i := envs i @ hs)"
  have "exec (bs ! j) (?css j) (ws0 ! j, []) = Some (ws[i := w] ! j, ?envs j)" if "j < length bs" for j
    using e [OF that] c' len i by (auto simp: exec_append nth_list_update)
  moreover have "\<forall>(j, h) \<in> V \<union> Pair i ` set hs. j < length bs \<and> h \<in> set (?envs j)"
    using V i by fastforce
  ultimately show ?thesis unfolding valid_def using len by (intro conjI exI [of _ ?css] exI [of _ ?envs]) simp_all
qed

lemma valid_do:
  assumes "valid bs ws0 ws V" "(i, h) \<in> V" "b_do (bs ! i) a h (ws ! i) = Some w"
  shows "valid bs ws0 (ws[i := w]) V"
proof -
  have i: "i < length bs" using assms(1,2) unfolding valid_def by fast
  have "valid bs ws0 (ws[i := w]) (V \<union> Pair i ` set [])"
  proof (rule valid_step [OF assms(1) i])
    fix env assume "\<forall>h. (i, h) \<in> V \<longrightarrow> h \<in> set env"
    then obtain n where "n < length env" "env ! n = h" using assms(2) by (meson in_set_conv_nth)
    then show "\<exists>c. exec_cmd (bs ! i) c (ws ! i, env) = Some (w, env @ [])"
      using assms(3) by (intro exI [of _ "Do a n"]) simp
  qed
  then show ?thesis by simp
qed

lemma valid_new:
  assumes "valid bs ws0 ws V" "(i, h) \<in> V" "b_new (bs ! i) x (Some h) (ws ! i) = Some (k, w)"
  shows "valid bs ws0 (ws[i := w]) (insert (i, k) V)"
proof -
  have i: "i < length bs" using assms(1,2) unfolding valid_def by fast
  have "valid bs ws0 (ws[i := w]) (V \<union> Pair i ` set [k])"
  proof (rule valid_step [OF assms(1) i])
    fix env assume "\<forall>h. (i, h) \<in> V \<longrightarrow> h \<in> set env"
    then obtain n where "n < length env" "env ! n = h" using assms(2) by (meson in_set_conv_nth)
    then show "\<exists>c. exec_cmd (bs ! i) c (ws ! i, env) = Some (w, env @ [k])"
      using assms(3) by (intro exI [of _ "New x (Some n)"]) simp
  qed
  then show ?thesis by simp
qed

lemma valid_request:
  assumes "valid bs ws0 ws V" "i < length bs" "b_new (bs ! i) x None (ws ! i) = Some (k, w)"
  shows "valid bs ws0 (ws[i := w]) (insert (i, k) V)"
proof -
  have "valid bs ws0 (ws[i := w]) (V \<union> Pair i ` set [k])"
    by (rule valid_step [OF assms(1,2)]) (use assms(3) in \<open>intro exI [of _ "New x None"], simp\<close>)
  then show ?thesis by simp
qed

lemma each_valid:
  "each (\<lambda>i h w. b_do (bs ! i) a h w) hs ws = Some ws' \<Longrightarrow> valid bs ws0 ws V \<Longrightarrow> set hs \<subseteq> V \<Longrightarrow> valid bs ws0 ws' V"
proof (induction hs arbitrary: ws)
  case (Cons p hs)
  obtain i h where p: "p = (i, h)" by (cases p)
  with Cons.prems obtain w where w: "b_do (bs ! i) a h (ws ! i) = Some w"
    "each (\<lambda>i h w. b_do (bs ! i) a h w) hs (ws[i := w]) = Some ws'"
    by (auto split: if_splits option.splits)
  show ?case
    by (rule Cons.IH [OF w(2) valid_do [OF Cons.prems(2) _ w(1)]]) (use Cons.prems(3) p in auto)
qed simp

lemma each_new_valid:
  "each_new (\<lambda>i h w. b_new (bs ! i) x (Some h) w) hs ws = Some (ks, ws') \<Longrightarrow> valid bs ws0 ws V \<Longrightarrow> set hs \<subseteq> V \<Longrightarrow>
   valid bs ws0 ws' (V \<union> set ks)"
proof (induction hs arbitrary: ws V ks)
  case (Cons p hs)
  obtain i h where p: "p = (i, h)" by (cases p)
  with Cons.prems obtain k w ks' where k: "b_new (bs ! i) x (Some h) (ws ! i) = Some (k, w)"
    "each_new (\<lambda>i h w. b_new (bs ! i) x (Some h) w) hs (ws[i := w]) = Some (ks', ws')" "ks = (i, k) # ks'"
    by (auto split: if_splits option.splits)
  have "valid bs ws0 ws' (insert (i, k) V \<union> set ks')"
    by (rule Cons.IH [OF k(2) valid_new [OF Cons.prems(2) _ k(1)]]) (use Cons.prems(3) p in auto)
  then show ?case by (simp add: k(3))
qed simp

subsection \<open>States in range\<close>

definition fe_handles :: "('h, 'w, 'c, 'm) front \<Rightarrow> (nat \<times> 'h) set" where
  "fe_handles st = (\<Union>x \<in> set (fe_loggers st). set (fl_prefilled x)) \<union> (\<Union>x \<in> set (fe_spans st). set (sn_base x)) \<union>
     (\<Union>x \<in> set (fe_lines st). case fi_line x of None \<Rightarrow> {} | Some hs \<Rightarrow> set hs) \<union> set (map snd (fe_Flushers st))"

text \<open>The indices in a span, for so many loggers and lines.\<close>

definition span_in :: "nat \<Rightarrow> nat \<Rightarrow> ('h, 'c, 'm) fspan \<Rightarrow> bool" where
  "span_in nl ni x \<longleftrightarrow> (\<forall>d \<in> set (sn_activeDependents x). snd d < nl) \<and> (\<forall>i \<in> set (sn_linePool x). i < ni)"

definition fe_in :: "('h, 'w, 'c, 'm) front \<Rightarrow> bool" where
  "fe_in st \<longleftrightarrow> fe_loggers st \<noteq> [] \<and>
     (\<forall>x \<in> set (fe_loggers st). fl_span x < length (fe_spans st) \<and> fl_parent x < length (fe_loggers st)) \<and>
     (\<forall>x \<in> set (fe_spans st). span_in (length (fe_loggers st)) (length (fe_lines st)) x) \<and>
     (\<forall>x \<in> set (fe_lines st). fi_logger x < length (fe_loggers st)) \<and>
     (\<forall>d \<in> set (fe_ActiveDetached st). snd d < length (fe_loggers st))"

definition good :: "('h, 'w, 'm) base list \<Rightarrow> 'w list \<Rightarrow> (nat \<times> 'h) set \<Rightarrow> ('h, 'w, 'c, 'm) front \<Rightarrow> bool" where
  "good bs ws0 V st \<longleftrightarrow> fe_in st \<and> valid bs ws0 (fe_ws st) (fe_handles st \<union> V)"

lemma good_mono: "good bs ws0 V st \<Longrightarrow> V' \<subseteq> V \<Longrightarrow> good bs ws0 V' st"
  unfolding good_def by (auto intro: valid_mono)

lemma good_empty: "good bs ws0 V st \<Longrightarrow> good bs ws0 {} st"
  by (rule good_mono) simp_all

text \<open>The stores only grow.\<close>

definition grows :: "('h, 'w, 'c, 'm) front \<Rightarrow> ('h, 'w, 'c, 'm) front \<Rightarrow> bool" where
  "grows st st' \<longleftrightarrow> length (fe_loggers st) \<le> length (fe_loggers st') \<and> length (fe_lines st) \<le> length (fe_lines st') \<and>
     length (fe_spans st) \<le> length (fe_spans st')"

lemma grows_refl [simp]: "grows st st"
  by (simp add: grows_def)

lemma grows_trans: "grows st st' \<Longrightarrow> grows st' st'' \<Longrightarrow> grows st st''"
  by (simp add: grows_def)

lemma fe_in_span [simp]:
  "fe_in st \<Longrightarrow> l < length (fe_loggers st) \<Longrightarrow> fl_span (fe_loggers st ! l) < length (fe_spans st)"
  "fe_in st \<Longrightarrow> l < length (fe_loggers st) \<Longrightarrow> fl_parent (fe_loggers st ! l) < length (fe_loggers st)"
  "fe_in st \<Longrightarrow> 0 < length (fe_loggers st)"
  "fe_in st \<Longrightarrow> i < length (fe_lines st) \<Longrightarrow> fi_logger (fe_lines st ! i) < length (fe_loggers st)"
  unfolding fe_in_def by auto

lemma span_of_in: "fe_in st \<Longrightarrow> l < length (fe_loggers st) \<Longrightarrow> span_of l st \<in> set (fe_spans st)"
  by (simp add: span_of_def)

lemma base_handles: "fe_in st \<Longrightarrow> l < length (fe_loggers st) \<Longrightarrow> set (sn_base (span_of l st)) \<subseteq> fe_handles st"
  using span_of_in [of st l] unfolding fe_handles_def by fastforce

lemma prefilled_handles: "l < length (fe_loggers st) \<Longrightarrow> set (fl_prefilled (fe_loggers st ! l)) \<subseteq> fe_handles st"
  using nth_mem [of l "fe_loggers st"] unfolding fe_handles_def by fastforce

lemma line_handles: "i < length (fe_lines st) \<Longrightarrow> fi_line (fe_lines st ! i) = Some hs \<Longrightarrow> set hs \<subseteq> fe_handles st"
  using nth_mem [of i "fe_lines st"] unfolding fe_handles_def by fastforce

lemma detached_in: "fe_in st \<Longrightarrow> d \<in> set (fe_ActiveDetached st) \<Longrightarrow> snd d < length (fe_loggers st)"
  unfolding fe_in_def by blast

lemma dependent_in: "fe_in st \<Longrightarrow> l < length (fe_loggers st) \<Longrightarrow> d \<in> set (sn_activeDependents (span_of l st)) \<Longrightarrow>
    snd d < length (fe_loggers st)"
  using span_of_in [of st l] unfolding fe_in_def span_in_def by blast

lemma pool_in: "fe_in st \<Longrightarrow> l < length (fe_loggers st) \<Longrightarrow> i \<in> set (sn_linePool (span_of l st)) \<Longrightarrow> i < length (fe_lines st)"
  using span_of_in [of st l] unfolding fe_in_def span_in_def by blast

subsection \<open>Steps that keep the states in range\<close>

lemma good_in [simp]: "good bs ws0 V st \<Longrightarrow> fe_in st"
  by (simp add: good_def)

lemma good_update:
  assumes "good bs ws0 V st" "fe_in st'" "fe_ws st' = fe_ws st" "fe_handles st' \<subseteq> fe_handles st \<union> V" "V' \<subseteq> V"
  shows "good bs ws0 V' st'"
  using assms unfolding good_def by (auto intro: valid_mono)

lemma good_ws: "good bs ws0 V st \<Longrightarrow> valid bs ws0 ws (fe_handles st \<union> V) \<Longrightarrow> good bs ws0 V (st\<lparr>fe_ws := ws\<rparr>)"
  unfolding good_def fe_in_def fe_handles_def by simp

lemma good_upd_fspan:
  assumes g: "good bs ws0 V st" and l: "l < length (fe_loggers st)" and b: "sn_base (f (span_of l st)) = sn_base (span_of l st)"
    and s: "span_in (length (fe_loggers st)) (length (fe_lines st)) (f (span_of l st))"
  shows "good bs ws0 V (upd_fspan l f st)"
proof (rule good_update [OF g])
  note x = in_upd_fspan [OF _ fe_in_span(1) [OF good_in [OF g] l], of _ f]
  show "fe_in (upd_fspan l f st)"
    using good_in [OF g] s unfolding fe_in_def by (auto simp: length_upd_fspan simp del: upd_fspan_simps(12) dest!: x)
  show "fe_handles (upd_fspan l f st) \<subseteq> fe_handles st \<union> V"
    using b span_of_in [OF good_in [OF g] l] unfolding fe_handles_def by (auto simp del: upd_fspan_simps(12) dest!: x)
qed simp_all

lemma grows_simps [simp]:
  "grows st (st'\<lparr>fe_ws := ws\<rparr>) = grows st st'" "grows (st\<lparr>fe_ws := ws\<rparr>) st' = grows st st'"
  "grows st (upd_fspan l f st') = grows st st'" "grows (upd_fspan l f st) st' = grows st st'"
  "grows st (st'\<lparr>fe_tick := n\<rparr>) = grows st st'" "grows (st\<lparr>fe_tick := n\<rparr>) st' = grows st st'"
  "grows st (st'\<lparr>fe_FlushActive := b\<rparr>) = grows st st'" "grows (st\<lparr>fe_FlushActive := b\<rparr>) st' = grows st st'"
  "grows st (st'\<lparr>fe_ActiveDetached := m\<rparr>) = grows st st'" "grows (st\<lparr>fe_ActiveDetached := m\<rparr>) st' = grows st st'"
  "grows st (st'\<lparr>fe_WaitingForDetached := b\<rparr>) = grows st st'"
  "grows st (st'\<lparr>fe_async := k\<rparr>) = grows st st'" "grows (st\<lparr>fe_async := k\<rparr>) st' = grows st st'"
  "grows st (st'\<lparr>fe_rand := k\<rparr>) = grows st st'" "grows (st\<lparr>fe_rand := k\<rparr>) st' = grows st st'"
  by (simp_all add: grows_def)

lemma good_simps [simp]:
  "good bs ws0 V (st\<lparr>fe_tick := n\<rparr>) = good bs ws0 V st" "good bs ws0 V (st\<lparr>fe_FlushActive := b\<rparr>) = good bs ws0 V st"
  "good bs ws0 V (st\<lparr>fe_WaitingForDetached := b\<rparr>) = good bs ws0 V st" "good bs ws0 V (st\<lparr>fe_async := k\<rparr>) = good bs ws0 V st"
  "good bs ws0 V (st\<lparr>fe_rand := k\<rparr>) = good bs ws0 V st" "good bs ws0 V (st\<lparr>fe_LogCount := c\<rparr>) = good bs ws0 V st"
  by (simp_all add: good_def fe_in_def fe_handles_def)

lemma good_base_call:
  assumes "good (rt_bases rt) ws0 V st" "set hs \<subseteq> fe_handles st \<union> V"
  shows "outcome UNIV (\<lambda>st'. good (rt_bases rt) ws0 V st' \<and> (\<exists>ws. st' = st\<lparr>fe_ws := ws\<rparr>)) (base_call rt a hs st)"
proof (rule outcome_base_call)
  fix ws assume "each (\<lambda>i h w. b_do (rt_bases rt ! i) a h w) hs (fe_ws st) = Some ws"
  from each_valid [OF this _ assms(2)] assms(1) have "valid (rt_bases rt) ws0 ws (fe_handles st \<union> V)"
    unfolding good_def by blast
  with good_ws [OF assms(1) this]
  show "good (rt_bases rt) ws0 V (st\<lparr>fe_ws := ws\<rparr>) \<and> (\<exists>wsa. st\<lparr>fe_ws := ws\<rparr> = st\<lparr>fe_ws := wsa\<rparr>)" by blast
qed simp

lemma good_base_calls:
  "good (rt_bases rt) ws0 V st \<Longrightarrow> set hs \<subseteq> fe_handles st \<union> V \<Longrightarrow>
   outcome UNIV (\<lambda>st'. good (rt_bases rt) ws0 V st' \<and> (\<exists>ws. st' = st\<lparr>fe_ws := ws\<rparr>)) (base_calls rt as hs st)"
proof (induction as arbitrary: st)
  case Nil
  then show ?case by (auto intro!: exI [of _ "fe_ws st"])
next
  case (Cons a as)
  show ?case unfolding base_calls.simps
  proof (rule outcome_andThen [OF good_base_call [OF Cons.prems]], elim conjE exE)
    fix x ws assume x: "good (rt_bases rt) ws0 V x" "x = st\<lparr>fe_ws := ws\<rparr>"
    with Cons.prems have "set hs \<subseteq> fe_handles x \<union> V" by (simp add: fe_handles_def)
    from Cons.IH [OF x(1) this] show "outcome UNIV (\<lambda>st'. good (rt_bases rt) ws0 V st' \<and> (\<exists>ws. st' = st\<lparr>fe_ws := ws\<rparr>))
        (base_calls rt as hs x)" by (rule outcome_mono) (auto simp: x(2))
  qed
qed

lemma good_base_create:
  assumes "good (rt_bases rt) ws0 V st" "set hs \<subseteq> fe_handles st \<union> V"
  shows "outcome UNIV (\<lambda>(ks, st'). good (rt_bases rt) ws0 (V \<union> set ks) st' \<and> (\<exists>ws. st' = st\<lparr>fe_ws := ws\<rparr>)) (base_create rt x hs st)"
proof (rule outcome_base_create)
  fix ks ws assume "each_new (\<lambda>i h w. b_new (rt_bases rt ! i) x (Some h) w) hs (fe_ws st) = Some (ks, ws)"
  from each_new_valid [OF this _ assms(2)] assms(1)
  have "valid (rt_bases rt) ws0 ws (fe_handles st \<union> (V \<union> set ks))" unfolding good_def by (simp add: Un_assoc)
  then show "case (ks, st\<lparr>fe_ws := ws\<rparr>) of (ks, st') \<Rightarrow> good (rt_bases rt) ws0 (V \<union> set ks) st' \<and> (\<exists>ws. st' = st\<lparr>fe_ws := ws\<rparr>)"
    using good_in [OF assms(1)] by (auto simp: good_def fe_handles_def fe_in_def)
qed simp

lemma good_base_request:
  assumes "good (rt_bases rt) ws0 V st"
  shows "outcome UNIV (\<lambda>(h, st'). good (rt_bases rt) ws0 (insert (i, h) V) st' \<and> (\<exists>ws. st' = st\<lparr>fe_ws := ws\<rparr>)) (base_request rt x i st)"
proof (rule outcome_base_request)
  fix h w assume a: "i < length (fe_ws st)" "b_new (rt_bases rt ! i) x None (fe_ws st ! i) = Some (h, w)"
  have v: "valid (rt_bases rt) ws0 (fe_ws st) (fe_handles st \<union> V)" using assms by (simp add: good_def)
  then have "i < length (rt_bases rt)" using a(1) by (simp add: valid_def)
  from valid_request [OF v this a(2)] show "case (h, st\<lparr>fe_ws := (fe_ws st)[i := w]\<rparr>) of (h, st') \<Rightarrow>
      good (rt_bases rt) ws0 (insert (i, h) V) st' \<and> (\<exists>ws. st' = st\<lparr>fe_ws := ws\<rparr>)"
    using good_in [OF assms] by (auto simp: good_def fe_handles_def fe_in_def)
qed simp

text \<open>The postcondition of most steps.\<close>

definition fine :: "('h, 'w, 'c, 'm) runtime \<Rightarrow> 'w list \<Rightarrow> (nat \<times> 'h) set \<Rightarrow> ('h, 'w, 'c, 'm) front \<Rightarrow>
    ('h, 'w, 'c, 'm) front \<Rightarrow> bool" where
  "fine rt ws0 V st st' \<longleftrightarrow> good (rt_bases rt) ws0 V st' \<and> grows st st'"

lemma fine_good [simp]: "fine rt ws0 V st st' \<Longrightarrow> good (rt_bases rt) ws0 V st'"
  by (simp add: fine_def)

lemma fine_less [simp]:
  "fine rt ws0 V st st' \<Longrightarrow> l < length (fe_loggers st) \<Longrightarrow> l < length (fe_loggers st')"
  "fine rt ws0 V st st' \<Longrightarrow> i < length (fe_lines st) \<Longrightarrow> i < length (fe_lines st')"
  by (auto simp: fine_def grows_def simp del: fine_good)

lemma fine_trans: "fine rt ws0 V st st' \<Longrightarrow> fine rt ws0 V' st' st'' \<Longrightarrow> fine rt ws0 V' st st''"
  unfolding fine_def by (auto intro: grows_trans)

lemma fine_refl: "good (rt_bases rt) ws0 V st \<Longrightarrow> fine rt ws0 V st st"
  by (simp add: fine_def del: fine_good)

lemma fine_mono: "fine rt ws0 V st st' \<Longrightarrow> V' \<subseteq> V \<Longrightarrow> fine rt ws0 V' st st'"
  unfolding fine_def by (auto intro: good_mono)

lemma fine_base_call: "good (rt_bases rt) ws0 V st \<Longrightarrow> set hs \<subseteq> fe_handles st \<union> V \<Longrightarrow>
    outcome UNIV (fine rt ws0 V st) (base_call rt a hs st)"
  by (erule (1) outcome_mono [OF good_base_call]) (auto simp: fine_def simp del: fine_good)

lemma fine_base_calls: "good (rt_bases rt) ws0 V st \<Longrightarrow> set hs \<subseteq> fe_handles st \<union> V \<Longrightarrow>
    outcome UNIV (fine rt ws0 V st) (base_calls rt as hs st)"
  by (erule (1) outcome_mono [OF good_base_calls]) (auto simp: fine_def simp del: fine_good)

lemma fine_base_create: "good (rt_bases rt) ws0 V st \<Longrightarrow> set hs \<subseteq> fe_handles st \<union> V \<Longrightarrow>
    outcome UNIV (\<lambda>(ks, st'). fine rt ws0 (V \<union> set ks) st st') (base_create rt x hs st)"
  by (erule (1) outcome_mono [OF good_base_create]) (auto simp: fine_def simp del: fine_good)

lemma fine_base_request: "good (rt_bases rt) ws0 V st \<Longrightarrow>
    outcome UNIV (\<lambda>(h, st'). fine rt ws0 (insert (i, h) V) st st') (base_request rt x i st)"
  by (erule outcome_mono [OF good_base_request]) (auto simp: fine_def simp del: fine_good)

definition fine2 :: "('h, 'w, 'c, 'm) runtime \<Rightarrow> 'w list \<Rightarrow> (nat \<times> 'h) set \<Rightarrow> ('h, 'w, 'c, 'm) front \<Rightarrow>
    'a \<times> ('h, 'w, 'c, 'm) front \<Rightarrow> bool" where
  "fine2 rt ws0 V st p \<longleftrightarrow> fine rt ws0 V st (snd p)"

lemma fine2_Pair [simp]: "fine2 rt ws0 V st (k, st') \<longleftrightarrow> fine rt ws0 V st st'"
  by (simp add: fine2_def)

text \<open>A sequence of two steps.\<close>

lemma fine_from:
  "fine rt ws0 V st st1 \<Longrightarrow> outcome UNIV (fine rt ws0 V st1) r \<Longrightarrow> outcome UNIV (fine rt ws0 V st) r"
  "fine rt ws0 V st st1 \<Longrightarrow> outcome UNIV (fine2 rt ws0 V st1) r' \<Longrightarrow> outcome UNIV (fine2 rt ws0 V st) r'"
  by (auto elim!: outcome_mono simp: fine2_def intro: fine_trans)

lemma fine_andThen:
  "outcome UNIV (fine rt ws0 V st) r \<Longrightarrow> (\<And>x. fine rt ws0 V st x \<Longrightarrow> outcome UNIV (fine rt ws0 V x) (f x)) \<Longrightarrow>
   outcome UNIV (fine rt ws0 V st) (andThen r f)"
  "outcome UNIV (fine rt ws0 V st) r \<Longrightarrow> (\<And>x. fine rt ws0 V st x \<Longrightarrow> outcome UNIV (fine2 rt ws0 V x) (f2 x)) \<Longrightarrow>
   outcome UNIV (fine2 rt ws0 V st) (andThen r f2)"
  by (erule outcome_andThen, blast intro: fine_from)+

lemma fine2_andThen:
  "outcome UNIV (fine2 rt ws0 V st) r \<Longrightarrow> (\<And>k x. fine rt ws0 V st x \<Longrightarrow> outcome UNIV (fine rt ws0 V x) (f (k, x))) \<Longrightarrow>
   outcome UNIV (fine rt ws0 V st) (andThen r f)"
  "outcome UNIV (fine2 rt ws0 V st) r \<Longrightarrow> (\<And>k x. fine rt ws0 V st x \<Longrightarrow> outcome UNIV (fine2 rt ws0 V x) (f2 (k, x))) \<Longrightarrow>
   outcome UNIV (fine2 rt ws0 V st) (andThen r f2)"
  by (erule outcome_andThen, auto simp: split_paired_all intro: fine_from)+

subsection \<open>Lines\<close>

lemma good_new_line:
  assumes "good bs ws0 V st" "l < length (fe_loggers st)"
  shows "good bs ws0 V (st\<lparr>fe_lines := fe_lines st @ [\<lparr>fi_logger = l, fi_line = None, fi_pc = pc, fi_skip = b\<rparr>]\<rparr>)"
  using assms unfolding good_def fe_in_def span_in_def fe_handles_def by (fastforce simp: less_SucI)

lemma good_set_line:
  assumes g: "good bs ws0 V st" and i: "i < length (fe_lines st)"
    and h: "\<And>hs. ln = Some hs \<Longrightarrow> set hs \<subseteq> V"
  shows "good bs ws0 V (st\<lparr>fe_lines := (fe_lines st)[i := (fe_lines st ! i)\<lparr>fi_line := ln, fi_pc := pc, fi_skip := b\<rparr>]\<rparr>)"
proof (rule good_update [OF g])
  show "fe_in (st\<lparr>fe_lines := (fe_lines st)[i := (fe_lines st ! i)\<lparr>fi_line := ln, fi_pc := pc, fi_skip := b\<rparr>]\<rparr>)"
    using good_in [OF g] i unfolding fe_in_def by (auto dest!: set_update_subset_insert [THEN subsetD])
  show "fe_handles (st\<lparr>fe_lines := (fe_lines st)[i := (fe_lines st ! i)\<lparr>fi_line := ln, fi_pc := pc, fi_skip := b\<rparr>]\<rparr>)
      \<subseteq> fe_handles st \<union> V"
    using h unfolding fe_handles_def by (auto dest!: set_update_subset_insert [THEN subsetD] split: option.splits)
qed simp_all

text \<open>The line that \<open>logLine\<close> starts from: out of the pool, or a new one.\<close>

lemma good_take_line:
  assumes g: "good bs ws0 V st" and l: "l < length (fe_loggers st)"
  shows "good bs ws0 V (upd_fspan l (\<lambda>x. x\<lparr>sn_linePool := remove1 i (sn_linePool (span_of l st))\<rparr>) st)"
  using span_of_in [OF good_in [OF g] l] good_in [OF g]
  by (intro good_upd_fspan [OF g l]) (auto simp: span_in_def fe_in_def dest: set_remove1_subset [THEN subsetD])

lemma good_take:
  assumes g: "good (rt_bases rt) ws0 V st" and l: "l < length (fe_loggers st)" and t: "take_line rt l st = (i, st1)"
  shows "fine rt ws0 V st st1 \<and> i < length (fe_lines st1) \<and> fe_loggers st1 = fe_loggers st"
proof -
  consider (old) "i \<in> set (sn_linePool (span_of l st))"
      "st1 = upd_fspan l (\<lambda>x. x\<lparr>sn_linePool := remove1 i (sn_linePool (span_of l st))\<rparr>) st"
    | (new) "i = length (fe_lines st)"
      "st1 = st\<lparr>fe_lines := fe_lines st @ [\<lparr>fi_logger = l, fi_line = None, fi_pc = None, fi_skip = False\<rparr>]\<rparr>"
    using t by (auto simp: take_line_def Let_def split: option.splits if_splits)
  then show ?thesis
  proof cases
    case old
    then show ?thesis using good_take_line [OF g l] pool_in [OF good_in [OF g] l old(1)] by (simp add: fine_def del: fine_good)
  next
    case new
    then show ?thesis using good_new_line [OF g l] by (simp add: fine_def grows_def del: fine_good)
  qed
qed

lemma fine_logLine:
  assumes g: "good (rt_bases rt) ws0 V st" and l: "l < length (fe_loggers st)"
  shows "outcome UNIV (\<lambda>(i, st'). fine rt ws0 V st st' \<and> i < length (fe_lines st')) (logLine rt l level st)"
proof -
  obtain i st1 where t: "take_line rt l st = (i, st1)" by (cases "take_line rt l st")
  from good_take [OF g l t] have st1: "fine rt ws0 V st st1" "i < length (fe_lines st1)" "l < length (fe_loggers st1)"
    "fe_loggers st1 = fe_loggers st" using l by auto
  let ?ll = "fe_lines st1 ! i"
  let ?skip = "st1\<lparr>fe_lines := (fe_lines st1)[i := ?ll\<lparr>fi_line := None, fi_skip := True\<rparr>]\<rparr>"
  have "good (rt_bases rt) ws0 V ?skip"
    using good_set_line [OF fine_good [OF st1(1)] st1(2), where ln = None and pc = "fi_pc ?ll" and b = True] by simp
  then have skip: "fine rt ws0 V st ?skip" using st1(1) by (simp add: fine_def grows_def del: fine_good)
  have line: "outcome UNIV (\<lambda>(i, st'). fine rt ws0 V st st' \<and> i < length (fe_lines st'))
     (andThen (base_create rt x (fl_prefilled (fe_loggers st1 ! l)) (st1\<lparr>fe_tick := n\<rparr>))
       (\<lambda>(hs, st). Inr (i, st\<lparr>fe_lines := (fe_lines st)[i := ?ll\<lparr>fi_line := Some hs, fi_pc := pc, fi_skip := False\<rparr>]\<rparr>)))" for x n pc
  proof (rule outcome_andThen [OF good_base_create])
    show "good (rt_bases rt) ws0 V (st1\<lparr>fe_tick := n\<rparr>)" using st1(1) by simp
    show "set (fl_prefilled (fe_loggers st1 ! l)) \<subseteq> fe_handles (st1\<lparr>fe_tick := n\<rparr>) \<union> V"
      using prefilled_handles [OF st1(3)] unfolding fe_handles_def by auto
    fix p
    assume "case p of (ks, st') \<Rightarrow> good (rt_bases rt) ws0 (V \<union> set ks) st' \<and> (\<exists>ws. st' = st1\<lparr>fe_tick := n, fe_ws := ws\<rparr>)"
    then obtain ks ws where p: "p = (ks, st1\<lparr>fe_tick := n, fe_ws := ws\<rparr>)"
      and k: "good (rt_bases rt) ws0 (V \<union> set ks) (st1\<lparr>fe_tick := n, fe_ws := ws\<rparr>)" by (cases p) auto
    from good_set_line [OF k, where i = i and ln = "Some ks" and pc = pc and b = False] st1(2) have "good (rt_bases rt) ws0 V
        (st1\<lparr>fe_tick := n, fe_ws := ws, fe_lines := (fe_lines st1)[i := ?ll\<lparr>fi_line := Some ks, fi_pc := pc, fi_skip := False\<rparr>]\<rparr>)"
      by (auto intro: good_mono)
    with st1 show "outcome UNIV (\<lambda>(i, st'). fine rt ws0 V st st' \<and> i < length (fe_lines st'))
       (case p of (hs, st) \<Rightarrow> Inr (i, st\<lparr>fe_lines := (fe_lines st)[i := ?ll\<lparr>fi_line := Some hs, fi_pc := pc, fi_skip := False\<rparr>]\<rparr>))"
      by (simp add: p fine_def grows_def del: fine_good)
  qed
  show ?thesis
  proof (cases "level < ls_minimumLogLevel (fl_settings (fe_loggers st ! l))")
    case True
    then show ?thesis using skip st1(2) by (simp add: logLine_def Let_def t)
  next
    case False
    then show ?thesis
      by (auto simp: logLine_def Let_def t clock_now_eq intro!: outcome_andThen [where P = "\<lambda>_. True"] outcome_orPanic line)
  qed
qed

end
