(* ===== verification/FrontLegal.thy ===== *)
theory FrontLegal
  imports FrontClient
begin

section \<open>Every operation is a legal use of the base loggers\<close>

text \<open>
  Each operation of the front end, from \<open>Seed.Request\<close> on, extends the scripts of the base loggers
  by legal calls, with any fuel and any behaviour of the runtime. What a base logger keeps under
  every call (\<open>base_invariant\<close>) therefore holds of it throughout a request.
\<close>

subsection \<open>Activity\<close>

lemma fine_line_send:
  assumes g: "good (rt_bases rt) ws0 V st" and i: "i < length (fe_lines st)"
  shows "outcome UNIV (fine rt ws0 V st) (line_send rt i e st)"
proof -
  let ?ll = "fe_lines st ! i"
  have l: "fi_logger ?ll < length (fe_loggers st)" using g i by simp
  have send: "outcome UNIV (\<lambda>st'. good (rt_bases rt) ws0 V st' \<and> (\<exists>ws. st' = st\<lparr>fe_ws := ws\<rparr>))
      (case fi_line ?ll of None \<Rightarrow> Inr st | Some hs \<Rightarrow> base_call rt (AEnd e) hs st)"
  proof (cases "fi_line ?ll")
    case None
    then show ?thesis using g by (auto intro!: exI [of _ "fe_ws st"])
  next
    case (Some hs)
    then show ?thesis using good_base_call [OF g, of hs] line_handles [OF i Some] by auto
  qed
  show ?thesis unfolding line_send_def Let_def
  proof (rule outcome_andThen [OF send], elim conjE exE)
    fix x ws assume x: "good (rt_bases rt) ws0 V x" "x = st\<lparr>fe_ws := ws\<rparr>"
    have lx: "fi_logger ?ll < length (fe_loggers x)" using l x(2) by simp
    have "good (rt_bases rt) ws0 V (upd_fspan (fi_logger ?ll) (\<lambda>y. y\<lparr>sn_linePool := sn_linePool y @ [i]\<rparr>) x)"
      using span_of_in [OF good_in [OF x(1)] lx] good_in [OF x(1)] i x(2)
      by (intro good_upd_fspan [OF x(1) lx]) (auto simp: span_in_def fe_in_def)
    then show "outcome UNIV (fine rt ws0 V st) (Inr (upd_fspan (fi_logger ?ll) (\<lambda>y. y\<lparr>sn_linePool := sn_linePool y @ [i]\<rparr>) x))"
      by (simp add: fine_def x(2) del: fine_good)
  qed
qed

text \<open>Changes of a span that leave its indices alone.\<close>

lemma good_upd_field:
  assumes "good bs ws0 V st" "l < length (fe_loggers st)"
    and "\<And>x. sn_base (f x) = sn_base x" "\<And>x. sn_activeDependents (f x) = sn_activeDependents x" "\<And>x. sn_linePool (f x) = sn_linePool x"
  shows "good bs ws0 V (upd_fspan l f st)"
  using assms span_of_in [OF good_in [OF assms(1)] assms(2)] good_in [OF assms(1)]
  by (intro good_upd_fspan) (auto simp: span_in_def fe_in_def)

lemma fine_addMyself:
  assumes g: "good (rt_bases rt) ws0 V st" and l: "l < length (fe_loggers st)"
  shows "fine rt ws0 V st (snd (addMyselfAsDependent l st))"
proof -
  let ?p = "fl_parent (fe_loggers st ! l)" and ?deps = "\<lambda>m. aput (sn_logNumber (span_of l st)) l m"
  have p: "?p < length (fe_loggers st)" using g l by simp
  have det: "good (rt_bases rt) ws0 V (st\<lparr>fe_ActiveDetached := ?deps (fe_ActiveDetached st)\<rparr>)"
    using good_in [OF g] l
    by (intro good_update [OF g]) (auto simp: fe_in_def fe_handles_def dest!: aput_subset [THEN subsetD])
  have dep: "good (rt_bases rt) ws0 V
      (upd_fspan ?p (\<lambda>y. y\<lparr>sn_activeDependents := ?deps (sn_activeDependents (span_of ?p st))\<rparr>) st)"
    using span_of_in [OF good_in [OF g] p] good_in [OF g] l
    by (intro good_upd_fspan [OF g p]) (auto simp: span_in_def fe_in_def dest!: aput_subset [THEN subsetD])
  show ?thesis using g det dep by (simp add: addMyselfAsDependent_def Let_def fine_def grows_def del: fine_good)
qed

lemma fine_clock [simp]: "fine rt ws0 V (st\<lparr>fe_tick := n\<rparr>) = fine rt ws0 V st"
  "fine rt ws0 V st (st'\<lparr>fe_tick := n\<rparr>) = fine rt ws0 V st st'"
  by (auto simp: fine_def fun_eq_iff simp del: fine_good)

lemma fine_del_detached:
  assumes g: "good (rt_bases rt) ws0 V st"
  shows "good (rt_bases rt) ws0 V (st\<lparr>fe_ActiveDetached := adel k (fe_ActiveDetached st)\<rparr>)"
  using good_in [OF g]
  by (intro good_update [OF g]) (auto simp: fe_in_def fe_handles_def dest: adel_subset [THEN subsetD])

lemma fine_done_detached: "good (rt_bases rt) ws0 V st \<Longrightarrow> fine rt ws0 V st (snd (done_detached l st))"
  using fine_del_detached [of rt ws0 V st "sn_logNumber (span_of l st)"] by (auto simp: done_detached_def Let_def fine_def simp del: fine_good)

lemma fine_done_request: "good (rt_bases rt) ws0 V st \<Longrightarrow> fine rt ws0 V st (snd (done_request st))"
  by (simp add: done_request_def fine_def del: fine_good)

lemma fine_done_dependent:
  assumes g: "good (rt_bases rt) ws0 V st" and l: "l < length (fe_loggers st)"
  shows "fine rt ws0 V st (done_dependent l st)"
proof -
  have p: "fl_parent (fe_loggers st ! l) < length (fe_loggers st)" using g l by simp
  have "good (rt_bases rt) ws0 V (done_dependent l st)" unfolding done_dependent_def
  proof (rule good_upd_fspan [OF g p])
    show "span_in (length (fe_loggers st)) (length (fe_lines st)) (span_of (fl_parent (fe_loggers st ! l)) st
        \<lparr>sn_activeDependents := adel (sn_logNumber (span_of l st)) (sn_activeDependents (span_of (fl_parent (fe_loggers st ! l)) st))\<rparr>)"
      using dependent_in [OF good_in [OF g] p] pool_in [OF good_in [OF g] p] adel_subset unfolding span_in_def by fastforce
  qed simp
  then show ?thesis by (simp add: fine_def done_dependent_def del: fine_good)
qed

lemma span_handles: "good bs ws0 V st \<Longrightarrow> l < length (fe_loggers st) \<Longrightarrow> set (sn_base (span_of l st)) \<subseteq> fe_handles st \<union> V"
  using base_handles [of st l] by auto

lemma fine_upd_field:
  "good (rt_bases rt) ws0 V st \<Longrightarrow> l < length (fe_loggers st) \<Longrightarrow> (\<And>x. sn_base (f x) = sn_base x) \<Longrightarrow>
   (\<And>x. sn_activeDependents (f x) = sn_activeDependents x) \<Longrightarrow> (\<And>x. sn_linePool (f x) = sn_linePool x) \<Longrightarrow>
   fine rt ws0 V st (upd_fspan l f st)"
  unfolding fine_def by (simp add: good_upd_field)

lemma span_of_upd_base: "(\<And>x. sn_base (f x) = sn_base x) \<Longrightarrow> sn_base (span_of l (upd_fspan k f st)) = sn_base (span_of l st)"
  by (cases "fl_span (fe_loggers st ! l) = fl_span (fe_loggers st ! k)"; cases "fl_span (fe_loggers st ! k) < length (fe_spans st)")
    (simp_all add: span_of_def not_less list_update_beyond)

lemma fine_mark_done:
  assumes g: "good (rt_bases rt) ws0 V st" and l: "l < length (fe_loggers st)"
  shows "outcome UNIV (fine2 rt ws0 V st) (mark_done rt l final now st)"
proof -
  let ?on = "\<lambda>f. upd_fspan l f st"
  let ?f = "\<lambda>x. x\<lparr>sn_knownActive := False, sn_doneCount := sn_doneCount x + 1\<rparr>" and ?g = "\<lambda>x. x\<lparr>sn_knownActive := False\<rparr>"
  have f: "fine rt ws0 V st (?on ?f)" and f': "fine rt ws0 V st (?on ?g)" by (rule fine_upd_field [OF g l]; simp)+
  have h: "set (sn_base (span_of l st)) \<subseteq> fe_handles (?on h) \<union> V" if "fine rt ws0 V st (?on h)" "\<And>x. sn_base (h x) = sn_base x" for h
    using span_handles [OF fine_good [OF that(1)] fine_less(1) [OF that(1) l]] span_of_upd_base [of h l l st, OF that(2)] by simp
  have call: "outcome UNIV (fine2 rt ws0 V st) (andThen (base_call rt a (sn_base (span_of l st)) s) (\<lambda>st. Inr (k, st)))"
    if "fine rt ws0 V st s" "set (sn_base (span_of l st)) \<subseteq> fe_handles s \<union> V" for a s k
    by (rule fine_from(2) [OF that(1)], rule fine_andThen(2) [OF fine_base_call])
      (use that in \<open>auto intro: fine_refl\<close>)
  have "set (sn_base (span_of l st)) \<subseteq> fe_handles (?on ?f) \<union> V" by (rule h [OF f]) simp
  then have t: "set (sn_base (span_of l st)) \<subseteq> fe_handles (?on ?f\<lparr>fe_tick := Suc (fe_tick st)\<rparr>) \<union> V" by (simp add: fe_handles_def)
  have "outcome UNIV (fine2 rt ws0 V st) (mark_done rt l True now st)"
    unfolding mark_done_def Let_def clock_now_eq using f by (auto intro!: call [OF _ t])
  moreover have "outcome UNIV (fine2 rt ws0 V st) (mark_done rt l False now st)"
    unfolding mark_done_def Let_def using fine_refl [OF g] by (auto intro!: call [OF f' h [OF f']])
  ultimately show ?thesis by (cases final) simp_all
qed

lemma fine_call_span:
  "good (rt_bases rt) ws0 V st \<Longrightarrow> l < length (fe_loggers st) \<Longrightarrow> outcome UNIV (fine rt ws0 V st) (base_call rt a (sn_base (span_of l st)) st)"
  by (rule fine_base_call) (auto simp: span_handles)

lemma fine_mark_notBoring:
  assumes g: "good (rt_bases rt) ws0 V st" and l: "l < length (fe_loggers st)"
  shows "outcome UNIV (fine2 rt ws0 V st) (mark_notBoring rt l st)"
proof -
  have bump: "fine rt ws0 V s (upd_fspan j (\<lambda>x. x\<lparr>sn_boring := sn_boring x + 1\<rparr>) s)"
    if "good (rt_bases rt) ws0 V s" "j < length (fe_loggers s)" for j s
    using that by (intro fine_upd_field) simp_all
  note b = bump [OF g l]
  show ?thesis unfolding mark_notBoring_def Let_def
  proof (simp add: b, intro impI fine_from(2) [OF b] fine_andThen(2) [OF fine_call_span] )
    fix x assume x: "fine rt ws0 V (upd_fspan l (\<lambda>x. x\<lparr>sn_boring := sn_boring x + 1\<rparr>) st) x"
    have g0: "good (rt_bases rt) ws0 V x" "0 < length (fe_loggers x)" using x fe_in_span(3) [OF good_in [OF fine_good [OF x]]] by auto
    note b0 = bump [OF this]
    let ?y = "upd_fspan 0 (\<lambda>x. x\<lparr>sn_boring := sn_boring x + 1\<rparr>) x"
    show "outcome UNIV (fine2 rt ws0 V x)
        (andThen (if sn_boring (span_of 0 ?y) = 1 then base_call rt (ABoring False) (sn_base (span_of 0 ?y)) ?y else Inr ?y)
          (\<lambda>st. Inr (True, st)))"
      by (rule fine_from(2) [OF b0], rule fine_andThen(2))
        (use fine_good [OF b0] g0(2) in \<open>auto intro!: fine_call_span fine_refl simp del: upd_fspan_simps(12)\<close>)
  qed (use l in \<open>simp_all add: fine_good [OF b]\<close>)
qed

lemma fine_flush_bases:
  assumes g: "good (rt_bases rt) ws0 V st" and rt: "rt_ok rt"
  shows "outcome UNIV (fine rt ws0 V st) (flush_bases rt st)"
proof -
  have "set (rt_set rt (map snd (fe_Flushers st))) \<subseteq> fe_handles (st\<lparr>fe_FlushActive := False\<rparr>) \<union> V"
    using rt by (auto simp: rt_ok_set fe_handles_def)
  note call = fine_base_call [where V = V and ?ws0.0 = ws0, OF _ this]
  show ?thesis unfolding flush_bases_def by (rule outcome_mono [OF call]) (use g in \<open>auto simp: fine_def simp del: fine_good\<close>)
qed

subsection \<open>The functions that call each other\<close>

fun callee_in :: "nat \<Rightarrow> callee \<Rightarrow> bool" where
  "callee_in n (CHasActivity l b) = (l < n)"
| "callee_in n (CLogError l m) = (l < n)"
| "callee_in n (CNotBoring l) = (l < n)"
| "callee_in n (CDone l b t) = (l < n)"
| "callee_in n (CRecursiveDone l b t) = (l < n)"
| "callee_in n (CDoneAll ds b t) = (\<forall>d \<in> set ds. d < n)"
| "callee_in n (CDetachedDone ds t) = (\<forall>d \<in> set ds. d < n)"
| "callee_in n CRequestFlush = True"
| "callee_in n CFlush = True"

definition runner_ok :: "('h, 'w, 'c, 'm) runtime \<Rightarrow> 'w list \<Rightarrow> (nat \<times> 'h) set \<Rightarrow> ('h, 'w, 'c, 'm) runner \<Rightarrow> bool" where
  "runner_ok rt ws0 V run \<longleftrightarrow>
     (\<forall>c st. good (rt_bases rt) ws0 V st \<longrightarrow> callee_in (length (fe_loggers st)) c \<longrightarrow> outcome UNIV (fine2 rt ws0 V st) (run c st))"

lemma runner_okD: "runner_ok rt ws0 V run \<Longrightarrow> good (rt_bases rt) ws0 V st \<Longrightarrow> callee_in (length (fe_loggers st)) c \<Longrightarrow>
    outcome UNIV (fine2 rt ws0 V st) (run c st)"
  by (simp add: runner_ok_def)

lemma fine_nonempty: "fine rt ws0 V st st' \<Longrightarrow> fe_loggers st' \<noteq> []"
  unfolding fine_def good_def fe_in_def by blast

text \<open>Each body, over calls that are fine.\<close>

lemma fine_hasActivity:
  assumes run: "runner_ok rt ws0 V run" and g: "good (rt_bases rt) ws0 V st" and l: "l < length (fe_loggers st)"
  shows "outcome UNIV (fine2 rt ws0 V st) (hasActivity rt run l b st)"
proof -
  let ?st = "upd_fspan l (\<lambda>x. x\<lparr>sn_knownActive := True\<rparr>) st"
  have st: "fine rt ws0 V st ?st" by (rule fine_upd_field [OF g l]) simp_all
  obtain first st1 where a: "addMyselfAsDependent l ?st = (first, st1)" by (cases "addMyselfAsDependent l ?st")
  have st1: "fine rt ws0 V st st1"
    using fine_trans [OF st fine_addMyself [OF fine_good [OF st] fine_less(1) [OF st l]]] a by simp
  note R = runner_okD [OF run]
  have done': "outcome UNIV (fine2 rt ws0 V x) (let (t, st) = clock_now rt x in run (CDone l False t) st)"
    if "good (rt_bases rt) ws0 V x" "l < length (fe_loggers x)" for x
    using R [of "x\<lparr>fe_tick := Suc (fe_tick x)\<rparr>" "CDone l False (rt_clock rt (fe_tick x))"] that
    by (auto simp: clock_now_eq elim!: outcome_mono)
  have start: "outcome UNIV (fine2 rt ws0 V x)
      (andThen (if sn_doneCount (span_of l x) \<noteq> 0
                then run (CLogError l ''XOP: logger was already done, but was used again'') (x\<lparr>fe_FlushActive := True\<rparr>)
                else ret (x\<lparr>fe_FlushActive := True\<rparr>)) (\<lambda>(_, st). let (t, st) = clock_now rt st in run (CDone l False t) st))"
    if x: "good (rt_bases rt) ws0 V x" "l < length (fe_loggers x)" for x
  proof (rule fine2_andThen(2))
    show "outcome UNIV (fine2 rt ws0 V x)
        (if sn_doneCount (span_of l x) \<noteq> 0
         then run (CLogError l ''XOP: logger was already done, but was used again'') (x\<lparr>fe_FlushActive := True\<rparr>)
         else ret (x\<lparr>fe_FlushActive := True\<rparr>))"
      using x R [of "x\<lparr>fe_FlushActive := True\<rparr>" "CLogError l ''XOP: logger was already done, but was used again''"]
      by (auto simp: fine_def fine2_def simp del: fine_good elim: outcome_mono)
  qed (use done' x in auto)
  have rest: "outcome UNIV (fine2 rt ws0 V st1)
      (andThen (if first then run (CHasActivity (fl_parent (fe_loggers st1 ! l)) False) st1 else ret st1) f)"
    if "\<And>k x. good (rt_bases rt) ws0 V x \<Longrightarrow> l < length (fe_loggers x) \<Longrightarrow> outcome UNIV (fine2 rt ws0 V x) (f (k, x))" for f
  proof (rule fine2_andThen(2))
    show "outcome UNIV (fine2 rt ws0 V st1)
        (if first then run (CHasActivity (fl_parent (fe_loggers st1 ! l)) False) st1 else ret st1)"
      using R [OF fine_good [OF st1]] fine_good [OF st1] fine_less(1) [OF st1 l] by (auto simp: fine_refl)
  qed (use that l st1 in auto)
  show ?thesis
  proof (cases "sn_knownActive (span_of l st)")
    case True
    with st show ?thesis by (simp add: hasActivity_def)
  next
    case False
    then show ?thesis
      by (simp add: hasActivity_def Let_def a split del: if_split, intro fine_from(2) [OF st1] rest)
        (use start in \<open>auto simp: fine_refl Let_def\<close>)
  qed
qed

lemma fine_logError:
  assumes run: "runner_ok rt ws0 V run" and g: "good (rt_bases rt) ws0 V st" and l: "l < length (fe_loggers st)"
  shows "outcome UNIV (fine2 rt ws0 V st) (logError rt run l msg st)"
  unfolding logError_def
proof (rule fine2_andThen(2) [OF runner_okD [OF run g]], simp_all add: l)
  fix x assume x: "fine rt ws0 V st x"
  show "outcome UNIV (fine2 rt ws0 V x) (andThen (logLine rt l ErrorLevel x) (\<lambda>(i, st).
      andThen (line_send rt i (LMsg msg) st) (\<lambda>st. run (CHasActivity (fi_logger (fe_lines st ! i)) True) st)))"
  proof (rule outcome_andThen [OF fine_logLine [OF fine_good [OF x] fine_less(1) [OF x l]]])
    fix p assume "case p of (i, st') \<Rightarrow> fine rt ws0 V x st' \<and> i < length (fe_lines st')"
    then obtain i y where p: "p = (i, y)" and y: "fine rt ws0 V x y" "i < length (fe_lines y)" by (cases p) auto
    have "outcome UNIV (fine2 rt ws0 V y) (andThen (line_send rt i (LMsg msg) y)
        (\<lambda>st. run (CHasActivity (fi_logger (fe_lines st ! i)) True) st))"
    proof (rule fine_andThen(2) [OF fine_line_send])
      fix z assume z: "fine rt ws0 V y z"
      then have "fi_logger (fe_lines z ! i) < length (fe_loggers z)"
        using fe_in_span(4) [OF good_in [OF fine_good [OF z]] fine_less(2) [OF z y(2)]] by simp
      with runner_okD [OF run fine_good [OF z]]
      show "outcome UNIV (fine2 rt ws0 V z) (run (CHasActivity (fi_logger (fe_lines z ! i)) True) z)" by simp
    qed (use y in auto)
    with y(1) p show "outcome UNIV (fine2 rt ws0 V x) (case p of (i, st) \<Rightarrow> andThen (line_send rt i (LMsg msg) st)
        (\<lambda>st. run (CHasActivity (fi_logger (fe_lines st ! i)) True) st))" by (simp add: fine_from(2))
  qed
qed

lemma fine_notBoring:
  assumes run: "runner_ok rt ws0 V run" and g: "good (rt_bases rt) ws0 V st" and l: "l < length (fe_loggers st)"
  shows "outcome UNIV (fine2 rt ws0 V st) (notBoring rt run l st)"
  unfolding notBoring_def
  by (rule fine2_andThen(2) [OF fine_mark_notBoring [OF g l]]) (use l in \<open>auto simp: fine_refl intro: runner_okD [OF run]\<close>)

lemma fine_request_flush:
  assumes run: "runner_ok rt ws0 V run" and g: "good (rt_bases rt) ws0 V st"
  shows "outcome UNIV (fine2 rt ws0 V st) (request_flush run st)"
  unfolding request_flush_def using runner_okD [OF run g, of CFlush] g by (simp add: fine_def del: fine_good)

lemma fine_logger_done:
  assumes run: "runner_ok rt ws0 V run" and g: "good (rt_bases rt) ws0 V st" and l: "l < length (fe_loggers st)"
  shows "outcome UNIV (fine2 rt ws0 V st) (logger_done run l explicit now st)"
  unfolding logger_done_def
proof (rule fine2_andThen(2) [OF runner_okD [OF run g]], simp_all add: l split del: if_split, rule fine2_andThen(2), goal_cases)
  case (1 k x)
  then show ?case using l by (auto simp: fine_refl intro!: runner_okD [OF run])
next
  case (2 k x k' y)
  have y: "good (rt_bases rt) ws0 V y" "l < length (fe_loggers y)" using 2 l by auto
  have flush: "outcome UNIV (fine2 rt ws0 V y) (case p of (flush, st) \<Rightarrow> if flush then run CRequestFlush st else ret st)"
    if "fine rt ws0 V y (snd p)" for p
    using that runner_okD [OF run fine_good [OF that], of CRequestFlush] by (auto intro: fine_from(2) split: prod.splits)
  show ?case
    using flush [OF fine_done_detached [OF y(1)]] flush [OF fine_done_request [OF y(1)]] fine_done_dependent [OF y]
    by (simp add: Let_def)
qed

lemma fine_recursiveDone:
  assumes rt: "rt_ok rt" and run: "runner_ok rt ws0 V run" and g: "good (rt_bases rt) ws0 V st" and l: "l < length (fe_loggers st)"
  shows "outcome UNIV (fine2 rt ws0 V st) (recursiveDone rt run l done now st)"
  unfolding recursiveDone_def
proof (rule fine2_andThen(2) [OF fine_mark_done [OF g l]])
  fix k x assume x: "fine rt ws0 V st x"
  have "callee_in (length (fe_loggers x)) (CDoneAll (rt_deps rt (map snd (sn_activeDependents (span_of l x)))) done now)"
    using rt dependent_in [OF good_in [OF fine_good [OF x]] fine_less(1) [OF x l]] by (auto simp: rt_ok_set)
  from runner_okD [OF run fine_good [OF x] this]
  show "outcome UNIV (fine2 rt ws0 V x) (case (k, x) of (n, st) \<Rightarrow>
      andThen (run (CDoneAll (rt_deps rt (map snd (sn_activeDependents (span_of l st)))) done now) st) (\<lambda>(_, st). Inr (n, st)))"
    by (auto intro!: fine2_andThen(2) simp: fine_refl)
qed

lemma fine_doneAll:
  assumes run: "runner_ok rt ws0 V run" and g: "good (rt_bases rt) ws0 V st" and ds: "\<forall>d \<in> set ds. d < length (fe_loggers st)"
  shows "outcome UNIV (fine2 rt ws0 V st) (doneAll run ds done now st)"
    "outcome UNIV (fine2 rt ws0 V st) (detachedDone run ds now st)"
  using g ds by (auto simp: doneAll_def detachedDone_def fine_refl split: list.splits intro!: fine2_andThen(2) runner_okD [OF run])

lemma fine_Flush:
  assumes rt: "rt_ok rt" and run: "runner_ok rt ws0 V run" and g: "good (rt_bases rt) ws0 V st"
  shows "outcome UNIV (fine2 rt ws0 V st) (Flush rt run st)"
proof -
  let ?st = "st\<lparr>fe_tick := Suc (fe_tick st)\<rparr>" and ?now = "rt_clock rt (fe_tick st)"
  have st: "fine rt ws0 V st ?st" using g by (simp add: fine_refl)
  have d: "callee_in (length (fe_loggers ?st)) (CDetachedDone (rt_deps rt (map snd (fe_ActiveDetached ?st))) ?now)"
    using rt detached_in [OF good_in [OF g]] by (auto simp: rt_ok_set)
  have f: "outcome UNIV (fine2 rt ws0 V x) (andThen (flush_bases rt x) ret)" if "good (rt_bases rt) ws0 V x" for x
    by (rule fine_andThen(2) [OF fine_flush_bases [OF that rt]]) (simp add: fine_refl)
  have "outcome UNIV (fine2 rt ws0 V ?st) (andThen (run (CDetachedDone (rt_deps rt (map snd (fe_ActiveDetached ?st))) ?now) ?st)
      (\<lambda>(_, st). andThen (run (CRecursiveDone 0 False ?now) st) (\<lambda>(_, st). andThen (flush_bases rt st) ret)))"
    by (rule fine2_andThen(2) [OF runner_okD [OF run fine_good [OF st] d]])
      (auto intro!: fine2_andThen(2) runner_okD [OF run] f simp: fine_nonempty)
  then show ?thesis using fine_from(2) [OF st] by (simp add: Flush_def clock_now_eq)
qed

lemma invoke_ok:
  fixes rt :: "('h, 'w, 'c, 'm) runtime"
  shows "rt_ok rt \<Longrightarrow> runner_ok rt ws0 V (invoke rt n)"
proof (induction n)
  case (Suc n)
  note run = Suc.IH [OF Suc.prems]
  show ?case unfolding runner_ok_def
  proof (intro allI impI)
    fix c and st :: "('h, 'w, 'c, 'm) front" assume "good (rt_bases rt) ws0 V st" "callee_in (length (fe_loggers st)) c"
    then show "outcome UNIV (fine2 rt ws0 V st) (invoke rt (Suc n) c st)"
      by (cases c) (simp_all add: body_def fine_hasActivity [OF run] fine_logError [OF run] fine_notBoring [OF run]
          fine_logger_done [OF run] fine_recursiveDone [OF Suc.prems run] fine_doneAll [OF run] fine_request_flush [OF run]
          fine_Flush [OF Suc.prems run])
  qed
qed (simp add: runner_ok_def)

subsection \<open>New loggers\<close>

lemma good_set_prefilled:
  assumes g: "good bs ws0 (V \<union> set p) st" and l: "l < length (fe_loggers st)"
  shows "good bs ws0 V (st\<lparr>fe_loggers := (fe_loggers st)[l := (fe_loggers st ! l)\<lparr>fl_prefilled := p\<rparr>]\<rparr>)"
proof (rule good_update [OF g])
  show "fe_in (st\<lparr>fe_loggers := (fe_loggers st)[l := (fe_loggers st ! l)\<lparr>fl_prefilled := p\<rparr>]\<rparr>)"
    using good_in [OF g] l unfolding fe_in_def by (auto dest!: set_update_subset_insert [THEN subsetD])
  show "fe_handles (st\<lparr>fe_loggers := (fe_loggers st)[l := (fe_loggers st ! l)\<lparr>fl_prefilled := p\<rparr>]\<rparr>)
      \<subseteq> fe_handles st \<union> (V \<union> set p)"
    unfolding fe_handles_def by (auto dest!: set_update_subset_insert [THEN subsetD])
qed auto

lemma good_add_logger:
  assumes g: "good bs ws0 V st" and x: "fl_span x < length (fe_spans st)" "fl_parent x < length (fe_loggers st)"
    "set (fl_prefilled x) \<subseteq> fe_handles st \<union> V"
  shows "good bs ws0 V (st\<lparr>fe_loggers := fe_loggers st @ [x]\<rparr>)"
proof (rule good_update [OF g])
  show "fe_in (st\<lparr>fe_loggers := fe_loggers st @ [x]\<rparr>)"
    using good_in [OF g] x(1,2) unfolding fe_in_def span_in_def by (fastforce simp: less_SucI)
  show "fe_handles (st\<lparr>fe_loggers := fe_loggers st @ [x]\<rparr>) \<subseteq> fe_handles st \<union> V"
    using x(3) unfolding fe_handles_def by auto
qed simp_all

lemma good_add_span:
  assumes g: "good bs ws0 V st" and x: "set (sn_base x) \<subseteq> fe_handles st \<union> V" "sn_activeDependents x = []" "sn_linePool x = []"
  shows "good bs ws0 V (st\<lparr>fe_spans := fe_spans st @ [x]\<rparr>)"
proof (rule good_update [OF g])
  show "fe_in (st\<lparr>fe_spans := fe_spans st @ [x]\<rparr>)"
    using good_in [OF g] x(2,3) unfolding fe_in_def span_in_def by (auto simp: less_SucI)
  show "fe_handles (st\<lparr>fe_spans := fe_spans st @ [x]\<rparr>) \<subseteq> fe_handles st \<union> V"
    using x(1) unfolding fe_handles_def by auto
qed simp_all

lemma fine_sendPrefill:
  assumes g: "good (rt_bases rt) ws0 V st" and l: "l < length (fe_loggers st)"
  shows "outcome UNIV (fine rt ws0 V st) (sendPrefill rt l st)"
proof -
  let ?store = "\<lambda>(p, st). Inr (st\<lparr>fe_loggers := (fe_loggers st)[l := (fe_loggers st ! l)\<lparr>fl_prefilled := p\<rparr>]\<rparr>)"
  have store: "outcome UNIV (fine rt ws0 V st) (?store y)" if "case y of (ks, st') \<Rightarrow> fine rt ws0 (V \<union> set ks) s st'"
    "grows st s" for y s
  proof -
    obtain ks x where y: "y = (ks, x)" and x: "fine rt ws0 (V \<union> set ks) s x" using \<open>case y of (ks, st') \<Rightarrow> _ ks st'\<close> by (cases y) auto
    have "grows st x" using x that(2) unfolding fine_def by (blast intro: grows_trans)
    then have "l < length (fe_loggers x)" using l by (simp add: grows_def)
    from good_set_prefilled [OF fine_good [OF x] this] \<open>grows st x\<close> show ?thesis by (simp add: y fine_def grows_def del: fine_good)
  qed
  have h: "set (sn_base (span_of l st)) \<subseteq> fe_handles st \<union> V" by (rule span_handles [OF g l])
  have plain: "outcome UNIV (fine rt ws0 V st) (andThen (base_create rt NNoPrefill (sn_base (span_of l st)) st) ?store)"
    by (rule outcome_andThen [OF fine_base_create [OF g h]]) (erule store, simp)
  have data: "outcome UNIV (fine rt ws0 V st) (andThen (base_create rt NStartPrefill (sn_base (span_of l st)) st) (\<lambda>(p, st).
        andThen (base_calls rt (as st) p st) (\<lambda>st. andThen (base_create rt (NPrefillComplete msg) p st) ?store)))" for as msg
  proof (rule outcome_andThen [OF fine_base_create [OF g h]])
    fix y assume "case y of (ks, st') \<Rightarrow> fine rt ws0 (V \<union> set ks) st st'"
    then obtain p x where y: "y = (p, x)" and x: "fine rt ws0 (V \<union> set p) st x" by (cases y) auto
    have "outcome UNIV (fine rt ws0 V st) (andThen (base_calls rt (as x) p x) (\<lambda>st. andThen (base_create rt (NPrefillComplete msg) p st) ?store))"
    proof (rule outcome_andThen [OF fine_base_calls [OF fine_good [OF x]]])
      fix z assume z: "fine rt ws0 (V \<union> set p) x z"
      have "grows st z" using x z unfolding fine_def by (blast intro: grows_trans)
      have c: "outcome UNIV (\<lambda>(ks, st'). fine rt ws0 (V \<union> set ks) z st') (base_create rt (NPrefillComplete msg) p z)"
        by (rule outcome_mono [OF fine_base_create [OF fine_good [OF z]]]) (auto intro: fine_mono)
      show "outcome UNIV (fine rt ws0 V st) (andThen (base_create rt (NPrefillComplete msg) p z) ?store)"
        by (rule outcome_andThen [OF c]) (erule store, rule \<open>grows st z\<close>)
    qed auto
    then show "outcome UNIV (fine rt ws0 V st) (case y of (p, st) \<Rightarrow>
        andThen (base_calls rt (as st) p st) (\<lambda>st. andThen (base_create rt (NPrefillComplete msg) p st) ?store))" by (simp add: y)
  qed
  show ?thesis unfolding sendPrefill_def Let_def using plain data by auto
qed

lemma good_set_flushers:
  assumes g: "good bs ws0 V st" and m: "snd ` set m \<subseteq> V \<union> fe_handles st"
  shows "good bs ws0 V (st\<lparr>fe_Flushers := m\<rparr>)"
  by (rule good_update [OF g]) (use good_in [OF g] m in \<open>auto simp: fe_in_def fe_handles_def\<close>)

lemma aput_handles: "snd ` set (aput k v m) \<subseteq> insert v (snd ` set m)"
  using aput_subset [of k v m] by fastforce

lemma fine_add_bases:
  "good (rt_bases rt) ws0 (V \<union> snd ` set m) st \<Longrightarrow>
   outcome UNIV (\<lambda>(m', st'). fine rt ws0 (V \<union> snd ` set m') st st') (add_bases rt x is m st)"
proof (induction "is" arbitrary: m st)
  case Nil
  then show ?case by (simp add: fine_refl)
next
  case (Cons i "is")
  let ?id = "b_ID (rt_bases rt ! i)"
  show ?case
  proof (cases "map_of m ?id \<noteq> None \<or> map_of (fe_Flushers st) ?id \<noteq> None")
    case True
    with Cons.IH [OF Cons.prems] show ?thesis by (auto simp: Let_def)
  next
    case False
    have "outcome UNIV (\<lambda>(m', st'). fine rt ws0 (V \<union> snd ` set m') st st') (andThen (base_request rt x i st) (\<lambda>(h, st).
           andThen (base_call rt ASetErrorReporter [(i, h)] st) (\<lambda>st.
             add_bases rt x is (aput ?id (i, h) m) (st\<lparr>fe_Flushers := aput ?id (i, h) (fe_Flushers st)\<rparr>))))"
    proof (rule outcome_andThen [OF fine_base_request [OF Cons.prems]])
      fix p assume "case p of (h, st') \<Rightarrow> fine rt ws0 (insert (i, h) (V \<union> snd ` set m)) st st'"
      then obtain h y where p: "p = (h, y)" and y: "fine rt ws0 (insert (i, h) (V \<union> snd ` set m)) st y" by (cases p) auto
      have "outcome UNIV (\<lambda>(m', st'). fine rt ws0 (V \<union> snd ` set m') st st') (andThen (base_call rt ASetErrorReporter [(i, h)] y)
          (\<lambda>st. add_bases rt x is (aput ?id (i, h) m) (st\<lparr>fe_Flushers := aput ?id (i, h) (fe_Flushers st)\<rparr>)))"
      proof (rule outcome_andThen [OF fine_base_call [OF fine_good [OF y]]])
        fix z assume z: "fine rt ws0 (insert (i, h) (V \<union> snd ` set m)) y z"
        let ?z = "z\<lparr>fe_Flushers := aput ?id (i, h) (fe_Flushers z)\<rparr>"
        have "snd ` set (aput ?id (i, h) (fe_Flushers z)) \<subseteq> insert (i, h) (V \<union> snd ` set m) \<union> fe_handles z"
          using aput_handles [of ?id "(i, h)" "fe_Flushers z"] unfolding fe_handles_def by auto
        from good_set_flushers [OF fine_good [OF z] this]
        have "good (rt_bases rt) ws0 (V \<union> snd ` set (aput ?id (i, h) m)) ?z"
          by (rule good_mono) (use aput_handles [of ?id "(i, h)" m] in auto)
        from Cons.IH [OF this] show "outcome UNIV (\<lambda>(m', st'). fine rt ws0 (V \<union> snd ` set m') st st')
            (add_bases rt x is (aput ?id (i, h) m) ?z)"
          by (rule outcome_mono) (use y z in \<open>auto simp: fine_def grows_def simp del: fine_good\<close>)
      qed auto
      with p show "outcome UNIV (\<lambda>(m', st'). fine rt ws0 (V \<union> snd ` set m') st st') (case p of (h, st) \<Rightarrow>
           andThen (base_call rt ASetErrorReporter [(i, h)] st) (\<lambda>st.
             add_bases rt x is (aput ?id (i, h) m) (st\<lparr>fe_Flushers := aput ?id (i, h) (fe_Flushers st)\<rparr>)))" by simp
    qed
    with False show ?thesis by (simp add: Let_def)
  qed
qed

lemma set_fold_aput: "snd ` set (fold (\<lambda>p. aput (f p) p) hs m) \<subseteq> set hs \<union> snd ` set m"
proof (induction hs arbitrary: m)
  case (Cons p hs)
  from Cons.IH [of "aput (f p) p m"] aput_handles [of "f p" p m] show ?case by auto
qed simp

lemma set_fold_adel: "set (fold (\<lambda>i. adel (g i)) is m) \<subseteq> set m"
proof (induction "is" arbitrary: m)
  case (Cons i "is")
  from Cons.IH [of "adel (g i) m"] adel_subset [of "g i" m] show ?case by auto
qed simp

lemma set_span_set: "snd ` set (span_set rt hs removed) \<subseteq> set hs"
proof -
  have "snd ` set (span_set rt hs removed) \<subseteq> snd ` set (fold (\<lambda>p. aput (b_ID (rt_bases rt ! fst p)) p) hs [])"
    unfolding span_set_def by (rule image_mono [OF set_fold_adel])
  with set_fold_aput [of "\<lambda>p. b_ID (rt_bases rt ! fst p)" hs "[]"] show ?thesis by simp
qed

lemma fine_adjust_bases:
  assumes rt: "rt_ok rt" and g: "good (rt_bases rt) ws0 (V \<union> set hs) st"
  shows "outcome UNIV (\<lambda>((hs', _), st'). fine rt ws0 (V \<union> set hs') st st') (adjust_bases rt seed now old hs st)"
proof (cases "lg_Added (sd_loggers seed) = [] \<and> lg_Removed (sd_loggers seed) = []")
  case True
  with g show ?thesis by (simp add: adjust_bases_def fine_refl)
next
  case False
  have "good (rt_bases rt) ws0 (V \<union> snd ` set (span_set rt hs (lg_Removed (sd_loggers seed)))) st"
    by (rule good_mono [OF g]) (use set_span_set in blast)
  then have add: "outcome UNIV (\<lambda>(m', st'). fine rt ws0 (V \<union> snd ` set m') st st')
      (add_bases rt x (lg_Added (sd_loggers seed)) (span_set rt hs (lg_Removed (sd_loggers seed))) st)" for x
    by (rule fine_add_bases)
  show ?thesis unfolding adjust_bases_def Let_def if_not_P [OF False]
    by (rule outcome_andThen [OF add]) (use rt in \<open>auto simp: rt_ok_set\<close>)
qed

lemma fine_child_log:
  assumes g: "good (rt_bases rt) ws0 (V \<union> set (sn_base x)) st" and l: "l < length (fe_loggers st)"
    and x: "sn_activeDependents x = []" "sn_linePool x = []"
  shows "outcome UNIV (fine rt ws0 V st) (child_log rt l seed x st)"
proof -
  let ?n = "length (fe_loggers st)"
  let ?lg = "\<lparr>fl_span = length (fe_spans st), fl_parent = l, fl_settings = sd_settings seed, fl_nonSpanSubLog = False, fl_prefilled = []\<rparr>"
  let ?st = "st\<lparr>fe_loggers := fe_loggers st @ [?lg], fe_spans := fe_spans st @ [x]\<rparr>"
  have sp: "good (rt_bases rt) ws0 (V \<union> set (sn_base x)) (st\<lparr>fe_spans := fe_spans st @ [x]\<rparr>)"
    by (rule good_add_span [OF g _ x]) blast
  have "?st = st\<lparr>fe_spans := fe_spans st @ [x], fe_loggers := fe_loggers st @ [?lg]\<rparr>" by simp
  moreover have "good (rt_bases rt) ws0 (V \<union> set (sn_base x)) (st\<lparr>fe_spans := fe_spans st @ [x], fe_loggers := fe_loggers st @ [?lg]\<rparr>)"
    using good_add_logger [OF sp, of ?lg] l by simp
  ultimately have "good (rt_bases rt) ws0 (V \<union> set (sn_base x)) ?st" by (simp only:)
  moreover have "grows st ?st" "?n < length (fe_loggers ?st)" by (simp_all add: grows_def)
  moreover have "set (sn_base x) \<subseteq> fe_handles ?st" by (auto simp: fe_handles_def)
  ultimately have st: "fine rt ws0 V st ?st" "?n < length (fe_loggers ?st)" "set (sn_base x) \<subseteq> fe_handles ?st \<union> V"
    by (auto simp: fine_def simp del: fine_good intro: good_mono)
  have "outcome UNIV (fine rt ws0 V ?st) (andThen (base_call rt (ABoring True) (sn_base x) ?st) (\<lambda>st.
         andThen (sendPrefill rt ?n st) (\<lambda>st. Inr (snd (addMyselfAsDependent ?n st)))))"
  proof (rule fine_andThen(1) [OF fine_base_call [OF fine_good [OF st(1)] st(3)]])
    fix y assume y: "fine rt ws0 V ?st y"
    have n: "?n < length (fe_loggers y)" by (rule fine_less(1) [OF y st(2)])
    show "outcome UNIV (fine rt ws0 V y) (andThen (sendPrefill rt ?n y) (\<lambda>st. Inr (snd (addMyselfAsDependent ?n st))))"
      by (rule fine_andThen(1) [OF fine_sendPrefill [OF fine_good [OF y] n]])
        (simp add: fine_addMyself [OF fine_good fine_less(1) [OF _ n]])
  qed
  from fine_from(1) [OF st(1) this] show ?thesis by (simp add: child_log_def Let_def)
qed

lemma fine_newChildLog:
  assumes rt: "rt_ok rt" and g: "good (rt_bases rt) ws0 V st" and l: "l < length (fe_loggers st)"
  shows "outcome UNIV (fine rt ws0 V st) (newChildLog rt l seed description detached st)"
proof -
  define st1 where "st1 = st\<lparr>fe_tick := Suc (fe_tick st)\<rparr>"
  have st1: "fine rt ws0 V st st1" "l < length (fe_loggers st1)" using g l by (simp_all add: st1_def fine_refl)
  show ?thesis unfolding newChildLog_def Let_def clock_now_eq st1_def [symmetric] prod.case
  proof (rule outcome_andThen [where P = "\<lambda>_. True"], goal_cases)
    case (2 p)
    obtain seed' k where p: "p = (seed', k)" by (cases p)
    define st2 where "st2 = st1\<lparr>fe_rand := k, fe_LogCount := fe_LogCount st1 + 1\<rparr>"
    have st2: "fine rt ws0 V st st2" "l < length (fe_loggers st2)" using st1 by (simp_all add: st2_def fine_def grows_def del: fine_good)
    have h: "set (sn_base (span_of l st1)) \<subseteq> fe_handles st2 \<union> V"
      using span_handles [OF fine_good [OF st1(1)] st1(2)] by (simp add: st2_def fe_handles_def)
    show ?case unfolding p prod.case st2_def [symmetric]
    proof (rule outcome_andThen [OF fine_base_create [OF fine_good [OF st2(1)] h]], clarify,
        rule outcome_andThen [OF fine_adjust_bases [OF rt fine_good]], assumption, clarify)
      fix hs y hs' buffered kept z
      assume y: "fine rt ws0 (V \<union> set hs) st2 y" and z: "fine rt ws0 (V \<union> set hs') y z"
      have z': "fine rt ws0 (V \<union> set hs') st z" by (rule fine_trans [OF st2(1) fine_trans [OF y z]])
      show "outcome UNIV (fine rt ws0 V st) (child_log rt l seed' \<lparr>sn_seed = seed', sn_referencesKept = kept, sn_base = hs',
           sn_linePool = [], sn_boring = 0, sn_buffered = buffered, sn_description = description, sn_stepCounter = 0,
           sn_forkCounter = 0, sn_detached = detached, sn_activeDependents = [], sn_doneCount = 0, sn_knownActive = True,
           sn_logNumber = fe_LogCount st2\<rparr> z)"
      proof (rule fine_from(1) [OF fine_mono [OF z']], blast, rule fine_child_log)
        show "good (rt_bases rt) ws0 (V \<union> set (sn_base \<lparr>sn_seed = seed', sn_referencesKept = kept, sn_base = hs',
           sn_linePool = [], sn_boring = 0, sn_buffered = buffered, sn_description = description, sn_stepCounter = 0,
           sn_forkCounter = 0, sn_detached = detached, sn_activeDependents = [], sn_doneCount = 0, sn_knownActive = True,
           sn_logNumber = fe_LogCount st2\<rparr>)) z" by (simp only: fspan.simps fine_good [OF z'])
      qed (simp_all add: fine_less(1) [OF z' l] del: fine_good)
    qed
  qed (rule outcome_orPanic; simp)
qed

subsection \<open>Every operation\<close>

lemma fine_invoke:
  assumes "rt_ok rt" "good (rt_bases rt) ws0 V st" "callee_in (length (fe_loggers st)) c"
  shows "outcome UNIV (fine rt ws0 V st) (run_unit (invoke rt n c st))"
  by (rule outcome_run_unit, rule outcome_mono [OF runner_okD [OF invoke_ok [OF assms(1)] assms(2,3)]]) (auto simp: fine2_def)

lemma fine_line_add:
  assumes g: "good (rt_bases rt) ws0 V st" and i: "i < length (fe_lines st)"
  shows "outcome UNIV (fine rt ws0 V st) (line_add rt i v st)"
proof (cases "fi_line (fe_lines st ! i)")
  case None
  then show ?thesis using g by (simp add: line_add_def fine_refl Let_def)
next
  case (Some hs)
  have "set hs \<subseteq> fe_handles st \<union> V" using line_handles [OF i Some] by blast
  from fine_base_calls [OF g this] Some show ?thesis by (simp add: line_add_def Let_def)
qed

lemma line_logger_in: "good bs ws0 V st \<Longrightarrow> i < length (fe_lines st) \<Longrightarrow> fi_logger (fe_lines st ! i) < length (fe_loggers st)"
  by (rule fe_in_span(4) [OF good_in])

lemma fine_Line_finish:
  assumes rt: "rt_ok rt" and g: "good (rt_bases rt) ws0 V st" and i: "i < length (fe_lines st)"
  shows "outcome UNIV (fine rt ws0 V st) (Line_finish rt fuel i e st)"
  unfolding Line_finish_def
proof (rule fine_andThen(1) [OF fine_line_send [OF g i]])
  fix x assume x: "fine rt ws0 V st x"
  have "callee_in (length (fe_loggers x)) (CHasActivity (fi_logger (fe_lines x ! i)) True)"
    using line_logger_in [OF fine_good [OF x] fine_less(2) [OF x i]] by simp
  then show "outcome UNIV (fine rt ws0 V x) (run_unit (invoke rt fuel (CHasActivity (fi_logger (fe_lines x ! i)) True) x))"
    by (rule fine_invoke [OF rt fine_good [OF x]])
qed

lemma fine_Logger_Error:
  assumes rt: "rt_ok rt" and g: "good (rt_bases rt) ws0 V st" and l: "l < length (fe_loggers st)"
  shows "outcome UNIV (fine rt ws0 V st) (Logger_Error rt fuel l level st)"
  unfolding Logger_Error_def
proof (rule fine2_andThen(1) [OF runner_okD [OF invoke_ok [OF rt] g]])
  fix k x assume x: "fine rt ws0 V st x"
  show "outcome UNIV (fine rt ws0 V x) (case (k, x) of (_, st) \<Rightarrow> andThen (logLine rt l level st) (\<lambda>(_, st). Inr st))"
    unfolding prod.case
    by (rule outcome_andThen [OF fine_logLine [OF fine_good [OF x] fine_less(1) [OF x l]]]) auto
qed (simp add: l)

lemma fine_Span_metadata:
  assumes rt: "rt_ok rt" and g: "good (rt_bases rt) ws0 V st" and l: "l < length (fe_loggers st)"
  shows "outcome UNIV (fine rt ws0 V st) (Span_metadata rt fuel l k v st)"
  unfolding Span_metadata_def
  by (rule fine_andThen(1) [OF fine_call_span [OF g l]])
    (rule fine_invoke [OF rt fine_good], assumption, simp add: fine_less(1) [OF _ l])

lemma fine_Logger_Boring:
  assumes rt: "rt_ok rt" and g: "good (rt_bases rt) ws0 V st" and l: "l < length (fe_loggers st)"
  shows "outcome UNIV (fine rt ws0 V st) (Logger_Boring rt fuel l st)"
proof -
  have z: "0 < length (fe_loggers st)" by (rule fe_in_span(3) [OF good_in [OF g]])
  have "outcome UNIV (fine rt ws0 V st) (andThen (base_call rt (ABoring True) (sn_base (span_of 0 st)) st)
      (\<lambda>st. run_unit (invoke rt fuel (CHasActivity l True) st)))"
    by (rule fine_andThen(1) [OF fine_call_span [OF g z]])
      (rule fine_invoke [OF rt fine_good], assumption, simp add: fine_less(1) [OF _ l])
  then show ?thesis by (simp add: Logger_Boring_def fine_refl [OF g])
qed

lemma fine_Logger_Done:
  assumes rt: "rt_ok rt" and g: "good (rt_bases rt) ws0 V st" and l: "l < length (fe_loggers st)"
  shows "outcome UNIV (fine rt ws0 V st) (Logger_Done rt fuel l st)"
proof -
  have "fine rt ws0 V st (st\<lparr>fe_tick := Suc (fe_tick st)\<rparr>)" using g by (simp add: fine_refl)
  from fine_from(1) [OF this fine_invoke [OF rt fine_good [OF this]]] show ?thesis
    using l fine_invoke [OF rt g, of "CLogError l ''XOP: invalid call to Done() in non-span sub-logger''" fuel]
    by (simp add: Logger_Done_def clock_now_eq)
qed

lemma fine_Sub_Logger:
  assumes rt: "rt_ok rt" and g: "good (rt_bases rt) ws0 V st" and l: "l < length (fe_loggers st)"
  shows "outcome UNIV (fine rt ws0 V st) (Sub_Logger rt fuel s l st)"
proof -
  let ?n = "length (fe_loggers st)" and ?lg = "(fe_loggers st ! l)\<lparr>fl_settings := s, fl_nonSpanSubLog := True\<rparr>"
  let ?st = "st\<lparr>fe_loggers := fe_loggers st @ [?lg]\<rparr>"
  have "good (rt_bases rt) ws0 V ?st"
    by (rule good_add_logger [OF g]) (use fe_in_span(1,2) [OF good_in [OF g] l] prefilled_handles [OF l] in auto)
  then have st: "fine rt ws0 V st ?st" "?n < length (fe_loggers ?st)" by (simp_all add: fine_def grows_def del: fine_good)
  have "outcome UNIV (fine rt ws0 V ?st) (andThen (sendPrefill rt ?n ?st)
      (\<lambda>st. andThen (invoke rt fuel (CHasActivity ?n False) st) (\<lambda>(_, st). Inr st)))"
    by (rule fine_andThen(1) [OF fine_sendPrefill [OF fine_good [OF st(1)] st(2)]],
        rule fine_invoke [OF rt fine_good, unfolded run_unit_def], assumption)
      (use fine_less(1) [OF _ st(2)] in simp)
  from fine_from(1) [OF st(1) this] show ?thesis by (simp add: Sub_Logger_def Let_def)
qed

lemma fine_Sub_Fork_Step:
  assumes rt: "rt_ok rt" and g: "good (rt_bases rt) ws0 V st" and l: "l < length (fe_loggers st)"
  shows "outcome UNIV (fine rt ws0 V st) (Sub_Fork rt l s detached msg mods st)"
    "outcome UNIV (fine rt ws0 V st) (Sub_Step rt l s detached msg mods st)"
proof -
  have new: "outcome UNIV (fine rt ws0 V st) (newChildLog rt l seed msg detached (upd_fspan l f (st\<lparr>fe_rand := k\<rparr>)))"
    if "\<And>x. sn_base (f x) = sn_base x" "\<And>x. sn_activeDependents (f x) = sn_activeDependents x" "\<And>x. sn_linePool (f x) = sn_linePool x"
    for seed k f
  proof -
    have "fine rt ws0 V (st\<lparr>fe_rand := k\<rparr>) (upd_fspan l f (st\<lparr>fe_rand := k\<rparr>))"
      by (rule fine_upd_field) (use g l that in simp_all)
    then have f: "fine rt ws0 V st (upd_fspan l f (st\<lparr>fe_rand := k\<rparr>))" by (simp add: fine_def del: fine_good)
    show ?thesis by (rule fine_from(1) [OF f fine_newChildLog [OF rt fine_good [OF f]]]) (simp add: l)
  qed
  show "outcome UNIV (fine rt ws0 V st) (Sub_Fork rt l s detached msg mods st)"
    "outcome UNIV (fine rt ws0 V st) (Sub_Step rt l s detached msg mods st)"
    unfolding Sub_Fork_def Sub_Step_def Let_def
    by (rule outcome_andThen [where P = "\<lambda>_. True"], rule outcome_orPanic; auto intro!: new)+
qed

lemma fine_logLine1:
  "good (rt_bases rt) ws0 V st \<Longrightarrow> l < length (fe_loggers st) \<Longrightarrow>
   outcome UNIV (fine rt ws0 V st) (andThen (logLine rt l level st) (\<lambda>(_, st). Inr st))"
  by (rule outcome_andThen, erule (1) fine_logLine) auto

lemma fine_step:
  assumes rt: "rt_ok rt" and g: "good (rt_bases rt) ws0 V st" and x: "op_ok x st"
  shows "outcome UNIV (fine rt ws0 V st) (fe_step rt fuel x st)"
proof (cases x)
  case OTimer
  then show ?thesis using fine_invoke [OF rt g, of CFlush fuel] by (simp add: fine_refl [OF g])
next
  case OAsync
  show ?thesis
  proof (cases "fe_async st")
    case 0
    then show ?thesis by (simp add: OAsync fine_refl [OF g])
  next
    case (Suc k)
    have k: "fine rt ws0 V st (st\<lparr>fe_async := k\<rparr>)" using g by (simp add: fine_def del: fine_good)
    from fine_from(1) [OF k fine_invoke [OF rt fine_good [OF k], of CFlush fuel]] show ?thesis by (simp add: OAsync Suc)
  qed
qed (use x in \<open>simp_all add: fine_logLine1 [OF g] fine_Logger_Error [OF rt g] fine_line_add [OF g] fine_Line_finish [OF rt g]
    Line_Msgf_def fine_refl [OF g] fine_Span_metadata [OF rt g] fine_Sub_Logger [OF rt g] fine_Sub_Fork_Step [OF rt g]
    fine_Logger_Done [OF rt g] fine_Logger_Boring [OF rt g] fine_invoke [OF rt g]\<close>)

lemma fine_fe_run:
  "rt_ok rt \<Longrightarrow> good (rt_bases rt) ws0 V st \<Longrightarrow> outcome UNIV (fine rt ws0 V st) (fe_run rt fuel xs st)"
proof (induction xs arbitrary: st)
  case Nil
  then show ?case by (simp add: fine_refl)
next
  case (Cons x xs)
  show ?case
  proof (cases "op_ok x st")
    case True
    have "outcome UNIV (fine rt ws0 V st) (andThen (fe_step rt fuel x st) (fe_run rt fuel xs))"
      by (rule fine_andThen(1) [OF fine_step [OF Cons.prems True]]) (rule Cons.IH [OF Cons.prems(1) fine_good])
    with True show ?thesis by simp
  qed simp
qed

subsection \<open>The request\<close>

lemma good_start_list:
  "good (rt_bases rt) ws0 (V \<union> snd ` set m) st \<Longrightarrow>
   outcome UNIV (\<lambda>(m', st'). fine rt ws0 (V \<union> snd ` set m') st st') (start_list rt x is m st)"
proof (induction "is" arbitrary: m st)
  case Nil
  then show ?case by (simp add: fine_refl)
next
  case (Cons i "is")
  let ?id = "b_ID (rt_bases rt ! i)"
  show ?case
  proof (cases "map_of m ?id \<noteq> None")
    case True
    with Cons.IH [OF Cons.prems] show ?thesis by auto
  next
    case False
    have "outcome UNIV (\<lambda>(m', st'). fine rt ws0 (V \<union> snd ` set m') st st') (andThen (base_request rt x i st)
        (\<lambda>(h, st). start_list rt x is (aput ?id (i, h) m) st))"
    proof (rule outcome_andThen [OF fine_base_request [OF Cons.prems]], clarify)
      fix h y assume y: "fine rt ws0 (insert (i, h) (V \<union> snd ` set m)) st y"
      have "good (rt_bases rt) ws0 (V \<union> snd ` set (aput ?id (i, h) m)) y"
        by (rule good_mono [OF fine_good [OF y]]) (use aput_handles [of ?id "(i, h)" m] in auto)
      from Cons.IH [OF this] show "outcome UNIV (\<lambda>(m', st'). fine rt ws0 (V \<union> snd ` set m') st st') (start_list rt x is (aput ?id (i, h) m) y)"
        by (rule outcome_mono) (use fine_trans [OF y] in auto)
    qed
    with False show ?thesis by simp
  qed
qed

lemma span_in_base: "span_in a b (x\<lparr>sn_base := h\<rparr>) = span_in a b x"
  by (simp add: span_in_def)

lemma seed_request_good:
  assumes "length ws = length (rt_bases rt)"
  shows "outcome UNIV (good (rt_bases rt) ws {}) (seed_request rt seed description now k ws)"
  unfolding seed_request_def Let_def
proof (rule outcome_andThen [OF good_start_list [where V = "{}" and ?ws0.0 = ws]], goal_cases)
  case 1
  show ?case
    using valid_start [OF assms] by (simp add: good_def fe_in_def fe_handles_def span_in_def)
next
  case (2 p)
  then obtain m y where p: "p = (m, y)" and y: "good (rt_bases rt) ws (snd ` set m) y" by (cases p) auto
  let ?y = "upd_fspan 0 (\<lambda>x. x\<lparr>sn_base := map snd m\<rparr>) (y\<lparr>fe_Flushers := m\<rparr>)"
  have f: "good (rt_bases rt) ws (snd ` set m) (y\<lparr>fe_Flushers := m\<rparr>)" by (rule good_set_flushers [OF y]) simp
  have n: "0 < length (fe_loggers y)" by (rule fe_in_span(3) [OF good_in [OF y]])
  have g: "good (rt_bases rt) ws (snd ` set m) ?y"
  proof (rule good_update [OF f])
    note z = in_upd_fspan [OF _ fe_in_span(1) [OF good_in [OF f]], of _ 0 "\<lambda>x. x\<lparr>sn_base := map snd m\<rparr>"]
    have s: "span_of 0 (y\<lparr>fe_Flushers := m\<rparr>) \<in> set (fe_spans y)"
      using span_of_in [OF good_in [OF f]] n by simp
    have "span_in (length (fe_loggers y)) (length (fe_lines y)) (span_of 0 (y\<lparr>fe_Flushers := m\<rparr>))"
      using s good_in [OF f] by (simp add: fe_in_def)
    then show "fe_in ?y"
      using good_in [OF f] n unfolding fe_in_def by (auto simp: span_in_base length_upd_fspan simp del: upd_fspan_simps(12) dest!: z)
    show "fe_handles ?y \<subseteq> fe_handles (y\<lparr>fe_Flushers := m\<rparr>) \<union> snd ` set m"
      using n unfolding fe_handles_def by (auto simp del: upd_fspan_simps(12) dest!: z)
  qed simp_all
  show ?case unfolding p prod.case
  proof (rule outcome_mono [where P = "fine rt ws {} ?y"], rule fine_andThen(1))
    show "outcome UNIV (fine rt ws {} ?y) (base_call rt ASetErrorReporter (map snd m) ?y)"
      by (rule fine_base_call [OF good_empty [OF g]]) (auto simp: fe_handles_def)
  qed (auto intro!: fine_sendPrefill fine_good simp: fine_less(1) n fine_nonempty)
qed

lemma Seed_Request_good:
  assumes "length ws = length (rt_bases rt)"
  shows "outcome UNIV (good (rt_bases rt) ws {}) (Seed_Request rt seed description k ws)"
    "outcome UNIV (good (rt_bases rt) ws {}) (Seed_SubSpan rt seed description k ws)"
  unfolding Seed_Request_def Seed_SubSpan_def
  by (rule outcome_andThen [where P = "\<lambda>_. True"], rule outcome_orPanic; auto intro: seed_request_good [OF assms])+

lemma good_exec:
  assumes "good bs ws V st" "i < length bs"
  shows "\<exists>cs env. exec (bs ! i) cs (ws ! i, []) = Some (fe_ws st ! i, env)"
  using assms unfolding good_def valid_def by blast

lemma front_end_exec:
  assumes rt: "rt_ok rt" "length ws = length (rt_bases rt)"
    and start: "Seed_Request rt seed description k ws = Inr st0 \<or> Seed_SubSpan rt seed description k ws = Inr st0"
    and run: "fe_run rt fuel ops st0 = Inr st" and i: "i < length ws"
  shows "\<exists>cs env. exec (rt_bases rt ! i) cs (ws ! i, []) = Some (fe_ws st ! i, env)"
proof -
  have "good (rt_bases rt) ws {} st0"
    using start Seed_Request_good [OF rt(2), of seed description k] by (auto dest: outcome_Inr)
  from outcome_Inr [OF fine_fe_run [OF rt(1) this] run] have "good (rt_bases rt) ws {} st" by (rule fine_good)
  then show ?thesis by (rule good_exec) (use i rt(2) in simp)
qed

end
