(* ===== verification/FrontReturns.thy ===== *)
theory FrontReturns
  imports FrontTerm FrontRecorder
begin

section \<open>Every operation returns\<close>

text \<open>
  With the fuel of \<open>fe_fuel\<close>, which is a number of the spans only, no operation of the front end
  runs out of it, from the start of a request on, as long as the request's own logger has no
  \<open>Sub().Logger()\<close>. That one does not return is shown as well: a sub-logger of the request that is
  used after a flush recurses without end.
\<close>

definition fe_fuel :: "nat \<Rightarrow> nat" where
  "fe_fuel n = 2 * (n * (2 * n + 20)) + 3 * n + 20"

lemma fe_fuel_mono: "m \<le> n \<Longrightarrow> fe_fuel m \<le> fe_fuel n"
  unfolding fe_fuel_def by (intro add_mono mult_mono) simp_all

lemma fuel_enough: "done_fuel st l + 8 \<le> fe_fuel (length (fe_spans st))" "flush_fuel st + 1 \<le> fe_fuel (length (fe_spans st))"
proof -
  have "height st l * unit_fuel st \<le> length (fe_spans st) * unit_fuel st" by (rule mult_le_mono1) (simp add: height_def)
  moreover have "fe_fuel (length (fe_spans st)) = 2 * (length (fe_spans st) * unit_fuel st) + 3 * length (fe_spans st) + 20"
    by (simp add: fe_fuel_def unit_fuel_def)
  ultimately show "done_fuel st l + 8 \<le> fe_fuel (length (fe_spans st))" "flush_fuel st + 1 \<le> fe_fuel (length (fe_spans st))"
    unfolding done_fuel_def rec_fuel_def flush_fuel_def by (cases "top st l"; simp only: if_True if_False; linarith)+
qed

definition wide :: "nat \<Rightarrow> ('h, 'w, 'c, 'm) front \<Rightarrow> bool" where
  "wide fuel st \<longleftrightarrow> tree st \<and> fe_fuel (length (fe_spans st)) \<le> fuel"

lemma wide_steady: "wide fuel st \<Longrightarrow> steady A st st' \<Longrightarrow> wide fuel st'"
  unfolding wide_def by (simp add: steady_tree)

lemma wide_tree: "wide fuel st \<Longrightarrow> tree st"
  by (simp add: wide_def)

lemma out_invoke:
  assumes rt: "rt_ok rt" and w: "wide fuel st"
    and c: "c \<in> {CHasActivity l b, CNotBoring l, CLogError l m, CDone l True t}" and l: "l < length (fe_loggers st)"
  shows "outcome {Panicked} (\<lambda>(k, st'). steady {} st st') (invoke rt fuel c st)"
proof -
  have "fl_span (fe_loggers st ! l) + 1 \<le> fuel" "done_fuel st l + 8 \<le> fuel"
    using w tree_frame(4) [OF wide_tree [OF w] l] rec_fuel_spans [OF wide_tree [OF w] l] fuel_enough(1) [of st l]
    by (simp_all add: wide_def done_fuel_def)
  with c l have "fits fuel c st" by (auto simp: done_fuel_def)
  from out_call [OF invoke_returns [OF rt] wide_tree [OF w] this] show ?thesis .
qed

lemma out_invoke_flush:
  assumes rt: "rt_ok rt" and w: "wide fuel st"
  shows "outcome {Panicked} (\<lambda>(k, st'). steady {} st st') (invoke rt fuel CFlush st)"
  using out_call [OF invoke_returns [OF rt] wide_tree [OF w], of fuel CFlush] fuel_enough(2) [of st] w by (simp add: wide_def)

subsection \<open>Operations on what there is\<close>

lemma out_unit: "outcome E (\<lambda>(k, st'). Q st') r \<Longrightarrow> outcome E Q (run_unit r)"
  by (rule outcome_run_unit) (auto elim: outcome_mono)

lemma out_seq:
  assumes "outcome {Panicked} (steady A st) r" "\<And>x. steady A st x \<Longrightarrow> outcome {Panicked} (steady A x) (f x)"
  shows "outcome {Panicked} (steady A st) (andThen r f)"
  by (rule outcome_andThen [OF assms(1)], rule outcome_mono [OF assms(2)]) (auto intro: steady_trans)

lemma out_activity:
  "rt_ok rt \<Longrightarrow> wide fuel st \<Longrightarrow> l < length (fe_loggers st) \<Longrightarrow> outcome {Panicked} (steady {} st) (run_unit (invoke rt fuel (CHasActivity l b) st))"
  by (rule out_unit, rule out_invoke) auto

lemma out_Line_finish:
  assumes rt: "rt_ok rt" and w: "wide fuel st" and i: "i < length (fe_lines st)"
  shows "outcome {Panicked} (steady {} st) (Line_finish rt fuel i e st)"
  unfolding Line_finish_def
proof (rule outcome_andThen [OF out_line_send [OF wide_tree [OF w] i]], elim conjE)
  fix x assume x: "steady UNIV st x" "fe_lines x = fe_lines st"
  have "fi_logger (fe_lines x ! i) < length (fe_loggers x)" using line_logger [OF steady_tree(1) [OF x(1)], of i] i x(2) by simp
  from out_activity [OF rt wide_steady [OF w x(1)] this]
  show "outcome {Panicked} (steady {} st) (run_unit (invoke rt fuel (CHasActivity (fi_logger (fe_lines x ! i)) True) x))"
    by (rule outcome_mono) (rule steady_trans [OF steady_mono [OF x(1) empty_subsetI]])
qed

lemma out_line_add: "tree st \<Longrightarrow> outcome {Panicked} (steady {} st) (line_add rt i v st)"
  unfolding line_add_def Let_def
  by (auto split: option.splits intro!: outcome_base_calls intro: steady_refl steady_trans [OF _ steady_other [OF steady_tree(1)]])

lemma out_logLine1: "tree st \<Longrightarrow> l < length (fe_loggers st) \<Longrightarrow>
    outcome {Panicked} (steady {} st) (andThen (logLine rt l level st) (\<lambda>(_, st). Inr st))"
  by (rule outcome_andThen, erule (1) out_logLine) (auto intro: steady_mono)

lemma out_Logger_Error:
  assumes rt: "rt_ok rt" and w: "wide fuel st" and l: "l < length (fe_loggers st)"
  shows "outcome {Panicked} (steady {} st) (Logger_Error rt fuel l level st)"
  unfolding Logger_Error_def
proof (rule outcome_andThen)
  show "outcome {Panicked} (\<lambda>(k, st'). steady {} st st') (invoke rt fuel (CNotBoring l) st)"
    by (rule out_invoke [OF rt w _ l]) simp
  fix p assume "case p of (k, st') \<Rightarrow> steady {} st st'"
  then obtain k x where p: "p = (k, x)" and x: "steady {} st x" by (cases p) auto
  show "outcome {Panicked} (steady {} st) (case p of (_, st) \<Rightarrow> andThen (logLine rt l level st) (\<lambda>(_, st). Inr st))"
    unfolding p prod.case by (rule outcome_mono [OF out_logLine1 [OF steady_tree(1) [OF x]]]) (use l steady_trans [OF x] in \<open>auto simp: steady_less [OF x]\<close>)
qed

lemma out_Span_metadata:
  assumes rt: "rt_ok rt" and w: "wide fuel st" and l: "l < length (fe_loggers st)"
  shows "outcome {Panicked} (steady {} st) (Span_metadata rt fuel l k v st)"
  unfolding Span_metadata_def
  by (rule out_seq [OF out_base_call [OF wide_tree [OF w]]])
    (use l in \<open>auto intro!: out_activity [OF rt] wide_steady [OF w] simp: steady_less\<close>)

lemma out_Logger_Boring:
  assumes rt: "rt_ok rt" and w: "wide fuel st" and l: "l < length (fe_loggers st)"
  shows "outcome {Panicked} (steady {} st) (Logger_Boring rt fuel l st)"
  unfolding Logger_Boring_def using wide_tree [OF w]
  by (auto simp: steady_refl intro!: out_seq [OF out_base_call [OF wide_tree [OF w]]])
    (use l in \<open>auto intro!: out_activity [OF rt] wide_steady [OF w] simp: steady_less\<close>)

lemma out_Logger_Done:
  assumes rt: "rt_ok rt" and w: "wide fuel st" and l: "l < length (fe_loggers st)"
  shows "outcome {Panicked} (steady {} st) (Logger_Done rt fuel l st)"
proof -
  let ?st = "st\<lparr>fe_tick := Suc (fe_tick st)\<rparr>"
  have st: "steady {} st ?st" by (rule steady_other [OF wide_tree [OF w]]) simp_all
  have "outcome {Panicked} (\<lambda>(k, st'). steady {} ?st st') (invoke rt fuel (CDone l True t) ?st)" for t
    by (rule out_invoke [OF rt wide_steady [OF w st]]) (use l in auto)
  from out_from [OF st this] out_invoke [OF rt w _ l, of "CLogError l ''XOP: invalid call to Done() in non-span sub-logger''"]
  show ?thesis by (auto simp: Logger_Done_def clock_now_eq intro!: out_unit)
qed

subsection \<open>New loggers\<close>

lemma out_base_calls: "tree st \<Longrightarrow> outcome {Panicked} (steady {} st) (base_calls rt as hs st)"
  by (rule outcome_base_calls) (auto intro: steady_refl steady_trans [OF _ steady_other [OF steady_tree(1)]])

text \<open>A step that may store objects in the loggers.\<close>

definition stored :: "('h, 'w, 'c, 'm) front \<Rightarrow> ('h, 'w, 'c, 'm) front \<Rightarrow> bool" where
  "stored st st' \<longleftrightarrow> tree st' \<and> length (fe_spans st') = length (fe_spans st) \<and> length (fe_loggers st') = length (fe_loggers st)"

lemma steady_stored: "steady A st st' \<Longrightarrow> stored st st'"
  by (simp add: stored_def steady_tree)

lemma stored_trans: "stored st st' \<Longrightarrow> stored st' st'' \<Longrightarrow> stored st st''"
  by (simp add: stored_def)

lemma stored_prefilled:
  assumes "tree st"
  shows "stored st (st\<lparr>fe_loggers := (fe_loggers st)[l := (fe_loggers st ! l)\<lparr>fl_prefilled := p\<rparr>]\<rparr>)"
proof -
  let ?ls = "(fe_loggers st)[l := (fe_loggers st ! l)\<lparr>fl_prefilled := p\<rparr>]"
  have "fl_span (?ls ! j) = fl_span (fe_loggers st ! j) \<and> fl_parent (?ls ! j) = fl_parent (fe_loggers st ! j)"
    if "j < length (fe_loggers st)" for j using that by (cases "j = l") simp_all
  then have "tree (st\<lparr>fe_loggers := ?ls\<rparr>)" by (intro tree_loggers [OF assms]) auto
  then show ?thesis by (simp add: stored_def)
qed

lemma out_sendPrefill:
  assumes t: "tree st"
  shows "outcome {Panicked} (stored st) (sendPrefill rt l st)"
proof -
  let ?store = "\<lambda>(p, st). Inr (st\<lparr>fe_loggers := (fe_loggers st)[l := (fe_loggers st ! l)\<lparr>fl_prefilled := p\<rparr>]\<rparr>)"
  have create: "outcome {Panicked} (\<lambda>(ks, st'). steady {} s st') (base_create rt x hs s)" if "tree s" for x hs s
    by (rule outcome_mono [OF out_base_create [OF that]]) auto
  have last: "outcome {Panicked} (stored st) (andThen (base_create rt x hs s) ?store)" if "steady {} st s" for x hs s
    by (rule outcome_andThen [OF create [OF steady_tree(1) [OF that]]])
      (auto intro: stored_trans [OF stored_trans [OF steady_stored [OF that] steady_stored] stored_prefilled [OF steady_tree(1)]])
  have data: "outcome {Panicked} (stored st) (andThen (base_create rt x hs st) (\<lambda>(p, st).
        andThen (base_calls rt (as st) p st) (\<lambda>st. andThen (base_create rt y p st) ?store)))" for x y hs as
  proof (rule outcome_andThen [OF create [OF t]], clarify)
    fix p s assume s: "steady {} st s"
    show "outcome {Panicked} (stored st) (andThen (base_calls rt (as s) p s) (\<lambda>st. andThen (base_create rt y p st) ?store))"
      by (rule outcome_andThen [OF out_base_calls [OF steady_tree(1) [OF s]]]) (rule last, erule steady_trans [OF s])
  qed
  show ?thesis unfolding sendPrefill_def Let_def using last [OF steady_refl [OF t]] data by auto
qed

definition grown :: "('h, 'w, 'c, 'm) front \<Rightarrow> ('h, 'w, 'c, 'm) front \<Rightarrow> bool" where
  "grown st st' \<longleftrightarrow> tree st' \<and> length (fe_spans st') \<le> Suc (length (fe_spans st))"

lemma steady_grown: "steady A st st' \<Longrightarrow> grown st st'"
  by (simp add: grown_def steady_tree)

lemma out_Sub_Logger:
  assumes rt: "rt_ok rt" and w: "wide fuel st" and l: "l < length (fe_loggers st)" and root: "l \<noteq> 0"
  shows "outcome {Panicked} (grown st) (Sub_Logger rt fuel s l st)"
proof -
  let ?n = "length (fe_loggers st)" and ?lg = "(fe_loggers st ! l)\<lparr>fl_settings := s, fl_nonSpanSubLog := True\<rparr>"
  let ?st = "st\<lparr>fe_loggers := fe_loggers st @ [?lg]\<rparr>"
  have t: "tree ?st"
    by (rule tree_loggers [OF wide_tree [OF w]])
      (use tree_frame(4,5,6) [OF wide_tree [OF w] l] root in \<open>auto simp: nth_append less_Suc_eq\<close>)
  have "outcome {Panicked} (grown st) (andThen (sendPrefill rt ?n ?st)
      (\<lambda>st. andThen (invoke rt fuel (CHasActivity ?n False) st) (\<lambda>(_, st). Inr st)))"
  proof (rule outcome_andThen [OF out_sendPrefill [OF t]])
    fix x assume x: "stored ?st x"
    then have wx: "wide fuel x" using w by (simp add: stored_def wide_def)
    have n: "?n < length (fe_loggers x)" using x by (simp add: stored_def)
    have "outcome {Panicked} (\<lambda>(k, st'). steady {} x st') (invoke rt fuel (CHasActivity ?n False) x)"
      by (rule out_invoke [where b = False, OF rt wx _ n]) simp
    then show "outcome {Panicked} (grown st) (andThen (invoke rt fuel (CHasActivity ?n False) x) (\<lambda>(_, st). Inr st))"
      by (rule outcome_andThen) (use x in \<open>auto simp: grown_def stored_def steady_tree\<close>)
  qed
  then show ?thesis by (simp add: Sub_Logger_def Let_def)
qed

lemma out_add_bases: "tree st \<Longrightarrow> outcome {Panicked} (\<lambda>(m', st'). steady {} st st') (add_bases rt x is m st)"
proof (induction "is" arbitrary: m st)
  case (Cons i "is")
  let ?id = "b_ID (rt_bases rt ! i)"
  have req: "outcome {Panicked} (\<lambda>(h, st'). steady {} st st') (base_request rt x i st)"
    by (rule outcome_base_request) (auto intro: steady_other [OF Cons.prems])
  have "outcome {Panicked} (\<lambda>(m', st'). steady {} st st') (andThen (base_request rt x i st) (\<lambda>(h, st).
      andThen (base_call rt ASetErrorReporter [(i, h)] st) (\<lambda>st.
        add_bases rt x is (aput ?id (i, h) m) (st\<lparr>fe_Flushers := aput ?id (i, h) (fe_Flushers st)\<rparr>))))"
  proof (rule outcome_andThen [OF req], clarify)
    fix h y assume y: "steady {} st y"
    show "outcome {Panicked} (\<lambda>(m', st'). steady {} st st') (andThen (base_call rt ASetErrorReporter [(i, h)] y) (\<lambda>st.
        add_bases rt x is (aput ?id (i, h) m) (st\<lparr>fe_Flushers := aput ?id (i, h) (fe_Flushers st)\<rparr>)))"
    proof (rule outcome_andThen [OF out_base_call [where A = "{}", OF steady_tree(1) [OF y]]])
      fix z assume z: "steady {} y z"
      let ?z = "z\<lparr>fe_Flushers := aput ?id (i, h) (fe_Flushers z)\<rparr>"
      have z': "steady {} st ?z"
        by (rule steady_trans [OF y steady_trans [OF z steady_other [OF steady_tree(1) [OF z]]]]) simp_all
      from out_from [OF z' Cons.IH [OF steady_tree(1) [OF z']]]
      show "outcome {Panicked} (\<lambda>(m', st'). steady {} st st') (add_bases rt x is (aput ?id (i, h) m) ?z)" .
    qed
  qed
  with Cons.IH [OF Cons.prems] show ?case by (auto simp: Let_def)
qed (simp add: steady_refl)

lemma out_adjust_bases: "tree st \<Longrightarrow> outcome {Panicked} (\<lambda>(_, st'). steady {} st st') (adjust_bases rt seed now old hs st)"
  unfolding adjust_bases_def Let_def
  by (auto simp: steady_refl intro!: outcome_andThen [OF out_add_bases])

lemma out_child_log:
  assumes t: "tree st" and l: "l < length (fe_loggers st)" and x: "sn_activeDependents x = []" "sn_linePool x = []"
  shows "outcome {Panicked} (grown st) (child_log rt l seed x st)"
proof -
  let ?n = "length (fe_loggers st)" and ?lg = "\<lparr>fl_span = length (fe_spans st), fl_parent = l, fl_settings = sd_settings seed,
      fl_nonSpanSubLog = False, fl_prefilled = []\<rparr>"
  let ?sp = "st\<lparr>fe_spans := fe_spans st @ [x]\<rparr>"
  let ?st = "?sp\<lparr>fe_loggers := fe_loggers ?sp @ [?lg]\<rparr>"
  have tst: "tree ?st"
    by (rule tree_loggers [OF tree_new_span [OF t x]])
      (use tree_frame(4) [OF t l] l in \<open>auto simp: nth_append less_Suc_eq\<close>)
  have "outcome {Panicked} (grown st) (andThen (base_call rt (ABoring True) (sn_base x) ?st) (\<lambda>st.
      andThen (sendPrefill rt ?n st) (\<lambda>st. Inr (snd (addMyselfAsDependent ?n st)))))"
  proof (rule outcome_andThen [OF out_base_call [where A = "{}", OF tst]])
    fix y assume y: "steady {} ?st y"
    show "outcome {Panicked} (grown st) (andThen (sendPrefill rt ?n y) (\<lambda>st. Inr (snd (addMyselfAsDependent ?n st))))"
    proof (rule outcome_andThen [OF out_sendPrefill [OF steady_tree(1) [OF y]]])
      fix z assume z: "stored y z"
      have n: "?n < length (fe_loggers z)" "tree z" "length (fe_spans z) = Suc (length (fe_spans st))"
        using z steady_tree [OF y] by (simp_all add: stored_def)
      from steady_tree [OF steady_addMyself [OF n(2,1)]] n
      show "outcome {Panicked} (grown st) (Inr (snd (addMyselfAsDependent ?n z)))" by (simp add: grown_def)
    qed
  qed
  moreover have "?st = st\<lparr>fe_loggers := fe_loggers st @ [?lg], fe_spans := fe_spans st @ [x]\<rparr>" by simp
  ultimately show ?thesis by (simp only: child_log_def Let_def)
qed

lemma out_newChildLog:
  assumes t: "tree st" and l: "l < length (fe_loggers st)"
  shows "outcome {Panicked} (grown st) (newChildLog rt l seed description detached st)"
proof -
  define st1 where "st1 = st\<lparr>fe_tick := Suc (fe_tick st)\<rparr>"
  have st1: "steady {} st st1" unfolding st1_def by (rule steady_other [OF t]) simp_all
  show ?thesis unfolding newChildLog_def Let_def clock_now_eq st1_def [symmetric] prod.case
  proof (rule outcome_andThen [where P = "\<lambda>_. True"], goal_cases)
    case (2 p)
    obtain seed' k where p: "p = (seed', k)" by (cases p)
    define st2 where "st2 = st1\<lparr>fe_rand := k, fe_LogCount := fe_LogCount st1 + 1\<rparr>"
    have st2: "steady {} st st2" unfolding st2_def
      by (rule steady_trans [OF st1 steady_other [OF steady_tree(1) [OF st1]]]) simp_all
    show ?case unfolding p prod.case st2_def [symmetric]
    proof (rule outcome_andThen [OF out_base_create [where A = "{}", OF steady_tree(1) [OF st2]]], clarify,
        rule outcome_andThen [OF out_adjust_bases [OF steady_tree(1)]], assumption, clarify)
      fix hs y hs' buffered kept z
      assume y: "steady {} st2 y" and z: "steady {} y z"
      have sz: "steady {} st z" by (rule steady_trans [OF st2 steady_trans [OF y z]])
      have "outcome {Panicked} (grown z) (child_log rt l seed' x z)" if "sn_activeDependents x = []" "sn_linePool x = []" for x
        by (rule out_child_log [OF steady_tree(1) [OF sz] _ that]) (simp add: l steady_less [OF sz])
      then have "outcome {Panicked} (grown z) (child_log rt l seed' \<lparr>sn_seed = seed', sn_referencesKept = kept, sn_base = hs',
           sn_linePool = [], sn_boring = 0, sn_buffered = buffered, sn_description = description, sn_stepCounter = 0,
           sn_forkCounter = 0, sn_detached = detached, sn_activeDependents = [], sn_doneCount = 0, sn_knownActive = True,
           sn_logNumber = fe_LogCount st2\<rparr> z)" by simp
      then show "outcome {Panicked} (grown st) (child_log rt l seed' \<lparr>sn_seed = seed', sn_referencesKept = kept, sn_base = hs',
           sn_linePool = [], sn_boring = 0, sn_buffered = buffered, sn_description = description, sn_stepCounter = 0,
           sn_forkCounter = 0, sn_detached = detached, sn_activeDependents = [], sn_doneCount = 0, sn_knownActive = True,
           sn_logNumber = fe_LogCount st2\<rparr> z)"
        by (rule outcome_mono) (simp add: grown_def steady_tree [OF sz])
    qed
  qed (rule outcome_orPanic; simp)
qed

lemma out_Sub_Fork_Step:
  assumes t: "tree st" and l: "l < length (fe_loggers st)"
  shows "outcome {Panicked} (grown st) (Sub_Fork rt l s detached msg mods st)"
    "outcome {Panicked} (grown st) (Sub_Step rt l s detached msg mods st)"
proof -
  have new: "outcome {Panicked} (grown st) (newChildLog rt l seed msg detached (upd_fspan l f (st\<lparr>fe_rand := k\<rparr>)))"
    if "\<And>y. sn_detached (f y) = sn_detached y" "\<And>y. sn_logNumber (f y) = sn_logNumber y"
      "\<And>y. sn_activeDependents (f y) = sn_activeDependents y" "\<And>y. sn_linePool (f y) = sn_linePool y" for seed k f
  proof -
    have k: "steady {} st (st\<lparr>fe_rand := k\<rparr>)" by (rule steady_other [OF t]) simp_all
    have "steady {} (st\<lparr>fe_rand := k\<rparr>) (upd_fspan l f (st\<lparr>fe_rand := k\<rparr>))"
      by (rule steady_upd_field [OF steady_tree(1) [OF k]]) (use l that in auto)
    then have f: "steady {} st (upd_fspan l f (st\<lparr>fe_rand := k\<rparr>))" by (rule steady_trans [OF k])
    show ?thesis
      by (rule outcome_mono [OF out_newChildLog [OF steady_tree(1) [OF f]]])
        (use l steady_tree(3) [OF f] in \<open>auto simp: grown_def\<close>)
  qed
  show "outcome {Panicked} (grown st) (Sub_Fork rt l s detached msg mods st)"
    "outcome {Panicked} (grown st) (Sub_Step rt l s detached msg mods st)"
    unfolding Sub_Fork_def Sub_Step_def Let_def
    by (rule outcome_andThen [where P = "\<lambda>_. True"], rule outcome_orPanic; auto intro!: new)+
qed

subsection \<open>Runs\<close>

lemma out_grown: "outcome {Panicked} (steady {} st) r \<Longrightarrow> outcome {Panicked} (grown st) r"
  by (erule outcome_mono) (rule steady_grown)

lemma out_step:
  assumes rt: "rt_ok rt" and w: "wide fuel st" and x: "op_ok x st" and root: "\<And>s. x \<noteq> OLogger 0 s"
  shows "outcome {Panicked} (grown st) (fe_step rt fuel x st)"
proof (cases x)
  case OTimer
  then show ?thesis using out_grown [OF out_unit [OF out_invoke_flush [OF rt w]]] w by (simp add: grown_def wide_def)
next
  case OAsync
  have "outcome {Panicked} (grown st) (run_unit (invoke rt fuel CFlush (st\<lparr>fe_async := k\<rparr>)))" for k
  proof -
    have k: "steady {} st (st\<lparr>fe_async := k\<rparr>)" by (rule steady_other [OF wide_tree [OF w]]) simp_all
    from out_from [OF k out_invoke_flush [OF rt wide_steady [OF w k]]] show ?thesis by (intro out_grown out_unit)
  qed
  with OAsync show ?thesis using w by (auto simp: grown_def wide_def split: nat.splits)
next
  case OFlush
  with out_grown [OF out_unit [OF out_invoke_flush [OF rt w]]] show ?thesis by simp
next
  case (OLogger l s)
  then show ?thesis using out_Sub_Logger [OF rt w] x root by auto
next
  case (OMsgf i m)
  then show ?thesis using out_Line_finish [OF rt w] x w by (auto simp: Line_Msgf_def grown_def wide_def intro: out_grown)
qed (use x in \<open>simp_all add: out_grown out_logLine1 out_Logger_Error [OF rt w] out_line_add out_Line_finish [OF rt w]
    out_Span_metadata [OF rt w] out_Sub_Fork_Step out_Logger_Done [OF rt w] out_Logger_Boring [OF rt w] wide_tree [OF w]\<close>)

lemma out_fe_run:
  assumes rt: "rt_ok rt"
  shows "tree st \<Longrightarrow> fe_fuel (length (fe_spans st) + length xs) \<le> fuel \<Longrightarrow> (\<And>s. OLogger 0 s \<notin> set xs) \<Longrightarrow>
    outcome {Panicked} tree (fe_run rt fuel xs st)"
proof (induction xs arbitrary: st)
  case (Cons x xs)
  show ?case
  proof (cases "op_ok x st")
    case True
    have "wide fuel st"
      using Cons.prems(1,2) fe_fuel_mono [of "length (fe_spans st)" "length (fe_spans st) + length (x # xs)"] by (simp add: wide_def)
    moreover have "x \<noteq> OLogger 0 s" for s using Cons.prems(3) [of s] by auto
    ultimately have "outcome {Panicked} (grown st) (fe_step rt fuel x st)" by (rule out_step [OF rt _ True])
    then have "outcome {Panicked} tree (andThen (fe_step rt fuel x st) (fe_run rt fuel xs))"
    proof (rule outcome_andThen)
      fix y assume y: "grown st y"
      have "fe_fuel (length (fe_spans y) + length xs) \<le> fuel"
        using y Cons.prems(2) fe_fuel_mono [of "length (fe_spans y) + length xs" "length (fe_spans st) + length (x # xs)"]
        by (simp add: grown_def)
      then show "outcome {Panicked} tree (fe_run rt fuel xs y)"
        using y Cons.prems(3) by (intro Cons.IH) (auto simp: grown_def)
    qed
    with True show ?thesis by simp
  qed simp
qed simp

lemma out_start_list: "tree st \<Longrightarrow> outcome {Panicked} (\<lambda>(m', st'). steady {} st st') (start_list rt x is m st)"
proof (induction "is" arbitrary: m st)
  case (Cons i "is")
  have req: "outcome {Panicked} (\<lambda>(h, st'). steady {} st st') (base_request rt x i st)"
    by (rule outcome_base_request) (auto intro: steady_other [OF Cons.prems])
  have "outcome {Panicked} (\<lambda>(m', st'). steady {} st st') (andThen (base_request rt x i st)
      (\<lambda>(h, st). start_list rt x is (aput (b_ID (rt_bases rt ! i)) (i, h) m) st))"
  proof (rule outcome_andThen [OF req], clarify)
    fix h y assume y: "steady {} st y"
    from out_from [OF y Cons.IH [OF steady_tree(1) [OF y]]]
    show "outcome {Panicked} (\<lambda>(m', st'). steady {} st st') (start_list rt x is (aput (b_ID (rt_bases rt ! i)) (i, h) m) y)" .
  qed
  with Cons.IH [OF Cons.prems] show ?case by auto
qed (simp add: steady_refl)

lemma out_seed_request:
  "outcome {Panicked} (\<lambda>st. tree st \<and> length (fe_spans st) = 1) (seed_request rt seed description now k ws)"
  unfolding seed_request_def Let_def
proof (rule outcome_andThen [OF out_start_list], goal_cases)
  case 1
  show ?case by (simp add: tree_def frame_def shape_def span_tree_def)
next
  case (2 p)
  then obtain m y where p: "p = (m, y)" and t: "tree y" and one: "length (fe_spans y) = 1" by (cases p) (auto simp: steady_tree)
  have z: "0 < length (fe_loggers y)" using tree_frame(1) [OF t] by simp
  have f: "steady {} y (y\<lparr>fe_Flushers := m\<rparr>)" by (rule steady_other [OF t]) simp_all
  have "steady {} (y\<lparr>fe_Flushers := m\<rparr>) (upd_fspan 0 (\<lambda>x. x\<lparr>sn_base := map snd m\<rparr>) (y\<lparr>fe_Flushers := m\<rparr>))"
    by (rule steady_upd_field [OF steady_tree(1) [OF f]]) (use z in auto)
  then have u: "steady {} y (upd_fspan 0 (\<lambda>x. x\<lparr>sn_base := map snd m\<rparr>) (y\<lparr>fe_Flushers := m\<rparr>))" by (rule steady_trans [OF f])
  show ?case unfolding p prod.case
    by (rule outcome_andThen [OF out_base_call [where A = "{}", OF steady_tree(1) [OF u]]], rule outcome_mono [OF out_sendPrefill])
      (use one steady_tree(3) [OF u] in \<open>auto simp: stored_def steady_tree\<close>)
qed

lemma Seed_Request_tree:
  assumes "Seed_Request rt seed description k ws = Inr st \<or> Seed_SubSpan rt seed description k ws = Inr st"
  shows "tree st" "length (fe_spans st) = 1"
proof -
  have "outcome {Panicked} (\<lambda>st. tree st \<and> length (fe_spans st) = 1) (Seed_Request rt seed description k ws)"
    "outcome {Panicked} (\<lambda>st. tree st \<and> length (fe_spans st) = 1) (Seed_SubSpan rt seed description k ws)"
    unfolding Seed_Request_def Seed_SubSpan_def
    by (rule outcome_andThen [where P = "\<lambda>_. True"], rule outcome_orPanic, simp, simp, clarify, rule out_seed_request)+
  with assms show "tree st" "length (fe_spans st) = 1" by (auto dest: outcome_Inr)
qed

text \<open>
  C2. The front end terminates. When the request's own logger has no \<open>Sub().Logger()\<close>, every sequence
  of operations on its loggers returns or panics: fuel that is a polynomial in the number of
  operations is enough, whatever the base loggers do.
\<close>

theorem front_end_terminates:
  assumes "rt_ok rt" "Seed_Request rt seed description k ws = Inr st0 \<or> Seed_SubSpan rt seed description k ws = Inr st0"
    and "\<forall>s. OLogger 0 s \<notin> set ops" and "fe_fuel (1 + length ops) \<le> fuel"
  shows "fe_run rt fuel ops st0 \<noteq> Inl OutOfFuel"
  using out_fe_run [OF assms(1) Seed_Request_tree(1) [OF assms(2)], of ops fuel] Seed_Request_tree(2) [OF assms(2)] assms(3,4)
  by auto

theorem front_end_terminates_witness:
  "\<exists>st0 st. Seed_Request demo_rt demo_request_seed ''req'' 0 demo_ws = Inr st0 \<and> fe_run demo_rt (fe_fuel 6) demo_ops st0 \<noteq> Inl OutOfFuel"
proof -
  obtain st0 where st: "Seed_Request demo_rt demo_request_seed ''req'' 0 demo_ws = Inr st0"
    using demo_runs by (auto simp: andThen_Inr split: sum.splits)
  have "\<forall>s. OLogger 0 s \<notin> set demo_ops" "fe_fuel (1 + length demo_ops) \<le> fe_fuel 6"
    by (simp add: demo_ops_def, rule fe_fuel_mono) (simp add: demo_ops_def)
  from front_end_terminates [OF demo_rt_ok disjI1 [OF st] this] st show ?thesis by blast
qed

subsection \<open>A sub-logger of the request\<close>

text \<open>The request's span has a sub-logger of the request as its only dependent.\<close>

definition looped :: "('h, 'w, 'c, 'm) runtime \<Rightarrow> nat \<Rightarrow> ('h, 'w, 'c, 'm) front \<Rightarrow> bool" where
  "looped rt l st \<longleftrightarrow> fe_spans st \<noteq> [] \<and> fl_span (fe_loggers st ! l) = 0 \<and>
     (\<exists>k. sn_activeDependents (fe_spans st ! 0) = [(k, l)]) \<and>
     (\<forall>(i, h) \<in> set (sn_base (fe_spans st ! 0)). i < length (fe_ws st) \<and> (\<forall>t w. b_do (rt_bases rt ! i) (ADone t True) h w \<noteq> None))"

lemma each_total: "(\<And>i h w. (i, h) \<in> set hs \<Longrightarrow> i < length ws \<and> f i h w \<noteq> None) \<Longrightarrow>
    \<exists>ws'. each f hs ws = Some ws' \<and> length ws' = length ws"
proof (induction hs arbitrary: ws)
  case (Cons p hs)
  obtain i h where p: "p = (i, h)" by (cases p)
  from Cons.prems [of i h "ws ! i"] obtain w where w: "i < length ws" "f i h (ws ! i) = Some w" by (auto simp: p)
  have "\<exists>ws'. each f hs (ws[i := w]) = Some ws' \<and> length ws' = length (ws[i := w])"
    by (rule Cons.IH) (use Cons.prems in auto)
  with w show ?case by (simp add: p)
qed simp

lemma looped_mark_done:
  assumes "looped rt l st"
  shows "\<exists>k st'. mark_done rt l True now st = Inr (k, st') \<and> looped rt l st'"
proof -
  let ?f = "\<lambda>x. x\<lparr>sn_knownActive := False, sn_doneCount := sn_doneCount x + 1\<rparr>"
  let ?st = "upd_fspan l ?f st\<lparr>fe_tick := Suc (fe_tick st)\<rparr>"
  have s: "fl_span (fe_loggers st ! l) = 0" "fe_spans st \<noteq> []" using assms by (simp_all add: looped_def)
  have "\<exists>ws'. each (\<lambda>i h w. b_do (rt_bases rt ! i) (ADone (rt_clock rt (fe_tick st)) True) h w) (sn_base (fe_spans st ! 0)) (fe_ws st) = Some ws' \<and>
      length ws' = length (fe_ws st)"
    by (rule each_total) (use assms in \<open>auto simp: looped_def\<close>)
  then obtain ws' where "each (\<lambda>i h w. b_do (rt_bases rt ! i) (ADone (rt_clock rt (fe_tick st)) True) h w) (sn_base (fe_spans st ! 0)) (fe_ws st) = Some ws'"
    "length ws' = length (fe_ws st)" by blast
  with assms s show ?thesis
    by (auto simp: mark_done_def clock_now_eq base_call_def orPanic_def span_of_def looped_def)
qed

lemma looped_OutOfFuel:
  assumes rt: "rt_ok rt"
  shows "looped rt l st \<Longrightarrow> invoke rt n (CDone l b now) st = Inl OutOfFuel"
proof (induction n arbitrary: st b now rule: less_induct)
  case (less n)
  have rec: "invoke rt m (CRecursiveDone l True now) st = Inl OutOfFuel" if "Suc m \<le> n" for m
  proof (cases m)
    case (Suc j)
    from looped_mark_done [OF less.prems, of now] obtain k st' where st': "mark_done rt l True now st = Inr (k, st')" "looped rt l st'" by blast
    from st'(2) obtain key where "sn_activeDependents (span_of l st') = [(key, l)]" by (auto simp: looped_def span_of_def)
    moreover have "rt_deps rt [l] = [l]" using rt unfolding rt_ok_def by (metis mset_single_iff_right mset.simps add_mset_eq_single)
    moreover have "invoke rt j (CDoneAll [l] True now) st' = Inl OutOfFuel"
    proof (cases j)
      case (Suc i)
      have "invoke rt i (CDone l True now) st' = Inl OutOfFuel" by (rule less.IH) (use st'(2) Suc that \<open>m = Suc j\<close> in auto)
      then show ?thesis by (simp add: Suc body_def doneAll_def)
    qed simp
    ultimately show ?thesis by (simp add: Suc body_def recursiveDone_def st'(1))
  qed simp
  show ?case
  proof (cases n)
    case (Suc m)
    with rec [of m] show ?thesis by (simp add: body_def logger_done_def)
  qed simp
qed

text \<open>
  C10. \<open>Sub().Logger()\<close> of a request and a flush do not go together. Once a request was flushed, and
  nothing has happened on it since, the first activity through a sub-logger of its own makes that
  logger a dependent of the span it shares with the request, and then recurses over it without end:
  no fuel is enough, in a state where every call on a base logger succeeds.
\<close>

theorem request_sublogger_diverges:
  assumes rt: "rt_ok rt"
    and l: "l \<noteq> 0" "fl_span (fe_loggers st ! l) = 0" "fl_parent (fe_loggers st ! l) = 0"
    and root: "fl_span (fe_loggers st ! 0) = 0" "fe_spans st \<noteq> []"
    and idle: "\<not> sn_knownActive (fe_spans st ! 0)" "sn_activeDependents (fe_spans st ! 0) = []"
      "\<not> sn_detached (fe_spans st ! 0)" "sn_doneCount (fe_spans st ! 0) = 0"
    and base: "\<forall>(i, h) \<in> set (sn_base (fe_spans st ! 0)). i < length (fe_ws st) \<and> (\<forall>t w. b_do (rt_bases rt ! i) (ADone t True) h w \<noteq> None)"
  shows "invoke rt fuel (CHasActivity l True) st = Inl OutOfFuel"
proof (cases fuel)
  case (Suc n)
  let ?y = "(fe_spans st ! 0)\<lparr>sn_activeDependents := [(sn_logNumber (fe_spans st ! 0), l)], sn_knownActive := True\<rparr>"
  let ?st = "st\<lparr>fe_spans := (fe_spans st)[0 := ?y]\<rparr>"
  have c: "x\<lparr>sn_knownActive := True, sn_activeDependents := d\<rparr> = x\<lparr>sn_activeDependents := d, sn_knownActive := True\<rparr>"
    for x :: "('a, 'c, 'd) fspan" and d by simp
  have a: "addMyselfAsDependent l (upd_fspan l (\<lambda>x. x\<lparr>sn_knownActive := True\<rparr>) st) = (True, ?st)"
    using l root idle by (simp add: addMyselfAsDependent_def Let_def span_of_def upd_fspan_def c)
  have "looped rt l (?st\<lparr>fe_FlushActive := True, fe_tick := Suc (fe_tick st)\<rparr>)"
    using l root base by (auto simp: looped_def)
  note D = looped_OutOfFuel [OF rt this]
  show ?thesis
  proof (cases n)
    case 0
    then show ?thesis using a idle l by (simp add: Suc body_def hasActivity_def span_of_def)
  next
    case (Suc m)
    have "invoke rt n (CHasActivity 0 False) ?st = Inr (0, ?st)"
      using root by (simp add: Suc body_def hasActivity_def span_of_def upd_fspan_def ret_def)
    then show ?thesis using a idle l root D by (simp add: \<open>fuel = Suc n\<close> body_def hasActivity_def span_of_def clock_now_eq ret_def)
  qed
qed simp

definition demo_sub_ops :: "(nat, int) fe_op list" where
  "demo_sub_ops = [OLogger 0 [], OFlush]"

theorem request_sublogger_diverges_witness:
  "\<exists>st0 st. Seed_Request demo_rt demo_request_seed ''req'' 0 demo_ws = Inr st0 \<and> fe_run demo_rt 9 demo_sub_ops st0 = Inr st \<and>
     (\<forall>fuel. invoke demo_rt fuel (CHasActivity 1 True) st = Inl OutOfFuel)"
proof -
  have "case andThen (Seed_Request demo_rt demo_request_seed ''req'' 0 demo_ws) (fe_run demo_rt 9 demo_sub_ops) of
      Inl _ \<Rightarrow> False | Inr st \<Rightarrow> fl_span (fe_loggers st ! 1) = 0 \<and> fl_parent (fe_loggers st ! 1) = 0 \<and> fl_span (fe_loggers st ! 0) = 0 \<and>
        length (fe_spans st) = 1 \<and> \<not> sn_knownActive (fe_spans st ! 0) \<and> sn_activeDependents (fe_spans st ! 0) = [] \<and>
        \<not> sn_detached (fe_spans st ! 0) \<and> sn_doneCount (fe_spans st ! 0) = 0 \<and> length (fe_ws st) = 2 \<and>
        sn_base (fe_spans st ! 0) = [(0, HSpan 0), (1, HSpan 0)]"
    by code_simp
  then obtain st0 st where run: "Seed_Request demo_rt demo_request_seed ''req'' 0 demo_ws = Inr st0" "fe_run demo_rt 9 demo_sub_ops st0 = Inr st"
    and st: "fl_span (fe_loggers st ! 1) = 0" "fl_parent (fe_loggers st ! 1) = 0" "fl_span (fe_loggers st ! 0) = 0"
        "length (fe_spans st) = 1" "\<not> sn_knownActive (fe_spans st ! 0)" "sn_activeDependents (fe_spans st ! 0) = []"
        "\<not> sn_detached (fe_spans st ! 0)" "sn_doneCount (fe_spans st ! 0) = 0" "length (fe_ws st) = 2"
        "sn_base (fe_spans st ! 0) = [(0, HSpan 0), (1, HSpan 0)]"
    by (auto simp: andThen_Inr split: sum.splits)
  have b: "\<forall>(i, h) \<in> set (sn_base (fe_spans st ! 0)). i < length (fe_ws st) \<and> (\<forall>t w. b_do (rt_bases demo_rt ! i) (ADone t True) h w \<noteq> None)"
    using st(9,10) by (simp add: demo_rt_def recorder_base_def)
  have "fe_spans st \<noteq> []" using st(4) by auto
  from request_sublogger_diverges [OF demo_rt_ok _ st(1,2,3) this st(5-8) b] run show ?thesis by auto
qed

end
