(* ===== verification/AttributeJSON.thy ===== *)
theory AttributeJSON
  imports Attributes
begin

section \<open>Definitions of attributes as JSON, and back\<close>

text \<open>
  Models the reader of definitions in \<open>xoputil/replayutil/attribute.go\<close> and relates it to the
  writer \<open>jsonAttributeDefinition\<close> of the theory \<open>Attributes\<close>.
\<close>

subsection \<open>Reading definitions back\<close>

record DecodeAttributeDefinition =
  dd_Make :: Make
  dd_AttributeType :: int
  dd_SpanID :: string

definition zeroDecode :: DecodeAttributeDefinition where
  "zeroDecode = \<lparr>dd_Make = zeroMake, dd_AttributeType = 0, dd_SpanID = []\<rparr>"

definition set_dd_Make :: "(Make \<Rightarrow> Make) \<Rightarrow> DecodeAttributeDefinition \<Rightarrow> DecodeAttributeDefinition" where
  "set_dd_Make g d = d\<lparr>dd_Make := g (dd_Make d)\<rparr>"

text \<open>
  One field of \<open>json.Unmarshal\<close> into the struct, by the names of its tags; a value of the wrong
  type is an error, a field that the struct does not have is skipped.
\<close>

definition decodeField ::
    "string \<times> jval \<Rightarrow> DecodeAttributeDefinition \<Rightarrow> DecodeAttributeDefinition option" where
  "decodeField f d =
     (let (k, v) = f;
          str = (\<lambda>g. case v of JString s \<Rightarrow> Some (set_dd_Make (g s) d) | _ \<Rightarrow> None);
          bool = (\<lambda>g. case v of JBool b \<Rightarrow> Some (set_dd_Make (g b) d) | _ \<Rightarrow> None) in
      if k = ''key'' then str (\<lambda>s m. m\<lparr>mk_Key := s\<rparr>)
      else if k = ''desc'' then str (\<lambda>s m. m\<lparr>mk_Description := s\<rparr>)
      else if k = ''ns'' then str (\<lambda>s m. m\<lparr>mk_Namespace := s\<rparr>)
      else if k = ''indexed'' then bool (\<lambda>b m. m\<lparr>mk_Indexed := b\<rparr>)
      else if k = ''prom'' then
        (case v of JInt i \<Rightarrow> Some (set_dd_Make (\<lambda>m. m\<lparr>mk_Prominence := i\<rparr>) d) | _ \<Rightarrow> None)
      else if k = ''mult'' then bool (\<lambda>b m. m\<lparr>mk_Multiple := b\<rparr>)
      else if k = ''distinct'' then bool (\<lambda>b m. m\<lparr>mk_Distinct := b\<rparr>)
      else if k = ''ranged'' then bool (\<lambda>b m. m\<lparr>mk_Ranged := b\<rparr>)
      else if k = ''locked'' then bool (\<lambda>b m. m\<lparr>mk_Locked := b\<rparr>)
      else if k = ''vtype'' then
        (case AttributeType_UnmarshalJSON (valText v) (dd_AttributeType d) of
           Some (t, False) \<Rightarrow> Some (d\<lparr>dd_AttributeType := t\<rparr>)
         | _ \<Rightarrow> None)
      else if k = ''span.id'' then
        (case v of JString s \<Rightarrow> Some (d\<lparr>dd_SpanID := s\<rparr>) | _ \<Rightarrow> None)
      else Some d)"

fun decodeFields :: "(string \<times> jval) list \<Rightarrow> DecodeAttributeDefinition \<Rightarrow> DecodeAttributeDefinition option" where
  "decodeFields [] d = Some d"
| "decodeFields (f # fs) d = (case decodeField f d of None \<Rightarrow> None | Some d \<Rightarrow> decodeFields fs d)"

definition unmarshalDefinition :: "string \<Rightarrow> DecodeAttributeDefinition option" where
  "unmarshalDefinition inputText =
     (case readObject inputText of
        Some (fs, r) \<Rightarrow> if list_all isJSONSpace r then decodeFields fs zeroDecode else None
      | None \<Rightarrow> None)"

record GlobalAttributeDefinitions =
  gd_CommonDefinitions :: "(string \<times> DecodeAttributeDefinition) list"
  gd_Requests :: "(string \<times> (string \<times> DecodeAttributeDefinition) list) list"

definition NewGlobalAttributeDefinitions :: GlobalAttributeDefinitions where
  "NewGlobalAttributeDefinitions = \<lparr>gd_CommonDefinitions = [], gd_Requests = []\<rparr>"

definition NewRequestAttributeDefinitions ::
    "string \<Rightarrow> GlobalAttributeDefinitions \<Rightarrow> GlobalAttributeDefinitions" where
  "NewRequestAttributeDefinitions requestID g = g\<lparr>gd_Requests := aput requestID [] (gd_Requests g)\<rparr>"

text \<open>\<open>Decode\<close>: the definitions and whether there was an error.\<close>

definition Decode :: "string \<Rightarrow> GlobalAttributeDefinitions \<Rightarrow> GlobalAttributeDefinitions \<times> bool" where
  "Decode inputText g =
     (case unmarshalDefinition inputText of
        None \<Rightarrow> (g, True)
      | Some aDef \<Rightarrow>
          let key = mk_Key (dd_Make aDef) in
          if dd_SpanID aDef \<noteq> [] then
            (case map_of (gd_Requests g) (dd_SpanID aDef) of
               None \<Rightarrow> (g, True)
             | Some r \<Rightarrow> (g\<lparr>gd_Requests := aput (dd_SpanID aDef) (aput key aDef r) (gd_Requests g)\<rparr>, False))
          else (g\<lparr>gd_CommonDefinitions := aput key aDef (gd_CommonDefinitions g)\<rparr>, False))"

definition Lookup :: "string \<Rightarrow> string \<Rightarrow> GlobalAttributeDefinitions \<Rightarrow> DecodeAttributeDefinition option" where
  "Lookup requestID key g =
     (case map_of (gd_Requests g) requestID of
        None \<Rightarrow> None
      | Some r \<Rightarrow> (case map_of r key of Some d \<Rightarrow> Some d | None \<Rightarrow> map_of (gd_CommonDefinitions g) key))"

subsection \<open>A definition's JSON text is an object\<close>

definition definitionFields :: "Attribute \<Rightarrow> (string \<times> jval) list" where
  "definitionFields k =
     (let p = at_properties k in
      [(''type'', JString ''defineKey''), (''key'', JString (at_key k)),
       (''desc'', JString (mk_Description p)),
       (''ns'', JString (at_namespace k @ '' '' @ at_version k))] @
      (if mk_Indexed p then [(''indexed'', JBool True)] else []) @
      [(''prom'', JInt (sint (word_of_int (mk_Prominence p) :: i32)))] @
      (if mk_Multiple p then (''mult'', JBool True) # (if mk_Distinct p then [(''distinct'', JBool True)] else [])
       else if mk_Locked p then [(''locked'', JBool True)] else []) @
      [(''vtype'', JString (AttributeType_String (at_subType k)))] @
      (if mk_Ranged p then [(''ranged'', JBool True)] else []))"

lemma escapedBody_plain: "list_all (\<lambda>c. escapeSeq c = None) s \<Longrightarrow> escapedBody s = s"
proof -
  assume a: "list_all (\<lambda>c. escapeSeq c = None) s"
  moreover have "\<not> escapes c" if "escapeSeq c = None" for c
    using escapes_escapeSeq [of c] that by blast
  ultimately have "\<not> list_ex escapes s" by (auto simp: list_all_iff list_ex_iff)
  then show ?thesis by (simp add: escapedBody_def)
qed

lemma escapedBody_safe:
  assumes "jsonSafe s"
  shows "escapedBody s = concat (map escapeByte s)"
proof (cases "list_ex escapes s")
  case False
  have "escapeByte c = [c]" if "c \<in> set s" for c
  proof -
    have "\<not> escapes c" "(0x20 :: nat) \<le> of_char c"
      using that False assms by (auto simp: jsonSafe_def list_ex_iff)
    then have "escapeSeq c = None" using escapes_escapeSeq [of c] by auto
    then show ?thesis by (simp add: escapeByte_def)
  qed
  then have "concat (map escapeByte s) = s" by (induction s) auto
  with False show ?thesis by (simp add: escapedBody_def)
qed (simp add: escapedBody_def)

lemma jsonSafe_append: "jsonSafe s \<Longrightarrow> jsonSafe t \<Longrightarrow> jsonSafe (s @ t)"
  by (auto simp: jsonSafe_def)

lemma jsonSafe_space: "jsonSafe '' ''"
  by (simp add: jsonSafe_def)

lemma escapedBody_append:
  "jsonSafe s \<Longrightarrow> jsonSafe t \<Longrightarrow> escapedBody (s @ t) = escapedBody s @ escapedBody t"
  by (simp add: escapedBody_safe jsonSafe_append)

lemma escapedBody_ns:
  "jsonSafe s \<Longrightarrow> jsonSafe t \<Longrightarrow> escapedBody (s @ CHR '' '' # t) = escapedBody s @ CHR '' '' # escapedBody t"
  using escapedBody_append [of s "'' '' @ t"] escapedBody_append [OF jsonSafe_space, of t]
    jsonSafe_append [OF jsonSafe_space, of t] escapedBody_plain [of "'' ''"]
  by (simp add: escapeSeq_def)

lemma plain_names:
  "escapedBody ''type'' = ''type''" "escapedBody ''defineKey'' = ''defineKey''"
  "escapedBody ''key'' = ''key''" "escapedBody ''desc'' = ''desc''" "escapedBody ''ns'' = ''ns''"
  "escapedBody ''indexed'' = ''indexed''" "escapedBody ''prom'' = ''prom''"
  "escapedBody ''mult'' = ''mult''" "escapedBody ''distinct'' = ''distinct''"
  "escapedBody ''locked'' = ''locked''" "escapedBody ''vtype'' = ''vtype''" "escapedBody ''ranged'' = ''ranged''"
  by (rule escapedBody_plain, simp add: escapeSeq_def)+

lemma AttributeType_String_plain:
  assumes "t \<in> set (map fst AttributeType_name)"
  shows "escapedBody (AttributeType_String t) = AttributeType_String t \<and> jsonSafe (AttributeType_String t)"
proof -
  have "list_all (\<lambda>(t, s). list_all (\<lambda>c. isWordChar c) s) AttributeType_name" by code_simp
  moreover obtain s where s: "mapLiteral AttributeType_name t = Some s"
    using assms mapLiteral_distinct [OF distinct_ints(1)] by fastforce
  ultimately have "list_all isWordChar (AttributeType_String t)"
    using mapLiteral_distinct [OF distinct_ints(1)] by (fastforce simp: AttributeType_String_def list_all_iff)
  moreover have "escapeSeq c = None" if "isWordChar c" for c
  proof (rule ccontr)
    assume "escapeSeq c \<noteq> None"
    then obtain e where "escapeSeq c = Some e" by auto
    from escapeSeq_cases [OF this] that show False by (auto simp: isWordChar_def)
  qed
  moreover have "(0x20 :: nat) \<le> of_char c" if "isWordChar c" for c
    using that unfolding isWordChar_def Let_def by linarith
  ultimately show ?thesis
    by (auto simp: jsonSafe_def list_all_iff intro!: escapedBody_plain)
qed

definition attribute_safe :: "Attribute \<Rightarrow> bool" where
  "attribute_safe k \<longleftrightarrow> jsonSafe (at_key k) \<and> jsonSafe (mk_Description (at_properties k)) \<and>
     jsonSafe (at_namespace k) \<and> jsonSafe (at_version k) \<and> at_subType k \<in> set (map fst AttributeType_name)"

lemma q_texts:
  "q ''{`type`:`defineKey`,`key`:'' = ''{'' @ [CHR 0x22] @ ''type'' @ [CHR 0x22] @ '':'' @ [CHR 0x22] @ ''defineKey'' @ [CHR 0x22] @ '','' @ [CHR 0x22] @ ''key'' @ [CHR 0x22] @ '':''"
  "q '',`desc`:`'' = '','' @ [CHR 0x22] @ ''desc'' @ [CHR 0x22] @ '':'' @ [CHR 0x22]"
  "q ''`,`ns`:`'' = [CHR 0x22] @ '','' @ [CHR 0x22] @ ''ns'' @ [CHR 0x22] @ '':'' @ [CHR 0x22]"
  "q ''`,`indexed`:true,`prom`:'' = [CHR 0x22] @ '','' @ [CHR 0x22] @ ''indexed'' @ [CHR 0x22] @ '':true,'' @ [CHR 0x22] @ ''prom'' @ [CHR 0x22] @ '':''"
  "q ''`,`prom`:'' = [CHR 0x22] @ '','' @ [CHR 0x22] @ ''prom'' @ [CHR 0x22] @ '':''"
  "q '',`mult`:true,`distinct`:true,`vtype`:'' = '','' @ [CHR 0x22] @ ''mult'' @ [CHR 0x22] @ '':true,'' @ [CHR 0x22] @ ''distinct'' @ [CHR 0x22] @ '':true,'' @ [CHR 0x22] @ ''vtype'' @ [CHR 0x22] @ '':''"
  "q '',`mult`:true,`vtype`:'' = '','' @ [CHR 0x22] @ ''mult'' @ [CHR 0x22] @ '':true,'' @ [CHR 0x22] @ ''vtype'' @ [CHR 0x22] @ '':''"
  "q '',`locked`:true,`vtype`:'' = '','' @ [CHR 0x22] @ ''locked'' @ [CHR 0x22] @ '':true,'' @ [CHR 0x22] @ ''vtype'' @ [CHR 0x22] @ '':''"
  "q '',`vtype`:'' = '','' @ [CHR 0x22] @ ''vtype'' @ [CHR 0x22] @ '':''"
  "q '',`ranged`:true'' = '','' @ [CHR 0x22] @ ''ranged'' @ [CHR 0x22] @ '':true''"
  by (simp_all add: q_def)

lemma jsonAttributeDefinition_object:
  assumes "attribute_safe k"
  shows "jsonAttributeDefinition k = objectText (definitionFields k) @ [CHR 0x0A]"
proof -
  have safe: "jsonSafe (at_namespace k)" "jsonSafe (at_version k)"
    "escapedBody (AttributeType_String (at_subType k)) = AttributeType_String (at_subType k)"
    using assms AttributeType_String_plain by (auto simp: attribute_safe_def)
  show ?thesis
    unfolding jsonAttributeDefinition_def definitionFields_def Let_def
    by (cases "mk_Indexed (at_properties k)"; cases "mk_Multiple (at_properties k)";
        cases "mk_Distinct (at_properties k)"; cases "mk_Locked (at_properties k)";
        cases "mk_Ranged (at_properties k)";
        simp only: if_True if_False append.simps;
        simp add: AppendBytes_def AppendByte_def AddStringBody_eq AddInt32_def AddSafeString_def
          AppendString_def K_JSON_def emptyJB_def q_texts objectText_def fieldText_def plain_names
          escapedBody_ns safe)
qed

lemma AttributeType_decode:
  assumes "t \<in> set (map fst AttributeType_name)"
  shows "AttributeType_UnmarshalJSON (CHR 0x22 # AttributeType_String t @ [CHR 0x22]) x = Some (t, False)"
proof -
  obtain s where "mapLiteral AttributeType_name t = Some s"
    using assms mapLiteral_distinct [OF distinct_ints(1)] by fastforce
  then have "nameBytes AttributeType_name t = Some (CHR 0x22 # AttributeType_String t @ [CHR 0x22])"
    by (simp add: nameBytes_def AttributeType_String_def)
  from unmarshal_name [OF AttributeType_table this] show ?thesis
    by (simp add: AttributeType_UnmarshalJSON_def AttributeType_value_def)
qed

definition decodedDefinition :: "Attribute \<Rightarrow> DecodeAttributeDefinition" where
  "decodedDefinition k =
     (let p = at_properties k in
      \<lparr>dd_Make = \<lparr>mk_Key = at_key k, mk_Description = mk_Description p,
         mk_Namespace = at_namespace k @ '' '' @ at_version k, mk_Indexed = mk_Indexed p,
         mk_Prominence = sint (word_of_int (mk_Prominence p) :: i32), mk_Multiple = mk_Multiple p,
         mk_Distinct = (mk_Multiple p \<and> mk_Distinct p), mk_Ranged = mk_Ranged p,
         mk_Locked = (\<not> mk_Multiple p \<and> mk_Locked p)\<rparr>,
       dd_AttributeType = at_subType k, dd_SpanID = []\<rparr>)"

lemma definitionFields_safe:
  assumes "attribute_safe k"
  shows "list_all fieldSafe (definitionFields k)"
proof -
  have names: "list_all jsonSafe [''type'', ''defineKey'', ''key'', ''desc'', ''ns'', ''indexed'', ''prom'',
      ''mult'', ''distinct'', ''locked'', ''vtype'', ''ranged'']"
    by code_simp
  have "jsonSafe (at_namespace k @ CHR '' '' # at_version k)"
    using assms jsonSafe_append [of "at_namespace k" "'' '' @ at_version k"]
      jsonSafe_append [OF jsonSafe_space, of "at_version k"] by (simp add: attribute_safe_def)
  with assms names AttributeType_String_plain [of "at_subType k"] show ?thesis
    by (simp add: definitionFields_def fieldSafe_def attribute_safe_def Let_def)
qed

lemma decodeFields_append:
  "decodeFields (xs @ ys) d = (case decodeFields xs d of None \<Rightarrow> None | Some d \<Rightarrow> decodeFields ys d)"
  by (induction xs arbitrary: d) (auto split: option.splits)

lemma decode_definitionFields:
  assumes "attribute_safe k"
  shows "decodeFields (definitionFields k) zeroDecode = Some (decodedDefinition k)"
proof -
  have t: "AttributeType_UnmarshalJSON (CHR 0x22 # AttributeType_String (at_subType k) @ [CHR 0x22]) x =
      Some (at_subType k, False)" for x
    using AttributeType_decode assms by (simp add: attribute_safe_def)
  have v: "escapedBody (AttributeType_String (at_subType k)) = AttributeType_String (at_subType k)"
    using AttributeType_String_plain assms by (simp add: attribute_safe_def)
  show ?thesis
    by (simp add: definitionFields_def decodedDefinition_def zeroDecode_def zeroMake_def Let_def
        decodeField_def set_dd_Make_def decodeFields_append t v)
qed

lemma unmarshal_definition:
  assumes "attribute_safe k"
  shows "unmarshalDefinition (jsonAttributeDefinition k) = Some (decodedDefinition k)"
  using readObject_objectText [OF definitionFields_safe [OF assms], of "[CHR 0x0A]"]
  by (simp add: unmarshalDefinition_def jsonAttributeDefinition_object [OF assms]
      decode_definitionFields [OF assms] isJSONSpace_def)

text \<open>
  C21. The JSON text of an attribute's definition, which a log carries so that it can be replayed,
  decodes to the same key, description, versioned namespace, hints and type. Two hints are only
  kept where they mean something: \<open>distinct\<close> with \<open>mult\<close> and \<open>locked\<close> without it, and the
  prominence keeps its low 32 bits.
\<close>

theorem definition_roundtrip:
  assumes "attribute_safe k"
  shows "Decode (jsonAttributeDefinition k) g =
    (g\<lparr>gd_CommonDefinitions := aput (at_key k) (decodedDefinition k) (gd_CommonDefinitions g)\<rparr>, False)"
  by (simp add: Decode_def unmarshal_definition [OF assms] decodedDefinition_def Let_def)

definition sampleAttribute :: Attribute where
  "sampleAttribute = zeroAttribute\<lparr>at_key := ''http.url'', at_namespace := ''OTEL'', at_version := ''0.0.0'',
     at_properties := zeroMake\<lparr>mk_Key := ''http.url'', mk_Description := ''a <URL>'', mk_Indexed := True,
       mk_Prominence := 12\<rparr>, at_subType := 9\<rparr>"

theorem definition_roundtrip_witness:
  "snd (Decode (jsonAttributeDefinition sampleAttribute) NewGlobalAttributeDefinitions) = False"
proof -
  have "attribute_safe sampleAttribute" by code_simp
  from definition_roundtrip [OF this] show ?thesis by simp
qed

end
