(* ===== verification/JSONText.thy ===== *)
theory JSONText
  imports Enums
begin

section \<open>JSON documents and a strict reader\<close>

text \<open>
  The documents that the JSON base logger writes are nested, so the flat reader of \<open>JBuilder\<close> is
  not enough. Here are JSON values, numbers being kept as their text, and a reader that accepts no
  white space. \<open>reads t v\<close> says that the text \<open>t\<close> is the value \<open>v\<close> wherever it stands; its lemmas
  build the texts of arrays and objects from those of their parts.
\<close>

subsection \<open>Values and numbers\<close>

datatype json =
  VNull
| VBool bool
| VNum string
| VStr string
| VArr "json list"
| VObj "(string \<times> json) list"

definition isNumChar :: "char \<Rightarrow> bool" where
  "isNumChar c \<longleftrightarrow> isDigit c \<or> c \<in> set ''+-.eE''"

definition isExponent :: "string \<Rightarrow> bool" where
  "isExponent s \<longleftrightarrow> s = [] \<or>
     hd s \<in> {CHR ''e'', CHR ''E''} \<and>
     (let r = tl s; r = (if r \<noteq> [] \<and> hd r \<in> {CHR ''+'', CHR ''-''} then tl r else r) in
      r \<noteq> [] \<and> list_all isDigit r)"

definition isFraction :: "string \<Rightarrow> bool" where
  "isFraction s \<longleftrightarrow>
     (if s \<noteq> [] \<and> hd s = CHR ''.'' then takeWhile isDigit (tl s) \<noteq> [] \<and> isExponent (dropWhile isDigit (tl s))
      else isExponent s)"

text \<open>The numbers of RFC 8259: a sign, an integer without leading zeros, a fraction, an exponent.\<close>

definition isNumber :: "string \<Rightarrow> bool" where
  "isNumber s \<longleftrightarrow> list_all isNumChar s \<and>
     (let s = (if s \<noteq> [] \<and> hd s = CHR ''-'' then tl s else s); i = takeWhile isDigit s in
      i \<noteq> [] \<and> (hd i = CHR ''0'' \<longrightarrow> i = ''0'') \<and> isFraction (dropWhile isDigit s))"

subsection \<open>The reader\<close>

text \<open>The fuel bounds the depth and the number of elements; the length of the text is enough.\<close>

fun readJ :: "nat \<Rightarrow> string \<Rightarrow> (json \<times> string) option"
  and readElems :: "nat \<Rightarrow> string \<Rightarrow> (json list \<times> string) option"
  and readMembers :: "nat \<Rightarrow> string \<Rightarrow> ((string \<times> json) list \<times> string) option" where
  "readJ 0 s = None"
| "readJ (Suc n) s =
     (case s of
        [] \<Rightarrow> None
      | c # cs \<Rightarrow>
          if c = CHR 0x22 then map_option (\<lambda>(t, r). (VStr t, r)) (readBody cs)
          else if c = CHR ''['' then
            (if cs \<noteq> [] \<and> hd cs = CHR '']'' then Some (VArr [], tl cs)
             else map_option (\<lambda>(vs, r). (VArr vs, r)) (readElems n cs))
          else if c = CHR ''{'' then
            (if cs \<noteq> [] \<and> hd cs = CHR ''}'' then Some (VObj [], tl cs)
             else map_option (\<lambda>(fs, r). (VObj fs, r)) (readMembers n cs))
          else if take 4 s = ''null'' then Some (VNull, drop 4 s)
          else if take 4 s = ''true'' then Some (VBool True, drop 4 s)
          else if take 5 s = ''false'' then Some (VBool False, drop 5 s)
          else if isNumber (takeWhile isNumChar s)
          then Some (VNum (takeWhile isNumChar s), dropWhile isNumChar s)
          else None)"
| "readElems 0 s = None"
| "readElems (Suc n) s =
     (case readJ n s of
        Some (v, c # r) \<Rightarrow>
          if c = CHR '']'' then Some ([v], r)
          else if c = CHR '','' then map_option (\<lambda>(vs, r). (v # vs, r)) (readElems n r)
          else None
      | _ \<Rightarrow> None)"
| "readMembers 0 s = None"
| "readMembers (Suc n) s =
     (case readString s of
        Some (k, c # s1) \<Rightarrow>
          if c = CHR '':'' then
            (case readJ n s1 of
               Some (v, d # r) \<Rightarrow>
                 if d = CHR ''}'' then Some ([(k, v)], r)
                 else if d = CHR '','' then map_option (\<lambda>(fs, r). ((k, v) # fs, r)) (readMembers n r)
                 else None
             | _ \<Rightarrow> None)
          else None
      | _ \<Rightarrow> None)"

text \<open>A whole text is one value.\<close>

definition readJSON :: "string \<Rightarrow> json option" where
  "readJSON s = (case readJ (length s) s of Some (v, []) \<Rightarrow> Some v | _ \<Rightarrow> None)"

text \<open>What may follow a value: a number must not go on.\<close>

definition stops :: "string \<Rightarrow> bool" where
  "stops r \<longleftrightarrow> r = [] \<or> \<not> isNumChar (hd r)"

text \<open>
  \<open>Comma\<close> looks at the last character of the buffer: a value does not end like something that is
  still open.
\<close>

definition opens :: "char \<Rightarrow> bool" where
  "opens c \<longleftrightarrow> c \<in> {CHR ''['', CHR ''{'', CHR '':''}"

definition reads :: "string \<Rightarrow> json \<Rightarrow> bool" where
  "reads t v \<longleftrightarrow> \<not> opens (last t) \<and>
     (\<forall>r n. stops r \<longrightarrow> length t \<le> n \<longrightarrow> readJ n (t @ r) = Some (v, r))"

lemma stops_simps [simp]:
  "stops []" "stops (CHR '','' # r)" "stops (CHR '']'' # r)" "stops (CHR ''}'' # r)" "stops (CHR 0x0A # r)"
  by (simp_all add: stops_def isNumChar_def isDigit_def)

lemma readsD: "reads t v \<Longrightarrow> stops r \<Longrightarrow> length t \<le> n \<Longrightarrow> readJ n (t @ r) = Some (v, r)"
  by (simp add: reads_def)

lemma reads_last: "reads t v \<Longrightarrow> \<not> opens (last t)"
  by (simp add: reads_def)

lemma readsI:
  assumes "\<And>r n. stops r \<Longrightarrow> length t \<le> Suc n \<Longrightarrow> readJ (Suc n) (t @ r) = Some (v, r)" "t \<noteq> []" "\<not> opens (last t)"
  shows "reads t v"
  unfolding reads_def
proof (intro conjI allI impI)
  fix r n assume t: "stops r" "length t \<le> n"
  with assms(2) obtain m where "n = Suc m" by (cases n) auto
  with assms(1) t show "readJ n (t @ r) = Some (v, r)" by simp
qed (rule assms(3))

lemma reads_readJSON: "reads t v \<Longrightarrow> readJSON t = Some v"
  using readsD [of t v "[]" "length t"] by (simp add: readJSON_def)

lemma reads_unique: "reads t v \<Longrightarrow> reads t w \<Longrightarrow> v = w"
  using reads_readJSON [of t v] reads_readJSON [of t w] by simp

text \<open>The first character of a value is not a closing bracket.\<close>

lemma isNumber_Nil [simp]: "\<not> isNumber []"
  by (simp add: isNumber_def)

lemma readJ_bracket:
  assumes "c = CHR '']'' \<or> c = CHR ''}''"
  shows "readJ (Suc n) (c # cs) = None"
proof -
  have "\<not> isNumChar c" using assms by (auto simp: isNumChar_def isDigit_def)
  then have "takeWhile isNumChar (c # cs) = []" by simp
  with assms show ?thesis by (elim disjE) simp_all
qed

lemma reads_hd:
  assumes "reads t v"
  obtains c cs where "t = c # cs" "c \<noteq> CHR '']''" "c \<noteq> CHR ''}''"
proof (cases t)
  case Nil
  with readsD [OF assms, of "[]" 0] show ?thesis by simp
next
  case (Cons c cs)
  have "c \<noteq> CHR '']'' \<and> c \<noteq> CHR ''}''"
  proof (rule ccontr)
    assume "\<not> ?thesis"
    then have c: "c = CHR '']'' \<or> c = CHR ''}''" by blast
    from readJ_bracket [OF c, of "length cs" cs] readsD [OF assms, of "[]" "Suc (length cs)"] Cons show False
      by (simp del: readJ.simps)
  qed
  with Cons that show ?thesis by blast
qed

subsection \<open>Texts of values\<close>

definition quoted :: "string \<Rightarrow> string" where
  "quoted s = CHR 0x22 # s @ [CHR 0x22]"

lemma reads_true: "reads ''true'' (VBool True)"
  and reads_false: "reads ''false'' (VBool False)"
  and reads_null: "reads ''null'' VNull"
  by (rule readsI; simp add: opens_def)+

definition body_reads :: "string \<Rightarrow> string \<Rightarrow> bool" where
  "body_reads b s \<longleftrightarrow>
     (\<forall>rest. readBody (b @ rest) = (case readBody rest of None \<Rightarrow> None | Some (r, cs) \<Rightarrow> Some (s @ r, cs)))"

lemma body_reads_Nil [simp]: "body_reads [] []"
  by (auto simp: body_reads_def split: option.splits)

lemma body_reads_append: "body_reads a s \<Longrightarrow> body_reads b t \<Longrightarrow> body_reads (a @ b) (s @ t)"
  unfolding body_reads_def by (auto split: option.splits)

lemma body_reads_escapeByte:
  "escapeSeq c \<noteq> None \<or> (0x20 :: nat) \<le> of_char c \<Longrightarrow> body_reads (escapeByte c) [c]"
  by (auto simp: body_reads_def readBody_escapeByte split: option.splits)

lemma body_reads_concat:
  "(\<And>c. c \<in> set s \<Longrightarrow> body_reads (f c) [c]) \<Longrightarrow> body_reads (concat (map f s)) s"
proof (induction s)
  case (Cons c s)
  then show ?case using body_reads_append [of "f c" "[c]" "concat (map f s)" s] by simp
qed simp

lemma body_reads_plain:
  "(0x20 :: nat) \<le> of_char c \<Longrightarrow> c \<noteq> CHR 0x22 \<Longrightarrow> c \<noteq> CHR 0x5C \<Longrightarrow> body_reads [c] [c]"
  by (auto simp: body_reads_def split: option.splits)

definition plain :: "string \<Rightarrow> bool" where
  "plain s \<longleftrightarrow> (\<forall>c \<in> set s. (0x20 :: nat) \<le> of_char c \<and> c \<noteq> CHR 0x22 \<and> c \<noteq> CHR 0x5C)"

lemma body_reads_plains: "plain s \<Longrightarrow> body_reads s s"
  using body_reads_concat [of s "\<lambda>c. [c]"] body_reads_plain by (auto simp: plain_def)

lemma body_reads_escaped:
  assumes "jsonSafe s"
  shows "body_reads (escapedBody s) s"
proof (cases "list_ex escapes s")
  case True
  then have "escapeSeq c \<noteq> None \<or> (0x20 :: nat) \<le> of_char c" if "c \<in> set s" for c
    using assms that unfolding jsonSafe_def escapes_escapeSeq by blast
  with True show ?thesis
    by (auto simp: escapedBody_def intro!: body_reads_concat body_reads_escapeByte)
next
  case False
  then have "plain s" using assms by (auto simp: plain_def jsonSafe_def list_ex_iff escapes_def)
  with False show ?thesis by (simp add: escapedBody_def body_reads_plains)
qed

lemma body_reads_goEscaped: "body_reads (concat (map goEscape s)) s"
  by (rule body_reads_concat) (auto simp: body_reads_def readBody_goEscape split: option.splits)

lemma body_readsD: "body_reads b s \<Longrightarrow> readBody (b @ CHR 0x22 # r) = Some (s, r)"
  by (simp add: body_reads_def)

lemma reads_quoted: "body_reads b s \<Longrightarrow> reads (quoted b) (VStr s)"
  by (rule readsI) (simp_all add: quoted_def body_readsD opens_def)

lemma readString_quoted: "body_reads b s \<Longrightarrow> readString (quoted b @ r) = Some (s, r)"
  by (simp add: readString_def quoted_def body_readsD)

lemma reads_number:
  assumes "isNumber t"
  shows "reads t (VNum t)"
proof (rule readsI)
  show t: "t \<noteq> []" using assms by (auto simp: isNumber_def)
  fix r n assume r: "stops r"
  obtain c cs where c: "t = c # cs" using t by (cases t) auto
  have num: "list_all isNumChar t" using assms by (simp add: isNumber_def)
  then have tw: "takeWhile isNumChar (t @ r) = t" "dropWhile isNumChar (t @ r) = r"
    using r by (cases r; auto simp: stops_def list_all_iff takeWhile_append dropWhile_append)+
  from num c have nc: "isNumChar c" by simp
  then have "c \<noteq> CHR 0x22" "c \<noteq> CHR ''[''" "c \<noteq> CHR ''{''" "c \<noteq> CHR ''n''" "c \<noteq> CHR ''t''" "c \<noteq> CHR ''f''"
    by (auto simp: isNumChar_def isDigit_def)
  with c tw assms show "readJ (Suc n) (t @ r) = Some (VNum t, r)"
    by (simp split: if_splits)
next
  have "t \<noteq> []" "list_all isNumChar t" using assms by (auto simp: isNumber_def)
  then have "isNumChar (last t)" by (simp add: list_all_iff)
  then show "\<not> opens (last t)" by (auto simp: opens_def isNumChar_def isDigit_def)
qed

subsection \<open>Arrays and objects\<close>

fun commas :: "string list \<Rightarrow> string" where
  "commas [] = []"
| "commas [t] = t"
| "commas (t # ts) = t @ '','' @ commas ts"

lemma commas_snoc: "commas (ts @ [t]) = (if ts = [] then t else commas ts @ '','' @ t)"
  by (induction ts rule: commas.induct) auto

lemma readElems_commas:
  "list_all2 reads ts vs \<Longrightarrow> ts \<noteq> [] \<Longrightarrow> length (commas ts) < n \<Longrightarrow>
   readElems n (commas ts @ CHR '']'' # r) = Some (vs, r)"
proof (induction ts arbitrary: vs n rule: commas.induct)
  case (2 t)
  then obtain v m where "vs = [v]" "reads t v" "n = Suc m" by (cases n) (auto simp: list_all2_Cons1)
  with 2 readsD [OF \<open>reads t v\<close>, of "CHR '']'' # r" m] show ?case by simp
next
  case (3 t u ts)
  then obtain v ws m where v: "vs = v # ws" "reads t v" "list_all2 reads (u # ts) ws" "n = Suc m"
    by (cases n) (auto simp: list_all2_Cons1)
  with 3 readsD [OF v(2), of "CHR '','' # commas (u # ts) @ CHR '']'' # r" m] show ?case by simp
qed simp

lemma readJ_array:
  "cs \<noteq> [] \<Longrightarrow> hd cs \<noteq> CHR '']'' \<Longrightarrow>
   readJ (Suc n) (CHR ''['' # cs) = map_option (\<lambda>(vs, r). (VArr vs, r)) (readElems n cs)"
  by simp

lemma readJ_object:
  "cs \<noteq> [] \<Longrightarrow> hd cs \<noteq> CHR ''}'' \<Longrightarrow>
   readJ (Suc n) (CHR ''{'' # cs) = map_option (\<lambda>(fs, r). (VObj fs, r)) (readMembers n cs)"
  by simp

lemma reads_array:
  assumes "list_all2 reads ts vs"
  shows "reads (CHR ''['' # commas ts @ '']'') (VArr vs)"
proof (cases ts)
  case Nil
  with assms show ?thesis by (auto intro!: readsI simp: opens_def)
next
  case (Cons t us)
  then obtain v where "reads t v" using assms by (auto simp: list_all2_Cons1)
  then obtain c cs where c: "t = c # cs" "c \<noteq> CHR '']''" by (elim reads_hd)
  have h: "commas ts \<noteq> []" "hd (commas ts) \<noteq> CHR '']''" using Cons c by (cases us; simp)+
  show ?thesis
  proof (rule readsI)
    fix r n assume "length (CHR ''['' # commas ts @ '']'') \<le> Suc n"
    then have "readElems n (commas ts @ CHR '']'' # r) = Some (vs, r)"
      using Cons by (intro readElems_commas [OF assms]) auto
    moreover have "readJ (Suc n) (CHR ''['' # commas ts @ CHR '']'' # r) =
        map_option (\<lambda>(vs, r). (VArr vs, r)) (readElems n (commas ts @ CHR '']'' # r))"
      using h by (intro readJ_array) (simp_all add: hd_append)
    ultimately show "readJ (Suc n) ((CHR ''['' # commas ts @ '']'') @ r) = Some (VArr vs, r)"
      by (simp del: readJ.simps)
  qed (simp_all add: opens_def)
qed

definition member_reads :: "string \<Rightarrow> string \<times> json \<Rightarrow> bool" where
  "member_reads m f \<longleftrightarrow> (\<exists>b t. m = quoted b @ CHR '':'' # t \<and> body_reads b (fst f) \<and> reads t (snd f))"

lemma member_readsI: "body_reads b k \<Longrightarrow> reads t v \<Longrightarrow> member_reads (quoted b @ CHR '':'' # t) (k, v)"
  unfolding member_reads_def by (intro exI [of _ b] exI [of _ t]) simp

lemma readMembers_commas:
  "list_all2 member_reads ms fs \<Longrightarrow> ms \<noteq> [] \<Longrightarrow> length (commas ms) < n \<Longrightarrow>
   readMembers n (commas ms @ CHR ''}'' # r) = Some (fs, r)"
proof (induction ms arbitrary: fs n rule: commas.induct)
  case (2 m)
  then obtain f j where f: "fs = [f]" "n = Suc j" "member_reads m f" by (cases n) (auto simp: list_all2_Cons1)
  from f(3) obtain b t where t: "m = quoted b @ CHR '':'' # t" "body_reads b (fst f)" "reads t (snd f)"
    by (auto simp: member_reads_def)
  from 2 f t readsD [OF t(3), of "CHR ''}'' # r" j] show ?case
    by (simp add: readString_quoted [OF t(2)])
next
  case (3 m m' ms)
  then obtain f gs j where f: "fs = f # gs" "n = Suc j" "member_reads m f" "list_all2 member_reads (m' # ms) gs"
    by (cases n) (auto simp: list_all2_Cons1)
  from f(3) obtain b t where t: "m = quoted b @ CHR '':'' # t" "body_reads b (fst f)" "reads t (snd f)"
    by (auto simp: member_reads_def)
  from 3 f t readsD [OF t(3), of "CHR '','' # commas (m' # ms) @ CHR ''}'' # r" j] show ?case
    by (simp add: readString_quoted [OF t(2)])
qed simp

lemma reads_object:
  assumes "list_all2 member_reads ms fs"
  shows "reads (CHR ''{'' # commas ms @ ''}'') (VObj fs)"
proof (cases ms)
  case Nil
  with assms show ?thesis by (auto intro!: readsI simp: opens_def)
next
  case (Cons m us)
  then obtain f where "member_reads m f" using assms by (auto simp: list_all2_Cons1)
  then have h: "commas ms = CHR 0x22 # tl (commas ms)"
    using Cons by (cases us) (auto simp: member_reads_def quoted_def)
  show ?thesis
  proof (rule readsI)
    fix r n assume "length (CHR ''{'' # commas ms @ ''}'') \<le> Suc n"
    then have "readMembers n (commas ms @ CHR ''}'' # r) = Some (fs, r)"
      using Cons by (intro readMembers_commas [OF assms]) auto
    moreover have "readJ (Suc n) (CHR ''{'' # commas ms @ CHR ''}'' # r) =
        map_option (\<lambda>(fs, r). (VObj fs, r)) (readMembers n (commas ms @ CHR ''}'' # r))"
      by (intro readJ_object; subst h) simp_all
    ultimately show "readJ (Suc n) ((CHR ''{'' # commas ms @ ''}'') @ r) = Some (VObj fs, r)"
      by (simp del: readJ.simps)
  qed (simp_all add: opens_def)
qed

text \<open>The members of an object that is not closed yet, after its brace.\<close>

definition members :: "string \<Rightarrow> (string \<times> json) list \<Rightarrow> bool" where
  "members s fs \<longleftrightarrow> (\<exists>ms. s = commas ms \<and> list_all2 member_reads ms fs)"

lemma members_Nil [simp]: "members [] []"
  unfolding members_def by (intro exI [of _ "[]"]) simp

lemma member_reads_last: "member_reads m f \<Longrightarrow> m \<noteq> [] \<and> \<not> opens (last m)"
proof -
  assume "member_reads m f"
  then obtain b t where m: "m = quoted b @ CHR '':'' # t" "reads t (snd f)" by (auto simp: member_reads_def)
  from reads_hd [OF m(2)] have "t \<noteq> []" by blast
  with m reads_last [OF m(2)] show ?thesis by simp
qed

lemma commas_last: "ts \<noteq> [] \<Longrightarrow> \<forall>t \<in> set ts. t \<noteq> [] \<Longrightarrow> commas ts \<noteq> [] \<and> last (commas ts) = last (last ts)"
  by (induction ts rule: commas.induct) auto

lemma members_last: "members s fs \<Longrightarrow> (s = [] \<longleftrightarrow> fs = []) \<and> (fs \<noteq> [] \<longrightarrow> \<not> opens (last s))"
proof -
  assume "members s fs"
  then obtain ms where ms: "s = commas ms" "list_all2 member_reads ms fs" by (auto simp: members_def)
  then have all: "\<forall>m \<in> set ms. m \<noteq> [] \<and> \<not> opens (last m)"
    by (auto simp: list_all2_conv_all_nth in_set_conv_nth dest!: member_reads_last)
  have len: "length ms = length fs" using ms(2) by (rule list_all2_lengthD)
  show ?thesis
  proof (cases "ms = []")
    case True
    then show ?thesis using ms len by auto
  next
    case False
    then show ?thesis using ms(1) len all commas_last [OF False] by auto
  qed
qed

lemma members_snoc:
  "members s fs \<Longrightarrow> member_reads m f \<Longrightarrow> members (if fs = [] then m else s @ '','' @ m) (fs @ [f])"
proof -
  assume "members s fs" and m: "member_reads m f"
  then obtain ms where ms: "s = commas ms" "list_all2 member_reads ms fs" by (auto simp: members_def)
  with m have "list_all2 member_reads (ms @ [m]) (fs @ [f])" by (simp add: list_all2_appendI)
  moreover have "(if fs = [] then m else s @ '','' @ m) = commas (ms @ [m])"
    using ms by (auto simp: commas_snoc)
  ultimately show ?thesis unfolding members_def by blast
qed

lemma members_append:
  "members s fs \<Longrightarrow> members t gs \<Longrightarrow> members (if fs = [] then t else if gs = [] then s else s @ '','' @ t) (fs @ gs)"
proof -
  assume s: "members s fs" and "members t gs"
  then obtain ms where ms: "t = commas ms" "list_all2 member_reads ms gs" by (auto simp: members_def)
  have c: "commas (m # us) = m @ concat (map (\<lambda>u. '','' @ u) us)" for m us
    by (induction us arbitrary: m) simp_all
  have "members (if fs = [] then commas ms else if gs = [] then s else s @ '','' @ commas ms) (fs @ gs)"
    if "list_all2 member_reads ms gs" for ms using that
  proof (induction ms arbitrary: gs rule: rev_induct)
    case Nil
    then show ?case using s by (auto simp: members_last)
  next
    case (snoc m ms)
    then obtain gs' g where gs: "gs = gs' @ [g]" "list_all2 member_reads ms gs'" "member_reads m g"
      by (auto simp: list_all2_append1 list_all2_Cons1)
    with members_snoc [OF snoc.IH [OF gs(2)] gs(3)] show ?case
      by (auto simp: commas_snoc split: if_splits)
  qed
  from this [OF ms(2)] show ?thesis by (simp only: ms(1))
qed

lemma reads_members: "members s fs \<Longrightarrow> reads (CHR ''{'' # s @ ''}'') (VObj fs)"
  unfolding members_def using reads_object by auto

subsection \<open>Numbers that are printed\<close>

lemma formatNat_hd: "0 < n \<Longrightarrow> hd (formatNat 10 n) \<noteq> CHR ''0''"
proof (induction "10 :: nat" n rule: formatNat.induct)
  case (1 n)
  show ?case
  proof (cases "n < 10")
    case True
    have "\<forall>d \<in> {1, 2, 3, 4, 5, 6, 7, 8, 9}. digitChars ! d \<noteq> CHR ''0''" by code_simp
    moreover have "n \<in> {1, 2, 3, 4, 5, 6, 7, 8, 9}" using True 1 by auto
    ultimately have "digitChars ! n \<noteq> CHR ''0''" by blast
    with True show ?thesis by (subst formatNat.simps) simp
  next
    case False
    with 1 have "hd (formatNat 10 (n div 10)) \<noteq> CHR ''0''" by simp
    with False formatNat_nonempty [of 10 "n div 10"] show ?thesis by (subst formatNat.simps) simp
  qed
qed

lemma formatNat_0: "formatNat 10 0 = ''0''"
  by (subst formatNat.simps) (simp add: digitChars_def)

lemma isNumber_nat: "isNumber (formatNat 10 n)" "isNumber (CHR ''-'' # formatNat 10 n)"
proof -
  let ?t = "formatNat 10 n"
  have d: "takeWhile isDigit ?t = ?t" "dropWhile isDigit ?t = []"
    using formatNat_digits [of n] by simp_all
  have c: "list_all isNumChar ?t" using formatNat_digits [of n] by (auto simp: list_all_iff isNumChar_def)
  have z: "hd ?t = CHR ''0'' \<longrightarrow> ?t = ''0''"
    using formatNat_hd [of n] formatNat_0 by (cases "n = 0") auto
  have m: "hd ?t \<noteq> CHR ''-''"
    using formatNat_digits [of n] formatNat_nonempty [of 10 n] by (cases ?t) (auto simp: isDigit_def)
  have f: "isFraction []" by (simp add: isFraction_def isExponent_def)
  show "isNumber ?t" "isNumber (CHR ''-'' # ?t)"
    using c z m f formatNat_nonempty [of 10 n] by (simp_all add: isNumber_def Let_def isNumChar_def d)
qed

lemma reads_FormatInt: "reads (FormatInt i 10) (VNum (FormatInt i 10))"
  by (rule reads_number) (simp add: FormatInt_def isNumber_nat)

end
