(* ===== verification/JSONAttributes.thy ===== *)
theory JSONAttributes
  imports Metadata JSONText
begin

section \<open>Span attributes of the JSON logger\<close>

text \<open>
  Models \<open>xopjson/xopjsonutil\<close>: how a value becomes JSON (\<open>builder.go\<close>) and the attribute builder
  of a span (\<open>attributes.go\<close>), which keeps the text \<open>key:value\<close> of every single attribute and the
  growing text \<open>key:[v1,v2\<close> of every multiple one, and writes them when the span is flushed. The
  pointers in its maps are to structs that belong to one key each, so the maps hold the structs.
  A Go map has no order: the keys come in an order that is an argument of \<open>Append\<close>.
\<close>

subsection \<open>Values as JSON\<close>

text \<open>
  What the standard library does with times (\<open>Format(time.RFC3339Nano)\<close>), floats
  (\<open>strconv.AppendFloat(f, 'f', -1, 64)\<close>), durations (\<open>String()\<close>) and models.
\<close>

record 'm jtexts =
  jt_time :: "int \<Rightarrow> nat \<Rightarrow> string"
  jt_float :: "u64 \<Rightarrow> string"
  jt_duration :: "i64 \<Rightarrow> string"
  jt_ms :: "'m marshallers"

definition AddFloat64 :: "'m jtexts \<Rightarrow> u64 \<Rightarrow> JBuilder \<Rightarrow> JBuilder" where
  "AddFloat64 jt f b = appendB (jt_float jt f) b"

definition AnyCommon :: "'m jtexts \<Rightarrow> 'm ModelArg \<Rightarrow> JBuilder \<Rightarrow> JBuilder" where
  "AnyCommon jt v b =
     (let v = ModelArg_Encode (jt_ms jt) v;
          b = (if ma_Encoding v = Encoding_JSON then AppendBytes (ma_Encoded v) b
               else AddSafeString (Encoding_ToString (ma_Encoding v))
                      (AppendBytes (q '',`encoding`:'') (AddString (ma_Encoded v) b)))
      in AddString (ma_ModelType v) (AppendBytes (q '',`modelType`:'') b))"

definition AttributeAny :: "'m jtexts \<Rightarrow> 'm ModelArg \<Rightarrow> JBuilder \<Rightarrow> JBuilder" where
  "AttributeAny jt v b = AppendByte (CHR ''}'') (AnyCommon jt v (AppendBytes (q ''{`v`:'') b))"

definition AttributeEnum :: "enumValue \<Rightarrow> JBuilder \<Rightarrow> JBuilder" where
  "AttributeEnum v b =
     AppendByte (CHR ''}'')
       (AddInt64 (ev_value v) (AppendBytes (q '',`i`:'') (AddString (ev_str v) (AppendBytes (q ''{`s`:'') b))))"

definition DefaultTimeFormatter :: "'m jtexts \<Rightarrow> int \<Rightarrow> nat \<Rightarrow> JBuilder \<Rightarrow> JBuilder" where
  "DefaultTimeFormatter jt t rep b = AppendByte (CHR 0x22) (appendB (jt_time jt t rep) (AppendByte (CHR 0x22) b))"

definition AttributeTime :: "'m jtexts \<Rightarrow> int \<Rightarrow> nat \<Rightarrow> JBuilder \<Rightarrow> JBuilder" where
  "AttributeTime jt t rep b = DefaultTimeFormatter jt t rep b"

definition AttributeBool :: "bool \<Rightarrow> JBuilder \<Rightarrow> JBuilder" where
  "AttributeBool v b = AddBool v b"

definition AttributeInt64 :: "i64 \<Rightarrow> JBuilder \<Rightarrow> JBuilder" where
  "AttributeInt64 v b = AddInt64 v b"

definition AttributeString :: "string \<Rightarrow> JBuilder \<Rightarrow> JBuilder" where
  "AttributeString v b = AddString v b"

definition AttributeFloat64 :: "'m jtexts \<Rightarrow> u64 \<Rightarrow> JBuilder \<Rightarrow> JBuilder" where
  "AttributeFloat64 jt v b = AddFloat64 jt v b"

definition AttributeLink :: "Trace \<Rightarrow> JBuilder \<Rightarrow> JBuilder" where
  "AttributeLink v b = AddSafeString (Trace_String v) b"

subsection \<open>The attribute builder\<close>

record singleAttribute =
  sa_Changed :: bool
  sa_Type :: int
  sa_KeyValue :: string
  sa_keyLen :: nat

record multiAttribute =
  mu_Changed :: bool
  mu_Type :: int
  mu_Distinct :: "string list option"
  mu_Builder :: JBuilder

record AttributeBuilder =
  ab_singleMap :: "(string \<times> singleAttribute) list"
  ab_multiMap :: "(string \<times> multiAttribute) list"
  ab_anyChanged :: bool

definition AttributeBuilder_Init :: AttributeBuilder where
  "AttributeBuilder_Init = \<lparr>ab_singleMap = [], ab_multiMap = [], ab_anyChanged = False\<rparr>"

definition single_init :: "string \<Rightarrow> singleAttribute" where
  "single_init jsonKey = \<lparr>sa_Changed = True, sa_Type = 0, sa_KeyValue = jb_B (AppendString jsonKey emptyJB), sa_keyLen = 0\<rparr>"

definition addSingle :: "string \<Rightarrow> string \<Rightarrow> AttributeBuilder \<Rightarrow> singleAttribute \<times> bool" where
  "addSingle k jsonKey a =
     (let (s, ok) = (case map_of (ab_singleMap a) k of Some s \<Rightarrow> (s, True) | None \<Rightarrow> (single_init jsonKey, False)) in
      (s\<lparr>sa_Changed := True\<rparr>, ok))"

definition multi_init :: "string \<Rightarrow> multiAttribute" where
  "multi_init jsonKey = \<lparr>mu_Changed = False, mu_Type = 0, mu_Distinct = None,
     mu_Builder = AppendByte (CHR ''['') (AppendString jsonKey (JB_Reset emptyJB))\<rparr>"

definition addMulti :: "string \<Rightarrow> string \<Rightarrow> AttributeBuilder \<Rightarrow> multiAttribute" where
  "addMulti k jsonKey a =
     (let m = (case map_of (ab_multiMap a) k of Some m \<Rightarrow> m | None \<Rightarrow> multi_init jsonKey) in
      m\<lparr>mu_Changed := True, mu_Builder := Comma (mu_Builder m)\<rparr>)"

text \<open>The two halves that all the generated methods share; \<open>f\<close> writes the value.\<close>

definition put_single :: "Attribute \<Rightarrow> int \<Rightarrow> (JBuilder \<Rightarrow> JBuilder) \<Rightarrow> AttributeBuilder \<Rightarrow> AttributeBuilder" where
  "put_single k t f a =
     (let (s, preExisting) = addSingle (at_key k) (at_jsonKey k) a;
          put = (\<lambda>s. a\<lparr>ab_singleMap := aput (at_key k) s (ab_singleMap a)\<rparr>) in
      if preExisting \<and> mk_Locked (at_properties k) then put s
      else let s = (if preExisting then s\<lparr>sa_KeyValue := take (sa_keyLen s) (sa_KeyValue s)\<rparr>
                    else s\<lparr>sa_keyLen := length (sa_KeyValue s)\<rparr>);
               b = f \<lparr>jb_B = sa_KeyValue s, jb_FastKeys = False\<rparr>
           in put (s\<lparr>sa_Type := t, sa_KeyValue := jb_B b\<rparr>))"

definition multi_add :: "bool \<Rightarrow> int \<Rightarrow> (JBuilder \<Rightarrow> JBuilder) \<Rightarrow> multiAttribute \<Rightarrow> multiAttribute" where
  "multi_add dist t f m =
     (let m = m\<lparr>mu_Type := t\<rparr>;
          lenBefore = length (jb_B (mu_Builder m));
          m = m\<lparr>mu_Builder := f (mu_Builder m)\<rparr>
      in if dist then
           (let sk = drop lenBefore (jb_B (mu_Builder m)) in
            case mu_Distinct m of
              None \<Rightarrow> m\<lparr>mu_Distinct := Some [sk]\<rparr>
            | Some seen \<Rightarrow>
                if sk \<in> set seen then
                  (let B = take lenBefore (jb_B (mu_Builder m));
                       B = (if last B = CHR '','' then butlast B else B)
                   in m\<lparr>mu_Builder := (mu_Builder m)\<lparr>jb_B := B\<rparr>\<rparr>)
                else m\<lparr>mu_Distinct := Some (seen @ [sk])\<rparr>)
         else m)"

definition put_multi :: "Attribute \<Rightarrow> int \<Rightarrow> (JBuilder \<Rightarrow> JBuilder) \<Rightarrow> AttributeBuilder \<Rightarrow> AttributeBuilder" where
  "put_multi k t f a =
     (let m = multi_add (mk_Distinct (at_properties k)) t f (addMulti (at_key k) (at_jsonKey k) a) in
      a\<lparr>ab_multiMap := aput (at_key k) m (ab_multiMap a)\<rparr>)"

definition put_attribute :: "Attribute \<Rightarrow> int \<Rightarrow> (JBuilder \<Rightarrow> JBuilder) \<Rightarrow> AttributeBuilder \<Rightarrow> AttributeBuilder" where
  "put_attribute k t f a =
     (let a = a\<lparr>ab_anyChanged := True\<rparr> in
      if \<not> mk_Multiple (at_properties k) then put_single k t f a else put_multi k t f a)"

definition Attributes_MetadataAny :: "'m jtexts \<Rightarrow> Attribute \<Rightarrow> 'm ModelArg \<Rightarrow> AttributeBuilder \<Rightarrow> AttributeBuilder" where
  "Attributes_MetadataAny jt k v = put_attribute k 11 (AttributeAny jt v)"

definition Attributes_MetadataBool :: "Attribute \<Rightarrow> bool \<Rightarrow> AttributeBuilder \<Rightarrow> AttributeBuilder" where
  "Attributes_MetadataBool k v = put_attribute k 1 (AttributeBool v)"

definition Attributes_MetadataEnum :: "Attribute \<Rightarrow> enumValue \<Rightarrow> AttributeBuilder \<Rightarrow> AttributeBuilder" where
  "Attributes_MetadataEnum k v = put_attribute k 14 (AttributeEnum v)"

definition Attributes_MetadataFloat64 :: "'m jtexts \<Rightarrow> Attribute \<Rightarrow> u64 \<Rightarrow> AttributeBuilder \<Rightarrow> AttributeBuilder" where
  "Attributes_MetadataFloat64 jt k v = put_attribute k 2 (AttributeFloat64 jt v)"

definition Attributes_MetadataInt64 :: "Attribute \<Rightarrow> i64 \<Rightarrow> AttributeBuilder \<Rightarrow> AttributeBuilder" where
  "Attributes_MetadataInt64 k v = put_attribute k 4 (AttributeInt64 v)"

definition Attributes_MetadataLink :: "Attribute \<Rightarrow> Trace \<Rightarrow> AttributeBuilder \<Rightarrow> AttributeBuilder" where
  "Attributes_MetadataLink k v = put_attribute k 10 (AttributeLink v)"

definition Attributes_MetadataString :: "Attribute \<Rightarrow> string \<Rightarrow> AttributeBuilder \<Rightarrow> AttributeBuilder" where
  "Attributes_MetadataString k v = put_attribute k 9 (AttributeString v)"

definition Attributes_MetadataTime :: "'m jtexts \<Rightarrow> Attribute \<Rightarrow> int \<Rightarrow> nat \<Rightarrow> AttributeBuilder \<Rightarrow> AttributeBuilder" where
  "Attributes_MetadataTime jt k t rep = put_attribute k 12 (AttributeTime jt t rep)"

fun Attributes_call :: "'m jtexts \<Rightarrow> Attribute \<times> 'm metavalue \<Rightarrow> AttributeBuilder \<Rightarrow> AttributeBuilder" where
  "Attributes_call jt (k, MAny v) a = Attributes_MetadataAny jt k v a"
| "Attributes_call jt (k, MBool v) a = Attributes_MetadataBool k v a"
| "Attributes_call jt (k, MEnum v) a = Attributes_MetadataEnum k v a"
| "Attributes_call jt (k, MFloat64 v) a = Attributes_MetadataFloat64 jt k v a"
| "Attributes_call jt (k, MInt64 v) a = Attributes_MetadataInt64 k v a"
| "Attributes_call jt (k, MLink v) a = Attributes_MetadataLink k v a"
| "Attributes_call jt (k, MString v) a = Attributes_MetadataString k v a"
| "Attributes_call jt (k, MTime t rep) a = Attributes_MetadataTime jt k t rep a"

subsection \<open>Append\<close>

fun append_multis :: "bool \<Rightarrow> string list \<Rightarrow> JBuilder \<times> (string \<times> multiAttribute) list \<Rightarrow> JBuilder \<times> (string \<times> multiAttribute) list" where
  "append_multis onlyChanged [] st = st"
| "append_multis onlyChanged (k # ks) (b, ms) =
     append_multis onlyChanged ks
       (case map_of ms k of
          None \<Rightarrow> (b, ms)
        | Some m \<Rightarrow>
            if mu_Changed m \<or> \<not> onlyChanged then
              (AppendByte (CHR '']'') (AppendBytes (jb_B (mu_Builder m)) (Comma b)), aput k (m\<lparr>mu_Changed := False\<rparr>) ms)
            else (b, ms))"

fun append_singles :: "bool \<Rightarrow> string list \<Rightarrow> JBuilder \<times> (string \<times> singleAttribute) list \<Rightarrow> JBuilder \<times> (string \<times> singleAttribute) list" where
  "append_singles onlyChanged [] st = st"
| "append_singles onlyChanged (k # ks) (b, ss) =
     append_singles onlyChanged ks
       (case map_of ss k of
          None \<Rightarrow> (b, ss)
        | Some s \<Rightarrow>
            if sa_Changed s \<or> \<not> onlyChanged then
              (AppendBytes (sa_KeyValue s) (Comma b), aput k (s\<lparr>sa_Changed := False\<rparr>) ss)
            else (b, ss))"

definition Attributes_Append ::
    "(string list \<Rightarrow> string list) \<Rightarrow> bool \<Rightarrow> bool \<Rightarrow> JBuilder \<Rightarrow> AttributeBuilder \<Rightarrow> JBuilder \<times> AttributeBuilder" where
  "Attributes_Append order onlyChanged attributesObject b a =
     (if (\<not> ab_anyChanged a \<and> onlyChanged) \<or> (ab_multiMap a = [] \<and> ab_singleMap a = []) then (b, a)
      else
        let b = (if attributesObject then AppendBytes (q ''`attributes`:{'') (Comma b) else b);
            (b, ms) = append_multis onlyChanged (order (map fst (ab_multiMap a))) (b, ab_multiMap a);
            (b, ss) = append_singles onlyChanged (order (map fst (ab_singleMap a))) (b, ab_singleMap a);
            b = (if attributesObject then AppendByte (CHR ''}'') b else b)
        in (b, \<lparr>ab_singleMap = ss, ab_multiMap = ms, ab_anyChanged = False\<rparr>))"

end
