(* ===== verification/AttributeTexts.thy ===== *)
theory AttributeTexts
  imports JSONAttributes
begin

section \<open>What the attribute builder holds\<close>

text \<open>
  Lemmas about \<open>JSONAttributes\<close>: after any calls the builder holds, for every key, the text of the
  values that the flags of its attribute promise; that is what the metadata store of
  \<open>Metadata\<close> holds, as long as two values have the same text exactly when the store takes them for equal.
\<close>

subsection \<open>Texts of values\<close>

fun metavalue_write :: "'m jtexts \<Rightarrow> 'm metavalue \<Rightarrow> JBuilder \<Rightarrow> JBuilder" where
  "metavalue_write jt (MAny v) = AttributeAny jt v"
| "metavalue_write jt (MBool v) = AttributeBool v"
| "metavalue_write jt (MEnum v) = AttributeEnum v"
| "metavalue_write jt (MFloat64 v) = AttributeFloat64 jt v"
| "metavalue_write jt (MInt64 v) = AttributeInt64 v"
| "metavalue_write jt (MLink v) = AttributeLink v"
| "metavalue_write jt (MString v) = AttributeString v"
| "metavalue_write jt (MTime t rep) = AttributeTime jt t rep"

lemma Attributes_call_put:
  "Attributes_call jt (k, v) a = put_attribute k (metavalue_type v False) (metavalue_write jt v) a"
  by (cases v) (simp_all add: Attributes_MetadataAny_def Attributes_MetadataBool_def Attributes_MetadataEnum_def
      Attributes_MetadataFloat64_def Attributes_MetadataInt64_def Attributes_MetadataLink_def
      Attributes_MetadataString_def Attributes_MetadataTime_def)

named_theorems json_text \<open>the text that a method of a builder appends\<close>

lemma builder_text [json_text]:
  "jb_B (AppendByte c b) = jb_B b @ [c]"
  "jb_B (AppendBytes s b) = jb_B b @ s"
  "jb_B (AppendString s b) = jb_B b @ s"
  "jb_B (AddSafeString s b) = jb_B b @ quoted s"
  "jb_B (AddString s b) = jb_B b @ quoted (escapedBody s)"
  "jb_B (AddInt64 i b) = jb_B b @ FormatInt (sint i) 10"
  "jb_B (AddUint64 u b) = jb_B b @ FormatInt (uint u) 10"
  "jb_B (AddBool v b) = jb_B b @ (if v then ''true'' else ''false'')"
  "jb_B (AddFloat64 jt f b) = jb_B b @ jt_float jt f"
  "jb_B (DefaultTimeFormatter jt t rep b) = jb_B b @ quoted (jt_time jt t rep)"
  "jb_B (AddStringBody s b) = jb_B b @ escapedBody s"
  by (simp_all add: AppendByte_def AppendBytes_def AppendString_def AddSafeString_def AddInt64_def AddUint64_def
      AddBool_def AddFloat64_def DefaultTimeFormatter_def quoted_def AddStringBody_eq)

definition model_text :: "'m jtexts \<Rightarrow> 'm ModelArg \<Rightarrow> string" where
  "model_text jt m =
     (let v = ModelArg_Encode (jt_ms jt) m in
      if ma_Encoding v = Encoding_JSON then ma_Encoded v
      else quoted (escapedBody (ma_Encoded v)) @ q '',`encoding`:'' @ quoted (Encoding_ToString (ma_Encoding v)))"

definition any_text :: "'m jtexts \<Rightarrow> 'm ModelArg \<Rightarrow> string" where
  "any_text jt m =
     model_text jt m @ q '',`modelType`:'' @ quoted (escapedBody (ma_ModelType (ModelArg_Encode (jt_ms jt) m)))"

lemma AnyCommon_text [json_text]: "jb_B (AnyCommon jt v b) = jb_B b @ any_text jt v"
  by (simp add: AnyCommon_def any_text_def model_text_def Let_def json_text del: AddString_B)

fun metavalue_text :: "'m jtexts \<Rightarrow> 'm metavalue \<Rightarrow> string" where
  "metavalue_text jt (MAny v) = q ''{`v`:'' @ any_text jt v @ ''}''"
| "metavalue_text jt (MBool v) = (if v then ''true'' else ''false'')"
| "metavalue_text jt (MEnum v) = q ''{`s`:'' @ quoted (escapedBody (ev_str v)) @ q '',`i`:'' @ FormatInt (sint (ev_value v)) 10 @ ''}''"
| "metavalue_text jt (MFloat64 v) = jt_float jt v"
| "metavalue_text jt (MInt64 v) = FormatInt (sint v) 10"
| "metavalue_text jt (MLink v) = quoted (Trace_String v)"
| "metavalue_text jt (MString v) = quoted (escapedBody v)"
| "metavalue_text jt (MTime t rep) = quoted (jt_time jt t rep)"

lemma metavalue_write_text: "jb_B (metavalue_write jt v b) = jb_B b @ metavalue_text jt v"
  by (cases v) (simp_all add: AttributeAny_def AttributeBool_def AttributeEnum_def AttributeFloat64_def
      AttributeInt64_def AttributeLink_def AttributeString_def AttributeTime_def json_text del: AddString_B)

text \<open>The texts of floats do not look like something open.\<close>

definition floats_closed :: "'m jtexts \<Rightarrow> bool" where
  "floats_closed jt \<longleftrightarrow> (\<forall>f. jt_float jt f \<noteq> [] \<and> \<not> opens (last (jt_float jt f)))"

lemma metavalue_text_closed:
  assumes "floats_closed jt"
  shows "metavalue_text jt v \<noteq> [] \<and> \<not> opens (last (metavalue_text jt v))"
proof -
  have i: "FormatInt i 10 \<noteq> [] \<and> \<not> opens (last (FormatInt i 10))" for i
    using valText_last [of "JInt i"] by (simp add: opens_def)
  show ?thesis
    using assms i by (cases v) (auto simp: floats_closed_def quoted_def q_def opens_def)
qed

subsection \<open>The values that are kept\<close>

text \<open>The first of every group of values with the same image.\<close>

function firsts_by :: "('a \<Rightarrow> 'b) \<Rightarrow> 'a list \<Rightarrow> 'a list" where
  "firsts_by f [] = []"
| "firsts_by f (x # xs) = x # firsts_by f (filter (\<lambda>y. f y \<noteq> f x) xs)"
  by pat_completeness auto
termination by (relation "measure (\<lambda>(f, xs). length xs)") (auto simp: le_imp_less_Suc)

lemma firsts_by_snoc:
  "firsts_by f (xs @ [y]) = firsts_by f xs @ (if f y \<in> f ` set xs then [] else [y])"
  by (induction f xs rule: firsts_by.induct) auto

definition kept_values :: "'m jtexts \<Rightarrow> Make \<Rightarrow> 'm metavalue list \<Rightarrow> 'm metavalue list" where
  "kept_values jt p vs =
     (if mk_Multiple p then (if mk_Distinct p then firsts_by (metavalue_text jt) vs else vs)
      else [if mk_Locked p then hd vs else last vs])"

definition key_values :: "string \<Rightarrow> (Attribute \<times> 'm metavalue) list \<Rightarrow> 'm metavalue list" where
  "key_values k cs = map snd (filter (\<lambda>(a, v). at_key a = k) cs)"

lemma key_values_simps [simp]:
  "key_values k [] = []"
  "key_values k (cs @ [(a, v)]) = key_values k cs @ (if at_key a = k then [v] else [])"
  by (simp_all add: key_values_def)

lemma firsts_by_image: "f ` set (firsts_by f xs) = f ` set xs"
  by (induction f xs rule: firsts_by.induct) auto

text \<open>The keys in the order of their first calls.\<close>

definition keys_of :: "bool \<Rightarrow> (Attribute \<times> 'm metavalue) list \<Rightarrow> string list" where
  "keys_of multiple cs = firsts_by id (map (\<lambda>c. at_key (fst c)) (filter (\<lambda>c. mk_Multiple (at_properties (fst c)) = multiple) cs))"

lemma firsts_by_distinct: "distinct (map f (firsts_by f xs))"
proof (induction f xs rule: firsts_by.induct)
  case (2 f x xs)
  have "f ` set (firsts_by f (filter (\<lambda>y. f y \<noteq> f x) xs)) = f ` set (filter (\<lambda>y. f y \<noteq> f x) xs)" by (rule firsts_by_image)
  then have "f x \<notin> f ` set (firsts_by f (filter (\<lambda>y. f y \<noteq> f x) xs))" by auto
  with 2 show ?case by simp
qed simp

lemma keys_of_distinct: "distinct (keys_of multiple cs)"
  using firsts_by_distinct [of id] by (simp add: keys_of_def)

lemma set_firsts_by_id [simp]: "set (firsts_by id xs) = set xs"
  using firsts_by_image [of id xs] by simp

lemma set_keys_of:
  "set (keys_of multiple cs) = {k. \<exists>c \<in> set cs. at_key (fst c) = k \<and> mk_Multiple (at_properties (fst c)) = multiple}"
  by (auto simp: keys_of_def)

lemma keys_of_Nil [simp]: "keys_of multiple [] = []"
  by (simp add: keys_of_def)

lemma keys_of_snoc:
  "keys_of multiple (cs @ [(a, v)]) =
     (if mk_Multiple (at_properties a) = multiple \<and> at_key a \<notin> set (keys_of multiple cs) then keys_of multiple cs @ [at_key a]
      else keys_of multiple cs)"
proof -
  let ?xs = "map (\<lambda>c. at_key (fst c)) (filter (\<lambda>c. mk_Multiple (at_properties (fst c)) = multiple) cs)"
  show ?thesis using firsts_by_snoc [of id ?xs "at_key a"] by (simp add: keys_of_def)
qed

text \<open>What is relied on for the iteration over a map: every key comes once.\<close>

definition order_ok :: "(string list \<Rightarrow> string list) \<Rightarrow> bool" where
  "order_ok order \<longleftrightarrow> (\<forall>ks. distinct ks \<longrightarrow> distinct (order ks) \<and> set (order ks) = set ks)"

text \<open>Two attributes with one key have the same flags and the same text of the key, as in a registry.\<close>

definition consistent :: "(Attribute \<times> 'm metavalue) list \<Rightarrow> bool" where
  "consistent cs \<longleftrightarrow> (\<forall>c \<in> set cs. \<forall>d \<in> set cs. at_key (fst c) = at_key (fst d) \<longrightarrow>
     at_properties (fst c) = at_properties (fst d) \<and> at_jsonKey (fst c) = at_jsonKey (fst d))"

definition single_holds :: "'m jtexts \<Rightarrow> Attribute \<Rightarrow> 'm metavalue list \<Rightarrow> singleAttribute \<Rightarrow> bool" where
  "single_holds jt a vs s \<longleftrightarrow>
     sa_KeyValue s = at_jsonKey a @ metavalue_text jt (hd (kept_values jt (at_properties a) vs)) \<and>
     sa_keyLen s = length (at_jsonKey a)"

definition multi_holds :: "'m jtexts \<Rightarrow> Attribute \<Rightarrow> 'm metavalue list \<Rightarrow> multiAttribute \<Rightarrow> bool" where
  "multi_holds jt a vs m \<longleftrightarrow>
     (let ts = map (metavalue_text jt) (kept_values jt (at_properties a) vs) in
      jb_B (mu_Builder m) = at_jsonKey a @ ''['' @ commas ts \<and>
      (mk_Distinct (at_properties a) \<longrightarrow> mu_Distinct m = Some ts))"

text \<open>What the builder holds under a key after the calls \<open>cs\<close>.\<close>

definition holds :: "'m jtexts \<Rightarrow> (Attribute \<times> 'm metavalue) list \<Rightarrow> AttributeBuilder \<Rightarrow> string \<Rightarrow> bool" where
  "holds jt cs a k \<longleftrightarrow>
     (let vs = key_values k cs; b = key_attribute k cs in
      if vs = [] then map_of (ab_singleMap a) k = None \<and> map_of (ab_multiMap a) k = None
      else if mk_Multiple (at_properties b) then
        map_of (ab_singleMap a) k = None \<and> (\<exists>m. map_of (ab_multiMap a) k = Some m \<and> multi_holds jt b vs m)
      else map_of (ab_multiMap a) k = None \<and> (\<exists>s. map_of (ab_singleMap a) k = Some s \<and> single_holds jt b vs s))"

subsection \<open>Every call keeps it\<close>

lemma key_attribute_values:
  "key_attribute k (cs @ [(a, v)]) =
     (if key_values k cs \<noteq> [] then key_attribute k cs else if at_key a = k then a else key_attribute k (cs @ [(a, v)]))"
  by (simp add: key_values_def key_attribute_def hd_append)

lemma key_attribute_in:
  assumes "key_values k cs \<noteq> []"
  shows "\<exists>v. (key_attribute k cs, v) \<in> set cs" "at_key (key_attribute k cs) = k"
proof -
  have "hd (filter (\<lambda>(a, v). at_key a = k) cs) \<in> set (filter (\<lambda>(a, v). at_key a = k) cs)"
    using assms by (intro hd_in_set) (simp add: key_values_def)
  then show "\<exists>v. (key_attribute k cs, v) \<in> set cs" "at_key (key_attribute k cs) = k"
    by (auto simp: key_attribute_def split: prod.splits)
qed

lemma consistent_key:
  assumes "consistent (cs @ [(a, v)])" "key_values (at_key a) cs \<noteq> []"
  shows "at_properties (key_attribute (at_key a) cs) = at_properties a \<and>
    at_jsonKey (key_attribute (at_key a) cs) = at_jsonKey a"
proof -
  obtain w where "(key_attribute (at_key a) cs, w) \<in> set (cs @ [(a, v)])"
    using key_attribute_in(1) [OF assms(2)] by auto
  moreover have "(a, v) \<in> set (cs @ [(a, v)])" by simp
  ultimately show ?thesis
    using assms(1) key_attribute_in(2) [OF assms(2)] unfolding consistent_def by (metis fst_conv)
qed

lemma put_single_new:
  "map_of (ab_singleMap b) (at_key a) = None \<Longrightarrow>
   put_single a t f b = b\<lparr>ab_singleMap := aput (at_key a)
     \<lparr>sa_Changed = True, sa_Type = t, sa_KeyValue = jb_B (f \<lparr>jb_B = at_jsonKey a, jb_FastKeys = False\<rparr>),
      sa_keyLen = length (at_jsonKey a)\<rparr> (ab_singleMap b)\<rparr>"
  by (simp add: put_single_def addSingle_def single_init_def emptyJB_def json_text)

lemma put_single_old:
  "map_of (ab_singleMap b) (at_key a) = Some s \<Longrightarrow>
   put_single a t f b = b\<lparr>ab_singleMap := aput (at_key a)
     (if mk_Locked (at_properties a) then s\<lparr>sa_Changed := True\<rparr>
      else s\<lparr>sa_Changed := True, sa_Type := t,
        sa_KeyValue := jb_B (f \<lparr>jb_B = take (sa_keyLen s) (sa_KeyValue s), jb_FastKeys = False\<rparr>)\<rparr>) (ab_singleMap b)\<rparr>"
  by (simp add: put_single_def addSingle_def)

lemma Comma_bracket: "jb_B (Comma (AppendByte (CHR ''['') b)) = jb_B b @ ''[''"
  by (simp add: Comma_B json_text)

lemma Comma_commas:
  assumes "jb_B b = p @ ''['' @ commas ts" "\<forall>t \<in> set ts. t \<noteq> [] \<and> \<not> opens (last t)"
  shows "jb_B (Comma b) = p @ ''['' @ (if ts = [] then [] else commas ts @ '','')"
proof (cases "ts = []")
  case True
  with assms show ?thesis by (simp add: Comma_B)
next
  case False
  then have "commas ts \<noteq> [] \<and> \<not> opens (last (commas ts))"
    using assms(2) commas_last [OF False] by auto
  with assms(1) False show ?thesis by (simp add: Comma_B opens_def)
qed

text \<open>One more value in the text of a multiple attribute.\<close>

lemma multi_add_text:
  assumes m: "jb_B (mu_Builder m) = p @ ''['' @ (if ts = [] then [] else commas ts @ '','')"
    and d: "dist \<Longrightarrow> mu_Distinct m = (if ts = [] then None else Some ts)"
    and f: "\<And>b. jb_B (f b) = jb_B b @ t"
  shows "jb_B (mu_Builder (multi_add dist ty f m)) = p @ ''['' @ commas (if dist \<and> t \<in> set ts then ts else ts @ [t])"
    and "dist \<Longrightarrow> mu_Distinct (multi_add dist ty f m) = Some (if t \<in> set ts then ts else ts @ [t])"
    and "mu_Changed (multi_add dist ty f m) = mu_Changed m"
proof -
  have full: "jb_B (mu_Builder m) @ t = p @ ''['' @ commas (ts @ [t])"
    using m by (simp add: commas_snoc)
  have less: "(if last B = CHR '','' then butlast B else B) = p @ ''['' @ commas ts"
    if "B = jb_B (mu_Builder m)" "t \<in> set ts" for B
    using that m by (auto simp: butlast_append)
  show "jb_B (mu_Builder (multi_add dist ty f m)) = p @ ''['' @ commas (if dist \<and> t \<in> set ts then ts else ts @ [t])"
  proof (cases "dist \<and> t \<in> set ts")
    case True
    then have "ts \<noteq> []" by auto
    with True d have "mu_Distinct m = Some ts" by simp
    with True less [OF refl] show ?thesis by (simp add: multi_add_def f)
  next
    case False
    then have "jb_B (mu_Builder (multi_add dist ty f m)) = jb_B (mu_Builder m) @ t"
      using d by (auto simp: multi_add_def f Let_def split: option.split)
    moreover have "(dist \<and> t \<in> set ts) = False" using False by blast
    ultimately show ?thesis using full by (simp only: if_False)
  qed
  show "mu_Distinct (multi_add dist ty f m) = Some (if t \<in> set ts then ts else ts @ [t])" if dist
    using d that by (auto simp: multi_add_def f Let_def)
  show "mu_Changed (multi_add dist ty f m) = mu_Changed m"
    by (auto simp: multi_add_def Let_def split: option.split)
qed

lemma put_multi_text:
  assumes f: "\<And>b. jb_B (f b) = jb_B b @ t"
    and m: "map_of (ab_multiMap b) (at_key a) = None \<and> ts = [] \<or>
      (\<exists>m. map_of (ab_multiMap b) (at_key a) = Some m \<and> ts \<noteq> [] \<and>
         jb_B (mu_Builder m) = at_jsonKey a @ ''['' @ commas ts \<and> (mk_Distinct (at_properties a) \<longrightarrow> mu_Distinct m = Some ts))"
    and ts: "\<forall>t \<in> set ts. t \<noteq> [] \<and> \<not> opens (last t)"
  shows "\<exists>m. put_multi a ty f b = b\<lparr>ab_multiMap := aput (at_key a) m (ab_multiMap b)\<rparr> \<and> mu_Changed m \<and>
    jb_B (mu_Builder m) = at_jsonKey a @ ''['' @ commas (if mk_Distinct (at_properties a) \<and> t \<in> set ts then ts else ts @ [t]) \<and>
    (mk_Distinct (at_properties a) \<longrightarrow> mu_Distinct m = Some (if t \<in> set ts then ts else ts @ [t]))"
proof -
  let ?m = "addMulti (at_key a) (at_jsonKey a) b"
  have B: "jb_B (mu_Builder ?m) = at_jsonKey a @ ''['' @ (if ts = [] then [] else commas ts @ '','')"
    using m Comma_commas [OF _ ts] by (auto simp: addMulti_def multi_init_def JB_Reset_def Comma_B json_text)
  have d: "mu_Distinct ?m = (if ts = [] then None else Some ts)" if "mk_Distinct (at_properties a)"
    using m that by (auto simp: addMulti_def multi_init_def)
  have "mu_Changed ?m" by (simp add: addMulti_def Let_def)
  then show ?thesis
    using multi_add_text [where dist = "mk_Distinct (at_properties a)" and ty = ty and f = f, OF B d f]
    unfolding put_multi_def Let_def
    by (intro exI [of _ "multi_add (mk_Distinct (at_properties a)) ty f ?m"]) simp
qed

lemma kept_values_snoc:
  "vs \<noteq> [] \<Longrightarrow> kept_values jt p (vs @ [v]) =
     (if mk_Multiple p then
        kept_values jt p vs @
          (if mk_Distinct p \<and> metavalue_text jt v \<in> metavalue_text jt ` set vs then [] else [v])
      else [if mk_Locked p then hd vs else v])"
  by (simp add: kept_values_def firsts_by_snoc)

lemma kept_values_image:
  "mk_Multiple p \<Longrightarrow> metavalue_text jt ` set (kept_values jt p vs) = metavalue_text jt ` set vs"
  by (simp add: kept_values_def firsts_by_image)

lemma kept_values_nonempty: "vs \<noteq> [] \<Longrightarrow> kept_values jt p vs \<noteq> []"
  by (cases vs) (simp_all add: kept_values_def)

text \<open>A call leaves the other keys alone.\<close>

lemma put_attribute_other:
  assumes "k \<noteq> at_key a"
  shows "map_of (ab_singleMap (put_attribute a t f b)) k = map_of (ab_singleMap b) k"
    "map_of (ab_multiMap (put_attribute a t f b)) k = map_of (ab_multiMap b) k"
  using assms by (simp_all add: put_attribute_def put_single_def put_multi_def Let_def split: prod.split)

lemma holds_call:
  assumes fl: "floats_closed jt" and h: "holds jt cs b k" and c: "consistent (cs @ [(a, v)])"
  shows "holds jt (cs @ [(a, v)]) (Attributes_call jt (a, v) b) k"
proof (cases "at_key a = k")
  case False
  then have "key_values k (cs @ [(a, v)]) = key_values k cs"
    "key_attribute k (cs @ [(a, v)]) = key_attribute k cs"
    by (simp_all add: key_attribute_def)
  with h False show ?thesis
    by (simp add: holds_def Let_def Attributes_call_put put_attribute_other)
next
  case True
  let ?p = "at_properties a" and ?t = "metavalue_text jt" and ?f = "metavalue_write jt v"
  let ?vs = "key_values k cs" and ?b = "key_attribute k (cs @ [(a, v)])"
  have b: "at_properties ?b = ?p \<and> at_jsonKey ?b = at_jsonKey a"
    using consistent_key [OF c] True key_attribute_values [of k cs a v] by (cases "?vs = []") simp_all
  have vs: "key_values k (cs @ [(a, v)]) = ?vs @ [v]" using True by simp
  have old: "?vs \<noteq> [] \<Longrightarrow> at_properties (key_attribute k cs) = ?p \<and> at_jsonKey (key_attribute k cs) = at_jsonKey a"
    using consistent_key [OF c] True by simp
  show ?thesis
  proof (cases "mk_Multiple ?p")
    case single: False
    have nm: "map_of (ab_multiMap b) k = None"
      using h old single by (auto simp: holds_def Let_def split: if_splits)
    show ?thesis
    proof (cases "?vs = []")
      case empty: True
      with h have "map_of (ab_singleMap b) (at_key a) = None" using True by (simp add: holds_def Let_def)
      with empty single nm b True show ?thesis
        by (simp add: holds_def Let_def vs Attributes_call_put put_attribute_def put_single_new single_holds_def
            kept_values_def metavalue_write_text)
    next
      case False
      with h old single obtain s where s: "map_of (ab_singleMap b) (at_key a) = Some s"
        "single_holds jt (key_attribute k cs) ?vs s"
        using True by (auto simp: holds_def Let_def)
      with old [OF False] single have "sa_KeyValue s = at_jsonKey a @ ?t (if mk_Locked ?p then hd ?vs else last ?vs)"
        "sa_keyLen s = length (at_jsonKey a)"
        by (simp_all add: single_holds_def kept_values_def)
      with False single nm b True s(1) show ?thesis
        by (simp add: holds_def Let_def vs Attributes_call_put put_attribute_def put_single_old single_holds_def
            kept_values_snoc metavalue_write_text hd_append)
    qed
  next
    case multi: True
    have ns: "map_of (ab_singleMap b) k = None"
      using h old multi by (auto simp: holds_def Let_def split: if_splits)
    let ?ts = "if ?vs = [] then [] else map ?t (kept_values jt ?p ?vs)"
    have m: "map_of (ab_multiMap b) (at_key a) = None \<and> ?ts = [] \<or>
      (\<exists>m. map_of (ab_multiMap b) (at_key a) = Some m \<and> ?ts \<noteq> [] \<and>
         jb_B (mu_Builder m) = at_jsonKey a @ ''['' @ commas ?ts \<and> (mk_Distinct ?p \<longrightarrow> mu_Distinct m = Some ?ts))"
      using h old multi True kept_values_nonempty [of ?vs jt ?p] by (auto simp: holds_def multi_holds_def Let_def split: if_splits)
    have closed: "\<forall>t \<in> set ?ts. t \<noteq> [] \<and> \<not> opens (last t)"
      using metavalue_text_closed [OF fl] by auto
    have im: "?t v \<in> set ?ts \<longleftrightarrow> ?t v \<in> ?t ` set ?vs"
      using kept_values_image [OF multi, of jt ?vs] by auto
    have kept: "map ?t (kept_values jt ?p (?vs @ [v])) =
        (if mk_Distinct ?p \<and> ?t v \<in> set ?ts then ?ts else ?ts @ [?t v])"
    proof (cases "?vs = []")
      case True
      with multi show ?thesis by (simp add: kept_values_def)
    next
      case False
      from kept_values_snoc [OF False, of jt ?p v] im multi False show ?thesis by simp
    qed
    from put_multi_text [where b = "b\<lparr>ab_anyChanged := True\<rparr>" and f = ?f and ty = "metavalue_type v False",
        OF metavalue_write_text _ closed] m
    obtain m' where m': "put_multi a (metavalue_type v False) ?f (b\<lparr>ab_anyChanged := True\<rparr>) =
        b\<lparr>ab_anyChanged := True, ab_multiMap := aput (at_key a) m' (ab_multiMap b)\<rparr>"
      "jb_B (mu_Builder m') = at_jsonKey a @ ''['' @ commas (map ?t (kept_values jt ?p (?vs @ [v])))"
      "mk_Distinct ?p \<longrightarrow> mu_Distinct m' = Some (map ?t (kept_values jt ?p (?vs @ [v])))"
      unfolding kept by auto
    have "multi_holds jt ?b (?vs @ [v]) m'" using m'(2,3) b by (simp add: multi_holds_def)
    with multi m'(1) ns True b show ?thesis
      by (simp add: holds_def Let_def vs Attributes_call_put put_attribute_def)
  qed
qed

lemma consistent_append: "consistent (cs @ ds) \<Longrightarrow> consistent cs"
  unfolding consistent_def set_append by blast

lemma holds_calls:
  "floats_closed jt \<Longrightarrow> consistent cs \<Longrightarrow> holds jt cs (fold (Attributes_call jt) cs AttributeBuilder_Init) k"
proof (induction cs rule: rev_induct)
  case Nil
  then show ?case by (simp add: holds_def AttributeBuilder_Init_def)
next
  case (snoc c cs)
  obtain a v where c: "c = (a, v)" by (cases c)
  have "consistent cs" using snoc.prems(2) by (rule consistent_append)
  with snoc have "holds jt cs (fold (Attributes_call jt) cs AttributeBuilder_Init) k" by blast
  from holds_call [OF snoc.prems(1) this] snoc.prems(2) show ?case by (simp add: c)
qed

subsection \<open>The builder against the metadata store\<close>

lemma first_occ_firsts_by:
  assumes "sorted_wrt (\<lambda>v w. f v = f w \<longleftrightarrow> seen_eq (fst (g v)) (fst (g w))) vs"
  shows "first_occ (map g vs) = map g (firsts_by f vs)"
  using assms
proof (induction f vs rule: firsts_by.induct)
  case (2 f v vs)
  then have eq: "\<And>w. w \<in> set vs \<Longrightarrow> seen_eq (fst (g w)) (fst (g v)) \<longleftrightarrow> f w = f v"
    using seen_eq_sym [of "fst (g v)"] by fastforce
  have "filter (\<lambda>y. \<not> seen_eq (fst y) (fst (g v))) (map g vs) = map g (filter (\<lambda>w. f w \<noteq> f v) vs)"
    unfolding filter_map o_def by (rule arg_cong [of _ _ "map g"], rule filter_cong) (simp_all add: eq)
  moreover have "first_occ (map g (filter (\<lambda>w. f w \<noteq> f v) vs)) = map g (firsts_by f (filter (\<lambda>w. f w \<noteq> f v) vs))"
    using 2 by (intro "2.IH") (simp add: sorted_wrt_filter)
  ultimately show ?case by simp
qed simp

lemma metavalue_text_stored:
  assumes "marshallers_ok (jt_ms jt)" "\<forall>x. ms_typeName (jt_ms jt) x \<noteq> []"
  shows "metavalue_text jt (metavalue_stored (jt_ms jt) v) = metavalue_text jt v"
proof -
  have fixed: "ModelArg_Encode (jt_ms jt) (ModelArg_Encode (jt_ms jt) m) = ModelArg_Encode (jt_ms jt) m" for m
  proof (rule Encode_fixed [OF Encode_Encoded [OF assms(1)]])
    show "ma_ModelType (ModelArg_Encode (jt_ms jt) m) \<noteq> [] \<or> ma_Model (ModelArg_Encode (jt_ms jt) m) = None"
      using assms(2) by (auto simp: Encode_ModelType split: option.split)
  qed
  show ?thesis by (cases v) (simp_all add: metavalue_stored_def any_text_def model_text_def fixed)
qed

lemma key_items_values:
  "key_items ms k cs = map (\<lambda>v. (metavalue_key ms v, metavalue_stored ms v)) (key_values k cs)"
  by (induction cs) (auto simp: key_items_def key_values_def)

text \<open>Two values are taken for equal by their texts exactly when the store takes them for equal.\<close>

definition texts_agree :: "'m jtexts \<Rightarrow> 'm metavalue \<Rightarrow> 'm metavalue \<Rightarrow> bool" where
  "texts_agree jt v w \<longleftrightarrow>
     (metavalue_text jt v = metavalue_text jt w \<longleftrightarrow> seen_eq (metavalue_key (jt_ms jt) v) (metavalue_key (jt_ms jt) w))"

definition tracked_texts :: "'m jtexts \<Rightarrow> 'm tracked option \<Rightarrow> string \<Rightarrow> string option \<times> string option" where
  "tracked_texts jt t jsonKey =
     (case t of
        None \<Rightarrow> (None, None)
      | Some (Single w) \<Rightarrow> (Some (jsonKey @ metavalue_text jt w), None)
      | Some (Many ws) \<Rightarrow> (None, Some (jsonKey @ ''['' @ commas (map (metavalue_text jt) ws))))"

text \<open>
  C12. The attribute buffers of a JSON span and the metadata store of the recorder agree: after the
  same calls, whatever their order and keys, the buffer of a key holds the text of the value (or
  of the list of values) that the store holds for it, and nothing if the store holds nothing.
  Where an attribute is distinct, the buffers compare texts and the store compares values, so its
  values must have equal texts exactly when they are equal for the store. (They have not for
  a NaN, for \<open>0\<close> and \<open>-0\<close>, and for two enum values with one name.)
\<close>

theorem attributes_agree_with_store:
  assumes "floats_closed jt" "marshallers_ok (jt_ms jt)" "\<forall>x. ms_typeName (jt_ms jt) x \<noteq> []"
    and c: "consistent cs" and s: "Metadata_calls (jt_ms jt) cs [] = Some s"
    and agree: "mk_Distinct (at_properties (key_attribute k cs)) \<Longrightarrow> sorted_wrt (texts_agree jt) (key_values k cs)"
  shows "(let b = fold (Attributes_call jt) cs AttributeBuilder_Init in
     (map_option sa_KeyValue (map_of (ab_singleMap b) k),
      map_option (\<lambda>m. jb_B (mu_Builder m)) (map_of (ab_multiMap b) k)) =
     tracked_texts jt (Metadata_GetValue k s) (at_jsonKey (key_attribute k cs)))"
proof -
  let ?b = "fold (Attributes_call jt) cs AttributeBuilder_Init" and ?vs = "key_values k cs"
  let ?p = "at_properties (key_attribute k cs)" and ?t = "metavalue_text jt"
  let ?g = "\<lambda>v. (metavalue_key (jt_ms jt) v, metavalue_stored (jt_ms jt) v)"
  have h: "holds jt cs ?b k" by (rule holds_calls [OF assms(1) c])
  have v: "Metadata_GetValue k s = (if ?vs = [] then None else Some (tracked_spec ?p (map ?g ?vs)))"
    using Metadata_GetValue_calls [OF s, of k] by (simp add: key_items_values)
  show ?thesis
  proof (cases "?vs = []")
    case True
    with h v show ?thesis by (simp add: holds_def tracked_texts_def Let_def)
  next
    case False
    have hd: "snd (hd (map ?g ?vs)) = metavalue_stored (jt_ms jt) (hd ?vs)"
      "snd (last (map ?g ?vs)) = metavalue_stored (jt_ms jt) (last ?vs)"
      using False by (simp_all add: hd_map last_map)
    have kept: "map ?t (map snd (if mk_Distinct ?p then first_occ (map ?g ?vs) else map ?g ?vs)) =
        map ?t (kept_values jt ?p ?vs)" if "mk_Multiple ?p"
    proof -
      have st: "?t \<circ> (\<lambda>v. snd (?g v)) = ?t"
        using metavalue_text_stored [OF assms(2,3)] by (simp add: fun_eq_iff)
      have "first_occ (map ?g ?vs) = map ?g (firsts_by ?t ?vs)" if "mk_Distinct ?p"
        using agree [OF that] by (intro first_occ_firsts_by) (simp add: texts_agree_def [abs_def])
      then show ?thesis using that st by (simp add: kept_values_def o_def)
    qed
    show ?thesis
    proof (cases "mk_Multiple ?p")
      case True
      with h False obtain m where "map_of (ab_singleMap ?b) k = None" "map_of (ab_multiMap ?b) k = Some m"
        "multi_holds jt (key_attribute k cs) ?vs m" by (auto simp: holds_def Let_def)
      with True False v kept [OF True] show ?thesis
        by (simp add: tracked_texts_def tracked_spec_def multi_holds_def Let_def)
    next
      case single: False
      with h False obtain e where "map_of (ab_multiMap ?b) k = None" "map_of (ab_singleMap ?b) k = Some e"
        "single_holds jt (key_attribute k cs) ?vs e" by (auto simp: holds_def Let_def)
      with single False v hd metavalue_text_stored [OF assms(2,3)] show ?thesis
        by (simp add: tracked_texts_def tracked_spec_def single_holds_def kept_values_def Let_def)
    qed
  qed
qed

definition int_jtexts :: "int jtexts" where
  "int_jtexts = \<lparr>jt_time = (\<lambda>t _. Itoa t), jt_float = (\<lambda>f. Itoa (uint f)), jt_duration = (\<lambda>d. Itoa (sint d) @ ''ns''),
     jt_ms = int_marshallers\<rparr>"

lemma Itoa_closed: "Itoa i \<noteq> [] \<and> \<not> opens (last (Itoa i))"
  using valText_last [of "JInt i"] by (simp add: opens_def Itoa_def)

lemma int_jtexts_closed: "floats_closed int_jtexts"
  using Itoa_closed by (simp add: floats_closed_def int_jtexts_def)

theorem attributes_agree_with_store_witness:
  "(let b = fold (Attributes_call int_jtexts)
       [(distinctAttr, MString ''x''), (distinctAttr, MString ''y''), (distinctAttr, MString ''x'')] AttributeBuilder_Init in
     map_option (\<lambda>m. jb_B (mu_Builder m)) (map_of (ab_multiMap b) ''d'')) = Some (q ''[`x`,`y`'')"
proof -
  let ?cs = "[(distinctAttr, MString ''x''), (distinctAttr, MString ''y''), (distinctAttr, MString ''x'')]"
  have "no_conflicts int_marshallers ?cs" by code_simp
  then obtain s where s: "Metadata_calls int_marshallers ?cs [] = Some s"
    using Metadata_calls_spec [of int_marshallers ?cs] by auto
  have items: "key_items int_marshallers ''d'' ?cs \<noteq> []"
    "tracked_spec (at_properties (key_attribute ''d'' ?cs)) (key_items int_marshallers ''d'' ?cs) =
      Many [MString ''x'', MString ''y'']" by code_simp+
  have v: "Metadata_GetValue ''d'' s = Some (Many [MString ''x'', MString ''y''])"
    using Metadata_GetValue_calls [OF s, of "''d''"] items by simp
  have ms: "jt_ms int_jtexts = int_marshallers" by (simp add: int_jtexts_def)
  have c: "consistent ?cs" by (auto simp: consistent_def)
  have a: "sorted_wrt (texts_agree int_jtexts) (key_values ''d'' ?cs)" by code_simp
  have t: "\<forall>x. ms_typeName (jt_ms int_jtexts) x \<noteq> []" by (simp add: ms int_marshallers_def)
  have r: "tracked_texts int_jtexts (Some (Many [MString ''x'', MString ''y''])) (at_jsonKey (key_attribute ''d'' ?cs)) =
      (None, Some (q ''[`x`,`y`''))" by code_simp
  from attributes_agree_with_store [OF int_jtexts_closed _ t c, of s "''d''"] int_marshallers_ok s a
  show ?thesis unfolding Let_def ms v r prod.inject by blast
qed

end
