(* ===== verification/JSONLogger.thy ===== *)
theory JSONLogger
  imports JSONAttributes BaseAPI
begin

section \<open>The JSON base logger\<close>

text \<open>
  Models \<open>xopjson/jsonlogger.go\<close> and \<open>models.go\<close>, writing through \<open>xopbytes/iowriter.go\<close>. Requests and
  spans are one store (a request is a span with the fields of \<open>jrequest\<close>), as are prefillings,
  prefills and lines; a pointer is an index. A line comes back to \<open>linePool\<close> after it was written and
  can be handed out again: \<open>je_pool\<close> chooses what \<open>sync.Pool\<close> gives, which may be nothing. The pool
  of builders is left out: a builder that comes from it is reset, and nothing else refers to it.
  What the \<open>io.Writer\<close> got is the list of the texts of its calls; \<open>je_fails\<close> says which calls
  fail. A call of the error reporter is counted.
\<close>

subsection \<open>Configuration\<close>

datatype DurationOption = AsNanos | AsMicros | AsMillis | AsSeconds | AsString

datatype AttributeOption = AttributesDefinedAlways | AttributesDefinedOnce | AttributesDefinedEachRequest

text \<open>The bits of \<open>TagOption\<close>.\<close>

definition SpanIDTagOption :: nat where "SpanIDTagOption = 0"
definition TraceIDTagOption :: nat where "TraceIDTagOption = 1"
definition TraceNumberTagOption :: nat where "TraceNumberTagOption = 3"
definition SpanSequenceTagOption :: nat where "SpanSequenceTagOption = 4"

lemmas tag_defs = SpanIDTagOption_def TraceIDTagOption_def TraceNumberTagOption_def SpanSequenceTagOption_def

definition maxBufferToKeep :: nat where "maxBufferToKeep = 1024 * 10"

record jconfig =
  lc_fastKeys :: bool
  lc_durationFormat :: DurationOption
  lc_spanStarts :: bool
  lc_spanChangesOnly :: bool
  lc_id :: string
  lc_tagOption :: int
  lc_attributesObject :: bool
  lc_durationKey :: "string option"
  lc_attributeOption :: AttributeOption

datatype joption = WithSpanStarts bool | WithUncheckedKeys bool | WithAttributeDefinitions AttributeOption

fun apply_joption :: "joption \<Rightarrow> jconfig \<Rightarrow> jconfig" where
  "apply_joption (WithSpanStarts b) l = l\<lparr>lc_spanStarts := b\<rparr>"
| "apply_joption (WithUncheckedKeys b) l = l\<lparr>lc_fastKeys := b\<rparr>"
| "apply_joption (WithAttributeDefinitions ao) l = l\<lparr>lc_attributeOption := ao\<rparr>"

definition IOWriter_Buffered :: bool where
  "IOWriter_Buffered = False"

definition JSON_config :: "string \<Rightarrow> joption list \<Rightarrow> jconfig" where
  "JSON_config ident opts =
     (let log = \<lparr>lc_fastKeys = False, lc_durationFormat = AsNanos, lc_spanStarts = True, lc_spanChangesOnly = False,
            lc_id = ident, lc_tagOption = 17, lc_attributesObject = True,
            lc_durationKey = Some (BuildKey ''dur''), lc_attributeOption = AttributesDefinedAlways\<rparr>;
          log = fold apply_joption opts log
      in if lc_tagOption log = 0 then log\<lparr>lc_tagOption := (if IOWriter_Buffered then 1 else 3)\<rparr> else log)"

subsection \<open>State\<close>

record jbuilder =
  bd_JB :: JBuilder
  bd_span :: nat
  bd_attributesStarted :: bool
  bd_attributesWanted :: bool

record jrequest =
  jr_idNum :: i64
  jr_errorCount :: i32
  jr_alertCount :: i32
  jr_sourceInfo :: SourceInfo
  jr_tracking :: "string list"
  jr_reporter :: bool
  jr_reports :: nat

record jspan =
  js_endTime :: i64
  js_bundle :: Bundle
  js_name :: string
  js_request :: nat
  js_startTime :: time
  js_serializationCount :: i32
  js_attributes :: AttributeBuilder
  js_sequenceCode :: string
  js_spanIDPrebuilt :: string
  js_req :: "jrequest option"

record jprefilled =
  jp_data :: string
  jp_preEncodedMsg :: string
  jp_span :: nat

record jline =
  jl_builder :: jbuilder
  jl_level :: int
  jl_timestamp :: time
  jl_prefillMsg :: string

record iowriter =
  iow_written :: "string list"
  iow_calls :: nat

record jlogger =
  lg_config :: jconfig
  lg_requestCount :: i64
  lg_tracking :: "string list"
  lg_spans :: "jspan list"
  lg_prefillings :: "jbuilder list"
  lg_prefilleds :: "jprefilled list"
  lg_lines :: "jline list"
  lg_linePool :: "nat list"
  lg_poolGets :: nat
  lg_writer :: iowriter

record 'm jenv =
  je_texts :: "'m jtexts"
  je_order :: "nat \<Rightarrow> string list \<Rightarrow> string list"
  je_pool :: "nat \<Rightarrow> nat list \<Rightarrow> nat option"
  je_fails :: "nat \<Rightarrow> bool"

definition JSON_New :: "string \<Rightarrow> joption list \<Rightarrow> jlogger" where
  "JSON_New ident opts = \<lparr>lg_config = JSON_config ident opts, lg_requestCount = 0, lg_tracking = [], lg_spans = [],
     lg_prefillings = [], lg_prefilleds = [], lg_lines = [], lg_linePool = [], lg_poolGets = 0,
     lg_writer = \<lparr>iow_written = [], iow_calls = 0\<rparr>\<rparr>"

definition upd_jspan :: "nat \<Rightarrow> (jspan \<Rightarrow> jspan) \<Rightarrow> jlogger \<Rightarrow> jlogger" where
  "upd_jspan s g st = st\<lparr>lg_spans := (lg_spans st)[s := g (lg_spans st ! s)]\<rparr>"

definition upd_jreq :: "nat \<Rightarrow> (jrequest \<Rightarrow> jrequest) \<Rightarrow> jlogger \<Rightarrow> jlogger" where
  "upd_jreq r g = upd_jspan r (\<lambda>x. x\<lparr>js_req := map_option g (js_req x)\<rparr>)"

definition request_of :: "nat \<Rightarrow> jlogger \<Rightarrow> jrequest" where
  "request_of s st = the (js_req (lg_spans st ! js_request (lg_spans st ! s)))"

subsection \<open>The writer\<close>

definition iow_Write :: "'m jenv \<Rightarrow> string \<Rightarrow> iowriter \<Rightarrow> iowriter \<times> bool" where
  "iow_Write env b w =
     (if je_fails env (iow_calls w) then (w\<lparr>iow_calls := iow_calls w + 1\<rparr>, True)
      else (w\<lparr>iow_written := iow_written w @ [b], iow_calls := iow_calls w + 1\<rparr>, False))"

definition iow_definition_text :: "Attribute \<Rightarrow> Trace option \<Rightarrow> string" where
  "iow_definition_text k requestTrace =
     (case requestTrace of
        Some t \<Rightarrow>
          (let jdef = at_jsonDef k in
           take (length jdef - 2) jdef @ q '',`span.id`:`'' @ hb_h (tr_spanID (initialize t)) @ q ''`}'' @ [CHR 0x0A])
      | None \<Rightarrow> at_jsonDef k)"

text \<open>A call of the writer, and of the request's \<open>errorFunc\<close> if it failed.\<close>

definition json_write :: "'m jenv \<Rightarrow> nat \<Rightarrow> string \<Rightarrow> jlogger \<Rightarrow> jlogger" where
  "json_write env r b st =
     (let (w, err) = iow_Write env b (lg_writer st);
          st = st\<lparr>lg_writer := w\<rparr>
      in if err then upd_jreq r (\<lambda>x. if jr_reporter x then x\<lparr>jr_reports := jr_reports x + 1\<rparr> else x) st else st)"

subsection \<open>Builders\<close>

definition on_JB :: "(JBuilder \<Rightarrow> JBuilder) \<Rightarrow> jbuilder \<Rightarrow> jbuilder" where
  "on_JB f b = b\<lparr>bd_JB := f (bd_JB b)\<rparr>"

definition newBuilder :: "nat \<Rightarrow> jlogger \<Rightarrow> jbuilder" where
  "newBuilder s st = \<lparr>bd_JB = \<lparr>jb_B = [], jb_FastKeys = lc_fastKeys (lg_config st)\<rparr>, bd_span = s,
     bd_attributesStarted = False, bd_attributesWanted = False\<rparr>"

definition builder_reset :: "nat \<Rightarrow> jbuilder \<Rightarrow> jbuilder" where
  "builder_reset s b = b\<lparr>bd_span := s, bd_JB := (bd_JB b)\<lparr>jb_B := []\<rparr>, bd_attributesWanted := False,
     bd_attributesStarted := False\<rparr>"

definition startAttributes :: "jbuilder \<Rightarrow> jbuilder" where
  "startAttributes b =
     (if bd_attributesWanted b \<and> \<not> bd_attributesStarted b
      then on_JB (AppendBytes (q '',`attributes`:{'')) (b\<lparr>bd_attributesStarted := True\<rparr>) else b)"

definition addKey :: "string \<Rightarrow> JBuilder \<Rightarrow> JBuilder" where
  "addKey k b = AppendByte (CHR '':'') (AppendBytes (K_JSON k) (Comma b))"

definition dataTypeName :: "int \<Rightarrow> string" where
  "dataTypeName t = (case mapLiteral DataTypeToString t of Some s \<Rightarrow> s | None \<Rightarrow> [])"

definition jb_Any :: "'m jtexts \<Rightarrow> string \<Rightarrow> 'm ModelArg \<Rightarrow> jbuilder \<Rightarrow> jbuilder" where
  "jb_Any jt k v b =
     on_JB (\<lambda>b. AppendBytes (q '',`t`:`any`}'') (AnyCommon jt v (AppendBytes (q ''{`v`:'') (addKey k b)))) (startAttributes b)"

definition jb_Enum :: "Attribute \<Rightarrow> enumValue \<Rightarrow> jbuilder \<Rightarrow> jbuilder" where
  "jb_Enum k v b =
     on_JB (\<lambda>b.
       (let b = AppendBytes (at_jsonKey k) (Comma b);
            b = AddString (ev_str v) (AppendBytes (q ''{`v`:'') b);
            b = AddInt64 (ev_value v) (AppendBytes (q '',`i`:'') b)
        in AppendBytes (q '',`t`:`enum`}'') b)) (startAttributes b)"

definition jb_Time :: "'m jtexts \<Rightarrow> string \<Rightarrow> int \<Rightarrow> nat \<Rightarrow> jbuilder \<Rightarrow> jbuilder" where
  "jb_Time jt k t rep b =
     on_JB (\<lambda>b. AppendBytes (q '',`t`:`time`}'') (DefaultTimeFormatter jt t rep (AppendBytes (q ''{`v`:'') (addKey k b))))
       (startAttributes b)"

definition jb_Bool :: "string \<Rightarrow> bool \<Rightarrow> jbuilder \<Rightarrow> jbuilder" where
  "jb_Bool k v b =
     on_JB (\<lambda>b. AppendBytes (q '',`t`:`bool`}'') (AddBool v (AppendBytes (q ''{`v`:'') (addKey k b)))) (startAttributes b)"

text \<open>\<open>Int64\<close>, \<open>Uint64\<close>, \<open>String\<close> and \<open>Float64\<close> end alike.\<close>

definition close_typed :: "int \<Rightarrow> JBuilder \<Rightarrow> JBuilder" where
  "close_typed t b = AppendByte (CHR ''}'') (AddSafeString (dataTypeName t) (AppendBytes (q '',`t`:'') b))"

definition jb_Int64 :: "string \<Rightarrow> i64 \<Rightarrow> int \<Rightarrow> jbuilder \<Rightarrow> jbuilder" where
  "jb_Int64 k v t b =
     on_JB (\<lambda>b. close_typed t (AddInt64 v (AppendBytes (q ''{`v`:'') (addKey k b)))) (startAttributes b)"

definition jb_Uint64 :: "string \<Rightarrow> u64 \<Rightarrow> int \<Rightarrow> jbuilder \<Rightarrow> jbuilder" where
  "jb_Uint64 k v t b =
     on_JB (\<lambda>b. close_typed t (AddUint64 v (AppendBytes (q ''{`v`:'') (addKey k b)))) (startAttributes b)"

definition stringKV :: "string \<Rightarrow> string \<Rightarrow> jbuilder \<Rightarrow> jbuilder" where
  "stringKV k v b = on_JB (\<lambda>b. AddString v (addKey k b)) (startAttributes b)"

definition jb_String :: "string \<Rightarrow> string \<Rightarrow> int \<Rightarrow> jbuilder \<Rightarrow> jbuilder" where
  "jb_String k v t b =
     on_JB (\<lambda>b. close_typed t (AddString v (AppendBytes (q ''{`v`:'') (addKey k b)))) (startAttributes b)"

definition jb_Float64 :: "'m jtexts \<Rightarrow> string \<Rightarrow> u64 \<Rightarrow> int \<Rightarrow> jbuilder \<Rightarrow> jbuilder" where
  "jb_Float64 jt k v t b =
     on_JB (\<lambda>b. close_typed t (AddFloat64 jt v (AppendBytes (q ''{`v`:'') (addKey k b)))) (startAttributes b)"

definition jb_Duration :: "'m jtexts \<Rightarrow> string \<Rightarrow> int \<Rightarrow> jbuilder \<Rightarrow> jbuilder" where
  "jb_Duration jt k v b =
     on_JB (\<lambda>b. AppendBytes (q '',`t`:`dur`}'')
         (AddSafeString (jt_duration jt (word_of_int v)) (AppendBytes (q ''{`v`:'') (addKey k b)))) (startAttributes b)"

fun json_build :: "'m jtexts \<Rightarrow> 'm build_call \<Rightarrow> jbuilder \<Rightarrow> jbuilder" where
  "json_build jt (BEnum k v) b = jb_Enum k v b"
| "json_build jt (BFloat64 k v t) b = jb_Float64 jt k v t b"
| "json_build jt (BInt64 k v t) b = jb_Int64 k v t b"
| "json_build jt (BString k v t) b = jb_String k v t b"
| "json_build jt (BUint64 k v t) b = jb_Uint64 k v t b"
| "json_build jt (BAny k v) b = jb_Any jt k v b"
| "json_build jt (BBool k v) b = jb_Bool k v b"
| "json_build jt (BDuration k v) b = jb_Duration jt k v b"
| "json_build jt (BTime k t rep) b = jb_Time jt k t rep b"

text \<open>\<open>v / time.Microsecond\<close> and so on truncate towards zero.\<close>

definition duration_div :: "i64 \<Rightarrow> int \<Rightarrow> i64" where
  "duration_div v d = word_of_int (sgn (sint v) * (\<bar>sint v\<bar> div d))"

definition jb_AttributeDuration :: "'m jtexts \<Rightarrow> DurationOption \<Rightarrow> i64 \<Rightarrow> JBuilder \<Rightarrow> JBuilder" where
  "jb_AttributeDuration jt format v b =
     (case format of
        AsNanos \<Rightarrow> AddInt64 v b
      | AsMicros \<Rightarrow> AddInt64 (duration_div v 1000) b
      | AsMillis \<Rightarrow> AddInt64 (duration_div v 1000000) b
      | AsSeconds \<Rightarrow> AddInt64 (duration_div v 1000000000) b
      | AsString \<Rightarrow> AddSafeString (jt_duration jt v) b)"

subsection \<open>Requests and spans\<close>

definition identifySpan :: "jconfig \<Rightarrow> i64 \<Rightarrow> jspan \<Rightarrow> JBuilder \<Rightarrow> JBuilder" where
  "identifySpan cfg idNum s b =
     (let tag = lc_tagOption cfg; t = initialize (bu_Trace (js_bundle s));
          b = (if bit tag SpanIDTagOption then AddSafeString (Wrapped_String SpanIDField t) (AddSafeKey ''span.id'' b) else b);
          b = (if bit tag TraceIDTagOption then AddSafeString (Wrapped_String TraceIDField t) (AddSafeKey ''trace.id'' b) else b);
          b = (if bit tag TraceNumberTagOption then AddInt64 idNum (AddSafeKey ''trace.num'' b) else b)
      in if bit tag SpanSequenceTagOption then AddSafeString (js_sequenceCode s) (AddSafeKey ''span.seq'' b) else b)"

definition setSpanIDPrefill :: "jconfig \<Rightarrow> i64 \<Rightarrow> jspan \<Rightarrow> jspan" where
  "setSpanIDPrefill cfg idNum s = s\<lparr>js_spanIDPrebuilt := jb_B (identifySpan cfg idNum s emptyJB)\<rparr>"

text \<open>Reading an id of a trace initialises it; the parent's text is read after its id was.\<close>

definition addRequestStartData :: "'m jtexts \<Rightarrow> SourceInfo \<Rightarrow> jspan \<Rightarrow> JBuilder \<Rightarrow> JBuilder" where
  "addRequestStartData jt si s rq =
     (let t = initialize (bu_Trace (js_bundle s)); p = initialize (bu_Parent (js_bundle s));
          rq = AddSafeString (Wrapped_String TraceIDField t) (AddSafeKey ''trace.id'' rq);
          rq = AddSafeString (Wrapped_String SpanIDField t) (AddSafeKey ''span.id'' rq);
          rq = (if \<not> HexBytes_IsZero (tr_traceID p) then AddSafeString (Trace_String p) (AddSafeKey ''trace.parent'' rq) else rq);
          rq = (if bu_State (js_bundle s) \<noteq> [] then AddSafeString (bu_State (js_bundle s)) (AddSafeKey ''trace.state'' rq) else rq);
          rq = (if bu_Baggage (js_bundle s) \<noteq> [] then AddSafeString (bu_Baggage (js_bundle s)) (AddSafeKey ''trace.baggage'' rq) else rq);
          rq = AddString (js_name s) (AddSafeKey ''span.name'' rq);
          rq = DefaultTimeFormatter jt (js_startTime s) 0 (AddSafeKey ''ts'' rq);
          rq = AppendByte (CHR 0x22) (AddSafeKey ''source'' rq);
          rq = AddStringBody (si_SourceVersion si) (AppendByte (CHR '' '') (AddStringBody (si_Source si) rq));
          rq = AppendByte (CHR 0x22) rq;
          rq = AppendByte (CHR 0x22) (AddSafeKey ''ns'' rq);
          rq = AddStringBody (si_NamespaceVersion si) (AppendByte (CHR '' '') (AddStringBody (si_Namespace si) rq))
      in AppendByte (CHR 0x22) rq)"

definition spanStartData :: "'m jtexts \<Rightarrow> jspan \<Rightarrow> jbuilder \<Rightarrow> jbuilder" where
  "spanStartData jt s rq =
     (let rq = stringKV ''span.name'' (js_name s) rq;
          rq = on_JB (\<lambda>b. DefaultTimeFormatter jt (js_startTime s) 0 (AddSafeKey ''ts'' b)) rq
      in stringKV ''span.parent_span'' (Wrapped_String SpanIDField (initialize (bu_Parent (js_bundle s)))) rq)"

text \<open>A record of a span ends with a brace and a newline and is written.\<close>

definition record_end :: string where
  "record_end = [CHR ''}'', CHR 0x0A]"

definition JSON_Request ::
    "'m jenv \<Rightarrow> time \<Rightarrow> Bundle \<Rightarrow> string \<Rightarrow> SourceInfo \<Rightarrow> jlogger \<Rightarrow> nat \<times> jlogger" where
  "JSON_Request env ts bundle name si st =
     (let cfg = lg_config st; r = length (lg_spans st);
          count = (if bit (lc_tagOption cfg) TraceNumberTagOption then lg_requestCount st + 1 else lg_requestCount st);
          idNum = (if bit (lc_tagOption cfg) TraceNumberTagOption then count else 0);
          req = \<lparr>jr_idNum = idNum, jr_errorCount = 0, jr_alertCount = 0, jr_sourceInfo = si, jr_tracking = [],
            jr_reporter = False, jr_reports = 0\<rparr>;
          span = \<lparr>js_endTime = word_of_int ts, js_bundle = bundle, js_name = name, js_request = r, js_startTime = ts,
            js_serializationCount = 0, js_attributes = AttributeBuilder_Init, js_sequenceCode = [], js_spanIDPrebuilt = [],
            js_req = Some req\<rparr>;
          span = setSpanIDPrefill cfg idNum span;
          st = st\<lparr>lg_requestCount := count, lg_spans := lg_spans st @ [span]\<rparr>
      in if lc_spanStarts cfg then
           let rq = AppendBytes (q ''{`type`:`request`,`span.ver`:0'') (bd_JB (newBuilder r st));
               rq = addRequestStartData (je_texts env) si span rq;
               rq = AppendBytes record_end rq;
               st = upd_jspan r (\<lambda>s. s\<lparr>js_serializationCount := js_serializationCount s + 1\<rparr>) st
           in (r, json_write env r (jb_B rq) st)
         else (r, st))"

definition JSON_Span ::
    "'m jenv \<Rightarrow> time \<Rightarrow> Bundle \<Rightarrow> string \<Rightarrow> string \<Rightarrow> nat \<Rightarrow> jlogger \<Rightarrow> nat \<times> jlogger" where
  "JSON_Span env ts bundle name spanSequenceCode s st =
     (let cfg = lg_config st; r = js_request (lg_spans st ! s); n = length (lg_spans st);
          span = \<lparr>js_endTime = word_of_int ts, js_bundle = bundle, js_name = name, js_request = r, js_startTime = ts,
            js_serializationCount = 0, js_attributes = AttributeBuilder_Init, js_sequenceCode = spanSequenceCode,
            js_spanIDPrebuilt = [], js_req = None\<rparr>;
          span = setSpanIDPrefill cfg (jr_idNum (request_of s st)) span;
          st = st\<lparr>lg_spans := lg_spans st @ [span]\<rparr>
      in if lc_spanStarts cfg then
           let rq = on_JB (AppendBytes (q ''{`type`:`span`,`span.ver`:0,`span.id`:'')) (newBuilder s st);
               rq = on_JB (AddSafeString (Wrapped_String SpanIDField (initialize (bu_Trace bundle)))) rq;
               rq = spanStartData (je_texts env) span rq;
               rq = on_JB (AppendBytes record_end) rq;
               st = upd_jspan n (\<lambda>s. s\<lparr>js_serializationCount := js_serializationCount s + 1\<rparr>) st
           in (n, json_write env r (jb_B (bd_JB rq)) st)
         else (n, st))"

definition flushAttributes :: "'m jenv \<Rightarrow> nat \<Rightarrow> jlogger \<Rightarrow> jlogger" where
  "flushAttributes env s st =
     (let cfg = lg_config st; span = lg_spans st ! s; r = js_request span; req = request_of s st;
          data = \<not> lc_spanStarts cfg \<or> \<not> lc_spanChangesOnly cfg;
          rq = newBuilder s st;
          rq = (if s = r then
                  let rq = on_JB (AppendBytes (q ''{`type`:`request`'')) rq;
                      rq = on_JB (if data then addRequestStartData (je_texts env) (jr_sourceInfo req) span
                                  else identifySpan cfg (jr_idNum req) span) rq
                  in on_JB (AddSafeKey ''span.ver'') rq
                else
                  let rq = on_JB (AppendBytes (q ''{`type`:`span`'')) rq;
                      rq = (if data then spanStartData (je_texts env) span rq else rq);
                      rq = on_JB (identifySpan cfg (jr_idNum req) span) rq
                  in on_JB (AddSafeKey ''span.ver'') rq);
          rq = on_JB (AddInt64 (word_of_int (sint (js_serializationCount span)))) rq;
          rq = (case lc_durationKey cfg of
                  Some key \<Rightarrow> on_JB (\<lambda>b. jb_AttributeDuration (je_texts env) (lc_durationFormat cfg)
                    (js_endTime span - word_of_int (js_startTime span)) (AppendBytes key b)) rq
                | None \<Rightarrow> rq);
          (b, attributes) = Attributes_Append (je_order env (iow_calls (lg_writer st))) (lc_spanChangesOnly cfg)
            (lc_attributesObject cfg) (bd_JB rq) (js_attributes span);
          b = AppendBytes record_end b;
          st = upd_jspan s (\<lambda>x. x\<lparr>js_serializationCount := js_serializationCount x + 1, js_attributes := attributes\<rparr>) st
      in json_write env r (jb_B b) st)"

definition JSON_Done :: "'m jenv \<Rightarrow> time \<Rightarrow> nat \<Rightarrow> jlogger \<Rightarrow> jlogger" where
  "JSON_Done env t s st = flushAttributes env s (upd_jspan s (\<lambda>x. x\<lparr>js_endTime := word_of_int t\<rparr>) st)"

definition JSON_SetErrorReporter :: "nat \<Rightarrow> jlogger \<Rightarrow> jlogger" where
  "JSON_SetErrorReporter r = upd_jreq r (\<lambda>x. x\<lparr>jr_reporter := True\<rparr>)"

subsection \<open>Prefills and lines\<close>

definition JSON_NoPrefill :: "nat \<Rightarrow> jlogger \<Rightarrow> nat \<times> jlogger" where
  "JSON_NoPrefill s st =
     (length (lg_prefilleds st),
      st\<lparr>lg_prefilleds := lg_prefilleds st @ [\<lparr>jp_data = [], jp_preEncodedMsg = [], jp_span = s\<rparr>]\<rparr>)"

definition JSON_StartPrefill :: "nat \<Rightarrow> jlogger \<Rightarrow> nat \<times> jlogger" where
  "JSON_StartPrefill s st =
     (length (lg_prefillings st), st\<lparr>lg_prefillings := lg_prefillings st @ [newBuilder s st]\<rparr>)"

definition JSON_PrefillComplete :: "string \<Rightarrow> nat \<Rightarrow> jlogger \<Rightarrow> nat \<times> jlogger" where
  "JSON_PrefillComplete m p st =
     (let b = lg_prefillings st ! p;
          pre = \<lparr>jp_data = jb_B (bd_JB b), jp_preEncodedMsg = (if m \<noteq> [] then jb_B (AddStringBody m emptyJB) else []),
            jp_span = bd_span b\<rparr>
      in (length (lg_prefilleds st), st\<lparr>lg_prefilleds := lg_prefilleds st @ [pre]\<rparr>))"

text \<open>The loop over the stack frames.\<close>

fun add_frames :: "frame list \<Rightarrow> JBuilder \<Rightarrow> JBuilder" where
  "add_frames [] b = b"
| "add_frames ((file, line) # fs) b =
     add_frames fs (AppendByte (CHR 0x22) (AddInt64 (word_of_int line) (AppendByte (CHR '':'')
       (AddStringBody file (AppendByte (CHR 0x22) (Comma b))))))"

text \<open>What a new line's builder gets, as \<open>Line\<close> does it after it has a line.\<close>

definition line_start :: "'m jtexts \<Rightarrow> jconfig \<Rightarrow> int \<Rightarrow> time \<Rightarrow> frame list \<Rightarrow> string \<Rightarrow> string \<Rightarrow> jbuilder \<Rightarrow> jbuilder" where
  "line_start jt cfg level t frames prebuilt data l =
     (let l = on_JB (AppendBytes (q ''{`lvl`:'')) l;
          l = on_JB (AddSafeString (Level_String level)) l;
          l = on_JB (\<lambda>b. DefaultTimeFormatter jt t 0 (AppendBytes (q '',`ts`:'') b)) l;
          l = (if frames \<noteq> [] then
                 on_JB (\<lambda>b. AppendByte (CHR '']'') (add_frames frames (AppendBytes (q '',`stack`:['') b))) l
               else l);
          l = (if prebuilt \<noteq> [] then on_JB (\<lambda>b. AppendBytes prebuilt (Comma b)) l else l);
          l = l\<lparr>bd_attributesWanted := lc_attributesObject cfg\<rparr>
      in if data \<noteq> [] then
           let l = (if bd_attributesWanted l
                    then on_JB (AppendBytes (q '',`attributes`:{'')) (l\<lparr>bd_attributesStarted := True\<rparr>)
                    else on_JB (AppendByte (CHR '','')) l)
           in on_JB (AppendBytes data) l
         else l)"

text \<open>\<open>sync.Pool\<close>: the line that \<open>Get\<close> gives is taken out of the pool.\<close>

definition linePool_Get :: "'m jenv \<Rightarrow> jlogger \<Rightarrow> nat option \<times> jlogger" where
  "linePool_Get env st =
     (let g = je_pool env (lg_poolGets st) (lg_linePool st); st = st\<lparr>lg_poolGets := lg_poolGets st + 1\<rparr> in
      case g of
        Some i \<Rightarrow> if i \<in> set (lg_linePool st) then (Some i, st\<lparr>lg_linePool := remove1 i (lg_linePool st)\<rparr>) else (None, st)
      | None \<Rightarrow> (None, st))"

definition JSON_Line :: "'m jenv \<Rightarrow> int \<Rightarrow> time \<Rightarrow> frame list \<Rightarrow> nat \<Rightarrow> jlogger \<Rightarrow> nat \<times> jlogger" where
  "JSON_Line env level t frames p st =
     (let pre = lg_prefilleds st ! p; s = jp_span pre; r = js_request (lg_spans st ! s);
          st = upd_jspan s (\<lambda>x. x\<lparr>js_endTime := word_of_int t\<rparr>) st;
          st = (if ErrorLevel \<le> level then
                  upd_jreq r (\<lambda>x. if AlertLevel \<le> level then x\<lparr>jr_alertCount := jr_alertCount x + 1\<rparr>
                                  else x\<lparr>jr_errorCount := jr_errorCount x + 1\<rparr>) st
                else st);
          (g, st) = linePool_Get env st;
          b = (case g of
                 Some i \<Rightarrow> builder_reset s (jl_builder (lg_lines st ! i))
               | None \<Rightarrow> newBuilder s st);
          line = \<lparr>jl_builder = line_start (je_texts env) (lg_config st) level t frames
              (js_spanIDPrebuilt (lg_spans st ! s)) (jp_data pre) b,
            jl_level = level, jl_timestamp = t, jl_prefillMsg = jp_preEncodedMsg pre\<rparr>
      in case g of
           Some i \<Rightarrow> (i, st\<lparr>lg_lines := (lg_lines st)[i := line]\<rparr>)
         | None \<Rightarrow> (length (lg_lines st), st\<lparr>lg_lines := lg_lines st @ [line]\<rparr>))"

text \<open>The text that each way to end a line appends to it.\<close>

definition close_attributes :: "jbuilder \<Rightarrow> JBuilder" where
  "close_attributes b = (if bd_attributesStarted b then AppendByte (CHR ''}'') (bd_JB b) else bd_JB b)"

definition line_message :: "string \<Rightarrow> string \<Rightarrow> JBuilder \<Rightarrow> JBuilder" where
  "line_message prefillMsg m b =
     (let b = (if prefillMsg \<noteq> [] then AppendBytes prefillMsg b else b)
      in AppendBytes [CHR 0x22, CHR ''}'', CHR 0x0A] (AddStringBody m b))"

definition JLine_Msg :: "string \<Rightarrow> jline \<Rightarrow> JBuilder" where
  "JLine_Msg m l = line_message (jl_prefillMsg l) m (AppendBytes (q '',`msg`:`'') (close_attributes (jl_builder l)))"

definition JLine_Model :: "'m jtexts \<Rightarrow> string \<Rightarrow> 'm ModelArg \<Rightarrow> jline \<Rightarrow> JBuilder" where
  "JLine_Model jt k v l =
     (let b = close_attributes (jl_builder l);
          v = ModelArg_Encode (jt_ms jt) v;
          b = AddSafeKey ''encoded'' b;
          b = (if ma_Encoding v = Encoding_JSON then AppendBytes (ma_Encoded v) b
               else AddSafeString (Encoding_ToString (ma_Encoding v))
                      (AppendBytes (q '',`encoding`:'') (AddString (ma_Encoded v) b)));
          b = AddString (ma_ModelType v) (AppendBytes (q '',`type`:`model`,`modelType`:'') b)
      in line_message (jl_prefillMsg l) k (AppendBytes (q '',`msg`:`'') b))"

definition JLine_Link :: "string \<Rightarrow> Trace \<Rightarrow> jline \<Rightarrow> JBuilder" where
  "JLine_Link k v l =
     (let b = close_attributes (jl_builder l);
          b = AppendString (Trace_String v) (AppendBytes (q '',`type`:`link`,`link`:`'') b)
      in line_message (jl_prefillMsg l) k (AppendBytes (q ''`,`msg`:`'') b))"

definition JLine_Template :: "string \<Rightarrow> jline \<Rightarrow> JBuilder" where
  "JLine_Template m l =
     AppendBytes record_end (AddString m (AppendString (q '',`fmt`:`tmpl`,`msg`:'') (close_attributes (jl_builder l))))"

fun JLine_end :: "'m jtexts \<Rightarrow> 'm line_end \<Rightarrow> jline \<Rightarrow> JBuilder" where
  "JLine_end jt (LMsg m) l = JLine_Msg m l"
| "JLine_end jt (LTemplate m) l = JLine_Template m l"
| "JLine_end jt (LModel k v) l = JLine_Model jt k v l"
| "JLine_end jt (LLink k v) l = JLine_Link k v l"

text \<open>\<open>done\<close>: the writer copies the bytes and gives the line back to the pool, unless it is too large.\<close>

definition JSON_done :: "'m jenv \<Rightarrow> nat \<Rightarrow> JBuilder \<Rightarrow> jlogger \<Rightarrow> jlogger" where
  "JSON_done env l b st =
     (let s = bd_span (jl_builder (lg_lines st ! l)); r = js_request (lg_spans st ! s);
          st = st\<lparr>lg_lines := (lg_lines st)[l := (lg_lines st ! l)\<lparr>jl_builder := (jl_builder (lg_lines st ! l))\<lparr>bd_JB := b\<rparr>\<rparr>]\<rparr>;
          st = (if length (jb_B b) \<le> maxBufferToKeep then st\<lparr>lg_linePool := lg_linePool st @ [l]\<rparr> else st)
      in json_write env r (jb_B b) st)"

subsection \<open>Metadata\<close>

definition DefineAttribute :: "'m jenv \<Rightarrow> Attribute \<Rightarrow> Trace option \<Rightarrow> nat \<Rightarrow> jlogger \<Rightarrow> jlogger" where
  "DefineAttribute env k t r st = json_write env r (iow_definition_text k t) st"

text \<open>The switch over \<open>attributeOption\<close> in every generated method; \<open>LoadOrStore\<close> is atomic.\<close>

definition define_attribute :: "'m jenv \<Rightarrow> Attribute \<Rightarrow> nat \<Rightarrow> jlogger \<Rightarrow> jlogger" where
  "define_attribute env k s st =
     (let r = js_request (lg_spans st ! s) in
      case lc_attributeOption (lg_config st) of
        AttributesDefinedAlways \<Rightarrow> DefineAttribute env k None r st
      | AttributesDefinedOnce \<Rightarrow>
          if at_key k \<in> set (lg_tracking st) then st
          else DefineAttribute env k None r (st\<lparr>lg_tracking := lg_tracking st @ [at_key k]\<rparr>)
      | AttributesDefinedEachRequest \<Rightarrow>
          if at_key k \<in> set (jr_tracking (request_of s st)) then st
          else DefineAttribute env k (Some (bu_Trace (js_bundle (lg_spans st ! r)))) r
                 (upd_jreq r (\<lambda>x. x\<lparr>jr_tracking := jr_tracking x @ [at_key k]\<rparr>) st))"

definition span_attributes :: "(AttributeBuilder \<Rightarrow> AttributeBuilder) \<Rightarrow> nat \<Rightarrow> jlogger \<Rightarrow> jlogger" where
  "span_attributes f s = upd_jspan s (\<lambda>x. x\<lparr>js_attributes := f (js_attributes x)\<rparr>)"

definition JSpan_MetadataAny :: "'m jenv \<Rightarrow> Attribute \<Rightarrow> 'm ModelArg \<Rightarrow> nat \<Rightarrow> jlogger \<Rightarrow> jlogger" where
  "JSpan_MetadataAny env k v s st = span_attributes (Attributes_MetadataAny (je_texts env) k v) s (define_attribute env k s st)"

definition JSpan_MetadataBool :: "'m jenv \<Rightarrow> Attribute \<Rightarrow> bool \<Rightarrow> nat \<Rightarrow> jlogger \<Rightarrow> jlogger" where
  "JSpan_MetadataBool env k v s st = span_attributes (Attributes_MetadataBool k v) s (define_attribute env k s st)"

definition JSpan_MetadataEnum :: "'m jenv \<Rightarrow> Attribute \<Rightarrow> enumValue \<Rightarrow> nat \<Rightarrow> jlogger \<Rightarrow> jlogger" where
  "JSpan_MetadataEnum env k v s st = span_attributes (Attributes_MetadataEnum k v) s (define_attribute env k s st)"

definition JSpan_MetadataFloat64 :: "'m jenv \<Rightarrow> Attribute \<Rightarrow> u64 \<Rightarrow> nat \<Rightarrow> jlogger \<Rightarrow> jlogger" where
  "JSpan_MetadataFloat64 env k v s st = span_attributes (Attributes_MetadataFloat64 (je_texts env) k v) s (define_attribute env k s st)"

definition JSpan_MetadataInt64 :: "'m jenv \<Rightarrow> Attribute \<Rightarrow> i64 \<Rightarrow> nat \<Rightarrow> jlogger \<Rightarrow> jlogger" where
  "JSpan_MetadataInt64 env k v s st = span_attributes (Attributes_MetadataInt64 k v) s (define_attribute env k s st)"

definition JSpan_MetadataLink :: "'m jenv \<Rightarrow> Attribute \<Rightarrow> Trace \<Rightarrow> nat \<Rightarrow> jlogger \<Rightarrow> jlogger" where
  "JSpan_MetadataLink env k v s st = span_attributes (Attributes_MetadataLink k v) s (define_attribute env k s st)"

definition JSpan_MetadataString :: "'m jenv \<Rightarrow> Attribute \<Rightarrow> string \<Rightarrow> nat \<Rightarrow> jlogger \<Rightarrow> jlogger" where
  "JSpan_MetadataString env k v s st = span_attributes (Attributes_MetadataString k v) s (define_attribute env k s st)"

definition JSpan_MetadataTime :: "'m jenv \<Rightarrow> Attribute \<Rightarrow> int \<Rightarrow> nat \<Rightarrow> nat \<Rightarrow> jlogger \<Rightarrow> jlogger" where
  "JSpan_MetadataTime env k t rep s st = span_attributes (Attributes_MetadataTime (je_texts env) k t rep) s (define_attribute env k s st)"

fun JSpan_Metadata :: "'m jenv \<Rightarrow> Attribute \<Rightarrow> 'm metavalue \<Rightarrow> nat \<Rightarrow> jlogger \<Rightarrow> jlogger" where
  "JSpan_Metadata env k (MAny v) = JSpan_MetadataAny env k v"
| "JSpan_Metadata env k (MBool v) = JSpan_MetadataBool env k v"
| "JSpan_Metadata env k (MEnum v) = JSpan_MetadataEnum env k v"
| "JSpan_Metadata env k (MFloat64 v) = JSpan_MetadataFloat64 env k v"
| "JSpan_Metadata env k (MInt64 v) = JSpan_MetadataInt64 env k v"
| "JSpan_Metadata env k (MLink v) = JSpan_MetadataLink env k v"
| "JSpan_Metadata env k (MString v) = JSpan_MetadataString env k v"
| "JSpan_Metadata env k (MTime t rep) = JSpan_MetadataTime env k t rep"

subsection \<open>The base logger\<close>

datatype jhandle = JSpanH nat | JPrefillingH nat | JPrefilledH nat | JLineH nat

fun json_new :: "'m jenv \<Rightarrow> create \<Rightarrow> jhandle option \<Rightarrow> jlogger \<Rightarrow> (jhandle \<times> jlogger) option" where
  "json_new env (NRequest ts b n si) None st = (let (s, st) = JSON_Request env ts b n si st in Some (JSpanH s, st))"
| "json_new env (NSpan ts b n code) (Some (JSpanH s)) st = (let (n, st) = JSON_Span env ts b n code s st in Some (JSpanH n, st))"
| "json_new env NNoPrefill (Some (JSpanH s)) st = (let (p, st) = JSON_NoPrefill s st in Some (JPrefilledH p, st))"
| "json_new env NStartPrefill (Some (JSpanH s)) st = (let (p, st) = JSON_StartPrefill s st in Some (JPrefillingH p, st))"
| "json_new env (NPrefillComplete m) (Some (JPrefillingH p)) st =
     (let (p, st) = JSON_PrefillComplete m p st in Some (JPrefilledH p, st))"
| "json_new env (NLine level t frames) (Some (JPrefilledH p)) st =
     (let (l, st) = JSON_Line env level t frames p st in Some (JLineH l, st))"
| "json_new env _ _ st = None"

fun json_do :: "'m jenv \<Rightarrow> 'm action \<Rightarrow> jhandle \<Rightarrow> jlogger \<Rightarrow> jlogger option" where
  "json_do env AFlush (JSpanH s) st = (if js_req (lg_spans st ! s) \<noteq> None then Some st else None)"
| "json_do env ASetErrorReporter (JSpanH s) st =
     (if js_req (lg_spans st ! s) \<noteq> None then Some (JSON_SetErrorReporter s st) else None)"
| "json_do env (ADone t final) (JSpanH s) st = Some (JSON_Done env t s st)"
| "json_do env (ABoring b) (JSpanH s) st = Some st"
| "json_do env (AMetadata k v) (JSpanH s) st = Some (JSpan_Metadata env k v s st)"
| "json_do env (ABuild c) (JPrefillingH p) st =
     Some (st\<lparr>lg_prefillings := (lg_prefillings st)[p := json_build (je_texts env) c (lg_prefillings st ! p)]\<rparr>)"
| "json_do env (ABuild c) (JLineH l) st =
     Some (st\<lparr>lg_lines := (lg_lines st)[l := (lg_lines st ! l)\<lparr>jl_builder := json_build (je_texts env) c (jl_builder (lg_lines st ! l))\<rparr>]\<rparr>)"
| "json_do env (AEnd e) (JLineH l) st = Some (JSON_done env l (JLine_end (je_texts env) e (lg_lines st ! l)) st)"
| "json_do env _ _ st = None"

definition json_base :: "string \<Rightarrow> 'm jenv \<Rightarrow> (jhandle, jlogger, 'm) base" where
  "json_base ident env =
     \<lparr>b_ID = ident, b_ReferencesKept = False, b_Buffered = IOWriter_Buffered, b_new = json_new env,
      b_do = json_do env, b_Final = (\<lambda>h st. Some st)\<rparr>"

end
