(* ===== verification/JSONObjects.thy ===== *)
theory JSONObjects
  imports AttributeTexts JSONLogger
begin

section \<open>Objects under construction\<close>

text \<open>
  The buffers of the JSON logger hold the text of an object that is not closed yet. \<open>obj p B fs\<close>
  says that the buffer \<open>B\<close> is \<open>p\<close>, which ends where an object was opened, followed by the
  members \<open>fs\<close>. The rules follow the methods of the builders, so the text of a record is read off
  the code that writes it.
\<close>

subsection \<open>Members\<close>

lemma plain_simps [simp]:
  "plain []"
  "plain (c # s) \<longleftrightarrow> ((0x20 :: nat) \<le> of_char c \<and> c \<noteq> CHR 0x22 \<and> c \<noteq> CHR 0x5C) \<and> plain s"
  "plain (a @ b) \<longleftrightarrow> plain a \<and> plain b"
  by (auto simp: plain_def)

definition obj :: "string \<Rightarrow> string \<Rightarrow> (string \<times> json) list \<Rightarrow> bool" where
  "obj p B fs \<longleftrightarrow> (p = [] \<or> last p = CHR ''{'') \<and> (\<exists>s. B = p @ s \<and> members s fs)"

lemma obj_start: "obj [] [] []" "obj (p @ ''{'') (p @ ''{'') []"
  by (auto simp: obj_def)

lemma obj_Comma:
  assumes "obj p (jb_B b) fs" "member_reads m f"
  shows "obj p (jb_B (Comma b) @ m) (fs @ [f])"
proof -
  from assms(1) obtain s where p: "p = [] \<or> last p = CHR ''{''" and s: "jb_B b = p @ s" "members s fs"
    by (auto simp: obj_def)
  have "jb_B (Comma b) = p @ (if fs = [] then s else s @ '','')"
    using members_last [OF s(2)] p s(1) by (auto simp: Comma_B opens_def)
  then have "jb_B (Comma b) @ m = p @ (if fs = [] then m else s @ '','' @ m)"
    using members_last [OF s(2)] by auto
  with members_snoc [OF s(2) assms(2)] p show ?thesis unfolding obj_def by auto
qed

lemma obj_comma:
  assumes "obj p B fs" "fs \<noteq> []" "member_reads m f"
  shows "obj p (B @ CHR '','' # m) (fs @ [f])"
  using assms members_snoc [of _ fs m f] unfolding obj_def by fastforce

lemma obj_first: "obj p p [] \<Longrightarrow> member_reads m f \<Longrightarrow> obj p (p @ m) [f]"
  using members_snoc [of "[]" "[]" m f] by (auto simp: obj_def)

lemma obj_members:
  assumes "obj p B fs" "fs \<noteq> []" "members t gs" "gs \<noteq> []"
  shows "obj p (B @ CHR '','' # t) (fs @ gs)"
  using assms members_append [of _ fs t gs] unfolding obj_def by fastforce

lemma obj_close:
  assumes "obj (p @ ''{'') B fs"
  obtains t where "B @ ''}'' = p @ t" "reads t (VObj fs)"
proof -
  from assms obtain s where s: "B = p @ ''{'' @ s" "members s fs" by (auto simp: obj_def)
  then have "B @ ''}'' = p @ (CHR ''{'' # s @ ''}'')" by simp
  with that reads_members [OF s(2)] show thesis by blast
qed

lemma obj_reads: "obj ''{'' B fs \<Longrightarrow> reads (B @ ''}'') (VObj fs)"
  by (rule obj_close [of "[]" B fs]) auto

text \<open>An object inside an object.\<close>

lemma obj_nested:
  assumes "obj p B fs" "fs \<noteq> []" "plain k" and n: "obj (B @ '','' @ quoted k @ '':{'') B' gs"
  shows "obj p (B' @ ''}'') (fs @ [(k, VObj gs)])"
proof -
  have "obj ((B @ '','' @ quoted k @ '':'') @ ''{'') B' gs" using n by simp
  from obj_close [OF this] obtain t where t: "B' @ ''}'' = B @ '','' @ quoted k @ '':'' @ t" "reads t (VObj gs)"
    by auto
  have "member_reads (quoted k @ CHR '':'' # t) (k, VObj gs)"
    by (rule member_readsI [OF body_reads_plains [OF assms(3)] t(2)])
  from obj_comma [OF assms(1,2) this] t(1) show ?thesis by simp
qed

subsection \<open>The methods that add a member\<close>

lemma AddSafeKey_text [json_text]: "jb_B (AddSafeKey k b) = jb_B (Comma b) @ quoted k @ '':''"
  by (simp add: AddSafeKey_def quoted_def)

lemma K_JSON_quoted: "K_JSON k = quoted (escapedBody k)"
  by (simp add: K_JSON_def json_text emptyJB_def quoted_def)

lemma addKey_text [json_text]: "jb_B (addKey k b) = jb_B (Comma b) @ quoted (escapedBody k) @ '':''"
  by (simp add: addKey_def json_text K_JSON_quoted)

text \<open>Key and value: whatever is appended after a key must be a value.\<close>

lemma obj_key:
  assumes "obj p (jb_B b) fs" "plain k" "reads t v" "B = jb_B (AddSafeKey k b) @ t"
  shows "obj p B (fs @ [(k, v)])"
  using obj_Comma [OF assms(1) member_readsI [OF body_reads_plains [OF assms(2)] assms(3)]]
  by (simp add: assms(4) json_text)

lemma obj_addKey:
  assumes "obj p (jb_B b) fs" "jsonSafe k" "reads t v" "B = jb_B (addKey k b) @ t"
  shows "obj p B (fs @ [(k, v)])"
  using obj_Comma [OF assms(1) member_readsI [OF body_reads_escaped [OF assms(2)] assms(3)]]
  by (simp add: assms(4) json_text)

lemma reads_plain: "plain s \<Longrightarrow> reads (quoted s) (VStr s)"
  by (rule reads_quoted [OF body_reads_plains])

lemma reads_safe: "jsonSafe s \<Longrightarrow> reads (quoted (escapedBody s)) (VStr s)"
  by (rule reads_quoted [OF body_reads_escaped])

lemma reads_sint: "reads (FormatInt i 10) (VNum (Itoa i))"
  using reads_FormatInt [of i] by (simp add: Itoa_def)

named_theorems obj_rules \<open>one member is added by a method or a sequence of methods\<close>

lemma obj_safe_string [obj_rules]:
  "obj p (jb_B b) fs \<Longrightarrow> plain k \<Longrightarrow> plain v \<Longrightarrow> obj p (jb_B (AddSafeString v (AddSafeKey k b))) (fs @ [(k, VStr v)])"
  by (erule obj_key) (simp_all add: reads_plain json_text)

lemma obj_string [obj_rules]:
  "obj p (jb_B b) fs \<Longrightarrow> plain k \<Longrightarrow> jsonSafe v \<Longrightarrow> obj p (jb_B (AddString v (AddSafeKey k b))) (fs @ [(k, VStr v)])"
  by (erule obj_key) (simp_all add: reads_safe json_text del: AddString_B)

lemma obj_int [obj_rules]:
  "obj p (jb_B b) fs \<Longrightarrow> plain k \<Longrightarrow> obj p (jb_B (AddInt64 i (AddSafeKey k b))) (fs @ [(k, VNum (Itoa (sint i)))])"
  by (erule obj_key) (simp_all add: reads_sint json_text)

lemma obj_time [obj_rules]:
  "obj p (jb_B b) fs \<Longrightarrow> plain k \<Longrightarrow> plain (jt_time jt t rep) \<Longrightarrow>
   obj p (jb_B (DefaultTimeFormatter jt t rep (AddSafeKey k b))) (fs @ [(k, VStr (jt_time jt t rep))])"
  by (erule obj_key) (simp_all add: reads_plain json_text)

lemma obj_two_bodies [obj_rules]:
  "obj p (jb_B b) fs \<Longrightarrow> plain k \<Longrightarrow> jsonSafe v \<Longrightarrow> jsonSafe w \<Longrightarrow>
   obj p (jb_B (AppendByte (CHR 0x22) (AddStringBody w (AppendByte (CHR '' '') (AddStringBody v
     (AppendByte (CHR 0x22) (AddSafeKey k b))))))) (fs @ [(k, VStr (v @ CHR '' '' # w))])"
proof (erule obj_key)
  assume "jsonSafe v" "jsonSafe w"
  then have "body_reads (escapedBody v @ '' '' @ escapedBody w) (v @ '' '' @ w)"
    by (intro body_reads_append body_reads_escaped body_reads_plains) simp_all
  then show "reads (quoted (escapedBody v @ '' '' @ escapedBody w)) (VStr (v @ CHR '' '' # w))"
    by (auto dest: reads_quoted)
qed (simp_all add: json_text quoted_def)

lemma obj_if [obj_rules]:
  "(c \<Longrightarrow> obj p (jb_B x) (fs @ gs)) \<Longrightarrow> (\<not> c \<Longrightarrow> obj p (jb_B y) fs) \<Longrightarrow>
   obj p (jb_B (if c then x else y)) (fs @ (if c then gs else []))"
  by simp

subsection \<open>Ids of spans\<close>

lemma hexDigits_plain: "plain hexDigits"
  by (simp add: hexDigits_def)

lemma hex_Encode_plain: "plain (hex_Encode bs)"
proof (induction bs)
  case Nil
  then show ?case by (simp add: hex_Encode_def)
next
  case (Cons b bs)
  have h: "\<And>n. n < 16 \<Longrightarrow> plain [hexDigits ! n]"
    using hexDigits_plain nth_mem [of _ hexDigits] by (auto simp: plain_def)
  have "plain (hex_byte b)"
    using h [OF unat_u8_div_mod(1) [of b]] h [OF unat_u8_div_mod(2) [of b]] by (simp add: hex_byte_def plain_def)
  with Cons show ?case by (simp add: hex_Encode_def)
qed

lemma Wrapped_String_hex:
  "trace_ok t \<Longrightarrow> Wrapped_String f (initialize t) = hex_Encode (hb_b (get_field f t))"
  using Wrapped_String_eq [OF initialize_ok, of t f] by simp

lemma Wrapped_String_plain: "trace_ok t \<Longrightarrow> plain (Wrapped_String f (initialize t))"
  by (simp add: Wrapped_String_hex hex_Encode_plain)

lemma Trace_String_plain: "trace_ok t \<Longrightarrow> plain (Trace_String t)"
proof (cases "tr_initialized t")
  case True
  assume "trace_ok t"
  with True have "tr_headerString t = tr_headerString (rebuild t)" "trace_cached t"
    by (auto simp: trace_ok_def trace_cached_def)
  with True show ?thesis
    by (simp add: Trace_String_def rebuild_def trace_cached_def hb_cached_def hex_Encode_plain)
next
  case False
  then show ?thesis by (simp add: Trace_String_def zeroHeader_def)
qed

definition id_fields :: "jconfig \<Rightarrow> i64 \<Rightarrow> Bundle \<Rightarrow> string \<Rightarrow> (string \<times> json) list" where
  "id_fields cfg idNum bundle code =
     (let tag = lc_tagOption cfg; t = initialize (bu_Trace bundle) in
      (if bit tag SpanIDTagOption then [(''span.id'', VStr (Wrapped_String SpanIDField t))] else []) @
      (if bit tag TraceIDTagOption then [(''trace.id'', VStr (Wrapped_String TraceIDField t))] else []) @
      (if bit tag TraceNumberTagOption then [(''trace.num'', VNum (Itoa (sint idNum)))] else []) @
      (if bit tag SpanSequenceTagOption then [(''span.seq'', VStr code)] else []))"

text \<open>What the ids of a span must be so that they can go into JSON as they are.\<close>

definition bundle_ok :: "Bundle \<Rightarrow> bool" where
  "bundle_ok b \<longleftrightarrow> trace_ok (bu_Trace b) \<and> trace_ok (bu_Parent b) \<and> plain (bu_State b) \<and> plain (bu_Baggage b)"

definition source_ok :: "SourceInfo \<Rightarrow> bool" where
  "source_ok si \<longleftrightarrow> jsonSafe (si_Source si) \<and> jsonSafe (si_SourceVersion si) \<and>
     jsonSafe (si_Namespace si) \<and> jsonSafe (si_NamespaceVersion si)"

definition jspan_ok :: "jspan \<Rightarrow> bool" where
  "jspan_ok s \<longleftrightarrow> bundle_ok (js_bundle s) \<and> jsonSafe (js_name s) \<and> plain (js_sequenceCode s)"

lemma identifySpan_obj:
  assumes "obj p (jb_B b) fs" "jspan_ok s"
  shows "obj p (jb_B (identifySpan cfg idNum s b)) (fs @ id_fields cfg idNum (js_bundle s) (js_sequenceCode s))"
proof -
  have "trace_ok (bu_Trace (js_bundle s))" "plain (js_sequenceCode s)"
    using assms(2) by (simp_all add: jspan_ok_def bundle_ok_def)
  with assms(1) show ?thesis
    unfolding identifySpan_def id_fields_def Let_def append_assoc [symmetric]
    by (intro obj_rules) (simp_all add: Wrapped_String_plain)
qed

subsection \<open>Records of requests and spans\<close>

text \<open>What the texts of the standard library are relied on for.\<close>

definition texts_ok :: "'m jtexts \<Rightarrow> bool" where
  "texts_ok jt \<longleftrightarrow> (\<forall>t rep. plain (jt_time jt t rep)) \<and> (\<forall>d. plain (jt_duration jt d)) \<and> floats_closed jt"

definition request_fields :: "'m jtexts \<Rightarrow> SourceInfo \<Rightarrow> Bundle \<Rightarrow> string \<Rightarrow> time \<Rightarrow> (string \<times> json) list" where
  "request_fields jt si bundle name start =
     (let t = initialize (bu_Trace bundle); p = initialize (bu_Parent bundle) in
      [(''trace.id'', VStr (Wrapped_String TraceIDField t))] @
      [(''span.id'', VStr (Wrapped_String SpanIDField t))] @
      (if \<not> HexBytes_IsZero (tr_traceID p) then [(''trace.parent'', VStr (Trace_String p))] else []) @
      (if bu_State bundle \<noteq> [] then [(''trace.state'', VStr (bu_State bundle))] else []) @
      (if bu_Baggage bundle \<noteq> [] then [(''trace.baggage'', VStr (bu_Baggage bundle))] else []) @
      [(''span.name'', VStr name)] @
      [(''ts'', VStr (jt_time jt start 0))] @
      [(''source'', VStr (si_Source si @ CHR '' '' # si_SourceVersion si))] @
      [(''ns'', VStr (si_Namespace si @ CHR '' '' # si_NamespaceVersion si))])"

lemma addRequestStartData_obj:
  assumes "obj p (jb_B b) fs" "jspan_ok s" "source_ok si" "texts_ok jt"
  shows "obj p (jb_B (addRequestStartData jt si s b)) (fs @ request_fields jt si (js_bundle s) (js_name s) (js_startTime s))"
proof -
  have "trace_ok (bu_Trace (js_bundle s))" "trace_ok (initialize (bu_Parent (js_bundle s)))"
    "plain (bu_State (js_bundle s))" "plain (bu_Baggage (js_bundle s))" "jsonSafe (js_name s)"
    "jsonSafe (si_Source si)" "jsonSafe (si_SourceVersion si)" "jsonSafe (si_Namespace si)" "jsonSafe (si_NamespaceVersion si)"
    "\<And>t rep. plain (jt_time jt t rep)"
    using assms(2-4) by (auto simp: jspan_ok_def bundle_ok_def source_ok_def texts_ok_def)
  with assms(1) show ?thesis
    unfolding addRequestStartData_def request_fields_def Let_def append_assoc [symmetric]
    by (intro obj_rules) (simp_all add: Wrapped_String_plain Trace_String_plain del: append_assoc)
qed

definition span_fields :: "'m jtexts \<Rightarrow> Bundle \<Rightarrow> string \<Rightarrow> time \<Rightarrow> (string \<times> json) list" where
  "span_fields jt bundle name start =
     [(''span.name'', VStr name), (''ts'', VStr (jt_time jt start 0)),
      (''span.parent_span'', VStr (Wrapped_String SpanIDField (initialize (bu_Parent bundle))))]"

lemma on_JB_simps [simp]:
  "bd_JB (on_JB f b) = f (bd_JB b)" "bd_span (on_JB f b) = bd_span b"
  "bd_attributesStarted (on_JB f b) = bd_attributesStarted b" "bd_attributesWanted (on_JB f b) = bd_attributesWanted b"
  by (simp_all add: on_JB_def)

lemma plain_jsonSafe: "plain s \<Longrightarrow> jsonSafe s"
  by (auto simp: plain_def jsonSafe_def)

lemma stringKV_obj:
  "obj p (jb_B (bd_JB b)) fs \<Longrightarrow> \<not> bd_attributesWanted b \<Longrightarrow> jsonSafe k \<Longrightarrow> jsonSafe v \<Longrightarrow>
   obj p (jb_B (bd_JB (stringKV k v b))) (fs @ [(k, VStr v)])"
  by (rule obj_addKey [where b = "bd_JB b"])
    (simp_all add: stringKV_def startAttributes_def reads_safe json_text del: AddString_B)

lemma stringKV_flags [simp]:
  "bd_attributesWanted (stringKV k v b) = bd_attributesWanted b" "bd_span (stringKV k v b) = bd_span b"
  by (simp_all add: stringKV_def startAttributes_def)

lemma spanStartData_flags [simp]:
  "bd_attributesWanted (spanStartData jt s b) = bd_attributesWanted b" "bd_span (spanStartData jt s b) = bd_span b"
  by (simp_all add: spanStartData_def Let_def)

lemma spanStartData_obj:
  assumes "obj p (jb_B (bd_JB b)) fs" "\<not> bd_attributesWanted b" "jspan_ok s" "texts_ok jt"
  shows "obj p (jb_B (bd_JB (spanStartData jt s b))) (fs @ span_fields jt (js_bundle s) (js_name s) (js_startTime s))"
proof -
  let ?b1 = "stringKV ''span.name'' (js_name s) b"
  let ?b2 = "on_JB (\<lambda>b. DefaultTimeFormatter jt (js_startTime s) 0 (AddSafeKey ''ts'' b)) ?b1"
  have ok: "jsonSafe (js_name s)" "plain (jt_time jt (js_startTime s) 0)"
    "jsonSafe (Wrapped_String SpanIDField (initialize (bu_Parent (js_bundle s))))"
    using assms(3,4) by (auto simp: jspan_ok_def texts_ok_def bundle_ok_def intro!: plain_jsonSafe Wrapped_String_plain)
  have 1: "obj p (jb_B (bd_JB ?b1)) (fs @ [(''span.name'', VStr (js_name s))])"
    using ok by (intro stringKV_obj assms) (simp_all add: plain_jsonSafe)
  have "obj p (jb_B (bd_JB ?b2)) ((fs @ [(''span.name'', VStr (js_name s))]) @ [(''ts'', VStr (jt_time jt (js_startTime s) 0))])"
    using ok by (simp only: on_JB_simps) (intro obj_rules 1, simp_all)
  from stringKV_obj [OF this _ _ ok(3), of "''span.parent_span''"] assms(2) show ?thesis
    by (simp add: spanStartData_def span_fields_def Let_def plain_jsonSafe)
qed

subsection \<open>Values of attributes\<close>

lemma Itoa_plain: "plain (Itoa i)"
proof -
  have "plain (formatNat 10 n)" for n
    using formatNat_digits [of n] by (auto simp: plain_def isDigit_def)
  then show ?thesis by (simp add: Itoa_def FormatInt_def)
qed

lemma plain_table:
  assumes "list_all (\<lambda>p. plain (snd p)) m"
  shows "mapLiteral m i = Some s \<Longrightarrow> plain s"
  using assms map_of_SomeD [of "rev m" i s] by (auto simp: mapLiteral_def list_all_iff)

lemma Encoding_plain: "plain (Encoding_ToString i)"
proof -
  have "list_all (\<lambda>p. plain (snd p)) Encoding_name" by (simp add: Encoding_name_def)
  then show ?thesis
    using plain_table [of Encoding_name i] Itoa_plain by (auto simp: Encoding_ToString_def split: option.split)
qed

lemma dataTypeName_plain: "plain (dataTypeName t)"
proof -
  have "list_all (\<lambda>p. plain (snd p)) DataTypeToString" by (simp add: DataTypeToString_def)
  then show ?thesis
    using plain_table [of DataTypeToString t] by (auto simp: dataTypeName_def split: option.split)
qed

text \<open>A model's text, when it is JSON, is taken over as it is.\<close>

definition any_ok :: "'m jtexts \<Rightarrow> 'm ModelArg \<Rightarrow> bool" where
  "any_ok jt m \<longleftrightarrow>
     (let e = ModelArg_Encode (jt_ms jt) m in
      (if ma_Encoding e = Encoding_JSON then \<exists>d. reads (ma_Encoded e) d else jsonSafe (ma_Encoded e)) \<and>
      jsonSafe (ma_ModelType e))"

definition model_fields :: "string \<Rightarrow> 'm jtexts \<Rightarrow> 'm ModelArg \<Rightarrow> (string \<times> json) list" where
  "model_fields k jt m =
     (let e = ModelArg_Encode (jt_ms jt) m in
      if ma_Encoding e = Encoding_JSON then [(k, the (readJSON (ma_Encoded e)))]
      else [(k, VStr (ma_Encoded e)), (''encoding'', VStr (Encoding_ToString (ma_Encoding e)))])"

definition any_fields :: "'m jtexts \<Rightarrow> 'm ModelArg \<Rightarrow> (string \<times> json) list" where
  "any_fields jt m =
     model_fields ''v'' jt m @ [(''modelType'', VStr (ma_ModelType (ModelArg_Encode (jt_ms jt) m)))]"

lemma obj_literal:
  "obj p B fs \<Longrightarrow> fs \<noteq> [] \<Longrightarrow> plain k \<Longrightarrow> reads t v \<Longrightarrow> B' = B @ CHR '','' # quoted k @ CHR '':'' # t \<Longrightarrow>
   obj p B' (fs @ [(k, v)])"
  using obj_comma [OF _ _ member_readsI [OF body_reads_plains]] by blast

lemma model_obj:
  assumes "obj p (jb_B b) fs" "plain k" "any_ok jt m"
  shows "obj p (jb_B (Comma b) @ quoted k @ '':'' @ model_text jt m) (fs @ model_fields k jt m)"
proof -
  let ?e = "ModelArg_Encode (jt_ms jt) m"
  have k: "obj p (jb_B (Comma b) @ quoted k @ '':'' @ t) (fs @ [(k, v)])" if "reads t v" for t v
    by (rule obj_key [OF assms(1,2) that]) (simp add: json_text)
  show ?thesis
  proof (cases "ma_Encoding ?e = Encoding_JSON")
    case True
    with assms(3) obtain d where d: "reads (ma_Encoded ?e) d" by (auto simp: any_ok_def Let_def)
    from k [OF d] True show ?thesis by (simp add: model_text_def model_fields_def Let_def reads_readJSON [OF d])
  next
    case False
    with assms(3) have "jsonSafe (ma_Encoded ?e)" by (simp add: any_ok_def Let_def)
    from obj_literal [OF k [OF reads_safe [OF this]] _ _ reads_plain [OF Encoding_plain], of "''encoding''"] False
    show ?thesis by (simp add: model_text_def model_fields_def Let_def q_def quoted_def)
  qed
qed

lemma any_members:
  assumes "any_ok jt m"
  shows "obj ''{'' (q ''{`v`:'' @ any_text jt m) (any_fields jt m)"
proof -
  have "obj ''{'' (jb_B \<lparr>jb_B = ''{'', jb_FastKeys = False\<rparr>) []" using obj_start(2) [of "[]"] by simp
  from model_obj [OF this _ assms, of "''v''"]
  have 1: "obj ''{'' (q ''{`v`:'' @ model_text jt m) (model_fields ''v'' jt m)"
    by (simp add: Comma_B q_def quoted_def)
  have "jsonSafe (ma_ModelType (ModelArg_Encode (jt_ms jt) m))" using assms by (simp add: any_ok_def Let_def)
  from obj_literal [OF 1 _ _ reads_safe [OF this], of "''modelType''"] show ?thesis
    by (simp add: any_text_def any_fields_def model_fields_def Let_def q_def quoted_def)
qed

text \<open>The values of span attributes.\<close>

fun metavalue_ok :: "'m jtexts \<Rightarrow> 'm metavalue \<Rightarrow> bool" where
  "metavalue_ok jt (MAny m) = any_ok jt m"
| "metavalue_ok jt (MBool v) = True"
| "metavalue_ok jt (MEnum v) = jsonSafe (ev_str v)"
| "metavalue_ok jt (MFloat64 v) = isNumber (jt_float jt v)"
| "metavalue_ok jt (MInt64 v) = True"
| "metavalue_ok jt (MLink v) = trace_ok v"
| "metavalue_ok jt (MString v) = jsonSafe v"
| "metavalue_ok jt (MTime t rep) = True"

fun metavalue_doc :: "'m jtexts \<Rightarrow> 'm metavalue \<Rightarrow> json" where
  "metavalue_doc jt (MAny m) = VObj (any_fields jt m)"
| "metavalue_doc jt (MBool v) = VBool v"
| "metavalue_doc jt (MEnum v) = VObj [(''s'', VStr (ev_str v)), (''i'', VNum (Itoa (sint (ev_value v))))]"
| "metavalue_doc jt (MFloat64 v) = VNum (jt_float jt v)"
| "metavalue_doc jt (MInt64 v) = VNum (Itoa (sint v))"
| "metavalue_doc jt (MLink v) = VStr (Trace_String v)"
| "metavalue_doc jt (MString v) = VStr v"
| "metavalue_doc jt (MTime t rep) = VStr (jt_time jt t rep)"

lemma obj_brace:
  "plain k \<Longrightarrow> reads t v \<Longrightarrow> B = CHR ''{'' # quoted k @ CHR '':'' # t \<Longrightarrow> obj ''{'' B [(k, v)]"
  using obj_first [OF obj_start(2) [of "[]"] member_readsI [OF body_reads_plains], of k t v] by simp

lemma metavalue_reads:
  assumes "texts_ok jt" "metavalue_ok jt v"
  shows "reads (metavalue_text jt v) (metavalue_doc jt v)"
proof (cases v)
  case (MAny m)
  with assms(2) obj_reads [OF any_members, of jt m] show ?thesis by simp
next
  case (MEnum e)
  have 1: "obj ''{'' (q ''{`s`:'' @ quoted (escapedBody (ev_str e))) [(''s'', VStr (ev_str e))]"
    using assms(2) by (intro obj_brace [OF _ reads_safe]) (simp_all add: MEnum q_def quoted_def)
  have "obj ''{'' (q ''{`s`:'' @ quoted (escapedBody (ev_str e)) @ q '',`i`:'' @ FormatInt (sint (ev_value e)) 10)
      ([(''s'', VStr (ev_str e))] @ [(''i'', VNum (Itoa (sint (ev_value e))))])"
    by (rule obj_literal [OF 1 _ _ reads_sint]) (simp_all add: q_def quoted_def)
  from obj_reads [OF this] show ?thesis by (simp add: MEnum)
qed (use assms in \<open>simp_all add: reads_true reads_false reads_number reads_sint reads_safe reads_plain
    Trace_String_plain texts_ok_def\<close>)

subsection \<open>The attributes of a span\<close>

text \<open>The text that the registry makes for a key.\<close>

definition key_ok :: "Attribute \<Rightarrow> bool" where
  "key_ok a \<longleftrightarrow> at_jsonKey a = json_Marshal_string (at_key a) @ '':''"

definition calls_ok :: "'m jtexts \<Rightarrow> (Attribute \<times> 'm metavalue) list \<Rightarrow> bool" where
  "calls_ok jt cs \<longleftrightarrow> consistent cs \<and> (\<forall>c \<in> set cs. key_ok (fst c) \<and> metavalue_ok jt (snd c))"

definition key_doc :: "'m jtexts \<Rightarrow> (Attribute \<times> 'm metavalue) list \<Rightarrow> string \<Rightarrow> json" where
  "key_doc jt cs k =
     (let p = at_properties (key_attribute k cs); ws = kept_values jt p (key_values k cs) in
      if mk_Multiple p then VArr (map (metavalue_doc jt) ws) else metavalue_doc jt (hd ws))"

lemma set_kept_values: "vs \<noteq> [] \<Longrightarrow> set (kept_values jt p vs) \<subseteq> set vs"
proof -
  have "set (firsts_by f vs) \<subseteq> set vs" for f :: "'a metavalue \<Rightarrow> string" and vs
    by (induction f vs rule: firsts_by.induct) auto
  then show "vs \<noteq> [] \<Longrightarrow> set (kept_values jt p vs) \<subseteq> set vs" by (auto simp: kept_values_def)
qed

lemma calls_ok_key:
  assumes "calls_ok jt cs" "key_values k cs \<noteq> []"
  shows "key_ok (key_attribute k cs)" "at_key (key_attribute k cs) = k"
    "\<And>v. v \<in> set (kept_values jt p (key_values k cs)) \<Longrightarrow> metavalue_ok jt v"
proof -
  show "key_ok (key_attribute k cs)"
    using key_attribute_in(1) [OF assms(2)] assms(1) by (force simp: calls_ok_def)
  show "at_key (key_attribute k cs) = k" by (rule key_attribute_in(2) [OF assms(2)])
  fix v assume "v \<in> set (kept_values jt p (key_values k cs))"
  then have "v \<in> set (key_values k cs)" using set_kept_values [OF assms(2)] by blast
  then show "metavalue_ok jt v" using assms(1) by (force simp: calls_ok_def key_values_def)
qed

lemma reads_key: "key_ok a \<Longrightarrow> reads t v \<Longrightarrow> member_reads (at_jsonKey a @ t) (at_key a, v)"
  using member_readsI [OF body_reads_goEscaped] by (simp add: key_ok_def json_Marshal_string_def quoted_def)

lemma multi_member:
  assumes "texts_ok jt" "calls_ok jt cs" "key_values k cs \<noteq> []" "mk_Multiple (at_properties (key_attribute k cs))"
    "multi_holds jt (key_attribute k cs) (key_values k cs) m"
  shows "member_reads (jb_B (mu_Builder m) @ '']'') (k, key_doc jt cs k)"
proof -
  let ?a = "key_attribute k cs"
  let ?ws = "kept_values jt (at_properties ?a) (key_values k cs)"
  have "list_all2 reads (map (metavalue_text jt) ?ws) (map (metavalue_doc jt) ?ws)"
    using calls_ok_key(3) [OF assms(2,3)] metavalue_reads [OF assms(1)]
    by (simp add: list_all2_map1 list_all2_map2 list_all2_same)
  from reads_key [OF calls_ok_key(1) [OF assms(2,3)] reads_array [OF this]] show ?thesis
    using assms(4,5) calls_ok_key(2) [OF assms(2,3)] by (simp add: key_doc_def multi_holds_def Let_def)
qed

lemma single_member:
  assumes "texts_ok jt" "calls_ok jt cs" "key_values k cs \<noteq> []" "\<not> mk_Multiple (at_properties (key_attribute k cs))"
    "single_holds jt (key_attribute k cs) (key_values k cs) s"
  shows "member_reads (sa_KeyValue s) (k, key_doc jt cs k)"
proof -
  let ?a = "key_attribute k cs"
  let ?ws = "kept_values jt (at_properties ?a) (key_values k cs)"
  have "metavalue_ok jt (hd ?ws)"
    by (rule calls_ok_key(3) [OF assms(2,3) hd_in_set [OF kept_values_nonempty [OF assms(3)]]])
  from reads_key [OF calls_ok_key(1) [OF assms(2,3)] metavalue_reads [OF assms(1) this]] show ?thesis
    using assms(4,5) calls_ok_key(2) [OF assms(2,3)] by (simp add: key_doc_def single_holds_def Let_def)
qed

text \<open>The keys that \<open>Append\<close> writes.\<close>

definition multi_due :: "bool \<Rightarrow> (string \<times> multiAttribute) list \<Rightarrow> string \<Rightarrow> bool" where
  "multi_due onlyChanged ms k \<longleftrightarrow> (case map_of ms k of None \<Rightarrow> False | Some m \<Rightarrow> mu_Changed m \<or> \<not> onlyChanged)"

definition single_due :: "bool \<Rightarrow> (string \<times> singleAttribute) list \<Rightarrow> string \<Rightarrow> bool" where
  "single_due onlyChanged ss k \<longleftrightarrow> (case map_of ss k of None \<Rightarrow> False | Some s \<Rightarrow> sa_Changed s \<or> \<not> onlyChanged)"

lemma append_multis_obj:
  assumes "obj p (jb_B b) fs" "distinct ks" "\<And>k m. map_of ms k = Some m \<Longrightarrow> member_reads (jb_B (mu_Builder m) @ '']'') (k, doc k)"
  shows "obj p (jb_B (fst (append_multis oc ks (b, ms)))) (fs @ map (\<lambda>k. (k, doc k)) (filter (multi_due oc ms) ks))"
  using assms
proof (induction ks arbitrary: b ms fs)
  case (Cons k ks)
  show ?case
  proof (cases "multi_due oc ms k")
    case False
    then have "append_multis oc (k # ks) (b, ms) = append_multis oc ks (b, ms)"
      by (auto simp: multi_due_def split: option.splits)
    with Cons.IH [OF Cons.prems(1) _ Cons.prems(3)] Cons.prems(2) False show ?thesis by simp
  next
    case True
    then obtain m where m: "map_of ms k = Some m" "mu_Changed m \<or> \<not> oc" by (auto simp: multi_due_def split: option.splits)
    let ?b = "AppendByte (CHR '']'') (AppendBytes (jb_B (mu_Builder m)) (Comma b))"
    let ?ms = "aput k (m\<lparr>mu_Changed := False\<rparr>) ms"
    have "obj p (jb_B ?b) (fs @ [(k, doc k)])"
      using obj_Comma [OF Cons.prems(1) Cons.prems(3) [OF m(1)]] by (simp add: json_text)
    moreover have "\<And>k' m'. map_of ?ms k' = Some m' \<Longrightarrow> member_reads (jb_B (mu_Builder m') @ '']'') (k', doc k')"
      using Cons.prems(3) m(1) by (auto split: if_splits)
    ultimately have "obj p (jb_B (fst (append_multis oc ks (?b, ?ms))))
        ((fs @ [(k, doc k)]) @ map (\<lambda>k. (k, doc k)) (filter (multi_due oc ?ms) ks))"
      using Cons.prems(2) by (intro Cons.IH) auto
    moreover have "filter (multi_due oc ?ms) ks = filter (multi_due oc ms) ks"
      using Cons.prems(2) by (intro filter_cong) (auto simp: multi_due_def)
    ultimately show ?thesis using True m by simp
  qed
qed simp

lemma append_singles_obj:
  assumes "obj p (jb_B b) fs" "distinct ks" "\<And>k s. map_of ss k = Some s \<Longrightarrow> member_reads (sa_KeyValue s) (k, doc k)"
  shows "obj p (jb_B (fst (append_singles oc ks (b, ss)))) (fs @ map (\<lambda>k. (k, doc k)) (filter (single_due oc ss) ks))"
  using assms
proof (induction ks arbitrary: b ss fs)
  case (Cons k ks)
  show ?case
  proof (cases "single_due oc ss k")
    case False
    then have "append_singles oc (k # ks) (b, ss) = append_singles oc ks (b, ss)"
      by (auto simp: single_due_def split: option.splits)
    with Cons.IH [OF Cons.prems(1) _ Cons.prems(3)] Cons.prems(2) False show ?thesis by simp
  next
    case True
    then obtain s where s: "map_of ss k = Some s" "sa_Changed s \<or> \<not> oc" by (auto simp: single_due_def split: option.splits)
    let ?b = "AppendBytes (sa_KeyValue s) (Comma b)"
    let ?ss = "aput k (s\<lparr>sa_Changed := False\<rparr>) ss"
    have "obj p (jb_B ?b) (fs @ [(k, doc k)])"
      using obj_Comma [OF Cons.prems(1) Cons.prems(3) [OF s(1)]] by (simp add: json_text)
    moreover have "\<And>k' s'. map_of ?ss k' = Some s' \<Longrightarrow> member_reads (sa_KeyValue s') (k', doc k')"
      using Cons.prems(3) s(1) by (auto split: if_splits)
    ultimately have "obj p (jb_B (fst (append_singles oc ks (?b, ?ss))))
        ((fs @ [(k, doc k)]) @ map (\<lambda>k. (k, doc k)) (filter (single_due oc ?ss) ks))"
      using Cons.prems(2) by (intro Cons.IH) auto
    moreover have "filter (single_due oc ?ss) ks = filter (single_due oc ss) ks"
      using Cons.prems(2) by (intro filter_cong) (auto simp: single_due_def)
    ultimately show ?thesis using True s by simp
  qed
qed simp

text \<open>What \<open>Append\<close> adds to an object: its members, or one member \<open>attributes\<close> with them.\<close>

definition attributes_members ::
    "'m jtexts \<Rightarrow> (Attribute \<times> 'm metavalue) list \<Rightarrow> (string list \<Rightarrow> string list) \<Rightarrow> bool \<Rightarrow> AttributeBuilder \<Rightarrow> (string \<times> json) list" where
  "attributes_members jt cs order oc a =
     map (\<lambda>k. (k, key_doc jt cs k))
       (filter (multi_due oc (ab_multiMap a)) (order (map fst (ab_multiMap a))) @
        filter (single_due oc (ab_singleMap a)) (order (map fst (ab_singleMap a))))"

definition attributes_fields ::
    "'m jtexts \<Rightarrow> (Attribute \<times> 'm metavalue) list \<Rightarrow> (string list \<Rightarrow> string list) \<Rightarrow> bool \<Rightarrow> bool \<Rightarrow> AttributeBuilder \<Rightarrow> (string \<times> json) list" where
  "attributes_fields jt cs order oc object a =
     (if (\<not> ab_anyChanged a \<and> oc) \<or> (ab_multiMap a = [] \<and> ab_singleMap a = []) then []
      else if object then [(''attributes'', VObj (attributes_members jt cs order oc a))]
      else attributes_members jt cs order oc a)"

definition attributes_hold :: "'m jtexts \<Rightarrow> (Attribute \<times> 'm metavalue) list \<Rightarrow> AttributeBuilder \<Rightarrow> bool" where
  "attributes_hold jt cs a \<longleftrightarrow> map fst (ab_multiMap a) = keys_of True cs \<and> map fst (ab_singleMap a) = keys_of False cs \<and>
     (\<forall>k. holds jt cs a k)"

lemma attributes_hold_distinct:
  "attributes_hold jt cs a \<Longrightarrow> distinct (map fst (ab_multiMap a)) \<and> distinct (map fst (ab_singleMap a))"
  by (simp add: attributes_hold_def keys_of_distinct)

lemma holds_members:
  assumes "texts_ok jt" "calls_ok jt cs" "attributes_hold jt cs a"
  shows "map_of (ab_multiMap a) k = Some m \<Longrightarrow> member_reads (jb_B (mu_Builder m) @ '']'') (k, key_doc jt cs k)"
    and "map_of (ab_singleMap a) k = Some s \<Longrightarrow> member_reads (sa_KeyValue s) (k, key_doc jt cs k)"
proof -
  have h: "holds jt cs a k" using assms(3) by (simp add: attributes_hold_def)
  show "member_reads (jb_B (mu_Builder m) @ '']'') (k, key_doc jt cs k)" if "map_of (ab_multiMap a) k = Some m"
    using h that by (intro multi_member [OF assms(1,2)]) (auto simp: holds_def Let_def split: if_splits)
  show "member_reads (sa_KeyValue s) (k, key_doc jt cs k)" if "map_of (ab_singleMap a) k = Some s"
    using h that by (intro single_member [OF assms(1,2)]) (auto simp: holds_def Let_def split: if_splits)
qed

lemma append_loops_obj:
  assumes "texts_ok jt" "calls_ok jt cs" "attributes_hold jt cs a" "order_ok order" "obj p (jb_B b) fs"
  shows "obj p (jb_B (fst (append_singles oc (order (map fst (ab_singleMap a)))
      (fst (append_multis oc (order (map fst (ab_multiMap a))) (b, ab_multiMap a)), ab_singleMap a))))
    (fs @ attributes_members jt cs order oc a)"
proof -
  have d: "distinct (order (map fst (ab_multiMap a)))" "distinct (order (map fst (ab_singleMap a)))"
    using attributes_hold_distinct [OF assms(3)] assms(4) by (simp_all add: order_ok_def)
  have "obj p (jb_B (fst (append_multis oc (order (map fst (ab_multiMap a))) (b, ab_multiMap a))))
      (fs @ map (\<lambda>k. (k, key_doc jt cs k)) (filter (multi_due oc (ab_multiMap a)) (order (map fst (ab_multiMap a)))))"
    by (rule append_multis_obj [OF assms(5) d(1) holds_members(1) [OF assms(1-3)]])
  from append_singles_obj [OF this d(2) holds_members(2) [OF assms(1-3)]]
  show ?thesis by (simp add: attributes_members_def)
qed

lemma Attributes_Append_obj:
  assumes "texts_ok jt" "calls_ok jt cs" "attributes_hold jt cs a" "order_ok order" "obj p (jb_B b) fs" "fs \<noteq> []"
  shows "obj p (jb_B (fst (Attributes_Append order oc object b a))) (fs @ attributes_fields jt cs order oc object a)"
proof (cases "(\<not> ab_anyChanged a \<and> oc) \<or> (ab_multiMap a = [] \<and> ab_singleMap a = [])")
  case True
  with assms(5) show ?thesis by (simp add: Attributes_Append_def attributes_fields_def)
next
  case due: False
  note loops = append_loops_obj [OF assms(1-4)]
  show ?thesis
  proof (cases object)
    case False
    with loops [OF assms(5), of oc] show ?thesis
      unfolding Attributes_Append_def attributes_fields_def if_not_P [OF due] by (simp add: Let_def case_prod_beta)
  next
    case True
    let ?b = "AppendBytes (q ''`attributes`:{'') (Comma b)"
    have "jb_B (Comma b) = jb_B b @ '',''"
      using assms(5,6) members_last unfolding obj_def by (fastforce simp: Comma_B opens_def)
    then have B: "jb_B ?b = jb_B b @ '','' @ quoted ''attributes'' @ '':{''" by (simp add: json_text q_def quoted_def)
    have "obj (jb_B ?b) (jb_B ?b) []" unfolding B using obj_start(2) [of "jb_B b @ '','' @ quoted ''attributes'' @ '':''"] by simp
    from loops [OF this, of oc] have "obj (jb_B b @ '','' @ quoted ''attributes'' @ '':{'')
        (jb_B (fst (append_singles oc (order (map fst (ab_singleMap a)))
          (fst (append_multis oc (order (map fst (ab_multiMap a))) (?b, ab_multiMap a)), ab_singleMap a))))
        (attributes_members jt cs order oc a)"
      unfolding B by simp
    from obj_nested [OF assms(5,6) _ this] True show ?thesis
      unfolding Attributes_Append_def attributes_fields_def if_not_P [OF due] by (simp add: Let_def case_prod_beta json_text)
  qed
qed

text \<open>\<open>Append\<close> only clears the flags.\<close>

lemma append_multis_map:
  "map_option (\<lambda>m. m\<lparr>mu_Changed := False\<rparr>) (map_of (snd (append_multis oc ks (b, ms))) k) =
   map_option (\<lambda>m. m\<lparr>mu_Changed := False\<rparr>) (map_of ms k) \<and>
   map fst (snd (append_multis oc ks (b, ms))) = map fst ms"
proof (induction ks arbitrary: b ms)
  case (Cons k' ks)
  show ?case
  proof (cases "map_of ms k'")
    case (Some x)
    then have "k' \<in> fst ` set ms" by (force dest: map_of_SomeD)
    with Some Cons [of b ms] Cons [of "AppendByte (CHR '']'') (AppendBytes (jb_B (mu_Builder x)) (Comma b))" "aput k' (x\<lparr>mu_Changed := False\<rparr>) ms"]
    show ?thesis by (auto simp: map_fst_aput)
  qed (use Cons in simp)
qed simp

lemma append_singles_map:
  "map_option (\<lambda>s. s\<lparr>sa_Changed := False\<rparr>) (map_of (snd (append_singles oc ks (b, ss))) k) =
   map_option (\<lambda>s. s\<lparr>sa_Changed := False\<rparr>) (map_of ss k) \<and>
   map fst (snd (append_singles oc ks (b, ss))) = map fst ss"
proof (induction ks arbitrary: b ss)
  case (Cons k' ks)
  show ?case
  proof (cases "map_of ss k'")
    case (Some x)
    then have "k' \<in> fst ` set ss" by (force dest: map_of_SomeD)
    with Some Cons [of b ss] Cons [of "AppendBytes (sa_KeyValue x) (Comma b)" "aput k' (x\<lparr>sa_Changed := False\<rparr>) ss"]
    show ?thesis by (auto simp: map_fst_aput)
  qed (use Cons in simp)
qed simp

lemma holds_mod_Changed:
  assumes "map_option (\<lambda>m. m\<lparr>mu_Changed := False\<rparr>) (map_of (ab_multiMap a) k) = map_option (\<lambda>m. m\<lparr>mu_Changed := False\<rparr>) (map_of (ab_multiMap b) k)"
    "map_option (\<lambda>s. s\<lparr>sa_Changed := False\<rparr>) (map_of (ab_singleMap a) k) = map_option (\<lambda>s. s\<lparr>sa_Changed := False\<rparr>) (map_of (ab_singleMap b) k)"
    "holds jt cs b k"
  shows "holds jt cs a k"
proof -
  have m: "(\<exists>m. X = Some m \<and> multi_holds jt c vs m) =
      (\<exists>m. map_option (\<lambda>m. m\<lparr>mu_Changed := False\<rparr>) X = Some m \<and> multi_holds jt c vs m)"
    for X c and vs :: "'a metavalue list"
    by (cases X) (simp_all add: multi_holds_def)
  have s: "(\<exists>s. X = Some s \<and> single_holds jt c vs s) =
      (\<exists>s. map_option (\<lambda>s. s\<lparr>sa_Changed := False\<rparr>) X = Some s \<and> single_holds jt c vs s)"
    for X c and vs :: "'a metavalue list"
    by (cases X) (simp_all add: single_holds_def)
  have n: "(X = None) = (map_option (\<lambda>m. m\<lparr>mu_Changed := False\<rparr>) X = None)"
    "(Y = None) = (map_option (\<lambda>s. s\<lparr>sa_Changed := False\<rparr>) Y = None)" for X Y
    by simp_all
  have "(\<exists>m. map_of (ab_multiMap a) k = Some m \<and> multi_holds jt c vs m) =
      (\<exists>m. map_of (ab_multiMap b) k = Some m \<and> multi_holds jt c vs m)" for c and vs :: "'a metavalue list"
    unfolding m [of "map_of (ab_multiMap a) k"] m [of "map_of (ab_multiMap b) k"] assms(1) ..
  moreover have "(\<exists>s. map_of (ab_singleMap a) k = Some s \<and> single_holds jt c vs s) =
      (\<exists>s. map_of (ab_singleMap b) k = Some s \<and> single_holds jt c vs s)" for c and vs :: "'a metavalue list"
    unfolding s [of "map_of (ab_singleMap a) k"] s [of "map_of (ab_singleMap b) k"] assms(2) ..
  moreover have "(map_of (ab_multiMap a) k = None) = (map_of (ab_multiMap b) k = None)"
    "(map_of (ab_singleMap a) k = None) = (map_of (ab_singleMap b) k = None)"
    using n assms(1,2) by metis+
  ultimately show ?thesis using assms(3) unfolding holds_def Let_def by simp
qed

lemma attributes_hold_Append:
  assumes "attributes_hold jt cs a"
  shows "attributes_hold jt cs (snd (Attributes_Append order oc object b a))"
proof (cases "(\<not> ab_anyChanged a \<and> oc) \<or> (ab_multiMap a = [] \<and> ab_singleMap a = [])")
  case True
  with assms show ?thesis by (simp add: Attributes_Append_def)
next
  case due: False
  obtain b1 ms where ms: "append_multis oc (order (map fst (ab_multiMap a)))
      (if object then AppendBytes (q ''`attributes`:{'') (Comma b) else b, ab_multiMap a) = (b1, ms)" by fastforce
  obtain b2 ss where ss: "append_singles oc (order (map fst (ab_singleMap a))) (b1, ab_singleMap a) = (b2, ss)" by fastforce
  have a': "snd (Attributes_Append order oc object b a) = \<lparr>ab_singleMap = ss, ab_multiMap = ms, ab_anyChanged = False\<rparr>"
    unfolding Attributes_Append_def if_not_P [OF due] Let_def by (simp only: ms ss prod.case snd_conv)
  have m: "map_option (\<lambda>m. m\<lparr>mu_Changed := False\<rparr>) (map_of ms k) = map_option (\<lambda>m. m\<lparr>mu_Changed := False\<rparr>) (map_of (ab_multiMap a) k)"
    "map fst ms = map fst (ab_multiMap a)" for k
    using append_multis_map [of oc "order (map fst (ab_multiMap a))"
        "if object then AppendBytes (q ''`attributes`:{'') (Comma b) else b" "ab_multiMap a" k]
    unfolding ms snd_conv by blast+
  have s: "map_option (\<lambda>s. s\<lparr>sa_Changed := False\<rparr>) (map_of ss k) = map_option (\<lambda>s. s\<lparr>sa_Changed := False\<rparr>) (map_of (ab_singleMap a) k)"
    "map fst ss = map fst (ab_singleMap a)" for k
    using append_singles_map [of oc "order (map fst (ab_singleMap a))" b1 "ab_singleMap a" k]
    unfolding ss snd_conv by blast+
  have "holds jt cs \<lparr>ab_singleMap = ss, ab_multiMap = ms, ab_anyChanged = False\<rparr> k" for k
  proof (rule holds_mod_Changed [of _ k a])
    show "holds jt cs a k" using assms by (simp add: attributes_hold_def)
  qed (simp_all only: AttributeBuilder.select_convs m(1) s(1))
  with m(2) s(2) assms show ?thesis by (simp add: a' attributes_hold_def)
qed

lemma put_attribute_keys:
  "map fst (ab_multiMap (put_attribute a t f b)) =
     (if mk_Multiple (at_properties a) \<and> at_key a \<notin> set (map fst (ab_multiMap b)) then map fst (ab_multiMap b) @ [at_key a]
      else map fst (ab_multiMap b))"
  "map fst (ab_singleMap (put_attribute a t f b)) =
     (if \<not> mk_Multiple (at_properties a) \<and> at_key a \<notin> set (map fst (ab_singleMap b)) then map fst (ab_singleMap b) @ [at_key a]
      else map fst (ab_singleMap b))"
  by (simp_all add: put_attribute_def put_single_def put_multi_def Let_def map_fst_aput split: prod.split)

lemma attributes_hold_call:
  assumes "attributes_hold jt cs b" "floats_closed jt" "consistent (cs @ [(a, v)])"
  shows "attributes_hold jt (cs @ [(a, v)]) (Attributes_call jt (a, v) b)"
proof -
  have k: "map fst (ab_multiMap b) = keys_of True cs" "map fst (ab_singleMap b) = keys_of False cs" "\<And>k. holds jt cs b k"
    using assms(1) by (simp_all add: attributes_hold_def)
  have "holds jt (cs @ [(a, v)]) (Attributes_call jt (a, v) b) k" for k
    by (rule holds_call [OF assms(2) k(3) assms(3)])
  then show ?thesis
    unfolding attributes_hold_def Attributes_call_put put_attribute_keys k(1,2) keys_of_snoc by auto
qed

text \<open>Without \<open>onlyChanged\<close> everything is due.\<close>

definition attributes_doc ::
    "'m jtexts \<Rightarrow> (Attribute \<times> 'm metavalue) list \<Rightarrow> (string list \<Rightarrow> string list) \<Rightarrow> bool \<Rightarrow> (string \<times> json) list" where
  "attributes_doc jt cs order object =
     (let fs = map (\<lambda>k. (k, key_doc jt cs k)) (order (keys_of True cs) @ order (keys_of False cs)) in
      if cs = [] then [] else if object then [(''attributes'', VObj fs)] else fs)"

lemma attributes_fields_all:
  assumes "attributes_hold jt cs a" "order_ok order"
  shows "attributes_fields jt cs order False object a = attributes_doc jt cs order object"
proof -
  have k: "map fst (ab_multiMap a) = keys_of True cs" "map fst (ab_singleMap a) = keys_of False cs"
    using assms(1) by (simp_all add: attributes_hold_def)
  have o: "set (order (keys_of x cs)) = set (keys_of x cs)" for x
    using assms(2) keys_of_distinct [of x cs] by (simp add: order_ok_def)
  have "multi_due False (ab_multiMap a) x" if "x \<in> set (map fst (ab_multiMap a))" for x
    using that by (cases "map_of (ab_multiMap a) x") (auto simp: multi_due_def map_of_eq_None_iff)
  moreover have "single_due False (ab_singleMap a) x" if "x \<in> set (map fst (ab_singleMap a))" for x
    using that by (cases "map_of (ab_singleMap a) x") (auto simp: single_due_def map_of_eq_None_iff)
  ultimately have m: "filter (multi_due False (ab_multiMap a)) (order (keys_of True cs)) = order (keys_of True cs)"
    "filter (single_due False (ab_singleMap a)) (order (keys_of False cs)) = order (keys_of False cs)"
    unfolding k filter_id_conv o by blast+
  have e: "ab_multiMap a = [] \<and> ab_singleMap a = [] \<longleftrightarrow> cs = []"
  proof -
    have "ab_multiMap a = [] \<and> ab_singleMap a = [] \<longleftrightarrow> keys_of True cs = [] \<and> keys_of False cs = []"
      using k by (metis map_is_Nil_conv)
    also have "\<dots> \<longleftrightarrow> set (keys_of True cs) = {} \<and> set (keys_of False cs) = {}" by simp
    also have "\<dots> \<longleftrightarrow> cs = []" unfolding set_keys_of by (cases cs) auto
    finally show ?thesis .
  qed
  show ?thesis
    unfolding attributes_fields_def attributes_members_def attributes_doc_def Let_def k m e by auto
qed

lemma attributes_hold_Init: "attributes_hold jt [] AttributeBuilder_Init"
  by (simp add: attributes_hold_def AttributeBuilder_Init_def holds_def)

end
