(* ===== verification/JSONLines.thy ===== *)
theory JSONLines
  imports JSONObjects
begin

section \<open>Lines as JSON documents\<close>

text \<open>
  What a line of the JSON logger reads as: the level, the time, the stack, the ids of its span, the
  data of the prefill and of the line, in the order of the calls, and what the end of the line adds.
\<close>

subsection \<open>The data of a line\<close>

fun build_ok :: "'m jtexts \<Rightarrow> 'm build_call \<Rightarrow> bool" where
  "build_ok jt (BEnum k v) = (key_ok k \<and> jsonSafe (ev_str v))"
| "build_ok jt (BFloat64 k v t) = (jsonSafe k \<and> isNumber (jt_float jt v))"
| "build_ok jt (BInt64 k v t) = jsonSafe k"
| "build_ok jt (BString k v t) = (jsonSafe k \<and> jsonSafe v)"
| "build_ok jt (BUint64 k v t) = jsonSafe k"
| "build_ok jt (BAny k v) = (jsonSafe k \<and> any_ok jt v)"
| "build_ok jt (BBool k v) = jsonSafe k"
| "build_ok jt (BDuration k v) = jsonSafe k"
| "build_ok jt (BTime k t rep) = jsonSafe k"

definition typed_doc :: "json \<Rightarrow> string \<Rightarrow> json" where
  "typed_doc v t = VObj [(''v'', v), (''t'', VStr t)]"

fun build_member :: "'m jtexts \<Rightarrow> 'm build_call \<Rightarrow> string \<times> json" where
  "build_member jt (BEnum k v) =
     (at_key k, VObj [(''v'', VStr (ev_str v)), (''i'', VNum (Itoa (sint (ev_value v)))), (''t'', VStr ''enum'')])"
| "build_member jt (BFloat64 k v t) = (k, typed_doc (VNum (jt_float jt v)) (dataTypeName t))"
| "build_member jt (BInt64 k v t) = (k, typed_doc (VNum (Itoa (sint v))) (dataTypeName t))"
| "build_member jt (BString k v t) = (k, typed_doc (VStr v) (dataTypeName t))"
| "build_member jt (BUint64 k v t) = (k, typed_doc (VNum (Itoa (uint v))) (dataTypeName t))"
| "build_member jt (BAny k v) = (k, VObj (any_fields jt v @ [(''t'', VStr ''any'')]))"
| "build_member jt (BBool k v) = (k, typed_doc (VBool v) ''bool'')"
| "build_member jt (BDuration k v) = (k, typed_doc (VStr (jt_duration jt (word_of_int v))) ''dur'')"
| "build_member jt (BTime k t rep) = (k, typed_doc (VStr (jt_time jt t rep)) ''time'')"

text \<open>The text of a typed value and of a member with it.\<close>

definition typed_text :: "string \<Rightarrow> string \<Rightarrow> string" where
  "typed_text v t = q ''{`v`:'' @ v @ q '',`t`:'' @ quoted t @ ''}''"

lemma reads_typed:
  assumes "reads v d" "plain t"
  shows "reads (typed_text v t) (typed_doc d t)"
proof -
  have 1: "obj ''{'' (q ''{`v`:'' @ v) [(''v'', d)]"
    by (rule obj_brace [OF _ assms(1)]) (simp_all add: q_def quoted_def)
  have "obj ''{'' (q ''{`v`:'' @ v @ q '',`t`:'' @ quoted t) ([(''v'', d)] @ [(''t'', VStr t)])"
    by (rule obj_literal [OF 1 _ _ reads_plain [OF assms(2)]]) (simp_all add: q_def quoted_def)
  from obj_reads [OF this] show ?thesis by (simp add: typed_text_def typed_doc_def)
qed

fun build_text :: "'m jtexts \<Rightarrow> 'm build_call \<Rightarrow> string" where
  "build_text jt (BEnum k v) = at_jsonKey k @ q ''{`v`:'' @ quoted (escapedBody (ev_str v)) @ q '',`i`:'' @
     FormatInt (sint (ev_value v)) 10 @ q '',`t`:`enum`}''"
| "build_text jt (BFloat64 k v t) = quoted (escapedBody k) @ '':'' @ typed_text (jt_float jt v) (dataTypeName t)"
| "build_text jt (BInt64 k v t) = quoted (escapedBody k) @ '':'' @ typed_text (FormatInt (sint v) 10) (dataTypeName t)"
| "build_text jt (BString k v t) = quoted (escapedBody k) @ '':'' @ typed_text (quoted (escapedBody v)) (dataTypeName t)"
| "build_text jt (BUint64 k v t) = quoted (escapedBody k) @ '':'' @ typed_text (FormatInt (uint v) 10) (dataTypeName t)"
| "build_text jt (BAny k v) = quoted (escapedBody k) @ '':'' @ q ''{`v`:'' @ any_text jt v @ q '',`t`:`any`}''"
| "build_text jt (BBool k v) = quoted (escapedBody k) @ '':'' @ typed_text (if v then ''true'' else ''false'') ''bool''"
| "build_text jt (BDuration k v) = quoted (escapedBody k) @ '':'' @ typed_text (quoted (jt_duration jt (word_of_int v))) ''dur''"
| "build_text jt (BTime k t rep) = quoted (escapedBody k) @ '':'' @ typed_text (quoted (jt_time jt t rep)) ''time''"

lemmas jb_call_defs = jb_Any_def jb_Enum_def jb_Time_def jb_Bool_def jb_Int64_def jb_Uint64_def jb_String_def
  jb_Float64_def jb_Duration_def close_typed_def

lemma json_build_text:
  "jb_B (bd_JB (json_build jt c b)) = jb_B (Comma (bd_JB (startAttributes b))) @ build_text jt c"
  by (cases c) (simp_all add: jb_call_defs typed_text_def Let_def json_text q_def quoted_def del: AddString_B)

lemma json_build_flags [simp]:
  "bd_attributesWanted (json_build jt c b) = bd_attributesWanted b"
  "bd_attributesStarted (json_build jt c b) = (bd_attributesStarted b \<or> bd_attributesWanted b)"
  "bd_span (json_build jt c b) = bd_span b"
  by (cases c; auto simp: jb_call_defs startAttributes_def)+

lemma member_safe_key: "jsonSafe k \<Longrightarrow> reads t v \<Longrightarrow> member_reads (quoted (escapedBody k) @ CHR '':'' # t) (k, v)"
  by (rule member_readsI [OF body_reads_escaped])

lemma build_reads:
  assumes "texts_ok jt" "build_ok jt c"
  shows "member_reads (build_text jt c) (build_member jt c)"
proof (cases c)
  case (BEnum k v)
  have 1: "obj ''{'' (q ''{`v`:'' @ quoted (escapedBody (ev_str v))) [(''v'', VStr (ev_str v))]"
    using assms(2) by (intro obj_brace [OF _ reads_safe]) (simp_all add: BEnum q_def quoted_def)
  have 2: "obj ''{'' (q ''{`v`:'' @ quoted (escapedBody (ev_str v)) @ q '',`i`:'' @ FormatInt (sint (ev_value v)) 10)
      ([(''v'', VStr (ev_str v))] @ [(''i'', VNum (Itoa (sint (ev_value v))))])"
    by (rule obj_literal [OF 1 _ _ reads_sint]) (simp_all add: q_def quoted_def)
  have "obj ''{'' (q ''{`v`:'' @ quoted (escapedBody (ev_str v)) @ q '',`i`:'' @ FormatInt (sint (ev_value v)) 10 @ q '',`t`:`enum`'')
      (([(''v'', VStr (ev_str v))] @ [(''i'', VNum (Itoa (sint (ev_value v))))]) @ [(''t'', VStr ''enum'')])"
    by (rule obj_literal [OF 2 _ _ reads_plain]) (simp_all add: q_def quoted_def)
  from reads_key [OF _ obj_reads [OF this], of k] assms(2) show ?thesis by (simp add: BEnum q_def)
next
  case (BAny k m)
  have m: "any_ok jt m" "jsonSafe k" using assms(2) BAny by simp_all
  have "obj ''{'' (q ''{`v`:'' @ any_text jt m @ q '',`t`:`any`'') (any_fields jt m @ [(''t'', VStr ''any'')])"
    by (rule obj_literal [OF any_members [OF m(1)] _ _ reads_plain])
      (simp_all add: any_fields_def q_def quoted_def)
  from member_safe_key [OF m(2) obj_reads [OF this]] show ?thesis by (simp add: BAny q_def)
qed (use assms in \<open>auto simp: texts_ok_def dataTypeName_plain intro!: member_safe_key reads_typed reads_number
    reads_sint reads_safe reads_plain reads_true reads_false\<close>)

subsection \<open>A line under construction\<close>

text \<open>\<open>fs\<close> are the members before the attributes, \<open>gs\<close> the attributes.\<close>

definition line_holds :: "bool \<Rightarrow> jbuilder \<Rightarrow> (string \<times> json) list \<Rightarrow> (string \<times> json) list \<Rightarrow> bool" where
  "line_holds wanted b fs gs \<longleftrightarrow>
     bd_attributesWanted b = wanted \<and> bd_attributesStarted b = (wanted \<and> gs \<noteq> []) \<and> fs \<noteq> [] \<and>
     (if wanted \<and> gs \<noteq> []
      then \<exists>B. obj ''{'' B fs \<and> obj (B @ '','' @ quoted ''attributes'' @ '':{'') (jb_B (bd_JB b)) gs
      else obj ''{'' (jb_B (bd_JB b)) (fs @ gs))"

definition body_fields :: "bool \<Rightarrow> (string \<times> json) list \<Rightarrow> (string \<times> json) list \<Rightarrow> (string \<times> json) list" where
  "body_fields wanted fs gs = fs @ (if wanted then if gs = [] then [] else [(''attributes'', VObj gs)] else gs)"

lemma line_holds_close:
  "line_holds wanted b fs gs \<Longrightarrow> obj ''{'' (jb_B (close_attributes b)) (body_fields wanted fs gs)"
  using obj_nested [of "''{''" _ fs "''attributes''"]
  by (auto simp: line_holds_def close_attributes_def body_fields_def json_text split: if_splits)

lemma attributes_open:
  "B @ q '',`attributes`:{'' = B @ '','' @ quoted ''attributes'' @ '':{''"
  by (simp add: q_def quoted_def)

lemma obj_attributes_open: "obj (B @ '','' @ quoted ''attributes'' @ '':{'') (B @ '','' @ quoted ''attributes'' @ '':{'') []"
  using obj_start(2) [of "B @ '','' @ quoted ''attributes'' @ '':''"] by simp

lemma line_holds_build:
  assumes "line_holds wanted b fs gs" "texts_ok jt" "build_ok jt c"
  shows "line_holds wanted (json_build jt c b) fs (gs @ [build_member jt c])"
proof -
  note r = build_reads [OF assms(2,3)]
  note t = json_build_text [of jt c b]
  show ?thesis
  proof (cases "wanted")
    case False
    with assms(1) have b: "obj ''{'' (jb_B (bd_JB b)) (fs @ gs)" "\<not> bd_attributesWanted b" "\<not> bd_attributesStarted b" "fs \<noteq> []"
      by (simp_all add: line_holds_def)
    from obj_Comma [OF b(1) r] b t False show ?thesis by (simp add: line_holds_def startAttributes_def)
  next
    case w: True
    show ?thesis
    proof (cases "gs = []")
      case True
      with assms(1) w have b: "obj ''{'' (jb_B (bd_JB b)) fs" "bd_attributesWanted b" "\<not> bd_attributesStarted b" "fs \<noteq> []"
        by (simp_all add: line_holds_def)
      let ?B = "jb_B (bd_JB b) @ '','' @ quoted ''attributes'' @ '':{''"
      have s: "jb_B (bd_JB (startAttributes b)) = ?B"
        using b by (simp add: startAttributes_def on_JB_def json_text attributes_open)
      from obj_Comma [OF _ r, of ?B "bd_JB (startAttributes b)" "[]"] obj_attributes_open [of "jb_B (bd_JB b)"]
      have "obj ?B (jb_B (bd_JB (json_build jt c b))) [build_member jt c]"
        unfolding t by (simp only: s append_Nil)
      with b True w show ?thesis by (auto simp: line_holds_def)
    next
      case False
      with assms(1) w obtain B where b: "obj ''{'' B fs" "bd_attributesWanted b" "bd_attributesStarted b" "fs \<noteq> []"
        "obj (B @ '','' @ quoted ''attributes'' @ '':{'') (jb_B (bd_JB b)) gs" by (auto simp: line_holds_def)
      from obj_Comma [OF b(5) r] t b False w show ?thesis by (auto simp: line_holds_def startAttributes_def)
    qed
  qed
qed

lemma line_holds_builds:
  "line_holds wanted b fs gs \<Longrightarrow> texts_ok jt \<Longrightarrow> list_all (build_ok jt) cs \<Longrightarrow>
   line_holds wanted (fold (json_build jt) cs b) fs (gs @ map (build_member jt) cs)"
proof (induction cs arbitrary: b gs)
  case (Cons c cs)
  with Cons.IH [OF line_holds_build [of wanted b fs gs jt c]] show ?case by simp
qed simp

text \<open>A prefilling.\<close>

definition prefilling_holds :: "jbuilder \<Rightarrow> (string \<times> json) list \<Rightarrow> bool" where
  "prefilling_holds b gs \<longleftrightarrow> \<not> bd_attributesWanted b \<and> members (jb_B (bd_JB b)) gs"

lemma obj_Nil: "obj [] s gs \<longleftrightarrow> members s gs"
  by (simp add: obj_def)

lemma prefilling_build:
  assumes "prefilling_holds b gs" "texts_ok jt" "build_ok jt c"
  shows "prefilling_holds (json_build jt c b) (gs @ [build_member jt c])"
  using assms(1) obj_Comma [of "[]" "bd_JB b" gs] build_reads [OF assms(2,3)] json_build_text [of jt c b]
  by (simp add: prefilling_holds_def startAttributes_def obj_Nil)

lemma prefilling_builds:
  "prefilling_holds b gs \<Longrightarrow> texts_ok jt \<Longrightarrow> list_all (build_ok jt) cs \<Longrightarrow>
   prefilling_holds (fold (json_build jt) cs b) (gs @ map (build_member jt) cs)"
proof (induction cs arbitrary: b gs)
  case (Cons c cs)
  with Cons.IH [OF prefilling_build [of b gs jt c]] show ?case by simp
qed simp

subsection \<open>The start of a line\<close>

lemma Level_String_plain: "plain (Level_String i)"
  using Itoa_plain [of i] by (simp add: Level_String_def)

definition frame_text :: "frame \<Rightarrow> string" where
  "frame_text f = fst f @ CHR '':'' # Itoa (sint (word_of_int (snd f) :: i64))"

lemma frame_reads:
  "jsonSafe fl \<Longrightarrow> reads (quoted (escapedBody fl @ CHR '':'' # FormatInt (sint (word_of_int n :: i64)) 10)) (VStr (frame_text (fl, n)))"
  using Itoa_plain [of "sint (word_of_int n :: i64)"]
  by (auto simp: frame_text_def Itoa_def intro!: reads_quoted body_reads_append [of _ _ "CHR '':'' # _", simplified]
      body_reads_escaped body_reads_plains)

text \<open>The elements of an array that is not closed yet.\<close>

definition elements :: "string \<Rightarrow> json list \<Rightarrow> bool" where
  "elements s vs \<longleftrightarrow> (\<exists>ts. s = commas ts \<and> list_all2 reads ts vs)"

lemma elements_snoc: "elements s vs \<Longrightarrow> reads t v \<Longrightarrow> elements (if vs = [] then t else s @ '','' @ t) (vs @ [v])"
  unfolding elements_def
proof (elim exE conjE)
  fix ts assume "s = commas ts" "list_all2 reads ts vs" "reads t v"
  then show "\<exists>us. (if vs = [] then t else s @ '','' @ t) = commas us \<and> list_all2 reads us (vs @ [v])"
    by (intro exI [of _ "ts @ [t]"]) (auto simp: commas_snoc list_all2_appendI)
qed

lemma elements_last: "elements s vs \<Longrightarrow> (s = [] \<longleftrightarrow> vs = []) \<and> (vs \<noteq> [] \<longrightarrow> \<not> opens (last s))"
proof -
  assume "elements s vs"
  then obtain ts where ts: "s = commas ts" "list_all2 reads ts vs" by (auto simp: elements_def)
  have r: "t \<noteq> [] \<and> \<not> opens (last t)" if "reads t v" for t v
    using reads_last [OF that] reads_hd [OF that] by blast
  from ts(2) have all: "\<forall>t \<in> set ts. t \<noteq> [] \<and> \<not> opens (last t)"
    by (auto simp: list_all2_conv_all_nth in_set_conv_nth dest!: r)
  from ts show ?thesis using all commas_last [of ts] last_in_set [of ts] by (cases "ts = []") auto
qed

lemma add_frames_elements:
  assumes "jb_B b = p @ ''['' @ s" "elements s vs" "list_all (\<lambda>f. jsonSafe (fst f)) fs"
  shows "\<exists>t. jb_B (add_frames fs b) = p @ ''['' @ t \<and> elements t (vs @ map (\<lambda>f. VStr (frame_text f)) fs)"
  using assms
proof (induction fs arbitrary: b s vs)
  case (Cons f fs)
  obtain fl n where f: "f = (fl, n)" by (cases f)
  let ?t = "quoted (escapedBody fl @ CHR '':'' # FormatInt (sint (word_of_int n :: i64)) 10)"
  let ?b = "AppendByte (CHR 0x22) (AddInt64 (word_of_int n) (AppendByte (CHR '':'')
       (AddStringBody fl (AppendByte (CHR 0x22) (Comma b)))))"
  have "reads ?t (VStr (frame_text f))" using Cons.prems(3) f by (simp add: frame_reads)
  from elements_snoc [OF Cons.prems(2) this]
  have e: "elements (if vs = [] then ?t else s @ '','' @ ?t) (vs @ [VStr (frame_text f)])" .
  have "jb_B ?b = p @ ''['' @ (if vs = [] then ?t else s @ '','' @ ?t)"
    using Cons.prems(1) elements_last [OF Cons.prems(2)]
    by (auto simp: json_text Comma_B opens_def quoted_def)
  from Cons.IH [OF this e] Cons.prems(3) f show ?case by simp
qed simp

definition line_fields :: "'m jtexts \<Rightarrow> int \<Rightarrow> time \<Rightarrow> frame list \<Rightarrow> (string \<times> json) list" where
  "line_fields jt level t frames =
     [(''lvl'', VStr (Level_String level)), (''ts'', VStr (jt_time jt t 0))] @
     (if frames \<noteq> [] then [(''stack'', VArr (map (\<lambda>f. VStr (frame_text f)) frames))] else [])"

text \<open>The buffer after each of the five parts.\<close>

lemma line_head_obj:
  assumes "texts_ok jt"
  shows "obj ''{'' (q ''{`lvl`:'' @ quoted (Level_String level) @ q '',`ts`:'' @ quoted (jt_time jt t 0))
    (line_fields jt level t [])"
proof -
  have 1: "obj ''{'' (q ''{`lvl`:'' @ quoted (Level_String level)) [(''lvl'', VStr (Level_String level))]"
    by (rule obj_brace [OF _ reads_plain [OF Level_String_plain]]) (simp_all add: q_def quoted_def)
  from obj_literal [OF 1 _ _ reads_plain, of "''ts''" "jt_time jt t 0"] assms
  show ?thesis by (simp add: line_fields_def texts_ok_def q_def quoted_def)
qed

lemma line_stack_obj:
  assumes "obj ''{'' (jb_B b) (line_fields jt level t [])" "list_all (\<lambda>f. jsonSafe (fst f)) frames" "frames \<noteq> []"
  shows "obj ''{'' (jb_B (AppendByte (CHR '']'') (add_frames frames (AppendBytes (q '',`stack`:['') b))))
    (line_fields jt level t frames)"
proof -
  have "elements [] []" by (auto simp: elements_def intro: exI [of _ "[]"])
  from add_frames_elements [OF _ this assms(2), of "AppendBytes (q '',`stack`:['') b" "jb_B b @ q '',`stack`:''"]
  obtain s where s: "jb_B (add_frames frames (AppendBytes (q '',`stack`:['') b)) = jb_B b @ q '',`stack`:'' @ ''['' @ s"
    "elements s (map (\<lambda>f. VStr (frame_text f)) frames)"
    by (auto simp: json_text q_def)
  from s(2) have "reads (CHR ''['' # s @ '']'') (VArr (map (\<lambda>f. VStr (frame_text f)) frames))"
    unfolding elements_def using reads_array by blast
  from obj_literal [OF assms(1) _ _ this, of "''stack''"] s(1) assms(3) show ?thesis
    by (simp add: line_fields_def json_text q_def quoted_def)
qed

lemma line_holds_no_data:
  "obj ''{'' (jb_B (bd_JB b)) fs \<Longrightarrow> fs \<noteq> [] \<Longrightarrow> bd_attributesWanted b = wanted \<Longrightarrow> \<not> bd_attributesStarted b \<Longrightarrow>
   line_holds wanted b fs []"
  by (simp add: line_holds_def)

lemma Comma_closed: "obj p B fs \<Longrightarrow> fs \<noteq> [] \<Longrightarrow> jb_B b = B \<Longrightarrow> jb_B (Comma b) = B @ '',''"
  using members_last by (fastforce simp: obj_def Comma_B opens_def)

lemma line_start_holds:
  assumes "jb_B (bd_JB b) = []" "\<not> bd_attributesStarted b" "texts_ok jt" "list_all (\<lambda>f. jsonSafe (fst f)) frames"
    "members prebuilt ids" "members data gs"
  shows "line_holds (lc_attributesObject cfg) (line_start jt cfg level t frames prebuilt data b)
    (line_fields jt level t frames @ ids) gs"
proof -
  let ?b1 = "on_JB (\<lambda>b. DefaultTimeFormatter jt t 0 (AppendBytes (q '',`ts`:'') b))
    (on_JB (AddSafeString (Level_String level)) (on_JB (AppendBytes (q ''{`lvl`:'')) b))"
  let ?b2 = "if frames \<noteq> [] then
      on_JB (\<lambda>b. AppendByte (CHR '']'') (add_frames frames (AppendBytes (q '',`stack`:['') b))) ?b1 else ?b1"
  let ?b3 = "if prebuilt \<noteq> [] then on_JB (\<lambda>b. AppendBytes prebuilt (Comma b)) ?b2 else ?b2"
  let ?b4 = "?b3\<lparr>bd_attributesWanted := lc_attributesObject cfg\<rparr>"
  have 1: "obj ''{'' (jb_B (bd_JB ?b1)) (line_fields jt level t [])"
    using line_head_obj [OF assms(3), of level t] assms(1) by (simp add: json_text)
  have 2: "obj ''{'' (jb_B (bd_JB ?b2)) (line_fields jt level t frames)"
    using line_stack_obj [OF 1 assms(4)] 1 by (simp del: DefaultTimeFormatter_def)
  have ne: "line_fields jt level t frames \<noteq> []" by (simp add: line_fields_def)
  have "obj ''{'' (jb_B (bd_JB ?b3)) (line_fields jt level t frames @ ids)"
  proof (cases "prebuilt = []")
    case True
    with 2 members_last [OF assms(5)] show ?thesis by simp
  next
    case False
    with members_last [OF assms(5)] obj_members [OF 2 ne assms(5)] Comma_closed [OF 2 ne refl]
    show ?thesis by (simp add: json_text)
  qed
  then have 4: "obj ''{'' (jb_B (bd_JB ?b4)) (line_fields jt level t frames @ ids)" "bd_attributesWanted ?b4 = lc_attributesObject cfg"
    "\<not> bd_attributesStarted ?b4"
    using assms(2) by simp_all
  show ?thesis
  proof (cases "data = []")
    case True
    with members_last [OF assms(6)] line_holds_no_data [OF 4(1) _ 4(2,3)] ne
    show ?thesis by (simp add: line_start_def Let_def)
  next
    case False
    with members_last [OF assms(6)] have gs: "gs \<noteq> []" by simp
    let ?B = "jb_B (bd_JB ?b4)"
    have "obj (?B @ '','' @ quoted ''attributes'' @ '':{'') (?B @ '','' @ quoted ''attributes'' @ '':{'' @ data) gs"
      using assms(6) unfolding obj_def by (intro conjI exI [of _ data]) simp_all
    moreover have "obj ''{'' (?B @ '','' @ data) ((line_fields jt level t frames @ ids) @ gs)"
      using obj_members [OF 4(1) _ assms(6) gs] ne by simp
    ultimately show ?thesis
      using 4 ne gs False
      by (auto simp: line_start_def Let_def line_holds_def json_text attributes_open)
  qed
qed

subsection \<open>The end of a line\<close>

fun end_ok :: "'m jtexts \<Rightarrow> 'm line_end \<Rightarrow> bool" where
  "end_ok jt (LMsg m) = jsonSafe m"
| "end_ok jt (LTemplate m) = jsonSafe m"
| "end_ok jt (LModel k v) = (jsonSafe k \<and> any_ok jt v)"
| "end_ok jt (LLink k v) = (jsonSafe k \<and> trace_ok v)"

text \<open>\<open>pre\<close> is the message of the prefill; \<open>Template\<close> drops it.\<close>

fun end_fields :: "'m jtexts \<Rightarrow> string \<Rightarrow> 'm line_end \<Rightarrow> (string \<times> json) list" where
  "end_fields jt pre (LMsg m) = [(''msg'', VStr (pre @ m))]"
| "end_fields jt pre (LTemplate m) = [(''fmt'', VStr ''tmpl''), (''msg'', VStr m)]"
| "end_fields jt pre (LModel k v) = model_fields ''encoded'' jt v @ [(''type'', VStr ''model''),
     (''modelType'', VStr (ma_ModelType (ModelArg_Encode (jt_ms jt) v))), (''msg'', VStr (pre @ k))]"
| "end_fields jt pre (LLink k v) = [(''type'', VStr ''link''), (''link'', VStr (Trace_String v)), (''msg'', VStr (pre @ k))]"

text \<open>A buffer is the text of a record: a document and a newline.\<close>

definition is_record :: "string \<Rightarrow> json \<Rightarrow> bool" where
  "is_record s d \<longleftrightarrow> (\<exists>t. s = t @ [CHR 0x0A] \<and> reads t d)"

lemma record_line: "obj ''{'' B fs \<Longrightarrow> is_record (B @ ''}'' @ [CHR 0x0A]) (VObj fs)"
  using obj_reads [of B fs] by (auto simp: is_record_def)

lemma line_message_record:
  assumes "obj ''{'' B fs" "fs \<noteq> []" "jb_B b = B @ q '',`msg`:`''" "body_reads pm pre" "jsonSafe m"
  shows "is_record (jb_B (line_message pm m b)) (VObj (fs @ [(''msg'', VStr (pre @ m))]))"
proof -
  have "jb_B (line_message pm m b) = B @ CHR '','' # quoted ''msg'' @ CHR '':'' # quoted (pm @ escapedBody m) @ ''}'' @ [CHR 0x0A]"
    using assms(3) by (simp add: line_message_def Let_def json_text q_def quoted_def)
  moreover have "obj ''{'' (B @ CHR '','' # quoted ''msg'' @ CHR '':'' # quoted (pm @ escapedBody m)) (fs @ [(''msg'', VStr (pre @ m))])"
    by (rule obj_literal [OF assms(1,2) _ reads_quoted [OF body_reads_append [OF assms(4) body_reads_escaped [OF assms(5)]]]]) simp_all
  ultimately show ?thesis using record_line by fastforce
qed

lemma JLine_end_record:
  assumes "obj ''{'' (jb_B (close_attributes (jl_builder l))) fs" "fs \<noteq> []" "body_reads (jl_prefillMsg l) pre"
    "end_ok jt e"
  shows "is_record (jb_B (JLine_end jt e l)) (VObj (fs @ end_fields jt pre e))"
proof (cases e)
  case (LMsg m)
  with line_message_record [OF assms(1,2) _ assms(3), of _ m] assms(4) show ?thesis
    by (simp add: JLine_Msg_def json_text)
next
  case (LTemplate m)
  have "obj ''{'' (jb_B (close_attributes (jl_builder l)) @ q '',`fmt`:`tmpl`'') (fs @ [(''fmt'', VStr ''tmpl'')])"
    by (rule obj_literal [OF assms(1,2) _ reads_plain]) (simp_all add: q_def quoted_def)
  from obj_literal [OF this _ _ reads_safe, of "''msg''" m] assms(4) LTemplate
  have "obj ''{'' (jb_B (close_attributes (jl_builder l)) @ q '',`fmt`:`tmpl`,`msg`:'' @ quoted (escapedBody m))
      (fs @ end_fields jt pre e)"
    by (simp add: q_def quoted_def)
  from record_line [OF this] show ?thesis
    by (simp add: LTemplate JLine_Template_def json_text record_end_def del: AddString_B)
next
  case (LModel k v)
  with assms(4) have ok: "jsonSafe k" "any_ok jt v" "jsonSafe (ma_ModelType (ModelArg_Encode (jt_ms jt) v))"
    by (auto simp: any_ok_def Let_def)
  let ?b = "close_attributes (jl_builder l)"
  let ?B = "jb_B (Comma ?b) @ quoted ''encoded'' @ '':'' @ model_text jt v"
  let ?e = "ModelArg_Encode (jt_ms jt) v"
  have 1: "obj ''{'' ?B (fs @ model_fields ''encoded'' jt v)" by (rule model_obj [OF assms(1) _ ok(2)]) simp
  have 2: "obj ''{'' (?B @ q '',`type`:`model`'') ((fs @ model_fields ''encoded'' jt v) @ [(''type'', VStr ''model'')])"
    using assms(2) by (intro obj_literal [OF 1 _ _ reads_plain]) (simp_all add: q_def quoted_def)
  have 3: "obj ''{'' (?B @ q '',`type`:`model`,`modelType`:'' @ quoted (escapedBody (ma_ModelType ?e)))
      (((fs @ model_fields ''encoded'' jt v) @ [(''type'', VStr ''model'')]) @ [(''modelType'', VStr (ma_ModelType ?e))])"
    by (rule obj_literal [OF 2 _ _ reads_safe [OF ok(3)]]) (simp_all add: q_def quoted_def)
  have t: "jb_B (let b = AddSafeKey ''encoded'' ?b;
          b = (if ma_Encoding ?e = Encoding_JSON then AppendBytes (ma_Encoded ?e) b
               else AddSafeString (Encoding_ToString (ma_Encoding ?e))
                      (AppendBytes (q '',`encoding`:'') (AddString (ma_Encoded ?e) b)));
          b = AddString (ma_ModelType ?e) (AppendBytes (q '',`type`:`model`,`modelType`:'') b)
      in AppendBytes (q '',`msg`:`'') b) =
      (?B @ q '',`type`:`model`,`modelType`:'' @ quoted (escapedBody (ma_ModelType ?e))) @ q '',`msg`:`''"
    by (simp add: Let_def json_text model_text_def del: AddString_B)
  from line_message_record [OF 3 _ t assms(3) ok(1)] show ?thesis
    by (simp add: LModel JLine_Model_def Let_def)
next
  case (LLink k v)
  let ?B = "jb_B (close_attributes (jl_builder l))"
  have 1: "obj ''{'' (?B @ q '',`type`:`link`'') (fs @ [(''type'', VStr ''link'')])"
    by (rule obj_literal [OF assms(1,2) _ reads_plain]) (simp_all add: q_def quoted_def)
  have 2: "obj ''{'' (?B @ q '',`type`:`link`,`link`:`'' @ Trace_String v @ q ''`'')
      ((fs @ [(''type'', VStr ''link'')]) @ [(''link'', VStr (Trace_String v))])"
    using assms(4) LLink
    by (intro obj_literal [OF 1 _ _ reads_plain]) (simp_all add: q_def quoted_def Trace_String_plain)
  have t: "jb_B (AppendBytes (q ''`,`msg`:`'') (AppendString (Trace_String v) (AppendBytes (q '',`type`:`link`,`link`:`'')
      (close_attributes (jl_builder l))))) = (?B @ q '',`type`:`link`,`link`:`'' @ Trace_String v @ q ''`'') @ q '',`msg`:`''"
    by (simp add: json_text q_def)
  from line_message_record [OF 2 _ t assms(3)] assms(4) show ?thesis
    by (simp add: LLink JLine_Link_def Let_def)
qed


lemma newBuilder_flags [simp]:
  "jb_B (bd_JB (newBuilder n st)) = []" "\<not> bd_attributesStarted (newBuilder n st)" "\<not> bd_attributesWanted (newBuilder n st)"
  "bd_span (newBuilder n st) = n"
  by (simp_all add: newBuilder_def)

lemma newBuilder_holds: "prefilling_holds (newBuilder n st) []"
  by (simp add: prefilling_holds_def)

lemma prebuilt_members:
  "jspan_ok s \<Longrightarrow> members (js_spanIDPrebuilt (setSpanIDPrefill cfg idNum s)) (id_fields cfg idNum (js_bundle s) (js_sequenceCode s))"
  using identifySpan_obj [of "[]" emptyJB "[]" s cfg idNum] by (simp add: setSpanIDPrefill_def obj_Nil emptyJB_def)

lemma preEncoded_reads: "jsonSafe m \<Longrightarrow> body_reads (if m \<noteq> [] then jb_B (AddStringBody m emptyJB) else []) m"
  using body_reads_escaped [of m] by (simp add: json_text emptyJB_def)

text \<open>
  C15. A line of the JSON logger is one JSON document and a newline. Whatever was prefilled and
  whatever the line was given, the document has the level, the time, the stack frames if there are any,
  the ids of the span, the prefilled data and the data of the line in the order of the calls (inside
  \<open>attributes\<close> if the configuration says so, and then only if there are any), and what the method that
  ended the line adds. All strings read back as they were given: escaping loses nothing.
\<close>

theorem json_line_reads:
  assumes "texts_ok jt" "jspan_ok s" "list_all (\<lambda>f. jsonSafe (fst f)) frames"
    and "list_all (build_ok jt) (ps @ cs)" "jsonSafe m" "end_ok jt e"
  shows "let b0 = newBuilder n st; cfg = lg_config st;
           data = jb_B (bd_JB (fold (json_build jt) ps b0));
           start = line_start jt cfg level t frames (js_spanIDPrebuilt (setSpanIDPrefill cfg idNum s)) data b0;
           line = \<lparr>jl_builder = fold (json_build jt) cs start, jl_level = level, jl_timestamp = t,
             jl_prefillMsg = (if m \<noteq> [] then jb_B (AddStringBody m emptyJB) else [])\<rparr>
         in \<exists>txt. jb_B (JLine_end jt e line) = txt @ [CHR 0x0A] \<and>
              readJSON txt = Some (VObj (body_fields (lc_attributesObject cfg)
                (line_fields jt level t frames @ id_fields cfg idNum (js_bundle s) (js_sequenceCode s))
                (map (build_member jt) (ps @ cs)) @ end_fields jt m e))"
proof -
  let ?b0 = "newBuilder n st" and ?cfg = "lg_config st"
  let ?data = "jb_B (bd_JB (fold (json_build jt) ps ?b0))"
  let ?pre = "js_spanIDPrebuilt (setSpanIDPrefill ?cfg idNum s)"
  let ?ids = "id_fields ?cfg idNum (js_bundle s) (js_sequenceCode s)"
  let ?fs = "line_fields jt level t frames @ ?ids"
  let ?start = "line_start jt ?cfg level t frames ?pre ?data ?b0"
  let ?line = "\<lparr>jl_builder = fold (json_build jt) cs ?start, jl_level = level, jl_timestamp = t,
    jl_prefillMsg = (if m \<noteq> [] then jb_B (AddStringBody m emptyJB) else [])\<rparr>"
  have data: "members ?data (map (build_member jt) ps)"
    using prefilling_builds [OF newBuilder_holds assms(1), of ps n st] assms(4) by (simp add: prefilling_holds_def)
  have "line_holds (lc_attributesObject ?cfg) ?start ?fs (map (build_member jt) ps)"
    using line_start_holds [OF newBuilder_flags(1,2) assms(1,3) prebuilt_members [OF assms(2)] data] .
  from line_holds_close [OF line_holds_builds [OF this assms(1), of cs]] assms(4)
  have "obj ''{'' (jb_B (close_attributes (jl_builder ?line)))
      (body_fields (lc_attributesObject ?cfg) ?fs (map (build_member jt) (ps @ cs)))" by simp
  from JLine_end_record [OF this _ _ assms(6), of m] preEncoded_reads [OF assms(5)] show ?thesis
    unfolding Let_def is_record_def by (auto simp: body_fields_def line_fields_def dest: reads_readJSON)
qed

lemma int_texts_ok: "texts_ok int_jtexts"
  using int_jtexts_closed Itoa_plain by (simp add: texts_ok_def int_jtexts_def)

definition sampleJSpan :: jspan where
  "sampleJSpan = \<lparr>js_endTime = 0, js_bundle = NewBundle, js_name = ''s'', js_request = 0, js_startTime = 0,
     js_serializationCount = 0, js_attributes = AttributeBuilder_Init, js_sequenceCode = ''.1'', js_spanIDPrebuilt = [],
     js_req = None\<rparr>"

theorem json_line_reads_witness:
  "let st = JSON_New ''id'' []; b0 = newBuilder 0 st; cfg = lg_config st;
       data = jb_B (bd_JB (fold (json_build int_jtexts) [BBool ''p'' True] b0));
       start = line_start int_jtexts cfg InfoLevel 5 [(''a.go'', 3)] (js_spanIDPrebuilt (setSpanIDPrefill cfg 0 sampleJSpan)) data b0;
       line = \<lparr>jl_builder = fold (json_build int_jtexts) [BDuration ''k'' 7] start, jl_level = InfoLevel, jl_timestamp = 5,
         jl_prefillMsg = (if ''x '' \<noteq> [] then jb_B (AddStringBody ''x '' emptyJB) else [])\<rparr>
   in \<exists>txt. jb_B (JLine_end int_jtexts (LMsg ''m'') line) = txt @ [CHR 0x0A] \<and>
        readJSON txt = Some (VObj [(''lvl'', VStr ''info''), (''ts'', VStr ''5''), (''stack'', VArr [VStr ''a.go:3'']),
          (''span.id'', VStr ''0000000000000000''), (''span.seq'', VStr ''.1''),
          (''attributes'', VObj [(''p'', VObj [(''v'', VBool True), (''t'', VStr ''bool'')]),
            (''k'', VObj [(''v'', VStr ''7ns''), (''t'', VStr ''dur'')])]),
          (''msg'', VStr ''x m'')])"
proof -
  have ok: "jspan_ok sampleJSpan"
    by (simp add: jspan_ok_def bundle_ok_def sampleJSpan_def NewBundle_def jsonSafe_def NewTrace_ok)
  have d: "body_fields (lc_attributesObject (lg_config (JSON_New ''id'' [])))
      (line_fields int_jtexts InfoLevel 5 [(''a.go'', 3)] @
       id_fields (lg_config (JSON_New ''id'' [])) 0 (js_bundle sampleJSpan) (js_sequenceCode sampleJSpan))
      (map (build_member int_jtexts) ([BBool ''p'' True] @ [BDuration ''k'' 7])) @ end_fields int_jtexts ''x '' (LMsg ''m'') =
    [(''lvl'', VStr ''info''), (''ts'', VStr ''5''), (''stack'', VArr [VStr ''a.go:3'']),
          (''span.id'', VStr ''0000000000000000''), (''span.seq'', VStr ''.1''),
          (''attributes'', VObj [(''p'', VObj [(''v'', VBool True), (''t'', VStr ''bool'')]),
            (''k'', VObj [(''v'', VStr ''7ns''), (''t'', VStr ''dur'')])]),
          (''msg'', VStr ''x m'')]"
    by code_simp
  show ?thesis
    using json_line_reads [OF int_texts_ok ok, of "[(''a.go'', 3)]" "[BBool ''p'' True]" "[BDuration ''k'' 7]" "''x ''" "LMsg ''m''" 0
      "JSON_New ''id'' []" InfoLevel 5 0] d
    by (simp add: Let_def jsonSafe_def)
qed

end
