(* ===== verification/JSONRecords.thy ===== *)
theory JSONRecords
  imports AttributeJSON JSONLines
begin

section \<open>The other records of the JSON logger as documents\<close>

text \<open>
  What the records of requests and spans read as, those written when they start and those written
  when they are done, and the definitions of attributes.
\<close>

subsection \<open>Start records\<close>

definition request_start_doc :: "'m jtexts \<Rightarrow> SourceInfo \<Rightarrow> Bundle \<Rightarrow> string \<Rightarrow> time \<Rightarrow> json" where
  "request_start_doc jt si bundle name start =
     VObj ([(''type'', VStr ''request''), (''span.ver'', VNum ''0'')] @ request_fields jt si bundle name start)"

definition span_start_doc :: "'m jtexts \<Rightarrow> Bundle \<Rightarrow> string \<Rightarrow> time \<Rightarrow> json" where
  "span_start_doc jt bundle name start =
     VObj ([(''type'', VStr ''span''), (''span.ver'', VNum ''0''),
       (''span.id'', VStr (Wrapped_String SpanIDField (initialize (bu_Trace bundle))))] @ span_fields jt bundle name start)"

lemma record_closed: "obj ''{'' (jb_B b) fs \<Longrightarrow> is_record (jb_B (AppendBytes record_end b)) (VObj fs)"
  using record_line [of "jb_B b" fs] by (simp add: json_text record_end_def)

lemma obj_open:
  "jb_B b = [] \<Longrightarrow> plain v \<Longrightarrow> obj ''{'' (jb_B (AppendBytes (q ''{`type`:'' @ quoted v) b)) [(''type'', VStr v)]"
  by (simp add: json_text, rule obj_brace [OF _ reads_plain]) (simp_all add: q_def quoted_def)

lemma obj_open_ver:
  assumes "jb_B b = []" "plain v"
  shows "obj ''{'' (jb_B (AppendBytes (q ''{`type`:'' @ quoted v @ q '',`span.ver`:0'') b)) [(''type'', VStr v), (''span.ver'', VNum ''0'')]"
proof -
  have "isNumber ''0''" by code_simp
  from obj_literal [OF obj_open [OF assms] _ _ reads_number [OF this], of "''span.ver''"] assms(1)
  show ?thesis by (simp add: json_text q_def quoted_def)
qed

lemma request_start_record:
  assumes "jspan_ok s" "source_ok si" "texts_ok jt" "jb_B b = []"
  shows "is_record (jb_B (AppendBytes record_end (addRequestStartData jt si s
      (AppendBytes (q ''{`type`:`request`,`span.ver`:0'') b))))
    (request_start_doc jt si (js_bundle s) (js_name s) (js_startTime s))"
proof -
  have "q ''{`type`:`request`,`span.ver`:0'' = q ''{`type`:'' @ quoted ''request'' @ q '',`span.ver`:0''"
    by (simp add: q_def quoted_def)
  from record_closed [OF addRequestStartData_obj [OF obj_open_ver [OF assms(4), of "''request''"] assms(1-3)]] this
  show ?thesis by (simp add: request_start_doc_def)
qed

lemma span_start_record:
  assumes "jspan_ok s" "texts_ok jt" "jb_B (bd_JB b) = []" "\<not> bd_attributesWanted b"
  shows "is_record (jb_B (bd_JB (on_JB (AppendBytes record_end) (spanStartData jt s
      (on_JB (AddSafeString (Wrapped_String SpanIDField (initialize (bu_Trace (js_bundle s)))))
        (on_JB (AppendBytes (q ''{`type`:`span`,`span.ver`:0,`span.id`:'')) b))))))
    (span_start_doc jt (js_bundle s) (js_name s) (js_startTime s))"
proof -
  let ?i = "Wrapped_String SpanIDField (initialize (bu_Trace (js_bundle s)))"
  let ?b = "on_JB (AddSafeString ?i) (on_JB (AppendBytes (q ''{`type`:`span`,`span.ver`:0,`span.id`:'')) b)"
  have t: "q ''{`type`:`span`,`span.ver`:0,`span.id`:'' = (q ''{`type`:'' @ quoted ''span'' @ q '',`span.ver`:0'') @ CHR '','' # quoted ''span.id'' @ '':''"
    by (simp add: q_def quoted_def)
  have "plain ?i" using assms(1) by (simp add: jspan_ok_def bundle_ok_def Wrapped_String_plain)
  from obj_literal [OF obj_open_ver [OF assms(3), of "''span''"] _ _ reads_plain [OF this], of "''span.id''"] assms(3)
  have "obj ''{'' (jb_B (bd_JB ?b)) ([(''type'', VStr ''span''), (''span.ver'', VNum ''0'')] @ [(''span.id'', VStr ?i)])"
    by (simp add: t json_text)
  from record_closed [OF spanStartData_obj [OF this _ assms(1,2)]] assms(4) show ?thesis
    by (simp add: span_start_doc_def)
qed

subsection \<open>Records of what is done\<close>

definition duration_doc :: "'m jtexts \<Rightarrow> DurationOption \<Rightarrow> i64 \<Rightarrow> json" where
  "duration_doc jt format v =
     (case format of
        AsNanos \<Rightarrow> VNum (Itoa (sint v))
      | AsMicros \<Rightarrow> VNum (Itoa (sint (duration_div v 1000)))
      | AsMillis \<Rightarrow> VNum (Itoa (sint (duration_div v 1000000)))
      | AsSeconds \<Rightarrow> VNum (Itoa (sint (duration_div v 1000000000)))
      | AsString \<Rightarrow> VStr (jt_duration jt v))"

lemma AttributeDuration_text:
  "\<exists>t. jb_B (jb_AttributeDuration jt format v b) = jb_B b @ t \<and> (texts_ok jt \<longrightarrow> reads t (duration_doc jt format v))"
  by (cases format) (auto simp: jb_AttributeDuration_def duration_doc_def json_text texts_ok_def intro: reads_sint reads_plain)

definition head_fields ::
    "'m jtexts \<Rightarrow> jconfig \<Rightarrow> SourceInfo option \<Rightarrow> i64 \<Rightarrow> Bundle \<Rightarrow> string \<Rightarrow> time \<Rightarrow> string \<Rightarrow> (string \<times> json) list" where
  "head_fields jt cfg source idNum bundle name start code =
     (case source of
        Some si \<Rightarrow> [(''type'', VStr ''request'')] @ request_fields jt si bundle name start
      | None \<Rightarrow> [(''type'', VStr ''span'')] @ span_fields jt bundle name start @ id_fields cfg idNum bundle code)"

definition done_fields ::
    "'m jtexts \<Rightarrow> jconfig \<Rightarrow> SourceInfo option \<Rightarrow> i64 \<Rightarrow> Bundle \<Rightarrow> string \<Rightarrow> time \<Rightarrow> string \<Rightarrow> i32 \<Rightarrow> i64 \<Rightarrow> (string \<times> json) list" where
  "done_fields jt cfg source idNum bundle name start code ver dur =
     head_fields jt cfg source idNum bundle name start code @
     [(''span.ver'', VNum (Itoa (sint ver))), (''dur'', duration_doc jt (lc_durationFormat cfg) dur)]"

text \<open>The record up to the attributes, as \<open>flushAttributes\<close> makes it with the configurations of \<open>New\<close>.\<close>

definition flush_head :: "'m jtexts \<Rightarrow> jconfig \<Rightarrow> jrequest \<Rightarrow> bool \<Rightarrow> jspan \<Rightarrow> jbuilder \<Rightarrow> jbuilder" where
  "flush_head jt cfg req isRequest span rq =
     (if isRequest then
        on_JB (AddSafeKey ''span.ver'')
          (on_JB (addRequestStartData jt (jr_sourceInfo req) span) (on_JB (AppendBytes (q ''{`type`:`request`'')) rq))
      else
        on_JB (AddSafeKey ''span.ver'')
          (on_JB (identifySpan cfg (jr_idNum req) span) (spanStartData jt span (on_JB (AppendBytes (q ''{`type`:`span`'')) rq))))"

definition flush_rq :: "'m jtexts \<Rightarrow> jconfig \<Rightarrow> jrequest \<Rightarrow> bool \<Rightarrow> jspan \<Rightarrow> jbuilder \<Rightarrow> JBuilder" where
  "flush_rq jt cfg req isRequest span rq =
     jb_AttributeDuration jt (lc_durationFormat cfg) (js_endTime span - word_of_int (js_startTime span))
       (AppendBytes (BuildKey ''dur'') (AddInt64 (word_of_int (sint (js_serializationCount span)))
          (bd_JB (flush_head jt cfg req isRequest span rq))))"

definition config_ok :: "jconfig \<Rightarrow> bool" where
  "config_ok cfg \<longleftrightarrow> \<not> lc_spanChangesOnly cfg \<and> lc_durationKey cfg = Some (BuildKey ''dur'') \<and> lc_attributesObject cfg \<and>
     lc_tagOption cfg = 17"

lemma JSON_config_ok: "config_ok (JSON_config ident opts)"
proof -
  have "config_ok (fold apply_joption opts cfg)" if "config_ok cfg" for cfg
    using that
  proof (induction opts arbitrary: cfg)
    case (Cons o' opts)
    have "config_ok (apply_joption o' cfg)" using Cons.prems by (cases o') (simp_all add: config_ok_def)
    from Cons.IH [OF this] show ?case by simp
  qed simp
  then show ?thesis by (simp add: JSON_config_def Let_def config_ok_def)
qed

lemma flushAttributes_eq:
  assumes "config_ok (lg_config st)"
  shows "flushAttributes env s st =
    (let span = lg_spans st ! s; r = js_request span;
         (b, a) = Attributes_Append (je_order env (iow_calls (lg_writer st))) False True
           (flush_rq (je_texts env) (lg_config st) (request_of s st) (s = r) span (newBuilder s st)) (js_attributes span)
     in json_write env r (jb_B (AppendBytes record_end b))
          (upd_jspan s (\<lambda>x. x\<lparr>js_serializationCount := js_serializationCount x + 1, js_attributes := a\<rparr>) st))"
  using assms by (simp add: flushAttributes_def flush_rq_def flush_head_def config_ok_def Let_def)

lemma flush_rq_obj:
  assumes "jspan_ok s" "texts_ok jt" "jb_B (bd_JB b) = []" "\<not> bd_attributesWanted b" "isRequest \<Longrightarrow> source_ok (jr_sourceInfo req)"
  shows "obj ''{'' (jb_B (flush_rq jt cfg req isRequest s b))
    (done_fields jt cfg (if isRequest then Some (jr_sourceInfo req) else None) (jr_idNum req) (js_bundle s) (js_name s)
      (js_startTime s) (js_sequenceCode s) (js_serializationCount s) (js_endTime s - word_of_int (js_startTime s)))"
proof -
  let ?h = "head_fields jt cfg (if isRequest then Some (jr_sourceInfo req) else None) (jr_idNum req) (js_bundle s) (js_name s)
      (js_startTime s) (js_sequenceCode s)"
  have o: "obj ''{'' (jb_B (bd_JB (on_JB (AppendBytes (q ''{`type`:'' @ quoted v)) b))) [(''type'', VStr v)]" if "plain v" for v
    using obj_open [OF assms(3) that] by simp
  have t: "q ''{`type`:`request`'' = q ''{`type`:'' @ quoted ''request''" "q ''{`type`:`span`'' = q ''{`type`:'' @ quoted ''span''"
    by (simp_all add: q_def quoted_def)
  have "\<exists>hb. jb_B (bd_JB (flush_head jt cfg req isRequest s b)) = jb_B (AddSafeKey ''span.ver'' hb) \<and> obj ''{'' (jb_B hb) ?h"
  proof (cases isRequest)
    case True
    with addRequestStartData_obj [OF o assms(1,5,2), of "''request''"] show ?thesis
      by (auto simp: flush_head_def head_fields_def t)
  next
    case False
    have "obj ''{'' (jb_B (bd_JB (spanStartData jt s (on_JB (AppendBytes (q ''{`type`:`span`'')) b))))
        ([(''type'', VStr ''span'')] @ span_fields jt (js_bundle s) (js_name s) (js_startTime s))"
      using assms(4) unfolding t by (intro spanStartData_obj o assms) simp_all
    from identifySpan_obj [OF this assms(1), of cfg "jr_idNum req"] False show ?thesis
      by (auto simp: flush_head_def head_fields_def)
  qed
  then obtain hb where hb: "jb_B (bd_JB (flush_head jt cfg req isRequest s b)) = jb_B (AddSafeKey ''span.ver'' hb)"
    "obj ''{'' (jb_B hb) ?h" by blast
  let ?ver = "AddInt64 (word_of_int (sint (js_serializationCount s))) (bd_JB (flush_head jt cfg req isRequest s b))"
  have "sint (word_of_int (sint (js_serializationCount s)) :: i64) = sint (js_serializationCount s)"
    using sint_up_scast [where 'b = 64, of "js_serializationCount s"] by (simp add: is_up)
  then have ver: "obj ''{'' (jb_B ?ver) (?h @ [(''span.ver'', VNum (Itoa (sint (js_serializationCount s))))])"
    using obj_int [OF hb(2), of "''span.ver''" "word_of_int (sint (js_serializationCount s))"] hb(1)
    by (simp add: json_text)
  obtain d where d: "jb_B (flush_rq jt cfg req isRequest s b) = jb_B ?ver @ BuildKey ''dur'' @ d"
    "reads d (duration_doc jt (lc_durationFormat cfg) (js_endTime s - word_of_int (js_startTime s)))"
    using AttributeDuration_text [of jt "lc_durationFormat cfg" "js_endTime s - word_of_int (js_startTime s)"
        "AppendBytes (BuildKey ''dur'') ?ver"] assms(2)
    by (auto simp: flush_rq_def json_text)
  have "BuildKey ''dur'' = CHR '','' # quoted ''dur'' @ '':''" by code_simp
  with obj_literal [OF ver _ _ d(2), of "''dur''"] d(1) show ?thesis by (simp add: done_fields_def)
qed

text \<open>The whole record.\<close>

definition done_doc ::
    "'m jtexts \<Rightarrow> jconfig \<Rightarrow> SourceInfo option \<Rightarrow> i64 \<Rightarrow> Bundle \<Rightarrow> string \<Rightarrow> time \<Rightarrow> string \<Rightarrow> i32 \<Rightarrow> i64 \<Rightarrow>
     (Attribute \<times> 'm metavalue) list \<Rightarrow> (string list \<Rightarrow> string list) \<Rightarrow> json" where
  "done_doc jt cfg source idNum bundle name start code ver dur cs order =
     VObj (done_fields jt cfg source idNum bundle name start code ver dur @ attributes_doc jt cs order True)"

lemma flush_record:
  assumes "jspan_ok s" "texts_ok jt" "jb_B (bd_JB b) = []" "\<not> bd_attributesWanted b" "isRequest \<Longrightarrow> source_ok (jr_sourceInfo req)"
    and "calls_ok jt cs" "attributes_hold jt cs (js_attributes s)" "order_ok order"
    and "Attributes_Append order False True (flush_rq jt cfg req isRequest s b) (js_attributes s) = (b', a)"
  shows "is_record (jb_B (AppendBytes record_end b'))
    (done_doc jt cfg (if isRequest then Some (jr_sourceInfo req) else None) (jr_idNum req) (js_bundle s) (js_name s)
      (js_startTime s) (js_sequenceCode s) (js_serializationCount s) (js_endTime s - word_of_int (js_startTime s)) cs order)"
    and "attributes_hold jt cs a"
proof -
  let ?fs = "done_fields jt cfg (if isRequest then Some (jr_sourceInfo req) else None) (jr_idNum req) (js_bundle s) (js_name s)
      (js_startTime s) (js_sequenceCode s) (js_serializationCount s) (js_endTime s - word_of_int (js_startTime s))"
  have "?fs \<noteq> []" by (simp add: done_fields_def)
  from Attributes_Append_obj [OF assms(2,6-8) flush_rq_obj [OF assms(1-5)] this, of False True] assms(9)
  have "obj ''{'' (jb_B b') (?fs @ attributes_doc jt cs order True)"
    by (simp add: attributes_fields_all [OF assms(7,8)])
  from record_closed [OF this] show "is_record (jb_B (AppendBytes record_end b'))
    (done_doc jt cfg (if isRequest then Some (jr_sourceInfo req) else None) (jr_idNum req) (js_bundle s) (js_name s)
      (js_startTime s) (js_sequenceCode s) (js_serializationCount s) (js_endTime s - word_of_int (js_startTime s)) cs order)"
    by (simp add: done_doc_def)
  show "attributes_hold jt cs a"
    using attributes_hold_Append [OF assms(7), of order False True "flush_rq jt cfg req isRequest s b"] assms(9) by simp
qed

subsection \<open>Definitions of attributes\<close>

fun val_doc :: "jval \<Rightarrow> json" where
  "val_doc (JString s) = VStr s"
| "val_doc (JInt i) = VNum (Itoa i)"
| "val_doc (JBool v) = VBool v"

lemma fieldText_reads: "fieldSafe f \<Longrightarrow> member_reads (fieldText f) (fst f, val_doc (snd f))"
proof -
  assume f: "fieldSafe f"
  then have "reads (valText (snd f)) (val_doc (snd f))"
    using reads_safe reads_sint reads_true reads_false
    by (cases "snd f") (auto simp: fieldSafe_def quoted_def)
  with member_readsI [OF body_reads_escaped] f show ?thesis
    by (simp add: fieldText_def fieldSafe_def quoted_def)
qed

lemma fieldsText_members:
  assumes "list_all fieldSafe fs"
  shows "members (fieldsText fs) (map (\<lambda>f. (fst f, val_doc (snd f))) fs)"
proof -
  have "fieldsText fs = commas (map fieldText fs)" by (induction fs rule: fieldsText.induct) simp_all
  moreover have "list_all2 member_reads (map fieldText fs) (map (\<lambda>f. (fst f, val_doc (snd f))) fs)"
    using assms fieldText_reads by (simp add: list_all2_map1 list_all2_map2 list_all2_same list_all_iff)
  ultimately show ?thesis unfolding members_def by blast
qed

text \<open>An attribute as the registry makes it.\<close>

definition attribute_made :: "Attribute \<Rightarrow> bool" where
  "attribute_made k \<longleftrightarrow> attribute_safe k \<and> at_jsonDef k = jsonAttributeDefinition k \<and> key_ok k"

definition definition_doc :: "Attribute \<Rightarrow> Trace option \<Rightarrow> json" where
  "definition_doc k requestTrace =
     VObj (map (\<lambda>f. (fst f, val_doc (snd f))) (definitionFields k) @
       (case requestTrace of Some t \<Rightarrow> [(''span.id'', VStr (Wrapped_String SpanIDField (initialize t)))] | None \<Rightarrow> []))"

lemma hb_h_String: "trace_ok t \<Longrightarrow> hb_h (tr_spanID (initialize t)) = Wrapped_String SpanIDField (initialize t)"
proof -
  assume "trace_ok t"
  then have "trace_ok (initialize t)" by (rule initialize_ok)
  then have "hb_cached (tr_spanID (initialize t))" by (simp add: trace_ok_def trace_cached_def)
  then show ?thesis using Wrapped_String_eq [OF \<open>trace_ok (initialize t)\<close>, of SpanIDField] by (simp add: hb_cached_def)
qed

lemma definition_record:
  assumes "attribute_made k" "case t of Some tr \<Rightarrow> trace_ok tr | None \<Rightarrow> True"
  shows "is_record (iow_definition_text k t) (definition_doc k t)"
proof -
  let ?fs = "map (\<lambda>f. (fst f, val_doc (snd f))) (definitionFields k)"
  have k: "attribute_safe k" "at_jsonDef k = objectText (definitionFields k) @ [CHR 0x0A]"
    using assms(1) jsonAttributeDefinition_object by (simp_all add: attribute_made_def)
  have o: "obj ''{'' (CHR ''{'' # fieldsText (definitionFields k)) ?fs" "?fs \<noteq> []"
    using fieldsText_members [OF definitionFields_safe [OF k(1)]] by (auto simp: obj_def definitionFields_def Let_def)
  show ?thesis
  proof (cases t)
    case None
    with record_line [OF o(1)] k(2) show ?thesis
      by (simp add: iow_definition_text_def definition_doc_def objectText_def)
  next
    case (Some tr)
    with assms(2) have tr: "trace_ok tr" by simp
    have tk: "take (length (at_jsonDef k) - 2) (at_jsonDef k) = CHR ''{'' # fieldsText (definitionFields k)"
      by (simp add: k(2) objectText_def)
    have "obj ''{'' ((CHR ''{'' # fieldsText (definitionFields k)) @ CHR '','' # quoted ''span.id'' @ CHR '':'' #
        quoted (Wrapped_String SpanIDField (initialize tr))) (?fs @ [(''span.id'', VStr (Wrapped_String SpanIDField (initialize tr)))])"
      by (rule obj_literal [OF o _ reads_plain [OF Wrapped_String_plain [OF tr]]]) simp_all
    from record_line [OF this] Some tk show ?thesis
      by (simp add: iow_definition_text_def definition_doc_def hb_h_String [OF tr] Let_def q_def quoted_def)
  qed
qed

end
