(* ===== verification/JSONSpec.thy ===== *)
theory JSONSpec
  imports JSONRecords
begin

section \<open>What the JSON logger promises: a logger of documents\<close>

text \<open>
  The specification of the JSON base logger. It keeps what it was told (the calls that built a line,
  the metadata of a span) instead of text, has no pools, and its output is a list of JSON values.
  A line that has ended is not used again: a call on it is \<^term>\<open>None\<close>, as is a call on an object that has no
  such method.
\<close>

subsection \<open>State\<close>

record 'm dspan =
  dn_end :: i64
  dn_bundle :: Bundle
  dn_name :: string
  dn_request :: nat
  dn_start :: time
  dn_ver :: i32
  dn_calls :: "(Attribute \<times> 'm metavalue) list"
  dn_code :: string
  dn_req :: "jrequest option"

record 'm dprefilling =
  dg_span :: nat
  dg_data :: "'m build_call list"

record 'm dprefilled =
  df_span :: nat
  df_data :: "'m build_call list"
  df_msg :: string

record 'm dline =
  dl_span :: nat
  dl_fields :: "(string \<times> json) list"
  dl_data :: "'m build_call list"
  dl_msg :: string
  dl_open :: bool

record 'm dlogger =
  dc_spans :: "'m dspan list"
  dc_prefillings :: "'m dprefilling list"
  dc_prefilleds :: "'m dprefilled list"
  dc_lines :: "'m dline list"
  dc_tracking :: "string list"
  dc_calls :: nat
  dc_docs :: "json list"

definition doc_New :: "'m dlogger" where
  "doc_New = \<lparr>dc_spans = [], dc_prefillings = [], dc_prefilleds = [], dc_lines = [], dc_tracking = [], dc_calls = 0, dc_docs = []\<rparr>"

definition upd_dspan :: "nat \<Rightarrow> ('m dspan \<Rightarrow> 'm dspan) \<Rightarrow> 'm dlogger \<Rightarrow> 'm dlogger" where
  "upd_dspan s g d = d\<lparr>dc_spans := (dc_spans d)[s := g (dc_spans d ! s)]\<rparr>"

definition upd_dreq :: "nat \<Rightarrow> (jrequest \<Rightarrow> jrequest) \<Rightarrow> 'm dlogger \<Rightarrow> 'm dlogger" where
  "upd_dreq r g = upd_dspan r (\<lambda>x. x\<lparr>dn_req := map_option g (dn_req x)\<rparr>)"

text \<open>The \<open>n\<close>-th document is lost if the \<open>n\<close>-th write fails; the error reporter is told.\<close>

definition doc_emit :: "'m jenv \<Rightarrow> nat \<Rightarrow> json \<Rightarrow> 'm dlogger \<Rightarrow> 'm dlogger" where
  "doc_emit env r v d =
     (let fails = je_fails env (dc_calls d); d = d\<lparr>dc_calls := dc_calls d + 1\<rparr> in
      if fails then upd_dreq r (\<lambda>x. if jr_reporter x then x\<lparr>jr_reports := jr_reports x + 1\<rparr> else x) d
      else d\<lparr>dc_docs := dc_docs d @ [v]\<rparr>)"

subsection \<open>Operations\<close>

definition doc_Request :: "'m jenv \<Rightarrow> jconfig \<Rightarrow> time \<Rightarrow> Bundle \<Rightarrow> string \<Rightarrow> SourceInfo \<Rightarrow> 'm dlogger \<Rightarrow> nat \<times> 'm dlogger" where
  "doc_Request env cfg ts bundle name si d =
     (let r = length (dc_spans d);
          req = \<lparr>jr_idNum = 0, jr_errorCount = 0, jr_alertCount = 0, jr_sourceInfo = si, jr_tracking = [],
            jr_reporter = False, jr_reports = 0\<rparr>;
          d = d\<lparr>dc_spans := dc_spans d @ [\<lparr>dn_end = word_of_int ts, dn_bundle = bundle, dn_name = name, dn_request = r,
            dn_start = ts, dn_ver = (if lc_spanStarts cfg then 1 else 0), dn_calls = [], dn_code = [], dn_req = Some req\<rparr>]\<rparr>
      in (r, if lc_spanStarts cfg then doc_emit env r (request_start_doc (je_texts env) si bundle name ts) d else d))"

definition doc_Span :: "'m jenv \<Rightarrow> jconfig \<Rightarrow> time \<Rightarrow> Bundle \<Rightarrow> string \<Rightarrow> string \<Rightarrow> nat \<Rightarrow> 'm dlogger \<Rightarrow> nat \<times> 'm dlogger" where
  "doc_Span env cfg ts bundle name code s d =
     (let r = dn_request (dc_spans d ! s); n = length (dc_spans d);
          d = d\<lparr>dc_spans := dc_spans d @ [\<lparr>dn_end = word_of_int ts, dn_bundle = bundle, dn_name = name, dn_request = r,
            dn_start = ts, dn_ver = (if lc_spanStarts cfg then 1 else 0), dn_calls = [], dn_code = code, dn_req = None\<rparr>]\<rparr>
      in (n, if lc_spanStarts cfg then doc_emit env r (span_start_doc (je_texts env) bundle name ts) d else d))"

text \<open>The record of a span as it stands.\<close>

definition doc_of_span :: "'m jenv \<Rightarrow> jconfig \<Rightarrow> 'm dspan \<Rightarrow> nat \<Rightarrow> json" where
  "doc_of_span env cfg x n =
     done_doc (je_texts env) cfg (map_option jr_sourceInfo (dn_req x)) 0 (dn_bundle x) (dn_name x) (dn_start x) (dn_code x)
       (dn_ver x) (dn_end x - word_of_int (dn_start x)) (dn_calls x) (je_order env n)"

definition doc_Done :: "'m jenv \<Rightarrow> jconfig \<Rightarrow> time \<Rightarrow> nat \<Rightarrow> 'm dlogger \<Rightarrow> 'm dlogger" where
  "doc_Done env cfg t s d =
     (let d = upd_dspan s (\<lambda>x. x\<lparr>dn_end := word_of_int t\<rparr>) d; x = dc_spans d ! s
      in doc_emit env (dn_request x) (doc_of_span env cfg x (dc_calls d)) (upd_dspan s (\<lambda>x. x\<lparr>dn_ver := dn_ver x + 1\<rparr>) d))"

definition doc_Line :: "'m jenv \<Rightarrow> jconfig \<Rightarrow> int \<Rightarrow> time \<Rightarrow> frame list \<Rightarrow> nat \<Rightarrow> 'm dlogger \<Rightarrow> nat \<times> 'm dlogger" where
  "doc_Line env cfg level t frames p d =
     (let f = dc_prefilleds d ! p; s = df_span f; x = dc_spans d ! s;
          d = upd_dspan s (\<lambda>x. x\<lparr>dn_end := word_of_int t\<rparr>) d;
          d = (if ErrorLevel \<le> level then
                 upd_dreq (dn_request x) (\<lambda>x. if AlertLevel \<le> level then x\<lparr>jr_alertCount := jr_alertCount x + 1\<rparr>
                    else x\<lparr>jr_errorCount := jr_errorCount x + 1\<rparr>) d
               else d)
      in (length (dc_lines d),
          d\<lparr>dc_lines := dc_lines d @ [\<lparr>dl_span = s,
            dl_fields = line_fields (je_texts env) level t frames @ id_fields cfg 0 (dn_bundle x) (dn_code x),
            dl_data = df_data f, dl_msg = df_msg f, dl_open = True\<rparr>]\<rparr>))"

definition doc_of_line :: "'m jenv \<Rightarrow> 'm line_end \<Rightarrow> 'm dline \<Rightarrow> json" where
  "doc_of_line env e l =
     VObj (body_fields True (dl_fields l) (map (build_member (je_texts env)) (dl_data l)) @ end_fields (je_texts env) (dl_msg l) e)"

definition doc_End :: "'m jenv \<Rightarrow> 'm line_end \<Rightarrow> nat \<Rightarrow> 'm dlogger \<Rightarrow> 'm dlogger" where
  "doc_End env e l d =
     (let x = dc_lines d ! l in
      doc_emit env (dn_request (dc_spans d ! dl_span x)) (doc_of_line env e x) (d\<lparr>dc_lines := (dc_lines d)[l := x\<lparr>dl_open := False\<rparr>]\<rparr>))"

text \<open>When an attribute is defined: always, once for the logger, or once for a request.\<close>

definition doc_define :: "'m jenv \<Rightarrow> jconfig \<Rightarrow> Attribute \<Rightarrow> nat \<Rightarrow> 'm dlogger \<Rightarrow> 'm dlogger" where
  "doc_define env cfg k s d =
     (let r = dn_request (dc_spans d ! s) in
      case lc_attributeOption cfg of
        AttributesDefinedAlways \<Rightarrow> doc_emit env r (definition_doc k None) d
      | AttributesDefinedOnce \<Rightarrow>
          if at_key k \<in> set (dc_tracking d) then d
          else doc_emit env r (definition_doc k None) (d\<lparr>dc_tracking := dc_tracking d @ [at_key k]\<rparr>)
      | AttributesDefinedEachRequest \<Rightarrow>
          if at_key k \<in> set (jr_tracking (the (dn_req (dc_spans d ! r)))) then d
          else doc_emit env r (definition_doc k (Some (bu_Trace (dn_bundle (dc_spans d ! r)))))
                 (upd_dreq r (\<lambda>x. x\<lparr>jr_tracking := jr_tracking x @ [at_key k]\<rparr>) d))"

definition doc_Metadata :: "'m jenv \<Rightarrow> jconfig \<Rightarrow> Attribute \<Rightarrow> 'm metavalue \<Rightarrow> nat \<Rightarrow> 'm dlogger \<Rightarrow> 'm dlogger" where
  "doc_Metadata env cfg k v s d = upd_dspan s (\<lambda>x. x\<lparr>dn_calls := dn_calls x @ [(k, v)]\<rparr>) (doc_define env cfg k s d)"

fun doc_new :: "'m jenv \<Rightarrow> jconfig \<Rightarrow> create \<Rightarrow> jhandle option \<Rightarrow> 'm dlogger \<Rightarrow> (jhandle \<times> 'm dlogger) option" where
  "doc_new env cfg (NRequest ts b n si) None d = (let (s, d) = doc_Request env cfg ts b n si d in Some (JSpanH s, d))"
| "doc_new env cfg (NSpan ts b n code) (Some (JSpanH s)) d = (let (n, d) = doc_Span env cfg ts b n code s d in Some (JSpanH n, d))"
| "doc_new env cfg NNoPrefill (Some (JSpanH s)) d =
     Some (JPrefilledH (length (dc_prefilleds d)),
       d\<lparr>dc_prefilleds := dc_prefilleds d @ [\<lparr>df_span = s, df_data = [], df_msg = []\<rparr>]\<rparr>)"
| "doc_new env cfg NStartPrefill (Some (JSpanH s)) d =
     Some (JPrefillingH (length (dc_prefillings d)), d\<lparr>dc_prefillings := dc_prefillings d @ [\<lparr>dg_span = s, dg_data = []\<rparr>]\<rparr>)"
| "doc_new env cfg (NPrefillComplete m) (Some (JPrefillingH p)) d =
     Some (JPrefilledH (length (dc_prefilleds d)),
       d\<lparr>dc_prefilleds := dc_prefilleds d @
         [\<lparr>df_span = dg_span (dc_prefillings d ! p), df_data = dg_data (dc_prefillings d ! p), df_msg = m\<rparr>]\<rparr>)"
| "doc_new env cfg (NLine level t frames) (Some (JPrefilledH p)) d =
     (let (l, d) = doc_Line env cfg level t frames p d in Some (JLineH l, d))"
| "doc_new env cfg _ _ d = None"

fun doc_do :: "'m jenv \<Rightarrow> jconfig \<Rightarrow> 'm action \<Rightarrow> jhandle \<Rightarrow> 'm dlogger \<Rightarrow> 'm dlogger option" where
  "doc_do env cfg AFlush (JSpanH s) d = (if dn_req (dc_spans d ! s) \<noteq> None then Some d else None)"
| "doc_do env cfg ASetErrorReporter (JSpanH s) d =
     (if dn_req (dc_spans d ! s) \<noteq> None then Some (upd_dreq s (\<lambda>x. x\<lparr>jr_reporter := True\<rparr>) d) else None)"
| "doc_do env cfg (ADone t final) (JSpanH s) d = Some (doc_Done env cfg t s d)"
| "doc_do env cfg (ABoring b) (JSpanH s) d = Some d"
| "doc_do env cfg (AMetadata k v) (JSpanH s) d = Some (doc_Metadata env cfg k v s d)"
| "doc_do env cfg (ABuild c) (JPrefillingH p) d =
     (let x = dc_prefillings d ! p in Some (d\<lparr>dc_prefillings := (dc_prefillings d)[p := x\<lparr>dg_data := dg_data x @ [c]\<rparr>]\<rparr>))"
| "doc_do env cfg (ABuild c) (JLineH l) d =
     (let x = dc_lines d ! l in
      if dl_open x then Some (d\<lparr>dc_lines := (dc_lines d)[l := x\<lparr>dl_data := dl_data x @ [c]\<rparr>]\<rparr>) else None)"
| "doc_do env cfg (AEnd e) (JLineH l) d = (if dl_open (dc_lines d ! l) then Some (doc_End env e l d) else None)"
| "doc_do env cfg _ _ d = None"

definition doc_base :: "string \<Rightarrow> 'm jenv \<Rightarrow> jconfig \<Rightarrow> (jhandle, 'm dlogger, 'm) base" where
  "doc_base ident env cfg =
     \<lparr>b_ID = ident, b_ReferencesKept = False, b_Buffered = False, b_new = doc_new env cfg, b_do = doc_do env cfg,
      b_Final = (\<lambda>h d. Some d)\<rparr>"

subsection \<open>What may be logged\<close>

text \<open>Texts without control characters that JSON has no short escape for, attributes of one registry.\<close>

fun create_ok :: "create \<Rightarrow> bool" where
  "create_ok (NRequest ts b n si) = (bundle_ok b \<and> jsonSafe n \<and> source_ok si)"
| "create_ok (NSpan ts b n code) = (bundle_ok b \<and> jsonSafe n \<and> plain code)"
| "create_ok NNoPrefill = True"
| "create_ok NStartPrefill = True"
| "create_ok (NPrefillComplete m) = jsonSafe m"
| "create_ok (NLine level t frames) = list_all (\<lambda>f. jsonSafe (fst f)) frames"

fun action_ok :: "'m jtexts \<Rightarrow> (string \<Rightarrow> Attribute) \<Rightarrow> 'm action \<Rightarrow> bool" where
  "action_ok jt reg (AMetadata k v) = (attribute_made k \<and> reg (at_key k) = k \<and> metavalue_ok jt v)"
| "action_ok jt reg (ABuild c) = build_ok jt c"
| "action_ok jt reg (AEnd e) = end_ok jt e"
| "action_ok jt reg _ = True"

fun cmd_ok :: "'m jtexts \<Rightarrow> (string \<Rightarrow> Attribute) \<Rightarrow> 'm cmd \<Rightarrow> bool" where
  "cmd_ok jt reg (New c n) = create_ok c"
| "cmd_ok jt reg (Do a n) = action_ok jt reg a"

end
