(* ===== verification/JSONRefine.thy ===== *)
theory JSONRefine
  imports JSONSpec
begin

section \<open>The JSON logger implements its specification\<close>

text \<open>
  A forward simulation between the JSON logger and the logger of documents of \<open>JSONSpec\<close>. A
  relation, not a function, connects their states: the buffers hold the text of what the
  specification remembers, and \<open>lm\<close> says which of the reused lines stands for a line.
\<close>

subsection \<open>The relation\<close>

definition span_rel :: "'m jtexts \<Rightarrow> (string \<Rightarrow> Attribute) \<Rightarrow> jconfig \<Rightarrow> jspan \<Rightarrow> 'm dspan \<Rightarrow> bool" where
  "span_rel jt reg cfg s x \<longleftrightarrow>
     js_endTime s = dn_end x \<and> js_bundle s = dn_bundle x \<and> js_name s = dn_name x \<and> js_request s = dn_request x \<and>
     js_startTime s = dn_start x \<and> js_serializationCount s = dn_ver x \<and> js_sequenceCode s = dn_code x \<and>
     js_req s = dn_req x \<and> jspan_ok s \<and>
     members (js_spanIDPrebuilt s) (id_fields cfg 0 (js_bundle s) (js_sequenceCode s)) \<and>
     attributes_hold jt (dn_calls x) (js_attributes s) \<and>
     (\<forall>c \<in> set (dn_calls x). attribute_made (fst c) \<and> reg (at_key (fst c)) = fst c \<and> metavalue_ok jt (snd c)) \<and>
     (\<forall>r. js_req s = Some r \<longrightarrow> source_ok (jr_sourceInfo r) \<and> jr_idNum r = 0)"

text \<open>Every span has a request, which is its own request.\<close>

definition is_request :: "'m dspan \<Rightarrow> bool" where
  "is_request x \<longleftrightarrow> dn_req x \<noteq> None"

definition spans_ok :: "'m dspan list \<Rightarrow> bool" where
  "spans_ok xs \<longleftrightarrow> (\<forall>n < length xs. dn_request (xs ! n) < length xs \<and> is_request (xs ! dn_request (xs ! n)) \<and>
     is_request (xs ! n) = (dn_request (xs ! n) = n))"

definition spans_rel :: "'m jtexts \<Rightarrow> (string \<Rightarrow> Attribute) \<Rightarrow> jconfig \<Rightarrow> jspan list \<Rightarrow> 'm dspan list \<Rightarrow> bool" where
  "spans_rel jt reg cfg ss xs \<longleftrightarrow> list_all2 (span_rel jt reg cfg) ss xs \<and> spans_ok xs"

definition prefilling_rel :: "'m jtexts \<Rightarrow> nat \<Rightarrow> jbuilder \<Rightarrow> 'm dprefilling \<Rightarrow> bool" where
  "prefilling_rel jt n b g \<longleftrightarrow> bd_span b = dg_span g \<and> dg_span g < n \<and> prefilling_holds b (map (build_member jt) (dg_data g))"

definition prefilled_rel :: "'m jtexts \<Rightarrow> nat \<Rightarrow> jprefilled \<Rightarrow> 'm dprefilled \<Rightarrow> bool" where
  "prefilled_rel jt n p f \<longleftrightarrow> jp_span p = df_span f \<and> df_span f < n \<and> members (jp_data p) (map (build_member jt) (df_data f)) \<and>
     body_reads (jp_preEncodedMsg p) (df_msg f)"

definition line_rel :: "'m jtexts \<Rightarrow> jline \<Rightarrow> 'm dline \<Rightarrow> bool" where
  "line_rel jt l x \<longleftrightarrow> bd_span (jl_builder l) = dl_span x \<and> body_reads (jl_prefillMsg l) (dl_msg x) \<and>
     line_holds True (jl_builder l) (dl_fields x) (map (build_member jt) (dl_data x))"

text \<open>A line that is open is not in the pool, and no two open lines are the same.\<close>

definition lines_rel :: "'m jtexts \<Rightarrow> nat \<Rightarrow> jline list \<Rightarrow> nat list \<Rightarrow> nat list \<Rightarrow> 'm dline list \<Rightarrow> bool" where
  "lines_rel jt n ls pool lm xs \<longleftrightarrow> length lm = length xs \<and> distinct pool \<and> (\<forall>i \<in> set pool. i < length ls) \<and>
     (\<forall>j < length xs. dl_span (xs ! j) < n \<and>
        (dl_open (xs ! j) \<longrightarrow> lm ! j < length ls \<and> lm ! j \<notin> set pool \<and> line_rel jt (ls ! (lm ! j)) (xs ! j))) \<and>
     (\<forall>i < length xs. \<forall>j < length xs. i \<noteq> j \<longrightarrow> dl_open (xs ! i) \<longrightarrow> dl_open (xs ! j) \<longrightarrow> lm ! i \<noteq> lm ! j)"

definition writer_rel :: "iowriter \<Rightarrow> nat \<Rightarrow> json list \<Rightarrow> bool" where
  "writer_rel o' calls docs \<longleftrightarrow> iow_calls o' = calls \<and> list_all2 is_record (iow_written o') docs"

definition state_rel :: "'m jtexts \<Rightarrow> (string \<Rightarrow> Attribute) \<Rightarrow> jconfig \<Rightarrow> nat list \<Rightarrow> jlogger \<Rightarrow> 'm dlogger \<Rightarrow> bool" where
  "state_rel jt reg cfg lm w d \<longleftrightarrow> lg_config w = cfg \<and> lg_tracking w = dc_tracking d \<and>
     spans_rel jt reg cfg (lg_spans w) (dc_spans d) \<and>
     list_all2 (prefilling_rel jt (length (dc_spans d))) (lg_prefillings w) (dc_prefillings d) \<and>
     list_all2 (prefilled_rel jt (length (dc_spans d))) (lg_prefilleds w) (dc_prefilleds d) \<and>
     lines_rel jt (length (dc_spans d)) (lg_lines w) (lg_linePool w) lm (dc_lines d) \<and>
     writer_rel (lg_writer w) (dc_calls d) (dc_docs d)"

fun handle_rel :: "nat list \<Rightarrow> 'm dlogger \<Rightarrow> jhandle \<Rightarrow> jhandle \<Rightarrow> bool" where
  "handle_rel lm d (JSpanH s) (JSpanH t) = (s = t \<and> t < length (dc_spans d))"
| "handle_rel lm d (JPrefillingH s) (JPrefillingH t) = (s = t \<and> t < length (dc_prefillings d))"
| "handle_rel lm d (JPrefilledH s) (JPrefilledH t) = (s = t \<and> t < length (dc_prefilleds d))"
| "handle_rel lm d (JLineH i) (JLineH j) = (j < length (dc_lines d) \<and> i = lm ! j)"
| "handle_rel lm d _ _ = False"

subsection \<open>Spans\<close>

lemma spans_rel_length: "spans_rel jt reg cfg ss xs \<Longrightarrow> length ss = length xs"
  by (auto simp: spans_rel_def dest: list_all2_lengthD)

lemma spans_rel_nth: "spans_rel jt reg cfg ss xs \<Longrightarrow> n < length xs \<Longrightarrow> span_rel jt reg cfg (ss ! n) (xs ! n)"
  by (auto simp: spans_rel_def list_all2_conv_all_nth)

lemma spans_rel_request:
  assumes "spans_rel jt reg cfg ss xs" "n < length xs"
  shows "dn_request (xs ! n) < length xs" "js_request (ss ! n) = dn_request (xs ! n)"
    "is_request (xs ! n) = (dn_request (xs ! n) = n)" "is_request (xs ! dn_request (xs ! n))"
  using assms spans_rel_nth [OF assms] by (auto simp: spans_rel_def spans_ok_def span_rel_def)

text \<open>A change of one span that keeps what kind of span it is.\<close>

lemma spans_rel_update:
  assumes "spans_rel jt reg cfg ss xs" "s < length xs" "span_rel jt reg cfg a b" "dn_request b = dn_request (xs ! s)"
    "is_request b = is_request (xs ! s)"
  shows "spans_rel jt reg cfg (ss[s := a]) (xs[s := b])"
proof -
  have r: "dn_request (xs[s := b] ! k) = dn_request (xs ! k)" "is_request (xs[s := b] ! k) = is_request (xs ! k)" for k
    using assms(2,4,5) by (cases "k = s"; simp)+
  have "spans_ok (xs[s := b])"
    using assms(1) unfolding spans_ok_def spans_rel_def r length_list_update by blast
  moreover have "list_all2 (span_rel jt reg cfg) (ss[s := a]) (xs[s := b])"
    using assms(1,3) by (simp add: spans_rel_def list_all2_update_cong)
  ultimately show ?thesis by (simp add: spans_rel_def)
qed

lemma spans_rel_append:
  assumes "spans_rel jt reg cfg ss xs" "span_rel jt reg cfg a b"
    "\<not> is_request b \<and> dn_request b < length xs \<and> is_request (xs ! dn_request b) \<or> is_request b \<and> dn_request b = length xs"
  shows "spans_rel jt reg cfg (ss @ [a]) (xs @ [b])"
proof -
  have "spans_ok (xs @ [b])"
    unfolding spans_ok_def
  proof (intro allI impI)
    fix n assume "n < length (xs @ [b])"
    then consider "n < length xs" | "n = length xs" by fastforce
    then show "dn_request ((xs @ [b]) ! n) < length (xs @ [b]) \<and> is_request ((xs @ [b]) ! dn_request ((xs @ [b]) ! n)) \<and>
        is_request ((xs @ [b]) ! n) = (dn_request ((xs @ [b]) ! n) = n)"
    proof cases
      case 1
      with spans_rel_request [OF assms(1) 1] show ?thesis by (simp add: nth_append)
    next
      case 2
      with assms(3) show ?thesis by (auto simp: nth_append)
    qed
  qed
  then show ?thesis using assms(1,2) by (simp add: spans_rel_def list_all2_appendI)
qed

lemma span_rel_calls_ok: "span_rel jt reg cfg s x \<Longrightarrow> calls_ok jt (dn_calls x)"
proof -
  assume s: "span_rel jt reg cfg s x"
  have "consistent (dn_calls x)"
    unfolding consistent_def using s unfolding span_rel_def by metis
  with s show ?thesis by (simp add: calls_ok_def span_rel_def attribute_made_def)
qed

subsection \<open>States\<close>

lemma rel_mono:
  assumes "n \<le> m"
  shows "list_all2 (prefilling_rel jt n) bs gs \<Longrightarrow> list_all2 (prefilling_rel jt m) bs gs"
    "list_all2 (prefilled_rel jt n) ps fs \<Longrightarrow> list_all2 (prefilled_rel jt m) ps fs"
    "lines_rel jt n ls pool lm xs \<Longrightarrow> lines_rel jt m ls pool lm xs"
proof -
  show "list_all2 (prefilling_rel jt m) bs gs" if "list_all2 (prefilling_rel jt n) bs gs"
    using that by (rule list_all2_mono) (use assms in \<open>simp add: prefilling_rel_def\<close>)
  show "list_all2 (prefilled_rel jt m) ps fs" if "list_all2 (prefilled_rel jt n) ps fs"
    using that by (rule list_all2_mono) (use assms in \<open>simp add: prefilled_rel_def\<close>)
  show "lines_rel jt n ls pool lm xs \<Longrightarrow> lines_rel jt m ls pool lm xs"
    using assms by (auto simp: lines_rel_def intro: less_le_trans)
qed

lemma state_rel_spans:
  "state_rel jt reg cfg lm w d \<Longrightarrow> spans_rel jt reg cfg (lg_spans w) (dc_spans d)"
  by (simp add: state_rel_def)

lemma state_rel_span:
  "state_rel jt reg cfg lm w d \<Longrightarrow> s < length (dc_spans d) \<Longrightarrow> span_rel jt reg cfg (lg_spans w ! s) (dc_spans d ! s)"
  by (rule spans_rel_nth [OF state_rel_spans])

lemmas state_rel_request = spans_rel_request [OF state_rel_spans]

lemma state_rel_length: "state_rel jt reg cfg lm w d \<Longrightarrow> length (lg_spans w) = length (dc_spans d)"
  by (rule spans_rel_length [OF state_rel_spans])

lemma state_rel_config: "state_rel jt reg cfg lm w d \<Longrightarrow> lg_config w = cfg"
  by (simp add: state_rel_def)

text \<open>The number of requests, the count of calls of the pool and the like do not matter.\<close>

lemma state_rel_counts [simp]:
  "state_rel jt reg cfg lm (w\<lparr>lg_requestCount := c\<rparr>) d = state_rel jt reg cfg lm w d"
  "state_rel jt reg cfg lm (w\<lparr>lg_poolGets := k\<rparr>) d = state_rel jt reg cfg lm w d"
  by (simp_all add: state_rel_def)

lemma rel_upd_span:
  assumes "state_rel jt reg cfg lm w d" "s < length (dc_spans d)"
    "span_rel jt reg cfg (f (lg_spans w ! s)) (g (dc_spans d ! s))"
    "dn_request (g (dc_spans d ! s)) = dn_request (dc_spans d ! s)"
    "is_request (g (dc_spans d ! s)) = is_request (dc_spans d ! s)"
  shows "state_rel jt reg cfg lm (upd_jspan s f w) (upd_dspan s g d)"
  using assms(1) spans_rel_update [OF state_rel_spans [OF assms(1)] assms(2-5)]
  by (simp add: state_rel_def upd_jspan_def upd_dspan_def)

lemma rel_upd_req:
  assumes "state_rel jt reg cfg lm w d" "r < length (dc_spans d)"
    "\<And>x. jr_sourceInfo (f x) = jr_sourceInfo x \<and> jr_idNum (f x) = jr_idNum x"
  shows "state_rel jt reg cfg lm (upd_jreq r f w) (upd_dreq r f d)"
  unfolding upd_jreq_def upd_dreq_def
  using assms state_rel_span [OF assms(1,2)]
  by (intro rel_upd_span) (auto simp: span_rel_def is_request_def jspan_ok_def)

lemma rel_append_span:
  assumes "state_rel jt reg cfg lm w d" "span_rel jt reg cfg a b"
    "\<not> is_request b \<and> dn_request b < length (dc_spans d) \<and> is_request (dc_spans d ! dn_request b) \<or>
     is_request b \<and> dn_request b = length (dc_spans d)"
  shows "state_rel jt reg cfg lm (w\<lparr>lg_spans := lg_spans w @ [a]\<rparr>) (d\<lparr>dc_spans := dc_spans d @ [b]\<rparr>)"
proof -
  have le: "length (dc_spans d) \<le> length (dc_spans d @ [b])" by simp
  have "list_all2 (prefilling_rel jt (length (dc_spans d @ [b]))) (lg_prefillings w) (dc_prefillings d)"
    "list_all2 (prefilled_rel jt (length (dc_spans d @ [b]))) (lg_prefilleds w) (dc_prefilleds d)"
    "lines_rel jt (length (dc_spans d @ [b])) (lg_lines w) (lg_linePool w) lm (dc_lines d)"
    by (rule rel_mono [OF le], use assms(1) in \<open>simp add: state_rel_def\<close>)+
  then show ?thesis
    using assms(1) spans_rel_append [OF state_rel_spans [OF assms(1)] assms(2,3)] by (simp add: state_rel_def)
qed

text \<open>A write.\<close>

lemma rel_emit:
  assumes "state_rel jt reg cfg lm w d" "r < length (dc_spans d)" "is_record b v"
  shows "state_rel jt reg cfg lm (json_write env r b w) (doc_emit env r v d)"
proof -
  have calls: "iow_calls (lg_writer w) = dc_calls d" using assms(1) by (simp add: state_rel_def writer_rel_def)
  show ?thesis
  proof (cases "je_fails env (dc_calls d)")
    case True
    have "state_rel jt reg cfg lm (w\<lparr>lg_writer := (lg_writer w)\<lparr>iow_calls := dc_calls d + 1\<rparr>\<rparr>) (d\<lparr>dc_calls := dc_calls d + 1\<rparr>)"
      using assms(1) by (simp add: state_rel_def writer_rel_def)
    from rel_upd_req [OF this, of r "\<lambda>x. if jr_reporter x then x\<lparr>jr_reports := jr_reports x + 1\<rparr> else x"] assms(2) True
    show ?thesis by (simp add: json_write_def iow_Write_def doc_emit_def calls Let_def)
  next
    case False
    with assms show ?thesis
      by (simp add: json_write_def iow_Write_def doc_emit_def Let_def state_rel_def writer_rel_def list_all2_appendI)
  qed
qed

lemma doc_emit_simps [simp]:
  "length (dc_spans (doc_emit env r v d)) = length (dc_spans d)"
  "dc_prefillings (doc_emit env r v d) = dc_prefillings d" "dc_prefilleds (doc_emit env r v d) = dc_prefilleds d"
  "dc_lines (doc_emit env r v d) = dc_lines d"
  by (simp_all add: doc_emit_def upd_dreq_def upd_dspan_def Let_def)

lemma upd_dspan_simps [simp]:
  "length (dc_spans (upd_dspan s g d)) = length (dc_spans d)"
  "dc_prefillings (upd_dspan s g d) = dc_prefillings d" "dc_prefilleds (upd_dspan s g d) = dc_prefilleds d"
  "dc_lines (upd_dspan s g d) = dc_lines d" "dc_calls (upd_dspan s g d) = dc_calls d"
  by (simp_all add: upd_dspan_def)

lemma upd_dreq_simps [simp]:
  "length (dc_spans (upd_dreq s f d)) = length (dc_spans d)"
  "dc_prefillings (upd_dreq s f d) = dc_prefillings d" "dc_prefilleds (upd_dreq s f d) = dc_prefilleds d"
  "dc_lines (upd_dreq s f d) = dc_lines d" "dc_calls (upd_dreq s f d) = dc_calls d"
  by (simp_all add: upd_dreq_def)

subsection \<open>Requests and spans\<close>

lemma tag_17: "\<not> bit (17 :: int) TraceNumberTagOption"
  by (simp add: TraceNumberTagOption_def)

text \<open>A span that starts.\<close>

lemma span_rel_start:
  assumes "bundle_ok bundle" "jsonSafe name" "plain code" "\<forall>q. req = Some q \<longrightarrow> source_ok (jr_sourceInfo q) \<and> jr_idNum q = 0"
  shows "span_rel jt reg cfg
    ((setSpanIDPrefill cfg 0 \<lparr>js_endTime = e, js_bundle = bundle, js_name = name, js_request = r, js_startTime = ts,
        js_serializationCount = 0, js_attributes = AttributeBuilder_Init, js_sequenceCode = code, js_spanIDPrebuilt = [],
        js_req = req\<rparr>)\<lparr>js_serializationCount := v\<rparr>)
    \<lparr>dn_end = e, dn_bundle = bundle, dn_name = name, dn_request = r, dn_start = ts, dn_ver = v, dn_calls = [], dn_code = code, dn_req = req\<rparr>"
proof -
  let ?s = "\<lparr>js_endTime = e, js_bundle = bundle, js_name = name, js_request = r, js_startTime = ts,
        js_serializationCount = 0, js_attributes = AttributeBuilder_Init, js_sequenceCode = code, js_spanIDPrebuilt = [],
        js_req = req\<rparr>"
  have ok: "jspan_ok ?s" using assms by (simp add: jspan_ok_def)
  from prebuilt_members [OF ok, of cfg 0] assms(4) ok attributes_hold_Init [of jt] show ?thesis
    by (simp add: span_rel_def setSpanIDPrefill_def jspan_ok_def)
qed

lemma setSpanIDPrefill_simps [simp]:
  "js_bundle (setSpanIDPrefill cfg i s) = js_bundle s" "js_name (setSpanIDPrefill cfg i s) = js_name s"
  "js_startTime (setSpanIDPrefill cfg i s) = js_startTime s" "js_serializationCount (setSpanIDPrefill cfg i s) = js_serializationCount s"
  "js_sequenceCode (setSpanIDPrefill cfg i s) = js_sequenceCode s"
  "jspan_ok (setSpanIDPrefill cfg i s) = jspan_ok s"
  by (simp_all add: setSpanIDPrefill_def jspan_ok_def)

lemma rel_Request:
  assumes "state_rel jt reg cfg lm w d" "config_ok cfg" "texts_ok jt" "jt = je_texts env" "create_ok (NRequest ts b n si)"
    "JSON_Request env ts b n si w = (s, w')" "doc_Request env cfg ts b n si d = (s', d')"
  shows "s = s' \<and> s' < length (dc_spans d') \<and> length (dc_spans d) \<le> length (dc_spans d') \<and> state_rel jt reg cfg lm w' d'"
proof -
  let ?r = "length (dc_spans d)"
  let ?req = "\<lparr>jr_idNum = 0, jr_errorCount = 0, jr_alertCount = 0, jr_sourceInfo = si, jr_tracking = [],
            jr_reporter = False, jr_reports = 0\<rparr>"
  let ?s = "setSpanIDPrefill cfg 0 \<lparr>js_endTime = word_of_int ts, js_bundle = b, js_name = n, js_request = ?r, js_startTime = ts,
        js_serializationCount = 0, js_attributes = AttributeBuilder_Init, js_sequenceCode = [], js_spanIDPrebuilt = [],
        js_req = Some ?req\<rparr>"
  let ?x = "\<lambda>v. \<lparr>dn_end = word_of_int ts, dn_bundle = b, dn_name = n, dn_request = ?r, dn_start = ts, dn_ver = v, dn_calls = [],
    dn_code = [], dn_req = Some ?req\<rparr>"
  have c: "bundle_ok b" "jsonSafe n" "source_ok si" using assms(5) by simp_all
  have len: "length (lg_spans w) = ?r" by (rule state_rel_length [OF assms(1)])
  have cfg: "lg_config w = cfg" by (rule state_rel_config [OF assms(1)])
  have tag: "lc_tagOption cfg = 17" using assms(2) by (simp add: config_ok_def)
  have rel: "span_rel jt reg cfg (?s\<lparr>js_serializationCount := v\<rparr>) (?x v)" for v
    by (rule span_rel_start) (use c in simp_all)
  have st: "state_rel jt reg cfg lm (w\<lparr>lg_spans := lg_spans w @ [?s\<lparr>js_serializationCount := v\<rparr>]\<rparr>) (d\<lparr>dc_spans := dc_spans d @ [?x v]\<rparr>)" for v
    by (rule rel_append_span [OF assms(1) rel]) (simp add: is_request_def)
  show ?thesis
  proof (cases "lc_spanStarts cfg")
    case True
    have "jspan_ok ?s" using c by (simp add: jspan_ok_def)
    from request_start_record [OF this c(3) assms(3), of "bd_JB (newBuilder ?r w)"]
    have "is_record (jb_B (AppendBytes record_end (addRequestStartData jt si ?s
        (AppendBytes (q ''{`type`:`request`,`span.ver`:0'') (bd_JB (newBuilder ?r w)))))) (request_start_doc jt si b n ts)"
      by simp
    from rel_emit [OF st [of 1] _ this, where r = ?r and env = env] True assms(4,6,7) show ?thesis
      by (auto simp: JSON_Request_def doc_Request_def Let_def cfg tag tag_17 len upd_jspan_def newBuilder_def nth_append list_update_append)
  next
    case False
    have "?s\<lparr>js_serializationCount := 0\<rparr> = ?s" by (simp add: setSpanIDPrefill_def)
    with st [of 0] False assms(6,7) show ?thesis
      by (auto simp: JSON_Request_def doc_Request_def Let_def cfg tag tag_17 len)
  qed
qed

lemma rel_Span:
  assumes "state_rel jt reg cfg lm w d" "config_ok cfg" "texts_ok jt" "jt = je_texts env" "create_ok (NSpan ts b n code)"
    "p < length (dc_spans d)" "JSON_Span env ts b n code p w = (s, w')" "doc_Span env cfg ts b n code p d = (s', d')"
  shows "s = s' \<and> s' < length (dc_spans d') \<and> length (dc_spans d) \<le> length (dc_spans d') \<and> state_rel jt reg cfg lm w' d'"
proof -
  let ?r = "dn_request (dc_spans d ! p)" and ?n = "length (dc_spans d)"
  let ?s = "setSpanIDPrefill cfg 0 \<lparr>js_endTime = word_of_int ts, js_bundle = b, js_name = n, js_request = ?r, js_startTime = ts,
        js_serializationCount = 0, js_attributes = AttributeBuilder_Init, js_sequenceCode = code, js_spanIDPrebuilt = [],
        js_req = None\<rparr>"
  let ?x = "\<lambda>v. \<lparr>dn_end = word_of_int ts, dn_bundle = b, dn_name = n, dn_request = ?r, dn_start = ts, dn_ver = v, dn_calls = [],
    dn_code = code, dn_req = None\<rparr>"
  have c: "bundle_ok b" "jsonSafe n" "plain code" using assms(5) by simp_all
  have len: "length (lg_spans w) = ?n" by (rule state_rel_length [OF assms(1)])
  have cfg: "lg_config w = cfg" by (rule state_rel_config [OF assms(1)])
  note r = state_rel_request [OF assms(1,6)]
  obtain u where u: "dn_req (dc_spans d ! ?r) = Some u" using r(4) by (auto simp: is_request_def)
  have "js_req (lg_spans w ! ?r) = Some u" "jr_idNum u = 0"
    using state_rel_span [OF assms(1) r(1)] u by (auto simp: span_rel_def)
  then have idNum: "jr_idNum (request_of p w) = 0" by (simp add: request_of_def r(2))
  have rel: "span_rel jt reg cfg (?s\<lparr>js_serializationCount := v\<rparr>) (?x v)" for v
    by (rule span_rel_start) (use c in simp_all)
  have st: "state_rel jt reg cfg lm (w\<lparr>lg_spans := lg_spans w @ [?s\<lparr>js_serializationCount := v\<rparr>]\<rparr>) (d\<lparr>dc_spans := dc_spans d @ [?x v]\<rparr>)" for v
    by (rule rel_append_span [OF assms(1) rel]) (use r in \<open>simp add: is_request_def\<close>)
  show ?thesis
  proof (cases "lc_spanStarts cfg")
    case True
    have "jspan_ok ?s" using c by (simp add: jspan_ok_def)
    from span_start_record [OF this assms(3), of "newBuilder p w"]
    have "is_record (jb_B (bd_JB (on_JB (AppendBytes record_end) (spanStartData jt ?s
      (on_JB (AddSafeString (Wrapped_String SpanIDField (initialize (bu_Trace b))))
        (on_JB (AppendBytes (q ''{`type`:`span`,`span.ver`:0,`span.id`:'')) (newBuilder p w))))))) (span_start_doc jt b n ts)"
      by simp
    from rel_emit [OF st [of 1] _ this, where r = ?r and env = env] r(1) True assms(4,7,8) show ?thesis
      by (auto simp: JSON_Span_def doc_Span_def Let_def cfg len r(2) idNum upd_jspan_def newBuilder_def nth_append list_update_append)
  next
    case False
    have "?s\<lparr>js_serializationCount := 0\<rparr> = ?s" by (simp add: setSpanIDPrefill_def)
    with st [of 0] False assms(7,8) show ?thesis
      by (auto simp: JSON_Span_def doc_Span_def Let_def cfg len r(2) idNum)
  qed
qed

lemma upd_span_same [simp]:
  "dn_req (dc_spans (upd_dspan s (\<lambda>x. x\<lparr>dn_end := e\<rparr>) d) ! n) = dn_req (dc_spans d ! n)"
  "dn_request (dc_spans (upd_dspan s (\<lambda>x. x\<lparr>dn_end := e\<rparr>) d) ! n) = dn_request (dc_spans d ! n)"
  by (cases "n = s \<and> s < length (dc_spans d)"; auto simp: upd_dspan_def nth_list_update_neq list_update_beyond)+

lemma rel_end_time:
  assumes "state_rel jt reg cfg lm w d" "s < length (dc_spans d)"
  shows "state_rel jt reg cfg lm (upd_jspan s (\<lambda>x. x\<lparr>js_endTime := e\<rparr>) w) (upd_dspan s (\<lambda>x. x\<lparr>dn_end := e\<rparr>) d)"
  using assms(2) state_rel_span [OF assms]
  by (intro rel_upd_span [OF assms(1)]) (auto simp: span_rel_def is_request_def jspan_ok_def)

text \<open>A span writes its record.\<close>

lemma rel_flush:
  assumes "state_rel jt reg cfg lm w d" "config_ok cfg" "texts_ok jt" "jt = je_texts env" "\<forall>n. order_ok (je_order env n)"
    "s < length (dc_spans d)"
  shows "state_rel jt reg cfg lm (flushAttributes env s w)
    (doc_emit env (dn_request (dc_spans d ! s)) (doc_of_span env cfg (dc_spans d ! s) (dc_calls d))
      (upd_dspan s (\<lambda>x. x\<lparr>dn_ver := dn_ver x + 1\<rparr>) d))"
proof -
  let ?span = "lg_spans w ! s" and ?x = "dc_spans d ! s" and ?b = "newBuilder s w"
  let ?r = "dn_request ?x"
  note cfg = state_rel_config [OF assms(1)]
  note r = state_rel_request [OF assms(1,6)]
  have sp: "span_rel jt reg cfg ?span ?x" by (rule state_rel_span [OF assms(1,6)])
  have calls: "iow_calls (lg_writer w) = dc_calls d" using assms(1) by (simp add: state_rel_def writer_rel_def)
  obtain req where req: "dn_req (dc_spans d ! ?r) = Some req" using r(4) by (auto simp: is_request_def)
  have "js_req (lg_spans w ! ?r) = Some req" and id: "jr_idNum req = 0" and src: "source_ok (jr_sourceInfo req)"
    using state_rel_span [OF assms(1) r(1)] req by (auto simp: span_rel_def)
  then have rq: "request_of s w = req" by (simp add: request_of_def r(2))
  have isr: "(s = js_request ?span) = (s = ?r)" using r(2) by simp
  have source: "(if s = ?r then Some (jr_sourceInfo req) else None) = map_option jr_sourceInfo (dn_req ?x)"
    using r(3) req by (auto simp: is_request_def)
  let ?order = "je_order env (dc_calls d)"
  obtain b' a where app: "Attributes_Append ?order False True (flush_rq jt cfg req (s = ?r) ?span ?b) (js_attributes ?span) = (b', a)"
    by fastforce
  have sok: "jspan_ok ?span" "attributes_hold jt (dn_calls ?x) (js_attributes ?span)" using sp by (simp_all add: span_rel_def)
  note rec = flush_record [OF sok(1) assms(3) newBuilder_flags(1,3) src span_rel_calls_ok [OF sp] sok(2) assms(5) [rule_format] app]
  have doc: "is_record (jb_B (AppendBytes record_end b')) (doc_of_span env cfg ?x (dc_calls d))"
    using rec(1) sp id source assms(4) by (simp add: doc_of_span_def span_rel_def)
  have "state_rel jt reg cfg lm (upd_jspan s (\<lambda>x. x\<lparr>js_serializationCount := js_serializationCount x + 1, js_attributes := a\<rparr>) w)
      (upd_dspan s (\<lambda>x. x\<lparr>dn_ver := dn_ver x + 1\<rparr>) d)"
    using sp rec(2) assms(6) by (intro rel_upd_span [OF assms(1)]) (auto simp: span_rel_def is_request_def jspan_ok_def)
  from rel_emit [OF this _ doc, of ?r env] r(1) show ?thesis
    using assms(2,4) app by (simp add: flushAttributes_eq cfg Let_def rq isr r(2) calls)
qed

lemma rel_Done:
  assumes "state_rel jt reg cfg lm w d" "config_ok cfg" "texts_ok jt" "jt = je_texts env" "\<forall>n. order_ok (je_order env n)"
    "s < length (dc_spans d)"
  shows "state_rel jt reg cfg lm (JSON_Done env t s w) (doc_Done env cfg t s d)"
  using rel_flush [OF rel_end_time [OF assms(1,6)] assms(2-5), of s "word_of_int t"] assms(6)
  by (simp add: JSON_Done_def doc_Done_def Let_def)

subsection \<open>Metadata\<close>

lemma rel_define:
  assumes "state_rel jt reg cfg lm w d" "attribute_made k" "s < length (dc_spans d)"
  shows "state_rel jt reg cfg lm (define_attribute env k s w) (doc_define env cfg k s d)"
proof -
  let ?r = "dn_request (dc_spans d ! s)"
  note cfg = state_rel_config [OF assms(1)]
  note r = state_rel_request [OF assms(1,3)]
  have sp: "span_rel jt reg cfg (lg_spans w ! ?r) (dc_spans d ! ?r)" by (rule state_rel_span [OF assms(1) r(1)])
  have tr: "lg_tracking w = dc_tracking d" using assms(1) by (simp add: state_rel_def)
  have none: "is_record (iow_definition_text k None) (definition_doc k None)"
    by (rule definition_record [OF assms(2)]) simp
  have track: "state_rel jt reg cfg lm (w\<lparr>lg_tracking := ts\<rparr>) (d\<lparr>dc_tracking := ts\<rparr>)" for ts
    using assms(1) by (simp add: state_rel_def)
  show ?thesis
  proof (cases "lc_attributeOption cfg")
    case AttributesDefinedAlways
    with rel_emit [OF assms(1) r(1) none] show ?thesis
      by (simp add: define_attribute_def doc_define_def cfg r(2) DefineAttribute_def)
  next
    case AttributesDefinedOnce
    with rel_emit [OF track _ none] r(1) assms(1) show ?thesis
      by (simp add: define_attribute_def doc_define_def cfg r(2) DefineAttribute_def tr)
  next
    case AttributesDefinedEachRequest
    let ?t = "bu_Trace (dn_bundle (dc_spans d ! ?r))"
    have b: "js_bundle (lg_spans w ! ?r) = dn_bundle (dc_spans d ! ?r)" "js_req (lg_spans w ! ?r) = dn_req (dc_spans d ! ?r)"
      "trace_ok ?t" using sp by (auto simp: span_rel_def jspan_ok_def bundle_ok_def)
    have rec: "is_record (iow_definition_text k (Some ?t)) (definition_doc k (Some ?t))"
      by (rule definition_record [OF assms(2)]) (simp add: b(3))
    have "state_rel jt reg cfg lm (upd_jreq ?r (\<lambda>x. x\<lparr>jr_tracking := jr_tracking x @ [at_key k]\<rparr>) w)
        (upd_dreq ?r (\<lambda>x. x\<lparr>jr_tracking := jr_tracking x @ [at_key k]\<rparr>) d)"
      by (rule rel_upd_req [OF assms(1) r(1)]) simp
    from rel_emit [OF this _ rec] r(1) assms(1) AttributesDefinedEachRequest show ?thesis
      by (simp add: define_attribute_def doc_define_def cfg r(2) DefineAttribute_def request_of_def b Let_def)
  qed
qed

lemma doc_define_simps [simp]:
  "length (dc_spans (doc_define env cfg k s d)) = length (dc_spans d)"
  "dc_prefillings (doc_define env cfg k s d) = dc_prefillings d" "dc_prefilleds (doc_define env cfg k s d) = dc_prefilleds d"
  "dc_lines (doc_define env cfg k s d) = dc_lines d"
  by (simp_all add: doc_define_def Let_def split: AttributeOption.split)

lemma JSpan_Metadata_attributes:
  "JSpan_Metadata env k v s w = span_attributes (Attributes_call (je_texts env) (k, v)) s (define_attribute env k s w)"
  by (cases v) (simp_all add: JSpan_MetadataAny_def JSpan_MetadataBool_def JSpan_MetadataEnum_def JSpan_MetadataFloat64_def
      JSpan_MetadataInt64_def JSpan_MetadataLink_def JSpan_MetadataString_def JSpan_MetadataTime_def span_attributes_def)

lemma rel_Metadata:
  assumes "state_rel jt reg cfg lm w d" "texts_ok jt" "jt = je_texts env" "action_ok jt reg (AMetadata k v)" "s < length (dc_spans d)"
  shows "state_rel jt reg cfg lm (JSpan_Metadata env k v s w) (doc_Metadata env cfg k v s d)"
proof -
  have k: "attribute_made k" "reg (at_key k) = k" "metavalue_ok jt v" using assms(4) by simp_all
  note rel = rel_define [OF assms(1) k(1) assms(5), of env]
  let ?x = "dc_spans (doc_define env cfg k s d) ! s" and ?s = "lg_spans (define_attribute env k s w) ! s"
  have sp: "span_rel jt reg cfg ?s ?x" using state_rel_span [OF rel] assms(5) by simp
  have all: "\<forall>c \<in> set (dn_calls ?x @ [(k, v)]). attribute_made (fst c) \<and> reg (at_key (fst c)) = fst c \<and> metavalue_ok jt (snd c)"
    using sp k by (auto simp: span_rel_def)
  then have "consistent (dn_calls ?x @ [(k, v)])" unfolding consistent_def by metis
  then have "attributes_hold jt (dn_calls ?x @ [(k, v)]) (Attributes_call jt (k, v) (js_attributes ?s))"
    using sp assms(2) by (intro attributes_hold_call) (simp_all add: span_rel_def texts_ok_def)
  then have "span_rel jt reg cfg (?s\<lparr>js_attributes := Attributes_call jt (k, v) (js_attributes ?s)\<rparr>) (?x\<lparr>dn_calls := dn_calls ?x @ [(k, v)]\<rparr>)"
    using sp all by (auto simp: span_rel_def jspan_ok_def)
  then show ?thesis
    unfolding JSpan_Metadata_attributes doc_Metadata_def span_attributes_def
    using assms(3,5) by (intro rel_upd_span [OF rel]) (simp_all add: is_request_def)
qed

subsection \<open>Lines\<close>

lemma lines_relI:
  assumes "length lm = length xs" "distinct pool" "\<And>i. i \<in> set pool \<Longrightarrow> i < length ls"
    "\<And>j. j < length xs \<Longrightarrow> dl_span (xs ! j) < n"
    "\<And>j. j < length xs \<Longrightarrow> dl_open (xs ! j) \<Longrightarrow> lm ! j < length ls \<and> lm ! j \<notin> set pool \<and> line_rel jt (ls ! (lm ! j)) (xs ! j)"
    "\<And>i j. i < length xs \<Longrightarrow> j < length xs \<Longrightarrow> i \<noteq> j \<Longrightarrow> dl_open (xs ! i) \<Longrightarrow> dl_open (xs ! j) \<Longrightarrow> lm ! i \<noteq> lm ! j"
  shows "lines_rel jt n ls pool lm xs"
  using assms unfolding lines_rel_def by blast

lemma lines_relD:
  assumes "lines_rel jt n ls pool lm xs"
  shows "length lm = length xs" "distinct pool" "\<And>i. i \<in> set pool \<Longrightarrow> i < length ls"
    "\<And>j. j < length xs \<Longrightarrow> dl_span (xs ! j) < n"
    "\<And>j. j < length xs \<Longrightarrow> dl_open (xs ! j) \<Longrightarrow> lm ! j < length ls \<and> lm ! j \<notin> set pool \<and> line_rel jt (ls ! (lm ! j)) (xs ! j)"
    "\<And>i j. i < length xs \<Longrightarrow> j < length xs \<Longrightarrow> i \<noteq> j \<Longrightarrow> dl_open (xs ! i) \<Longrightarrow> dl_open (xs ! j) \<Longrightarrow> lm ! i \<noteq> lm ! j"
  using assms unfolding lines_rel_def by blast+

lemma lines_rel_new:
  assumes "lines_rel jt n ls pool lm xs" "line_rel jt l x" "dl_span x < n"
  shows "lines_rel jt n (ls @ [l]) pool (lm @ [length ls]) (xs @ [x])"
proof (rule lines_relI)
  note D = lines_relD [OF assms(1)]
  show "length (lm @ [length ls]) = length (xs @ [x])" "distinct pool" using D(1,2) by simp_all
  show "i < length (ls @ [l])" if "i \<in> set pool" for i using D(3) [OF that] by simp
  fix j assume j: "j < length (xs @ [x])"
  show "dl_span ((xs @ [x]) ! j) < n"
    using j D(4) assms(3) by (cases "j < length xs") (auto simp: nth_append less_Suc_eq)
  show "(lm @ [length ls]) ! j < length (ls @ [l]) \<and> (lm @ [length ls]) ! j \<notin> set pool \<and>
      line_rel jt ((ls @ [l]) ! ((lm @ [length ls]) ! j)) ((xs @ [x]) ! j)" if "dl_open ((xs @ [x]) ! j)"
    using that j D(1) D(3) [of "length ls"] D(5) [of j] assms(2)
    by (cases "j < length xs") (auto simp: nth_append less_Suc_eq)
  fix i assume i: "i < length (xs @ [x])"
  show "(lm @ [length ls]) ! i \<noteq> (lm @ [length ls]) ! j"
    if "i \<noteq> j" "dl_open ((xs @ [x]) ! i)" "dl_open ((xs @ [x]) ! j)"
    using i j that D(1) D(5) [of i] D(5) [of j] D(6) [of i j]
    by (cases "i < length xs"; cases "j < length xs") (auto simp: nth_append less_Suc_eq)
qed

lemma lines_rel_reuse:
  assumes "lines_rel jt n ls pool lm xs" "line_rel jt l x" "dl_span x < n" "i \<in> set pool"
  shows "lines_rel jt n (ls[i := l]) (remove1 i pool) (lm @ [i]) (xs @ [x])"
proof (rule lines_relI)
  note D = lines_relD [OF assms(1)]
  have pool: "set (remove1 i pool) = set pool - {i}" using D(2) by simp
  show "length (lm @ [i]) = length (xs @ [x])" "distinct (remove1 i pool)" using D(1,2) by simp_all
  show "k < length (ls[i := l])" if "k \<in> set (remove1 i pool)" for k using D(3) that by (simp add: pool)
  fix j assume j: "j < length (xs @ [x])"
  show "dl_span ((xs @ [x]) ! j) < n"
    using j D(4) assms(3) by (cases "j < length xs") (auto simp: nth_append less_Suc_eq)
  show "(lm @ [i]) ! j < length (ls[i := l]) \<and> (lm @ [i]) ! j \<notin> set (remove1 i pool) \<and>
      line_rel jt (ls[i := l] ! ((lm @ [i]) ! j)) ((xs @ [x]) ! j)" if "dl_open ((xs @ [x]) ! j)"
  proof (cases "j < length xs")
    case True
    with that D(5) [of j] assms(4) have "lm ! j < length ls \<and> lm ! j \<notin> set pool \<and> line_rel jt (ls ! (lm ! j)) (xs ! j)" "lm ! j \<noteq> i"
      by (auto simp: nth_append)
    with True D(1) show ?thesis by (simp add: nth_append pool)
  next
    case False
    with that j D(1) D(3) [OF assms(4)] assms(2) show ?thesis by (auto simp: nth_append pool less_Suc_eq)
  qed
  fix k assume k: "k < length (xs @ [x])"
  show "(lm @ [i]) ! k \<noteq> (lm @ [i]) ! j" if "k \<noteq> j" "dl_open ((xs @ [x]) ! k)" "dl_open ((xs @ [x]) ! j)"
    using k j that D(1) D(5) [of k] D(5) [of j] D(6) [of k j] assms(4)
    by (cases "k < length xs"; cases "j < length xs") (auto simp: nth_append less_Suc_eq)
qed

lemma lines_rel_update:
  assumes "lines_rel jt n ls pool lm xs" "j < length xs" "dl_open (xs ! j)" "line_rel jt l x" "dl_span x < n"
  shows "lines_rel jt n (ls[lm ! j := l]) pool lm (xs[j := x])"
proof (rule lines_relI)
  note D = lines_relD [OF assms(1)]
  have open': "dl_open (xs ! k)" if "dl_open (xs[j := x] ! k)" for k
    using that assms(2,3) by (cases "k = j") auto
  show "length lm = length (xs[j := x])" "distinct pool" using D(1,2) by simp_all
  show "i < length (ls[lm ! j := l])" if "i \<in> set pool" for i using D(3) [OF that] by simp
  fix k assume k: "k < length (xs[j := x])"
  show "dl_span (xs[j := x] ! k) < n" using k D(4) assms(5) by (cases "k = j") auto
  show "lm ! k < length (ls[lm ! j := l]) \<and> lm ! k \<notin> set pool \<and> line_rel jt (ls[lm ! j := l] ! (lm ! k)) (xs[j := x] ! k)"
    if "dl_open (xs[j := x] ! k)"
    using k D(5) [of k] D(6) [of k j] assms(2-4) open' [OF that] by (cases "k = j") auto
  fix i assume "i < length (xs[j := x])" "i \<noteq> k" "dl_open (xs[j := x] ! i)" "dl_open (xs[j := x] ! k)"
  with k D(6) [of i k] open' show "lm ! i \<noteq> lm ! k" by auto
qed

lemma lines_rel_end:
  assumes "lines_rel jt n ls pool lm xs" "j < length xs" "dl_open (xs ! j)"
  shows "lines_rel jt n (ls[lm ! j := l]) (if keep then pool @ [lm ! j] else pool) lm (xs[j := (xs ! j)\<lparr>dl_open := False\<rparr>])"
proof (rule lines_relI)
  note D = lines_relD [OF assms(1)]
  let ?xs = "xs[j := (xs ! j)\<lparr>dl_open := False\<rparr>]" and ?pool = "if keep then pool @ [lm ! j] else pool"
  have open': "k \<noteq> j \<and> dl_open (xs ! k)" if "k < length xs" "dl_open (?xs ! k)" for k
    using that assms(2) by (cases "k = j") auto
  show "length lm = length ?xs" "distinct ?pool" using D(1,2) D(5) [OF assms(2,3)] by simp_all
  show "i < length (ls[lm ! j := l])" if "i \<in> set ?pool" for i
    using that D(3) [of i] D(5) [OF assms(2,3)] by (auto split: if_splits)
  fix k assume k: "k < length ?xs"
  show "dl_span (?xs ! k) < n" using k D(4) by (cases "k = j") auto
  show "lm ! k < length (ls[lm ! j := l]) \<and> lm ! k \<notin> set ?pool \<and> line_rel jt (ls[lm ! j := l] ! (lm ! k)) (?xs ! k)"
    if "dl_open (?xs ! k)"
    using k open' [OF _ that] D(5) [of k] D(6) [of k j] assms(2,3) by auto
  fix i assume "i < length ?xs" "i \<noteq> k" "dl_open (?xs ! i)" "dl_open (?xs ! k)"
  with k D(6) [of i k] open' show "lm ! i \<noteq> lm ! k" by auto
qed

lemma line_start_span [simp]: "bd_span (line_start jt cfg level t frames prebuilt data b) = bd_span b"
  by (simp add: line_start_def Let_def)

lemma builder_reset_flags [simp]:
  "jb_B (bd_JB (builder_reset s b)) = []" "\<not> bd_attributesStarted (builder_reset s b)" "bd_span (builder_reset s b) = s"
  by (simp_all add: builder_reset_def)

text \<open>Whatever the pool gives, the line that starts is the same.\<close>

lemma line_rel_start:
  assumes "state_rel jt reg cfg lm w d" "config_ok cfg" "texts_ok jt" "list_all (\<lambda>f. jsonSafe (fst f)) frames"
    "prefilled_rel jt (length (dc_spans d)) pre f" "b = newBuilder (jp_span pre) w \<or> b = builder_reset (jp_span pre) b0"
  shows "line_rel jt
    \<lparr>jl_builder = line_start jt cfg level t frames (js_spanIDPrebuilt (lg_spans w ! jp_span pre)) (jp_data pre) b,
      jl_level = level, jl_timestamp = t, jl_prefillMsg = jp_preEncodedMsg pre\<rparr>
    \<lparr>dl_span = df_span f,
      dl_fields = line_fields jt level t frames @ id_fields cfg 0 (dn_bundle (dc_spans d ! df_span f)) (dn_code (dc_spans d ! df_span f)),
      dl_data = df_data f, dl_msg = df_msg f, dl_open = True\<rparr>"
proof -
  have pre: "jp_span pre = df_span f" "df_span f < length (dc_spans d)" "members (jp_data pre) (map (build_member jt) (df_data f))"
    "body_reads (jp_preEncodedMsg pre) (df_msg f)" using assms(5) by (simp_all add: prefilled_rel_def)
  have sp: "members (js_spanIDPrebuilt (lg_spans w ! jp_span pre)) (id_fields cfg 0 (dn_bundle (dc_spans d ! df_span f)) (dn_code (dc_spans d ! df_span f)))"
    using state_rel_span [OF assms(1) pre(2)] by (auto simp: span_rel_def pre(1))
  have b: "jb_B (bd_JB b) = []" "\<not> bd_attributesStarted b" "bd_span b = df_span f" using assms(6) pre(1) by auto
  have "lc_attributesObject cfg" using assms(2) by (simp add: config_ok_def)
  with line_start_holds [OF b(1,2) assms(3,4) sp pre(3), of cfg level t] b(3) pre(4) show ?thesis
    by (simp add: line_rel_def)
qed

lemma rel_new_line:
  assumes "state_rel jt reg cfg lm w d" "linePool_Get env w = (g, w')"
    "line_rel jt line x" "dl_span x < length (dc_spans d)"
  shows "case g of
      Some i \<Rightarrow> state_rel jt reg cfg (lm @ [i]) (w'\<lparr>lg_lines := (lg_lines w')[i := line]\<rparr>) (d\<lparr>dc_lines := dc_lines d @ [x]\<rparr>)
    | None \<Rightarrow> state_rel jt reg cfg (lm @ [length (lg_lines w')]) (w'\<lparr>lg_lines := lg_lines w' @ [line]\<rparr>) (d\<lparr>dc_lines := dc_lines d @ [x]\<rparr>)"
proof -
  have lines: "lines_rel jt (length (dc_spans d)) (lg_lines w) (lg_linePool w) lm (dc_lines d)"
    using assms(1) by (simp add: state_rel_def)
  note Get = assms(2) [unfolded linePool_Get_def Let_def]
  show ?thesis
  proof (cases g)
    case None
    with Get have "w' = w\<lparr>lg_poolGets := lg_poolGets w + 1\<rparr>" by (auto split: option.splits if_splits)
    with None assms(1) lines_rel_new [OF lines assms(3,4)] show ?thesis by (simp add: state_rel_def)
  next
    case (Some i)
    with Get have i: "i \<in> set (lg_linePool w)"
      "w' = w\<lparr>lg_poolGets := lg_poolGets w + 1, lg_linePool := remove1 i (lg_linePool w)\<rparr>" by (auto split: option.splits if_splits)
    with Some assms(1) lines_rel_reuse [OF lines assms(3,4) i(1)] show ?thesis by (simp add: state_rel_def)
  qed
qed

lemma upd_dspan_keeps: "(\<And>x. F (g x) = F x) \<Longrightarrow> F (dc_spans (upd_dspan s g d) ! n) = F (dc_spans d ! n)"
  by (cases "n = s \<and> s < length (dc_spans d)"; auto simp: upd_dspan_def nth_list_update_neq list_update_beyond)

lemma upd_req_keeps [simp]:
  "dn_bundle (dc_spans (upd_dreq r f d) ! n) = dn_bundle (dc_spans d ! n)"
  "dn_code (dc_spans (upd_dreq r f d) ! n) = dn_code (dc_spans d ! n)"
  "dn_bundle (dc_spans (upd_dspan s (\<lambda>x. x\<lparr>dn_end := e\<rparr>) d) ! n) = dn_bundle (dc_spans d ! n)"
  "dn_code (dc_spans (upd_dspan s (\<lambda>x. x\<lparr>dn_end := e\<rparr>) d) ! n) = dn_code (dc_spans d ! n)"
  unfolding upd_dreq_def by (rule upd_dspan_keeps, simp)+

lemma linePool_Get_same:
  assumes "linePool_Get env w = (g, w')"
  shows "lg_spans w' = lg_spans w" "lg_config w' = lg_config w" "lg_lines w' = lg_lines w" "newBuilder s w' = newBuilder s w"
  using assms by (auto simp: linePool_Get_def newBuilder_def Let_def split: option.splits if_splits)

lemma upd_jspan_same [simp]:
  "lg_prefilleds (upd_jspan s f w) = lg_prefilleds w" "lg_config (upd_jspan s f w) = lg_config w"
  "lg_prefilleds (upd_jreq s h w) = lg_prefilleds w" "lg_config (upd_jreq s h w) = lg_config w"
  by (simp_all add: upd_jspan_def upd_jreq_def)

lemma rel_Line:
  assumes "state_rel jt reg cfg lm w d" "config_ok cfg" "texts_ok jt" "jt = je_texts env" "create_ok (NLine level t frames)"
    "p < length (dc_prefilleds d)" "JSON_Line env level t frames p w = (l, w')" "doc_Line env cfg level t frames p d = (l', d')"
  shows "l' = length (dc_lines d) \<and> dc_lines d' \<noteq> [] \<and> length (dc_lines d') = Suc l' \<and> length (dc_spans d') = length (dc_spans d) \<and>
    dc_prefillings d' = dc_prefillings d \<and> dc_prefilleds d' = dc_prefilleds d \<and> state_rel jt reg cfg (lm @ [l]) w' d'"
proof -
  let ?pre = "lg_prefilleds w ! p" and ?f = "dc_prefilleds d ! p"
  let ?s = "jp_span ?pre"
  let ?r = "dn_request (dc_spans d ! df_span ?f)"
  let ?h = "\<lambda>x. if AlertLevel \<le> level then x\<lparr>jr_alertCount := jr_alertCount x + 1\<rparr> else x\<lparr>jr_errorCount := jr_errorCount x + 1\<rparr>"
  let ?w = "upd_jspan ?s (\<lambda>x. x\<lparr>js_endTime := word_of_int t\<rparr>) w"
  let ?d = "upd_dspan (df_span ?f) (\<lambda>x. x\<lparr>dn_end := word_of_int t\<rparr>) d"
  let ?w2 = "if ErrorLevel \<le> level then upd_jreq ?r ?h ?w else ?w"
  let ?d2 = "if ErrorLevel \<le> level then upd_dreq ?r ?h ?d else ?d"
  note cfg = state_rel_config [OF assms(1)]
  have pre: "prefilled_rel jt (length (dc_spans d)) ?pre ?f"
    using assms(1,6) by (auto simp: state_rel_def list_all2_conv_all_nth)
  then have s: "?s = df_span ?f" "df_span ?f < length (dc_spans d)" by (simp_all add: prefilled_rel_def)
  note r = state_rel_request [OF assms(1) s(2)]
  have rel1: "state_rel jt reg cfg lm ?w ?d" unfolding s(1) by (rule rel_end_time [OF assms(1) s(2)])
  have rel2: "state_rel jt reg cfg lm ?w2 ?d2"
    using rel1 rel_upd_req [OF rel1, of ?r ?h] r(1) by simp
  obtain g w3 where g: "linePool_Get env ?w2 = (g, w3)" by fastforce
  note same = linePool_Get_same [OF g]
  have r': "js_request (lg_spans w ! ?s) = ?r" using r(2) s(1) by simp
  have cfg3: "lg_config w3 = cfg" using same(2) cfg by simp
  let ?b = "case g of Some i \<Rightarrow> builder_reset ?s (jl_builder (lg_lines w3 ! i)) | None \<Rightarrow> newBuilder ?s w3"
  let ?line = "\<lparr>jl_builder = line_start jt cfg level t frames (js_spanIDPrebuilt (lg_spans w3 ! ?s)) (jp_data ?pre) ?b,
      jl_level = level, jl_timestamp = t, jl_prefillMsg = jp_preEncodedMsg ?pre\<rparr>"
  let ?x = "\<lparr>dl_span = df_span ?f,
      dl_fields = line_fields jt level t frames @ id_fields cfg 0 (dn_bundle (dc_spans d ! df_span ?f)) (dn_code (dc_spans d ! df_span ?f)),
      dl_data = df_data ?f, dl_msg = df_msg ?f, dl_open = True\<rparr>"
  have b: "?b = newBuilder ?s ?w2 \<or> ?b = builder_reset ?s (case g of Some i \<Rightarrow> jl_builder (lg_lines w3 ! i) | None \<Rightarrow> undefined)"
    using same(4) by (cases g) simp_all
  have pre2: "prefilled_rel jt (length (dc_spans ?d2)) ?pre ?f" using pre by simp
  have keep: "dn_bundle (dc_spans ?d2 ! n) = dn_bundle (dc_spans d ! n)" "dn_code (dc_spans ?d2 ! n) = dn_code (dc_spans d ! n)" for n
    by simp_all
  have line: "line_rel jt ?line ?x"
    using line_rel_start [OF rel2 assms(2,3) assms(5) [simplified] pre2 b, of level t] by (simp only: same(1) keep)
  have spec: "l' = length (dc_lines d)" "d' = ?d2\<lparr>dc_lines := dc_lines d @ [?x]\<rparr>"
    using assms(4,8) by (auto simp: doc_Line_def Let_def)
  have code: "(l, w') = (case g of Some i \<Rightarrow> (i, w3\<lparr>lg_lines := (lg_lines w3)[i := ?line]\<rparr>)
      | None \<Rightarrow> (length (lg_lines w3), w3\<lparr>lg_lines := lg_lines w3 @ [?line]\<rparr>))"
    using assms(7) [symmetric] unfolding JSON_Line_def Let_def r' g prod.case cfg3 assms(4) [symmetric] .
  from rel_new_line [OF rel2 g line] s(2) code spec show ?thesis
    by (cases g) auto
qed

lemma rel_build_line:
  assumes "state_rel jt reg cfg lm w d" "texts_ok jt" "build_ok jt c" "j < length (dc_lines d)" "dl_open (dc_lines d ! j)"
  shows "state_rel jt reg cfg lm
    (w\<lparr>lg_lines := (lg_lines w)[lm ! j := (lg_lines w ! (lm ! j))\<lparr>jl_builder := json_build jt c (jl_builder (lg_lines w ! (lm ! j)))\<rparr>]\<rparr>)
    (d\<lparr>dc_lines := (dc_lines d)[j := (dc_lines d ! j)\<lparr>dl_data := dl_data (dc_lines d ! j) @ [c]\<rparr>]\<rparr>)"
proof -
  have lines: "lines_rel jt (length (dc_spans d)) (lg_lines w) (lg_linePool w) lm (dc_lines d)"
    using assms(1) by (simp add: state_rel_def)
  note D = lines_relD [OF lines]
  have "line_rel jt (lg_lines w ! (lm ! j)) (dc_lines d ! j)" using D(5) [OF assms(4,5)] by simp
  then have "line_rel jt ((lg_lines w ! (lm ! j))\<lparr>jl_builder := json_build jt c (jl_builder (lg_lines w ! (lm ! j)))\<rparr>)
      ((dc_lines d ! j)\<lparr>dl_data := dl_data (dc_lines d ! j) @ [c]\<rparr>)"
    using line_holds_build [OF _ assms(2,3)] by (simp add: line_rel_def)
  from lines_rel_update [OF lines assms(4,5) this] D(4) [OF assms(4)] assms(1) show ?thesis
    by (simp add: state_rel_def)
qed

lemma line_end_record:
  assumes "line_rel (je_texts env) l x" "end_ok (je_texts env) e"
  shows "is_record (jb_B (JLine_end (je_texts env) e l)) (doc_of_line env e x)"
proof -
  have l: "line_holds True (jl_builder l) (dl_fields x) (map (build_member (je_texts env)) (dl_data x))"
    "body_reads (jl_prefillMsg l) (dl_msg x)" using assms(1) by (simp_all add: line_rel_def)
  then have "body_fields True (dl_fields x) (map (build_member (je_texts env)) (dl_data x)) \<noteq> []"
    by (simp add: line_holds_def body_fields_def)
  from JLine_end_record [OF line_holds_close [OF l(1)] this l(2) assms(2)] show ?thesis
    by (simp add: doc_of_line_def)
qed

lemma rel_End:
  assumes "state_rel jt reg cfg lm w d" "jt = je_texts env" "end_ok jt e" "j < length (dc_lines d)" "dl_open (dc_lines d ! j)"
  shows "state_rel jt reg cfg lm (JSON_done env (lm ! j) (JLine_end jt e (lg_lines w ! (lm ! j))) w) (doc_End env e j d)"
proof -
  let ?l = "lg_lines w ! (lm ! j)" and ?x = "dc_lines d ! j"
  let ?b = "JLine_end jt e ?l"
  have lines: "lines_rel jt (length (dc_spans d)) (lg_lines w) (lg_linePool w) lm (dc_lines d)"
    using assms(1) by (simp add: state_rel_def)
  note D = lines_relD [OF lines]
  have l: "lm ! j < length (lg_lines w)" "line_rel jt ?l ?x" using D(5) [OF assms(4,5)] by simp_all
  have s: "bd_span (jl_builder ?l) = dl_span ?x" "dl_span ?x < length (dc_spans d)"
    using l(2) D(4) [OF assms(4)] by (simp_all add: line_rel_def)
  note r = state_rel_request [OF assms(1) s(2)]
  let ?w = "w\<lparr>lg_lines := (lg_lines w)[lm ! j := ?l\<lparr>jl_builder := (jl_builder ?l)\<lparr>bd_JB := ?b\<rparr>\<rparr>],
    lg_linePool := (if length (jb_B ?b) \<le> maxBufferToKeep then lg_linePool w @ [lm ! j] else lg_linePool w)\<rparr>"
  have "state_rel jt reg cfg lm ?w (d\<lparr>dc_lines := (dc_lines d)[j := ?x\<lparr>dl_open := False\<rparr>]\<rparr>)"
    using assms(1) lines_rel_end [OF lines assms(4,5), of "?l\<lparr>jl_builder := (jl_builder ?l)\<lparr>bd_JB := ?b\<rparr>\<rparr>" "length (jb_B ?b) \<le> maxBufferToKeep"]
    by (simp add: state_rel_def)
  from rel_emit [OF this _ line_end_record [OF l(2) [unfolded assms(2)] assms(3) [unfolded assms(2)]], of "dn_request (dc_spans d ! dl_span ?x)"] r(1)
  have "state_rel jt reg cfg lm (json_write env (dn_request (dc_spans d ! dl_span ?x)) (jb_B ?b) ?w)
      (doc_emit env (dn_request (dc_spans d ! dl_span ?x)) (doc_of_line env e ?x) (d\<lparr>dc_lines := (dc_lines d)[j := ?x\<lparr>dl_open := False\<rparr>]\<rparr>))"
    by (simp add: assms(2))
  then show ?thesis
    by (cases "length (jb_B ?b) \<le> maxBufferToKeep") (simp_all add: JSON_done_def doc_End_def Let_def s(1) r(2))
qed

subsection \<open>Prefills\<close>

lemma rel_prefilled:
  assumes "state_rel jt reg cfg lm w d" "prefilled_rel jt (length (dc_spans d)) p f"
  shows "state_rel jt reg cfg lm (w\<lparr>lg_prefilleds := lg_prefilleds w @ [p]\<rparr>) (d\<lparr>dc_prefilleds := dc_prefilleds d @ [f]\<rparr>)"
  using assms by (simp add: state_rel_def list_all2_appendI)

lemma rel_StartPrefill:
  assumes "state_rel jt reg cfg lm w d" "s < length (dc_spans d)"
  shows "state_rel jt reg cfg lm (w\<lparr>lg_prefillings := lg_prefillings w @ [newBuilder s w]\<rparr>)
    (d\<lparr>dc_prefillings := dc_prefillings d @ [\<lparr>dg_span = s, dg_data = []\<rparr>]\<rparr>)"
  using assms newBuilder_holds [of s w] by (simp add: state_rel_def list_all2_appendI prefilling_rel_def)

lemma state_rel_prefilling:
  "state_rel jt reg cfg lm w d \<Longrightarrow> p < length (dc_prefillings d) \<Longrightarrow>
   prefilling_rel jt (length (dc_spans d)) (lg_prefillings w ! p) (dc_prefillings d ! p)"
  by (auto simp: state_rel_def list_all2_conv_all_nth)

lemma rel_build_prefilling:
  assumes "state_rel jt reg cfg lm w d" "texts_ok jt" "build_ok jt c" "p < length (dc_prefillings d)"
  shows "state_rel jt reg cfg lm (w\<lparr>lg_prefillings := (lg_prefillings w)[p := json_build jt c (lg_prefillings w ! p)]\<rparr>)
    (d\<lparr>dc_prefillings := (dc_prefillings d)[p := (dc_prefillings d ! p)\<lparr>dg_data := dg_data (dc_prefillings d ! p) @ [c]\<rparr>]\<rparr>)"
proof -
  have "prefilling_rel jt (length (dc_spans d)) (json_build jt c (lg_prefillings w ! p))
      ((dc_prefillings d ! p)\<lparr>dg_data := dg_data (dc_prefillings d ! p) @ [c]\<rparr>)"
    using state_rel_prefilling [OF assms(1,4)] prefilling_build [OF _ assms(2,3)] by (simp add: prefilling_rel_def)
  with assms(1) show ?thesis by (simp add: state_rel_def list_all2_update_cong)
qed

lemma rel_PrefillComplete:
  assumes "state_rel jt reg cfg lm w d" "jsonSafe m" "p < length (dc_prefillings d)"
  shows "prefilled_rel jt (length (dc_spans d))
    \<lparr>jp_data = jb_B (bd_JB (lg_prefillings w ! p)), jp_preEncodedMsg = (if m \<noteq> [] then jb_B (AddStringBody m emptyJB) else []),
      jp_span = bd_span (lg_prefillings w ! p)\<rparr>
    \<lparr>df_span = dg_span (dc_prefillings d ! p), df_data = dg_data (dc_prefillings d ! p), df_msg = m\<rparr>"
  using state_rel_prefilling [OF assms(1,3)] preEncoded_reads [OF assms(2)]
  by (simp add: prefilling_rel_def prefilled_rel_def prefilling_holds_def)

lemma state_rel_lengths:
  assumes "state_rel jt reg cfg lm w d"
  shows "length (lg_prefillings w) = length (dc_prefillings d)" "length (lg_prefilleds w) = length (dc_prefilleds d)"
    "length lm = length (dc_lines d)"
  using assms by (auto simp: state_rel_def lines_rel_def dest: list_all2_lengthD)

subsection \<open>Every call\<close>

text \<open>What is relied on: the texts of the standard library, the order of a Go map, the configuration.\<close>

definition env_ok :: "'m jenv \<Rightarrow> bool" where
  "env_ok env \<longleftrightarrow> texts_ok (je_texts env) \<and> (\<forall>n. order_ok (je_order env n))"

definition json_rel ::
    "'m jenv \<Rightarrow> (string \<Rightarrow> Attribute) \<Rightarrow> jconfig \<Rightarrow> jlogger \<times> jhandle list \<Rightarrow> 'm dlogger \<times> jhandle list \<Rightarrow> bool" where
  "json_rel env reg cfg = (\<lambda>(w, ks) (d, hs). env_ok env \<and> config_ok cfg \<and>
     (\<exists>lm. state_rel (je_texts env) reg cfg lm w d \<and> list_all2 (handle_rel lm d) ks hs))"

definition grown_to :: "'m dlogger \<Rightarrow> 'm dlogger \<Rightarrow> bool" where
  "grown_to d e \<longleftrightarrow> length (dc_spans d) \<le> length (dc_spans e) \<and> length (dc_prefillings d) \<le> length (dc_prefillings e) \<and>
     length (dc_prefilleds d) \<le> length (dc_prefilleds e) \<and> length (dc_lines d) \<le> length (dc_lines e)"

lemma handle_rel_mono:
  assumes "handle_rel lm d h k" "length lm = length (dc_lines d)" "grown_to d e"
  shows "handle_rel (lm @ ls) e h k"
  using assms by (cases h; cases k) (auto simp: grown_to_def nth_append)

lemma json_relI:
  assumes "env_ok env" "config_ok cfg" "state_rel (je_texts env) reg cfg lm w d" "list_all2 (handle_rel lm d) ks hs"
    "state_rel (je_texts env) reg cfg (lm @ ls) w' d'" "grown_to d d'" "list_all2 (handle_rel (lm @ ls) d') ks' hs'"
  shows "json_rel env reg cfg (w', ks @ ks') (d', hs @ hs')"
proof -
  have "list_all2 (handle_rel (lm @ ls) d') ks hs"
    using assms(4) handle_rel_mono [OF _ state_rel_lengths(3) [OF assms(3)] assms(6)] by (rule list_all2_mono)
  from this assms(7) have "list_all2 (handle_rel (lm @ ls) d') (ks @ ks') (hs @ hs')" by (rule list_all2_appendI)
  with assms(1,2,5) show ?thesis by (auto simp: json_rel_def)
qed

lemma grown_to_refl [simp]: "grown_to d d"
  by (simp add: grown_to_def)

lemma rel_new:
  assumes rel: "state_rel (je_texts env) reg cfg lm w d" and env: "env_ok env" and cfg: "config_ok cfg"
    and h: "rel_option (handle_rel lm d) k h" and c: "create_ok c" and spec: "doc_new env cfg c h d = Some (h', d')"
  shows "\<exists>k' w' ls. json_new env c k w = Some (k', w') \<and> state_rel (je_texts env) reg cfg (lm @ ls) w' d' \<and>
    grown_to d d' \<and> handle_rel (lm @ ls) d' k' h'"
proof -
  have jt: "texts_ok (je_texts env)" using env by (simp add: env_ok_def)
  note len = state_rel_lengths [OF rel]
  show ?thesis
  proof (cases c)
    case (NRequest ts b n si)
    with spec have "h = None" by (cases h) auto
    with h have "k = None" by simp
    obtain s w' where w: "JSON_Request env ts b n si w = (s, w')" by fastforce
    obtain s' e where d: "doc_Request env cfg ts b n si d = (s', e)" by fastforce
    have e: "h' = JSpanH s'" "d' = e" using spec NRequest \<open>h = None\<close> d by simp_all
    have "grown_to d e" using d by (auto simp: doc_Request_def Let_def grown_to_def)
    with rel_Request [OF rel cfg jt refl _ w d] c w e NRequest \<open>k = None\<close> show ?thesis
      by (intro exI [of _ "JSpanH s"] exI [of _ w'] exI [of _ "[]"]) simp
  next
    case (NSpan ts b n code)
    with spec obtain p where "h = Some (JSpanH p)" by (cases h; cases "the h") auto
    with h have p: "k = Some (JSpanH p)" "p < length (dc_spans d)" by (auto elim!: option.rel_cases handle_rel.elims)
    obtain s w' where w: "JSON_Span env ts b n code p w = (s, w')" by fastforce
    obtain s' e where d: "doc_Span env cfg ts b n code p d = (s', e)" by fastforce
    have e: "h' = JSpanH s'" "d' = e" using spec NSpan \<open>h = Some (JSpanH p)\<close> d by simp_all
    have "grown_to d e" using d by (auto simp: doc_Span_def Let_def grown_to_def)
    with rel_Span [OF rel cfg jt refl _ p(2) w d] c w e NSpan p(1) show ?thesis
      by (intro exI [of _ "JSpanH s"] exI [of _ w'] exI [of _ "[]"]) simp
  next
    case NNoPrefill
    with spec obtain s where "h = Some (JSpanH s)" by (cases h; cases "the h") auto
    with h have s: "k = Some (JSpanH s)" "s < length (dc_spans d)" by (auto elim!: option.rel_cases handle_rel.elims)
    have "prefilled_rel (je_texts env) (length (dc_spans d)) \<lparr>jp_data = [], jp_preEncodedMsg = [], jp_span = s\<rparr> \<lparr>df_span = s, df_data = [], df_msg = []\<rparr>"
      using s(2) by (simp add: prefilled_rel_def)
    from rel_prefilled [OF rel this] spec NNoPrefill \<open>h = Some (JSpanH s)\<close> s(1) show ?thesis
      by (auto simp: JSON_NoPrefill_def Let_def grown_to_def len intro!: exI [of _ "[]"])
  next
    case NStartPrefill
    with spec obtain s where "h = Some (JSpanH s)" by (cases h; cases "the h") auto
    with h have s: "k = Some (JSpanH s)" "s < length (dc_spans d)" by (auto elim!: option.rel_cases handle_rel.elims)
    from rel_StartPrefill [OF rel s(2)] spec NStartPrefill \<open>h = Some (JSpanH s)\<close> s(1) show ?thesis
      by (auto simp: JSON_StartPrefill_def Let_def grown_to_def len intro!: exI [of _ "[]"])
  next
    case (NPrefillComplete m)
    with spec obtain p where "h = Some (JPrefillingH p)" by (cases h; cases "the h") auto
    with h have p: "k = Some (JPrefillingH p)" "p < length (dc_prefillings d)" by (auto elim!: option.rel_cases handle_rel.elims)
    from rel_prefilled [OF rel rel_PrefillComplete [OF rel _ p(2), of m]] spec NPrefillComplete \<open>h = Some (JPrefillingH p)\<close> p(1) c
    show ?thesis by (auto simp: JSON_PrefillComplete_def Let_def grown_to_def len intro!: exI [of _ "[]"])
  next
    case (NLine level t frames)
    with spec obtain p where "h = Some (JPrefilledH p)" by (cases h; cases "the h") auto
    with h have p: "k = Some (JPrefilledH p)" "p < length (dc_prefilleds d)" by (auto elim!: option.rel_cases handle_rel.elims)
    obtain l w' where w: "JSON_Line env level t frames p w = (l, w')" by fastforce
    obtain l' e where d: "doc_Line env cfg level t frames p d = (l', e)" by fastforce
    have e: "h' = JLineH l'" "d' = e" using spec NLine \<open>h = Some (JPrefilledH p)\<close> d by simp_all
    from rel_Line [OF rel cfg jt refl _ p(2) w d] c w e NLine p(1) len(3) show ?thesis
      by (intro exI [of _ "JLineH l"] exI [of _ w'] exI [of _ "[l]"]) (simp add: grown_to_def nth_append)
  qed
qed

lemma rel_do:
  assumes rel: "state_rel (je_texts env) reg cfg lm w d" and env: "env_ok env" and cfg: "config_ok cfg"
    and h: "handle_rel lm d k h" and a: "action_ok (je_texts env) reg a" and spec: "doc_do env cfg a h d = Some d'"
  shows "\<exists>w'. json_do env a k w = Some w' \<and> state_rel (je_texts env) reg cfg lm w' d' \<and> grown_to d d'"
proof -
  have jt: "texts_ok (je_texts env)" "\<forall>n. order_ok (je_order env n)" using env by (simp_all add: env_ok_def)
  show ?thesis
  proof (cases h)
    case (JSpanH s)
    with h have s: "k = JSpanH s" "s < length (dc_spans d)" by (auto elim: handle_rel.elims)
    have req: "js_req (lg_spans w ! s) = dn_req (dc_spans d ! s)"
      using state_rel_span [OF rel s(2)] by (simp add: span_rel_def)
    show ?thesis
    proof (cases a)
      case AFlush
      with spec JSpanH s rel req show ?thesis by (auto split: if_splits)
    next
      case ASetErrorReporter
      have "state_rel (je_texts env) reg cfg lm (JSON_SetErrorReporter s w) (upd_dreq s (\<lambda>x. x\<lparr>jr_reporter := True\<rparr>) d)"
        unfolding JSON_SetErrorReporter_def by (rule rel_upd_req [OF rel s(2)]) simp
      with ASetErrorReporter spec JSpanH s req show ?thesis by (auto simp: grown_to_def split: if_splits)
    next
      case (ADone t final)
      with spec JSpanH s rel_Done [OF rel cfg jt(1) refl jt(2) s(2), of t] show ?thesis
        by (auto simp: grown_to_def doc_Done_def Let_def)
    next
      case (ABoring b)
      with spec JSpanH s rel show ?thesis by auto
    next
      case (AMetadata key v)
      with a have "action_ok (je_texts env) reg (AMetadata key v)" by simp
      from rel_Metadata [OF rel jt(1) refl this s(2)] AMetadata spec JSpanH s show ?thesis
        by (auto simp: grown_to_def doc_Metadata_def)
    qed (use spec JSpanH in simp_all)
  next
    case (JPrefillingH p)
    with h have p: "k = JPrefillingH p" "p < length (dc_prefillings d)" by (auto elim: handle_rel.elims)
    show ?thesis
    proof (cases a)
      case (ABuild c)
      with rel_build_prefilling [OF rel jt(1) _ p(2), of c] a spec JPrefillingH p show ?thesis
        by (auto simp: grown_to_def Let_def)
    qed (use spec JPrefillingH in simp_all)
  next
    case (JPrefilledH p)
    with spec show ?thesis by (cases a) simp_all
  next
    case (JLineH j)
    with h have j: "k = JLineH (lm ! j)" "j < length (dc_lines d)" by (auto elim: handle_rel.elims)
    show ?thesis
    proof (cases a)
      case (ABuild c)
      with spec JLineH have "dl_open (dc_lines d ! j)" by (auto simp: Let_def split: if_splits)
      from rel_build_line [OF rel jt(1) _ j(2) this, of c] this ABuild a spec JLineH j show ?thesis
        by (auto simp: grown_to_def Let_def)
    next
      case (AEnd e)
      with spec JLineH have "dl_open (dc_lines d ! j)" by (auto split: if_splits)
      from rel_End [OF rel refl _ j(2) this, of e] this AEnd a spec JLineH j show ?thesis
        by (auto simp: grown_to_def doc_End_def Let_def)
    qed (use spec JLineH in simp_all)
  qed
qed

lemma json_cmd_refines:
  assumes "exec_cmd (doc_base ident env cfg) x s = Some s'" "json_rel env reg cfg r s" "cmd_ok (je_texts env) reg x"
  shows "\<exists>r'. exec_cmd (json_base ident env) x r = Some r' \<and> json_rel env reg cfg r' s'"
proof -
  obtain w ks d hs d' hs' where eq: "r = (w, ks)" "s = (d, hs)" "s' = (d', hs')" by (cases r; cases s; cases s') auto
  obtain lm where ok: "env_ok env" "config_ok cfg" and rel: "state_rel (je_texts env) reg cfg lm w d"
    and hr: "list_all2 (handle_rel lm d) ks hs"
    using assms(2) by (auto simp: json_rel_def eq)
  have len: "length ks = length hs" using hr by (rule list_all2_lengthD)
  show ?thesis
  proof (cases x)
    case (New c n)
    let ?h = "map_option (\<lambda>m. hs ! m) n" and ?k = "map_option (\<lambda>m. ks ! m) n"
    have n: "\<forall>m. n = Some m \<longrightarrow> m < length hs" using assms(1) New eq by (cases n) (auto split: if_splits)
    obtain h' where h': "doc_new env cfg c ?h d = Some (h', d')" "hs' = hs @ [h']"
      using assms(1) New eq by (cases n) (auto simp: doc_base_def split: if_splits)
    have "rel_option (handle_rel lm d) ?k ?h" using hr n by (cases n) (auto simp: list_all2_conv_all_nth)
    from rel_new [OF rel ok this _ h'(1)] assms(3) New obtain k' w' ls where
      n': "json_new env c ?k w = Some (k', w')" "state_rel (je_texts env) reg cfg (lm @ ls) w' d'" "grown_to d d'"
      "handle_rel (lm @ ls) d' k' h'" by auto
    have "json_rel env reg cfg (w', ks @ [k']) (d', hs @ [h'])"
      by (rule json_relI [OF ok rel hr n'(2,3)]) (simp add: n'(4))
    with n'(1) n h'(2) len New show ?thesis by (cases n) (simp_all add: eq json_base_def)
  next
    case (Do a n)
    have n: "n < length hs" "hs' = hs" "doc_do env cfg a (hs ! n) d = Some d'"
      using assms(1) Do eq by (auto simp: doc_base_def split: if_splits)
    have "handle_rel lm d (ks ! n) (hs ! n)" using hr n(1) by (auto simp: list_all2_conv_all_nth)
    from rel_do [OF rel ok this _ n(3)] assms(3) Do obtain w' where
      w': "json_do env a (ks ! n) w = Some w'" "state_rel (je_texts env) reg cfg lm w' d'" "grown_to d d'" by auto
    have "json_rel env reg cfg (w', ks @ []) (d', hs @ [])"
      by (rule json_relI [OF ok rel hr, where ls = "[]"]) (simp_all add: w')
    with w'(1) n(1,2) len Do show ?thesis by (simp add: eq json_base_def)
  qed
qed

interpretation json: base_refinement "doc_base ident env cfg" "json_base ident env" "json_rel env reg cfg" "cmd_ok (je_texts env) reg"
  for ident env cfg reg
  by unfold_locales (rule json_cmd_refines)

lemma json_rel_New: "env_ok env \<Longrightarrow> json_rel env reg (JSON_config ident opts) (JSON_New ident opts, []) (doc_New, [])"
  by (auto simp: json_rel_def JSON_config_ok state_rel_def JSON_New_def doc_New_def spans_rel_def spans_ok_def lines_rel_def
      writer_rel_def intro: exI [of _ "[]"])

text \<open>
  C3. The JSON logger implements its specification. For every sequence of calls that the
  specification allows (a line is not used after it ended) with data that JSON can hold, no call panics, and what the
  writer got is the specification's documents: one text per document, in their order, each a JSON
  document and a newline that reads back as the document. So nothing that was logged
  is lost, changed or written twice, whichever lines the pool hands out again, whichever writes fail (their documents are
  missing) and in whatever order maps are walked. The error and alert counts, the definitions
  that were tracked and the reports of errors of each request are those of the specification too.
\<close>

theorem json_refines_documents:
  assumes "env_ok env" "list_all (cmd_ok (je_texts env) reg) xs"
    and "exec (doc_base ident env (JSON_config ident opts)) xs (doc_New, []) = Some (d, hs)"
  shows "\<exists>w ks. exec (json_base ident env) xs (JSON_New ident opts, []) = Some (w, ks) \<and>
    list_all2 (\<lambda>txt doc. \<exists>t. txt = t @ [CHR 0x0A] \<and> readJSON t = Some doc) (iow_written (lg_writer w)) (dc_docs d) \<and>
    map js_req (lg_spans w) = map dn_req (dc_spans d)"
proof -
  from json.exec_refines [OF assms(3) json_rel_New [OF assms(1)] assms(2)] obtain w ks where
    w: "exec (json_base ident env) xs (JSON_New ident opts, []) = Some (w, ks)"
      "json_rel env reg (JSON_config ident opts) (w, ks) (d, hs)" by auto
  then obtain lm where rel: "state_rel (je_texts env) reg (JSON_config ident opts) lm w d" by (auto simp: json_rel_def)
  have "list_all2 is_record (iow_written (lg_writer w)) (dc_docs d)" using rel by (simp add: state_rel_def writer_rel_def)
  then have "list_all2 (\<lambda>txt doc. \<exists>t. txt = t @ [CHR 0x0A] \<and> readJSON t = Some doc) (iow_written (lg_writer w)) (dc_docs d)"
    by (rule list_all2_mono) (auto simp: is_record_def dest: reads_readJSON)
  moreover have "map js_req (lg_spans w) = map dn_req (dc_spans d)"
    using state_rel_length [OF rel] state_rel_span [OF rel] by (intro nth_equalityI) (auto simp: span_rel_def)
  ultimately show ?thesis using w(1) by blast
qed

definition demo_jenv :: "int jenv" where
  "demo_jenv = \<lparr>je_texts = int_jtexts, je_order = (\<lambda>n ks. rev ks), je_pool = (\<lambda>n p. if p = [] then None else Some (last p)),
     je_fails = (\<lambda>n. n = 1)\<rparr>"

definition demo_json :: "int cmd list" where
  "demo_json = [New (NRequest 0 NewBundle ''r'' \<lparr>si_Source = ''s'', si_SourceVersion = ''1'', si_Namespace = ''n'', si_NamespaceVersion = ''2''\<rparr>) None,
     New NNoPrefill (Some 0), New (NLine InfoLevel 1 []) (Some 1), Do (ABuild (BBool ''x'' True)) 2, Do (AEnd (LMsg ''a'')) 2,
     New (NLine InfoLevel 2 []) (Some 1), Do (AEnd (LMsg ''b'')) 3, New (NLine InfoLevel 3 []) (Some 1), Do (AEnd (LMsg ''c'')) 4]"

theorem json_refines_documents_witness:
  "\<exists>w ks. exec (json_base ''j'' demo_jenv) demo_json (JSON_New ''j'' [WithSpanStarts False], []) = Some (w, ks) \<and>
    list_all2 (\<lambda>txt doc. \<exists>t. txt = t @ [CHR 0x0A] \<and> readJSON t = Some doc) (iow_written (lg_writer w))
      [VObj [(''lvl'', VStr ''info''), (''ts'', VStr ''1''), (''span.id'', VStr ''0000000000000000''), (''span.seq'', VStr []),
          (''attributes'', VObj [(''x'', VObj [(''v'', VBool True), (''t'', VStr ''bool'')])]), (''msg'', VStr ''a'')],
       VObj [(''lvl'', VStr ''info''), (''ts'', VStr ''3''), (''span.id'', VStr ''0000000000000000''), (''span.seq'', VStr []),
          (''msg'', VStr ''c'')]]"
proof -
  let ?e = "exec (doc_base ''j'' demo_jenv (JSON_config ''j'' [WithSpanStarts False])) demo_json (doc_New, [])"
  have "env_ok demo_jenv" using int_texts_ok by (simp add: env_ok_def demo_jenv_def order_ok_def)
  moreover have "bundle_ok NewBundle" using NewTrace_ok by (simp add: bundle_ok_def NewBundle_def)
  then have "list_all (cmd_ok (je_texts demo_jenv) (\<lambda>k. zeroAttribute)) demo_json"
    by (simp add: demo_json_def jsonSafe_def source_ok_def)
  moreover have "map_option (\<lambda>s. dc_docs (fst s)) ?e = Some
      [VObj [(''lvl'', VStr ''info''), (''ts'', VStr ''1''), (''span.id'', VStr ''0000000000000000''), (''span.seq'', VStr []),
          (''attributes'', VObj [(''x'', VObj [(''v'', VBool True), (''t'', VStr ''bool'')])]), (''msg'', VStr ''a'')],
       VObj [(''lvl'', VStr ''info''), (''ts'', VStr ''3''), (''span.id'', VStr ''0000000000000000''), (''span.seq'', VStr []),
          (''msg'', VStr ''c'')]]"
    by code_simp
  ultimately show ?thesis
    using json_refines_documents [of demo_jenv "\<lambda>k. zeroAttribute" demo_json "''j''" "[WithSpanStarts False]"] by (cases ?e) auto
qed

end
