(* ===== verification/JSONDefined.thy ===== *)
theory JSONDefined
  imports JSONRefine
begin

section \<open>Attributes are defined before they are used\<close>

text \<open>
  A reader of a JSON log needs the definition of an attribute before the first record that has it.
  Proved for the specification, and so for the JSON logger, which implements it.
\<close>

subsection \<open>What is tracked was written\<close>

definition track_of :: "'m dspan \<Rightarrow> Trace \<times> string list" where
  "track_of x = (bu_Trace (dn_bundle x), case dn_req x of Some r \<Rightarrow> jr_tracking r | None \<Rightarrow> [])"

definition defined :: "(string \<Rightarrow> Attribute) \<Rightarrow> string list \<Rightarrow> (Trace \<times> string list) set \<Rightarrow> json set \<Rightarrow> bool" where
  "defined reg ts trs docs \<longleftrightarrow> (\<forall>key \<in> set ts. definition_doc (reg key) None \<in> docs) \<and>
     (\<forall>t keys. (t, keys) \<in> trs \<longrightarrow> (\<forall>key \<in> set keys. definition_doc (reg key) (Some t) \<in> docs))"

definition defined_inv :: "(string \<Rightarrow> Attribute) \<Rightarrow> 'm dlogger \<Rightarrow> bool" where
  "defined_inv reg d \<longleftrightarrow> defined reg (dc_tracking d) (track_of ` set (dc_spans d)) (set (dc_docs d))"

text \<open>Most operations track nothing and only add documents.\<close>

definition quiet :: "'m dlogger \<Rightarrow> 'm dlogger \<Rightarrow> bool" where
  "quiet d e \<longleftrightarrow> dc_tracking e = dc_tracking d \<and> set (dc_docs d) \<subseteq> set (dc_docs e) \<and>
     (\<forall>t keys. (t, keys) \<in> track_of ` set (dc_spans e) \<longrightarrow> keys = [] \<or> (t, keys) \<in> track_of ` set (dc_spans d))"

lemma defined_quiet: "defined_inv reg d \<Longrightarrow> quiet d e \<Longrightarrow> defined_inv reg e"
proof -
  assume d: "defined_inv reg d" and e: "quiet d e"
  have "definition_doc (reg key) (Some t) \<in> set (dc_docs e)"
    if "(t, keys) \<in> track_of ` set (dc_spans e)" "key \<in> set keys" for t keys key
  proof -
    have "keys = [] \<or> (t, keys) \<in> track_of ` set (dc_spans d)" using e that(1) unfolding quiet_def by blast
    with that(2) have "(t, keys) \<in> track_of ` set (dc_spans d)" by auto
    with d e that(2) show ?thesis unfolding defined_inv_def defined_def quiet_def by blast
  qed
  with d e show ?thesis unfolding defined_inv_def defined_def quiet_def by auto
qed

lemma quiet_trans: "quiet d e \<Longrightarrow> quiet e f \<Longrightarrow> quiet d f"
  unfolding quiet_def by (metis subset_trans)

lemma quiet_refl [simp]: "quiet d d"
  by (auto simp: quiet_def)

lemma quiet_upd_dspan: "(\<And>x. track_of (g x) = track_of x) \<Longrightarrow> quiet d (upd_dspan s g d)"
proof -
  assume g: "\<And>x. track_of (g x) = track_of x"
  have "map track_of ((dc_spans d)[s := g (dc_spans d ! s)]) = map track_of (dc_spans d)"
    by (cases "s < length (dc_spans d)") (simp_all add: map_update g list_update_beyond map_update [symmetric] list_update_id)
  then have "track_of ` set (dc_spans (upd_dspan s g d)) = track_of ` set (dc_spans d)"
    unfolding upd_dspan_def by (metis dlogger.select_convs(1) dlogger.surjective dlogger.update_convs(1) list.set_map)
  then show ?thesis by (simp add: quiet_def upd_dspan_def)
qed

lemma quiet_upd_dreq: "(\<And>x. jr_tracking (f x) = jr_tracking x) \<Longrightarrow> quiet d (upd_dreq r f d)"
  unfolding upd_dreq_def by (rule quiet_upd_dspan) (auto simp: track_of_def split: option.split)

lemma quiet_emit: "\<not> je_fails env (dc_calls d) \<Longrightarrow> quiet d (doc_emit env r v d)"
  by (auto simp: doc_emit_def quiet_def)

lemma quiet_span: "snd (track_of x) = [] \<Longrightarrow> quiet d (d\<lparr>dc_spans := dc_spans d @ [x]\<rparr>)"
  by (cases "track_of x") (auto simp: quiet_def)

lemma quiet_stores [simp]:
  "quiet d (e\<lparr>dc_lines := ls\<rparr>) = quiet d e" "quiet d (e\<lparr>dc_prefillings := ps\<rparr>) = quiet d e"
  "quiet d (e\<lparr>dc_prefilleds := fs\<rparr>) = quiet d e"
  by (simp_all add: quiet_def)

lemma quiet_new:
  assumes "\<And>n. \<not> je_fails env n" "doc_new env cfg c h d = Some (h', d')"
  shows "quiet d d'"
proof -
  consider ts b n si where "c = NRequest ts b n si" | ts b n code where "c = NSpan ts b n code" | level t fr where "c = NLine level t fr"
    | "c = NNoPrefill \<or> c = NStartPrefill \<or> (\<exists>m. c = NPrefillComplete m)" by (cases c) auto
  then show ?thesis
  proof cases
    case 1
    with assms(2) show ?thesis
      by (cases h) (auto simp: doc_Request_def Let_def track_of_def intro!: quiet_span quiet_trans [OF quiet_span quiet_emit] assms(1))
  next
    case 2
    with assms(2) show ?thesis
      by (cases h; cases "the h") (auto simp: doc_Span_def Let_def track_of_def intro!: quiet_span quiet_trans [OF quiet_span quiet_emit] assms(1))
  next
    case 3
    have 1: "quiet d (upd_dspan s (\<lambda>x. x\<lparr>dn_end := word_of_int t\<rparr>) d)" for s
      by (rule quiet_upd_dspan) (simp add: track_of_def)
    have 2: "quiet e (upd_dreq r (\<lambda>x. if AlertLevel \<le> level then x\<lparr>jr_alertCount := jr_alertCount x + 1\<rparr>
        else x\<lparr>jr_errorCount := jr_errorCount x + 1\<rparr>) e)" for r and e :: "'a dlogger"
      by (rule quiet_upd_dreq) simp
    show ?thesis using 3 assms(2) 1 quiet_trans [OF 1 2]
      by (cases h; cases "the h") (auto simp: doc_Line_def Let_def)
  next
    case 4
    with assms(2) show ?thesis by (cases h; cases "the h") auto
  qed
qed

lemma quiet_done: "(\<And>n. \<not> je_fails env n) \<Longrightarrow> quiet d (doc_Done env cfg t s d)"
  unfolding doc_Done_def Let_def
  by (rule quiet_trans [OF quiet_upd_dspan quiet_trans [OF quiet_upd_dspan quiet_emit]]) (simp_all add: track_of_def)

lemma quiet_end: "(\<And>n. \<not> je_fails env n) \<Longrightarrow> quiet d (doc_End env e l d)"
  unfolding doc_End_def Let_def by (rule quiet_trans [OF _ quiet_emit]) simp_all

lemma quiet_do:
  assumes "\<And>n. \<not> je_fails env n" "doc_do env cfg a h d = Some d'" "\<And>k v. a \<noteq> AMetadata k v"
  shows "quiet d d'"
proof -
  have "quiet d (upd_dreq s (\<lambda>x. x\<lparr>jr_reporter := True\<rparr>) d)" for s by (rule quiet_upd_dreq) simp
  with assms quiet_done [OF assms(1)] quiet_end [OF assms(1)] show ?thesis
    by (cases a; cases h) (auto simp: Let_def split: if_splits)
qed

subsection \<open>Metadata\<close>

definition defined_in :: "'m dlogger \<Rightarrow> Attribute \<Rightarrow> bool" where
  "defined_in d k \<longleftrightarrow> (\<exists>t. definition_doc k t \<in> set (dc_docs d))"

lemma define_defined:
  assumes "\<And>n. \<not> je_fails env n" "defined_inv reg d" "reg (at_key k) = k" "s < length (dc_spans d)" "spans_ok (dc_spans d)"
  shows "defined_inv reg (doc_define env cfg k s d) \<and> defined_in (doc_define env cfg k s d) k"
proof -
  let ?r = "dn_request (dc_spans d ! s)"
  have r: "?r < length (dc_spans d)" "is_request (dc_spans d ! ?r)" using assms(4,5) unfolding spans_ok_def by blast+
  show ?thesis
  proof (cases "lc_attributeOption cfg")
    case AttributesDefinedAlways
    with defined_quiet [OF assms(2) quiet_emit [OF assms(1)]] assms(1) show ?thesis
      by (auto simp: doc_define_def defined_in_def doc_emit_def)
  next
    case AttributesDefinedOnce
    show ?thesis
    proof (cases "at_key k \<in> set (dc_tracking d)")
      case True
      with assms(2,3) have "definition_doc k None \<in> set (dc_docs d)" unfolding defined_inv_def defined_def by metis
      with True AttributesDefinedOnce assms(2) show ?thesis by (auto simp: doc_define_def defined_in_def)
    next
      case False
      with AttributesDefinedOnce assms show ?thesis
        by (auto simp: doc_define_def defined_in_def doc_emit_def defined_inv_def defined_def)
    qed
  next
    case AttributesDefinedEachRequest
    let ?x = "dc_spans d ! ?r"
    let ?t = "bu_Trace (dn_bundle ?x)"
    obtain u where u: "dn_req ?x = Some u" using r(2) by (auto simp: is_request_def)
    have tr: "track_of ?x = (?t, jr_tracking u)" "?x \<in> set (dc_spans d)" using u r(1) by (simp_all add: track_of_def)
    show ?thesis
    proof (cases "at_key k \<in> set (jr_tracking u)")
      case True
      have "(?t, jr_tracking u) \<in> track_of ` set (dc_spans d)" using tr by (metis image_eqI)
      with True assms(2,3) have "definition_doc k (Some ?t) \<in> set (dc_docs d)" unfolding defined_inv_def defined_def by metis
      with True AttributesDefinedEachRequest u assms(2) show ?thesis by (auto simp: doc_define_def defined_in_def Let_def)
    next
      case False
      let ?d = "upd_dreq ?r (\<lambda>x. x\<lparr>jr_tracking := jr_tracking x @ [at_key k]\<rparr>) d"
      let ?e = "doc_emit env ?r (definition_doc k (Some ?t)) ?d"
      have e: "doc_define env cfg k s d = ?e" using False AttributesDefinedEachRequest u by (simp add: doc_define_def Let_def)
      have docs: "set (dc_docs ?e) = insert (definition_doc k (Some ?t)) (set (dc_docs d))" "dc_tracking ?e = dc_tracking d"
        using assms(1) by (simp_all add: doc_emit_def upd_dreq_def upd_dspan_def)
      have "set (dc_spans ?e) \<subseteq> insert (?x\<lparr>dn_req := Some (u\<lparr>jr_tracking := jr_tracking u @ [at_key k]\<rparr>)\<rparr>) (set (dc_spans d))"
        using assms(1) u by (simp add: doc_emit_def upd_dreq_def upd_dspan_def set_update_subset_insert)
      then have spans: "track_of ` set (dc_spans ?e) \<subseteq> insert (?t, jr_tracking u @ [at_key k]) (track_of ` set (dc_spans d))"
        by (auto simp: track_of_def)
      have old: "definition_doc (reg key) (Some t) \<in> set (dc_docs d)"
        if "(t, keys) \<in> track_of ` set (dc_spans d)" "key \<in> set keys" for t keys key
        using assms(2) that unfolding defined_inv_def defined_def by blast
      have this': "(?t, jr_tracking u) \<in> track_of ` set (dc_spans d)" using tr by (metis image_eqI)
      have "definition_doc (reg key) (Some t) \<in> set (dc_docs ?e)"
        if "(t, keys) \<in> track_of ` set (dc_spans ?e)" "key \<in> set keys" for t keys key
      proof -
        have "(t, keys) = (?t, jr_tracking u @ [at_key k]) \<or> (t, keys) \<in> track_of ` set (dc_spans d)" using spans that(1) by blast
        then show ?thesis using that(2) old old [OF this'] assms(3) unfolding docs(1) by auto
      qed
      moreover have "\<forall>key \<in> set (dc_tracking ?e). definition_doc (reg key) None \<in> set (dc_docs ?e)"
        using assms(2) unfolding defined_inv_def defined_def docs by blast
      ultimately show ?thesis unfolding e defined_inv_def defined_def defined_in_def using docs(1) by blast
    qed
  qed
qed

lemma define_after: "defined_inv reg (doc_define env cfg k s d) \<Longrightarrow> defined_inv reg (doc_Metadata env cfg k v s d)"
  unfolding doc_Metadata_def by (erule defined_quiet, rule quiet_upd_dspan) (simp add: track_of_def)

lemma defined_in_after: "defined_in (doc_define env cfg k s d) k \<Longrightarrow> defined_in (doc_Metadata env cfg k v s d) k"
  by (simp add: defined_in_def doc_Metadata_def upd_dspan_def)

lemma defined_cmd:
  assumes "exec_cmd (doc_base ident env cfg) x s = Some s'" "json_rel env reg cfg r s" "cmd_ok (je_texts env) reg x"
    "\<And>n. \<not> je_fails env n" "defined_inv reg (fst s)"
  shows "defined_inv reg (fst s') \<and> (\<forall>k v n. x = Do (AMetadata k v) n \<longrightarrow> defined_in (fst s') k)"
proof -
  obtain w ks d hs d' hs' where eq: "r = (w, ks)" "s = (d, hs)" "s' = (d', hs')" by (cases r; cases s; cases s') auto
  obtain lm where rel: "state_rel (je_texts env) reg cfg lm w d" and hr: "list_all2 (handle_rel lm d) ks hs"
    using assms(2) by (auto simp: json_rel_def eq)
  show ?thesis
  proof (cases x)
    case (New c n)
    then obtain h h' where "doc_new env cfg c h d = Some (h', d')"
      using assms(1) eq by (cases n) (auto simp: doc_base_def split: if_splits)
    from defined_quiet [OF _ quiet_new [OF assms(4) this]] assms(5) New show ?thesis by (simp add: eq)
  next
    case (Do a n)
    have n: "n < length hs" "doc_do env cfg a (hs ! n) d = Some d'"
      using assms(1) Do eq by (auto simp: doc_base_def split: if_splits)
    show ?thesis
    proof (cases "\<exists>k v. a = AMetadata k v")
      case False
      then have "\<And>k v. a \<noteq> AMetadata k v" by blast
      from defined_quiet [OF _ quiet_do [OF assms(4) n(2) this]] assms(5) Do False show ?thesis by (auto simp: eq)
    next
      case True
      then obtain k v where a: "a = AMetadata k v" by blast
      with n(2) obtain i where i: "hs ! n = JSpanH i" "d' = doc_Metadata env cfg k v i d" by (cases "hs ! n") auto
      have "handle_rel lm d (ks ! n) (hs ! n)" using hr n(1) by (auto simp: list_all2_conv_all_nth)
      then have "i < length (dc_spans d)" using i(1) by (auto elim: handle_rel.elims)
      moreover have "spans_ok (dc_spans d)" using state_rel_spans [OF rel] by (simp add: spans_rel_def)
      moreover have "reg (at_key k) = k" using assms(3) Do a by simp
      ultimately have "defined_inv reg (doc_define env cfg k i d) \<and> defined_in (doc_define env cfg k i d) k"
        using assms(4,5) by (intro define_defined) (simp_all add: eq)
      with i(2) define_after defined_in_after Do a show ?thesis by (auto simp: eq)
    qed
  qed
qed

interpretation defining: base_refinement "doc_base ident env cfg" "json_base ident env"
    "\<lambda>r s. json_rel env reg cfg r s \<and> defined_inv reg (fst s) \<and> (\<forall>n. \<not> je_fails env n)" "cmd_ok (je_texts env) reg"
  for ident env cfg reg
proof unfold_locales
  fix x s s' r
  assume a: "exec_cmd (doc_base ident env cfg) x s = Some s'"
    "json_rel env reg cfg r s \<and> defined_inv reg (fst s) \<and> (\<forall>n. \<not> je_fails env n)" "cmd_ok (je_texts env) reg x"
  with json_cmd_refines [OF a(1) _ a(3)] defined_cmd [OF a(1) _ a(3)]
  show "\<exists>r'. exec_cmd (json_base ident env) x r = Some r' \<and> json_rel env reg cfg r' s' \<and> defined_inv reg (fst s') \<and>
      (\<forall>n. \<not> je_fails env n)"
    by blast
qed


definition demo_attribute :: Attribute where
  "demo_attribute = sampleAttribute\<lparr>at_jsonKey := json_Marshal_string ''http.url'' @ '':'', at_jsonDef := jsonAttributeDefinition sampleAttribute\<rparr>"


end
