(* ===== verification/ConsoleText.thy ===== *)
theory ConsoleText
  imports AttributeTexts BaseAPI
begin

section \<open>Texts of the console format\<close>

text \<open>
  Models \<open>xopconsole/builder.go\<close> and the methods of \<open>Builder\<close> in \<open>xopconsole/console.go\<close>: what each
  of them appends to its byte slice. A method is the list of what it appends, in order: an \<open>Own\<close> text
  is one call of \<open>append\<close>, \<open>Pieces\<close> is a text that a function of the standard library (or the
  escaping loop) appends in parts of its own choice. The parts matter only where slices share memory
  (\<open>ConsoleMemory\<close>).
\<close>

datatype chunk = Own string | Pieces string

fun chunk_text :: "chunk \<Rightarrow> string" where
  "chunk_text (Own s) = s"
| "chunk_text (Pieces s) = s"

definition text_of :: "chunk list \<Rightarrow> string" where
  "text_of cs = concat (map chunk_text cs)"

lemma text_of_simps [simp]:
  "text_of [] = []" "text_of (c # cs) = chunk_text c @ text_of cs" "text_of (cs @ ds) = text_of cs @ text_of ds"
  by (simp_all add: text_of_def)

text \<open>
  What the console logger is run with: the standard library's texts, \<open>strconv.AppendQuote\<close>, the
  order of a map, which writes fail, the spare capacity of a new array, and how a text of
  the library is cut when so much room is left.
\<close>

record 'm cenv =
  ce_texts :: "'m jtexts"
  ce_quote :: "string \<Rightarrow> string"
  ce_order :: "nat \<Rightarrow> string list \<Rightarrow> string list"
  ce_fails :: "nat \<Rightarrow> bool"
  ce_spare :: "nat \<Rightarrow> nat"
  ce_pieces :: "nat \<Rightarrow> string \<Rightarrow> string list"

subsection \<open>Values\<close>

definition console_string :: "'m cenv \<Rightarrow> string \<Rightarrow> chunk" where
  "console_string env s = (if safeRE s \<and> s \<noteq> ''t'' \<and> s \<noteq> ''f'' then Own s else Pieces (ce_quote env s))"

lemma console_string_appends: "AddConsoleString (ce_quote env) s b = appendB (chunk_text (console_string env s)) b"
  by (simp add: AddConsoleString_def console_string_def)

definition json_string :: "string \<Rightarrow> chunk list" where
  "json_string s = [Own [CHR 0x22], Pieces (escapedBody s), Own [CHR 0x22]]"

lemma json_string_appends: "jb_B (AddString s b) = jb_B b @ text_of (json_string s)"
  by (simp add: json_string_def)

definition cb_AnyCommon :: "'m cenv \<Rightarrow> 'm ModelArg \<Rightarrow> chunk list" where
  "cb_AnyCommon env v =
     (let v = ModelArg_Encode (jt_ms (ce_texts env)) v in
      [Own ''('', Pieces (FormatInt (int (length (ma_Encoded v))) 10), Own '')'', Own (ma_Encoded v),
       Own (Encoding_ToString (ma_Encoding v)), Own ''/''] @ json_string (ma_ModelType v))"

definition cb_AttributeAny :: "'m cenv \<Rightarrow> 'm ModelArg \<Rightarrow> chunk list" where
  "cb_AttributeAny env v = cb_AnyCommon env v"

definition cb_AttributeEnum :: "'m cenv \<Rightarrow> enumValue \<Rightarrow> chunk list" where
  "cb_AttributeEnum env v = [Pieces (FormatInt (sint (ev_value v)) 10), Own ''/'', console_string env (ev_str v)]"

text \<open>The bytes of \<open>t.Format(time.RFC3339Nano)\<close>.\<close>

definition cb_TimeFormatter :: "'m cenv \<Rightarrow> int \<Rightarrow> nat \<Rightarrow> chunk" where
  "cb_TimeFormatter env t rep = Own (jt_time (ce_texts env) t rep)"

definition cb_AttributeTime :: "'m cenv \<Rightarrow> int \<Rightarrow> nat \<Rightarrow> chunk list" where
  "cb_AttributeTime env t rep = [Own [CHR 0x22], cb_TimeFormatter env t rep, Own [CHR 0x22]]"

definition cb_AttributeBool :: "bool \<Rightarrow> chunk list" where
  "cb_AttributeBool v = [Own (if v then ''t'' else ''f'')]"

definition cb_AttributeInt64 :: "i64 \<Rightarrow> chunk list" where
  "cb_AttributeInt64 v = [Pieces (FormatInt (sint v) 10)]"

definition cb_AttributeString :: "string \<Rightarrow> chunk list" where
  "cb_AttributeString v = json_string v"

definition cb_AttributeFloat64 :: "'m cenv \<Rightarrow> u64 \<Rightarrow> chunk list" where
  "cb_AttributeFloat64 env f = [Pieces (jt_float (ce_texts env) f)]"

definition cb_AttributeDuration :: "'m cenv \<Rightarrow> i64 \<Rightarrow> chunk list" where
  "cb_AttributeDuration env v = [Own (jt_duration (ce_texts env) v)]"

definition cb_AttributeLink :: "Trace \<Rightarrow> chunk list" where
  "cb_AttributeLink v = [Own [CHR 0x22], Own (Trace_String v), Own [CHR 0x22]]"

subsection \<open>The data of a line\<close>

definition cb_addKey :: "'m cenv \<Rightarrow> string \<Rightarrow> chunk list" where
  "cb_addKey env k = [Own '' '', console_string env k, Own ''='']"

definition cb_addType :: "string \<Rightarrow> chunk list" where
  "cb_addType t = [Own ''('', Own t, Own '')'']"

text \<open>
  \<open>DataTypeToString[t]\<close>: the empty text for a type that the map does not have. \<open>StringDataType\<close> is
  9, \<open>IntDataType\<close> is 8.
\<close>

definition abbr :: "int \<Rightarrow> string" where
  "abbr t = (case mapLiteral DataTypeToString t of Some s \<Rightarrow> s | None \<Rightarrow> [])"

definition cb_Duration :: "'m cenv \<Rightarrow> string \<Rightarrow> int \<Rightarrow> chunk list" where
  "cb_Duration env k v = cb_addKey env k @ [Own (jt_duration (ce_texts env) (word_of_int v))] @ cb_addType ''dur''"

definition cb_Float64 :: "'m cenv \<Rightarrow> string \<Rightarrow> u64 \<Rightarrow> int \<Rightarrow> chunk list" where
  "cb_Float64 env k v t = cb_addKey env k @ [Pieces (jt_float (ce_texts env) v)] @ cb_addType (abbr t)"

definition cb_String :: "'m cenv \<Rightarrow> string \<Rightarrow> string \<Rightarrow> int \<Rightarrow> chunk list" where
  "cb_String env k v t = cb_addKey env k @ [console_string env v] @ (if t \<noteq> 9 then cb_addType (abbr t) else [])"

definition cb_Int64 :: "'m cenv \<Rightarrow> string \<Rightarrow> i64 \<Rightarrow> int \<Rightarrow> chunk list" where
  "cb_Int64 env k v t = cb_addKey env k @ [Pieces (FormatInt (sint v) 10)] @ (if t \<noteq> 8 then cb_addType (abbr t) else [])"

definition cb_Uint64 :: "'m cenv \<Rightarrow> string \<Rightarrow> u64 \<Rightarrow> int \<Rightarrow> chunk list" where
  "cb_Uint64 env k v t = cb_addKey env k @ [Pieces (FormatInt (uint v) 10)] @ cb_addType (abbr t)"

definition cb_Bool :: "'m cenv \<Rightarrow> string \<Rightarrow> bool \<Rightarrow> chunk list" where
  "cb_Bool env k v = cb_addKey env k @ [Own (if v then ''t'' else ''f'')] @ cb_addType ''bool''"

definition cb_Time :: "'m cenv \<Rightarrow> string \<Rightarrow> int \<Rightarrow> nat \<Rightarrow> chunk list" where
  "cb_Time env k t rep = cb_addKey env k @ [Pieces (jt_time (ce_texts env) t rep)] @ cb_addType ''time''"

definition cb_Enum :: "'m cenv \<Rightarrow> Attribute \<Rightarrow> enumValue \<Rightarrow> chunk list" where
  "cb_Enum env k v = [Own '' '', Own (at_consoleKey k)] @ cb_AttributeEnum env v"

definition cb_Any :: "'m cenv \<Rightarrow> string \<Rightarrow> 'm ModelArg \<Rightarrow> chunk list" where
  "cb_Any env k v = cb_addKey env k @ cb_AnyCommon env v"

fun console_build :: "'m cenv \<Rightarrow> 'm build_call \<Rightarrow> chunk list" where
  "console_build env (BEnum k v) = cb_Enum env k v"
| "console_build env (BFloat64 k v t) = cb_Float64 env k v t"
| "console_build env (BInt64 k v t) = cb_Int64 env k v t"
| "console_build env (BString k v t) = cb_String env k v t"
| "console_build env (BUint64 k v t) = cb_Uint64 env k v t"
| "console_build env (BAny k v) = cb_Any env k v"
| "console_build env (BBool k v) = cb_Bool env k v"
| "console_build env (BDuration k v) = cb_Duration env k v"
| "console_build env (BTime k t rep) = cb_Time env k t rep"

definition build_text :: "'m cenv \<Rightarrow> 'm build_call \<Rightarrow> string" where
  "build_text env c = text_of (console_build env c)"

text \<open>Every piece of data starts with a space, so no data is the empty text.\<close>

lemma build_text_space: "\<exists>s. build_text env c = CHR '' '' # s"
  by (cases c) (simp_all add: build_text_def cb_Enum_def cb_Float64_def cb_Int64_def cb_String_def cb_Uint64_def cb_Any_def
      cb_Bool_def cb_Duration_def cb_Time_def cb_addKey_def)

definition data_text :: "'m cenv \<Rightarrow> 'm build_call list \<Rightarrow> string" where
  "data_text env cs = concat (map (build_text env) cs)"

lemma data_text_simps [simp]:
  "data_text env [] = []" "data_text env (c # cs) = build_text env c @ data_text env cs"
  "data_text env (cs @ ds) = data_text env cs @ data_text env ds"
  by (simp_all add: data_text_def)

lemma data_text_empty [simp]: "data_text env cs = [] \<longleftrightarrow> cs = []"
  using build_text_space [of env "hd cs"] by (cases cs) auto

end
