(* ===== verification/ConsoleAttributes.thy ===== *)
theory ConsoleAttributes
  imports ConsoleText
begin

section \<open>Span attributes of the console logger\<close>

text \<open>
  Models \<open>xopconsole/attributes.go\<close>: the attribute builder of a span, which keeps the text
  \<open>key=value\<close> of every single attribute and \<open>key=v1,v2\<close> of every multiple one. The structs its maps point
  to, with their buffers, belong to one key each, so the maps hold the structs and the slices are
  texts. What the calls leave behind is stated by \<open>console_holds\<close>.
\<close>

subsection \<open>The builder\<close>

record csingle =
  cg_Changed :: bool
  cg_Type :: int
  cg_KeyValue :: string
  cg_keyLen :: nat

record cmulti =
  cm_Changed :: bool
  cm_Type :: int
  cm_Distinct :: "string list option"
  cm_B :: string

record cattributes =
  ca_singleMap :: "(string \<times> csingle) list"
  ca_multiMap :: "(string \<times> cmulti) list"
  ca_anyChanged :: bool
  ca_request :: nat

definition CAttributes_Init :: "nat \<Rightarrow> cattributes" where
  "CAttributes_Init request = \<lparr>ca_singleMap = [], ca_multiMap = [], ca_anyChanged = False, ca_request = request\<rparr>"

definition cmulti_init :: cmulti where
  "cmulti_init = \<lparr>cm_Changed = False, cm_Type = 0, cm_Distinct = None, cm_B = []\<rparr>"

definition console_addMulti :: "string \<Rightarrow> cattributes \<Rightarrow> cmulti \<times> bool" where
  "console_addMulti k a =
     (let (m, ok) = (case map_of (ca_multiMap a) k of Some m \<Rightarrow> (m, True) | None \<Rightarrow> (cmulti_init, False)) in
      (m\<lparr>cm_Changed := True\<rparr>, ok))"

definition csingle_init :: "Attribute \<Rightarrow> csingle" where
  "csingle_init k = \<lparr>cg_Changed = True, cg_Type = 0, cg_KeyValue = at_consoleKey k, cg_keyLen = 0\<rparr>"

definition console_addSingle :: "Attribute \<Rightarrow> cattributes \<Rightarrow> csingle \<times> bool" where
  "console_addSingle k a =
     (let (s, ok) = (case map_of (ca_singleMap a) (at_key k) of Some s \<Rightarrow> (s, True) | None \<Rightarrow> (csingle_init k, False)) in
      (s\<lparr>cg_Changed := True\<rparr>, ok))"

text \<open>
  The two halves that the generated methods share; \<open>v\<close> is the text that \<open>addAttribute\<close> appends. The
  second result says that the key was not there before: that is when \<open>defineKey\<close> is called.
\<close>

definition console_put_multi :: "Attribute \<Rightarrow> int \<Rightarrow> string \<Rightarrow> cattributes \<Rightarrow> cattributes \<times> bool" where
  "console_put_multi k t v a =
     (let (m, preExisting) = console_addMulti (at_key k) a;
          m = (if \<not> preExisting then m\<lparr>cm_B := cm_B m @ at_consoleKey k\<rparr> else m);
          m = m\<lparr>cm_Type := t\<rparr>;
          lenAfterKey = length (cm_B m);
          m = (if preExisting then m\<lparr>cm_B := cm_B m @ '',''\<rparr> else m);
          lenBeforeData = length (cm_B m);
          m = m\<lparr>cm_B := cm_B m @ v\<rparr>;
          m = (if mk_Distinct (at_properties k) then
                 (let sk = drop lenBeforeData (cm_B m) in
                  case cm_Distinct m of
                    None \<Rightarrow> m\<lparr>cm_Distinct := Some [sk]\<rparr>
                  | Some seen \<Rightarrow>
                      if sk \<in> set seen then
                        (let B = take lenAfterKey (cm_B m)
                         in m\<lparr>cm_B := (if last B = CHR '','' then butlast B else B)\<rparr>)
                      else m\<lparr>cm_Distinct := Some (seen @ [sk])\<rparr>)
               else m)
      in (a\<lparr>ca_multiMap := aput (at_key k) m (ca_multiMap a)\<rparr>, \<not> preExisting))"

definition console_put_single :: "Attribute \<Rightarrow> int \<Rightarrow> string \<Rightarrow> cattributes \<Rightarrow> cattributes \<times> bool" where
  "console_put_single k t v a =
     (let (s, preExisting) = console_addSingle k a;
          put = (\<lambda>s. (a\<lparr>ca_singleMap := aput (at_key k) s (ca_singleMap a)\<rparr>, \<not> preExisting)) in
      if preExisting \<and> mk_Locked (at_properties k) then put s
      else let s = (if preExisting then s\<lparr>cg_KeyValue := take (cg_keyLen s) (cg_KeyValue s)\<rparr>
                    else s\<lparr>cg_keyLen := length (cg_KeyValue s)\<rparr>)
           in put (s\<lparr>cg_Type := t, cg_KeyValue := cg_KeyValue s @ v\<rparr>))"

definition console_put :: "Attribute \<Rightarrow> int \<Rightarrow> string \<Rightarrow> cattributes \<Rightarrow> cattributes \<times> bool" where
  "console_put k t v a =
     (let a = a\<lparr>ca_anyChanged := True\<rparr> in
      if mk_Multiple (at_properties k) then console_put_multi k t v a else console_put_single k t v a)"

definition CAttributes_MetadataAny :: "'m cenv \<Rightarrow> Attribute \<Rightarrow> 'm ModelArg \<Rightarrow> cattributes \<Rightarrow> cattributes \<times> bool" where
  "CAttributes_MetadataAny env k v = console_put k 11 (text_of (cb_AttributeAny env v))"

definition CAttributes_MetadataBool :: "Attribute \<Rightarrow> bool \<Rightarrow> cattributes \<Rightarrow> cattributes \<times> bool" where
  "CAttributes_MetadataBool k v = console_put k 1 (text_of (cb_AttributeBool v))"

definition CAttributes_MetadataEnum :: "'m cenv \<Rightarrow> Attribute \<Rightarrow> enumValue \<Rightarrow> cattributes \<Rightarrow> cattributes \<times> bool" where
  "CAttributes_MetadataEnum env k v = console_put k 14 (text_of (cb_AttributeEnum env v))"

definition CAttributes_MetadataFloat64 :: "'m cenv \<Rightarrow> Attribute \<Rightarrow> u64 \<Rightarrow> cattributes \<Rightarrow> cattributes \<times> bool" where
  "CAttributes_MetadataFloat64 env k v = console_put k 2 (text_of (cb_AttributeFloat64 env v))"

definition CAttributes_MetadataInt64 :: "'m cenv \<Rightarrow> Attribute \<Rightarrow> i64 \<Rightarrow> cattributes \<Rightarrow> cattributes \<times> bool" where
  "CAttributes_MetadataInt64 env k v =
     console_put k 4 (text_of (if at_subType k = 13 then cb_AttributeDuration env v else cb_AttributeInt64 v))"

definition CAttributes_MetadataLink :: "Attribute \<Rightarrow> Trace \<Rightarrow> cattributes \<Rightarrow> cattributes \<times> bool" where
  "CAttributes_MetadataLink k v = console_put k 10 (text_of (cb_AttributeLink v))"

definition CAttributes_MetadataString :: "Attribute \<Rightarrow> string \<Rightarrow> cattributes \<Rightarrow> cattributes \<times> bool" where
  "CAttributes_MetadataString k v = console_put k 9 (text_of (cb_AttributeString v))"

definition CAttributes_MetadataTime :: "'m cenv \<Rightarrow> Attribute \<Rightarrow> int \<Rightarrow> nat \<Rightarrow> cattributes \<Rightarrow> cattributes \<times> bool" where
  "CAttributes_MetadataTime env k t rep = console_put k 12 (text_of (cb_AttributeTime env t rep))"

fun CAttributes_call :: "'m cenv \<Rightarrow> Attribute \<times> 'm metavalue \<Rightarrow> cattributes \<Rightarrow> cattributes \<times> bool" where
  "CAttributes_call env (k, MAny v) a = CAttributes_MetadataAny env k v a"
| "CAttributes_call env (k, MBool v) a = CAttributes_MetadataBool k v a"
| "CAttributes_call env (k, MEnum v) a = CAttributes_MetadataEnum env k v a"
| "CAttributes_call env (k, MFloat64 v) a = CAttributes_MetadataFloat64 env k v a"
| "CAttributes_call env (k, MInt64 v) a = CAttributes_MetadataInt64 env k v a"
| "CAttributes_call env (k, MLink v) a = CAttributes_MetadataLink k v a"
| "CAttributes_call env (k, MString v) a = CAttributes_MetadataString k v a"
| "CAttributes_call env (k, MTime t rep) a = CAttributes_MetadataTime env k t rep a"

subsection \<open>Append\<close>

text \<open>
  The two loops over the maps, whose order is an argument: the entries that are due are written, each after
  a space, and marked as unchanged.
\<close>

fun append_entries ::
    "('v \<Rightarrow> bool) \<Rightarrow> ('v \<Rightarrow> string) \<Rightarrow> ('v \<Rightarrow> 'v) \<Rightarrow> string list \<Rightarrow> string \<times> (string \<times> 'v) list \<Rightarrow> string \<times> (string \<times> 'v) list" where
  "append_entries due text mark [] st = st"
| "append_entries due text mark (k # ks) (b, ms) =
     append_entries due text mark ks
       (case map_of ms k of
          None \<Rightarrow> (b, ms)
        | Some m \<Rightarrow> if due m then (b @ '' '' @ text m, aput k (mark m) ms) else (b, ms))"

definition console_append_multis ::
    "bool \<Rightarrow> string list \<Rightarrow> string \<times> (string \<times> cmulti) list \<Rightarrow> string \<times> (string \<times> cmulti) list" where
  "console_append_multis onlyChanged =
     append_entries (\<lambda>m. cm_Changed m \<or> \<not> onlyChanged) cm_B (\<lambda>m. m\<lparr>cm_Changed := False\<rparr>)"

definition console_append_singles ::
    "bool \<Rightarrow> string list \<Rightarrow> string \<times> (string \<times> csingle) list \<Rightarrow> string \<times> (string \<times> csingle) list" where
  "console_append_singles onlyChanged =
     append_entries (\<lambda>s. cg_Changed s \<or> \<not> onlyChanged) cg_KeyValue (\<lambda>s. s\<lparr>cg_Changed := False\<rparr>)"

definition CAttributes_Append :: "(string list \<Rightarrow> string list) \<Rightarrow> bool \<Rightarrow> string \<Rightarrow> cattributes \<Rightarrow> string \<times> cattributes" where
  "CAttributes_Append order onlyChanged b a =
     (if (\<not> ca_anyChanged a \<and> onlyChanged) \<or> (ca_multiMap a = [] \<and> ca_singleMap a = []) then (b, a)
      else
        let (b, ms) = console_append_multis onlyChanged (order (map fst (ca_multiMap a))) (b, ca_multiMap a);
            (b, ss) = console_append_singles onlyChanged (order (map fst (ca_singleMap a))) (b, ca_singleMap a)
        in (b, a\<lparr>ca_singleMap := ss, ca_multiMap := ms, ca_anyChanged := False\<rparr>))"

subsection \<open>What the builder holds\<close>

text \<open>The text of a value of the attribute \<open>k\<close>: durations are integers whose attribute says so.\<close>

fun cb_metavalue :: "'m cenv \<Rightarrow> Attribute \<Rightarrow> 'm metavalue \<Rightarrow> chunk list" where
  "cb_metavalue env k (MAny v) = cb_AttributeAny env v"
| "cb_metavalue env k (MBool v) = cb_AttributeBool v"
| "cb_metavalue env k (MEnum v) = cb_AttributeEnum env v"
| "cb_metavalue env k (MFloat64 v) = cb_AttributeFloat64 env v"
| "cb_metavalue env k (MInt64 v) = (if at_subType k = 13 then cb_AttributeDuration env v else cb_AttributeInt64 v)"
| "cb_metavalue env k (MLink v) = cb_AttributeLink v"
| "cb_metavalue env k (MString v) = cb_AttributeString v"
| "cb_metavalue env k (MTime t rep) = cb_AttributeTime env t rep"

definition metavalue_ctext :: "'m cenv \<Rightarrow> Attribute \<Rightarrow> 'm metavalue \<Rightarrow> string" where
  "metavalue_ctext env k v = text_of (cb_metavalue env k v)"

lemma CAttributes_call_put:
  "CAttributes_call env (k, v) a = console_put k (metavalue_type v False) (metavalue_ctext env k v) a"
  by (cases v) (simp_all add: metavalue_ctext_def CAttributes_MetadataAny_def CAttributes_MetadataBool_def
      CAttributes_MetadataEnum_def CAttributes_MetadataFloat64_def CAttributes_MetadataInt64_def
      CAttributes_MetadataLink_def CAttributes_MetadataString_def CAttributes_MetadataTime_def)

text \<open>What two attributes with one key must agree in; those of a registry do.\<close>

definition same_attribute :: "Attribute \<Rightarrow> Attribute \<Rightarrow> bool" where
  "same_attribute a b \<longleftrightarrow> at_properties a = at_properties b \<and> at_consoleKey a = at_consoleKey b \<and> at_subType a = at_subType b"

definition console_consistent :: "(Attribute \<times> 'm metavalue) list \<Rightarrow> bool" where
  "console_consistent cs \<longleftrightarrow> (\<forall>c \<in> set cs. \<forall>d \<in> set cs. at_key (fst c) = at_key (fst d) \<longrightarrow> same_attribute (fst c) (fst d))"

lemma metavalue_ctext_same: "same_attribute a b \<Longrightarrow> metavalue_ctext env a v = metavalue_ctext env b v"
  by (cases v) (simp_all add: metavalue_ctext_def same_attribute_def)

text \<open>The texts of values that are kept under a key.\<close>

definition kept_ctexts :: "'m cenv \<Rightarrow> Attribute \<Rightarrow> 'm metavalue list \<Rightarrow> string list" where
  "kept_ctexts env a vs =
     (let ts = map (metavalue_ctext env a) vs; p = at_properties a in
      if mk_Multiple p then (if mk_Distinct p then firsts_by id ts else ts)
      else [if mk_Locked p then hd ts else last ts])"

lemma kept_ctexts_same: "same_attribute a b \<Longrightarrow> kept_ctexts env a vs = kept_ctexts env b vs"
  using metavalue_ctext_same [of a b env] by (simp add: kept_ctexts_def same_attribute_def fun_eq_iff cong: map_cong)

definition console_holds :: "'m cenv \<Rightarrow> (Attribute \<times> 'm metavalue) list \<Rightarrow> cattributes \<Rightarrow> string \<Rightarrow> bool" where
  "console_holds env cs a k \<longleftrightarrow>
     (let vs = key_values k cs; b = key_attribute k cs; ts = kept_ctexts env b vs in
      if vs = [] then map_of (ca_singleMap a) k = None \<and> map_of (ca_multiMap a) k = None
      else if mk_Multiple (at_properties b) then
        map_of (ca_singleMap a) k = None \<and>
        (\<exists>m. map_of (ca_multiMap a) k = Some m \<and> cm_B m = at_consoleKey b @ commas ts \<and>
           (mk_Distinct (at_properties b) \<longrightarrow> cm_Distinct m = Some ts))
      else map_of (ca_multiMap a) k = None \<and>
        (\<exists>s. map_of (ca_singleMap a) k = Some s \<and> cg_KeyValue s = at_consoleKey b @ hd ts \<and>
           cg_keyLen s = length (at_consoleKey b)))"

text \<open>No text of a value may end with a comma: the builder drops a comma that it did not write.\<close>

definition ctexts_closed :: "'m cenv \<Rightarrow> bool" where
  "ctexts_closed env \<longleftrightarrow> (\<forall>f. jt_float (ce_texts env) f \<noteq> [] \<and> last (jt_float (ce_texts env) f) \<noteq> CHR '','') \<and>
     (\<forall>v. jt_duration (ce_texts env) v \<noteq> [] \<and> last (jt_duration (ce_texts env) v) \<noteq> CHR '','') \<and>
     (\<forall>s. ce_quote env s \<noteq> [] \<and> last (ce_quote env s) \<noteq> CHR '','')"

lemma FormatInt_last: "FormatInt i 10 \<noteq> [] \<and> last (FormatInt i 10) \<noteq> CHR '',''"
proof -
  have n: "formatNat 10 n \<noteq> [] \<and> last (formatNat 10 n) \<noteq> CHR '',''" for n
  proof -
    have "isDigit (last (formatNat 10 n))"
      using formatNat_digits [of n] formatNat_nonempty [of 10 n] last_in_set by (simp add: list_all_iff)
    then show ?thesis using formatNat_nonempty [of 10 n] by (auto simp: isDigit_def)
  qed
  show ?thesis using n by (simp add: FormatInt_def)
qed

lemma metavalue_ctext_closed:
  assumes "ctexts_closed env"
  shows "metavalue_ctext env k v \<noteq> [] \<and> last (metavalue_ctext env k v) \<noteq> CHR '',''"
proof -
  have comma: "\<not> isSafeEdge (CHR '','')" by code_simp
  have str: "chunk_text (console_string env s) \<noteq> [] \<and> last (chunk_text (console_string env s)) \<noteq> CHR '',''" for s
  proof (cases "safeRE s \<and> s \<noteq> ''t'' \<and> s \<noteq> ''f''")
    case True
    then have "s \<noteq> [] \<and> isSafeEdge (last s)" by (simp add: safeRE_def)
    with comma True show ?thesis by (auto simp: console_string_def)
  next
    case False
    with assms show ?thesis by (simp only: console_string_def if_False ctexts_closed_def chunk_text.simps simp_thms)
  qed
  show ?thesis
  proof (cases v)
    case (MEnum e)
    with str [of "ev_str e"] show ?thesis by (simp add: metavalue_ctext_def cb_AttributeEnum_def)
  qed (use assms FormatInt_last in \<open>simp_all add: metavalue_ctext_def cb_AttributeAny_def cb_AnyCommon_def json_string_def
        Let_def cb_AttributeBool_def cb_AttributeFloat64_def cb_AttributeDuration_def cb_AttributeInt64_def cb_AttributeLink_def
        cb_AttributeString_def cb_AttributeTime_def cb_TimeFormatter_def ctexts_closed_def\<close>)
qed

lemma kept_ctexts_snoc:
  "vs \<noteq> [] \<Longrightarrow> kept_ctexts env a (vs @ [v]) =
     (if mk_Multiple (at_properties a) then
        (if mk_Distinct (at_properties a) \<and> metavalue_ctext env a v \<in> set (kept_ctexts env a vs) then kept_ctexts env a vs
         else kept_ctexts env a vs @ [metavalue_ctext env a v])
      else [if mk_Locked (at_properties a) then hd (kept_ctexts env a vs) else metavalue_ctext env a v])"
  using firsts_by_image [of id "map (metavalue_ctext env a) vs"]
  by (simp add: kept_ctexts_def Let_def firsts_by_snoc hd_append hd_map)

lemma kept_ctexts_closed:
  assumes "ctexts_closed env" "vs \<noteq> []"
  shows "kept_ctexts env a vs \<noteq> [] \<and> (\<forall>t \<in> set (kept_ctexts env a vs). t \<noteq> [] \<and> last t \<noteq> CHR '','')"
proof -
  have sub: "set (kept_ctexts env a vs) \<subseteq> metavalue_ctext env a ` set vs"
    using firsts_by_image [of id "map (metavalue_ctext env a) vs"] assms(2)
    by (auto simp: kept_ctexts_def Let_def hd_map last_map)
  moreover have "kept_ctexts env a vs \<noteq> []" using assms(2) by (cases vs) (simp_all add: kept_ctexts_def Let_def)
  moreover have "t \<noteq> [] \<and> last t \<noteq> CHR '',''" if "t \<in> metavalue_ctext env a ` set vs" for t
    using that metavalue_ctext_closed [OF assms(1), of a] by (elim imageE) simp
  ultimately show ?thesis by (meson subsetD)
qed

subsection \<open>Every call keeps it\<close>

lemma console_put_other:
  assumes "k \<noteq> at_key a"
  shows "map_of (ca_singleMap (fst (console_put a t v b))) k = map_of (ca_singleMap b) k"
    "map_of (ca_multiMap (fst (console_put a t v b))) k = map_of (ca_multiMap b) k"
  using assms by (simp_all add: console_put_def console_put_single_def console_put_multi_def Let_def split: prod.split)

lemma console_put_single_eq:
  "console_put_single a t v b =
     (case map_of (ca_singleMap b) (at_key a) of
        None \<Rightarrow> (b\<lparr>ca_singleMap := aput (at_key a) \<lparr>cg_Changed = True, cg_Type = t, cg_KeyValue = at_consoleKey a @ v,
            cg_keyLen = length (at_consoleKey a)\<rparr> (ca_singleMap b)\<rparr>, True)
      | Some s \<Rightarrow> (b\<lparr>ca_singleMap := aput (at_key a)
            (if mk_Locked (at_properties a) then s\<lparr>cg_Changed := True\<rparr>
             else s\<lparr>cg_Changed := True, cg_Type := t, cg_KeyValue := take (cg_keyLen s) (cg_KeyValue s) @ v\<rparr>) (ca_singleMap b)\<rparr>, False))"
  by (simp add: console_put_single_def console_addSingle_def csingle_init_def split: option.split)

lemma console_put_multi_new:
  "map_of (ca_multiMap b) (at_key a) = None \<Longrightarrow>
   console_put_multi a t v b = (b\<lparr>ca_multiMap := aput (at_key a) \<lparr>cm_Changed = True, cm_Type = t,
     cm_Distinct = (if mk_Distinct (at_properties a) then Some [v] else None), cm_B = at_consoleKey a @ v\<rparr> (ca_multiMap b)\<rparr>, True)"
  by (simp add: console_put_multi_def console_addMulti_def cmulti_init_def Let_def)

lemma console_put_multi_old:
  assumes "map_of (ca_multiMap b) (at_key a) = Some m" "cm_B m = p @ commas ts" "ts \<noteq> []"
    "\<forall>t \<in> set ts. t \<noteq> [] \<and> last t \<noteq> CHR '',''" "mk_Distinct (at_properties a) \<longrightarrow> cm_Distinct m = Some ts"
  shows "\<exists>m'. console_put_multi a t v b = (b\<lparr>ca_multiMap := aput (at_key a) m' (ca_multiMap b)\<rparr>, False) \<and>
    cm_B m' = p @ commas (if mk_Distinct (at_properties a) \<and> v \<in> set ts then ts else ts @ [v]) \<and>
    (mk_Distinct (at_properties a) \<longrightarrow> cm_Distinct m' = Some (if v \<in> set ts then ts else ts @ [v]))"
proof -
  have "commas ts \<noteq> [] \<and> last (commas ts) \<noteq> CHR '',''"
    using commas_last [of ts] assms(3,4) by (metis last_in_set)
  then have "last (cm_B m) \<noteq> CHR '',''" "cm_B m \<noteq> []" using assms(2) by auto
  with assms show ?thesis
    by (cases "mk_Distinct (at_properties a)"; cases "v \<in> set ts";
        simp add: console_put_multi_def console_addMulti_def Let_def commas_snoc)
      (rule exI, rule conjI, rule refl, simp)+
qed

lemma console_holds_call:
  assumes cl: "ctexts_closed env" and h: "console_holds env cs b k" and c: "console_consistent (cs @ [(a, v)])"
  shows "console_holds env (cs @ [(a, v)]) (fst (CAttributes_call env (a, v) b)) k"
proof (cases "at_key a = k")
  case False
  then have "key_values k (cs @ [(a, v)]) = key_values k cs" "key_attribute k (cs @ [(a, v)]) = key_attribute k cs"
    by (simp_all add: key_attribute_def)
  with h False show ?thesis by (simp add: console_holds_def Let_def CAttributes_call_put console_put_other)
next
  case True
  let ?vs = "key_values k cs" and ?b = "key_attribute k (cs @ [(a, v)])" and ?t = "metavalue_ctext env a v"
  let ?ts = "kept_ctexts env a ?vs"
  have vs: "key_values k (cs @ [(a, v)]) = ?vs @ [v]" using True by simp
  show ?thesis
  proof (cases "?vs = []")
    case empty: True
    then have b: "?b = a" using key_attribute_values [of k cs a v] True by simp
    from h empty have n: "map_of (ca_singleMap b) (at_key a) = None" "map_of (ca_multiMap b) (at_key a) = None"
      using True by (simp_all add: console_holds_def Let_def)
    show ?thesis
      unfolding console_holds_def Let_def vs b
      using empty n True
      by (simp add: CAttributes_call_put console_put_def console_put_single_eq console_put_multi_new kept_ctexts_def Let_def)
  next
    case False
    obtain w where w: "(key_attribute k cs, w) \<in> set (cs @ [(a, v)])" using key_attribute_in(1) [OF False] by auto
    have b: "?b = key_attribute k cs" using False key_attribute_values [of k cs a v] by simp
    have "(a, v) \<in> set (cs @ [(a, v)])" by simp
    with w c True key_attribute_in(2) [OF False] have same: "same_attribute (key_attribute k cs) a"
      unfolding console_consistent_def by (metis fst_conv)
    then have eq: "at_properties (key_attribute k cs) = at_properties a" "at_consoleKey (key_attribute k cs) = at_consoleKey a"
      by (simp_all add: same_attribute_def)
    note ts = kept_ctexts_same [OF same, of env]
    have ks: "kept_ctexts env a (?vs @ [v]) =
      (if mk_Multiple (at_properties a) then (if mk_Distinct (at_properties a) \<and> ?t \<in> set ?ts then ?ts else ?ts @ [?t])
       else [if mk_Locked (at_properties a) then hd ?ts else ?t])"
      by (rule kept_ctexts_snoc [OF False])
    show ?thesis
    proof (cases "mk_Multiple (at_properties a)")
      case single: False
      with h False obtain s where s: "map_of (ca_singleMap b) k = Some s" "cg_KeyValue s = at_consoleKey a @ hd ?ts"
        "cg_keyLen s = length (at_consoleKey a)" "map_of (ca_multiMap b) k = None"
        by (auto simp: console_holds_def Let_def eq ts)
      with single True show ?thesis
        unfolding console_holds_def Let_def vs b ts eq ks
        by (simp add: CAttributes_call_put console_put_def console_put_single_eq)
    next
      case multi: True
      with h False obtain m where m: "map_of (ca_multiMap b) k = Some m" "cm_B m = at_consoleKey a @ commas ?ts"
        "mk_Distinct (at_properties a) \<longrightarrow> cm_Distinct m = Some ?ts" "map_of (ca_singleMap b) k = None"
        by (auto simp: console_holds_def Let_def eq ts)
      from kept_ctexts_closed [OF cl False, of a] m(1) True
        console_put_multi_old [where b = "b\<lparr>ca_anyChanged := True\<rparr>" and a = a and v = ?t, OF _ m(2) _ _ m(3)]
      obtain m' where "console_put_multi a (metavalue_type v False) ?t (b\<lparr>ca_anyChanged := True\<rparr>) =
          (b\<lparr>ca_anyChanged := True, ca_multiMap := aput (at_key a) m' (ca_multiMap b)\<rparr>, False)"
        "cm_B m' = at_consoleKey a @ commas (if mk_Distinct (at_properties a) \<and> ?t \<in> set ?ts then ?ts else ?ts @ [?t])"
        "mk_Distinct (at_properties a) \<longrightarrow> cm_Distinct m' = Some (if ?t \<in> set ?ts then ?ts else ?ts @ [?t])"
        by auto
      with multi True m(4) show ?thesis
        unfolding console_holds_def Let_def vs b ts eq ks
        by (simp add: CAttributes_call_put console_put_def)
    qed
  qed
qed

text \<open>The key is new to the builder exactly when no call used it: that is when it is defined.\<close>

lemma CAttributes_call_new:
  assumes h: "console_holds env cs b (at_key a)" and c: "console_consistent (cs @ [(a, v)])"
  shows "snd (CAttributes_call env (a, v) b) \<longleftrightarrow> key_values (at_key a) cs = []"
proof (cases "key_values (at_key a) cs = []")
  case True
  with h show ?thesis
    by (simp add: console_holds_def Let_def CAttributes_call_put console_put_def console_put_single_eq console_put_multi_new)
next
  case False
  obtain w where w: "(key_attribute (at_key a) cs, w) \<in> set (cs @ [(a, v)])" using key_attribute_in(1) [OF False] by auto
  have "(a, v) \<in> set (cs @ [(a, v)])" by simp
  with w c key_attribute_in(2) [OF False] have "at_properties (key_attribute (at_key a) cs) = at_properties a"
    unfolding console_consistent_def same_attribute_def by (metis fst_conv)
  with h False show ?thesis
    by (auto simp: console_holds_def Let_def CAttributes_call_put console_put_def console_put_single_eq console_put_multi_def
        console_addMulti_def split: if_splits prod.split option.split)
qed

subsection \<open>What \<open>Append\<close> writes\<close>

definition cattributes_hold :: "'m cenv \<Rightarrow> (Attribute \<times> 'm metavalue) list \<Rightarrow> cattributes \<Rightarrow> bool" where
  "cattributes_hold env cs a \<longleftrightarrow> map fst (ca_multiMap a) = keys_of True cs \<and> map fst (ca_singleMap a) = keys_of False cs \<and>
     (\<forall>k. console_holds env cs a k)"

lemma cattributes_hold_Init: "cattributes_hold env [] (CAttributes_Init r)"
  by (simp add: cattributes_hold_def CAttributes_Init_def console_holds_def)

lemma console_put_keys:
  "map fst (ca_multiMap (fst (console_put a t v b))) =
     (if mk_Multiple (at_properties a) \<and> at_key a \<notin> set (map fst (ca_multiMap b)) then map fst (ca_multiMap b) @ [at_key a]
      else map fst (ca_multiMap b))"
  "map fst (ca_singleMap (fst (console_put a t v b))) =
     (if \<not> mk_Multiple (at_properties a) \<and> at_key a \<notin> set (map fst (ca_singleMap b)) then map fst (ca_singleMap b) @ [at_key a]
      else map fst (ca_singleMap b))"
  by (simp_all add: console_put_def console_put_single_def console_put_multi_def Let_def map_fst_aput split: prod.split)

lemma console_put_request [simp]: "ca_request (fst (console_put a t v b)) = ca_request b"
  by (simp add: console_put_def console_put_single_def console_put_multi_def Let_def split: prod.split)

lemma cattributes_hold_call:
  assumes "cattributes_hold env cs b" "ctexts_closed env" "console_consistent (cs @ [(a, v)])"
  shows "cattributes_hold env (cs @ [(a, v)]) (fst (CAttributes_call env (a, v) b))"
proof -
  have k: "map fst (ca_multiMap b) = keys_of True cs" "map fst (ca_singleMap b) = keys_of False cs" "\<And>k. console_holds env cs b k"
    using assms(1) by (simp_all add: cattributes_hold_def)
  have "console_holds env (cs @ [(a, v)]) (fst (CAttributes_call env (a, v) b)) k" for k
    by (rule console_holds_call [OF assms(2) k(3) assms(3)])
  then show ?thesis
    unfolding cattributes_hold_def CAttributes_call_put console_put_keys k(1,2) keys_of_snoc by auto
qed

text \<open>\<open>key=v1,v2\<close> for one key, and the text of all the keys.\<close>

definition key_ctext :: "'m cenv \<Rightarrow> (Attribute \<times> 'm metavalue) list \<Rightarrow> string \<Rightarrow> string" where
  "key_ctext env cs k =
     (let a = key_attribute k cs in at_consoleKey a @ commas (kept_ctexts env a (key_values k cs)))"

definition attributes_ctext ::
    "'m cenv \<Rightarrow> (string list \<Rightarrow> string list) \<Rightarrow> (Attribute \<times> 'm metavalue) list \<Rightarrow> string" where
  "attributes_ctext env order cs =
     concat (map (\<lambda>k. CHR '' '' # key_ctext env cs k) (order (keys_of True cs) @ order (keys_of False cs)))"

lemma console_holds_texts:
  assumes "console_holds env cs a k"
  shows "map_of (ca_multiMap a) k = Some m \<Longrightarrow> cm_B m = key_ctext env cs k"
    and "map_of (ca_singleMap a) k = Some s \<Longrightarrow> cg_KeyValue s = key_ctext env cs k"
proof -
  show "map_of (ca_multiMap a) k = Some m \<Longrightarrow> cm_B m = key_ctext env cs k"
    using assms by (auto simp: console_holds_def Let_def key_ctext_def split: if_splits)
  show "map_of (ca_singleMap a) k = Some s \<Longrightarrow> cg_KeyValue s = key_ctext env cs k"
    using assms by (auto simp: console_holds_def Let_def key_ctext_def kept_ctexts_def split: if_splits)
qed

lemma append_entries_text:
  assumes "distinct ks" "set ks \<subseteq> set (map fst ms)" "\<And>k m. k \<in> set ks \<Longrightarrow> map_of ms k = Some m \<Longrightarrow> due m \<and> text m = f k"
    and mark: "\<And>m. mark (mark m) = mark m"
  shows "\<exists>ms'. append_entries due text mark ks (b, ms) = (b @ concat (map (\<lambda>k. CHR '' '' # f k) ks), ms') \<and>
    map fst ms' = map fst ms \<and> (\<forall>k. map_option mark (map_of ms' k) = map_option mark (map_of ms k))"
  using assms(1-3)
proof (induction ks arbitrary: b ms)
  case (Cons k ks)
  then obtain m where m: "map_of ms k = Some m" by (cases "map_of ms k") (auto simp: map_of_eq_None_iff)
  have t: "due m" "text m = f k" using Cons.prems(3) [of k m] m by simp_all
  have k: "map fst (aput k (mark m) ms) = map fst ms" using Cons.prems(2) by (simp add: map_fst_aput)
  let ?b = "b @ CHR '' '' # f k" and ?ms = "aput k (mark m) ms"
  have d: "due x \<and> text x = f j" if "j \<in> set ks" "map_of ?ms j = Some x" for j x
  proof -
    have "j \<noteq> k" using that(1) Cons.prems(1) by auto
    with that show ?thesis using Cons.prems(3) [of j x] by simp
  qed
  have "set ks \<subseteq> set (map fst ?ms)" using Cons.prems(2) k by auto
  with Cons.IH [of ?ms ?b] d Cons.prems(1) obtain ms' where ms':
    "append_entries due text mark ks (?b, ?ms) = (?b @ concat (map (\<lambda>k. CHR '' '' # f k) ks), ms')"
    "map fst ms' = map fst ?ms" "\<And>j. map_option mark (map_of ms' j) = map_option mark (map_of ?ms j)"
    by auto
  have "map_option mark (map_of ms' j) = map_option mark (map_of ms j)" for j
    using ms'(3) [of j] m mark by simp
  with ms'(1,2) k m t show ?case by simp
qed simp

lemma console_holds_marked:
  assumes "console_holds env cs a k"
    "map_option (\<lambda>m. m\<lparr>cm_Changed := False\<rparr>) (map_of (ca_multiMap b) k) = map_option (\<lambda>m. m\<lparr>cm_Changed := False\<rparr>) (map_of (ca_multiMap a) k)"
    "map_option (\<lambda>s. s\<lparr>cg_Changed := False\<rparr>) (map_of (ca_singleMap b) k) = map_option (\<lambda>s. s\<lparr>cg_Changed := False\<rparr>) (map_of (ca_singleMap a) k)"
  shows "console_holds env cs b k"
proof -
  have m: "map_of (ca_multiMap b) k = None \<longleftrightarrow> map_of (ca_multiMap a) k = None"
    "map_of (ca_multiMap a) k = Some x \<Longrightarrow> \<exists>y. map_of (ca_multiMap b) k = Some y \<and> cm_B y = cm_B x \<and> cm_Distinct y = cm_Distinct x" for x
  proof -
    show "map_of (ca_multiMap b) k = None \<longleftrightarrow> map_of (ca_multiMap a) k = None"
      using assms(2) by (metis map_option_is_None)
    assume "map_of (ca_multiMap a) k = Some x"
    with assms(2) obtain y where y: "map_of (ca_multiMap b) k = Some y" "y\<lparr>cm_Changed := False\<rparr> = x\<lparr>cm_Changed := False\<rparr>"
      by (auto simp: map_option_eq_Some)
    from arg_cong [OF y(2), of cm_B] arg_cong [OF y(2), of cm_Distinct] y(1)
    show "\<exists>y. map_of (ca_multiMap b) k = Some y \<and> cm_B y = cm_B x \<and> cm_Distinct y = cm_Distinct x" by simp
  qed
  have s: "map_of (ca_singleMap b) k = None \<longleftrightarrow> map_of (ca_singleMap a) k = None"
    "map_of (ca_singleMap a) k = Some x \<Longrightarrow> \<exists>y. map_of (ca_singleMap b) k = Some y \<and> cg_KeyValue y = cg_KeyValue x \<and> cg_keyLen y = cg_keyLen x" for x
  proof -
    show "map_of (ca_singleMap b) k = None \<longleftrightarrow> map_of (ca_singleMap a) k = None"
      using assms(3) by (metis map_option_is_None)
    assume "map_of (ca_singleMap a) k = Some x"
    with assms(3) obtain y where y: "map_of (ca_singleMap b) k = Some y" "y\<lparr>cg_Changed := False\<rparr> = x\<lparr>cg_Changed := False\<rparr>"
      by (auto simp: map_option_eq_Some)
    from arg_cong [OF y(2), of cg_KeyValue] arg_cong [OF y(2), of cg_keyLen] y(1)
    show "\<exists>y. map_of (ca_singleMap b) k = Some y \<and> cg_KeyValue y = cg_KeyValue x \<and> cg_keyLen y = cg_keyLen x" by simp
  qed
  show ?thesis
    using assms(1) m(1) s(1) unfolding console_holds_def Let_def
    by (auto dest!: m(2) s(2) split: if_splits)
qed

lemma CAttributes_Append_text:
  assumes h: "cattributes_hold env cs a" and o: "order_ok order"
  shows "fst (CAttributes_Append order False b a) = b @ attributes_ctext env order cs"
    and "cattributes_hold env cs (snd (CAttributes_Append order False b a))"
    and "ca_request (snd (CAttributes_Append order False b a)) = ca_request a"
proof -
  have k: "map fst (ca_multiMap a) = keys_of True cs" "map fst (ca_singleMap a) = keys_of False cs"
    and hk: "\<And>k. console_holds env cs a k"
    using h by (simp_all add: cattributes_hold_def)
  have ord: "distinct (order (keys_of x cs))" "set (order (keys_of x cs)) = set (keys_of x cs)" for x
    using o keys_of_distinct [of x cs] by (simp_all add: order_ok_def)
  let ?f = "key_ctext env cs" and ?M = "order (keys_of True cs)" and ?S = "order (keys_of False cs)"
  have nil: "ca_multiMap a = [] \<and> ca_singleMap a = [] \<Longrightarrow> ?M = [] \<and> ?S = []"
    using ord(2) [of True] ord(2) [of False] k by simp
  have M: "\<exists>ms. console_append_multis False ?M (b, ca_multiMap a) = (b @ concat (map (\<lambda>k. CHR '' '' # ?f k) ?M), ms) \<and>
      map fst ms = map fst (ca_multiMap a) \<and>
      (\<forall>k. map_option (\<lambda>m. m\<lparr>cm_Changed := False\<rparr>) (map_of ms k) = map_option (\<lambda>m. m\<lparr>cm_Changed := False\<rparr>) (map_of (ca_multiMap a) k))"
    unfolding console_append_multis_def using k(1) ord console_holds_texts(1) [OF hk]
    by (intro append_entries_text) auto
  then obtain ms where ms: "console_append_multis False ?M (b, ca_multiMap a) = (b @ concat (map (\<lambda>k. CHR '' '' # ?f k) ?M), ms)"
    "map fst ms = keys_of True cs"
    "\<And>k. map_option (\<lambda>m. m\<lparr>cm_Changed := False\<rparr>) (map_of ms k) = map_option (\<lambda>m. m\<lparr>cm_Changed := False\<rparr>) (map_of (ca_multiMap a) k)"
    using k(1) by auto
  let ?b = "b @ concat (map (\<lambda>k. CHR '' '' # ?f k) ?M)"
  have S: "\<exists>ss. console_append_singles False ?S (?b, ca_singleMap a) = (?b @ concat (map (\<lambda>k. CHR '' '' # ?f k) ?S), ss) \<and>
      map fst ss = map fst (ca_singleMap a) \<and>
      (\<forall>k. map_option (\<lambda>m. m\<lparr>cg_Changed := False\<rparr>) (map_of ss k) = map_option (\<lambda>m. m\<lparr>cg_Changed := False\<rparr>) (map_of (ca_singleMap a) k))"
    unfolding console_append_singles_def using k(2) ord console_holds_texts(2) [OF hk]
    by (intro append_entries_text) auto
  then obtain ss where ss: "console_append_singles False ?S (?b, ca_singleMap a) = (?b @ concat (map (\<lambda>k. CHR '' '' # ?f k) ?S), ss)"
    "map fst ss = keys_of False cs"
    "\<And>k. map_option (\<lambda>m. m\<lparr>cg_Changed := False\<rparr>) (map_of ss k) = map_option (\<lambda>m. m\<lparr>cg_Changed := False\<rparr>) (map_of (ca_singleMap a) k)"
    using k(2) by auto
  have holds: "cattributes_hold env cs (a\<lparr>ca_singleMap := ss, ca_multiMap := ms, ca_anyChanged := False\<rparr>)"
    unfolding cattributes_hold_def using ms(2,3) ss(2,3) by (auto intro!: console_holds_marked [OF hk])
  have eq: "CAttributes_Append order False b a =
      (if ca_multiMap a = [] \<and> ca_singleMap a = [] then (b, a)
       else (?b @ concat (map (\<lambda>k. CHR '' '' # ?f k) ?S), a\<lparr>ca_singleMap := ss, ca_multiMap := ms, ca_anyChanged := False\<rparr>))"
    by (simp add: CAttributes_Append_def k ms(1) ss(1))
  show "fst (CAttributes_Append order False b a) = b @ attributes_ctext env order cs"
    unfolding eq using nil by (simp add: attributes_ctext_def)
  show "cattributes_hold env cs (snd (CAttributes_Append order False b a))" unfolding eq using holds h by simp
  show "ca_request (snd (CAttributes_Append order False b a)) = ca_request a" unfolding eq by simp
qed

end
