(* ===== verification/ConsoleMemory.thy ===== *)
theory ConsoleMemory
  imports ConsoleText
begin

section \<open>Byte slices that share memory\<close>

text \<open>
  The builders of the console logger are copied as values, so their byte slices can share an array: a
  prefill and the lines that start from it do. A slice is an array of the store and a length (all of
  them start at the first byte); \<open>append\<close> writes into the array if it has room, and moves to a new one
  if it has not. How much room a new array has beyond what is needed is an argument.
\<close>

record slice =
  sl_base :: "nat option"
  sl_len :: nat

definition nil_slice :: slice where
  "nil_slice = \<lparr>sl_base = None, sl_len = 0\<rparr>"

definition slice_cap :: "string list \<Rightarrow> slice \<Rightarrow> nat" where
  "slice_cap h s = (case sl_base s of None \<Rightarrow> 0 | Some a \<Rightarrow> length (h ! a))"

definition slice_text :: "string list \<Rightarrow> slice \<Rightarrow> string" where
  "slice_text h s = (case sl_base s of None \<Rightarrow> [] | Some a \<Rightarrow> take (sl_len s) (h ! a))"

text \<open>\<open>append(s, v...)\<close>\<close>

definition go_append :: "'m cenv \<Rightarrow> string \<Rightarrow> slice \<times> string list \<Rightarrow> slice \<times> string list" where
  "go_append env v st =
     (let (s, h) = st; n = sl_len s + length v in
      if n \<le> slice_cap h s then
        (s\<lparr>sl_len := n\<rparr>,
         case sl_base s of None \<Rightarrow> h | Some a \<Rightarrow> h[a := take (sl_len s) (h ! a) @ v @ drop n (h ! a)])
      else (\<lparr>sl_base = Some (length h), sl_len = n\<rparr>,
            h @ [slice_text h s @ v @ replicate (ce_spare env (length h)) (CHR 0x00)]))"

definition append_chunk :: "'m cenv \<Rightarrow> chunk \<Rightarrow> slice \<times> string list \<Rightarrow> slice \<times> string list" where
  "append_chunk env c st =
     (case c of
        Own t \<Rightarrow> go_append env t st
      | Pieces t \<Rightarrow> fold (go_append env) (ce_pieces env (slice_cap (snd st) (fst st) - sl_len (fst st)) t) st)"

definition append_chunks :: "'m cenv \<Rightarrow> chunk list \<Rightarrow> slice \<times> string list \<Rightarrow> slice \<times> string list" where
  "append_chunks env cs = fold (append_chunk env) cs"

subsection \<open>What appending does\<close>

definition slice_ok :: "string list \<Rightarrow> slice \<Rightarrow> bool" where
  "slice_ok h s \<longleftrightarrow> (case sl_base s of None \<Rightarrow> sl_len s = 0 | Some a \<Rightarrow> a < length h \<and> sl_len s \<le> length (h ! a))"

text \<open>
  \<open>s\<close> was extended by \<open>v\<close>: it has stayed in its array or moved to a new one, and every slice that does not
  reach past the old end of \<open>s\<close> in the same array still has its text.
\<close>

definition spared :: "slice \<Rightarrow> slice \<Rightarrow> bool" where
  "spared s r \<longleftrightarrow> (sl_base r = sl_base s \<longrightarrow> sl_len r \<le> sl_len s)"

definition extended :: "string \<Rightarrow> slice \<times> string list \<Rightarrow> slice \<times> string list \<Rightarrow> bool" where
  "extended v st st' \<longleftrightarrow>
     slice_ok (snd st') (fst st') \<and> slice_text (snd st') (fst st') = slice_text (snd st) (fst st) @ v \<and>
     sl_len (fst st') = sl_len (fst st) + length v \<and> length (snd st) \<le> length (snd st') \<and>
     (sl_base (fst st') = sl_base (fst st) \<or> (\<exists>a \<ge> length (snd st). sl_base (fst st') = Some a)) \<and>
     (\<forall>r. slice_ok (snd st) r \<and> spared (fst st) r \<longrightarrow> slice_ok (snd st') r \<and> slice_text (snd st') r = slice_text (snd st) r)"

lemma extended_refl: "slice_ok (snd st) (fst st) \<Longrightarrow> extended [] st st"
  by (simp add: extended_def)

lemma extended_ok: "extended v st st' \<Longrightarrow> slice_ok (snd st') (fst st')"
  by (simp add: extended_def)

lemma extended_trans:
  assumes "extended v st st'" "extended w st' st''"
  shows "extended (v @ w) st st''"
proof -
  obtain s h where st: "st = (s, h)" by (cases st)
  obtain s' h' where st': "st' = (s', h')" by (cases st')
  obtain s'' h'' where st'': "st'' = (s'', h'')" by (cases st'')
  note 1 = assms(1) [unfolded extended_def st st' fst_conv snd_conv]
  note 2 = assms(2) [unfolded extended_def st' st'' fst_conv snd_conv]
  have "slice_ok h'' r \<and> slice_text h'' r = slice_text h r" if r: "slice_ok h r" "spared s r" for r
  proof -
    have r': "slice_ok h' r \<and> slice_text h' r = slice_text h r" using 1 r by blast
    have "spared s' r"
    proof (cases "sl_base s' = sl_base s")
      case True
      moreover have "sl_len s \<le> sl_len s'" using 1 by simp
      ultimately show ?thesis using r(2) unfolding spared_def by (metis le_trans)
    next
      case False
      with 1 obtain a where "a \<ge> length h" "sl_base s' = Some a" by blast
      with r(1) have "sl_base r \<noteq> sl_base s'" by (auto simp: slice_ok_def)
      then show ?thesis by (simp add: spared_def)
    qed
    with 2 r' show ?thesis by auto
  qed
  moreover have "sl_base s'' = sl_base s \<or> (\<exists>a \<ge> length h. sl_base s'' = Some a)"
    using 1 2 by (metis le_trans)
  ultimately show ?thesis
    using 1 2 by (simp add: extended_def st st'')
qed

lemma go_append_extended:
  assumes "slice_ok (snd st) (fst st)"
  shows "extended v st (go_append env v st)"
proof -
  obtain s h where st: "st = (s, h)" by (cases st)
  let ?n = "sl_len s + length v"
  show ?thesis
  proof (cases "?n \<le> slice_cap h s")
    case room: True
    show ?thesis
    proof (cases "sl_base s")
      case None
      with room assms show ?thesis
        by (auto simp: st go_append_def extended_def slice_ok_def slice_cap_def slice_text_def split: option.splits)
    next
      case (Some a)
      let ?x = "take (sl_len s) (h ! a) @ v @ drop ?n (h ! a)"
      have a: "a < length h" "?n \<le> length (h ! a)" using room assms Some by (simp_all add: st slice_ok_def slice_cap_def)
      then have x: "length ?x = length (h ! a)" by simp
      have keep: "slice_ok (h[a := ?x]) r \<and> slice_text (h[a := ?x]) r = slice_text h r" if r: "slice_ok h r" "spared s r" for r
      proof (cases "sl_base r = Some a")
        case True
        with r Some have "sl_len r \<le> sl_len s" by (simp add: spared_def)
        with True a x show ?thesis by (simp add: slice_ok_def slice_text_def min_def)
      next
        case False
        with r(1) show ?thesis by (auto simp: slice_ok_def slice_text_def split: option.splits)
      qed
      have "go_append env v st = (s\<lparr>sl_len := ?n\<rparr>, h[a := ?x])" using room Some by (simp add: st go_append_def Let_def)
      then show ?thesis
        using keep a x Some by (simp add: st extended_def slice_ok_def slice_text_def)
    qed
  next
    case False
    have t: "length (slice_text h s) = sl_len s"
      using assms by (auto simp: st slice_ok_def slice_text_def split: option.splits)
    let ?x = "slice_text h s @ v @ replicate (ce_spare env (length h)) (CHR 0x00)"
    have eq: "go_append env v st = (\<lparr>sl_base = Some (length h), sl_len = ?n\<rparr>, h @ [?x])"
      using False by (simp add: st go_append_def Let_def)
    have "slice_ok (h @ [?x]) r \<and> slice_text (h @ [?x]) r = slice_text h r" if "slice_ok h r" for r
      using that by (auto simp: slice_ok_def slice_text_def nth_append split: option.splits)
    then show ?thesis using t unfolding eq by (simp add: st extended_def slice_ok_def slice_text_def)
  qed
qed

lemma fold_append_extended:
  "slice_ok (snd st) (fst st) \<Longrightarrow> extended (concat vs) st (fold (go_append env) vs st)"
proof (induction vs arbitrary: st)
  case Nil
  then show ?case by (simp add: extended_refl)
next
  case (Cons v vs)
  from go_append_extended [OF Cons.prems] have e: "extended v st (go_append env v st)" .
  from extended_trans [OF e Cons.IH [OF extended_ok [OF e]]] show ?case by simp
qed

text \<open>A function of the library appends the whole text.\<close>

definition pieces_ok :: "'m cenv \<Rightarrow> bool" where
  "pieces_ok env \<longleftrightarrow> (\<forall>n t. concat (ce_pieces env n t) = t)"

lemma append_chunks_extended:
  assumes "pieces_ok env"
  shows "slice_ok (snd st) (fst st) \<Longrightarrow> extended (text_of cs) st (append_chunks env cs st)"
proof (induction cs arbitrary: st)
  case Nil
  then show ?case by (simp add: append_chunks_def extended_refl)
next
  case (Cons c cs)
  have e: "extended (chunk_text c) st (append_chunk env c st)"
  proof (cases c)
    case (Own t)
    with go_append_extended [OF Cons.prems] show ?thesis by (simp add: append_chunk_def)
  next
    case (Pieces t)
    let ?vs = "ce_pieces env (slice_cap (snd st) (fst st) - sl_len (fst st)) t"
    have "concat ?vs = t" using assms by (simp add: pieces_ok_def)
    with fold_append_extended [OF Cons.prems, of ?vs env] Pieces show ?thesis by (simp add: append_chunk_def)
  qed
  from extended_trans [OF e Cons.IH [OF extended_ok [OF e]]] show ?case by (simp add: append_chunks_def)
qed

end
