(* ===== verification/ConsoleLogger.thy ===== *)
theory ConsoleLogger
  imports Counter ConsoleAttributes ConsoleMemory
begin

section \<open>The console base logger\<close>

text \<open>
  Models \<open>xopconsole/console.go\<close>. Requests and spans are one type of struct, and one store; prefillings,
  prefills and lines all embed a \<open>builder\<close>, which is copied from one to the next: they are one store too,
  with what is special to each in \<open>cu_kind\<close>. Their slices live in \<open>cl_memory\<close>. What the \<open>io.Writer\<close> got
  is the list of the texts of its calls. An error of the writer goes to the error reporter of the
  logger; calling it when it is nil panics, which is \<^term>\<open>None\<close>.
\<close>

subsection \<open>State\<close>

record cspan =
  cs_Attributes :: cattributes
  cs_EndTime :: int
  cs_provisionalEndTime :: int
  cs_RequestNum :: int
  cs_TraceNum :: int
  cs_Bundle :: Bundle
  cs_IsRequest :: bool
  cs_Parent :: nat
  cs_Short :: string
  cs_StartTime :: time
  cs_Name :: string
  cs_SequenceCode :: string
  cs_SourceInfo :: "SourceInfo option"
  cs_VersionNumber :: i32

datatype ckind = KPrefilling | KPrefilled string | KLine "frame list" string time int

record cbuilder =
  cu_B :: slice
  cu_Span :: nat
  cu_kind :: ckind

record clogger =
  cl_id :: string
  cl_linePrefix :: string
  cl_requestCounter :: RequestCounter
  cl_errorReporter :: bool
  cl_reports :: nat
  cl_spans :: "cspan list"
  cl_memory :: "string list"
  cl_builders :: "cbuilder list"
  cl_written :: "string list"
  cl_calls :: nat

datatype coption = WithRequestCounter RequestCounter

fun apply_coption :: "coption \<Rightarrow> clogger \<Rightarrow> clogger" where
  "apply_coption (WithRequestCounter c) log = log\<lparr>cl_requestCounter := c\<rparr>"

definition Console_New :: "string \<Rightarrow> coption list \<Rightarrow> clogger" where
  "Console_New uuid opts = fold apply_coption opts
     \<lparr>cl_id = ''xopcon'' @ ''-'' @ uuid, cl_linePrefix = [], cl_requestCounter = NewRequestCounter, cl_errorReporter = False,
      cl_reports = 0, cl_spans = [], cl_memory = [], cl_builders = [], cl_written = [], cl_calls = 0\<rparr>"

definition Console_SetPrefix :: "string \<Rightarrow> clogger \<Rightarrow> clogger" where
  "Console_SetPrefix p log = log\<lparr>cl_linePrefix := p\<rparr>"

definition Console_SetErrorReporter :: "clogger \<Rightarrow> clogger" where
  "Console_SetErrorReporter log = log\<lparr>cl_errorReporter := True\<rparr>"

definition upd_cspan :: "nat \<Rightarrow> (cspan \<Rightarrow> cspan) \<Rightarrow> clogger \<Rightarrow> clogger" where
  "upd_cspan s g log = log\<lparr>cl_spans := (cl_spans log)[s := g (cl_spans log ! s)]\<rparr>"

text \<open>\<open>log.out.Write(b.B)\<close> and what follows it everywhere.\<close>

definition console_write :: "'m cenv \<Rightarrow> string \<Rightarrow> clogger \<Rightarrow> clogger option" where
  "console_write env b log =
     (let err = ce_fails env (cl_calls log); log = log\<lparr>cl_calls := cl_calls log + 1\<rparr> in
      if err then (if cl_errorReporter log then Some (log\<lparr>cl_reports := cl_reports log + 1\<rparr>) else None)
      else Some (log\<lparr>cl_written := cl_written log @ [b]\<rparr>))"

definition UnixNano :: "time \<Rightarrow> int" where
  "UnixNano t = sint (word_of_int t :: i64)"

definition spanHex :: "Trace \<Rightarrow> string" where
  "spanHex t = hb_h (get_field SpanIDField (initialize t))"

definition newline :: chunk where
  "newline = Own [CHR 0x0A]"

subsection \<open>Requests and spans\<close>

definition request_start_text :: "'m cenv \<Rightarrow> time \<Rightarrow> Bundle \<Rightarrow> string \<Rightarrow> SourceInfo \<Rightarrow> string" where
  "request_start_text env ts bundle name si =
     text_of
      ([Own ''xop Request '', cb_TimeFormatter env ts 0, Own '' Start1 '', Own (Trace_String (bu_Trace bundle)), Own '' '',
        console_string env name, Own '' '',
        console_string env (si_Source si @ ''-'' @ si_SourceVersion si), Own '' '',
        console_string env (si_Namespace si @ ''-'' @ si_NamespaceVersion si)] @
       (if \<not> Trace_IsZero (bu_Parent bundle) then
          [Own '' parent:'',
           Own (if Trace_Get TraceIDField (bu_Parent bundle) \<noteq> Trace_Get TraceIDField (bu_Trace bundle)
                then Trace_String (bu_Parent bundle) else hb_h (Trace_Get SpanIDField (bu_Parent bundle)))]
        else []) @
       (if bu_State bundle \<noteq> [] then [Own '' state:'', console_string env (bu_State bundle)] else []) @
       (if bu_Baggage bundle \<noteq> [] then [Own '' baggage:'', console_string env (bu_Baggage bundle)] else []) @
       [newline])"

definition Console_Request ::
    "'m cenv \<Rightarrow> time \<Rightarrow> Bundle \<Rightarrow> string \<Rightarrow> SourceInfo \<Rightarrow> clogger \<Rightarrow> (nat \<times> clogger) option" where
  "Console_Request env ts bundle name si log =
     (let ((traceNum, requestNum, isNew), c) = GetNumber (bu_Trace bundle) (cl_requestCounter log);
          n = length (cl_spans log);
          s = \<lparr>cs_Attributes = CAttributes_Init n, cs_EndTime = 0, cs_provisionalEndTime = 0,
            cs_RequestNum = sint requestNum, cs_TraceNum = sint traceNum, cs_Bundle = bundle, cs_IsRequest = True,
            cs_Parent = n, cs_Short = ''T'' @ Itoa (sint traceNum) @ ''.'' @ Itoa (sint requestNum),
            cs_StartTime = ts, cs_Name = name, cs_SequenceCode = [], cs_SourceInfo = Some si, cs_VersionNumber = 0\<rparr>;
          log = log\<lparr>cl_requestCounter := c, cl_spans := cl_spans log @ [s]\<rparr>
      in map_option (\<lambda>log. (n, log)) (console_write env (request_start_text env ts bundle name si) log))"

definition done_text :: "'m cenv \<Rightarrow> bool \<Rightarrow> time \<Rightarrow> i32 \<Rightarrow> Trace \<Rightarrow> string \<Rightarrow> string" where
  "done_text env isRequest ts version trace attributes =
     text_of [Own (if isRequest then ''xop Request '' else ''xop Span ''), cb_TimeFormatter env ts 0, Own '' v'',
       Pieces (FormatInt (sint version) 10), Own '' '', Own (spanHex trace), Own attributes, newline]"

definition Console_Done :: "'m cenv \<Rightarrow> time \<Rightarrow> nat \<Rightarrow> clogger \<Rightarrow> clogger option" where
  "Console_Done env ts s log =
     (let (provisional, r) = AtomicMaxInt64 (cs_provisionalEndTime (cl_spans log ! s)) (UnixNano ts);
          log = upd_cspan s (\<lambda>x. x\<lparr>cs_provisionalEndTime := provisional, cs_EndTime := fst (AtomicMaxInt64 (cs_EndTime x) r),
            cs_VersionNumber := cs_VersionNumber x + 1\<rparr>) log;
          x = cl_spans log ! s;
          (text, a) = CAttributes_Append (ce_order env (cl_calls log)) False [] (cs_Attributes x);
          log = upd_cspan s (\<lambda>x. x\<lparr>cs_Attributes := a\<rparr>) log
      in console_write env (done_text env (cs_IsRequest x) ts (cs_VersionNumber x) (bu_Trace (cs_Bundle x)) text) log)"

definition span_start_text :: "'m cenv \<Rightarrow> time \<Rightarrow> Trace \<Rightarrow> Trace \<Rightarrow> string \<Rightarrow> string \<Rightarrow> string" where
  "span_start_text env ts trace parent name short =
     text_of [Own ''xop Span '', cb_TimeFormatter env ts 0, Own '' Start '', Own (spanHex trace), Own '' '',
       Own (spanHex parent), Own '' '', console_string env name, Own '' '', Own short, newline]"

definition Console_Span ::
    "'m cenv \<Rightarrow> time \<Rightarrow> Bundle \<Rightarrow> string \<Rightarrow> string \<Rightarrow> nat \<Rightarrow> clogger \<Rightarrow> (nat \<times> clogger) option" where
  "Console_Span env ts bundle name spanSequenceCode s log =
     (let span = cl_spans log ! s; parent = cl_spans log ! cs_Parent span; n = length (cl_spans log);
          short = ''T'' @ Itoa (cs_TraceNum parent) @ ''.'' @ Itoa (cs_RequestNum parent) @ spanSequenceCode;
          x = \<lparr>cs_Attributes = CAttributes_Init (ca_request (cs_Attributes span)), cs_EndTime = 0, cs_provisionalEndTime = 0,
            cs_RequestNum = cs_RequestNum parent, cs_TraceNum = cs_TraceNum parent, cs_Bundle = bundle, cs_IsRequest = False,
            cs_Parent = s, cs_Short = short, cs_StartTime = ts, cs_Name = name, cs_SequenceCode = spanSequenceCode,
            cs_SourceInfo = None, cs_VersionNumber = 0\<rparr>;
          log = log\<lparr>cl_spans := cl_spans log @ [x]\<rparr>
      in map_option (\<lambda>log. (n, log))
           (console_write env (span_start_text env ts (bu_Trace bundle) (bu_Trace (cs_Bundle span)) name short) log))"

text \<open>
  \<open>ParentRequest\<close> walks up until it is at a request. There are as many steps as there are spans below
  the request; a parent is an older span, so \<open>fuel = s + 1\<close> is enough.
\<close>

fun ParentRequest_loop :: "nat \<Rightarrow> cspan list \<Rightarrow> nat \<Rightarrow> nat option" where
  "ParentRequest_loop 0 spans s = None"
| "ParentRequest_loop (Suc fuel) spans s =
     (if cs_IsRequest (spans ! s) then Some s else ParentRequest_loop fuel spans (cs_Parent (spans ! s)))"

definition ParentRequest :: "clogger \<Rightarrow> nat \<Rightarrow> nat option" where
  "ParentRequest log s = ParentRequest_loop (s + 1) (cl_spans log) s"

subsection \<open>Prefills and lines\<close>

definition add_cbuilder :: "cbuilder \<Rightarrow> clogger \<Rightarrow> nat \<times> clogger" where
  "add_cbuilder b log = (length (cl_builders log), log\<lparr>cl_builders := cl_builders log @ [b]\<rparr>)"

definition Console_NoPrefill :: "nat \<Rightarrow> clogger \<Rightarrow> nat \<times> clogger" where
  "Console_NoPrefill s = add_cbuilder \<lparr>cu_B = nil_slice, cu_Span = s, cu_kind = KPrefilled []\<rparr>"

definition Console_StartPrefill :: "nat \<Rightarrow> clogger \<Rightarrow> nat \<times> clogger" where
  "Console_StartPrefill s = add_cbuilder \<lparr>cu_B = nil_slice, cu_Span = s, cu_kind = KPrefilling\<rparr>"

definition Console_PrefillComplete :: "string \<Rightarrow> nat \<Rightarrow> clogger \<Rightarrow> nat \<times> clogger" where
  "Console_PrefillComplete m p log = add_cbuilder ((cl_builders log ! p)\<lparr>cu_kind := KPrefilled m\<rparr>) log"

definition Console_Line :: "int \<Rightarrow> time \<Rightarrow> frame list \<Rightarrow> string \<Rightarrow> nat \<Rightarrow> clogger \<Rightarrow> nat \<times> clogger" where
  "Console_Line level t frames prefillMsg p log =
     (let b = cl_builders log ! p;
          log = upd_cspan (cu_Span b)
            (\<lambda>x. x\<lparr>cs_provisionalEndTime := fst (AtomicMaxInt64 (cs_provisionalEndTime x) (UnixNano t))\<rparr>) log
      in add_cbuilder (b\<lparr>cu_kind := KLine frames prefillMsg t level\<rparr>) log)"

text \<open>A method of the builder of a prefilling or a line.\<close>

definition Console_Build :: "'m cenv \<Rightarrow> 'm build_call \<Rightarrow> nat \<Rightarrow> clogger \<Rightarrow> clogger" where
  "Console_Build env c b log =
     (let x = cl_builders log ! b; (s, h) = append_chunks env (console_build env c) (cu_B x, cl_memory log)
      in log\<lparr>cl_builders := (cl_builders log)[b := x\<lparr>cu_B := s\<rparr>], cl_memory := h\<rparr>)"

definition stack_chunks :: "'m cenv \<Rightarrow> frame list \<Rightarrow> chunk list" where
  "stack_chunks env frames =
     (if frames \<noteq> [] then
        Own '' STACK:'' # concat (map (\<lambda>(file, line).
          [Own '' '', console_string env file, Own '':'', Pieces (FormatInt (sint (word_of_int line :: i64)) 10)]) frames)
      else [])"

text \<open>The line that \<open>send\<close> writes, with the data \<open>B\<close> of the line.\<close>

definition send_text ::
    "'m cenv \<Rightarrow> int \<Rightarrow> time \<Rightarrow> Trace \<Rightarrow> string \<Rightarrow> string \<Rightarrow> string \<Rightarrow> string \<Rightarrow> frame list \<Rightarrow> string" where
  "send_text env level ts trace prefix text postfix B frames =
     text_of
      ([Own ''xop '', Own (Level_String level), Own '' '', cb_TimeFormatter env ts 0, Own '' '', Own (spanHex trace), Own '' ''] @
       (if prefix \<noteq> [] then [Own prefix] else []) @ [console_string env text] @
       (if postfix \<noteq> [] then [Own '' '', Own postfix] else []) @
       (if B \<noteq> [] then [Own B] else []) @ stack_chunks env frames @ [newline])"

text \<open>Prefix, text and postfix of \<open>Msg\<close>, \<open>Template\<close>, \<open>Model\<close> and \<open>Link\<close>.\<close>

fun line_parts :: "'m cenv \<Rightarrow> string \<Rightarrow> 'm line_end \<Rightarrow> string \<times> string \<times> string" where
  "line_parts env prefillMsg (LMsg m) = ([], prefillMsg @ m, [])"
| "line_parts env prefillMsg (LTemplate m) = (''TEMPLATE:'', prefillMsg @ m, [])"
| "line_parts env prefillMsg (LModel m v) = (''MODEL:'', m, text_of (cb_AnyCommon env v))"
| "line_parts env prefillMsg (LLink m v) = (''LINK:'', m, Trace_String v)"

definition Console_send :: "'m cenv \<Rightarrow> 'm line_end \<Rightarrow> nat \<Rightarrow> clogger \<Rightarrow> clogger option" where
  "Console_send env e l log =
     (let x = cl_builders log ! l in
      case cu_kind x of
        KLine frames prefillMsg t level \<Rightarrow>
          (let (prefix, text, postfix) = line_parts env prefillMsg e in
           console_write env (send_text env level t (bu_Trace (cs_Bundle (cl_spans log ! cu_Span x))) prefix text postfix
             (slice_text (cl_memory log) (cu_B x)) frames) log)
      | _ \<Rightarrow> None)"

subsection \<open>Metadata\<close>

definition define_text :: "'m cenv \<Rightarrow> time \<Rightarrow> Attribute \<Rightarrow> string" where
  "define_text env ts k = text_of [Own ''xop Def '', cb_TimeFormatter env ts 0, Own '' '', Own (at_jsonDef k), newline]"

text \<open>\<open>defineKey\<close> comes before the value is added; the two do not meet.\<close>

definition Console_Metadata :: "'m cenv \<Rightarrow> Attribute \<Rightarrow> 'm metavalue \<Rightarrow> nat \<Rightarrow> clogger \<Rightarrow> clogger option" where
  "Console_Metadata env k v s log =
     (let a = cs_Attributes (cl_spans log ! s);
          (a', isNew) = CAttributes_call env (k, v) a;
          wrote = (if isNew then console_write env (define_text env (cs_StartTime (cl_spans log ! ca_request a)) k) log
                   else Some log)
      in map_option (upd_cspan s (\<lambda>x. x\<lparr>cs_Attributes := a'\<rparr>)) wrote)"

subsection \<open>The base logger\<close>

datatype chandle = CSpanH nat | CBuilderH nat

fun is_prefilling :: "ckind \<Rightarrow> bool" where
  "is_prefilling KPrefilling = True"
| "is_prefilling _ = False"

fun takes_data :: "ckind \<Rightarrow> bool" where
  "takes_data (KPrefilled m) = False"
| "takes_data _ = True"

fun console_new :: "'m cenv \<Rightarrow> create \<Rightarrow> chandle option \<Rightarrow> clogger \<Rightarrow> (chandle \<times> clogger) option" where
  "console_new env (NRequest ts b n si) None log = map_option (\<lambda>(s, log). (CSpanH s, log)) (Console_Request env ts b n si log)"
| "console_new env (NSpan ts b n code) (Some (CSpanH s)) log =
     map_option (\<lambda>(s, log). (CSpanH s, log)) (Console_Span env ts b n code s log)"
| "console_new env NNoPrefill (Some (CSpanH s)) log = (let (p, log) = Console_NoPrefill s log in Some (CBuilderH p, log))"
| "console_new env NStartPrefill (Some (CSpanH s)) log = (let (p, log) = Console_StartPrefill s log in Some (CBuilderH p, log))"
| "console_new env (NPrefillComplete m) (Some (CBuilderH p)) log =
     (if is_prefilling (cu_kind (cl_builders log ! p))
      then let (p, log) = Console_PrefillComplete m p log in Some (CBuilderH p, log) else None)"
| "console_new env (NLine level t frames) (Some (CBuilderH p)) log =
     (case cu_kind (cl_builders log ! p) of
        KPrefilled m \<Rightarrow> (let (l, log) = Console_Line level t frames m p log in Some (CBuilderH l, log))
      | _ \<Rightarrow> None)"
| "console_new env _ _ log = None"

text \<open>\<open>Flush\<close>, \<open>Boring\<close>, \<open>Final\<close> and the \<open>SetErrorReporter\<close> of a request do nothing.\<close>

fun console_do :: "'m cenv \<Rightarrow> 'm action \<Rightarrow> chandle \<Rightarrow> clogger \<Rightarrow> clogger option" where
  "console_do env AFlush (CSpanH s) log = Some log"
| "console_do env ASetErrorReporter (CSpanH s) log = Some log"
| "console_do env (ADone t final) (CSpanH s) log = Console_Done env t s log"
| "console_do env (ABoring b) (CSpanH s) log = Some log"
| "console_do env (AMetadata k v) (CSpanH s) log = Console_Metadata env k v s log"
| "console_do env (ABuild c) (CBuilderH b) log =
     (if takes_data (cu_kind (cl_builders log ! b)) then Some (Console_Build env c b log) else None)"
| "console_do env (AEnd e) (CBuilderH l) log = Console_send env e l log"
| "console_do env _ _ log = None"

definition console_base :: "string \<Rightarrow> 'm cenv \<Rightarrow> (chandle, clogger, 'm) base" where
  "console_base ident env =
     \<lparr>b_ID = ident, b_ReferencesKept = True, b_Buffered = False, b_new = console_new env, b_do = console_do env,
      b_Final = (\<lambda>h log. Some log)\<rparr>"

end
