(* ===== verification/ConsoleSpec.thy ===== *)
theory ConsoleSpec
  imports ConsoleLogger "HOL-Library.Sublist"
begin

section \<open>What the console logger promises: a logger of records\<close>

text \<open>
  The specification of the console base logger. Its output is a list of records that say what was logged;
  \<open>render\<close> is the text of one. A builder keeps the calls that gave it data, and has no memory to share. The
  specification says when the program may not count on a builder any more: a prefilling, the prefills
  made of it and their lines are a \<open>group\<close> (a copy without data starts a group of its own), and data that
  is added to one of them spoils all the others of the group whose data is not part of what it had. A
  call that would use a spoilt builder is \<^term>\<open>None\<close>.
\<close>

subsection \<open>Records\<close>

datatype 'm crecord =
  RRequestStart time Bundle string SourceInfo
| RSpanStart time Trace Trace string string
| RDone bool time i32 Trace "(Attribute \<times> 'm metavalue) list" nat
| RDefine time Attribute
| RLine int time Trace string "'m line_end" "'m build_call list" "frame list"

fun render :: "'m cenv \<Rightarrow> 'm crecord \<Rightarrow> string" where
  "render env (RRequestStart ts b n si) = request_start_text env ts b n si"
| "render env (RSpanStart ts t p n short) = span_start_text env ts t p n short"
| "render env (RDone r ts v t cs n) = done_text env r ts v t (attributes_ctext env (ce_order env n) cs)"
| "render env (RDefine ts k) = define_text env ts k"
| "render env (RLine level ts t pm e data frames) =
     (let (prefix, text, postfix) = line_parts env pm e
      in send_text env level ts t prefix text postfix (data_text env data) frames)"

subsection \<open>State\<close>

record 'm rspan =
  rn_calls :: "(Attribute \<times> 'm metavalue) list"
  rn_request :: nat
  rn_nums :: "int \<times> int"
  rn_bundle :: Bundle
  rn_isRequest :: bool
  rn_start :: time
  rn_version :: i32

record 'm rbuilder =
  rb_data :: "'m build_call list"
  rb_span :: nat
  rb_kind :: ckind
  rb_group :: nat
  rb_valid :: bool

record 'm rlogger =
  rl_counter :: RequestCounter
  rl_reporter :: bool
  rl_spans :: "'m rspan list"
  rl_builders :: "'m rbuilder list"
  rl_records :: "'m crecord list"
  rl_calls :: nat

definition rec_New :: "RequestCounter \<Rightarrow> bool \<Rightarrow> 'm rlogger" where
  "rec_New c reporter = \<lparr>rl_counter = c, rl_reporter = reporter, rl_spans = [], rl_builders = [], rl_records = [], rl_calls = 0\<rparr>"

definition upd_rspan :: "nat \<Rightarrow> ('m rspan \<Rightarrow> 'm rspan) \<Rightarrow> 'm rlogger \<Rightarrow> 'm rlogger" where
  "upd_rspan s g d = d\<lparr>rl_spans := (rl_spans d)[s := g (rl_spans d ! s)]\<rparr>"

definition rec_emit :: "'m cenv \<Rightarrow> 'm crecord \<Rightarrow> 'm rlogger \<Rightarrow> 'm rlogger option" where
  "rec_emit env r d =
     (let err = ce_fails env (rl_calls d); d = d\<lparr>rl_calls := rl_calls d + 1\<rparr> in
      if err then (if rl_reporter d then Some d else None) else Some (d\<lparr>rl_records := rl_records d @ [r]\<rparr>))"

subsection \<open>Operations\<close>

definition rec_Request :: "'m cenv \<Rightarrow> time \<Rightarrow> Bundle \<Rightarrow> string \<Rightarrow> SourceInfo \<Rightarrow> 'm rlogger \<Rightarrow> (nat \<times> 'm rlogger) option" where
  "rec_Request env ts bundle name si d =
     (let ((tn, rn, isNew), c) = GetNumber (bu_Trace bundle) (rl_counter d); n = length (rl_spans d);
          s = \<lparr>rn_calls = [], rn_request = n, rn_nums = (sint tn, sint rn), rn_bundle = bundle, rn_isRequest = True,
            rn_start = ts, rn_version = 0\<rparr>
      in map_option (\<lambda>d. (n, d))
           (rec_emit env (RRequestStart ts bundle name si) (d\<lparr>rl_counter := c, rl_spans := rl_spans d @ [s]\<rparr>)))"

definition rec_Span :: "'m cenv \<Rightarrow> time \<Rightarrow> Bundle \<Rightarrow> string \<Rightarrow> string \<Rightarrow> nat \<Rightarrow> 'm rlogger \<Rightarrow> (nat \<times> 'm rlogger) option" where
  "rec_Span env ts bundle name code s d =
     (let p = rl_spans d ! s; n = length (rl_spans d); (tn, rn) = rn_nums p;
          x = \<lparr>rn_calls = [], rn_request = rn_request p, rn_nums = (tn, rn), rn_bundle = bundle, rn_isRequest = False,
            rn_start = ts, rn_version = 0\<rparr>
      in map_option (\<lambda>d. (n, d))
           (rec_emit env (RSpanStart ts (bu_Trace bundle) (bu_Trace (rn_bundle p)) name
              (''T'' @ Itoa tn @ ''.'' @ Itoa rn @ code)) (d\<lparr>rl_spans := rl_spans d @ [x]\<rparr>)))"

definition rec_Done :: "'m cenv \<Rightarrow> time \<Rightarrow> nat \<Rightarrow> 'm rlogger \<Rightarrow> 'm rlogger option" where
  "rec_Done env t s d =
     (let d = upd_rspan s (\<lambda>x. x\<lparr>rn_version := rn_version x + 1\<rparr>) d; x = rl_spans d ! s
      in rec_emit env (RDone (rn_isRequest x) t (rn_version x) (bu_Trace (rn_bundle x)) (rn_calls x) (rl_calls d)) d)"

definition rec_Metadata :: "'m cenv \<Rightarrow> Attribute \<Rightarrow> 'm metavalue \<Rightarrow> nat \<Rightarrow> 'm rlogger \<Rightarrow> 'm rlogger option" where
  "rec_Metadata env k v s d =
     (let x = rl_spans d ! s in
      map_option (upd_rspan s (\<lambda>x. x\<lparr>rn_calls := rn_calls x @ [(k, v)]\<rparr>))
        (if key_values (at_key k) (rn_calls x) = [] then rec_emit env (RDefine (rn_start (rl_spans d ! rn_request x)) k) d
         else Some d))"

definition rec_add :: "'m rbuilder \<Rightarrow> 'm rlogger \<Rightarrow> nat \<times> 'm rlogger" where
  "rec_add b d = (length (rl_builders d), d\<lparr>rl_builders := rl_builders d @ [b]\<rparr>)"

definition rec_start :: "nat \<Rightarrow> ckind \<Rightarrow> 'm rlogger \<Rightarrow> nat \<times> 'm rlogger" where
  "rec_start s k d = rec_add \<lparr>rb_data = [], rb_span = s, rb_kind = k, rb_group = length (rl_builders d), rb_valid = True\<rparr> d"

definition rec_copy :: "nat \<Rightarrow> ckind \<Rightarrow> 'm rlogger \<Rightarrow> nat \<times> 'm rlogger" where
  "rec_copy b k d =
     (let x = rl_builders d ! b in
      rec_add (x\<lparr>rb_kind := k, rb_group := (if rb_data x = [] then length (rl_builders d) else rb_group x)\<rparr>) d)"

definition spoil :: "'m rbuilder \<Rightarrow> 'm rbuilder \<Rightarrow> 'm rbuilder" where
  "spoil x y = (if rb_group y = rb_group x \<and> \<not> prefix (rb_data y) (rb_data x) then y\<lparr>rb_valid := False\<rparr> else y)"

definition rec_Build :: "'m build_call \<Rightarrow> nat \<Rightarrow> 'm rlogger \<Rightarrow> 'm rlogger option" where
  "rec_Build c b d =
     (let x = rl_builders d ! b in
      if rb_valid x \<and> takes_data (rb_kind x)
      then Some (d\<lparr>rl_builders := (map (spoil x) (rl_builders d))[b := x\<lparr>rb_data := rb_data x @ [c]\<rparr>]\<rparr>) else None)"

definition rec_End :: "'m cenv \<Rightarrow> 'm line_end \<Rightarrow> nat \<Rightarrow> 'm rlogger \<Rightarrow> 'm rlogger option" where
  "rec_End env e l d =
     (let x = rl_builders d ! l in
      case rb_kind x of
        KLine frames pm t level \<Rightarrow>
          if rb_valid x
          then rec_emit env (RLine level t (bu_Trace (rn_bundle (rl_spans d ! rb_span x))) pm e (rb_data x) frames) d else None
      | _ \<Rightarrow> None)"

fun rec_new :: "'m cenv \<Rightarrow> create \<Rightarrow> chandle option \<Rightarrow> 'm rlogger \<Rightarrow> (chandle \<times> 'm rlogger) option" where
  "rec_new env (NRequest ts b n si) None d = map_option (\<lambda>(s, d). (CSpanH s, d)) (rec_Request env ts b n si d)"
| "rec_new env (NSpan ts b n code) (Some (CSpanH s)) d = map_option (\<lambda>(s, d). (CSpanH s, d)) (rec_Span env ts b n code s d)"
| "rec_new env NNoPrefill (Some (CSpanH s)) d = (let (p, d) = rec_start s (KPrefilled []) d in Some (CBuilderH p, d))"
| "rec_new env NStartPrefill (Some (CSpanH s)) d = (let (p, d) = rec_start s KPrefilling d in Some (CBuilderH p, d))"
| "rec_new env (NPrefillComplete m) (Some (CBuilderH p)) d =
     (if is_prefilling (rb_kind (rl_builders d ! p)) then let (p, d) = rec_copy p (KPrefilled m) d in Some (CBuilderH p, d) else None)"
| "rec_new env (NLine level t frames) (Some (CBuilderH p)) d =
     (case rb_kind (rl_builders d ! p) of
        KPrefilled m \<Rightarrow> (let (l, d) = rec_copy p (KLine frames m t level) d in Some (CBuilderH l, d))
      | _ \<Rightarrow> None)"
| "rec_new env _ _ d = None"

fun rec_do :: "'m cenv \<Rightarrow> 'm action \<Rightarrow> chandle \<Rightarrow> 'm rlogger \<Rightarrow> 'm rlogger option" where
  "rec_do env AFlush (CSpanH s) d = Some d"
| "rec_do env ASetErrorReporter (CSpanH s) d = Some d"
| "rec_do env (ADone t final) (CSpanH s) d = rec_Done env t s d"
| "rec_do env (ABoring b) (CSpanH s) d = Some d"
| "rec_do env (AMetadata k v) (CSpanH s) d = rec_Metadata env k v s d"
| "rec_do env (ABuild c) (CBuilderH b) d = rec_Build c b d"
| "rec_do env (AEnd e) (CBuilderH l) d = rec_End env e l d"
| "rec_do env _ _ d = None"

definition rec_base :: "string \<Rightarrow> 'm cenv \<Rightarrow> (chandle, 'm rlogger, 'm) base" where
  "rec_base ident env =
     \<lparr>b_ID = ident, b_ReferencesKept = True, b_Buffered = False, b_new = rec_new env, b_do = rec_do env,
      b_Final = (\<lambda>h d. Some d)\<rparr>"

text \<open>What is relied on: attributes of one registry, and the promises about the standard library.\<close>

fun console_cmd_ok :: "(string \<Rightarrow> Attribute) \<Rightarrow> 'm cmd \<Rightarrow> bool" where
  "console_cmd_ok reg (Do (AMetadata k v) n) = same_attribute (reg (at_key k)) k"
| "console_cmd_ok reg _ = True"

definition cenv_ok :: "'m cenv \<Rightarrow> bool" where
  "cenv_ok env \<longleftrightarrow> pieces_ok env \<and> ctexts_closed env \<and> (\<forall>n. order_ok (ce_order env n))"

end
