(* ===== verification/ConsoleParse.thy ===== *)
theory ConsoleParse
  imports ConsoleSpec AttributeJSON
begin

section \<open>Reading console lines\<close>

text \<open>
  Models the readers of \<open>xopconsole/replay.go\<close>: words, strings, models, the attributes of a line and the
  values of span metadata. A reader returns what it read, the character that ended it and the rest
  of the text; \<open>'\000'\<close> is the character for the end of the text. What comes from the standard library
  (\<open>strconv.Unquote\<close>, \<open>time.Parse\<close>, \<open>time.ParseDuration\<close>, \<open>strconv.ParseFloat\<close>) is in a record, with what
  \<open>xopat\<close> needs to register an attribute.
\<close>

datatype 'a parsed = Parsed 'a | Failed | Panics

record crenv =
  rp_unquote :: "string \<Rightarrow> string option"
  rp_RFC3339 :: "string \<Rightarrow> (int \<times> nat) option"
  rp_RFC3339Nano :: "string \<Rightarrow> (int \<times> nat) option"
  rp_duration :: "string \<Rightarrow> int option"
  rp_float :: "nat \<Rightarrow> string \<Rightarrow> u64 option"
  rp_strict :: "string \<Rightarrow> string option"
  rp_quote :: "string \<Rightarrow> string"
  rp_namespace :: string

definition NUL :: char where
  "NUL = CHR 0x00"

definition dquote :: char where
  "dquote = CHR 0x22"

subsection \<open>Words and strings\<close>

text \<open>\<open>strings.IndexAny\<close> cuts a text before the first character of the boundary.\<close>

definition before_any :: "string \<Rightarrow> string \<Rightarrow> string" where
  "before_any boundary = takeWhile (\<lambda>c. c \<notin> set boundary)"

definition from_any :: "string \<Rightarrow> string \<Rightarrow> string" where
  "from_any boundary = dropWhile (\<lambda>c. c \<notin> set boundary)"

definition oneWordTerminal :: "string \<Rightarrow> string \<Rightarrow> string \<times> char \<times> string" where
  "oneWordTerminal t boundary =
     (case from_any boundary t of [] \<Rightarrow> (t, NUL, []) | c # r \<Rightarrow> (before_any boundary t, c, r))"

definition oneWord :: "string \<Rightarrow> string \<Rightarrow> string \<times> char \<times> string" where
  "oneWord t boundary =
     (case from_any boundary t of [] \<Rightarrow> ([], NUL, t) | c # r \<Rightarrow> (before_any boundary t, c, r))"

text \<open>The loop that looks for the closing quote; a backslash takes the next character with it.\<close>

fun close_quote :: "string \<Rightarrow> (string \<times> string) option" where
  "close_quote [] = None"
| "close_quote [c] = (if c = CHR 0x22 then Some ([c], []) else None)"
| "close_quote (c # d # s) =
     (if c = CHR 0x22 then Some ([c], d # s)
      else if c = CHR 0x5C then map_option (\<lambda>(a, b). (c # d # a, b)) (close_quote s)
      else map_option (\<lambda>(a, b). (c # a, b)) (close_quote (d # s)))"

definition quoted_part :: "string \<Rightarrow> (string \<times> string) option" where
  "quoted_part t =
     (case t of [] \<Rightarrow> None
      | c # s \<Rightarrow> if c = dquote then map_option (\<lambda>(a, b). (c # a, b)) (close_quote s) else None)"

text \<open>\<open>UnquotedConsoleStringRE.FindString\<close>: the longest match, empty when there is none.\<close>

definition UnquotedConsoleString :: "string \<Rightarrow> string" where
  "UnquotedConsoleString t =
     (if t = [] \<or> \<not> isSafeEdge (hd t) then []
      else rev (dropWhile (\<lambda>c. c = CHR '':'') (rev (takeWhile (\<lambda>c. isSafeEdge c \<or> c = CHR '':'') t))))"

definition oneString :: "crenv \<Rightarrow> string \<Rightarrow> string \<times> string" where
  "oneString env t =
     (case quoted_part t of
        Some (a, b) \<Rightarrow> (case rp_unquote env a of Some one \<Rightarrow> (one, b) | None \<Rightarrow> ([], t))
      | None \<Rightarrow> (let one = UnquotedConsoleString t in (one, drop (length one) t)))"

definition oneStringAndSep :: "crenv \<Rightarrow> string \<Rightarrow> string \<times> char \<times> string" where
  "oneStringAndSep env t =
     (let (s, t) = oneString env t in case t of [] \<Rightarrow> (s, NUL, t) | c # r \<Rightarrow> (s, c, r))"

definition oneStringAndSpace :: "crenv \<Rightarrow> string \<Rightarrow> string \<times> string" where
  "oneStringAndSpace env t =
     (let (a, b) = oneString env t in
      if a = [] then (a, b) else case b of c # r \<Rightarrow> if c = CHR '' '' then (a, r) else (a, b) | [] \<Rightarrow> (a, b))"

definition oneWordMaybeQuoted :: "crenv \<Rightarrow> string \<Rightarrow> string \<Rightarrow> string \<times> char \<times> string" where
  "oneWordMaybeQuoted env t boundary =
     (if t = [] then ([], NUL, [])
      else case quoted_part t of
        Some (a, b) \<Rightarrow>
          (case rp_unquote env a of
             None \<Rightarrow> ([], NUL, t)
           | Some one \<Rightarrow> (case b of [] \<Rightarrow> (one, NUL, []) | c # r \<Rightarrow> (one, c, r)))
      | None \<Rightarrow> oneWord t boundary)"

definition unquote :: "crenv \<Rightarrow> string \<Rightarrow> string" where
  "unquote env t =
     (if t \<noteq> [] \<and> hd t = dquote then (case rp_unquote env t of Some u \<Rightarrow> u | None \<Rightarrow> t) else t)"

definition oneTime :: "crenv \<Rightarrow> string \<Rightarrow> (time \<times> nat) option \<times> string" where
  "oneTime env t = (let (w, _, t) = oneWord t '' '' in (rp_RFC3339 env w, t))"

subsection \<open>Numbers and booleans as \<open>strconv\<close> reads them\<close>

definition strconv_ParseInt :: "string \<Rightarrow> int option" where
  "strconv_ParseInt s =
     (let (neg, s) = (case s of c # r \<Rightarrow> if c = CHR ''-'' then (True, r) else if c = CHR ''+'' then (False, r) else (False, s)
                      | [] \<Rightarrow> (False, s)) in
      case ParseNat 10 s of
        None \<Rightarrow> None
      | Some n \<Rightarrow> if neg then (if n \<le> 2 ^ 63 then Some (- int n) else None) else if n < 2 ^ 63 then Some (int n) else None)"

definition strconv_ParseUint :: "string \<Rightarrow> nat option" where
  "strconv_ParseUint s = (case ParseNat 10 s of Some n \<Rightarrow> if n < 2 ^ 64 then Some n else None | None \<Rightarrow> None)"

definition strconv_ParseBool :: "string \<Rightarrow> bool option" where
  "strconv_ParseBool s =
     (if s \<in> set [''1'', ''t'', ''T'', ''TRUE'', ''true'', ''True''] then Some True
      else if s \<in> set [''0'', ''f'', ''F'', ''FALSE'', ''false'', ''False''] then Some False else None)"

subsection \<open>Models\<close>

text \<open>
  \<open>int(size)\<close> of a size from \<open>2 ^ 63\<close> is negative, so the comparison lets it through, and the slice
  panics.
\<close>

definition readAttributeAny :: "crenv \<Rightarrow> string \<Rightarrow> ('m ModelArg \<times> char \<times> string) parsed" where
  "readAttributeAny env t =
     (if t = [] \<or> hd t \<noteq> CHR ''('' then Failed
      else let (sizeString, sep, t) = oneWord (tl t) '')'' in
        case strconv_ParseUint sizeString of
          None \<Rightarrow> Failed
        | Some sz \<Rightarrow>
            if int (length t) \<le> sint (word_of_nat sz :: i64) then Failed
            else if length t < sz then Panics
            else let encoded = take sz t; (encodingString, sep, t) = oneWord (drop sz t) ''/'' in
              case Encoding_value encodingString of
                None \<Rightarrow> Failed
              | Some en \<Rightarrow>
                  (let (modelType, sep, t) = oneWordMaybeQuoted env t '' ,'' in
                   Parsed (\<lparr>ma_Encoding = en, ma_Encoded = encoded, ma_ModelType = modelType, ma_Model = None\<rparr>, sep, t)))"

subsection \<open>The stack of a line\<close>

lemma from_any_length: "length (from_any b t) \<le> length t"
  by (simp add: from_any_def length_dropWhile_le)

lemma oneWordTerminal_length: "oneWordTerminal t b = (w, c, r) \<Longrightarrow> length r \<le> length t \<and> (r \<noteq> [] \<longrightarrow> length r < length t)"
  using from_any_length [of b t] by (auto simp: oneWordTerminal_def split: list.splits)

lemma oneWord_length: "oneWord t b = (w, c, r) \<Longrightarrow> length r \<le> length t \<and> (c \<noteq> NUL \<longrightarrow> length r < length t)"
  using from_any_length [of b t] by (auto simp: oneWord_def split: list.splits)

text \<open>\<open>strings.LastIndexByte\<close>, and what is before and after it.\<close>

definition split_last_colon :: "string \<Rightarrow> (string \<times> string) option" where
  "split_last_colon w =
     (case dropWhile (\<lambda>c. c \<noteq> CHR '':'') (rev w) of
        [] \<Rightarrow> None
      | c # f \<Rightarrow> Some (rev f, rev (takeWhile (\<lambda>c. c \<noteq> CHR '':'') (rev w))))"

definition read_frame :: "string \<Rightarrow> frame option" where
  "read_frame w =
     (case split_last_colon w of
        None \<Rightarrow> None
      | Some (f, lineNum) \<Rightarrow> if lineNum = [] then None else map_option (\<lambda>num. (f, num)) (strconv_ParseInt lineNum))"

lemma oneWordTerminal_step:
  assumes "oneWordTerminal t b = (w, c, r)" "c \<noteq> NUL"
  shows "length r < length t"
  using assms from_any_length [of b t] by (auto simp: oneWordTerminal_def split: list.splits)

function read_stack :: "string \<Rightarrow> frame list option" where
  "read_stack t =
     (let (fileAndNumber, sep, t') = oneWordTerminal t '' '' in
      case read_frame fileAndNumber of
        None \<Rightarrow> None
      | Some f \<Rightarrow> if sep = NUL then Some [f] else map_option (\<lambda>fs. f # fs) (read_stack t'))"
  by auto

termination
  by (relation "measure length") (auto simp: oneWordTerminal_step [OF sym])

declare read_stack.simps [simp del]


subsection \<open>Reading makes the text shorter\<close>

lemma close_quote_append: "close_quote t = Some (a, b) \<Longrightarrow> t = a @ b \<and> a \<noteq> []"
proof (induction t arbitrary: a b rule: close_quote.induct)
  case (3 c d s)
  then show ?case by (force split: if_splits)
qed (auto split: if_splits)

lemma quoted_part_append: "quoted_part t = Some (a, b) \<Longrightarrow> t = a @ b \<and> a \<noteq> []"
  by (auto simp: quoted_part_def dest: close_quote_append split: list.splits if_splits)

lemma quoted_part_length: "quoted_part t = Some (a, b) \<Longrightarrow> length b < length t"
  using quoted_part_append [of t a b] by (cases a) auto

lemma oneString_length: "oneString env t = (s, r) \<Longrightarrow> length r \<le> length t"
  by (auto simp: oneString_def Let_def dest!: quoted_part_length split: option.splits)

lemma oneStringAndSep_length:
  assumes "oneStringAndSep env t = (s, c, r)"
  shows "length r \<le> length t" "c \<noteq> NUL \<Longrightarrow> length r < length t"
proof -
  obtain a b where ab: "oneString env t = (a, b)" by fastforce
  from oneString_length [OF ab] assms show "length r \<le> length t" "c \<noteq> NUL \<Longrightarrow> length r < length t"
    by (auto simp: oneStringAndSep_def ab split: list.splits)
qed

lemma oneWordMaybeQuoted_length:
  assumes "oneWordMaybeQuoted env t b = (w, c, r)"
  shows "length r \<le> length t" "c \<noteq> NUL \<Longrightarrow> length r < length t"
  using assms oneWord_length [of t b w c r]
  by (auto simp: oneWordMaybeQuoted_def dest!: quoted_part_length split: option.splits if_splits list.splits)

lemma readAttributeAny_length:
  assumes "readAttributeAny env t = Parsed (m, c, r)"
  shows "length r < length t"
proof -
  obtain w d u where w: "oneWord (tl t) '')'' = (w, d, u)" by (metis prod_cases3)
  from assms w obtain sz where u: "t \<noteq> []" "strconv_ParseUint w = Some sz"
    by (auto simp: readAttributeAny_def split: if_splits option.splits)
  obtain w2 d2 u2 where w2: "oneWord (drop sz u) ''/'' = (w2, d2, u2)" by (metis prod_cases3)
  obtain w3 d3 u3 where w3: "oneWordMaybeQuoted env u2 '' ,'' = (w3, d3, u3)" by (metis prod_cases3)
  from assms w w2 w3 u have "r = u3"
    by (simp add: readAttributeAny_def Let_def split: if_splits option.splits)
  with oneWordMaybeQuoted_length(1) [OF w3] oneWord_length [OF w2] oneWord_length [OF w] u(1)
  show ?thesis by (cases t) auto
qed

subsection \<open>The attributes of a line\<close>

text \<open>A type that \<open>StringToDataType\<close> does not have gives the zero value of the type.\<close>

definition dataTypeOf :: "string \<Rightarrow> int" where
  "dataTypeOf typ = (case StringToDataType typ of Some t \<Rightarrow> t | None \<Rightarrow> 0)"

definition typed_value :: "crenv \<Rightarrow> string \<Rightarrow> string \<Rightarrow> string \<Rightarrow> 'm build_call option" where
  "typed_value env key typ value =
     (if typ = ''bool'' then map_option (BBool key) (strconv_ParseBool value)
      else if typ = ''dur'' then map_option (BDuration key) (rp_duration env value)
      else if typ = ''f32'' then map_option (\<lambda>f. BFloat64 key f 3) (rp_float env 32 value)
      else if typ = ''f64'' then map_option (\<lambda>f. BFloat64 key f 2) (rp_float env 64 value)
      else if typ = ''string'' then Some (BString key value 9)
      else if typ = ''stringer'' then Some (BString key value 106)
      else if typ = ''error'' then Some (BString key value 107)
      else if typ \<in> set [''i8'', ''i16'', ''i32'', ''i64'', ''int''] then
        map_option (\<lambda>i. BInt64 key (word_of_int i) (dataTypeOf typ)) (strconv_ParseInt value)
      else if typ \<in> set [''u'', ''u8'', ''u16'', ''u32'', ''u64'', ''uintptr''] then
        map_option (\<lambda>i. BUint64 key (word_of_nat i) (dataTypeOf typ)) (strconv_ParseUint value)
      else if typ = ''time'' then map_option (\<lambda>(t, rep). BTime key t rep) (rp_RFC3339Nano env value)
      else None)"

definition untyped_value :: "string \<Rightarrow> string \<Rightarrow> 'm build_call option" where
  "untyped_value key value =
     (if value = [] then None
      else if hd value = CHR ''-'' \<or> isDigit (hd value) then
        map_option (\<lambda>i. BInt64 key (word_of_int i) 8) (strconv_ParseInt value)
      else if value = ''t'' then Some (BBool key True)
      else if value = ''f'' then Some (BBool key False)
      else Some (BString key value 9))"

type_synonym registered = "Registry \<times> i32"

text \<open>
  The switch on what ended the value. The calls are made later; the registry of the request has
  changed by then, whether the line is good or not.
\<close>

definition finish_value ::
    "crenv \<Rightarrow> string \<Rightarrow> string \<Rightarrow> char \<Rightarrow> string \<Rightarrow> 'm build_call list \<Rightarrow> registered \<Rightarrow>
     registered \<times> ('m build_call list \<times> string) parsed" where
  "finish_value env key value sep t calls reg =
     (if sep = CHR ''('' then
        (case from_any '')'' t of
           [] \<Rightarrow> (reg, Failed)
         | _ # u \<Rightarrow>
             (case typed_value env key (before_any '')'' t) value of
                None \<Rightarrow> (reg, Failed)
              | Some c \<Rightarrow> (reg, Parsed (calls @ [c], if u \<noteq> [] \<and> hd u = CHR '' '' then tl u else u))))
      else if sep = CHR '' '' \<or> sep = NUL then
        (case untyped_value key value of None \<Rightarrow> (reg, Failed) | Some c \<Rightarrow> (reg, Parsed (calls @ [c], t)))
      else if sep = CHR ''/'' then
        (case strconv_ParseInt value of
           None \<Rightarrow> (reg, Failed)
         | Some i \<Rightarrow>
             let (s, sep, t) = oneWordTerminal t '' '';
                 ((ea, err), reg) = Registry_Construct (rp_strict env) (rp_quote env) (rp_namespace env) EnumK
                   (zeroMake\<lparr>mk_Key := key\<rparr>) 14 reg
             in (case (ea, err) of
                   (Some ea, None) \<Rightarrow>
                     let (ea, enum) = Add64 (word_of_int i) s ea in (reg, Parsed (calls @ [BEnum ea enum], t))
                 | _ \<Rightarrow> (reg, Failed)))
      else (reg, Parsed (calls, t)))"

definition read_value ::
    "crenv \<Rightarrow> string \<Rightarrow> string \<Rightarrow> 'm build_call list \<Rightarrow> registered \<Rightarrow>
     registered \<times> ('m build_call list \<times> string) parsed" where
  "read_value env key t calls reg =
     (if t = [] then (reg, Failed)
      else if hd t = CHR ''('' then
        (case readAttributeAny env t of
           Failed \<Rightarrow> (reg, Failed)
         | Panics \<Rightarrow> (reg, Panics)
         | Parsed (ma, sep, t) \<Rightarrow>
             if sep = NUL then finish_value env key [] NUL t (calls @ [BAny key ma]) reg
             else (reg, Parsed (calls @ [BAny key ma], t)))
      else if hd t = dquote then
        (let (value, t) = oneString env t in
         case t of
           [] \<Rightarrow> finish_value env key value NUL [] (calls @ [BString key value 9]) reg
         | sep # t \<Rightarrow> finish_value env key value sep t calls reg)
      else
        (let (value, sep, t) = oneWordTerminal t '' (/'' in finish_value env key value sep t calls reg))"


lemma finish_value_length:
  assumes "finish_value env key value sep t calls reg = (reg', Parsed (calls', t'))"
  shows "length t' \<le> length t"
proof -
  have "length u \<le> length t" if "from_any '')'' t = c # u" for c u
    using from_any_length [of "'')''" t] that by simp
  moreover have "length u \<le> length t" if "oneWordTerminal t '' '' = (s, c, u)" for s c u
    using oneWordTerminal_length [OF that] by simp
  ultimately show ?thesis
    using assms by (fastforce simp: finish_value_def Let_def split: if_splits list.splits option.splits prod.splits)
qed

lemma read_value_length:
  assumes "read_value env key t calls reg = (reg', Parsed (calls', t'))"
  shows "length t' \<le> length t"
proof -
  consider (model) "t \<noteq> []" "hd t = CHR ''(''" | (quoted) "t \<noteq> []" "hd t = dquote"
    | (word) "t \<noteq> []" "hd t \<noteq> CHR ''(''" "hd t \<noteq> dquote"
    using assms by (auto simp: read_value_def split: if_splits)
  then show ?thesis
  proof cases
    case model
    with assms obtain ma sep u where r: "readAttributeAny env t = Parsed (ma, sep, u)" and
      "t' = u \<or> finish_value env key [] NUL u (calls @ [BAny key ma]) reg = (reg', Parsed (calls', t'))"
      by (auto simp: read_value_def split: parsed.splits if_splits)
    with finish_value_length readAttributeAny_length [OF r] show ?thesis by fastforce
  next
    case quoted
    then have "hd t \<noteq> CHR ''(''" by (simp add: dquote_def)
    moreover obtain v0 u where u: "oneString env t = (v0, u)" by fastforce
    ultimately obtain c v w where "finish_value env key v0 c v w reg = (reg', Parsed (calls', t'))" "length v \<le> length u"
      using assms quoted by (fastforce simp: read_value_def split: list.splits)
    with finish_value_length oneString_length [OF u] show ?thesis by fastforce
  next
    case word
    obtain v c u where u: "oneWordTerminal t '' (/'' = (v, c, u)" by (metis prod_cases3)
    with assms word have "finish_value env key v c u calls reg = (reg', Parsed (calls', t'))"
      by (simp add: read_value_def)
    with finish_value_length oneWordTerminal_length [OF u] show ?thesis by fastforce
  qed
qed

text \<open>A key and its value leave less text than there was.\<close>

lemma attribute_length:
  assumes "oneWord t ''=:'' = (key, CHR ''='', u)" "read_value env k u calls reg = (reg', Parsed (calls', t'))"
  shows "length t' < length t"
  using oneWord_length [OF assms(1)] read_value_length [OF assms(2)] by (simp add: NUL_def)

function read_attributes ::
    "crenv \<Rightarrow> string \<Rightarrow> 'm build_call list \<Rightarrow> registered \<Rightarrow> registered \<times> ('m build_call list \<times> frame list) parsed" where
  "read_attributes env t calls reg =
     (if t = [] then (reg, Parsed (calls, []))
      else let (key, sep, t') = oneWord t ''=:'' in
        if sep = CHR '':'' then
          (reg, if key = ''STACK'' \<and> t' \<noteq> [] \<and> hd t' = CHR '' '' then
                  (case read_stack (tl t') of Some frames \<Rightarrow> Parsed (calls, frames) | None \<Rightarrow> Failed)
                else Failed)
        else if sep = CHR ''='' then
          (case read_value env (unquote env key) t' calls reg of
             (reg, Parsed (calls, t')) \<Rightarrow> read_attributes env t' calls reg
           | (reg, Failed) \<Rightarrow> (reg, Failed)
           | (reg, Panics) \<Rightarrow> (reg, Panics))
        else (reg, Failed))"
  by auto

termination
  by (relation "measure (\<lambda>(env, t, calls, reg). length t)") (auto simp: attribute_length [OF sym sym])

declare read_attributes.simps [simp del]


subsection \<open>The message of a line\<close>

text \<open>What comes before the attributes: the message, or one of the prefixes with what follows it.\<close>

definition read_line_end :: "crenv \<Rightarrow> string \<Rightarrow> ('m line_end \<times> string) parsed" where
  "read_line_end env t =
     (let (message, t) = oneString env t in
      case t of
        [] \<Rightarrow> Parsed (LMsg message, [])
      | c # t \<Rightarrow>
          if c = CHR '' '' then Parsed (LMsg message, t)
          else if c = CHR '':'' then
            (if message = ''TEMPLATE'' then let (message, t) = oneStringAndSpace env t in Parsed (LTemplate message, t)
             else if message = ''MODEL'' then
               (let (message, t) = oneStringAndSpace env t in
                case readAttributeAny env t of
                  Failed \<Rightarrow> Failed
                | Panics \<Rightarrow> Panics
                | Parsed (ma, sep, t) \<Rightarrow> if sep = CHR '' '' \<or> sep = NUL then Parsed (LModel message ma, t) else Failed)
             else if message = ''LINK'' then
               (let (message, t) = oneStringAndSpace env t; (linkString, t) = oneStringAndSpace env t;
                    (lineLink, ok) = TraceFromString linkString
                in if ok then Parsed (LLink message lineLink, t) else Failed)
             else Failed)
          else Failed)"

subsection \<open>The values of span metadata\<close>

definition kind_of_type :: "int \<Rightarrow> attribute_kind option" where
  "kind_of_type t = find (\<lambda>k. kind_type k = t)
     [AnyK, BoolK, DurationK, EnumK, Float64K, IntK, Int16K, Int32K, Int64K, Int8K, LinkK, StringK, TimeK]"

text \<open>A value that is read as a string first and then converted.\<close>

definition string_value ::
    "crenv \<Rightarrow> (string \<Rightarrow> 'm metavalue option) \<Rightarrow> string \<Rightarrow> ('m metavalue \<times> char \<times> string) parsed" where
  "string_value env conv t =
     (let (value, sep, t) = oneStringAndSep env t in
      case conv value of Some v \<Rightarrow> Parsed (v, sep, t) | None \<Rightarrow> Failed)"

definition int_value :: "string \<Rightarrow> 'm metavalue option" where
  "int_value value = map_option (\<lambda>v. MInt64 (word_of_int v)) (strconv_ParseInt value)"

fun read_metadata :: "crenv \<Rightarrow> attribute_kind \<Rightarrow> string \<Rightarrow> ('m metavalue \<times> char \<times> string) parsed" where
  "read_metadata env AnyK t =
     (case readAttributeAny env t of Parsed (v, sep, t) \<Rightarrow> Parsed (MAny v, sep, t) | Failed \<Rightarrow> Failed | Panics \<Rightarrow> Panics)"
| "read_metadata env BoolK t = string_value env (\<lambda>value. Some (MBool (value = ''t''))) t"
| "read_metadata env DurationK t =
     string_value env (\<lambda>value. map_option (\<lambda>v. MInt64 (word_of_int v)) (rp_duration env value)) t"
| "read_metadata env EnumK t =
     (let (value, sep, t) = oneWord t ''/'' in
      if sep \<noteq> CHR ''/'' then Failed
      else case strconv_ParseInt value of
        None \<Rightarrow> Failed
      | Some i \<Rightarrow>
          let (s, sep, t) = oneWordTerminal t '' ,'' in
          if s = [] then Failed else Parsed (MEnum \<lparr>ev_value = word_of_int i, ev_str = s\<rparr>, sep, t))"
| "read_metadata env Float64K t = string_value env (\<lambda>value. map_option MFloat64 (rp_float env 64 value)) t"
| "read_metadata env IntK t = string_value env int_value t"
| "read_metadata env Int16K t = string_value env int_value t"
| "read_metadata env Int32K t = string_value env int_value t"
| "read_metadata env Int64K t = string_value env int_value t"
| "read_metadata env Int8K t = string_value env int_value t"
| "read_metadata env LinkK t =
     string_value env (\<lambda>value. case TraceFromString value of (v, ok) \<Rightarrow> if ok then Some (MLink v) else None) t"
| "read_metadata env StringK t = string_value env (\<lambda>value. Some (MString value)) t"
| "read_metadata env TimeK t =
     string_value env (\<lambda>value. map_option (\<lambda>(v, rep). MTime v rep) (rp_RFC3339Nano env value)) t"

lemma string_value_length:
  assumes "string_value env conv t = Parsed (v, c, r)"
  shows "length r \<le> length t" "c \<noteq> NUL \<Longrightarrow> length r < length t"
proof -
  obtain s d u where u: "oneStringAndSep env t = (s, d, u)" by (metis prod_cases3)
  with assms have "d = c" "u = r" by (auto simp: string_value_def split: option.splits)
  with oneStringAndSep_length [OF u] show "length r \<le> length t" "c \<noteq> NUL \<Longrightarrow> length r < length t" by simp_all
qed

lemma read_metadata_length:
  assumes "read_metadata env k t = Parsed (v :: 'm metavalue, c, r)"
  shows "length r \<le> length t" "c \<noteq> NUL \<Longrightarrow> length r < length t"
proof -
  have other: "length r \<le> length t \<and> (c \<noteq> NUL \<longrightarrow> length r < length t)" if "k \<noteq> AnyK" "k \<noteq> EnumK"
  proof -
    have "\<exists>conv. read_metadata env k t = (string_value env conv t :: ('m metavalue \<times> char \<times> string) parsed)"
      using that by (cases k) auto
    then obtain conv where "string_value env conv t = Parsed (v, c, r)" using assms by auto
    from string_value_length [OF this] show ?thesis by simp
  qed
  have "length r \<le> length t \<and> (c \<noteq> NUL \<longrightarrow> length r < length t)"
  proof (cases k)
    case AnyK
    with assms obtain m :: "'m ModelArg" where "readAttributeAny env t = Parsed (m, c, r)" by (auto split: parsed.splits)
    from readAttributeAny_length [OF this] show ?thesis by simp
  next
    case EnumK
    obtain w d u where u: "oneWord t ''/'' = (w, d, u)" by (metis prod_cases3)
    obtain s e x where x: "oneWordTerminal u '' ,'' = (s, e, x)" by (metis prod_cases3)
    from assms EnumK u x have "d = CHR ''/''" "e = c" "x = r" by (auto split: if_splits option.splits)
    with oneWord_length [OF u] oneWordTerminal_length [OF x] show ?thesis by (auto simp: NUL_def)
  qed (use other in simp_all)
  then show "length r \<le> length t" "c \<noteq> NUL \<Longrightarrow> length r < length t" by simp_all
qed

subsection \<open>The parameters of a request\<close>

text \<open>The three words that may follow the versions of a request.\<close>

definition request_param :: "string \<Rightarrow> string \<Rightarrow> Bundle \<Rightarrow> Bundle option" where
  "request_param word value b =
     (if word = ''parent'' then
        (if length value = 16 then
           (let p = Wrapped_Set TraceIDField (Trace_Get TraceIDField (bu_Trace b)) (initialize (bu_Parent b))
            in Some (b\<lparr>bu_Parent := Wrapped_SetString SpanIDField value (initialize p)\<rparr>))
         else let (p, ok) = Trace_SetString value (bu_Parent b) in if ok then Some (b\<lparr>bu_Parent := p\<rparr>) else None)
      else if word = ''state'' then Some (b\<lparr>bu_State := value\<rparr>)
      else if word = ''baggage'' then Some (b\<lparr>bu_Baggage := value\<rparr>)
      else None)"

text \<open>
  The loop over them. A word that is not ended by a space, a colon or an equal sign is not taken off
  the text, and the \<open>break\<close> of its case leaves the switch only: the loop may run forever, which is the
  outer \<^term>\<open>None\<close>; the inner one is an error.
\<close>

partial_function (option) request_params :: "crenv \<Rightarrow> string \<Rightarrow> Bundle \<Rightarrow> Bundle option option" where
  "request_params env t b =
     (if t = [] then Some (Some b)
      else let (word, sep, t) = oneWordMaybeQuoted env t '' :='' in
        if sep = NUL then (if word \<noteq> [] then Some None else request_params env t b)
        else if sep = CHR '':'' then
          (let (value, sep, t) = oneStringAndSep env t in
           if sep \<noteq> NUL \<and> sep \<noteq> CHR '' '' then Some None
           else case request_param word value b of None \<Rightarrow> Some None | Some b \<Rightarrow> request_params env t b)
        else Some None)"

declare request_params.simps [code]

subsection \<open>The code of a span\<close>

text \<open>\<open>shortCodeRE\<close>: what its group matched, empty when there is nothing for it to match.\<close>

definition shortCodeRE :: "string \<Rightarrow> string option" where
  "shortCodeRE s =
     (case s of c # s \<Rightarrow>
        if c = CHR ''T'' then
          (case digitsThen (CHR ''.'') s of
             Some s \<Rightarrow>
               if s \<noteq> [] \<and> isDigit (hd s) then
                 (let r = dropWhile isDigit s in
                  if r \<noteq> [] \<and> hd r = CHR ''.'' \<and> takeWhile (\<lambda>c. \<not> isGoSpace c) (tl r) \<noteq> []
                  then Some (CHR ''.'' # takeWhile (\<lambda>c. \<not> isGoSpace c) (tl r)) else Some [])
               else None
           | None \<Rightarrow> None)
        else None
      | [] \<Rightarrow> None)"

end
