(* ===== verification/ConsoleReplay.thy ===== *)
theory ConsoleReplay
  imports ConsoleParse
begin

section \<open>Replay of the console format\<close>

text \<open>
  Models the handlers of \<open>xopconsole/replay.go\<close> and \<open>Replay\<close>: a text is cut into lines, and every line that
  starts with \<open>xop\<close> makes calls on any other base logger. The requests that the maps point to are a
  store. A line that is in error is noted and the replay goes on; what the line did before the error
  stays. A panic and a loop that does not end are results of their own.
\<close>

subsection \<open>State\<close>

text \<open>
  \<open>cy_definitions\<close> are the attribute definitions; a request reads those of its id, unless a later request
  took the id: then it keeps what it had (\<open>rq_definitions\<close>).
\<close>

record replayRequest =
  rq_bundle :: Bundle
  rq_definitions :: "(string \<times> DecodeAttributeDefinition) list option"
  rq_registry :: Registry
  rq_version :: i64

record 'h replaySpan =
  ry_request :: nat
  ry_span :: 'h
  ry_version :: i64

record ('h, 'w) creplay =
  cy_dest :: 'w
  cy_spans :: "(HexBytes \<times> 'h replaySpan) list"
  cy_requests :: "(HexBytes \<times> 'h replaySpan) list"
  cy_store :: "replayRequest list"
  cy_definitions :: GlobalAttributeDefinitions
  cy_count :: i32
  cy_lineCount :: nat
  cy_errors :: "nat list"

datatype 's ran = Fine 's | Erring 's | Panicking | Hanging

definition requestID :: "replayRequest \<Rightarrow> string" where
  "requestID r = Wrapped_String SpanIDField (initialize (bu_Trace (rq_bundle r)))"

definition definition_of :: "GlobalAttributeDefinitions \<Rightarrow> replayRequest \<Rightarrow> string \<Rightarrow> DecodeAttributeDefinition option" where
  "definition_of g r key =
     (case rq_definitions r of
        None \<Rightarrow> Lookup (requestID r) key g
      | Some d \<Rightarrow> (case map_of d key of Some x \<Rightarrow> Some x | None \<Rightarrow> map_of (gd_CommonDefinitions g) key))"

text \<open>The registry of a request, together with the counter of all attributes.\<close>

definition registered :: "('h, 'w) creplay \<Rightarrow> nat \<Rightarrow> registered" where
  "registered st n = (rq_registry (cy_store st ! n), cy_count st)"

definition set_registered :: "nat \<Rightarrow> registered \<Rightarrow> ('h, 'w) creplay \<Rightarrow> ('h, 'w) creplay" where
  "set_registered n reg st =
     st\<lparr>cy_store := (cy_store st)[n := (cy_store st ! n)\<lparr>rq_registry := fst reg\<rparr>], cy_count := snd reg\<rparr>"

subsection \<open>Lines\<close>

fun do_builds :: "('h, 'w, 'm) base \<Rightarrow> 'm build_call list \<Rightarrow> 'h \<Rightarrow> 'w \<Rightarrow> 'w option" where
  "do_builds dest [] line w = Some w"
| "do_builds dest (c # cs) line w = (case b_do dest (ABuild c) line w of None \<Rightarrow> None | Some w \<Rightarrow> do_builds dest cs line w)"

text \<open>What a line does to the destination.\<close>

definition line_calls ::
    "('h, 'w, 'm) base \<Rightarrow> int \<Rightarrow> time \<Rightarrow> frame list \<Rightarrow> 'm build_call list \<Rightarrow> 'm line_end \<Rightarrow> 'h \<Rightarrow> 'w \<Rightarrow> 'w option" where
  "line_calls dest level ts frames calls e span w =
     (case b_new dest NNoPrefill (Some span) w of
        None \<Rightarrow> None
      | Some (p, w) \<Rightarrow>
          (case b_new dest (NLine level ts frames) (Some p) w of
             None \<Rightarrow> None
           | Some (line, w) \<Rightarrow>
               (case do_builds dest calls line w of None \<Rightarrow> None | Some w \<Rightarrow> b_do dest (AEnd e) line w)))"

definition to_dest :: "('w \<Rightarrow> 'w option) \<Rightarrow> ('h, 'w) creplay \<Rightarrow> ('h, 'w) creplay ran" where
  "to_dest f st = (case f (cy_dest st) of None \<Rightarrow> Panicking | Some w \<Rightarrow> Fine (st\<lparr>cy_dest := w\<rparr>))"

definition replay_text_line ::
    "crenv \<Rightarrow> ('h, 'w, 'm) base \<Rightarrow> int \<Rightarrow> string \<Rightarrow> ('h, 'w) creplay \<Rightarrow> ('h, 'w) creplay ran" where
  "replay_text_line env dest level t st =
     (case oneTime env t of
        (None, t) \<Rightarrow> Erring st
      | (Some (ts, rep), t) \<Rightarrow>
          let (spanIDString, _, t) = oneWordTerminal t '' '' in
          if spanIDString = [] then Erring st
          else case map_of (cy_spans st) (NewHexBytesFromString 8 spanIDString) of
            None \<Rightarrow> Erring st
          | Some spanData \<Rightarrow>
              (case read_line_end env t of
                 Failed \<Rightarrow> Erring st
               | Panics \<Rightarrow> Panicking
               | Parsed (e, t) \<Rightarrow>
                   let (reg, r) = read_attributes env t [] (registered st (ry_request spanData));
                       st = set_registered (ry_request spanData) reg st
                   in (case r of
                         Failed \<Rightarrow> Erring st
                       | Panics \<Rightarrow> Panicking
                       | Parsed (calls, frames) \<Rightarrow>
                           to_dest (line_calls dest level ts frames calls e (ry_span spanData)) st)))"

subsection \<open>Metadata\<close>

text \<open>Both loops of the reader make progress.\<close>

lemma value_length:
  assumes "read_metadata env k t = Parsed p" "(v, y) = p" "(c, r) = y"
  shows "(c = CHR '','' \<longrightarrow> length r < length t) \<and> (c \<noteq> CHR '','' \<longrightarrow> length r < length t \<or> length r = length t)"
  using read_metadata_length [of env k t v c r] assms by (auto simp: NUL_def)

lemma key_length: "x = oneWord t b \<Longrightarrow> (w, y) = x \<Longrightarrow> (c, r) = y \<Longrightarrow> c \<noteq> NUL \<Longrightarrow> length r < length t"
  using oneWord_length [of t b w c r] by auto

text \<open>
  The outer loop reads a key (\<open>d\<close> is \<^term>\<open>None\<close>), the inner loop the values for its definition.
  \<open>n\<close> is the request, \<open>h\<close> the span.
\<close>

function collectMetadata ::
    "crenv \<Rightarrow> ('h, 'w, 'm) base \<Rightarrow> nat \<Rightarrow> 'h \<Rightarrow> DecodeAttributeDefinition option \<Rightarrow> string \<Rightarrow>
     ('h, 'w) creplay \<Rightarrow> ('h, 'w) creplay ran" where
  "collectMetadata env dest n h None t st =
     (let (key, sep, t') = oneWord t ''='' in
      if sep = NUL then Fine st
      else case definition_of (cy_definitions st) (cy_store st ! n) key of
        None \<Rightarrow> Erring st
      | Some d \<Rightarrow> collectMetadata env dest n h (Some d) t' st)"
| "collectMetadata env dest n h (Some d) t st =
     (case kind_of_type (dd_AttributeType d) of
        None \<Rightarrow> Erring st
      | Some k \<Rightarrow>
          let ((ra, err), reg) = Registry_Construct (rp_strict env) (rp_quote env) (rp_namespace env) k (dd_Make d)
                (dd_AttributeType d) (registered st n);
              st = set_registered n reg st
          in (case (ra, err) of
                (Some ra, None) \<Rightarrow>
                  (case read_metadata env k t of
                     Failed \<Rightarrow> Erring st
                   | Panics \<Rightarrow> Panicking
                   | Parsed (v, sep, t') \<Rightarrow>
                       (case to_dest (b_do dest (AMetadata ra v) h) st of
                          Fine st \<Rightarrow> collectMetadata env dest n h (if sep = CHR '','' then Some d else None) t' st
                        | r \<Rightarrow> r))
              | _ \<Rightarrow> Erring st))"
  by pat_completeness auto

termination
  by (relation "measures [\<lambda>(env, dest, n, h, d, t, st). length t, \<lambda>(env, dest, n, h, d, t, st). if d = None then 0 else 1]")
    (simp_all add: key_length value_length del: read_metadata.simps)


declare collectMetadata.simps [simp del]

text \<open>Metadata and the end of a span, or of a request.\<close>

definition finish_span ::
    "crenv \<Rightarrow> ('h, 'w, 'm) base \<Rightarrow> time \<Rightarrow> 'h replaySpan \<Rightarrow> string \<Rightarrow> ('h, 'w) creplay \<Rightarrow> ('h, 'w) creplay ran" where
  "finish_span env dest ts s t st =
     (case collectMetadata env dest (ry_request s) (ry_span s) None t st of
        Fine st \<Rightarrow> to_dest (b_do dest (ADone ts False) (ry_span s)) st
      | r \<Rightarrow> r)"

subsection \<open>Spans\<close>

definition child_bundle :: "Bundle \<Rightarrow> HexBytes \<Rightarrow> HexBytes \<Rightarrow> Bundle" where
  "child_bundle b parentID spanID =
     b\<lparr>bu_Parent := Wrapped_Set SpanIDField parentID (initialize (bu_Trace b)),
       bu_Trace := Wrapped_Set SpanIDField spanID (initialize (bu_Trace b))\<rparr>"

definition start_span ::
    "('h, 'w, 'm) base \<Rightarrow> time \<Rightarrow> HexBytes \<Rightarrow> HexBytes \<Rightarrow> 'h replaySpan \<Rightarrow> string \<Rightarrow> string \<Rightarrow>
     ('h, 'w) creplay \<Rightarrow> ('h, 'w) creplay ran" where
  "start_span dest ts spanID parentID parent name code st =
     (let bundle = child_bundle (rq_bundle (cy_store st ! ry_request parent)) parentID spanID in
      case b_new dest (NSpan ts bundle name code) (Some (ry_span parent)) (cy_dest st) of
        None \<Rightarrow> Panicking
      | Some (h, w) \<Rightarrow> Fine (st\<lparr>cy_dest := w,
          cy_spans := aput spanID \<lparr>ry_request = ry_request parent, ry_span = h, ry_version = 0\<rparr> (cy_spans st)\<rparr>))"

definition replay_span_start ::
    "crenv \<Rightarrow> ('h, 'w, 'm) base \<Rightarrow> time \<Rightarrow> HexBytes \<Rightarrow> string \<Rightarrow> ('h, 'w) creplay \<Rightarrow> ('h, 'w) creplay ran" where
  "replay_span_start env dest ts spanID t st =
     (let (parentIDString, _, t) = oneWord t '' ''; parentID = NewHexBytesFromString 8 parentIDString in
      if parentIDString = [] then Erring st
      else case map_of (cy_spans st) parentID of
        None \<Rightarrow> Erring st
      | Some parent \<Rightarrow>
          let (name, t) = oneString env t;
              t = (if t \<noteq> [] \<and> hd t = CHR '' '' then tl t else t);
              (shortCode, _, t) = oneWordTerminal t '' ''
          in (case (if shortCode = [] then None else shortCodeRE shortCode) of
                None \<Rightarrow> Erring st
              | Some code \<Rightarrow> start_span dest ts spanID parentID parent name code st))"

definition replay_text_span ::
    "crenv \<Rightarrow> ('h, 'w, 'm) base \<Rightarrow> string \<Rightarrow> ('h, 'w) creplay \<Rightarrow> ('h, 'w) creplay ran" where
  "replay_text_span env dest t st =
     (case oneTime env t of
        (None, t) \<Rightarrow> Erring st
      | (Some (ts, rep), t) \<Rightarrow>
          let (n, _, t) = oneWord t '' '' in
          if n = [] then Erring st
          else let (spanIDString, sep, t) = oneWordTerminal t '' ''; spanID = NewHexBytesFromString 8 spanIDString in
            if spanIDString = [] then Erring st
            else if n = ''Start'' then replay_span_start env dest ts spanID t st
            else if hd n \<noteq> CHR ''v'' then Erring st
            else case strconv_ParseUint (tl n) of
              None \<Rightarrow> Erring st
            | Some v \<Rightarrow>
                (case map_of (cy_spans st) spanID of
                   None \<Rightarrow> Erring st
                 | Some s \<Rightarrow>
                     finish_span env dest ts s t
                       (st\<lparr>cy_spans := aput spanID (s\<lparr>ry_version := word_of_nat v\<rparr>) (cy_spans st)\<rparr>)))"

subsection \<open>Definitions\<close>

definition replay_text_def :: "string \<Rightarrow> ('h, 'w) creplay \<Rightarrow> ('h, 'w) creplay ran" where
  "replay_text_def t st =
     (let (_, _, t) = oneWord t '' '' in
      if t = [] \<or> hd t \<noteq> CHR ''{'' then Erring st
      else let (g, err) = Decode t (cy_definitions st) in
        if err then Erring (st\<lparr>cy_definitions := g\<rparr>) else Fine (st\<lparr>cy_definitions := g\<rparr>))"

subsection \<open>Requests\<close>

definition start_request ::
    "('h, 'w, 'm) base \<Rightarrow> time \<Rightarrow> Bundle \<Rightarrow> string \<Rightarrow> SourceInfo \<Rightarrow> ('h, 'w) creplay \<Rightarrow> ('h, 'w) creplay ran" where
  "start_request dest ts bundle name si st =
     (case b_new dest (NRequest ts bundle name si) None (cy_dest st) of
        None \<Rightarrow> Panicking
      | Some (h, w) \<Rightarrow>
          let n = length (cy_store st);
              r = \<lparr>rq_bundle = bundle, rq_definitions = None, rq_registry = NewRegistry False, rq_version = 0\<rparr>;
              ident = requestID r;
              g = cy_definitions st;
              keep = (\<lambda>x. if rq_definitions x = None \<and> requestID x = ident
                then x\<lparr>rq_definitions := map_of (gd_Requests g) ident\<rparr> else x);
              s = \<lparr>ry_request = n, ry_span = h, ry_version = 0\<rparr>;
              spanID = Trace_Get SpanIDField (bu_Trace bundle)
          in Fine (st\<lparr>cy_dest := w, cy_store := map keep (cy_store st) @ [r],
               cy_definitions := NewRequestAttributeDefinitions ident g,
               cy_spans := aput spanID s (cy_spans st), cy_requests := aput spanID s (cy_requests st)\<rparr>))"

definition replayRequestStart ::
    "crenv \<Rightarrow> ('h, 'w, 'm) base \<Rightarrow> time \<Rightarrow> string \<Rightarrow> ('h, 'w) creplay \<Rightarrow> ('h, 'w) creplay ran" where
  "replayRequestStart env dest ts t st =
     (let (th, _, t) = oneWord t '' ''; (trace, ok) = TraceFromString th in
      if th = [] \<or> \<not> ok then Erring st
      else let (name, t) = oneStringAndSpace env t in
      if name = [] then Erring st
      else let (sourceAndVersion, t) = oneStringAndSpace env t in
      if sourceAndVersion = [] then Erring st
      else let (namespaceAndVersion, t) = oneStringAndSpace env t in
      if namespaceAndVersion = [] then Erring st
      else case request_params env t \<lparr>bu_Parent = NewTrace, bu_Trace = trace, bu_State = [], bu_Baggage = []\<rparr> of
        None \<Rightarrow> Hanging
      | Some None \<Rightarrow> Erring st
      | Some (Some bundle) \<Rightarrow>
          let (ns, nsVers) = SplitVersion (rp_strict env) namespaceAndVersion;
              (so, soVers) = SplitVersion (rp_strict env) sourceAndVersion
          in start_request dest ts bundle name
               \<lparr>si_Source = so, si_SourceVersion = soVers, si_Namespace = ns, si_NamespaceVersion = nsVers\<rparr> st)"

definition replay_text_request ::
    "crenv \<Rightarrow> ('h, 'w, 'm) base \<Rightarrow> string \<Rightarrow> ('h, 'w) creplay \<Rightarrow> ('h, 'w) creplay ran" where
  "replay_text_request env dest t st =
     (case oneTime env t of
        (None, t) \<Rightarrow> Erring st
      | (Some (ts, rep), t) \<Rightarrow>
          let (n, _, t) = oneWord t '' '' in
          if n = [] then Erring st
          else if n = ''Start1'' then replayRequestStart env dest ts t st
          else if hd n \<noteq> CHR ''v'' then Erring st
          else case strconv_ParseInt (tl n) of
            None \<Rightarrow> Erring st
          | Some v \<Rightarrow>
              let (requestIDString, sep, t) = oneWordTerminal t '' '' in
              (case map_of (cy_requests st) (NewHexBytesFromString 8 requestIDString) of
                 None \<Rightarrow> Erring st
               | Some y \<Rightarrow>
                   finish_span env dest ts y t
                     (st\<lparr>cy_store := (cy_store st)[ry_request y := (cy_store st ! ry_request y)\<lparr>rq_version := word_of_int v\<rparr>]\<rparr>)))"

subsection \<open>The whole text\<close>

text \<open>
  \<open>bufio.Scanner\<close> with \<open>ScanLines\<close>: a carriage return before the newline is dropped, and a line that does
  not fit in \<open>MaxScanTokenSize\<close> ends the scan; nothing asks the scanner for its error.
\<close>

definition MaxScanTokenSize :: nat where
  "MaxScanTokenSize = 65536"

definition dropCR :: "string \<Rightarrow> string" where
  "dropCR l = (if l \<noteq> [] \<and> last l = CHR 0x0D then butlast l else l)"

function scan_lines :: "string \<Rightarrow> string list" where
  "scan_lines s =
     (if s = [] then []
      else let l = takeWhile (\<lambda>c. c \<noteq> CHR 0x0A) s in
        if MaxScanTokenSize \<le> length l then [] else dropCR l # scan_lines (tl (dropWhile (\<lambda>c. c \<noteq> CHR 0x0A) s)))"
  by auto

termination
proof (relation "measure length")
  fix s :: string and x
  assume "s \<noteq> []"
  then have "length s > 0" by simp
  with length_dropWhile_le [of "\<lambda>c. c \<noteq> CHR 0x0A" s] have "length (dropWhile (\<lambda>c. c \<noteq> CHR 0x0A) s) - 1 < length s" by linarith
  then show "(tl (dropWhile (\<lambda>c. c \<noteq> CHR 0x0A) s), s) \<in> measure length" by simp
qed simp

declare scan_lines.simps [simp del]

definition replay_levels :: "(string \<times> int) list" where
  "replay_levels = [(''alert'', AlertLevel), (''debug'', DebugLevel), (''error'', ErrorLevel), (''info'', InfoLevel),
     (''log'', LogLevel), (''trace'', TraceLevel), (''warn'', WarnLevel)]"

definition replay_kind ::
    "crenv \<Rightarrow> ('h, 'w, 'm) base \<Rightarrow> string \<Rightarrow> string \<Rightarrow> ('h, 'w) creplay \<Rightarrow> ('h, 'w) creplay ran" where
  "replay_kind env dest kind t st =
     (if kind = ''Request'' then replay_text_request env dest t st
      else if kind = ''Span'' then replay_text_span env dest t st
      else if kind = ''Def'' then replay_text_def t st
      else case map_of replay_levels kind of
        Some level \<Rightarrow> replay_text_line env dest level t st
      | None \<Rightarrow> Erring st)"

definition replay_one ::
    "crenv \<Rightarrow> ('h, 'w, 'm) base \<Rightarrow> string \<Rightarrow> ('h, 'w) creplay \<Rightarrow> ('h, 'w) creplay ran" where
  "replay_one env dest t st =
     (let st = st\<lparr>cy_lineCount := cy_lineCount st + 1\<rparr> in
      if \<not> prefix ''xop '' t then Fine st
      else let (kind, _, t) = oneWord (drop 4 t) '' '' in
        case replay_kind env dest kind t st of
          Erring st \<Rightarrow> Fine (st\<lparr>cy_errors := cy_errors st @ [cy_lineCount st]\<rparr>)
        | r \<Rightarrow> r)"

fun replay_all ::
    "crenv \<Rightarrow> ('h, 'w, 'm) base \<Rightarrow> string list \<Rightarrow> ('h, 'w) creplay \<Rightarrow> ('h, 'w) creplay ran" where
  "replay_all env dest [] st = Fine st"
| "replay_all env dest (l # ls) st = (case replay_one env dest l st of Fine st \<Rightarrow> replay_all env dest ls st | r \<Rightarrow> r)"

text \<open>\<open>count\<close> is the number of attributes that the program has registered so far.\<close>

definition new_creplay :: "i32 \<Rightarrow> 'w \<Rightarrow> ('h, 'w) creplay" where
  "new_creplay count w = \<lparr>cy_dest = w, cy_spans = [], cy_requests = [], cy_store = [],
     cy_definitions = NewGlobalAttributeDefinitions, cy_count = count, cy_lineCount = 0, cy_errors = []\<rparr>"

definition Console_Replay ::
    "crenv \<Rightarrow> ('h, 'w, 'm) base \<Rightarrow> i32 \<Rightarrow> string \<Rightarrow> 'w \<Rightarrow> ('h, 'w) creplay ran" where
  "Console_Replay env dest count input w =
     (case replay_all env dest (scan_lines input) (new_creplay count w) of
        Fine st \<Rightarrow> if cy_errors st \<noteq> [] then Erring st else Fine st
      | r \<Rightarrow> r)"

end
