(* ===== verification/ConsoleReadBack.thy ===== *)
theory ConsoleReadBack
  imports ConsoleReplay
begin

section \<open>Console texts read back\<close>

text \<open>
  Lemmas that relate the readers of \<open>ConsoleParse\<close> to the writers of \<open>ConsoleText\<close>. Not every text that the
  console logger writes is read back: the predicates whose names end in \<open>reads\<close> say for which
  values it is, and what they ask of the standard library.
\<close>

subsection \<open>Words\<close>

definition without :: "string \<Rightarrow> string \<Rightarrow> bool" where
  "without bs w \<longleftrightarrow> list_all (\<lambda>c. c \<notin> set bs) w"

lemma without_simps [simp]:
  "without bs []" "without bs (c # w) \<longleftrightarrow> c \<notin> set bs \<and> without bs w" "without bs (v @ w) \<longleftrightarrow> without bs v \<and> without bs w"
  by (simp_all add: without_def)

lemma without_split: "without bs w \<Longrightarrow> before_any bs (w @ r) = w @ before_any bs r \<and> from_any bs (w @ r) = from_any bs r"
  by (induction w) (simp_all add: before_any_def from_any_def)

lemma any_here [simp]: "c \<in> set bs \<Longrightarrow> before_any bs (c # r) = []" "c \<in> set bs \<Longrightarrow> from_any bs (c # r) = c # r"
  by (simp_all add: before_any_def from_any_def)

lemma any_nil [simp]: "before_any bs [] = []" "from_any bs [] = []"
  by (simp_all add: before_any_def from_any_def)

lemma oneWord_until: "without bs w \<Longrightarrow> c \<in> set bs \<Longrightarrow> oneWord (w @ c # r) bs = (w, c, r)"
  by (simp add: oneWord_def without_split)

lemma oneWord_none: "without bs w \<Longrightarrow> oneWord w bs = ([], NUL, w)"
  using without_split [of bs w "[]"] by (simp add: oneWord_def)

lemma oneWordTerminal_until: "without bs w \<Longrightarrow> c \<in> set bs \<Longrightarrow> oneWordTerminal (w @ c # r) bs = (w, c, r)"
  by (simp add: oneWordTerminal_def without_split)

lemma oneWordTerminal_end: "without bs w \<Longrightarrow> oneWordTerminal w bs = (w, NUL, [])"
  using without_split [of bs w "[]"] by (simp add: oneWordTerminal_def)

lemma oneWord_char: "c \<in> set bs \<Longrightarrow> oneWord (c # r) bs = ([], c, r)"
  by (simp add: oneWord_def)

text \<open>What follows a word: the character that ends it and the rest, or the end of the text.\<close>

definition ending :: "string \<Rightarrow> char \<times> string" where
  "ending r = (case r of [] \<Rightarrow> (NUL, []) | c # r \<Rightarrow> (c, r))"

lemma ending_simps [simp]: "ending [] = (NUL, [])" "ending (c # r) = (c, r)"
  by (simp_all add: ending_def)

definition ends_by :: "string \<Rightarrow> string \<Rightarrow> bool" where
  "ends_by bs r \<longleftrightarrow> r = [] \<or> hd r \<in> set bs"

lemma oneWordTerminal_ends: "without bs w \<Longrightarrow> ends_by bs r \<Longrightarrow> oneWordTerminal (w @ r) bs = (w, ending r)"
  by (cases r) (simp_all add: ends_by_def oneWordTerminal_end oneWordTerminal_until)

subsection \<open>Strings\<close>

lemma close_quote_more: "close_quote s = Some (a, b) \<Longrightarrow> close_quote (s @ r) = Some (a, b @ r)"
proof (induction s arbitrary: a b rule: close_quote.induct)
  case (2 c)
  then show ?case by (cases r) (simp_all split: if_splits)
qed (auto split: if_splits)

lemma quoted_part_more: "quoted_part w = Some (a, b) \<Longrightarrow> quoted_part (w @ r) = Some (a, b @ r)"
  by (auto simp: quoted_part_def close_quote_more split: list.splits if_splits)

definition quoted_reads :: "crenv \<Rightarrow> string \<Rightarrow> string \<Rightarrow> bool" where
  "quoted_reads env w s \<longleftrightarrow> quoted_part w = Some (w, []) \<and> rp_unquote env w = Some s"

lemma quoted_reads_string: "quoted_reads env w s \<Longrightarrow> oneString env (w @ r) = (s, r)"
  using quoted_part_more [of w w "[]" r] by (simp add: quoted_reads_def oneString_def)

lemma quoted_reads_start: "quoted_reads env w s \<Longrightarrow> \<exists>v. w = dquote # v"
  by (cases w) (auto simp: quoted_reads_def quoted_part_def split: if_splits)

lemma quoted_reads_word:
  "quoted_reads env w s \<Longrightarrow> oneWordMaybeQuoted env (w @ r) bs = (s, ending r)"
  using quoted_part_more [of w w "[]" r] quoted_reads_start [of env w s]
  by (auto simp: quoted_reads_def oneWordMaybeQuoted_def split: list.splits)

text \<open>The characters of an unquoted string, and what may follow one.\<close>

definition in_console :: "char \<Rightarrow> bool" where
  "in_console c \<longleftrightarrow> isSafeEdge c \<or> c = CHR '':''"

definition stops :: "string \<Rightarrow> bool" where
  "stops r \<longleftrightarrow> set (takeWhile in_console r) \<subseteq> {CHR '':''}"

lemma text_stops_simps [simp]: "stops []" "\<not> in_console c \<Longrightarrow> stops (c # r)" "stops (CHR '':'' # r) \<longleftrightarrow> stops r"
  by (auto simp: stops_def in_console_def)

lemma dropWhile_colons: "set v \<subseteq> {CHR '':''} \<Longrightarrow> dropWhile (\<lambda>c. c = CHR '':'') (v @ w) = dropWhile (\<lambda>c. c = CHR '':'') w"
  by (induction v) auto

lemma UnquotedConsoleString_safe:
  assumes "safeRE s" "stops r"
  shows "UnquotedConsoleString (s @ r) = s"
proof -
  have all: "\<forall>c \<in> set s. in_console c" using assms(1) by (auto simp: safeRE_def in_console_def list_all_iff)
  have "takeWhile in_console (s @ r) = s @ takeWhile in_console r" using all by simp
  moreover have "set (rev (takeWhile in_console r)) \<subseteq> {CHR '':''}" using assms(2) by (simp add: stops_def)
  moreover have "s \<noteq> []" "isSafeEdge (hd s)" "isSafeEdge (last s)" using assms(1) by (simp_all add: safeRE_def)
  moreover have "\<not> isSafeEdge (CHR '':'')" by code_simp
  ultimately show ?thesis
    by (cases s rule: rev_cases)
      (auto simp: UnquotedConsoleString_def in_console_def [abs_def] dropWhile_colons hd_append split: if_splits)
qed

lemma safe_oneString:
  assumes "safeRE s" "stops r"
  shows "oneString env (s @ r) = (s, r)"
proof -
  have "\<not> isSafeEdge dquote" by code_simp
  with assms(1) have "quoted_part (s @ r) = None"
    by (cases s) (auto simp: quoted_part_def safeRE_def)
  then show ?thesis by (simp add: oneString_def UnquotedConsoleString_safe [OF assms])
qed

definition unquoted :: "string \<Rightarrow> bool" where
  "unquoted s \<longleftrightarrow> safeRE s \<and> s \<noteq> ''t'' \<and> s \<noteq> ''f''"

text \<open>A string that the console logger writes and the replay reads.\<close>

definition string_text :: "'m cenv \<Rightarrow> string \<Rightarrow> string" where
  "string_text env s = chunk_text (console_string env s)"

definition string_reads :: "'m cenv \<Rightarrow> crenv \<Rightarrow> string \<Rightarrow> bool" where
  "string_reads env renv s \<longleftrightarrow> unquoted s \<or> quoted_reads renv (ce_quote env s) s"

lemma string_text_cases: "string_text env s = (if unquoted s then s else ce_quote env s)"
  by (simp add: string_text_def console_string_def unquoted_def)

lemma oneString_text: "string_reads env renv s \<Longrightarrow> stops r \<Longrightarrow> oneString renv (string_text env s @ r) = (s, r)"
  by (auto simp: string_reads_def string_text_cases safe_oneString quoted_reads_string unquoted_def)

lemma oneStringAndSpace_text:
  "string_reads env renv s \<Longrightarrow> s \<noteq> [] \<Longrightarrow> oneStringAndSpace renv (string_text env s @ CHR '' '' # r) = (s, r)"
proof -
  assume "string_reads env renv s" "s \<noteq> []"
  moreover have "\<not> in_console (CHR '' '')" by code_simp
  ultimately show "oneStringAndSpace renv (string_text env s @ CHR '' '' # r) = (s, r)"
    by (simp add: oneStringAndSpace_def oneString_text)
qed

lemma oneStringAndSpace_end:
  "string_reads env renv s \<Longrightarrow> oneStringAndSpace renv (string_text env s) = (s, [])"
  using oneString_text [of env renv s "[]"] by (simp add: oneStringAndSpace_def)

lemma oneStringAndSep_text:
  "string_reads env renv s \<Longrightarrow> stops r \<Longrightarrow> oneStringAndSep renv (string_text env s @ r) = (s, ending r)"
  by (simp add: oneStringAndSep_def oneString_text ending_def split: list.splits)

lemma quoted_reads_sep: "quoted_reads renv w s \<Longrightarrow> oneStringAndSep renv (w @ r) = (s, ending r)"
  by (simp add: oneStringAndSep_def quoted_reads_string ending_def split: list.splits)

lemma safe_sep: "safeRE s \<Longrightarrow> stops r \<Longrightarrow> oneStringAndSep renv (s @ r) = (s, ending r)"
  by (simp add: oneStringAndSep_def safe_oneString ending_def split: list.splits)

subsection \<open>Numbers\<close>

definition no_number :: "string \<Rightarrow> bool" where
  "no_number bs \<longleftrightarrow> list_all (\<lambda>c. \<not> isDigit c \<and> c \<noteq> CHR ''-'') bs"

lemma formatNat_first: "\<exists>c s. formatNat 10 n = c # s \<and> isDigit c"
  using formatNat_digits [of n] formatNat_nonempty [of 10 n] by (cases "formatNat 10 n") auto

lemma FormatInt_first: "\<exists>c s. FormatInt i 10 = c # s \<and> (isDigit c \<or> c = CHR ''-'')"
  using formatNat_first [of "nat i"] by (auto simp: FormatInt_def)

lemma FormatInt_without: "no_number bs \<Longrightarrow> without bs (FormatInt i 10)"
proof -
  assume b: "no_number bs"
  have "without bs (formatNat 10 n)" for n
    using formatNat_digits [of n] b by (auto simp: without_def no_number_def list_all_iff)
  moreover have "CHR ''-'' \<notin> set bs" using b by (auto simp: no_number_def list_all_iff)
  ultimately show ?thesis by (simp add: FormatInt_def)
qed

lemma ParseInt_FormatInt:
  assumes "- (2 ^ 63) \<le> i" "i < 2 ^ 63"
  shows "strconv_ParseInt (FormatInt i 10) = Some i"
proof -
  obtain c s where c: "formatNat 10 (nat i) = c # s" "isDigit c" using formatNat_first by blast
  then have "c \<noteq> CHR ''-''" "c \<noteq> CHR ''+''" by (auto simp: isDigit_def)
  then show ?thesis
    using assms c(1) ParseNat_formatNat [of 10 "nat i"] ParseNat_formatNat [of 10 "nat (- i)"]
    by (simp add: strconv_ParseInt_def FormatInt_def nat_less_iff nat_le_iff)
qed

lemma sint_word_of_int: "- (2 ^ 63) \<le> i \<Longrightarrow> i < 2 ^ 63 \<Longrightarrow> sint (word_of_int i :: i64) = i"
  by (simp add: signed_of_int signed_take_bit_int_eq_self)

lemma ParseInt_word: "strconv_ParseInt (FormatInt (sint (w :: i64)) 10) = Some (sint w)"
  using sint_greater_eq [of w] sint_lt [of w] by (simp add: ParseInt_FormatInt)

lemma ParseUint_FormatInt: "n < 2 ^ 64 \<Longrightarrow> strconv_ParseUint (FormatInt (int n) 10) = Some n"
  by (simp add: strconv_ParseUint_def FormatInt_def ParseNat_formatNat)

lemma ParseUint_word: "strconv_ParseUint (FormatInt (uint (w :: u64)) 10) = Some (unat w)"
proof -
  have "unat w < 2 ^ 64" using unsigned_less [of w] by simp
  from ParseUint_FormatInt [OF this] show ?thesis by (simp only: uint_nat)
qed

subsection \<open>Models\<close>

definition model_reads :: "'m cenv \<Rightarrow> crenv \<Rightarrow> 'm ModelArg \<Rightarrow> bool" where
  "model_reads env renv v \<longleftrightarrow>
     (let v = ModelArg_Encode (jt_ms (ce_texts env)) v in
      length (ma_Encoded v) < 2 ^ 63 \<and> mapLiteral Encoding_name (ma_Encoding v) \<noteq> None \<and>
      quoted_reads renv (text_of (json_string (ma_ModelType v))) (ma_ModelType v))"

text \<open>A model comes back as its encoded form.\<close>

definition replayed_model :: "'m cenv \<Rightarrow> 'm ModelArg \<Rightarrow> 'm ModelArg" where
  "replayed_model env v = (ModelArg_Encode (jt_ms (ce_texts env)) v)\<lparr>ma_Model := None\<rparr>"

lemma Encoding_names: "list_all (\<lambda>p. without ''/'' (snd p)) Encoding_name" "bijective_table Encoding_name"
  by (simp_all add: Encoding_name_def bijective_table_def)

lemma Encoding_reads:
  assumes "mapLiteral Encoding_name e = Some s"
  shows "without ''/'' s" "Encoding_value s = Some e" "Encoding_ToString e = s"
proof -
  have "(e, s) \<in> set Encoding_name"
    using assms Encoding_names(2) mapLiteral_distinct by (fastforce simp: bijective_table_def)
  with Encoding_names(1) show "without ''/'' s" by (auto simp: list_all_iff)
  show "Encoding_value s = Some e" using assms mapLiteral_swap [OF Encoding_names(2)] by (simp add: Encoding_value_def)
  show "Encoding_ToString e = s" using assms by (simp add: Encoding_ToString_def)
qed

lemma readAttributeAny_text:
  assumes "model_reads env renv v"
  shows "readAttributeAny renv (text_of (cb_AnyCommon env v) @ r) = Parsed (replayed_model env v, ending r)"
proof -
  define u where "u = ModelArg_Encode (jt_ms (ce_texts env)) v"
  define n where "n = length (ma_Encoded u)"
  define w where "w = text_of (json_string (ma_ModelType u))"
  from assms obtain s where s: "n < 2 ^ 63" "mapLiteral Encoding_name (ma_Encoding u) = Some s"
      "quoted_reads renv w (ma_ModelType u)"
    by (auto simp: model_reads_def Let_def u_def n_def w_def)
  note e = Encoding_reads [OF s(2)]
  let ?t = "ma_Encoded u @ s @ CHR ''/'' # w @ r"
  have t: "text_of (cb_AnyCommon env v) @ r = CHR ''('' # FormatInt (int n) 10 @ CHR '')'' # ?t"
    using e(3) by (simp add: cb_AnyCommon_def Let_def u_def n_def w_def)
  have a: "oneWord (FormatInt (int n) 10 @ CHR '')'' # ?t) '')'' = (FormatInt (int n) 10, CHR '')'', ?t)"
    by (rule oneWord_until) (simp_all add: FormatInt_without no_number_def isDigit_def)
  have b: "strconv_ParseUint (FormatInt (int n) 10) = Some n"
    using s(1) by (simp add: ParseUint_FormatInt)
  have c: "sint (word_of_nat n :: i64) = int n"
    using s(1) by (simp add: sint_word_of_int [of "int n", simplified])
  have d: "oneWord (drop n ?t) ''/'' = (s, CHR ''/'', w @ r)" "take n ?t = ma_Encoded u"
    using oneWord_until [OF e(1), of "CHR ''/''" "w @ r"] by (simp_all add: n_def)
  have "replayed_model env v = \<lparr>ma_Encoding = ma_Encoding u, ma_Encoded = ma_Encoded u, ma_ModelType = ma_ModelType u,
      ma_Model = None\<rparr>"
    by (simp add: replayed_model_def u_def)
  moreover have "\<not> int (length ?t) \<le> int n" "\<not> length ?t < n" by (simp_all add: n_def)
  ultimately show ?thesis
    using a b c d e(2) quoted_reads_word [OF s(3), of r "'' ,''"]
    by (simp add: t readAttributeAny_def Let_def del: append_assoc)
qed

subsection \<open>Stacks\<close>

definition frame_reads :: "frame \<Rightarrow> bool" where
  "frame_reads f \<longleftrightarrow> unquoted (fst f) \<and> - (2 ^ 63) \<le> snd f \<and> snd f < 2 ^ 63"

definition frame_text :: "'m cenv \<Rightarrow> frame \<Rightarrow> string" where
  "frame_text env f = string_text env (fst f) @ CHR '':'' # FormatInt (sint (word_of_int (snd f) :: i64)) 10"

lemma stack_chunks_text:
  "text_of (stack_chunks env frames) =
     (if frames = [] then [] else '' STACK:'' @ concat (map (\<lambda>f. CHR '' '' # frame_text env f) frames))"
proof -
  have "text_of (concat (map (\<lambda>(file, line). [Own '' '', console_string env file, Own '':'',
      Pieces (FormatInt (sint (word_of_int line :: i64)) 10)]) fs)) = concat (map (\<lambda>f. CHR '' '' # frame_text env f) fs)" for fs
    by (induction fs) (auto simp: frame_text_def string_text_def)
  then show ?thesis by (simp add: stack_chunks_def)
qed

lemma split_last_colon_text: "without '':'' w \<Longrightarrow> split_last_colon (f @ CHR '':'' # w) = Some (f, w)"
proof -
  assume "without '':'' w"
  then have w: "\<And>c. c \<in> set (rev w) \<Longrightarrow> c \<noteq> CHR '':''" by (auto simp: without_def list_all_iff)
  have "dropWhile (\<lambda>c. c \<noteq> CHR '':'') (rev w @ CHR '':'' # rev f) = CHR '':'' # rev f"
    using w by (subst dropWhile_append2) auto
  moreover have "takeWhile (\<lambda>c. c \<noteq> CHR '':'') (rev w @ CHR '':'' # rev f) = rev w"
    using w by (subst takeWhile_append2) auto
  ultimately show ?thesis by (simp add: split_last_colon_def)
qed

lemma unquoted_without_space: "unquoted s \<Longrightarrow> without '' '' s"
proof -
  have "\<not> isSafeEdge (CHR '' '')" by code_simp
  then show "unquoted s \<Longrightarrow> without '' '' s" by (auto simp: unquoted_def safeRE_def without_def list_all_iff)
qed

lemma frame_text_reads:
  assumes "frame_reads f"
  shows "read_frame (frame_text env f) = Some f" "without '' '' (frame_text env f)"
proof -
  have l: "sint (word_of_int (snd f) :: i64) = snd f" using assms by (simp add: frame_reads_def sint_word_of_int)
  have u: "string_text env (fst f) = fst f" using assms by (simp add: frame_reads_def string_text_cases)
  have n: "without '':'' (FormatInt (snd f) 10)" "without '' '' (FormatInt (snd f) 10)"
    by (rule FormatInt_without; simp add: no_number_def isDigit_def)+
  then show "without '' '' (frame_text env f)"
    using assms unquoted_without_space [of "fst f"] by (simp add: frame_text_def u l frame_reads_def)
  show "read_frame (frame_text env f) = Some f"
    using assms n FormatInt_first [of "snd f"]
    by (auto simp: frame_text_def u l read_frame_def split_last_colon_text frame_reads_def ParseInt_FormatInt)
qed

lemma read_stack_text:
  "frames \<noteq> [] \<Longrightarrow> list_all frame_reads frames \<Longrightarrow>
   read_stack (tl (concat (map (\<lambda>f. CHR '' '' # frame_text env f) frames))) = Some frames"
proof (induction frames)
  case (Cons f fs)
  note f = frame_text_reads [of f env]
  show ?case
  proof (cases fs)
    case Nil
    with Cons.prems f oneWordTerminal_end [of "'' ''" "frame_text env f"] show ?thesis by (subst read_stack.simps) simp
  next
    case (Cons g gs)
    let ?r = "tl (concat (map (\<lambda>f. CHR '' '' # frame_text env f) fs))"
    have "oneWordTerminal (frame_text env f @ CHR '' '' # ?r) '' '' = (frame_text env f, CHR '' '', ?r)"
      using f Cons.prems by (intro oneWordTerminal_until) simp_all
    with f Cons Cons.prems Cons.IH show ?thesis by (subst read_stack.simps) (simp add: NUL_def)
  qed
qed simp

subsection \<open>The data of a line\<close>

definition key_reads :: "'m cenv \<Rightarrow> crenv \<Rightarrow> string \<Rightarrow> bool" where
  "key_reads env renv k \<longleftrightarrow> without ''=:'' (string_text env k) \<and> unquote renv (string_text env k) = k"

text \<open>A word that ends where its type or the next attribute starts.\<close>

definition plain_text :: "string \<Rightarrow> bool" where
  "plain_text w \<longleftrightarrow> w \<noteq> [] \<and> hd w \<noteq> dquote \<and> without '' (/'' w"

definition is_number :: "string \<Rightarrow> bool" where
  "is_number v \<longleftrightarrow> v \<noteq> [] \<and> (hd v = CHR ''-'' \<or> isDigit (hd v))"

fun call_reads :: "'m cenv \<Rightarrow> crenv \<Rightarrow> bool \<Rightarrow> 'm build_call \<Rightarrow> bool" where
  "call_reads env renv final (BEnum k v) =
     (at_consoleKey k = string_text env (at_key k) @ ''='' \<and> key_reads env renv (at_key k) \<and> unquoted (ev_str v))"
| "call_reads env renv final (BFloat64 k v t) =
     (let w = jt_float (ce_texts env) v in key_reads env renv k \<and> plain_text w \<and>
      t \<in> {2, 3} \<and> rp_float renv (if t = 3 then 32 else 64) w = Some v)"
| "call_reads env renv final (BInt64 k v t) = (key_reads env renv k \<and> t \<in> {4, 5, 6, 7, 8})"
| "call_reads env renv final (BString k v t) =
     (key_reads env renv k \<and> string_reads env renv v \<and> (unquoted v \<longrightarrow> without ''/'' v) \<and>
      (t \<in> {106, 107} \<or>
       t = 9 \<and> v \<noteq> [] \<and> \<not> is_number v \<and> v \<noteq> ''t'' \<and> v \<noteq> ''f'' \<and> (final \<longrightarrow> unquoted v)))"
| "call_reads env renv final (BUint64 k v t) = (key_reads env renv k \<and> t \<in> {100, 101, 102, 103, 104, 105})"
| "call_reads env renv final (BAny k v) = (key_reads env renv k \<and> model_reads env renv v \<and> \<not> final)"
| "call_reads env renv final (BBool k v) = key_reads env renv k"
| "call_reads env renv final (BDuration k v) =
     (let w = jt_duration (ce_texts env) (word_of_int v) in key_reads env renv k \<and> plain_text w \<and> rp_duration renv w = Some v)"
| "call_reads env renv final (BTime k t rep) =
     (let w = jt_time (ce_texts env) t rep in key_reads env renv k \<and> plain_text w \<and>
      map_option fst (rp_RFC3339Nano renv w) = Some t)"

text \<open>
  What the replay makes of a call: an enum gets an attribute of the registry of the replay, which may refuse
  it, a model its encoded form, and a time the location that the parser gives it.
\<close>

fun replayed_call :: "'m cenv \<Rightarrow> crenv \<Rightarrow> 'm build_call \<Rightarrow> registered \<Rightarrow> registered \<times> 'm build_call option" where
  "replayed_call env renv (BEnum k v) reg =
     (case Registry_Construct (rp_strict renv) (rp_quote renv) (rp_namespace renv) EnumK (zeroMake\<lparr>mk_Key := at_key k\<rparr>) 14 reg of
        ((Some a, None), reg) \<Rightarrow> (reg, Some (BEnum (fst (Add64 (ev_value v) (ev_str v) a)) v))
      | (_, reg) \<Rightarrow> (reg, None))"
| "replayed_call env renv (BAny k v) reg = (reg, Some (BAny k (replayed_model env v)))"
| "replayed_call env renv (BTime k t rep) reg =
     (reg, Some (BTime k t (snd (the (rp_RFC3339Nano renv (jt_time (ce_texts env) t rep))))))"
| "replayed_call env renv c reg = (reg, Some c)"

fun replayed_calls ::
    "'m cenv \<Rightarrow> crenv \<Rightarrow> 'm build_call list \<Rightarrow> registered \<Rightarrow> registered \<times> 'm build_call list option" where
  "replayed_calls env renv [] reg = (reg, Some [])"
| "replayed_calls env renv (c # cs) reg =
     (case replayed_call env renv c reg of
        (reg, None) \<Rightarrow> (reg, None)
      | (reg, Some c) \<Rightarrow> (case replayed_calls env renv cs reg of (reg, r) \<Rightarrow> (reg, map_option (\<lambda>cs. c # cs) r)))"

text \<open>What follows the data: nothing, or a space.\<close>

definition goes_on :: "string \<Rightarrow> bool" where
  "goes_on r \<longleftrightarrow> r = [] \<or> hd r = CHR '' ''"

lemma goes_on_cases: "goes_on r \<Longrightarrow> (r = [] \<Longrightarrow> P) \<Longrightarrow> (\<And>s. r = CHR '' '' # s \<Longrightarrow> P) \<Longrightarrow> P"
  by (cases r) (auto simp: goes_on_def)

lemma goes_on_ends: "goes_on r \<Longrightarrow> CHR '' '' \<in> set bs \<Longrightarrow> ends_by bs r"
  by (auto simp: goes_on_def ends_by_def)

lemma read_key:
  assumes "key_reads env renv k"
  shows "read_attributes renv (string_text env k @ CHR ''='' # t) acc reg =
    (case read_value renv k t acc reg of
       (reg, Parsed (acc, t)) \<Rightarrow> read_attributes renv t acc reg
     | (reg, Failed) \<Rightarrow> (reg, Failed)
     | (reg, Panics) \<Rightarrow> (reg, Panics))"
proof -
  have "oneWord (string_text env k @ CHR ''='' # t) ''=:'' = (string_text env k, CHR ''='', t)"
    using assms by (intro oneWord_until) (simp_all add: key_reads_def)
  then show ?thesis using assms by (subst read_attributes.simps) (simp add: key_reads_def)
qed

lemma finish_typed:
  assumes "without '')'' typ" "typed_value env k typ v = Some c" "goes_on r"
  shows "finish_value env k v (CHR ''('') (typ @ CHR '')'' # r) acc reg = (reg, Parsed (acc @ [c], tl r))"
  using assms without_split [of "'')''" "typ" "CHR '')'' # r"] by (auto simp: finish_value_def elim: goes_on_cases)

lemma finish_untyped:
  assumes "untyped_value k v = Some c" "goes_on r" "ending r = (sep, t)"
  shows "finish_value env k v sep t acc reg = (reg, Parsed (acc @ [c], tl r))"
  using assms by (auto simp: finish_value_def NUL_def elim: goes_on_cases)

lemma plain_not_open: "plain_text w \<Longrightarrow> hd (w @ r) \<noteq> CHR ''('' \<and> hd (w @ r) \<noteq> dquote \<and> w @ r \<noteq> []"
  by (cases w) (auto simp: plain_text_def)

text \<open>A plain word with its type, and without one.\<close>

lemma read_typed:
  assumes "plain_text w" "without '')'' typ" "typed_value env k typ w = Some c" "goes_on r"
  shows "read_value env k (w @ CHR ''('' # typ @ CHR '')'' # r) acc reg = (reg, Parsed (acc @ [c], tl r))"
proof -
  have "oneWordTerminal (w @ CHR ''('' # typ @ CHR '')'' # r) '' (/'' = (w, CHR ''('', typ @ CHR '')'' # r)"
    using assms(1) by (intro oneWordTerminal_until) (simp_all add: plain_text_def)
  then show ?thesis
    using plain_not_open [OF assms(1)] finish_typed [OF assms(2-4)] by (simp add: read_value_def)
qed

lemma read_untyped:
  assumes "plain_text w" "untyped_value k w = Some c" "goes_on r"
  shows "read_value env k (w @ r) acc reg = (reg, Parsed (acc @ [c], tl r))"
proof -
  obtain sep t where e: "ending r = (sep, t)" by fastforce
  have "oneWordTerminal (w @ r) '' (/'' = (w, ending r)"
    using assms goes_on_ends [of r "'' (/''"] by (intro oneWordTerminal_ends) (simp_all add: plain_text_def)
  then show ?thesis
    using plain_not_open [OF assms(1)] finish_untyped [OF assms(2,3) e] by (simp add: read_value_def e)
qed

lemma quoted_not_open: "quoted_reads env w v \<Longrightarrow> hd (w @ r) = dquote \<and> w @ r \<noteq> [] \<and> dquote \<noteq> CHR ''(''"
  using quoted_reads_start [of env w v] by (auto simp: dquote_def)

lemma read_quoted_typed:
  assumes "quoted_reads env w v" "without '')'' typ" "typed_value env k typ v = Some c" "goes_on r"
  shows "read_value env k (w @ CHR ''('' # typ @ CHR '')'' # r) acc reg = (reg, Parsed (acc @ [c], tl r))"
  using quoted_not_open [OF assms(1)] quoted_reads_string [OF assms(1)] finish_typed [OF assms(2-4)]
  by (simp add: read_value_def)

lemma read_quoted_untyped:
  assumes "quoted_reads env w v" "untyped_value k v = Some c"
  shows "read_value env k (w @ CHR '' '' # r) acc reg = (reg, Parsed (acc @ [c], r))"
  using quoted_not_open [OF assms(1)] quoted_reads_string [OF assms(1)]
    finish_untyped [OF assms(2), of "CHR '' '' # r" "CHR '' ''" r env]
  by (simp add: read_value_def goes_on_def)

text \<open>A number, with and without a type.\<close>

lemma FormatInt_plain: "plain_text (FormatInt i 10)"
proof -
  have "without '' (/'' (FormatInt i 10)" by (rule FormatInt_without) (simp add: no_number_def isDigit_def)
  moreover obtain c s where "FormatInt i 10 = c # s" "isDigit c \<or> c = CHR ''-''" using FormatInt_first by blast
  ultimately show ?thesis by (auto simp: plain_text_def dquote_def isDigit_def)
qed

lemma without_Cons: "without (c # bs) w \<longleftrightarrow> c \<notin> set w \<and> without bs w"
  by (induction w) auto

lemma unquoted_plain: "unquoted v \<Longrightarrow> without ''/'' v \<Longrightarrow> plain_text v"
proof -
  assume "unquoted v" "without ''/'' v"
  have no: "\<not> isSafeEdge (CHR '' '')" "\<not> isSafeEdge (CHR ''('')" "\<not> isSafeEdge dquote" by code_simp+
  from \<open>unquoted v\<close> have v: "v \<noteq> []" "isSafeEdge (hd v)" "\<forall>c \<in> set v. isSafeEdge c \<or> c = CHR '':''"
    by (simp_all add: unquoted_def safeRE_def list_all_iff)
  from v(3) no have "CHR '' '' \<notin> set v" "CHR ''('' \<notin> set v" by auto
  with \<open>without ''/'' v\<close> have "without '' (/'' v" by (simp only: without_Cons not_False_eq_True simp_thms)
  moreover have "hd v \<noteq> dquote" using v(2) no(3) by metis
  ultimately show "plain_text v" using v(1) by (simp only: plain_text_def simp_thms)
qed

lemma abbr_reads:
  "t \<in> {4, 5, 6, 7} \<Longrightarrow> dataTypeOf (abbr t) = t \<and> abbr t \<in> {''i8'', ''i16'', ''i32'', ''i64''}"
  "t \<in> {100, 101, 102, 103, 104, 105} \<Longrightarrow>
     dataTypeOf (abbr t) = t \<and> abbr t \<in> {''u'', ''u8'', ''u16'', ''u32'', ''u64'', ''uintptr''}"
  "abbr 2 = ''f64''" "abbr 3 = ''f32''" "abbr 106 = ''stringer''" "abbr 107 = ''error''"
proof -
  have a: "list_all (\<lambda>t. dataTypeOf (abbr t) = t \<and> abbr t \<in> {''i8'', ''i16'', ''i32'', ''i64''}) [4, 5, 6, 7]"
    "list_all (\<lambda>t. dataTypeOf (abbr t) = t \<and> abbr t \<in> {''u'', ''u8'', ''u16'', ''u32'', ''u64'', ''uintptr''})
       [100, 101, 102, 103, 104, 105]"
    by code_simp+
  show "t \<in> {4, 5, 6, 7} \<Longrightarrow> dataTypeOf (abbr t) = t \<and> abbr t \<in> {''i8'', ''i16'', ''i32'', ''i64''}"
    by (rule bspec [OF a(1) [unfolded list_all_iff list.set]])
  show "t \<in> {100, 101, 102, 103, 104, 105} \<Longrightarrow>
     dataTypeOf (abbr t) = t \<and> abbr t \<in> {''u'', ''u8'', ''u16'', ''u32'', ''u64'', ''uintptr''}"
    by (rule bspec [OF a(2) [unfolded list_all_iff list.set]])
  show "abbr 2 = ''f64''" "abbr 3 = ''f32''" "abbr 106 = ''stringer''" "abbr 107 = ''error''" by code_simp+
qed

lemma typed_int:
  "s \<in> {''i8'', ''i16'', ''i32'', ''i64''} \<Longrightarrow> without '')'' s \<and>
     typed_value env k s v = map_option (\<lambda>i. BInt64 k (word_of_int i) (dataTypeOf s)) (strconv_ParseInt v)"
  by (elim insertE; simp add: typed_value_def)

lemma typed_uint:
  "s \<in> {''u'', ''u8'', ''u16'', ''u32'', ''u64'', ''uintptr''} \<Longrightarrow> without '')'' s \<and>
     typed_value env k s v = map_option (\<lambda>i. BUint64 k (word_of_nat i) (dataTypeOf s)) (strconv_ParseUint v)"
  by (elim insertE; simp add: typed_value_def)

lemma typed_number:
  "t \<in> {4, 5, 6, 7} \<Longrightarrow> without '')'' (abbr t) \<and> typed_value env k (abbr t) (FormatInt (sint (v :: i64)) 10) = Some (BInt64 k v t)"
proof -
  assume t: "t \<in> {4, 5, 6, 7}"
  have "dataTypeOf (abbr t) = t" using abbr_reads(1) [OF t] by (rule conjunct1)
  with typed_int [OF conjunct2 [OF abbr_reads(1) [OF t]], of env k "FormatInt (sint v) 10"] show ?thesis
    by (simp add: ParseInt_word)
qed

lemma typed_unsigned:
  "t \<in> {100, 101, 102, 103, 104, 105} \<Longrightarrow>
     without '')'' (abbr t) \<and> typed_value env k (abbr t) (FormatInt (uint (u :: u64)) 10) = Some (BUint64 k u t)"
proof -
  assume t: "t \<in> {100, 101, 102, 103, 104, 105}"
  have "dataTypeOf (abbr t) = t" using abbr_reads(2) [OF t] by (rule conjunct1)
  with typed_uint [OF conjunct2 [OF abbr_reads(2) [OF t]], of env k "FormatInt (uint u) 10"] show ?thesis
    by (simp add: ParseUint_word)
qed

lemma untyped_number: "untyped_value k (FormatInt (sint (v :: i64)) 10) = Some (BInt64 k v 8)"
  using FormatInt_first [of "sint v"] by (auto simp: untyped_value_def ParseInt_word)

text \<open>What a call writes, after its key; it is read as the replayed call.\<close>

fun call_key :: "'m build_call \<Rightarrow> string" where
  "call_key (BEnum a v) = at_key a"
| "call_key (BFloat64 k v t) = k"
| "call_key (BInt64 k v t) = k"
| "call_key (BString k v t) = k"
| "call_key (BUint64 k v t) = k"
| "call_key (BAny k v) = k"
| "call_key (BBool k v) = k"
| "call_key (BDuration k v) = k"
| "call_key (BTime k t rep) = k"

fun value_text :: "'m cenv \<Rightarrow> 'm build_call \<Rightarrow> string" where
  "value_text env (BEnum a v) = FormatInt (sint (ev_value v)) 10 @ CHR ''/'' # string_text env (ev_str v)"
| "value_text env (BFloat64 k v t) = jt_float (ce_texts env) v @ CHR ''('' # abbr t @ '')''"
| "value_text env (BInt64 k v t) = FormatInt (sint v) 10 @ (if t = 8 then [] else CHR ''('' # abbr t @ '')'')"
| "value_text env (BString k v t) = string_text env v @ (if t = 9 then [] else CHR ''('' # abbr t @ '')'')"
| "value_text env (BUint64 k v t) = FormatInt (uint v) 10 @ CHR ''('' # abbr t @ '')''"
| "value_text env (BAny k v) = text_of (cb_AnyCommon env v)"
| "value_text env (BBool k v) = (if v then ''t'' else ''f'') @ CHR ''('' # ''bool'' @ '')''"
| "value_text env (BDuration k v) = jt_duration (ce_texts env) (word_of_int v) @ CHR ''('' # ''dur'' @ '')''"
| "value_text env (BTime k t rep) = jt_time (ce_texts env) t rep @ CHR ''('' # ''time'' @ '')''"

lemma build_text_value:
  assumes "call_reads env renv final c"
  shows "build_text env c = CHR '' '' # string_text env (call_key c) @ CHR ''='' # value_text env c"
    "key_reads env renv (call_key c)"
  using assms
  by (cases c; simp add: build_text_def cb_Enum_def cb_AttributeEnum_def cb_Float64_def cb_Int64_def cb_String_def cb_Uint64_def
      cb_Any_def cb_Bool_def cb_Duration_def cb_Time_def cb_addKey_def cb_addType_def string_text_def Let_def)+

lemma read_value_enum:
  assumes "unquoted s" "goes_on r"
  shows "read_value renv k (FormatInt (sint (v :: i64)) 10 @ CHR ''/'' # s @ r) acc reg =
    (case Registry_Construct (rp_strict renv) (rp_quote renv) (rp_namespace renv) EnumK (zeroMake\<lparr>mk_Key := k\<rparr>) 14 reg of
       ((Some a, None), reg) \<Rightarrow> (reg, Parsed (acc @ [BEnum (fst (Add64 v s a)) \<lparr>ev_value = v, ev_str = s\<rparr>], tl r))
     | (_, reg) \<Rightarrow> (reg, Failed))"
proof -
  let ?n = "FormatInt (sint v) 10"
  have w: "oneWordTerminal (?n @ CHR ''/'' # s @ r) '' (/'' = (?n, CHR ''/'', s @ r)"
    using FormatInt_plain by (intro oneWordTerminal_until) (simp_all add: plain_text_def)
  have s: "oneWordTerminal (s @ r) '' '' = (s, ending r)"
    using assms unquoted_without_space goes_on_ends [of r "'' ''"] by (intro oneWordTerminal_ends) simp_all
  obtain c where "ending r = (c, tl r)" using assms(2) by (auto elim: goes_on_cases)
  with s w plain_not_open [OF FormatInt_plain [of "sint v"]] show ?thesis
    by (simp add: read_value_def finish_value_def NUL_def ParseInt_word Add64_def Let_def split: prod.split option.split)
qed

lemma read_call_value:
  assumes "call_reads env renv (r = []) c" "goes_on r"
  shows "read_value renv (call_key c) (value_text env c @ r) acc reg =
    (case replayed_call env renv c reg of
       (reg, Some c) \<Rightarrow> (reg, Parsed (acc @ [c], tl r))
     | (reg, None) \<Rightarrow> (reg, Failed))"
proof (cases c)
  case (BEnum a v)
  then have "unquoted (ev_str v)" using assms(1) by simp
  moreover obtain x e reg' where "Registry_Construct (rp_strict renv) (rp_quote renv) (rp_namespace renv) EnumK
      (zeroMake\<lparr>mk_Key := at_key a\<rparr>) 14 reg = ((x, e), reg')" by (metis prod.exhaust)
  ultimately show ?thesis
    using read_value_enum [OF _ assms(2), of "ev_str v" renv "at_key a" "ev_value v" acc reg] by (cases x; cases e) (simp_all add: BEnum string_text_cases)
next
  case (BFloat64 k f t)
  with assms show ?thesis by (auto simp: Let_def typed_value_def abbr_reads intro!: read_typed)
next
  case (BInt64 k v t)
  show ?thesis
  proof (cases "t = 8")
    case True
    with assms(2) show ?thesis by (simp add: BInt64 FormatInt_plain untyped_number read_untyped)
  next
    case False
    with assms(1) BInt64 have t: "t \<in> {4, 5, 6, 7}" by simp
    from False read_typed [OF FormatInt_plain conjunct1 [OF typed_number [OF t]] conjunct2 [OF typed_number [OF t]] assms(2)]
    show ?thesis by (simp add: BInt64)
  qed
next
  case (BUint64 k v t)
  with assms(1) have t: "t \<in> {100, 101, 102, 103, 104, 105}" by simp
  from read_typed [OF FormatInt_plain conjunct1 [OF typed_unsigned [OF t]] conjunct2 [OF typed_unsigned [OF t]] assms(2)]
  show ?thesis by (simp add: BUint64)
next
  case (BAny k v)
  from assms BAny obtain s where r: "r = CHR '' '' # s" by (auto elim: goes_on_cases)
  have "text_of (cb_AnyCommon env v) @ r \<noteq> [] \<and> hd (text_of (cb_AnyCommon env v) @ r) = CHR ''(''"
    by (simp add: cb_AnyCommon_def Let_def)
  with readAttributeAny_text [of env renv v r] assms(1) show ?thesis by (simp add: BAny r read_value_def NUL_def)
next
  case (BBool k v)
  have "plain_text (if v then ''t'' else ''f'')" by (simp add: plain_text_def dquote_def)
  from read_typed [OF this, of "''bool''" renv k "BBool k v" r] assms(2) show ?thesis
    by (cases v) (simp_all add: BBool typed_value_def strconv_ParseBool_def)
next
  case (BDuration k v)
  with assms read_typed [of "jt_duration (ce_texts env) (word_of_int v)" "''dur''" renv k "BDuration k v" r] show ?thesis by (simp add: Let_def typed_value_def)
next
  case (BTime k t rep)
  with assms(1) obtain rep' where "rp_RFC3339Nano renv (jt_time (ce_texts env) t rep) = Some (t, rep')" by (auto simp: Let_def)
  with assms BTime read_typed [of "jt_time (ce_texts env) t rep" "''time''" renv k "BTime k t rep'" r] show ?thesis by (simp add: Let_def typed_value_def)
next
  case (BString k v t)
  show ?thesis
  proof (cases "t = 9")
    case True
    with assms(1) BString have v: "v \<noteq> []" "\<not> is_number v" "v \<noteq> ''t''" "v \<noteq> ''f''" by simp_all
    then have u: "untyped_value k v = Some (BString k v 9)" by (simp add: untyped_value_def is_number_def)
    show ?thesis
    proof (cases "unquoted v")
      case q: True
      with assms True BString u read_untyped [OF unquoted_plain [OF q] u] show ?thesis by (simp add: string_text_cases)
    next
      case q: False
      with assms True BString obtain s where r: "r = CHR '' '' # s" by (auto elim: goes_on_cases)
      with q assms True BString read_quoted_untyped [OF _ u, of renv "ce_quote env v" s] show ?thesis
        by (simp add: string_text_cases string_reads_def)
    qed
  next
    case False
    with assms(1) BString have "t = 106 \<or> t = 107" by simp
    then have t: "without '')'' (abbr t)" "typed_value renv k (abbr t) v = Some (BString k v t)"
      by (auto simp: abbr_reads typed_value_def)
    show ?thesis
    proof (cases "unquoted v")
      case True
      with assms False BString read_typed [OF unquoted_plain [OF True] t] show ?thesis by (simp add: string_text_cases)
    next
      case q: False
      with assms False BString read_quoted_typed [OF _ t, of "ce_quote env v"] show ?thesis
        by (simp add: string_text_cases string_reads_def)
    qed
  qed
qed

subsection \<open>All the data of a line, and its stack\<close>

definition stack_text :: "'m cenv \<Rightarrow> frame list \<Rightarrow> string" where
  "stack_text env frames = text_of (stack_chunks env frames)"

text \<open>The last value has the end of the line after it, unless there is a stack.\<close>

fun data_reads :: "'m cenv \<Rightarrow> crenv \<Rightarrow> bool \<Rightarrow> 'm build_call list \<Rightarrow> bool" where
  "data_reads env renv stack [] = True"
| "data_reads env renv stack (c # cs) = (call_reads env renv (cs = [] \<and> \<not> stack) c \<and> data_reads env renv stack cs)"

lemma stack_text_empty [simp]: "stack_text env frames = [] \<longleftrightarrow> frames = []" "stack_text env [] = []"
  by (simp_all add: stack_text_def stack_chunks_text)

lemma data_goes_on: "goes_on r \<Longrightarrow> goes_on (data_text env cs @ r)"
proof (cases cs)
  case (Cons c cs)
  obtain s where "build_text env c = CHR '' '' # s" using build_text_space by blast
  with Cons show ?thesis by (simp add: goes_on_def)
qed simp

lemma stack_goes_on: "goes_on (stack_text env frames)"
  by (simp add: goes_on_def stack_text_def stack_chunks_text)

lemma read_stack_attribute:
  fixes env :: "'m cenv" and acc :: "'m build_call list"
  assumes "list_all frame_reads frames"
  shows "read_attributes renv (tl (stack_text env frames)) acc reg = (reg, Parsed (acc, frames))"
proof (cases frames)
  case Nil
  then show ?thesis by (simp add: read_attributes.simps)
next
  case (Cons f fs)
  let ?r = "concat (map (\<lambda>f. CHR '' '' # frame_text env f) frames)"
  have "oneWord (''STACK'' @ CHR '':'' # ?r) ''=:'' = (''STACK'', CHR '':'', ?r)"
    by (rule oneWord_until) simp_all
  moreover have "?r \<noteq> []" "hd ?r = CHR '' ''" using Cons by simp_all
  moreover have "read_stack (tl ?r) = Some frames" using assms Cons by (intro read_stack_text) simp_all
  moreover have "tl (stack_text env frames) = ''STACK'' @ CHR '':'' # ?r"
    using Cons by (simp add: stack_text_def stack_chunks_text)
  ultimately show ?thesis by (subst read_attributes.simps) simp
qed

text \<open>The calls of a line, with \<open>r\<close> after their text.\<close>

lemma read_data_then:
  assumes "data_reads env renv (r \<noteq> []) cs" "goes_on r"
  shows "read_attributes renv (tl (data_text env cs @ r)) acc reg =
    (case replayed_calls env renv cs reg of
       (reg, Some cs) \<Rightarrow> read_attributes renv (tl r) (acc @ cs) reg | (reg, None) \<Rightarrow> (reg, Failed))"
  using assms(1)
proof (induction cs arbitrary: acc reg)
  case (Cons c cs)
  let ?r = "data_text env cs @ r"
  from Cons.prems have c: "call_reads env renv (?r = []) c" by simp
  note key = build_text_value [OF c]
  obtain reg1 c1 where c1: "replayed_call env renv c reg = (reg1, c1)" by fastforce
  obtain reg2 cs2 where c2: "replayed_calls env renv cs reg1 = (reg2, cs2)" by fastforce
  have v: "read_value renv (call_key c) (value_text env c @ ?r) acc reg =
      (case c1 of Some c \<Rightarrow> (reg1, Parsed (acc @ [c], tl ?r)) | None \<Rightarrow> (reg1, Failed))"
    using read_call_value [OF c data_goes_on [OF assms(2)], of acc reg] c1 by simp
  have "tl (data_text env (c # cs) @ r) = string_text env (call_key c) @ CHR ''='' # value_text env c @ ?r"
    using key(1) by simp
  with read_key [OF key(2), of "value_text env c @ ?r" acc reg] v
  have r: "read_attributes renv (tl (data_text env (c # cs) @ r)) acc reg =
      (case c1 of Some c \<Rightarrow> read_attributes renv (tl ?r) (acc @ [c]) reg1 | None \<Rightarrow> (reg1, Failed))"
    by (cases c1) simp_all
  show ?case
    using r Cons.IH [of "acc @ [the c1]" reg1] Cons.prems c1 c2 by (cases c1; cases cs2) simp_all
qed simp

lemma read_data:
  assumes "data_reads env renv (frames \<noteq> []) cs" "list_all frame_reads frames"
  shows "read_attributes renv (tl (data_text env cs @ stack_text env frames)) acc reg =
    (case replayed_calls env renv cs reg of
       (reg, Some cs) \<Rightarrow> (reg, Parsed (acc @ cs, frames)) | (reg, None) \<Rightarrow> (reg, Failed))"
proof -
  have "data_reads env renv (stack_text env frames \<noteq> []) cs" using assms(1) by simp
  from read_data_then [OF this stack_goes_on] read_stack_attribute [OF assms(2), where env = env] show ?thesis by (simp split: prod.split option.split)
qed

subsection \<open>Traces\<close>

lemma hex_safe: "isHexChar c \<Longrightarrow> isSafeEdge c"
  by (auto simp: isHexChar_def fromHexChar_def isSafeEdge_def isWordChar_def Let_def split: if_splits)

lemma header_safe:
  assumes "trace_ok t" "tr_initialized t"
  shows "safeRE (Trace_String t)" "length (Trace_String t) = 55" "without '' '' (Trace_String t)"
proof -
  note re = traceRE_Some_text [OF traceRE_header [OF assms]]
  have dash: "isSafeEdge (CHR ''-'')" by code_simp
  have hex: "\<forall>c \<in> set (hex_Encode b). isSafeEdge c" for b
    using hex_Encode_isHex [of b] hex_safe by (auto simp: list_all_iff)
  have str: "Trace_String t = tr_headerString t" using assms(2) by (simp add: Trace_String_def)
  with header_length [OF assms] show len: "length (Trace_String t) = 55" by simp
  have all: "\<forall>c \<in> set (Trace_String t). isSafeEdge c"
    unfolding str using re hex dash by (metis (no_types) UnE set_append set_ConsD empty_iff empty_set)
  moreover have "Trace_String t \<noteq> []" using len by auto
  ultimately show "safeRE (Trace_String t)" by (simp add: safeRE_def list_all_iff)
  have "\<not> isSafeEdge (CHR '' '')" by code_simp
  with all show "without '' '' (Trace_String t)" by (auto simp: without_def list_all_iff)
qed

lemma spanHex_reads:
  assumes "trace_ok t"
  shows "NewHexBytesFromString 8 (spanHex t) = Trace_Get SpanIDField t" "without bs (spanHex t) \<longleftrightarrow> without bs (hex_Encode (hb_b (tr_spanID t)))"
    "length (spanHex t) = 16"
proof -
  have "trace_ok (initialize t)" using assms by auto
  then have h: "spanHex t = hex_Encode (hb_b (tr_spanID t))"
    using get_field_initialize_b [of SpanIDField t]
    by (simp add: spanHex_def trace_defs hb_cached_def)
  have n: "length (hb_b (tr_spanID t)) = 8" using assms by (simp add: trace_defs hb_size_def)
  have "Trace_Get SpanIDField t = \<lparr>hb_b = hb_b (tr_spanID t), hb_h = hex_Encode (hb_b (tr_spanID t))\<rparr>"
    using assms by (cases "tr_spanID t") (simp add: Trace_Get_def hb_encode_def trace_defs hb_cached_def)
  then show "NewHexBytesFromString 8 (spanHex t) = Trace_Get SpanIDField t"
    using n by (simp add: h NewHexBytesFromString_def hb_encode_def zeroHexBytes_def setBytesFromString_def)
  show "without bs (spanHex t) \<longleftrightarrow> without bs (hex_Encode (hb_b (tr_spanID t)))" "length (spanHex t) = 16"
    by (simp_all add: h n)
qed

lemma hex_without: "list_all (\<lambda>c. \<not> isHexChar c) bs \<Longrightarrow> without bs (hex_Encode b)"
  using hex_Encode_isHex [of b] by (auto simp: without_def list_all_iff)

end
