(* ===== verification/ConsoleRoundtrip.thy ===== *)
theory ConsoleRoundtrip
  imports ConsoleReadBack
begin

section \<open>The replay of what the console logger wrote\<close>

text \<open>
  A record of the console logger (\<open>ConsoleSpec\<close>) stands for calls on a base logger. The theory says which
  calls (\<open>replay_record\<close>), which records are read back (\<open>record_reads\<close>), and proves that the replay of
  the text of such records makes exactly these calls.
\<close>

subsection \<open>Lines\<close>

fun end_reads :: "'m cenv \<Rightarrow> crenv \<Rightarrow> string \<Rightarrow> bool \<Rightarrow> 'm line_end \<Rightarrow> bool" where
  "end_reads env renv pm alone (LMsg m) = string_reads env renv (pm @ m)"
| "end_reads env renv pm alone (LTemplate m) =
     (\<not> unquoted (pm @ m) \<and> string_reads env renv (pm @ m) \<and> (pm @ m = [] \<longrightarrow> alone))"
| "end_reads env renv pm alone (LModel m v) = (\<not> unquoted m \<and> string_reads env renv m \<and> m \<noteq> [] \<and> model_reads env renv v)"
| "end_reads env renv pm alone (LLink m v) = (\<not> unquoted m \<and> string_reads env renv m \<and> m \<noteq> [] \<and> trace_ok v \<and> tr_initialized v)"

fun replayed_end :: "'m cenv \<Rightarrow> string \<Rightarrow> 'm line_end \<Rightarrow> 'm line_end" where
  "replayed_end env pm (LMsg m) = LMsg (pm @ m)"
| "replayed_end env pm (LTemplate m) = LTemplate (pm @ m)"
| "replayed_end env pm (LModel m v) = LModel m (replayed_model env v)"
| "replayed_end env pm (LLink m v) = LLink m v"

definition end_text :: "'m cenv \<Rightarrow> string \<Rightarrow> 'm line_end \<Rightarrow> string" where
  "end_text env pm e =
     (let (pre, text, post) = line_parts env pm e
      in pre @ string_text env text @ (if post \<noteq> [] then CHR '' '' # post else []))"

lemma not_in_console: "\<not> in_console (CHR '' '')" "\<not> in_console dquote" "\<not> in_console (CHR '','')" "\<not> in_console (CHR ''='')"
  by code_simp+

lemma goes_on_stops: "goes_on r \<Longrightarrow> stops r"
  using not_in_console(1) by (auto elim: goes_on_cases)

lemma prefixed_oneString:
  assumes "quoted_reads renv w s" "safeRE pre"
  shows "oneString renv (pre @ CHR '':'' # w @ r) = (pre, CHR '':'' # w @ r)"
proof -
  obtain v where "w = dquote # v" using quoted_reads_start [OF assms(1)] by blast
  with not_in_console(2) have "stops (CHR '':'' # w @ r)" by simp
  with assms(2) show ?thesis by (rule safe_oneString)
qed

lemma quoted_string_text: "string_reads env renv s \<Longrightarrow> \<not> unquoted s \<Longrightarrow> quoted_reads renv (string_text env s) s"
  by (simp add: string_reads_def string_text_cases)

text \<open>The header of a trace is a word of its own.\<close>

lemma link_reads:
  assumes "trace_ok v" "tr_initialized v" "goes_on r"
  shows "oneStringAndSpace renv (Trace_String v @ r) = (Trace_String v, tl r)" "TraceFromString (Trace_String v) = (v, True)"
proof -
  have "Trace_String v \<noteq> []" using header_safe(2) [OF assms(1,2)] by auto
  then show "oneStringAndSpace renv (Trace_String v @ r) = (Trace_String v, tl r)"
    using safe_oneString [OF header_safe(1) [OF assms(1,2)] goes_on_stops [OF assms(3)], of renv] assms(3)
    by (auto simp: oneStringAndSpace_def elim: goes_on_cases)
  show "TraceFromString (Trace_String v) = (v, True)"
    by (simp add: TraceFromString_def SetString_roundtrip_eq assms zeroTrace_ok)
qed

lemma read_line_end_text:
  assumes "end_reads env renv pm (r = []) e" "goes_on r"
  shows "read_line_end renv (end_text env pm e @ r) = Parsed (replayed_end env pm e, tl r)"
proof (cases e)
  case (LMsg m)
  with assms(1) oneString_text [OF _ goes_on_stops [OF assms(2)], of env renv "pm @ m"] assms(2)
  show ?thesis by (auto simp: end_text_def read_line_end_def elim: goes_on_cases)
next
  case (LTemplate m)
  with assms(1) have w: "quoted_reads renv (string_text env (pm @ m)) (pm @ m)" by (simp add: quoted_string_text)
  have "safeRE ''TEMPLATE''" by code_simp
  note pre = prefixed_oneString [OF w this, of r]
  from w assms LTemplate have "oneStringAndSpace renv (string_text env (pm @ m) @ r) = (pm @ m, tl r)"
    by (auto simp: oneStringAndSpace_def quoted_reads_string elim: goes_on_cases)
  with pre LTemplate show ?thesis by (simp add: end_text_def read_line_end_def)
next
  case (LModel m v)
  with assms(1) have w: "quoted_reads renv (string_text env m) m" "m \<noteq> []" "model_reads env renv v"
    by (simp_all add: quoted_string_text)
  let ?v = "text_of (cb_AnyCommon env v)"
  have "safeRE ''MODEL''" by code_simp
  note pre = prefixed_oneString [OF w(1) this, of "CHR '' '' # ?v @ r"]
  have "oneStringAndSpace renv (string_text env m @ CHR '' '' # ?v @ r) = (m, ?v @ r)"
    using w(1,2) by (simp add: oneStringAndSpace_def quoted_reads_string)
  moreover have "?v \<noteq> []" by (simp add: cb_AnyCommon_def Let_def)
  ultimately show ?thesis
    using pre LModel readAttributeAny_text [OF w(3), of r] assms(2)
    by (auto simp: end_text_def read_line_end_def elim: goes_on_cases)
next
  case (LLink m v)
  with assms(1) have w: "quoted_reads renv (string_text env m) m" "m \<noteq> []" "trace_ok v" "tr_initialized v"
    by (simp_all add: quoted_string_text)
  have "safeRE ''LINK''" by code_simp
  note pre = prefixed_oneString [OF w(1) this, of "CHR '' '' # Trace_String v @ r"]
  have "oneStringAndSpace renv (string_text env m @ CHR '' '' # Trace_String v @ r) = (m, Trace_String v @ r)"
    using w(1,2) by (simp add: oneStringAndSpace_def quoted_reads_string)
  moreover have "Trace_String v \<noteq> []" using header_safe(2) [OF w(3,4)] by auto
  ultimately show ?thesis
    using pre LLink link_reads(1) [OF w(3,4) assms(2), of renv] link_reads(2) [OF w(3,4) assms(2)] by (simp add: end_text_def read_line_end_def)
qed

text \<open>A time of the logger, as the first word of a record.\<close>

definition time_text :: "'m cenv \<Rightarrow> time \<Rightarrow> string" where
  "time_text env ts = jt_time (ce_texts env) ts 0"

definition time_reads :: "'m cenv \<Rightarrow> crenv \<Rightarrow> time \<Rightarrow> bool" where
  "time_reads env renv ts \<longleftrightarrow> without '' '' (time_text env ts) \<and> map_option fst (rp_RFC3339 renv (time_text env ts)) = Some ts"

lemma oneTime_text:
  "time_reads env renv ts \<Longrightarrow> \<exists>rep. oneTime renv (time_text env ts @ CHR '' '' # t) = (Some (ts, rep), t)"
  by (auto simp: time_reads_def oneTime_def oneWord_until)

lemma span_word:
  assumes "trace_ok t"
  shows "oneWordTerminal (spanHex t @ CHR '' '' # r) '' '' = (spanHex t, CHR '' '', r)"
    "oneWord (spanHex t @ CHR '' '' # r) '' '' = (spanHex t, CHR '' '', r)"
    "goes_on u \<Longrightarrow> oneWordTerminal (spanHex t @ u) '' '' = (spanHex t, ending u)" "spanHex t \<noteq> []"
proof -
  have "without '' '' (spanHex t)"
    using spanHex_reads(2) [OF assms] hex_without [of "'' ''"] by (simp add: isHexChar_def fromHexChar_def)
  then show "oneWordTerminal (spanHex t @ CHR '' '' # r) '' '' = (spanHex t, CHR '' '', r)"
      "oneWord (spanHex t @ CHR '' '' # r) '' '' = (spanHex t, CHR '' '', r)"
      "goes_on u \<Longrightarrow> oneWordTerminal (spanHex t @ u) '' '' = (spanHex t, ending u)"
    by (simp_all add: oneWordTerminal_until oneWord_until oneWordTerminal_ends goes_on_ends)
  show "spanHex t \<noteq> []" using spanHex_reads(3) [OF assms] by auto
qed

definition span_key :: "Trace \<Rightarrow> HexBytes" where
  "span_key t = Trace_Get SpanIDField t"

definition replay_line_record ::
    "'m cenv \<Rightarrow> crenv \<Rightarrow> ('h, 'w, 'm) base \<Rightarrow> int \<Rightarrow> time \<Rightarrow> Trace \<Rightarrow> string \<Rightarrow> 'm line_end \<Rightarrow> 'm build_call list \<Rightarrow> frame list \<Rightarrow>
     ('h, 'w) creplay \<Rightarrow> ('h, 'w) creplay ran" where
  "replay_line_record env renv dest level ts t pm e data frames st =
     (case map_of (cy_spans st) (span_key t) of
        None \<Rightarrow> Erring st
      | Some s \<Rightarrow>
          let (reg, r) = replayed_calls env renv data (registered st (ry_request s)); st = set_registered (ry_request s) reg st
          in (case r of
                None \<Rightarrow> Erring st
              | Some calls \<Rightarrow> to_dest (line_calls dest level ts frames calls (replayed_end env pm e) (ry_span s)) st))"

definition line_reads ::
    "'m cenv \<Rightarrow> crenv \<Rightarrow> int \<Rightarrow> time \<Rightarrow> Trace \<Rightarrow> string \<Rightarrow> 'm line_end \<Rightarrow> 'm build_call list \<Rightarrow> frame list \<Rightarrow> bool" where
  "line_reads env renv level ts t pm e data frames \<longleftrightarrow>
     level \<in> set LevelValues \<and> time_reads env renv ts \<and> trace_ok t \<and> end_reads env renv pm (data = [] \<and> frames = []) e \<and>
     data_reads env renv (frames \<noteq> []) data \<and> list_all frame_reads frames"

lemma replay_text_line_record:
  assumes "line_reads env renv level ts t pm e data frames"
  shows "replay_text_line renv dest level
      (time_text env ts @ CHR '' '' # spanHex t @ CHR '' '' # end_text env pm e @ data_text env data @ stack_text env frames) st =
    replay_line_record env renv dest level ts t pm e data frames st"
proof -
  let ?r = "data_text env data @ stack_text env frames"
  from assms have a: "time_reads env renv ts" "trace_ok t" "end_reads env renv pm (?r = []) e"
      "data_reads env renv (frames \<noteq> []) data" "list_all frame_reads frames"
    by (simp_all add: line_reads_def)
  obtain rep where time: "oneTime renv (time_text env ts @ CHR '' '' # spanHex t @ CHR '' '' # end_text env pm e @ ?r) =
      (Some (ts, rep), spanHex t @ CHR '' '' # end_text env pm e @ ?r)"
    using oneTime_text [OF a(1)] by blast
  note word = span_word(1,4) [OF a(2)] and key = spanHex_reads(1) [OF a(2)]
  note e = read_line_end_text [OF a(3) data_goes_on [OF stack_goes_on]]
  show ?thesis
  proof (cases "map_of (cy_spans st) (span_key t)")
    case None
    with time word key show ?thesis by (simp add: replay_text_line_def replay_line_record_def span_key_def)
  next
    case (Some s)
    obtain reg r where r: "replayed_calls env renv data (registered st (ry_request s)) = (reg, r)" by fastforce
    with read_data [OF a(4,5), of "[]" "registered st (ry_request s)"]
    have "read_attributes renv (tl ?r) [] (registered st (ry_request s)) =
        (reg, case r of Some cs \<Rightarrow> Parsed (cs, frames) | None \<Rightarrow> Failed)"
      by (cases r) simp_all
    with Some r time word key e show ?thesis
      by (cases r) (simp_all add: replay_text_line_def replay_line_record_def span_key_def)
  qed
qed

subsection \<open>Metadata\<close>

text \<open>A text that is a string of the console format by itself.\<close>

fun value_reads :: "'m cenv \<Rightarrow> crenv \<Rightarrow> attribute_kind \<Rightarrow> 'm metavalue \<Rightarrow> bool" where
  "value_reads env renv k (MAny v) = (k = AnyK \<and> model_reads env renv v)"
| "value_reads env renv k (MBool v) = (k = BoolK)"
| "value_reads env renv k (MEnum v) = (k = EnumK \<and> unquoted (ev_str v))"
| "value_reads env renv k (MFloat64 v) =
     (let w = jt_float (ce_texts env) v in k = Float64K \<and> safeRE w \<and> rp_float renv 64 w = Some v)"
| "value_reads env renv k (MInt64 v) =
     (if k = DurationK then let w = jt_duration (ce_texts env) v in safeRE w \<and> rp_duration renv w = Some (sint v)
      else k \<in> {IntK, Int8K, Int16K, Int32K, Int64K})"
| "value_reads env renv k (MLink v) =
     (k = LinkK \<and> trace_ok v \<and> tr_initialized v \<and> quoted_reads renv (dquote # Trace_String v @ [dquote]) (Trace_String v))"
| "value_reads env renv k (MString v) = (k = StringK \<and> quoted_reads renv (text_of (json_string v)) v)"
| "value_reads env renv k (MTime t rep) =
     (let w = jt_time (ce_texts env) t rep in
      k = TimeK \<and> quoted_reads renv (dquote # w @ [dquote]) w \<and> map_option fst (rp_RFC3339Nano renv w) = Some t)"

fun replayed_value :: "'m cenv \<Rightarrow> crenv \<Rightarrow> 'm metavalue \<Rightarrow> 'm metavalue" where
  "replayed_value env renv (MAny v) = MAny (replayed_model env v)"
| "replayed_value env renv (MTime t rep) = MTime t (snd (the (rp_RFC3339Nano renv (jt_time (ce_texts env) t rep))))"
| "replayed_value env renv v = v"

lemma kind_of_type_iff: "kind_of_type t = Some k \<longleftrightarrow> t = kind_type k"
proof
  show "kind_of_type t = Some k \<Longrightarrow> t = kind_type k" by (auto simp: kind_of_type_def split: if_splits)
  show "t = kind_type k \<Longrightarrow> kind_of_type t = Some k" by (cases k) (simp_all add: kind_of_type_def)
qed

lemma FormatInt_safe: "safeRE (FormatInt i 10)"
proof -
  have digit: "isDigit c \<Longrightarrow> isSafeEdge c" for c by (auto simp: isDigit_def isSafeEdge_def isWordChar_def Let_def)
  have dash: "isSafeEdge (CHR ''-'')" by code_simp
  have "\<forall>c \<in> set (formatNat 10 n). isSafeEdge c" for n
    using formatNat_digits [of n] digit by (auto simp: list_all_iff)
  then have "\<forall>c \<in> set (FormatInt i 10). isSafeEdge c" using dash by (simp add: FormatInt_def)
  moreover have "FormatInt i 10 \<noteq> []" using FormatInt_last by blast
  ultimately show ?thesis by (simp add: safeRE_def list_all_iff)
qed

lemma string_value_safe:
  "safeRE w \<Longrightarrow> conv w = Some v \<Longrightarrow> stops r \<Longrightarrow> string_value renv conv (w @ r) = Parsed (v, ending r)"
  by (simp add: string_value_def safe_sep split: prod.split)

lemma string_value_quoted:
  "quoted_reads renv w s \<Longrightarrow> conv s = Some v \<Longrightarrow> string_value renv conv (w @ r) = Parsed (v, ending r)"
  by (simp add: string_value_def quoted_reads_sep split: prod.split)

lemma ends_stops: "ends_by '' ,'' r \<Longrightarrow> stops r"
  using not_in_console by (cases r) (auto simp: ends_by_def)

lemma read_metadata_text:
  assumes "value_reads env renv k v" "at_subType a = kind_type k" "ends_by '' ,'' r"
  shows "read_metadata renv k (metavalue_ctext env a v @ r) = Parsed (replayed_value env renv v, ending r)"
proof -
  note stop = ends_stops [OF assms(3)]
  have int: "string_value renv int_value (FormatInt (sint w) 10 @ r) = Parsed (MInt64 w, ending r)" for w :: i64
    using stop by (intro string_value_safe) (simp_all add: FormatInt_safe int_value_def ParseInt_word)
  have enum: "read_metadata renv EnumK (FormatInt (sint (ev_value e)) 10 @ CHR ''/'' # ev_str e @ r) = Parsed (MEnum e, ending r)"
    if "unquoted (ev_str e)" for e
  proof -
    have "without ''/'' (FormatInt (sint (ev_value e)) 10)" by (rule FormatInt_without) (simp add: no_number_def isDigit_def)
    moreover have "without '' ,'' (ev_str e)"
    proof -
      have "\<not> isSafeEdge (CHR '','')" by code_simp
      then have "CHR '','' \<notin> set (ev_str e)" using that by (auto simp: unquoted_def safeRE_def list_all_iff)
      with unquoted_without_space [OF that] show ?thesis by (simp add: without_Cons)
    qed
    moreover have "ev_str e \<noteq> []" using that by (auto simp: unquoted_def safeRE_def)
    ultimately show ?thesis
      using assms(3) by (simp add: oneWord_until oneWordTerminal_ends ParseInt_word split: prod.split)
  qed
  show ?thesis
  proof (cases v)
    case (MAny x)
    with assms readAttributeAny_text [of env renv x r] show ?thesis
      by (simp add: metavalue_ctext_def cb_AttributeAny_def split: prod.split)
  next
    case (MBool b)
    have "safeRE ''t''" "safeRE ''f''" by code_simp+
    with string_value_safe [of "if b then ''t'' else ''f''" "\<lambda>w. Some (MBool (w = ''t''))" "MBool b" r renv] MBool assms stop
    show ?thesis by (cases b) (simp_all add: metavalue_ctext_def cb_AttributeBool_def)
  next
    case (MEnum e)
    with assms enum [of e] show ?thesis
      by (simp add: metavalue_ctext_def cb_AttributeEnum_def console_string_def unquoted_def)
  next
    case (MFloat64 f)
    with assms stop show ?thesis
      by (auto simp: Let_def metavalue_ctext_def cb_AttributeFloat64_def intro!: string_value_safe)
  next
    case (MInt64 w)
    show ?thesis
    proof (cases "k = DurationK")
      case True
      with MInt64 assms stop show ?thesis
        by (auto simp: Let_def metavalue_ctext_def cb_AttributeDuration_def intro!: string_value_safe)
    next
      case False
      with MInt64 assms int [of w] show ?thesis by (auto simp: metavalue_ctext_def cb_AttributeInt64_def)
    qed
  next
    case (MLink t)
    then have "TraceFromString (Trace_String t) = (t, True)"
      using assms(1) by (simp add: TraceFromString_def SetString_roundtrip_eq zeroTrace_ok)
    with MLink assms string_value_quoted [of renv "dquote # Trace_String t @ [dquote]" "Trace_String t"
        "\<lambda>value. case TraceFromString value of (v, ok) \<Rightarrow> if ok then Some (MLink v) else None" "MLink t" r] show ?thesis
      by (simp add: metavalue_ctext_def cb_AttributeLink_def dquote_def)
  next
    case (MString s)
    with assms string_value_quoted [of renv "text_of (json_string s)" s "\<lambda>s. Some (MString s)" "MString s" r] show ?thesis
      by (simp add: metavalue_ctext_def cb_AttributeString_def)
  next
    case (MTime t rep)
    let ?w = "jt_time (ce_texts env) t rep"
    from MTime assms obtain rep' where "rp_RFC3339Nano renv ?w = Some (t, rep')" by (auto simp: Let_def)
    with MTime assms string_value_quoted [of renv "dquote # ?w @ [dquote]" "?w"
        "\<lambda>value. map_option (\<lambda>(v, rep). MTime v rep) (rp_RFC3339Nano renv value)" "MTime t rep'" r] show ?thesis
      by (simp add: metavalue_ctext_def cb_AttributeTime_def cb_TimeFormatter_def dquote_def Let_def)
  qed
qed

text \<open>The values that the attributes of a span keep of a key, and all keys in the order they are written.\<close>

definition console_kept :: "'m cenv \<Rightarrow> Attribute \<Rightarrow> 'm metavalue list \<Rightarrow> 'm metavalue list" where
  "console_kept env a vs =
     (let p = at_properties a in
      if mk_Multiple p then (if mk_Distinct p then firsts_by (metavalue_ctext env a) vs else vs)
      else [if mk_Locked p then hd vs else last vs])"

definition record_values ::
    "'m cenv \<Rightarrow> (string list \<Rightarrow> string list) \<Rightarrow> (Attribute \<times> 'm metavalue) list \<Rightarrow> (string \<times> 'm metavalue list) list" where
  "record_values env order cs =
     map (\<lambda>k. (k, console_kept env (key_attribute k cs) (key_values k cs))) (order (keys_of True cs) @ order (keys_of False cs))"

lemma map_firsts_by: "map f (firsts_by f xs) = firsts_by id (map f xs)"
  by (induction f xs rule: firsts_by.induct) (simp_all add: filter_map o_def)

lemma console_kept_texts:
  "vs \<noteq> [] \<Longrightarrow> kept_ctexts env a vs = map (metavalue_ctext env a) (console_kept env a vs)"
  by (simp add: kept_ctexts_def console_kept_def Let_def map_firsts_by hd_map last_map)

lemma console_kept_subset: "(vs :: 'm metavalue list) \<noteq> [] \<Longrightarrow> console_kept env a vs \<noteq> [] \<and> set (console_kept env a vs) \<subseteq> set vs"
proof -
  assume vs: "vs \<noteq> []"
  have "set (firsts_by f xs) \<subseteq> set xs" for f :: "'m metavalue \<Rightarrow> string" and xs
    by (induction f xs rule: firsts_by.induct) auto
  moreover have "firsts_by f vs \<noteq> []" for f :: "'m metavalue \<Rightarrow> string" using vs by (cases vs) simp_all
  ultimately show ?thesis using vs by (auto simp: console_kept_def Let_def)
qed

text \<open>The calls that the metadata of a record stands for.\<close>

definition replay_value ::
    "'m cenv \<Rightarrow> crenv \<Rightarrow> ('h, 'w, 'm) base \<Rightarrow> nat \<Rightarrow> 'h \<Rightarrow> DecodeAttributeDefinition \<Rightarrow> 'm metavalue \<Rightarrow>
     ('h, 'w) creplay \<Rightarrow> ('h, 'w) creplay ran" where
  "replay_value env renv dest n h d v st =
     (case kind_of_type (dd_AttributeType d) of
        None \<Rightarrow> Erring st
      | Some k \<Rightarrow>
          (case Registry_Construct (rp_strict renv) (rp_quote renv) (rp_namespace renv) k (dd_Make d) (dd_AttributeType d)
                  (registered st n) of
             ((Some ra, None), reg) \<Rightarrow> to_dest (b_do dest (AMetadata ra (replayed_value env renv v)) h) (set_registered n reg st)
           | (_, reg) \<Rightarrow> Erring (set_registered n reg st)))"

fun replay_values ::
    "'m cenv \<Rightarrow> crenv \<Rightarrow> ('h, 'w, 'm) base \<Rightarrow> nat \<Rightarrow> 'h \<Rightarrow> DecodeAttributeDefinition \<Rightarrow> 'm metavalue list \<Rightarrow>
     ('h, 'w) creplay \<Rightarrow> ('h, 'w) creplay ran" where
  "replay_values env renv dest n h d [] st = Fine st"
| "replay_values env renv dest n h d (v # vs) st =
     (case replay_value env renv dest n h d v st of Fine st \<Rightarrow> replay_values env renv dest n h d vs st | r \<Rightarrow> r)"

fun replay_keys ::
    "'m cenv \<Rightarrow> crenv \<Rightarrow> ('h, 'w, 'm) base \<Rightarrow> nat \<Rightarrow> 'h \<Rightarrow> (string \<times> 'm metavalue list) list \<Rightarrow>
     ('h, 'w) creplay \<Rightarrow> ('h, 'w) creplay ran" where
  "replay_keys env renv dest n h [] st = Fine st"
| "replay_keys env renv dest n h ((k, vs) # kvs) st =
     (case definition_of (cy_definitions st) (cy_store st ! n) k of
        None \<Rightarrow> Erring st
      | Some d \<Rightarrow>
          (case replay_values env renv dest n h d vs st of Fine st \<Rightarrow> replay_keys env renv dest n h kvs st | r \<Rightarrow> r))"

text \<open>Making an attribute does not touch the definitions.\<close>

definition defined_keys :: "('h, 'w) creplay \<Rightarrow> nat \<Rightarrow> string \<Rightarrow> DecodeAttributeDefinition option" where
  "defined_keys st n = definition_of (cy_definitions st) (cy_store st ! n)"

lemma defined_keys_set_registered [simp]: "defined_keys (set_registered n reg st) n = defined_keys st n"
  by (cases "n < length (cy_store st)")
    (simp_all add: defined_keys_def set_registered_def definition_of_def requestID_def fun_eq_iff list_update_beyond split: option.split)

lemma to_dest_Fine: "to_dest f st = Fine st' \<Longrightarrow> \<exists>w. st' = st\<lparr>cy_dest := w\<rparr>"
  by (auto simp: to_dest_def split: option.splits)

lemma defined_keys_to_dest: "to_dest f st = Fine st' \<Longrightarrow> defined_keys st' n = defined_keys st n"
  by (auto simp: defined_keys_def dest: to_dest_Fine)

lemma defined_keys_replay_value: "replay_value env renv dest n h d v st = Fine st' \<Longrightarrow> defined_keys st' n = defined_keys st n"
  by (auto simp: replay_value_def dest!: defined_keys_to_dest [where n = n] split: option.splits prod.splits)

lemma defined_keys_replay_values: "replay_values env renv dest n h d vs st = Fine st' \<Longrightarrow> defined_keys st' n = defined_keys st n"
  by (induction vs arbitrary: st) (auto dest: defined_keys_replay_value split: ran.splits)

lemma collect_one:
  assumes "value_reads env renv k v" "at_subType a = kind_type k" "dd_AttributeType d = kind_type k" "ends_by '' ,'' r"
  shows "collectMetadata renv dest n h (Some d) (metavalue_ctext env a v @ r) st =
    (case replay_value env renv dest n h d v st of
       Fine st \<Rightarrow> collectMetadata renv dest n h (if fst (ending r) = CHR '','' then Some d else None) (snd (ending r)) st
     | x \<Rightarrow> x)"
proof -
  have k: "kind_of_type (dd_AttributeType d) = Some k" using assms(3) by (simp add: kind_of_type_iff)
  obtain c t where e: "ending r = (c, t)" by fastforce
  obtain ra err reg where c: "Registry_Construct (rp_strict renv) (rp_quote renv) (rp_namespace renv) k (dd_Make d)
      (dd_AttributeType d) (registered st n) = ((ra, err), reg)" by (metis prod.exhaust)
  from read_metadata_text [OF assms(1,2,4)] k c e show ?thesis
    by (cases ra; cases err) (simp_all add: collectMetadata.simps(2) replay_value_def split: ran.split)
qed

lemma collect_values:
  assumes "vs \<noteq> []" "\<forall>v \<in> set vs. value_reads env renv k v" "at_subType a = kind_type k" "dd_AttributeType d = kind_type k"
    "goes_on r"
  shows "collectMetadata renv dest n h (Some d) (commas (map (metavalue_ctext env a) vs) @ r) st =
    (case replay_values env renv dest n h d vs st of Fine st \<Rightarrow> collectMetadata renv dest n h None (tl r) st | x \<Rightarrow> x)"
  using assms(1,2)
proof (induction vs arbitrary: st rule: list_nonempty_induct)
  case (single v)
  moreover have "ends_by '' ,'' r" using assms(5) by (simp add: goes_on_ends)
  moreover obtain c where "ending r = (c, tl r)" "c \<noteq> CHR '',''" using assms(5) by (auto simp: NUL_def elim: goes_on_cases)
  ultimately show ?case
    using collect_one [OF _ assms(3,4), of env renv v r dest n h st] by (simp split: ran.splits)
next
  case (cons v vs)
  let ?r = "CHR '','' # commas (map (metavalue_ctext env a) vs) @ r"
  have "commas (map (metavalue_ctext env a) (v # vs)) @ r = metavalue_ctext env a v @ ?r"
    using cons.hyps by (cases vs) simp_all
  moreover have "ends_by '' ,'' ?r" by (simp add: ends_by_def)
  ultimately show ?case
    using collect_one [OF _ assms(3,4), of env renv v ?r dest n h st] cons by (simp split: ran.splits)
qed

fun meta_reads :: "'m cenv \<Rightarrow> crenv \<Rightarrow> Attribute \<times> 'm metavalue \<Rightarrow> bool" where
  "meta_reads env renv (a, v) =
     (at_consoleKey a = at_key a @ ''='' \<and> without ''='' (at_key a) \<and>
      (case kind_of_type (at_subType a) of Some k \<Rightarrow> value_reads env renv k v | None \<Rightarrow> False))"

text \<open>The definitions that the replay has of the attributes of a record have their types.\<close>

definition types_agree :: "('h, 'w) creplay \<Rightarrow> nat \<Rightarrow> (Attribute \<times> 'm metavalue) list \<Rightarrow> bool" where
  "types_agree st n cs \<longleftrightarrow>
     (\<forall>c \<in> set cs. \<forall>d. defined_keys st n (at_key (fst c)) = Some d \<longrightarrow> dd_AttributeType d = at_subType (fst c))"

lemma key_values_mem: "v \<in> set (key_values k cs) \<longleftrightarrow> (\<exists>a. (a, v) \<in> set cs \<and> at_key a = k)"
  by (force simp: key_values_def)

lemma collect_key:
  assumes "console_consistent cs" "list_all (meta_reads env renv) cs" "key_values k cs \<noteq> []" "goes_on r" "types_agree st n cs"
  shows "collectMetadata renv dest n h None (key_ctext env cs k @ r) st =
    (case defined_keys st n k of
       None \<Rightarrow> Erring st
     | Some d \<Rightarrow>
         (case replay_values env renv dest n h d (console_kept env (key_attribute k cs) (key_values k cs)) st of
            Fine st \<Rightarrow> collectMetadata renv dest n h None (tl r) st
          | x \<Rightarrow> x))"
proof -
  let ?a = "key_attribute k cs" and ?vs = "key_values k cs"
  note a = key_attribute_in [OF assms(3)]
  from a(1) assms(2) obtain kk v where m: "(?a, v) \<in> set cs" "at_consoleKey ?a = k @ ''=''" "without ''='' k"
      "kind_of_type (at_subType ?a) = Some kk"
    using a(2) by (fastforce simp: list_all_iff split: option.splits)
  then have kk: "at_subType ?a = kind_type kk" by (simp add: kind_of_type_iff)
  have "value_reads env renv kk w" if "w \<in> set ?vs" for w
  proof -
    from that obtain b where b: "(b, w) \<in> set cs" "at_key b = k" by (auto simp: key_values_mem)
    then have "at_subType b = at_subType ?a"
      using assms(1) m(1) a(2) unfolding console_consistent_def same_attribute_def by (metis fst_conv)
    with b(1) assms(2) m(4) show ?thesis by (fastforce simp: list_all_iff)
  qed
  then have vs: "\<forall>w \<in> set (console_kept env ?a ?vs). value_reads env renv kk w" "console_kept env ?a ?vs \<noteq> []"
    using console_kept_subset [OF assms(3), of env ?a] by auto
  have "oneWord (key_ctext env cs k @ r) ''='' =
      (k, CHR ''='', commas (map (metavalue_ctext env ?a) (console_kept env ?a ?vs)) @ r)"
    using oneWord_until [OF m(3), of "CHR ''=''" "commas (map (metavalue_ctext env ?a) (console_kept env ?a ?vs)) @ r"] m(2)
    by (simp add: key_ctext_def Let_def console_kept_texts [OF assms(3)])
  then have start: "collectMetadata renv dest n h None (key_ctext env cs k @ r) st =
      (case defined_keys st n k of
         None \<Rightarrow> Erring st
       | Some d \<Rightarrow> collectMetadata renv dest n h (Some d)
           (commas (map (metavalue_ctext env ?a) (console_kept env ?a ?vs)) @ r) st)"
    by (simp add: collectMetadata.simps(1) [of _ _ _ _ "key_ctext env cs k @ r"] NUL_def defined_keys_def)
  show ?thesis
  proof (cases "defined_keys st n k")
    case None
    with start show ?thesis by simp
  next
    case (Some d)
    then have "dd_AttributeType d = kind_type kk" using assms(5) m(1) a(2) kk by (fastforce simp: types_agree_def)
    from collect_values [OF vs(2,1) kk this assms(4)] start Some show ?thesis by simp
  qed
qed

lemma types_agree_same: "defined_keys st' n = defined_keys st n \<Longrightarrow> types_agree st' n cs = types_agree st n cs"
  by (simp add: types_agree_def)

lemma collect_keys:
  assumes "console_consistent cs" "list_all (meta_reads env renv) cs" "\<forall>k \<in> set ks. key_values k cs \<noteq> []" "types_agree st n cs"
  shows "collectMetadata renv dest n h None (tl (concat (map (\<lambda>k. CHR '' '' # key_ctext env cs k) ks))) st =
    replay_keys env renv dest n h (map (\<lambda>k. (k, console_kept env (key_attribute k cs) (key_values k cs))) ks) st"
  using assms(3,4)
proof (induction ks arbitrary: st)
  case Nil
  show ?case by (simp add: collectMetadata.simps(1) oneWord_none)
next
  case (Cons k ks)
  let ?r = "concat (map (\<lambda>k. CHR '' '' # key_ctext env cs k) ks)"
  have "goes_on ?r" by (cases ks) (simp_all add: goes_on_def)
  note first = collect_key [OF assms(1,2) _ this Cons.prems(2), of k dest h]
  have "replay_keys env renv dest n h (map (\<lambda>k. (k, console_kept env (key_attribute k cs) (key_values k cs))) ks) st' =
      collectMetadata renv dest n h None (tl ?r) st'"
    if "replay_values env renv dest n h d (console_kept env (key_attribute k cs) (key_values k cs)) st = Fine st'" for d st'
    using Cons.IH [of st'] Cons.prems types_agree_same [OF defined_keys_replay_values [OF that], of cs] by simp
  with first Cons.prems(1) show ?case
    by (simp add: defined_keys_def split: option.split ran.split)
qed

subsection \<open>The end of a span\<close>

definition finish_record ::
    "'m cenv \<Rightarrow> crenv \<Rightarrow> ('h, 'w, 'm) base \<Rightarrow> time \<Rightarrow> 'h replaySpan \<Rightarrow> (string \<times> 'm metavalue list) list \<Rightarrow>
     ('h, 'w) creplay \<Rightarrow> ('h, 'w) creplay ran" where
  "finish_record env renv dest ts s kvs st =
     (case replay_keys env renv dest (ry_request s) (ry_span s) kvs st of
        Fine st \<Rightarrow> to_dest (b_do dest (ADone ts False) (ry_span s)) st
      | r \<Rightarrow> r)"

definition replay_done_record ::
    "'m cenv \<Rightarrow> crenv \<Rightarrow> ('h, 'w, 'm) base \<Rightarrow> bool \<Rightarrow> time \<Rightarrow> i32 \<Rightarrow> Trace \<Rightarrow> (string \<times> 'm metavalue list) list \<Rightarrow>
     ('h, 'w) creplay \<Rightarrow> ('h, 'w) creplay ran" where
  "replay_done_record env renv dest isRequest ts v t kvs st =
     (case map_of (if isRequest then cy_requests st else cy_spans st) (span_key t) of
        None \<Rightarrow> Erring st
      | Some s \<Rightarrow>
          finish_record env renv dest ts s kvs
            (if isRequest
             then st\<lparr>cy_store := (cy_store st)[ry_request s := (cy_store st ! ry_request s)\<lparr>rq_version := word_of_int (sint v)\<rparr>]\<rparr>
             else st\<lparr>cy_spans := aput (span_key t) (s\<lparr>ry_version := word_of_int (sint v)\<rparr>) (cy_spans st)\<rparr>))"

definition done_reads :: "'m cenv \<Rightarrow> crenv \<Rightarrow> time \<Rightarrow> i32 \<Rightarrow> Trace \<Rightarrow> (Attribute \<times> 'm metavalue) list \<Rightarrow> bool" where
  "done_reads env renv ts v t cs \<longleftrightarrow>
     time_reads env renv ts \<and> 0 \<le> sint v \<and> trace_ok t \<and> console_consistent cs \<and> list_all (meta_reads env renv) cs"

definition done_text_body :: "'m cenv \<Rightarrow> time \<Rightarrow> i32 \<Rightarrow> Trace \<Rightarrow> string \<Rightarrow> string" where
  "done_text_body env ts v t attributes =
     time_text env ts @ CHR '' '' # (CHR ''v'' # FormatInt (sint v) 10) @ CHR '' '' # spanHex t @ attributes"

lemma key_values_keys: "k \<in> set (keys_of b cs) \<Longrightarrow> key_values k cs \<noteq> []"
  using set_keys_of [of b cs] key_values_mem [of _ k cs] by fastforce

lemma collect_record:
  assumes "order_ok order" "console_consistent cs" "list_all (meta_reads env renv) cs" "types_agree st n cs"
  shows "collectMetadata renv dest n h None (tl (attributes_ctext env order cs)) st =
    replay_keys env renv dest n h (record_values env order cs) st"
proof -
  have "\<forall>k \<in> set (order (keys_of True cs) @ order (keys_of False cs)). key_values k cs \<noteq> []"
    using assms(1) keys_of_distinct [of _ cs] by (auto simp: order_ok_def dest: key_values_keys)
  from collect_keys [OF assms(2,3) this assms(4)] show ?thesis by (simp add: attributes_ctext_def record_values_def)
qed

lemma attributes_goes_on: "goes_on (attributes_ctext env order cs)"
proof -
  have "goes_on (concat (map (\<lambda>k. CHR '' '' # key_ctext env cs k) ks))" for ks by (cases ks) (simp_all add: goes_on_def)
  then show ?thesis unfolding attributes_ctext_def .
qed

lemma version_word:
  assumes "0 \<le> sint (v :: i32)"
  shows "oneWord ((CHR ''v'' # FormatInt (sint v) 10) @ CHR '' '' # r) '' '' = (CHR ''v'' # FormatInt (sint v) 10, CHR '' '', r)"
    "strconv_ParseInt (FormatInt (sint v) 10) = Some (sint v)" "strconv_ParseUint (FormatInt (sint v) 10) = Some (nat (sint v))"
    "word_of_nat (nat (sint v)) = (word_of_int (sint v) :: i64)"
proof -
  have "without '' '' (FormatInt (sint v) 10)" by (rule FormatInt_without) (simp add: no_number_def isDigit_def)
  then show "oneWord ((CHR ''v'' # FormatInt (sint v) 10) @ CHR '' '' # r) '' '' = (CHR ''v'' # FormatInt (sint v) 10, CHR '' '', r)"
    by (intro oneWord_until) simp_all
  have lt: "sint v < 2 ^ 31" using sint_lt [of v] by simp
  with assms show "strconv_ParseInt (FormatInt (sint v) 10) = Some (sint v)" by (simp add: ParseInt_FormatInt)
  from assms lt show "strconv_ParseUint (FormatInt (sint v) 10) = Some (nat (sint v))"
    using ParseUint_FormatInt [of "nat (sint v)"] by simp
  from assms show "word_of_nat (nat (sint v)) = (word_of_int (sint v) :: i64)" by simp
qed

lemma replay_text_done:
  assumes "done_reads env renv ts v t cs" "order_ok order"
    and "\<And>s. map_of (if isRequest then cy_requests st else cy_spans st) (span_key t) = Some s \<Longrightarrow> types_agree st (ry_request s) cs"
  shows "(if isRequest then replay_text_request else replay_text_span) renv dest
      (done_text_body env ts v t (attributes_ctext env order cs)) st =
    replay_done_record env renv dest isRequest ts v t (record_values env order cs) st"
proof -
  let ?a = "attributes_ctext env order cs"
  from assms(1) have c: "time_reads env renv ts" "0 \<le> sint v" "trace_ok t" "console_consistent cs" "list_all (meta_reads env renv) cs"
    by (simp_all add: done_reads_def)
  obtain rep where time: "oneTime renv (done_text_body env ts v t ?a) =
      (Some (ts, rep), (CHR ''v'' # FormatInt (sint v) 10) @ CHR '' '' # spanHex t @ ?a)"
    using oneTime_text [OF c(1)] unfolding done_text_body_def by blast
  obtain sep where e: "ending ?a = (sep, tl ?a)" using attributes_goes_on [of env order cs] by (auto elim: goes_on_cases)
  note word = span_word(3,4) [OF c(3)] and key = spanHex_reads(1) [OF c(3)] and v = version_word [OF c(2)]
  define st' where "st' s = (if isRequest
      then st\<lparr>cy_store := (cy_store st)[ry_request s := (cy_store st ! ry_request s)\<lparr>rq_version := word_of_int (sint v)\<rparr>]\<rparr>
      else st\<lparr>cy_spans := aput (span_key t) (s\<lparr>ry_version := word_of_int (sint v)\<rparr>) (cy_spans st)\<rparr>)" for s
  have "defined_keys (st' s) (ry_request s) = defined_keys st (ry_request s)" for s
    by (cases "ry_request s < length (cy_store st)")
      (simp_all add: st'_def defined_keys_def definition_of_def requestID_def fun_eq_iff list_update_beyond split: option.split)
  then have "types_agree (st' s) (ry_request s) cs"
    if "map_of (if isRequest then cy_requests st else cy_spans st) (span_key t) = Some s" for s
    using types_agree_same assms(3) [OF that] by blast
  note meta = collect_record [OF assms(2) c(4,5) this]
  show ?thesis
  proof (cases "map_of (if isRequest then cy_requests st else cy_spans st) (span_key t)")
    case None
    then show ?thesis
      using time word attributes_goes_on [of env order cs] key v e
      by (cases isRequest)
        (simp_all add: replay_text_request_def replay_text_span_def replay_done_record_def span_key_def del: append.simps(2))
  next
    case (Some s)
    then show ?thesis
      using time word attributes_goes_on [of env order cs] key v e meta [OF Some]
      by (cases isRequest)
        (simp_all add: replay_text_request_def replay_text_span_def replay_done_record_def span_key_def finish_span_def
          finish_record_def st'_def del: append.simps(2))
  qed
qed

subsection \<open>The start of a span\<close>

definition span_start_reads :: "'m cenv \<Rightarrow> crenv \<Rightarrow> time \<Rightarrow> Trace \<Rightarrow> Trace \<Rightarrow> string \<Rightarrow> string \<Rightarrow> bool" where
  "span_start_reads env renv ts t p n short \<longleftrightarrow>
     time_reads env renv ts \<and> trace_ok t \<and> trace_ok p \<and> string_reads env renv n \<and> without '' '' short \<and> shortCodeRE short \<noteq> None"

definition replay_span_record ::
    "('h, 'w, 'm) base \<Rightarrow> time \<Rightarrow> Trace \<Rightarrow> Trace \<Rightarrow> string \<Rightarrow> string \<Rightarrow> ('h, 'w) creplay \<Rightarrow> ('h, 'w) creplay ran" where
  "replay_span_record dest ts t p n short st =
     (case map_of (cy_spans st) (span_key p) of
        None \<Rightarrow> Erring st
      | Some parent \<Rightarrow> start_span dest ts (span_key t) (span_key p) parent n (the (shortCodeRE short)) st)"

lemma replay_text_span_start:
  assumes "span_start_reads env renv ts t p n short"
  shows "replay_text_span renv dest (time_text env ts @ CHR '' '' # ''Start'' @ CHR '' '' # spanHex t @ CHR '' '' # spanHex p @
      CHR '' '' # string_text env n @ CHR '' '' # short) st = replay_span_record dest ts t p n short st"
proof -
  let ?s = "string_text env n @ CHR '' '' # short"
  from assms have c: "time_reads env renv ts" "trace_ok t" "trace_ok p" "string_reads env renv n" "without '' '' short"
      "shortCodeRE short \<noteq> None"
    by (simp_all add: span_start_reads_def)
  obtain rep where time: "oneTime renv (time_text env ts @ CHR '' '' # ''Start'' @ CHR '' '' # spanHex t @ CHR '' '' # spanHex p @
      CHR '' '' # ?s) = (Some (ts, rep), ''Start'' @ CHR '' '' # spanHex t @ CHR '' '' # spanHex p @ CHR '' '' # ?s)"
    using oneTime_text [OF c(1)] by blast
  have start: "oneWord (''Start'' @ CHR '' '' # r) '' '' = (''Start'', CHR '' '', r)" for r
    by (rule oneWord_until) simp_all
  have name: "oneString renv ?s = (n, CHR '' '' # short)"
    using c(4) not_in_console(1) by (simp add: oneString_text)
  have "short \<noteq> []" using c(6) by (auto simp: shortCodeRE_def)
  moreover obtain code where "shortCodeRE short = Some code" using c(6) by auto
  ultimately show ?thesis
    using time start name span_word [OF c(2)] span_word [OF c(3)] spanHex_reads(1) [OF c(2)] spanHex_reads(1) [OF c(3)]
      oneWordTerminal_end [OF c(5)]
    by (simp add: replay_text_span_def replay_span_start_def replay_span_record_def span_key_def Let_def
        split: option.split del: append.simps(2))
qed

text \<open>The codes that the logger writes are read.\<close>

lemma takeWhile_digits: "takeWhile isDigit (formatNat 10 n @ CHR ''.'' # r) = formatNat 10 n"
    "dropWhile isDigit (formatNat 10 n @ CHR ''.'' # r) = CHR ''.'' # r"
    "dropWhile isDigit (formatNat 10 n) = []" "takeWhile isDigit (formatNat 10 n) = formatNat 10 n"
proof -
  have d: "\<And>c. c \<in> set (formatNat 10 n) \<Longrightarrow> isDigit c" using formatNat_digits [of n] by (simp add: list_all_iff)
  have dot: "\<not> isDigit (CHR ''.'')" by (simp add: isDigit_def)
  show "takeWhile isDigit (formatNat 10 n @ CHR ''.'' # r) = formatNat 10 n"
    using d dot by (subst takeWhile_append2) auto
  show "dropWhile isDigit (formatNat 10 n @ CHR ''.'' # r) = CHR ''.'' # r"
    using d dot by (subst dropWhile_append2) auto
  show "dropWhile isDigit (formatNat 10 n) = []" "takeWhile isDigit (formatNat 10 n) = formatNat 10 n"
    using d by simp_all
qed

definition code_reads :: "string \<Rightarrow> bool" where
  "code_reads code \<longleftrightarrow> code = [] \<or> hd code = CHR ''.'' \<and> tl code \<noteq> [] \<and> list_all (\<lambda>c. \<not> isGoSpace c) (tl code)"

lemma shortCodeRE_text:
  assumes "0 \<le> tn" "0 \<le> rn" "code_reads code"
  shows "shortCodeRE (''T'' @ Itoa tn @ ''.'' @ Itoa rn @ code) = Some code" "without '' '' (''T'' @ Itoa tn @ ''.'' @ Itoa rn @ code)"
proof -
  have n: "Itoa tn = formatNat 10 (nat tn)" "Itoa rn = formatNat 10 (nat rn)"
    using assms(1,2) by (simp_all add: Itoa_def FormatInt_def)
  obtain c s where r: "formatNat 10 (nat rn) = c # s" "isDigit c" using formatNat_first by blast
  have digits: "digitsThen (CHR ''.'') (formatNat 10 (nat tn) @ CHR ''.'' # r) = Some r" for r
    using formatNat_nonempty [of 10 "nat tn"] by (simp add: digitsThen_def takeWhile_digits)
  consider (none) "code = []" | (some) u where "code = CHR ''.'' # u" "u \<noteq> []" "list_all (\<lambda>c. \<not> isGoSpace c) u"
    using assms(3) by (cases code) (auto simp: code_reads_def)
  then show "shortCodeRE (''T'' @ Itoa tn @ ''.'' @ Itoa rn @ code) = Some code"
  proof cases
    case none
    then show ?thesis using digits [of "formatNat 10 (nat rn)"] r takeWhile_digits(3) [of "nat rn"]
      by (simp add: shortCodeRE_def n Let_def)
  next
    case (some u)
    then have tw: "takeWhile (\<lambda>c. \<not> isGoSpace c) u = u" by (simp add: list_all_iff takeWhile_eq_all_conv)
    with some show ?thesis using digits [of "formatNat 10 (nat rn) @ code"] r takeWhile_digits(2) [of "nat rn" u]
      by (simp add: shortCodeRE_def n Let_def tw)
  qed
  have "without '' '' (formatNat 10 m)" for m
    using formatNat_digits [of m] by (auto simp: without_def list_all_iff isDigit_def)
  moreover have "without '' '' code"
    using assms(3) by (cases code) (auto simp: code_reads_def without_def list_all_iff isGoSpace_def)
  ultimately show "without '' '' (''T'' @ Itoa tn @ ''.'' @ Itoa rn @ code)" by (simp add: n)
qed

subsection \<open>Definitions\<close>

definition define_reads :: "'m cenv \<Rightarrow> time \<Rightarrow> Attribute \<Rightarrow> bool" where
  "define_reads env ts k \<longleftrightarrow>
     without '' '' (time_text env ts) \<and> at_jsonDef k = jsonAttributeDefinition k \<and> attribute_safe k"

definition replay_define_record :: "Attribute \<Rightarrow> ('h, 'w) creplay \<Rightarrow> ('h, 'w) creplay ran" where
  "replay_define_record k st =
     Fine (st\<lparr>cy_definitions := (cy_definitions st)\<lparr>gd_CommonDefinitions :=
       aput (at_key k) (decodedDefinition k) (gd_CommonDefinitions (cy_definitions st))\<rparr>\<rparr>)"

lemma Decode_object:
  assumes "attribute_safe k"
  shows "Decode (objectText (definitionFields k)) g =
    (g\<lparr>gd_CommonDefinitions := aput (at_key k) (decodedDefinition k) (gd_CommonDefinitions g)\<rparr>, False)"
proof -
  have "unmarshalDefinition (objectText (definitionFields k)) = Some (decodedDefinition k)"
    using readObject_objectText [OF definitionFields_safe [OF assms], of "[]"]
    by (simp add: unmarshalDefinition_def decode_definitionFields [OF assms])
  then show ?thesis by (simp add: Decode_def decodedDefinition_def Let_def)
qed

lemma replay_text_define:
  assumes "define_reads env ts k"
  shows "replay_text_def (time_text env ts @ CHR '' '' # objectText (definitionFields k)) st = replay_define_record k st"
proof -
  have "oneWord (time_text env ts @ CHR '' '' # objectText (definitionFields k)) '' '' =
      (time_text env ts, CHR '' '', objectText (definitionFields k))"
    using assms by (intro oneWord_until) (simp_all add: define_reads_def)
  moreover have "objectText (definitionFields k) \<noteq> []" "hd (objectText (definitionFields k)) = CHR ''{''"
    by (simp_all add: objectText_def)
  ultimately show ?thesis
    using Decode_object [of k "cy_definitions st"] assms by (simp add: replay_text_def_def replay_define_record_def define_reads_def)
qed

subsection \<open>The start of a request\<close>

text \<open>
  The parent comes back whole when it is of another trace; of a parent of the same trace the text keeps only
  the span id, and its flags are those of a new trace.
\<close>

definition replayed_parent :: "Bundle \<Rightarrow> Trace" where
  "replayed_parent b =
     (if Trace_IsZero (bu_Parent b) then NewTrace
      else if Trace_Get TraceIDField (bu_Parent b) \<noteq> Trace_Get TraceIDField (bu_Trace b) then bu_Parent b
      else Wrapped_Set SpanIDField (Trace_Get SpanIDField (bu_Parent b))
        (Wrapped_Set TraceIDField (Trace_Get TraceIDField (bu_Trace b)) NewTrace))"

definition replayed_bundle :: "Bundle \<Rightarrow> Bundle" where
  "replayed_bundle b = b\<lparr>bu_Parent := replayed_parent b\<rparr>"

definition parent_text :: "Bundle \<Rightarrow> string" where
  "parent_text b =
     (if Trace_Get TraceIDField (bu_Parent b) \<noteq> Trace_Get TraceIDField (bu_Trace b) then Trace_String (bu_Parent b)
      else hb_h (Trace_Get SpanIDField (bu_Parent b)))"

text \<open>The parameters that are written, each with the text of its value and the value.\<close>

definition request_words :: "'m cenv \<Rightarrow> Bundle \<Rightarrow> (string \<times> string \<times> string) list" where
  "request_words env b =
     (if Trace_IsZero (bu_Parent b) then [] else [(''parent'', parent_text b, parent_text b)]) @
     (if bu_State b = [] then [] else [(''state'', string_text env (bu_State b), bu_State b)]) @
     (if bu_Baggage b = [] then [] else [(''baggage'', string_text env (bu_Baggage b), bu_Baggage b)])"

definition words_text :: "(string \<times> string \<times> string) list \<Rightarrow> string" where
  "words_text ws = concat (map (\<lambda>(w, t, v). CHR '' '' # w @ CHR '':'' # t) ws)"

definition request_body :: "'m cenv \<Rightarrow> time \<Rightarrow> Bundle \<Rightarrow> string \<Rightarrow> SourceInfo \<Rightarrow> string" where
  "request_body env ts b n si =
     time_text env ts @ CHR '' '' # ''Start1'' @ CHR '' '' # Trace_String (bu_Trace b) @ CHR '' '' # string_text env n @
     CHR '' '' # string_text env (si_Source si @ ''-'' @ si_SourceVersion si) @ CHR '' '' #
     string_text env (si_Namespace si @ ''-'' @ si_NamespaceVersion si) @ words_text (request_words env b)"

lemma request_start_body: "request_start_text env ts b n si = ''xop Request '' @ request_body env ts b n si @ [CHR 0x0A]"
  by (simp add: request_start_text_def request_body_def time_text_def cb_TimeFormatter_def string_text_def newline_def words_text_def
      request_words_def parent_text_def)

definition bundle_reads :: "'m cenv \<Rightarrow> crenv \<Rightarrow> Bundle \<Rightarrow> bool" where
  "bundle_reads env renv b \<longleftrightarrow>
     trace_ok (bu_Trace b) \<and> tr_initialized (bu_Trace b) \<and> trace_ok (bu_Parent b) \<and> tr_initialized (bu_Parent b) \<and>
     (bu_State b \<noteq> [] \<longrightarrow> string_reads env renv (bu_State b)) \<and> (bu_Baggage b \<noteq> [] \<longrightarrow> string_reads env renv (bu_Baggage b))"

definition request_reads :: "'m cenv \<Rightarrow> crenv \<Rightarrow> time \<Rightarrow> Bundle \<Rightarrow> string \<Rightarrow> SourceInfo \<Rightarrow> bool" where
  "request_reads env renv ts b n si \<longleftrightarrow>
     (let so = si_Source si @ ''-'' @ si_SourceVersion si; ns = si_Namespace si @ ''-'' @ si_NamespaceVersion si in
      time_reads env renv ts \<and> bundle_reads env renv b \<and> n \<noteq> [] \<and> string_reads env renv n \<and>
      string_reads env renv so \<and> SplitVersion (rp_strict renv) so = (si_Source si, si_SourceVersion si) \<and>
      string_reads env renv ns \<and> SplitVersion (rp_strict renv) ns = (si_Namespace si, si_NamespaceVersion si))"

text \<open>A parameter is taken off the text.\<close>

lemma request_params_step:
  assumes "without '' :='' w" "w \<noteq> []" "hd w \<noteq> dquote" "oneStringAndSep renv (t @ r) = (v, ending r)" "goes_on r"
    "request_param w v b = Some b'"
  shows "request_params renv (w @ CHR '':'' # t @ r) b = request_params renv (tl r) b'"
proof -
  have "quoted_part (w @ CHR '':'' # t @ r) = None"
    using assms(2,3) by (cases w) (auto simp: quoted_part_def)
  then have w: "oneWordMaybeQuoted renv (w @ CHR '':'' # t @ r) '' :='' = (w, CHR '':'', t @ r)"
    using oneWord_until [OF assms(1), of "CHR '':''" "t @ r"] assms(2) by (simp add: oneWordMaybeQuoted_def)
  obtain c where "ending r = (c, tl r)" "c = NUL \<or> c = CHR '' ''" using assms(5) by (auto elim: goes_on_cases)
  with w assms(2,4,6) show ?thesis
    by (subst request_params.simps) (auto simp: NUL_def)
qed

fun apply_words :: "(string \<times> string \<times> string) list \<Rightarrow> Bundle \<Rightarrow> Bundle option" where
  "apply_words [] b = Some b"
| "apply_words ((w, t, v) # ws) b = (case request_param w v b of None \<Rightarrow> None | Some b \<Rightarrow> apply_words ws b)"

definition word_reads :: "crenv \<Rightarrow> string \<times> string \<times> string \<Rightarrow> bool" where
  "word_reads renv x \<longleftrightarrow>
     (case x of (w, t, v) \<Rightarrow> w \<in> {''parent'', ''state'', ''baggage''} \<and>
        (\<forall>r. goes_on r \<longrightarrow> oneStringAndSep renv (t @ r) = (v, ending r)))"

lemma request_params_words:
  assumes "list_all (word_reads renv) ws" "apply_words ws b = Some b'" "goes_on r"
  shows "request_params renv (tl (words_text ws @ r)) b = request_params renv (tl r) b'"
  using assms(1,2)
proof (induction ws arbitrary: b)
  case Nil
  then show ?case by (simp add: words_text_def)
next
  case (Cons x ws)
  obtain w t v where x: "x = (w, t, v)" by (cases x)
  from Cons.prems(2) obtain b1 where b1: "request_param w v b = Some b1" "apply_words ws b1 = Some b'"
    by (auto simp: x split: option.splits)
  have r: "goes_on (words_text ws @ r)" using assms(3) by (cases ws) (auto simp: words_text_def goes_on_def)
  have w: "w \<in> {''parent'', ''state'', ''baggage''}" using Cons.prems(1) by (simp add: x word_reads_def)
  then have "without '' :='' w \<and> w \<noteq> [] \<and> hd w \<noteq> dquote" by (elim insertE; simp add: dquote_def)
  moreover have "oneStringAndSep renv (t @ words_text ws @ r) = (v, ending (words_text ws @ r))"
    using Cons.prems(1) r by (simp add: x word_reads_def)
  ultimately have "request_params renv (w @ CHR '':'' # t @ words_text ws @ r) b = request_params renv (tl (words_text ws @ r)) b1"
    using r b1(1) by (intro request_params_step) simp_all
  with Cons b1(2) show ?case by (simp add: x words_text_def)
qed

text \<open>The words of a bundle give the bundle back.\<close>

lemma apply_words_bundle:
  assumes "bundle_reads env renv b"
  shows "apply_words (request_words env b) \<lparr>bu_Parent = NewTrace, bu_Trace = bu_Trace b, bu_State = [], bu_Baggage = []\<rparr> =
    Some (replayed_bundle b)"
proof -
  let ?p = "bu_Parent b" and ?new = "\<lparr>bu_Parent = NewTrace, bu_Trace = bu_Trace b, bu_State = [], bu_Baggage = []\<rparr>"
  from assms have p: "trace_ok ?p" "tr_initialized ?p" by (simp_all add: bundle_reads_def)
  have "request_param ''parent'' (parent_text b) ?new = Some (?new\<lparr>bu_Parent := replayed_parent b\<rparr>)" if "\<not> Trace_IsZero ?p"
  proof (cases "Trace_Get TraceIDField ?p \<noteq> Trace_Get TraceIDField (bu_Trace b)")
    case True
    with p that header_safe(2) [OF p] SetString_roundtrip_eq [OF p NewTrace_ok(1)] show ?thesis
      by (simp add: request_param_def parent_text_def replayed_parent_def)
  next
    case False
    let ?x = "Trace_Get SpanIDField ?p" and ?t = "Wrapped_Set TraceIDField (Trace_Get TraceIDField (bu_Trace b)) NewTrace"
    have x: "?x = tr_spanID ?p" "length (hb_b ?x) = 8" "hb_h ?x = hex_Encode (hb_b ?x)"
      using p by (simp_all add: Trace_Get_def trace_defs hb_size_def hb_cached_def)
    have "length (hb_b (tr_spanID NewTrace)) = 8" using NewTrace_ok by (simp add: trace_defs hb_size_def)
    then have "Wrapped_SetString SpanIDField (hb_h ?x) ?t = Wrapped_Set SpanIDField ?x ?t"
      using x(2,3)
      by (simp add: Wrapped_SetString_def Wrapped_Set_def Wrapped_put_def hb_encode_def setBytesFromString_def rebuild_def)
    moreover have "length (hb_h ?x) = 16" using x(2,3) by simp
    ultimately show ?thesis
      using that False by (simp add: request_param_def parent_text_def replayed_parent_def Wrapped_Set_def NewTrace_ok)
  qed
  moreover have "?new\<lparr>bu_Parent := NewTrace\<rparr> = ?new" by simp
  ultimately show ?thesis
    by (cases "Trace_IsZero ?p"; cases "bu_State b = []"; cases "bu_Baggage b = []")
      (simp_all add: request_words_def replayed_bundle_def replayed_parent_def request_param_def)
qed

lemma request_words_read:
  assumes "bundle_reads env renv b"
  shows "list_all (word_reads renv) (request_words env b)"
proof -
  from assms have p: "trace_ok (bu_Parent b)" "tr_initialized (bu_Parent b)" by (simp_all add: bundle_reads_def)
  have "hb_h (Trace_Get SpanIDField (bu_Parent b)) = hex_Encode (hb_b (tr_spanID (bu_Parent b)))"
    "length (hb_b (tr_spanID (bu_Parent b))) = 8"
    using p by (simp_all add: Trace_Get_def trace_defs hb_size_def hb_cached_def)
  then have h: "list_all isHexChar (hb_h (Trace_Get SpanIDField (bu_Parent b)))" "hb_h (Trace_Get SpanIDField (bu_Parent b)) \<noteq> []"
    using hex_Encode_isHex [of "hb_b (tr_spanID (bu_Parent b))"] length_hex_Encode [of "hb_b (tr_spanID (bu_Parent b))"]
    by (simp_all del: length_hex_Encode, force)
  from hd_in_set [OF h(2)] last_in_set [OF h(2)] h have "safeRE (hb_h (Trace_Get SpanIDField (bu_Parent b)))"
    by (auto simp: safeRE_def list_all_iff hex_safe)
  with header_safe(1) [OF p] have "safeRE (parent_text b)" by (simp add: parent_text_def)
  then have parent: "word_reads renv (''parent'', parent_text b, parent_text b)"
    by (simp add: word_reads_def safe_sep goes_on_stops)
  have "word_reads renv (''state'', string_text env (bu_State b), bu_State b)" if "bu_State b \<noteq> []"
    using assms that by (simp add: word_reads_def bundle_reads_def oneStringAndSep_text goes_on_stops)
  moreover have "word_reads renv (''baggage'', string_text env (bu_Baggage b), bu_Baggage b)" if "bu_Baggage b \<noteq> []"
    using assms that by (simp add: word_reads_def bundle_reads_def oneStringAndSep_text goes_on_stops)
  ultimately show ?thesis using parent by (auto simp: request_words_def)
qed

lemma oneStringAndSpace_goes_on:
  "string_reads env renv s \<Longrightarrow> s \<noteq> [] \<Longrightarrow> goes_on r \<Longrightarrow> oneStringAndSpace renv (string_text env s @ r) = (s, tl r)"
  using oneString_text [of env renv s r] goes_on_stops [of r] by (auto simp: oneStringAndSpace_def elim: goes_on_cases)

text \<open>The start of a request, with more parameters after it.\<close>

lemma replay_text_request_more:
  assumes "request_reads env renv ts b n si" "goes_on r"
  shows "replay_text_request renv dest (request_body env ts b n si @ r) st =
    (case request_params renv (tl r) (replayed_bundle b) of
       None \<Rightarrow> Hanging
     | Some None \<Rightarrow> Erring st
     | Some (Some b) \<Rightarrow> start_request dest ts b n si st)"
proof -
  let ?so = "si_Source si @ ''-'' @ si_SourceVersion si" and ?ns = "si_Namespace si @ ''-'' @ si_NamespaceVersion si"
  let ?words = "words_text (request_words env b) @ r"
  let ?r3 = "string_text env ?ns @ ?words" and ?th = "Trace_String (bu_Trace b)"
  let ?r2 = "string_text env ?so @ CHR '' '' # ?r3"
  let ?r1 = "string_text env n @ CHR '' '' # ?r2"
  from assms(1) have c: "time_reads env renv ts" "bundle_reads env renv b" "n \<noteq> []" "string_reads env renv n"
      "string_reads env renv ?so" "SplitVersion (rp_strict renv) ?so = (si_Source si, si_SourceVersion si)"
      "string_reads env renv ?ns" "SplitVersion (rp_strict renv) ?ns = (si_Namespace si, si_NamespaceVersion si)"
    by (simp_all add: request_reads_def Let_def)
  from c(2) have tr: "trace_ok (bu_Trace b)" "tr_initialized (bu_Trace b)" by (simp_all add: bundle_reads_def)
  have body: "request_body env ts b n si @ r = time_text env ts @ CHR '' '' # ''Start1'' @ CHR '' '' # ?th @ CHR '' '' # ?r1"
    by (simp add: request_body_def)
  obtain rep where time: "oneTime renv (request_body env ts b n si @ r) =
      (Some (ts, rep), ''Start1'' @ CHR '' '' # ?th @ CHR '' '' # ?r1)"
    using oneTime_text [OF c(1)] unfolding body by blast
  have start: "oneWord (''Start1'' @ CHR '' '' # r) '' '' = (''Start1'', CHR '' '', r)" for r
    by (rule oneWord_until) simp_all
  have th: "oneWord (?th @ CHR '' '' # ?r1) '' '' = (?th, CHR '' '', ?r1)" "?th \<noteq> []"
    using header_safe(2,3) [OF tr] by (auto intro!: oneWord_until)
  have header: "TraceFromString ?th = (bu_Trace b, True)"
    by (simp add: TraceFromString_def SetString_roundtrip_eq tr zeroTrace_ok)
  have "goes_on ?words" using assms(2) by (cases "request_words env b") (auto simp: words_text_def goes_on_def)
  then have ns: "oneStringAndSpace renv ?r3 = (?ns, tl ?words)"
    using c(7) by (intro oneStringAndSpace_goes_on) simp_all
  have names: "oneStringAndSpace renv ?r1 = (n, ?r2)" "oneStringAndSpace renv ?r2 = (?so, ?r3)"
    using c(3-5) by (simp_all add: oneStringAndSpace_text)
  note params = request_params_words [OF request_words_read [OF c(2)] apply_words_bundle [OF c(2)] assms(2)]
  have info: "\<lparr>si_Source = si_Source si, si_SourceVersion = si_SourceVersion si,
      si_Namespace = si_Namespace si, si_NamespaceVersion = si_NamespaceVersion si\<rparr> = si" by (cases si) simp
  have "replayRequestStart renv dest ts (?th @ CHR '' '' # ?r1) st =
      (case request_params renv (tl r) (replayed_bundle b) of
         None \<Rightarrow> Hanging
       | Some None \<Rightarrow> Erring st
       | Some (Some b) \<Rightarrow> start_request dest ts b n si st)"
    unfolding replayRequestStart_def Let_def th(1) header names ns prod.case params c(6) c(8) info
    using th(2) c(3) by (simp split: option.split)
  with time start show ?thesis by (simp add: replay_text_request_def del: append.simps(2))
qed

lemma replay_text_request_start:
  assumes "request_reads env renv ts b n si"
  shows "replay_text_request renv dest (request_body env ts b n si) st = start_request dest ts (replayed_bundle b) n si st"
  using replay_text_request_more [OF assms, of "[]" dest st]
  by (simp add: goes_on_def request_params.simps)

end
