(* ===== verification/ConsoleRefine.thy ===== *)
theory ConsoleRefine
  imports ConsoleSpec
begin

section \<open>The console logger implements its specification\<close>

text \<open>
  A forward simulation between the console logger, whose builders share memory, and the logger of
  records of \<open>ConsoleSpec\<close>: whatever the specification lets a client do, the console logger does, and what
  it has written is the texts of the records.
\<close>

subsection \<open>The relation\<close>

definition cspan_rel :: "'m cenv \<Rightarrow> (string \<Rightarrow> Attribute) \<Rightarrow> cspan \<Rightarrow> 'm rspan \<Rightarrow> bool" where
  "cspan_rel env reg c r \<longleftrightarrow>
     cattributes_hold env (rn_calls r) (cs_Attributes c) \<and> ca_request (cs_Attributes c) = rn_request r \<and>
     (cs_TraceNum c, cs_RequestNum c) = rn_nums r \<and> cs_Bundle c = rn_bundle r \<and> cs_IsRequest c = rn_isRequest r \<and>
     cs_StartTime c = rn_start r \<and> cs_VersionNumber c = rn_version r \<and>
     (\<forall>x \<in> set (rn_calls r). same_attribute (reg (at_key (fst x))) (fst x))"

definition cspans_rel :: "'m cenv \<Rightarrow> (string \<Rightarrow> Attribute) \<Rightarrow> cspan list \<Rightarrow> 'm rspan list \<Rightarrow> bool" where
  "cspans_rel env reg cs rs \<longleftrightarrow> list_all2 (cspan_rel env reg) cs rs \<and>
     (\<forall>n < length rs. cs_Parent (cs ! n) < length rs \<and> rn_nums (rs ! cs_Parent (cs ! n)) = rn_nums (rs ! n) \<and>
        rn_request (rs ! n) < length rs)"

definition cbuilder_rel :: "'m cenv \<Rightarrow> nat \<Rightarrow> string list \<Rightarrow> cbuilder \<Rightarrow> 'm rbuilder \<Rightarrow> bool" where
  "cbuilder_rel env n h c r \<longleftrightarrow> cu_Span c = rb_span r \<and> rb_span r < n \<and> cu_kind c = rb_kind r \<and>
     (rb_valid r \<longrightarrow> slice_ok h (cu_B c) \<and> slice_text h (cu_B c) = data_text env (rb_data r) \<and>
        (rb_data r = [] \<longrightarrow> cu_B c = nil_slice))"

text \<open>Two valid builders that share an array are of one group.\<close>

definition shares :: "slice \<Rightarrow> slice \<Rightarrow> bool" where
  "shares s t \<longleftrightarrow> sl_base s \<noteq> None \<and> sl_base s = sl_base t"

lemma shares_sym: "shares s t \<Longrightarrow> shares t s"
  by (metis shares_def)

lemma shares_base: "shares s t \<Longrightarrow> sl_base t = sl_base u \<Longrightarrow> shares s u"
  by (metis shares_def)

lemma shares_nil [simp]: "\<not> shares s nil_slice"
  by (metis shares_def nil_slice_def slice.select_convs(1))

definition cbuilders_rel :: "'m cenv \<Rightarrow> nat \<Rightarrow> string list \<Rightarrow> cbuilder list \<Rightarrow> 'm rbuilder list \<Rightarrow> bool" where
  "cbuilders_rel env n h cs rs \<longleftrightarrow> list_all2 (cbuilder_rel env n h) cs rs \<and>
     (\<forall>i < length rs. \<forall>j < length rs. i \<noteq> j \<longrightarrow> rb_valid (rs ! i) \<longrightarrow> rb_valid (rs ! j) \<longrightarrow> shares (cu_B (cs ! i)) (cu_B (cs ! j)) \<longrightarrow>
        rb_group (rs ! i) = rb_group (rs ! j))"

fun chandle_ok :: "nat \<Rightarrow> nat \<Rightarrow> chandle \<Rightarrow> bool" where
  "chandle_ok n m (CSpanH s) = (s < n)"
| "chandle_ok n m (CBuilderH b) = (b < m)"

lemma chandle_ok_mono: "list_all (chandle_ok n m) ks \<Longrightarrow> n \<le> n' \<Longrightarrow> m \<le> m' \<Longrightarrow> list_all (chandle_ok n' m') ks"
proof (induction ks)
  case (Cons k ks)
  then show ?case by (cases k) simp_all
qed simp

definition console_rel :: "'m cenv \<Rightarrow> (string \<Rightarrow> Attribute) \<Rightarrow> clogger \<times> chandle list \<Rightarrow> 'm rlogger \<times> chandle list \<Rightarrow> bool" where
  "console_rel env reg = (\<lambda>(w, hs) (d, ks).
     cl_requestCounter w = rl_counter d \<and> cl_errorReporter w = rl_reporter d \<and> cspans_rel env reg (cl_spans w) (rl_spans d) \<and>
     cbuilders_rel env (length (rl_spans d)) (cl_memory w) (cl_builders w) (rl_builders d) \<and>
     cl_written w = map (render env) (rl_records d) \<and> cl_calls w = rl_calls d \<and> hs = ks \<and>
     list_all (chandle_ok (length (rl_spans d)) (length (rl_builders d))) ks)"

subsection \<open>Writing\<close>

lemma console_write_rel:
  assumes "rec_emit env r d = Some d'" "console_rel env reg (w, hs) (d, ks)" "t = render env r"
  shows "\<exists>w'. console_write env t w = Some w' \<and> console_rel env reg (w', hs) (d', ks) \<and>
    rl_spans d' = rl_spans d \<and> rl_builders d' = rl_builders d \<and> cl_spans w' = cl_spans w"
  using assms by (auto simp: rec_emit_def console_write_def console_rel_def Let_def split: if_splits)

subsection \<open>Spans\<close>

lemma cspans_rel_length: "cspans_rel env reg cs rs \<Longrightarrow> length cs = length rs"
  by (auto simp: cspans_rel_def dest: list_all2_lengthD)

lemma cspans_rel_nth: "cspans_rel env reg cs rs \<Longrightarrow> n < length rs \<Longrightarrow> cspan_rel env reg (cs ! n) (rs ! n)"
  by (auto simp: cspans_rel_def list_all2_conv_all_nth)

lemma cspans_rel_update:
  assumes "cspans_rel env reg cs rs" "s < length rs" "cspan_rel env reg a b" "cs_Parent a = cs_Parent (cs ! s)"
    "rn_nums b = rn_nums (rs ! s)" "rn_request b = rn_request (rs ! s)"
  shows "cspans_rel env reg (cs[s := a]) (rs[s := b])"
proof -
  have "length cs = length rs" using assms(1) by (rule cspans_rel_length)
  then have r: "cs_Parent (cs[s := a] ! k) = cs_Parent (cs ! k)" "rn_nums (rs[s := b] ! k) = rn_nums (rs ! k)"
    "rn_request (rs[s := b] ! k) = rn_request (rs ! k)" for k
    using assms(2,4-6) by (cases "k = s"; simp)+
  show ?thesis
    using assms(1,3) unfolding cspans_rel_def r length_list_update by (simp add: list_all2_update_cong)
qed

lemma cspans_rel_append:
  assumes "cspans_rel env reg cs rs" "cspan_rel env reg a b" "cs_Parent a \<le> length rs"
    "cs_Parent a < length rs \<longrightarrow> rn_nums (rs ! cs_Parent a) = rn_nums b" "rn_request b \<le> length rs"
  shows "cspans_rel env reg (cs @ [a]) (rs @ [b])"
proof -
  have len: "length cs = length rs" using assms(1) by (rule cspans_rel_length)
  have "cs_Parent ((cs @ [a]) ! n) < length (rs @ [b]) \<and> rn_nums ((rs @ [b]) ! cs_Parent ((cs @ [a]) ! n)) = rn_nums ((rs @ [b]) ! n) \<and>
      rn_request ((rs @ [b]) ! n) < length (rs @ [b])" if "n < length (rs @ [b])" for n
  proof (cases "n < length rs")
    case True
    with assms(1) have "cs_Parent (cs ! n) < length rs" "rn_nums (rs ! cs_Parent (cs ! n)) = rn_nums (rs ! n)"
      "rn_request (rs ! n) < length rs"
      unfolding cspans_rel_def by blast+
    with True len show ?thesis by (simp add: nth_append)
  next
    case False
    with that have n: "n = length rs" by simp
    have "rn_nums ((rs @ [b]) ! cs_Parent a) = rn_nums b"
      using assms(3,4) by (cases "cs_Parent a = length rs") (simp_all add: nth_append)
    with n assms(3,5) len show ?thesis by (simp add: nth_append)
  qed
  with assms(1,2) show ?thesis by (simp add: cspans_rel_def list_all2_appendI)
qed

lemma cbuilders_rel_mono: "cbuilders_rel env n h cs rs \<Longrightarrow> n \<le> m \<Longrightarrow> cbuilders_rel env m h cs rs"
  unfolding cbuilders_rel_def by (elim conjE, intro conjI, erule list_all2_mono) (auto simp: cbuilder_rel_def)

lemma console_rel_upd_span:
  assumes "console_rel env reg (w, hs) (d, ks)" "s < length (rl_spans d)"
    "cspan_rel env reg (f (cl_spans w ! s)) (g (rl_spans d ! s))" "cs_Parent (f (cl_spans w ! s)) = cs_Parent (cl_spans w ! s)"
    "rn_nums (g (rl_spans d ! s)) = rn_nums (rl_spans d ! s)" "rn_request (g (rl_spans d ! s)) = rn_request (rl_spans d ! s)"
  shows "console_rel env reg (upd_cspan s f w, hs) (upd_rspan s g d, ks)"
proof -
  have "cspans_rel env reg (cl_spans w) (rl_spans d)" using assms(1) by (simp add: console_rel_def)
  from cspans_rel_update [OF this assms(2-6)] assms(1) show ?thesis
    by (simp add: console_rel_def upd_cspan_def upd_rspan_def)
qed

lemma console_rel_append_span:
  assumes "console_rel env reg (w, hs) (d, ks)" "cspan_rel env reg a b" "cs_Parent a \<le> length (rl_spans d)"
    "cs_Parent a < length (rl_spans d) \<longrightarrow> rn_nums (rl_spans d ! cs_Parent a) = rn_nums b" "rn_request b \<le> length (rl_spans d)"
  shows "console_rel env reg (w\<lparr>cl_requestCounter := c, cl_spans := cl_spans w @ [a]\<rparr>, hs @ [CSpanH (length (rl_spans d))])
    (d\<lparr>rl_counter := c, rl_spans := rl_spans d @ [b]\<rparr>, ks @ [CSpanH (length (rl_spans d))])"
proof -
  have "cspans_rel env reg (cl_spans w) (rl_spans d)" using assms(1) by (simp add: console_rel_def)
  note s = cspans_rel_append [OF this assms(2-5)]
  have "cbuilders_rel env (length (rl_spans d)) (cl_memory w) (cl_builders w) (rl_builders d)"
    using assms(1) by (simp add: console_rel_def)
  from s cbuilders_rel_mono [OF this, of "Suc (length (rl_spans d))"] assms(1) show ?thesis
    by (simp add: console_rel_def) (auto elim: chandle_ok_mono)
qed

lemma console_rel_lengths:
  assumes "console_rel env reg (w, hs) (d, ks)"
  shows "length (cl_spans w) = length (rl_spans d)" "length (cl_builders w) = length (rl_builders d)"
    "cspans_rel env reg (cl_spans w) (rl_spans d)"
  using assms by (auto simp: console_rel_def cbuilders_rel_def dest: cspans_rel_length list_all2_lengthD)


text \<open>A span that ends, or gets an attribute, is still related.\<close>

lemma cspan_rel_consistent:
  assumes "cspan_rel env reg c r" "same_attribute (reg (at_key k)) k"
  shows "console_consistent (rn_calls r @ [(k, v)])"
proof -
  have "same_attribute (reg (at_key (fst x))) (fst x)" if "x \<in> set (rn_calls r @ [(k, v)])" for x
    using that assms by (auto simp: cspan_rel_def)
  then show ?thesis unfolding console_consistent_def same_attribute_def by metis
qed

lemma console_Request_rel:
  assumes rel: "console_rel env reg (w, hs) (d, ks)" and call: "rec_Request env ts b n si d = Some (s, d')"
  shows "\<exists>w'. Console_Request env ts b n si w = Some (s, w') \<and> console_rel env reg (w', hs @ [CSpanH s]) (d', ks @ [CSpanH s])"
proof -
  obtain tn rn new c where g: "GetNumber (bu_Trace b) (rl_counter d) = ((tn, rn, new), c)" by (metis prod_cases4 surj_pair)
  let ?m = "length (rl_spans d)"
  let ?a = "\<lparr>cs_Attributes = CAttributes_Init ?m, cs_EndTime = 0, cs_provisionalEndTime = 0,
      cs_RequestNum = sint rn, cs_TraceNum = sint tn, cs_Bundle = b, cs_IsRequest = True,
      cs_Parent = ?m, cs_Short = ''T'' @ Itoa (sint tn) @ ''.'' @ Itoa (sint rn),
      cs_StartTime = ts, cs_Name = n, cs_SequenceCode = [], cs_SourceInfo = Some si, cs_VersionNumber = 0\<rparr>"
  let ?b = "\<lparr>rn_calls = [], rn_request = ?m, rn_nums = (sint tn, sint rn), rn_bundle = b, rn_isRequest = True,
      rn_start = ts, rn_version = 0\<rparr>"
  have s: "cspan_rel env reg ?a ?b" using cattributes_hold_Init [of env ?m] by (simp add: cspan_rel_def CAttributes_Init_def)
  have rel1: "console_rel env reg (w\<lparr>cl_requestCounter := c, cl_spans := cl_spans w @ [?a]\<rparr>, hs @ [CSpanH ?m])
    (d\<lparr>rl_counter := c, rl_spans := rl_spans d @ [?b]\<rparr>, ks @ [CSpanH ?m])"
    by (rule console_rel_append_span [OF rel s]) simp_all
  from call g have e: "rec_emit env (RRequestStart ts b n si) (d\<lparr>rl_counter := c, rl_spans := rl_spans d @ [?b]\<rparr>) = Some d'" "s = ?m"
    by (auto simp: rec_Request_def Let_def)
  from console_write_rel [OF e(1) rel1 refl] obtain w' where
    "console_write env (request_start_text env ts b n si) (w\<lparr>cl_requestCounter := c, cl_spans := cl_spans w @ [?a]\<rparr>) = Some w'"
    "console_rel env reg (w', hs @ [CSpanH ?m]) (d', ks @ [CSpanH ?m])"
    by auto
  then show ?thesis
    using g e(2) rel console_rel_lengths(1) [OF rel] by (simp add: Console_Request_def Let_def console_rel_def)
qed

lemma console_Span_rel:
  assumes rel: "console_rel env reg (w, hs) (d, ks)" and call: "rec_Span env ts b n code p d = Some (s, d')" and p: "p < length (rl_spans d)"
  shows "\<exists>w'. Console_Span env ts b n code p w = Some (s, w') \<and> console_rel env reg (w', hs @ [CSpanH s]) (d', ks @ [CSpanH s])"
proof -
  let ?x = "cl_spans w ! p" and ?y = "rl_spans d ! p" and ?m = "length (rl_spans d)"
  note spans = console_rel_lengths(3) [OF rel]
  have xy: "cspan_rel env reg ?x ?y" by (rule cspans_rel_nth [OF spans p])
  have up: "cs_Parent ?x < ?m" "rn_nums (rl_spans d ! cs_Parent ?x) = rn_nums ?y" "rn_request ?y < ?m"
    using spans p unfolding cspans_rel_def by blast+
  obtain tn rn where nums: "rn_nums ?y = (tn, rn)" by (cases "rn_nums ?y")
  have parent: "cs_TraceNum (cl_spans w ! cs_Parent ?x) = tn" "cs_RequestNum (cl_spans w ! cs_Parent ?x) = rn"
    using cspans_rel_nth [OF spans up(1)] up(2) nums by (simp_all add: cspan_rel_def)
  let ?short = "''T'' @ Itoa tn @ ''.'' @ Itoa rn @ code"
  let ?a = "\<lparr>cs_Attributes = CAttributes_Init (ca_request (cs_Attributes ?x)), cs_EndTime = 0, cs_provisionalEndTime = 0,
      cs_RequestNum = rn, cs_TraceNum = tn, cs_Bundle = b, cs_IsRequest = False,
      cs_Parent = p, cs_Short = ?short, cs_StartTime = ts, cs_Name = n, cs_SequenceCode = code,
      cs_SourceInfo = None, cs_VersionNumber = 0\<rparr>"
  let ?b = "\<lparr>rn_calls = [], rn_request = rn_request ?y, rn_nums = (tn, rn), rn_bundle = b, rn_isRequest = False,
      rn_start = ts, rn_version = 0\<rparr>"
  have s: "cspan_rel env reg ?a ?b"
    using cattributes_hold_Init [of env "rn_request ?y"] xy by (simp add: cspan_rel_def CAttributes_Init_def)
  have rel1: "console_rel env reg (w\<lparr>cl_requestCounter := rl_counter d, cl_spans := cl_spans w @ [?a]\<rparr>, hs @ [CSpanH ?m])
    (d\<lparr>rl_counter := rl_counter d, rl_spans := rl_spans d @ [?b]\<rparr>, ks @ [CSpanH ?m])"
    by (rule console_rel_append_span [OF rel s]) (use p up nums in simp_all)
  have c: "cl_requestCounter w = rl_counter d" using rel by (simp add: console_rel_def)
  then have rel2: "console_rel env reg (w\<lparr>cl_spans := cl_spans w @ [?a]\<rparr>, hs @ [CSpanH ?m])
    (d\<lparr>rl_spans := rl_spans d @ [?b]\<rparr>, ks @ [CSpanH ?m])"
    using rel1 by (simp add: console_rel_def)
  from call nums have e: "rec_emit env (RSpanStart ts (bu_Trace b) (bu_Trace (rn_bundle ?y)) n ?short)
      (d\<lparr>rl_spans := rl_spans d @ [?b]\<rparr>) = Some d'" "s = ?m"
    by (auto simp: rec_Span_def Let_def)
  from console_write_rel [OF e(1) rel2 refl] obtain w' where
    "console_write env (span_start_text env ts (bu_Trace b) (bu_Trace (rn_bundle ?y)) n ?short)
      (w\<lparr>cl_spans := cl_spans w @ [?a]\<rparr>) = Some w'"
    "console_rel env reg (w', hs @ [CSpanH ?m]) (d', ks @ [CSpanH ?m])"
    by auto
  moreover have "cs_Bundle ?x = rn_bundle ?y" using xy by (simp add: cspan_rel_def)
  ultimately show ?thesis
    using e(2) parent console_rel_lengths(1) [OF rel] by (simp add: Console_Span_def Let_def)
qed

lemma console_Done_rel:
  assumes env: "cenv_ok env" and rel: "console_rel env reg (w, hs) (d, ks)" and call: "rec_Done env t s d = Some d'"
    and s: "s < length (rl_spans d)"
  shows "\<exists>w'. Console_Done env t s w = Some w' \<and> console_rel env reg (w', hs) (d', ks)"
proof -
  let ?x = "cl_spans w ! s" and ?y = "rl_spans d ! s"
  note spans = console_rel_lengths(3) [OF rel]
  have len: "s < length (cl_spans w)" using s console_rel_lengths(1) [OF rel] by simp
  have xy: "cspan_rel env reg ?x ?y" by (rule cspans_rel_nth [OF spans s])
  have o: "order_ok (ce_order env n)" for n using env by (simp add: cenv_ok_def)
  have calls: "cl_calls w = rl_calls d" using rel by (simp add: console_rel_def)
  let ?order = "ce_order env (rl_calls d)"
  have h: "cattributes_hold env (rn_calls ?y) (cs_Attributes ?x)" using xy by (simp add: cspan_rel_def)
  obtain tx a where A: "CAttributes_Append ?order False [] (cs_Attributes ?x) = (tx, a)" by fastforce
  from CAttributes_Append_text [OF h o, of "rl_calls d" "[]"] A
  have a: "tx = attributes_ctext env ?order (rn_calls ?y)" "cattributes_hold env (rn_calls ?y) a"
    "ca_request a = ca_request (cs_Attributes ?x)"
    by simp_all
  let ?f = "\<lambda>x. x\<lparr>cs_provisionalEndTime := max (cs_provisionalEndTime ?x) (UnixNano t),
      cs_EndTime := max (cs_EndTime x) (max (cs_provisionalEndTime ?x) (UnixNano t)), cs_VersionNumber := cs_VersionNumber x + 1,
      cs_Attributes := a\<rparr>"
  let ?g = "\<lambda>x. x\<lparr>rn_version := rn_version x + 1\<rparr>"
  have "cspan_rel env reg (?f ?x) (?g ?y)" using xy a(2,3) by (simp add: cspan_rel_def)
  then have rel1: "console_rel env reg (upd_cspan s ?f w, hs) (upd_rspan s ?g d, ks)"
    by (intro console_rel_upd_span [OF rel s]) simp_all
  have e: "rec_emit env (RDone (rn_isRequest ?y) t (rn_version ?y + 1) (bu_Trace (rn_bundle ?y)) (rn_calls ?y) (rl_calls d))
      (upd_rspan s ?g d) = Some d'"
    using call s by (simp add: rec_Done_def Let_def upd_rspan_def)
  from console_write_rel [OF e rel1 refl] obtain w' where w':
    "console_write env (done_text env (rn_isRequest ?y) t (rn_version ?y + 1) (bu_Trace (rn_bundle ?y)) tx) (upd_cspan s ?f w) = Some w'"
    "console_rel env reg (w', hs) (d', ks)"
    by (auto simp: a(1))
  have "Console_Done env t s w =
      console_write env (done_text env (rn_isRequest ?y) t (rn_version ?y + 1) (bu_Trace (rn_bundle ?y)) tx) (upd_cspan s ?f w)"
    using len xy A by (simp add: Console_Done_def Let_def upd_cspan_def calls cspan_rel_def)
  with w' show ?thesis by simp
qed

lemma console_Metadata_rel:
  assumes env: "cenv_ok env" and rel: "console_rel env reg (w, hs) (d, ks)" and call: "rec_Metadata env k v s d = Some d'"
    and s: "s < length (rl_spans d)" and reg: "same_attribute (reg (at_key k)) k"
  shows "\<exists>w'. Console_Metadata env k v s w = Some w' \<and> console_rel env reg (w', hs) (d', ks)"
proof -
  let ?x = "cl_spans w ! s" and ?y = "rl_spans d ! s"
  note spans = console_rel_lengths(3) [OF rel]
  have xy: "cspan_rel env reg ?x ?y" by (rule cspans_rel_nth [OF spans s])
  have rq: "rn_request ?y < length (rl_spans d)" using spans s unfolding cspans_rel_def by blast
  have start: "cs_StartTime (cl_spans w ! ca_request (cs_Attributes ?x)) = rn_start (rl_spans d ! rn_request ?y)"
    using cspans_rel_nth [OF spans rq] xy by (simp add: cspan_rel_def)
  have consistent: "console_consistent (rn_calls ?y @ [(k, v)])" by (rule cspan_rel_consistent [OF xy reg])
  have h: "cattributes_hold env (rn_calls ?y) (cs_Attributes ?x)" using xy by (simp add: cspan_rel_def)
  obtain a new where A: "CAttributes_call env (k, v) (cs_Attributes ?x) = (a, new)" by fastforce
  have cl: "ctexts_closed env" using env by (simp add: cenv_ok_def)
  have a: "cattributes_hold env (rn_calls ?y @ [(k, v)]) a"
    using cattributes_hold_call [OF h cl consistent] A by simp
  have new: "new = (key_values (at_key k) (rn_calls ?y) = [])"
    using CAttributes_call_new [OF _ consistent, of env "cs_Attributes ?x"] h A by (simp add: cattributes_hold_def)
  have "ca_request a = ca_request (cs_Attributes ?x)"
    using A console_put_request [of k "metavalue_type v False" "metavalue_ctext env k v" "cs_Attributes ?x"]
    by (simp add: CAttributes_call_put)
  with xy a reg have updated: "cspan_rel env reg (?x\<lparr>cs_Attributes := a\<rparr>) (?y\<lparr>rn_calls := rn_calls ?y @ [(k, v)]\<rparr>)"
    by (auto simp: cspan_rel_def)
  let ?f = "\<lambda>x. x\<lparr>cs_Attributes := a\<rparr>" and ?g = "\<lambda>x. x\<lparr>rn_calls := rn_calls x @ [(k, v)]\<rparr>"
  have wrote: "\<exists>w1. (if new then console_write env (define_text env (cs_StartTime (cl_spans w ! ca_request (cs_Attributes ?x))) k) w
      else Some w) = Some w1 \<and> console_rel env reg (w1, hs) (d1, ks) \<and> rl_spans d1 = rl_spans d \<and> cl_spans w1 = cl_spans w"
    if d1: "(if new then rec_emit env (RDefine (rn_start (rl_spans d ! rn_request ?y)) k) d else Some d) = Some d1" for d1
  proof (cases new)
    case True
    with d1 have "rec_emit env (RDefine (rn_start (rl_spans d ! rn_request ?y)) k) d = Some d1" by simp
    from console_write_rel [OF this rel refl] True start show ?thesis by auto
  next
    case False
    with d1 rel show ?thesis by simp
  qed
  from call new obtain d1 where
    d1: "(if new then rec_emit env (RDefine (rn_start (rl_spans d ! rn_request ?y)) k) d else Some d) = Some d1"
    "d' = upd_rspan s ?g d1"
    by (auto simp: rec_Metadata_def Let_def split: if_splits)
  from wrote [OF d1(1)] obtain w1 where
    w1: "(if new then console_write env (define_text env (cs_StartTime (cl_spans w ! ca_request (cs_Attributes ?x))) k) w
      else Some w) = Some w1" "console_rel env reg (w1, hs) (d1, ks)" "rl_spans d1 = rl_spans d" "cl_spans w1 = cl_spans w"
    by blast
  have "console_rel env reg (upd_cspan s ?f w1, hs) (upd_rspan s ?g d1, ks)"
    using w1 s updated by (intro console_rel_upd_span) simp_all
  with w1 d1(2) A show ?thesis by (simp add: Console_Metadata_def Let_def split del: if_split)
qed

subsection \<open>Builders\<close>

lemma cbuilders_rel_nth:
  "cbuilders_rel env n h cs rs \<Longrightarrow> b < length rs \<Longrightarrow> cbuilder_rel env n h (cs ! b) (rs ! b)"
  by (auto simp: cbuilders_rel_def list_all2_conv_all_nth)

text \<open>A new builder, whose array (if it has one) is only that of builders of its group.\<close>

lemma cbuilders_rel_append:
  assumes rel: "cbuilders_rel env n h cs rs" and "cbuilder_rel env n h a b"
    and grp: "\<And>i. \<lbrakk>i < length rs; rb_valid (rs ! i); rb_valid b; shares (cu_B (cs ! i)) (cu_B a)\<rbrakk> \<Longrightarrow> rb_group (rs ! i) = rb_group b"
  shows "cbuilders_rel env n h (cs @ [a]) (rs @ [b])"
proof -
  have len: "length cs = length rs" using rel by (auto simp: cbuilders_rel_def dest: list_all2_lengthD)
  have "rb_group ((rs @ [b]) ! i) = rb_group ((rs @ [b]) ! j)"
    if "i < length (rs @ [b])" "j < length (rs @ [b])" "i \<noteq> j" "rb_valid ((rs @ [b]) ! i)" "rb_valid ((rs @ [b]) ! j)"
      "shares (cu_B ((cs @ [a]) ! i)) (cu_B ((cs @ [a]) ! j))" for i j
  proof -
    consider "i < length rs" "j < length rs" | "i < length rs" "j = length rs" | "i = length rs" "j < length rs"
      using \<open>i < length (rs @ [b])\<close> \<open>j < length (rs @ [b])\<close> \<open>i \<noteq> j\<close> by fastforce
    then show ?thesis
    proof cases
      case 1
      have old: "\<forall>i < length rs. \<forall>j < length rs. i \<noteq> j \<longrightarrow> rb_valid (rs ! i) \<longrightarrow> rb_valid (rs ! j) \<longrightarrow>
          shares (cu_B (cs ! i)) (cu_B (cs ! j)) \<longrightarrow> rb_group (rs ! i) = rb_group (rs ! j)"
        using rel by (simp add: cbuilders_rel_def)
      from 1 that len have "rb_valid (rs ! i)" "rb_valid (rs ! j)" "shares (cu_B (cs ! i)) (cu_B (cs ! j))"
        by (simp_all add: nth_append)
      with old 1 that(3) have "rb_group (rs ! i) = rb_group (rs ! j)" by blast
      with 1 show ?thesis by (simp add: nth_append)
    next
      case 2
      with that len grp [of i] show ?thesis by (simp add: nth_append)
    next
      case 3
      with that len shares_sym grp [of j] show ?thesis by (simp add: nth_append)
    qed
  qed
  then show ?thesis using rel assms(2) by (simp add: cbuilders_rel_def list_all2_appendI)
qed

lemma console_rel_add:
  assumes rel: "console_rel env reg (w, hs) (d, ks)"
    and new: "cbuilders_rel env (length (rl_spans d)) (cl_memory w) (cl_builders w @ [a]) (rl_builders d @ [b])"
  shows "console_rel env reg (w\<lparr>cl_builders := cl_builders w @ [a]\<rparr>, hs @ [CBuilderH (length (rl_builders d))])
    (d\<lparr>rl_builders := rl_builders d @ [b]\<rparr>, ks @ [CBuilderH (length (rl_builders d))])"
  using rel new by (simp add: console_rel_def) (auto elim: chandle_ok_mono)

lemma console_start_rel:
  assumes rel: "console_rel env reg (w, hs) (d, ks)" and s: "s < length (rl_spans d)" and call: "rec_start s k d = (b, d')"
  shows "\<exists>w'. add_cbuilder \<lparr>cu_B = nil_slice, cu_Span = s, cu_kind = k\<rparr> w = (b, w') \<and>
    console_rel env reg (w', hs @ [CBuilderH b]) (d', ks @ [CBuilderH b])"
proof -
  let ?r = "\<lparr>rb_data = [], rb_span = s, rb_kind = k, rb_group = length (rl_builders d), rb_valid = True\<rparr>"
  have B: "cbuilders_rel env (length (rl_spans d)) (cl_memory w) (cl_builders w) (rl_builders d)"
    using rel by (simp add: console_rel_def)
  have "cbuilders_rel env (length (rl_spans d)) (cl_memory w) (cl_builders w @ [\<lparr>cu_B = nil_slice, cu_Span = s, cu_kind = k\<rparr>])
      (rl_builders d @ [?r])"
    using s by (intro cbuilders_rel_append [OF B])
      (simp_all add: cbuilder_rel_def slice_ok_def slice_text_def, simp_all add: nil_slice_def)
  from console_rel_add [OF rel this] call console_rel_lengths(2) [OF rel] show ?thesis
    by (auto simp: add_cbuilder_def rec_start_def rec_add_def)
qed

lemma console_copy_rel:
  assumes rel: "console_rel env reg (w, hs) (d, ks)" and p: "p < length (rl_builders d)" and call: "rec_copy p k d = (b, d')"
  shows "\<exists>w'. add_cbuilder ((cl_builders w ! p)\<lparr>cu_kind := k\<rparr>) w = (b, w') \<and>
    console_rel env reg (w', hs @ [CBuilderH b]) (d', ks @ [CBuilderH b])"
proof -
  let ?x = "cl_builders w ! p" and ?y = "rl_builders d ! p"
  let ?r = "?y\<lparr>rb_kind := k, rb_group := (if rb_data ?y = [] then length (rl_builders d) else rb_group ?y)\<rparr>"
  have B: "cbuilders_rel env (length (rl_spans d)) (cl_memory w) (cl_builders w) (rl_builders d)"
    using rel by (simp add: console_rel_def)
  have xy: "cbuilder_rel env (length (rl_spans d)) (cl_memory w) ?x ?y" by (rule cbuilders_rel_nth [OF B p])
  have "cbuilders_rel env (length (rl_spans d)) (cl_memory w) (cl_builders w @ [?x\<lparr>cu_kind := k\<rparr>]) (rl_builders d @ [?r])"
  proof (rule cbuilders_rel_append [OF B])
    show "cbuilder_rel env (length (rl_spans d)) (cl_memory w) (?x\<lparr>cu_kind := k\<rparr>) ?r"
      using xy by (simp add: cbuilder_rel_def)
    fix i assume i: "i < length (rl_builders d)" "rb_valid (rl_builders d ! i)" "rb_valid ?r"
      "shares (cu_B (cl_builders w ! i)) (cu_B (?x\<lparr>cu_kind := k\<rparr>))"
    have "rb_data ?y \<noteq> []"
    proof
      assume "rb_data ?y = []"
      with xy i(3) have "cu_B ?x = nil_slice" by (simp add: cbuilder_rel_def)
      with i(4) show False by simp
    qed
    moreover have "rb_group (rl_builders d ! i) = rb_group ?y"
    proof (cases "i = p")
      case False
      with B i p show ?thesis by (simp add: cbuilders_rel_def)
    qed simp
    ultimately show "rb_group (rl_builders d ! i) = rb_group ?r" by simp
  qed
  from console_rel_add [OF rel this] call console_rel_lengths(2) [OF rel] show ?thesis
    by (auto simp: add_cbuilder_def rec_copy_def rec_add_def Let_def)
qed

text \<open>A prefix of the calls is a shorter text.\<close>

lemma data_text_prefix: "prefix cs ds \<Longrightarrow> length (data_text env cs) \<le> length (data_text env ds)"
  by (auto simp: prefix_def)

lemma slice_text_length: "slice_ok h s \<Longrightarrow> length (slice_text h s) = sl_len s"
  by (auto simp: slice_ok_def slice_text_def split: option.splits)

lemma rb_spoil [simp]:
  "rb_span (spoil x y) = rb_span y" "rb_kind (spoil x y) = rb_kind y" "rb_data (spoil x y) = rb_data y"
  "rb_group (spoil x y) = rb_group y"
  by (simp_all add: spoil_def)

lemma spoil_valid: "rb_valid (spoil x y) \<longleftrightarrow> rb_valid y \<and> (rb_group y = rb_group x \<longrightarrow> prefix (rb_data y) (rb_data x))"
  by (simp add: spoil_def)

lemma cbuilders_rel_build:
  assumes B: "cbuilders_rel env n h cs rs" and env: "cenv_ok env" and b: "b < length rs" and v: "rb_valid (rs ! b)"
    and app: "append_chunks env (console_build env c) (cu_B (cs ! b), h) = (t, h')"
  shows "cbuilders_rel env n h' (cs[b := (cs ! b)\<lparr>cu_B := t\<rparr>])
    ((map (spoil (rs ! b)) rs)[b := (rs ! b)\<lparr>rb_data := rb_data (rs ! b) @ [c]\<rparr>])"
proof -
  let ?x = "cs ! b" and ?y = "rs ! b"
  let ?cs = "cs[b := ?x\<lparr>cu_B := t\<rparr>]" and ?rs = "(map (spoil ?y) rs)[b := ?y\<lparr>rb_data := rb_data ?y @ [c]\<rparr>]"
  have len: "length cs = length rs" using B by (auto simp: cbuilders_rel_def dest: list_all2_lengthD)
  have nth: "cbuilder_rel env n h (cs ! i) (rs ! i)" if "i < length rs" for i by (rule cbuilders_rel_nth [OF B that])
  have grp: "rb_group (rs ! i) = rb_group (rs ! j)"
    if "i < length rs" "j < length rs" "rb_valid (rs ! i)" "rb_valid (rs ! j)" "shares (cu_B (cs ! i)) (cu_B (cs ! j))" for i j
    using B that unfolding cbuilders_rel_def by (cases "i = j") blast+
  have x: "slice_ok h (cu_B ?x)" "slice_text h (cu_B ?x) = data_text env (rb_data ?y)"
    using nth [OF b] v by (simp_all add: cbuilder_rel_def)
  have "pieces_ok env" using env by (simp add: cenv_ok_def)
  from append_chunks_extended [OF this, of "(cu_B ?x, h)" "console_build env c"] x(1) app
  have ext: "extended (build_text env c) (cu_B ?x, h) (t, h')" by (simp add: build_text_def)
  have other: "slice_ok h' (cu_B (cs ! i)) \<and> slice_text h' (cu_B (cs ! i)) = data_text env (rb_data (rs ! i)) \<and>
      (rb_data (rs ! i) = [] \<longrightarrow> cu_B (cs ! i) = nil_slice) \<and> rb_valid (rs ! i)"
    if i: "i < length rs" "rb_valid (spoil ?y (rs ! i))" for i
  proof -
    have ri: "rb_valid (rs ! i)" "rb_group (rs ! i) = rb_group ?y \<longrightarrow> prefix (rb_data (rs ! i)) (rb_data ?y)"
      using i(2) by (simp_all add: spoil_valid)
    from nth [OF i(1)] ri(1) have c: "slice_ok h (cu_B (cs ! i))" "slice_text h (cu_B (cs ! i)) = data_text env (rb_data (rs ! i))"
      "rb_data (rs ! i) = [] \<longrightarrow> cu_B (cs ! i) = nil_slice"
      by (simp_all add: cbuilder_rel_def)
    have "spared (cu_B ?x) (cu_B (cs ! i))"
      unfolding spared_def
    proof
      assume same: "sl_base (cu_B (cs ! i)) = sl_base (cu_B ?x)"
      show "sl_len (cu_B (cs ! i)) \<le> sl_len (cu_B ?x)"
      proof (cases "sl_base (cu_B ?x) = None")
        case True
        with same c(1) show ?thesis by (simp add: slice_ok_def)
      next
        case False
        with same have "shares (cu_B (cs ! i)) (cu_B ?x)" by (simp add: shares_def)
        from ri(2) grp [OF i(1) b ri(1) v this] have "prefix (rb_data (rs ! i)) (rb_data ?y)" by simp
        from data_text_prefix [OF this] show ?thesis
          using slice_text_length [OF x(1)] slice_text_length [OF c(1)] x(2) c(2) by metis
      qed
    qed
    with c(1) have "slice_ok h' (cu_B (cs ! i)) \<and> slice_text h' (cu_B (cs ! i)) = slice_text h (cu_B (cs ! i))"
      using ext by (simp add: extended_def)
    with c ri(1) show ?thesis by simp
  qed
  have fresh: "rb_group (rs ! i) = rb_group ?y"
    if i: "i < length rs" "i \<noteq> b" "rb_valid (spoil ?y (rs ! i))" "shares (cu_B (cs ! i)) t" for i
  proof -
    have ri: "rb_valid (rs ! i)" using i(3) by (simp add: spoil_valid)
    have "slice_ok h (cu_B (cs ! i))" using nth [OF i(1)] ri by (simp add: cbuilder_rel_def)
    then have "sl_base (cu_B (cs ! i)) \<noteq> Some a" if "length h \<le> a" for a using that by (auto simp: slice_ok_def)
    with i(4) have "sl_base t = sl_base (cu_B ?x)" using ext by (auto simp: extended_def shares_def)
    from shares_base [OF i(4) this] have "shares (cu_B (cs ! i)) (cu_B ?x)" .
    from grp [OF i(1) b ri v this] show ?thesis .
  qed
  have all: "cbuilder_rel env n h' (?cs ! i) (?rs ! i)" if "i < length rs" for i
  proof (cases "i = b")
    case True
    have "slice_ok h' t \<and> slice_text h' t = data_text env (rb_data ?y) @ build_text env c"
      using ext x(2) by (simp add: extended_def)
    with True b len nth [OF b] show ?thesis by (simp add: cbuilder_rel_def)
  next
    case False
    with that len nth [OF that] other [OF that] show ?thesis by (auto simp: cbuilder_rel_def)
  qed
  have groups: "rb_group (?rs ! i) = rb_group (?rs ! j)"
    if ij: "i < length rs" "j < length rs" "i \<noteq> j" "rb_valid (?rs ! i)" "rb_valid (?rs ! j)" "shares (cu_B (?cs ! i)) (cu_B (?cs ! j))" for i j
  proof -
    consider "i = b" "j \<noteq> b" | "i \<noteq> b" "j = b" | "i \<noteq> b" "j \<noteq> b" using ij(3) by blast
    then show ?thesis
    proof cases
      case 1
      with ij len shares_sym fresh [of j] show ?thesis by simp
    next
      case 2
      with ij len fresh [of i] show ?thesis by simp
    next
      case 3
      with ij len grp [of i j] show ?thesis by (simp add: spoil_valid)
    qed
  qed
  show ?thesis
    unfolding cbuilders_rel_def list_all2_conv_all_nth using all groups len by simp
qed

lemma console_Build_rel:
  assumes env: "cenv_ok env" and rel: "console_rel env reg (w, hs) (d, ks)" and b: "b < length (rl_builders d)"
    and call: "rec_Build c b d = Some d'"
  shows "takes_data (cu_kind (cl_builders w ! b)) \<and> console_rel env reg (Console_Build env c b w, hs) (d', ks)"
proof -
  let ?x = "cl_builders w ! b" and ?y = "rl_builders d ! b"
  have B: "cbuilders_rel env (length (rl_spans d)) (cl_memory w) (cl_builders w) (rl_builders d)"
    using rel by (simp add: console_rel_def)
  from call have v: "rb_valid ?y" "takes_data (rb_kind ?y)"
    and d': "d' = d\<lparr>rl_builders := (map (spoil ?y) (rl_builders d))[b := ?y\<lparr>rb_data := rb_data ?y @ [c]\<rparr>]\<rparr>"
    by (auto simp: rec_Build_def Let_def split: if_splits)
  obtain t h where a: "append_chunks env (console_build env c) (cu_B ?x, cl_memory w) = (t, h)" by fastforce
  from cbuilders_rel_build [OF B env b v(1) a] rel a
  have "console_rel env reg (Console_Build env c b w, hs) (d', ks)"
    by (simp add: console_rel_def Console_Build_def d')
  moreover have "cu_kind ?x = rb_kind ?y" using cbuilders_rel_nth [OF B b] by (simp add: cbuilder_rel_def)
  ultimately show ?thesis using v(2) by simp
qed

lemma console_End_rel:
  assumes rel: "console_rel env reg (w, hs) (d, ks)" and l: "l < length (rl_builders d)" and call: "rec_End env e l d = Some d'"
  shows "\<exists>w'. Console_send env e l w = Some w' \<and> console_rel env reg (w', hs) (d', ks)"
proof -
  let ?x = "cl_builders w ! l" and ?y = "rl_builders d ! l"
  have B: "cbuilders_rel env (length (rl_spans d)) (cl_memory w) (cl_builders w) (rl_builders d)"
    using rel by (simp add: console_rel_def)
  note xy = cbuilders_rel_nth [OF B l]
  from call obtain frames pm t level where k: "rb_kind ?y = KLine frames pm t level" and v: "rb_valid ?y"
    and emit: "rec_emit env (RLine level t (bu_Trace (rn_bundle (rl_spans d ! rb_span ?y))) pm e (rb_data ?y) frames) d = Some d'"
    by (auto simp: rec_End_def Let_def split: ckind.splits if_splits)
  have span: "cu_Span ?x = rb_span ?y" "rb_span ?y < length (rl_spans d)" using xy by (simp_all add: cbuilder_rel_def)
  have same_bundle: "cs_Bundle (cl_spans w ! rb_span ?y) = rn_bundle (rl_spans d ! rb_span ?y)"
    using cspans_rel_nth [OF console_rel_lengths(3) [OF rel] span(2)] by (simp add: cspan_rel_def)
  from console_write_rel [OF emit rel refl] obtain w' where
    "console_write env (render env (RLine level t (bu_Trace (rn_bundle (rl_spans d ! rb_span ?y))) pm e (rb_data ?y) frames)) w = Some w'"
    "console_rel env reg (w', hs) (d', ks)" by blast
  with xy v k span(1) same_bundle show ?thesis
    by (simp add: Console_send_def cbuilder_rel_def Let_def case_prod_beta)
qed

subsection \<open>The refinement\<close>

definition console_allowed :: "'m cenv \<Rightarrow> (string \<Rightarrow> Attribute) \<Rightarrow> 'm cmd \<Rightarrow> bool" where
  "console_allowed env reg x \<longleftrightarrow> cenv_ok env \<and> console_cmd_ok reg x"

lemma console_rel_handle:
  "console_rel env reg (w, hs) (d, ks) \<Longrightarrow> hs = ks"
  "console_rel env reg (w, hs) (d, ks) \<Longrightarrow> n < length ks \<Longrightarrow> chandle_ok (length (rl_spans d)) (length (rl_builders d)) (ks ! n)"
  by (auto simp: console_rel_def list_all_length)

lemma console_new_rel:
  assumes rel: "console_rel env reg (w, hs) (d, ks)" and call: "rec_new env c h d = Some (k, d')"
    and h: "\<And>x. h = Some x \<Longrightarrow> chandle_ok (length (rl_spans d)) (length (rl_builders d)) x"
  shows "\<exists>w'. console_new env c h w = Some (k, w') \<and> console_rel env reg (w', hs @ [k]) (d', ks @ [k])"
proof -
  have B: "cbuilders_rel env (length (rl_spans d)) (cl_memory w) (cl_builders w) (rl_builders d)"
    using rel by (simp add: console_rel_def)
  have kind: "cu_kind (cl_builders w ! p) = rb_kind (rl_builders d ! p)" if "p < length (rl_builders d)" for p
    using cbuilders_rel_nth [OF B that] by (simp add: cbuilder_rel_def)
  show ?thesis
  proof (cases c)
    case (NRequest ts b n si)
    with call obtain s where "h = None" "rec_Request env ts b n si d = Some (s, d')" "k = CSpanH s" by (cases h) auto
    with console_Request_rel [OF rel this(2)] NRequest show ?thesis by auto
  next
    case (NSpan ts b n code)
    with call obtain p s where s: "h = Some (CSpanH p)" "rec_Span env ts b n code p d = Some (s, d')" "k = CSpanH s"
      by (cases h; cases "the h") auto
    with console_Span_rel [OF rel s(2)] h [OF s(1)] NSpan show ?thesis by auto
  next
    case NNoPrefill
    with call obtain p b where s: "h = Some (CSpanH p)" "rec_start p (KPrefilled []) d = (b, d')" "k = CBuilderH b"
      by (cases h; cases "the h") (auto split: prod.splits)
    with console_start_rel [OF rel _ s(2)] h [OF s(1)] NNoPrefill show ?thesis by (auto simp: Console_NoPrefill_def)
  next
    case NStartPrefill
    with call obtain p b where s: "h = Some (CSpanH p)" "rec_start p KPrefilling d = (b, d')" "k = CBuilderH b"
      by (cases h; cases "the h") (auto split: prod.splits)
    with console_start_rel [OF rel _ s(2)] h [OF s(1)] NStartPrefill show ?thesis by (auto simp: Console_StartPrefill_def)
  next
    case (NPrefillComplete m)
    with call obtain p b where s: "h = Some (CBuilderH p)" "rec_copy p (KPrefilled m) d = (b, d')" "k = CBuilderH b"
      "is_prefilling (rb_kind (rl_builders d ! p))"
      by (cases h; cases "the h") (auto split: prod.splits if_splits)
    with console_copy_rel [OF rel _ s(2)] h [OF s(1)] NPrefillComplete kind [of p] show ?thesis
      by (auto simp: Console_PrefillComplete_def)
  next
    case (NLine level t frames)
    with call obtain p where p: "h = Some (CBuilderH p)" by (cases h; cases "the h") auto
    with call NLine obtain m b where s: "rb_kind (rl_builders d ! p) = KPrefilled m"
      "rec_copy p (KLine frames m t level) d = (b, d')" "k = CBuilderH b"
      by (auto split: prod.splits ckind.splits)
    have pl: "p < length (rl_builders d)" using h [OF p] by simp
    have span: "cu_Span (cl_builders w ! p) = rb_span (rl_builders d ! p)" "rb_span (rl_builders d ! p) < length (rl_spans d)"
      using cbuilders_rel_nth [OF B pl] by (simp_all add: cbuilder_rel_def)
    let ?f = "\<lambda>x. x\<lparr>cs_provisionalEndTime := max (cs_provisionalEndTime x) (UnixNano t)\<rparr>" and ?s = "rb_span (rl_builders d ! p)"
    have "cspan_rel env reg (?f (cl_spans w ! ?s)) (id (rl_spans d ! ?s))"
      using cspans_rel_nth [OF console_rel_lengths(3) [OF rel] span(2)] by (simp add: cspan_rel_def)
    then have "console_rel env reg (upd_cspan ?s ?f w, hs) (upd_rspan ?s id d, ks)"
      by (intro console_rel_upd_span [OF rel span(2)]) simp_all
    then have rel1: "console_rel env reg (upd_cspan ?s ?f w, hs) (d, ks)" by (simp add: upd_rspan_def)
    from console_copy_rel [OF rel1 pl s(2)] kind [OF pl] s(1,3) p NLine span(1) show ?thesis
      by (auto simp: Console_Line_def upd_cspan_def)
  qed
qed

lemma console_do_rel:
  assumes rel: "console_rel env reg (w, hs) (d, ks)" and call: "rec_do env a k d = Some d'" and env: "cenv_ok env"
    and ok: "console_cmd_ok reg (Do a n)" and k: "chandle_ok (length (rl_spans d)) (length (rl_builders d)) k"
  shows "\<exists>w'. console_do env a k w = Some w' \<and> console_rel env reg (w', hs) (d', ks)"
proof (cases k)
  case (CSpanH s)
  then have s: "s < length (rl_spans d)" using k by simp
  show ?thesis
    using call CSpanH rel console_Done_rel [OF env rel _ s] console_Metadata_rel [OF env rel _ s] ok
    by (cases a) auto
next
  case (CBuilderH b)
  then have b: "b < length (rl_builders d)" using k by simp
  show ?thesis
    using call CBuilderH console_Build_rel [OF env rel b] console_End_rel [OF rel b] by (cases a) auto
qed

interpretation console: base_refinement "rec_base ident env" "console_base ident env" "console_rel env reg"
    "console_allowed env reg"
proof unfold_locales
  fix x s s' r
  assume x: "exec_cmd (rec_base ident env) x s = Some s'" and rel: "console_rel env reg r s" and ok: "console_allowed env reg x"
  obtain w hs where r: "r = (w, hs)" by (cases r)
  obtain d ks where s: "s = (d, ks)" by (cases s)
  have rel': "console_rel env reg (w, hs) (d, ks)" using rel r s by simp
  have env: "cenv_ok env" "console_cmd_ok reg x" using ok by (simp_all add: console_allowed_def)
  note same = console_rel_handle(1) [OF rel'] and hok = console_rel_handle(2) [OF rel']
  show "\<exists>r'. exec_cmd (console_base ident env) x r = Some r' \<and> console_rel env reg r' s'"
  proof (cases x)
    case (New c n)
    show ?thesis
    proof (cases n)
      case None
      with x New s obtain k d' where k: "rec_new env c None d = Some (k, d')" "s' = (d', ks @ [k])"
        by (auto simp: rec_base_def)
      from console_new_rel [OF rel' k(1)] k(2) New None r same show ?thesis by (auto simp: console_base_def)
    next
      case (Some m)
      with x New s obtain k d' where m: "m < length ks" and k: "rec_new env c (Some (ks ! m)) d = Some (k, d')" "s' = (d', ks @ [k])"
        by (auto simp: rec_base_def split: if_splits)
      from console_new_rel [OF rel' k(1)] hok [OF m] k(2) m New Some r same show ?thesis by (auto simp: console_base_def)
    qed
  next
    case (Do a m)
    with x s obtain d' where m: "m < length ks" and d': "rec_do env a (ks ! m) d = Some d'" "s' = (d', ks)"
      by (auto simp: rec_base_def split: if_splits)
    from console_do_rel [OF rel' d'(1) env(1) _ hok [OF m]] env(2) m Do d'(2) r same show ?thesis
      by (auto simp: console_base_def)
  qed
qed

text \<open>A new console logger, with an error reporter or without one.\<close>

definition console_start :: "string \<Rightarrow> bool \<Rightarrow> clogger" where
  "console_start uuid reporter = (if reporter then Console_SetErrorReporter (Console_New uuid []) else Console_New uuid [])"

lemma console_rel_start: "console_rel env reg (console_start uuid reporter, []) (rec_New NewRequestCounter reporter, [])"
  by (simp add: console_rel_def console_start_def Console_New_def Console_SetErrorReporter_def rec_New_def cspans_rel_def cbuilders_rel_def)

text \<open>
  C5. The console logger implements its specification: whenever the calls of a client go through on the
  logger of records (no call uses a builder whose data was spoilt through a builder of its group, no failed write meets a
  missing error reporter), they go through on the console logger, and what it has written is the
  texts of the records, in order, however much room new arrays have.
\<close>

theorem console_refines_records:
  assumes "cenv_ok env" "list_all (console_cmd_ok reg) cmds"
    "exec (rec_base ident env) cmds (rec_New NewRequestCounter reporter, []) = Some (d, ks)"
  shows "\<exists>w. exec (console_base ident env) cmds (console_start uuid reporter, []) = Some (w, ks) \<and>
    cl_written w = map (render env) (rl_records d)"
proof -
  have "list_all (console_allowed env reg) cmds" using assms(1,2) by (simp add: console_allowed_def list_all_iff)
  from console.exec_refines [OF assms(3) console_rel_start [where uuid = uuid] this] obtain r where
    "exec (console_base ident env) cmds (console_start uuid reporter, []) = Some r" "console_rel env reg r (d, ks)" by auto
  then show ?thesis by (cases r) (auto simp: console_rel_def)
qed

text \<open>A demonstration environment: the room in every new array, and the write that fails.\<close>

definition demo_cenv :: "nat \<Rightarrow> nat \<Rightarrow> int cenv" where
  "demo_cenv spare lost = \<lparr>ce_texts = int_jtexts, ce_quote = (\<lambda>s. CHR 0x22 # s @ [CHR 0x22]), ce_order = (\<lambda>n ks. rev ks),
     ce_fails = (\<lambda>n. n = lost), ce_spare = (\<lambda>n. spare), ce_pieces = (\<lambda>n t. [t])\<rparr>"

lemma demo_cenv_ok: "cenv_ok (demo_cenv spare lost)"
  using FormatInt_last
  by (simp add: cenv_ok_def pieces_ok_def ctexts_closed_def order_ok_def demo_cenv_def int_jtexts_def Itoa_def)

definition demo_source :: SourceInfo where
  "demo_source = \<lparr>si_Source = ''s'', si_SourceVersion = ''1'', si_Namespace = ''n'', si_NamespaceVersion = ''2''\<rparr>"

definition prefill_script :: "int cmd list" where
  "prefill_script = [New (NRequest 0 NewBundle ''r'' demo_source) None, New NStartPrefill (Some 0),
     Do (ABuild (BInt64 ''a'' 1 8)) 1, New (NPrefillComplete ''p'') (Some 1)]"

text \<open>Two lines of the prefill, one after the other; the write of the first line is lost.\<close>

definition sequential_script :: "int cmd list" where
  "sequential_script = prefill_script @
     [New (NLine InfoLevel 1 []) (Some 2), Do (ABuild (BInt64 ''b'' 2 8)) 3, Do (AEnd (LMsg ''x'')) 3,
      New (NLine InfoLevel 2 []) (Some 2), Do (ABuild (BInt64 ''c'' 3 8)) 4, Do (AEnd (LMsg ''y'')) 4,
      Do (AMetadata zeroAttribute (MInt64 5)) 0, Do (ADone 3 False) 0]"

theorem console_refines_records_witness:
  "\<exists>w ks. exec (console_base ''c'' (demo_cenv 64 1)) sequential_script (console_start ''u'' True, []) = Some (w, ks) \<and>
    drop 1 (cl_written w) =
      [''xop info 2 0000000000000000 py a=1 c=3'' @ [CHR 0x0A], ''xop Def 0 '' @ [CHR 0x0A],
       ''xop Request 3 v1 0000000000000000 5'' @ [CHR 0x0A]]"
proof -
  let ?e = "exec (rec_base ''c'' (demo_cenv 64 1)) sequential_script (rec_New NewRequestCounter True, [])"
  have texts: "map_option (\<lambda>s. map (render (demo_cenv 64 1)) (drop 1 (rl_records (fst s)))) ?e = Some
      [''xop info 2 0000000000000000 py a=1 c=3'' @ [CHR 0x0A], ''xop Def 0 '' @ [CHR 0x0A],
       ''xop Request 3 v1 0000000000000000 5'' @ [CHR 0x0A]]"
    by code_simp
  have "list_all (console_cmd_ok (\<lambda>k. zeroAttribute)) sequential_script"
    by (simp add: sequential_script_def prefill_script_def same_attribute_def)
  note run = console_refines_records [OF demo_cenv_ok this, where uuid = "''u''"]
  from texts obtain d ks where e: "?e = Some (d, ks)" by (cases ?e) auto
  from run [OF e] texts e show ?thesis by (auto simp: drop_map)
qed

text \<open>Two lines of the prefill that are open at the same time.\<close>

definition overlap_script :: "int cmd list" where
  "overlap_script = prefill_script @
     [New (NLine InfoLevel 1 []) (Some 2), New (NLine InfoLevel 2 []) (Some 2),
      Do (ABuild (BInt64 ''b'' 2 8)) 3, Do (ABuild (BInt64 ''c'' 3 8)) 4, Do (AEnd (LMsg ''x'')) 3]"


end
