(* ===== verification/ConsoleReplayCorrect.thy ===== *)
theory ConsoleReplayCorrect
  imports ConsoleRoundtrip ConsoleRefine
begin

section \<open>The replay of a whole console log\<close>

text \<open>
  The text of records is replayed as the calls of the records, one after the other: the replay finds the
  lines, their kinds and their contents again. With the refinement of \<open>ConsoleRefine\<close> that holds of what the
  console logger wrote. A demonstration replays a log into another logger of records.
\<close>

subsection \<open>The calls of a record\<close>

fun record_calls ::
    "'m cenv \<Rightarrow> crenv \<Rightarrow> ('h, 'w, 'm) base \<Rightarrow> 'm crecord \<Rightarrow> ('h, 'w) creplay \<Rightarrow> ('h, 'w) creplay ran" where
  "record_calls env renv dest (RRequestStart ts b n si) st = start_request dest ts (replayed_bundle b) n si st"
| "record_calls env renv dest (RSpanStart ts t p n short) st = replay_span_record dest ts t p n short st"
| "record_calls env renv dest (RDone r ts v t cs c) st =
     replay_done_record env renv dest r ts v t (record_values env (ce_order env c) cs) st"
| "record_calls env renv dest (RDefine ts k) st = replay_define_record k st"
| "record_calls env renv dest (RLine level ts t pm e data frames) st =
     replay_line_record env renv dest level ts t pm e data frames st"

definition count_line :: "('h, 'w) creplay \<Rightarrow> ('h, 'w) creplay" where
  "count_line st = st\<lparr>cy_lineCount := cy_lineCount st + 1\<rparr>"

definition note_error :: "('h, 'w) creplay ran \<Rightarrow> ('h, 'w) creplay ran" where
  "note_error r = (case r of Erring st \<Rightarrow> Fine (st\<lparr>cy_errors := cy_errors st @ [cy_lineCount st]\<rparr>) | r \<Rightarrow> r)"

text \<open>The text of a definition ends in a newline of its own, so that an empty line follows it.\<close>

definition after_record :: "'m crecord \<Rightarrow> ('h, 'w) creplay ran \<Rightarrow> ('h, 'w) creplay ran" where
  "after_record x r = (case (x, r) of (RDefine ts k, Fine st) \<Rightarrow> Fine (count_line st) | _ \<Rightarrow> r)"

fun replay_records ::
    "'m cenv \<Rightarrow> crenv \<Rightarrow> ('h, 'w, 'm) base \<Rightarrow> 'm crecord list \<Rightarrow> ('h, 'w) creplay \<Rightarrow> ('h, 'w) creplay ran" where
  "replay_records env renv dest [] st = Fine st"
| "replay_records env renv dest (x # xs) st =
     (case after_record x (note_error (record_calls env renv dest x (count_line st))) of
        Fine st \<Rightarrow> replay_records env renv dest xs st
      | r \<Rightarrow> r)"

subsection \<open>The lines of a record\<close>

fun record_line :: "'m cenv \<Rightarrow> 'm crecord \<Rightarrow> string" where
  "record_line env (RRequestStart ts b n si) = ''xop Request '' @ request_body env ts b n si"
| "record_line env (RSpanStart ts t p n short) =
     ''xop Span '' @ time_text env ts @ CHR '' '' # ''Start'' @ CHR '' '' # spanHex t @ CHR '' '' # spanHex p @
       CHR '' '' # string_text env n @ CHR '' '' # short"
| "record_line env (RDone r ts v t cs c) =
     (if r then ''xop Request '' else ''xop Span '') @ done_text_body env ts v t (attributes_ctext env (ce_order env c) cs)"
| "record_line env (RDefine ts k) = ''xop Def '' @ time_text env ts @ CHR '' '' # objectText (definitionFields k)"
| "record_line env (RLine level ts t pm e data frames) =
     ''xop '' @ Level_String level @ CHR '' '' # time_text env ts @ CHR '' '' # spanHex t @ CHR '' '' # end_text env pm e @
       data_text env data @ stack_text env frames"

definition record_lines :: "'m cenv \<Rightarrow> 'm crecord \<Rightarrow> string list" where
  "record_lines env x = record_line env x # (case x of RDefine ts k \<Rightarrow> [[]] | _ \<Rightarrow> [])"

definition with_newlines :: "string list \<Rightarrow> string" where
  "with_newlines ls = concat (map (\<lambda>l. l @ [CHR 0x0A]) ls)"

fun contents_read :: "'m cenv \<Rightarrow> crenv \<Rightarrow> 'm crecord \<Rightarrow> bool" where
  "contents_read env renv (RRequestStart ts b n si) = request_reads env renv ts b n si"
| "contents_read env renv (RSpanStart ts t p n short) = span_start_reads env renv ts t p n short"
| "contents_read env renv (RDone r ts v t cs c) = done_reads env renv ts v t cs"
| "contents_read env renv (RDefine ts k) = define_reads env ts k"
| "contents_read env renv (RLine level ts t pm e data frames) = line_reads env renv level ts t pm e data frames"

text \<open>A line that the scanner finds.\<close>

definition fits :: "string \<Rightarrow> bool" where
  "fits l \<longleftrightarrow> length l < MaxScanTokenSize \<and> without [CHR 0x0A] l \<and> (l \<noteq> [] \<longrightarrow> last l \<noteq> CHR 0x0D)"

definition record_reads :: "'m cenv \<Rightarrow> crenv \<Rightarrow> 'm crecord \<Rightarrow> bool" where
  "record_reads env renv x \<longleftrightarrow> contents_read env renv x \<and> fits (record_line env x)"

lemma render_line: "contents_read env renv x \<Longrightarrow> render env x = with_newlines (record_lines env x)"
proof (cases x)
  case (RLine level ts t pm e data frames)
  obtain pre body post where "line_parts env pm e = (pre, body, post)" by (metis prod_cases3)
  then show ?thesis
    by (simp add: RLine with_newlines_def record_lines_def send_text_def end_text_def Let_def newline_def cb_TimeFormatter_def
        time_text_def string_text_def stack_text_def)
next
  case (RDefine ts k)
  assume "contents_read env renv x"
  then have "at_jsonDef k = objectText (definitionFields k) @ [CHR 0x0A]"
    using jsonAttributeDefinition_object [of k] by (simp add: RDefine define_reads_def)
  then show ?thesis
    by (simp add: RDefine with_newlines_def record_lines_def define_text_def newline_def cb_TimeFormatter_def time_text_def)
next
  case (RDone r ts v t cs c)
  then show ?thesis
    by (simp add: with_newlines_def record_lines_def done_text_def done_text_body_def newline_def cb_TimeFormatter_def time_text_def)
next
  case (RSpanStart ts t p n short)
  then show ?thesis
    by (simp add: with_newlines_def record_lines_def span_start_text_def newline_def cb_TimeFormatter_def time_text_def string_text_def)
qed (simp add: request_start_body with_newlines_def record_lines_def)

lemma scan_lines_step:
  "fits l \<Longrightarrow> scan_lines (l @ CHR 0x0A # r) = l # scan_lines r"
proof -
  assume l: "fits l"
  then have n: "\<And>c. c \<in> set l \<Longrightarrow> c \<noteq> CHR 0x0A" by (auto simp: fits_def without_def list_all_iff)
  have "takeWhile (\<lambda>c. c \<noteq> CHR 0x0A) (l @ CHR 0x0A # r) = l"
    using n by (subst takeWhile_append2) auto
  moreover have "dropWhile (\<lambda>c. c \<noteq> CHR 0x0A) (l @ CHR 0x0A # r) = CHR 0x0A # r"
    using n by (subst dropWhile_append2) auto
  moreover have "dropCR l = l" using l by (auto simp: dropCR_def fits_def)
  ultimately show ?thesis using l by (subst scan_lines.simps) (simp add: fits_def Let_def)
qed

lemma scan_with_newlines: "list_all fits ls \<Longrightarrow> scan_lines (with_newlines ls @ r) = ls @ scan_lines r"
  by (induction ls) (simp_all add: with_newlines_def scan_lines_step)

text \<open>The kind of a line.\<close>

lemma replay_one_kind:
  assumes "without '' '' kind"
  shows "replay_one renv dest (''xop '' @ kind @ CHR '' '' # t) st = note_error (replay_kind renv dest kind t (count_line st))"
proof -
  have "oneWord (kind @ CHR '' '' # t) '' '' = (kind, CHR '' '', t)" using assms by (intro oneWord_until) simp_all
  then show ?thesis by (simp add: replay_one_def note_error_def count_line_def Let_def split: ran.split)
qed

lemma level_kind:
  "level \<in> set LevelValues \<Longrightarrow> without '' '' (Level_String level) \<and> map_of replay_levels (Level_String level) = Some level \<and>
     Level_String level \<notin> {''Request'', ''Span'', ''Def''}"
proof -
  have all: "list_all (\<lambda>l. without '' '' (Level_String l) \<and> map_of replay_levels (Level_String l) = Some l \<and>
      Level_String l \<notin> {''Request'', ''Span'', ''Def''}) LevelValues" by code_simp
  show "level \<in> set LevelValues \<Longrightarrow> without '' '' (Level_String level) \<and>
      map_of replay_levels (Level_String level) = Some level \<and> Level_String level \<notin> {''Request'', ''Span'', ''Def''}"
    by (rule bspec [OF all [unfolded list_all_iff]])
qed

subsection \<open>The definitions that the replay knows\<close>

text \<open>
  A console log carries no definition for a single request, so all definitions are common ones; they
  have the types of the attributes \<open>reg\<close> that the logger was used with.
\<close>

definition typed_by :: "(string \<Rightarrow> Attribute) \<Rightarrow> GlobalAttributeDefinitions \<times> (string \<times> DecodeAttributeDefinition) list option list \<Rightarrow> bool" where
  "typed_by reg = (\<lambda>(g, rs).
     (\<forall>k d. map_of (gd_CommonDefinitions g) k = Some d \<longrightarrow> dd_AttributeType d = at_subType (reg k)) \<and>
     (\<forall>i r. map_of (gd_Requests g) i = Some r \<longrightarrow> r = []) \<and> set rs \<subseteq> {None, Some []})"

definition known :: "('h, 'w) creplay \<Rightarrow> GlobalAttributeDefinitions \<times> (string \<times> DecodeAttributeDefinition) list option list" where
  "known st = (cy_definitions st, map rq_definitions (cy_store st))"

fun record_typed :: "(string \<Rightarrow> Attribute) \<Rightarrow> 'm crecord \<Rightarrow> bool" where
  "record_typed reg (RDefine ts k) = (at_subType k = at_subType (reg (at_key k)))"
| "record_typed reg (RDone r ts v t cs c) = list_all (\<lambda>c. at_subType (fst c) = at_subType (reg (at_key (fst c)))) cs"
| "record_typed reg _ = True"

lemma typed_definition:
  assumes "typed_by reg (known st)" "n < length (cy_store st)" "defined_keys st n k = Some d"
  shows "dd_AttributeType d = at_subType (reg k)"
proof -
  let ?g = "cy_definitions st" and ?q = "cy_store st ! n"
  from assms(1) have t: "\<And>k d. map_of (gd_CommonDefinitions ?g) k = Some d \<Longrightarrow> dd_AttributeType d = at_subType (reg k)"
    "\<And>i r. map_of (gd_Requests ?g) i = Some r \<Longrightarrow> r = []" "set (map rq_definitions (cy_store st)) \<subseteq> {None, Some []}"
    by (simp_all add: typed_by_def known_def)
  have "rq_definitions ?q \<in> set (map rq_definitions (cy_store st))" using assms(2) by simp
  with t(3) have "rq_definitions ?q \<in> {None, Some []}" by (rule subsetD)
  then have "map_of (gd_CommonDefinitions ?g) k = Some d"
  proof (elim insertE emptyE)
    assume none: "rq_definitions ?q = None"
    with assms(3) obtain r where r: "map_of (gd_Requests ?g) (requestID ?q) = Some r"
      by (auto simp: defined_keys_def definition_of_def Lookup_def split: option.splits)
    with t(2) [OF r] none assms(3) show ?thesis by (simp add: defined_keys_def definition_of_def Lookup_def)
  next
    assume "rq_definitions ?q = Some []"
    with assms(3) show ?thesis by (simp add: defined_keys_def definition_of_def)
  qed
  then show ?thesis by (rule t(1))
qed

text \<open>What the store and the maps of the replay look like.\<close>

definition spans_stored :: "('h, 'w) creplay \<Rightarrow> bool" where
  "spans_stored st \<longleftrightarrow>
     (\<forall>i s. map_of (cy_spans st) i = Some s \<or> map_of (cy_requests st) i = Some s \<longrightarrow> ry_request s < length (cy_store st))"

text \<open>A result that keeps what a predicate says of the state, whether there was an error or not.\<close>

fun keeps :: "('s \<Rightarrow> bool) \<Rightarrow> 's ran \<Rightarrow> bool" where
  "keeps P (Fine st) = P st"
| "keeps P (Erring st) = P st"
| "keeps P _ = True"

definition same_maps :: "('h, 'w) creplay \<Rightarrow> ('h, 'w) creplay \<Rightarrow> bool" where
  "same_maps st st' \<longleftrightarrow> known st' = known st \<and> cy_spans st' = cy_spans st \<and> cy_requests st' = cy_requests st"

lemma same_maps_refl [simp]: "same_maps st st"
  by (simp add: same_maps_def)

lemma same_maps_trans: "same_maps a b \<Longrightarrow> same_maps b c \<Longrightarrow> same_maps a c"
  by (simp add: same_maps_def)

lemma keeps_trans: "same_maps a b \<Longrightarrow> keeps (same_maps b) r \<Longrightarrow> keeps (same_maps a) r"
  by (cases r) (auto intro: same_maps_trans)

lemma same_maps_set_registered [simp]: "same_maps st (set_registered n reg st)"
  by (cases "n < length (cy_store st)")
    (simp_all add: same_maps_def known_def set_registered_def map_update list_update_beyond list_update_same_conv)

lemma same_maps_to_dest: "keeps (same_maps st) (to_dest f st)"
  by (simp add: to_dest_def same_maps_def known_def split: option.split)

lemma same_maps_replay_value: "keeps (same_maps st) (replay_value env renv dest n h d v st)"
  by (auto simp: replay_value_def split: option.split prod.split intro: keeps_trans [OF same_maps_set_registered same_maps_to_dest])

lemma same_maps_replay_values: "keeps (same_maps st) (replay_values env renv dest n h d vs st)"
proof (induction vs arbitrary: st)
  case (Cons v vs)
  show ?case
    using same_maps_replay_value [of st env renv dest n h d v] Cons.IH by (auto split: ran.split intro: keeps_trans)
qed simp

lemma same_maps_replay_keys: "keeps (same_maps st) (replay_keys env renv dest n h kvs st)"
proof (induction kvs arbitrary: st)
  case (Cons kv kvs)
  obtain k vs where kv: "kv = (k, vs)" by (cases kv)
  have "keeps (same_maps st) (case replay_values env renv dest n h d vs st of Fine st \<Rightarrow> replay_keys env renv dest n h kvs st | r \<Rightarrow> r)" for d
    using same_maps_replay_values [of st env renv dest n h d vs] Cons.IH by (auto split: ran.split intro: keeps_trans)
  then show ?case by (simp add: kv split: option.split)
qed simp

subsection \<open>An invariant of the replay\<close>

definition replay_inv :: "(string \<Rightarrow> Attribute) \<Rightarrow> ('h, 'w) creplay \<Rightarrow> bool" where
  "replay_inv reg st \<longleftrightarrow> typed_by reg (known st) \<and> spans_stored st"

lemma inv_same_maps: "same_maps st st' \<Longrightarrow> replay_inv reg st \<Longrightarrow> replay_inv reg st'"
  using map_eq_imp_length_eq [of rq_definitions "cy_store st'" rq_definitions "cy_store st"]
  by (simp add: replay_inv_def same_maps_def spans_stored_def known_def)

lemma inv_keeps: "keeps (same_maps st) r \<Longrightarrow> replay_inv reg st \<Longrightarrow> keeps (replay_inv reg) r"
  by (cases r) (auto intro: inv_same_maps)

lemma inv_new: "replay_inv reg (new_creplay count w)"
  by (simp add: replay_inv_def new_creplay_def typed_by_def known_def spans_stored_def NewGlobalAttributeDefinitions_def)

lemma inv_fields [simp]:
  "replay_inv reg (st\<lparr>cy_lineCount := n\<rparr>) = replay_inv reg st" "replay_inv reg (st\<lparr>cy_errors := e\<rparr>) = replay_inv reg st"
  "replay_inv reg (st\<lparr>cy_dest := w\<rparr>) = replay_inv reg st"
  by (simp_all add: replay_inv_def known_def spans_stored_def)

lemma inv_start_request:
  assumes "replay_inv reg st"
  shows "keeps (replay_inv reg) (start_request dest ts b n si st)"
proof -
  let ?g = "cy_definitions st"
  define r where "r = \<lparr>rq_bundle = b, rq_definitions = None, rq_registry = NewRegistry False, rq_version = 0\<rparr>"
  define keep where "keep x = (if rq_definitions x = None \<and> requestID x = requestID r
      then x\<lparr>rq_definitions := map_of (gd_Requests ?g) (requestID r)\<rparr> else x)" for x
  from assms have t: "\<And>k d. map_of (gd_CommonDefinitions ?g) k = Some d \<Longrightarrow> dd_AttributeType d = at_subType (reg k)"
    "\<And>i r. map_of (gd_Requests ?g) i = Some r \<Longrightarrow> r = []" "\<And>x. x \<in> set (cy_store st) \<Longrightarrow> rq_definitions x \<in> {None, Some []}"
    by (auto simp: replay_inv_def typed_by_def known_def)
  have kept: "rq_definitions (keep x) \<in> {None, Some []}" if "x \<in> set (cy_store st)" for x
    using t(3) [OF that] t(2) by (cases "map_of (gd_Requests ?g) (requestID r)") (auto simp: keep_def)
  have "set (map rq_definitions (map keep (cy_store st) @ [r])) \<subseteq> {None, Some []}"
  proof
    fix y assume "y \<in> set (map rq_definitions (map keep (cy_store st) @ [r]))"
    then consider x where "x \<in> set (cy_store st)" "y = rq_definitions (keep x)" | "y = rq_definitions r" by auto
    then show "y \<in> {None, Some []}"
    proof cases
      case (1 x)
      with kept [of x] show ?thesis by (simp only:)
    qed (simp add: r_def)
  qed
  moreover have "\<And>i q. map_of (gd_Requests (NewRequestAttributeDefinitions (requestID r) ?g)) i = Some q \<Longrightarrow> q = []"
    using t(2) by (auto simp: NewRequestAttributeDefinitions_def split: if_splits)
  moreover have "gd_CommonDefinitions (NewRequestAttributeDefinitions (requestID r) ?g) = gd_CommonDefinitions ?g"
    by (simp add: NewRequestAttributeDefinitions_def)
  ultimately have "typed_by reg (NewRequestAttributeDefinitions (requestID r) ?g, map rq_definitions (map keep (cy_store st) @ [r]))"
    using t(1) by (simp add: typed_by_def del: map_append set_append)
  moreover have "spans_stored st" using assms by (simp add: replay_inv_def)
  ultimately show ?thesis
    unfolding start_request_def Let_def r_def [symmetric] keep_def [abs_def, symmetric]
    by (auto simp: replay_inv_def known_def spans_stored_def less_Suc_eq split: option.split if_splits)
qed

lemma inv_span:
  assumes "replay_inv reg st" "ry_request s < length (cy_store st)"
  shows "replay_inv reg (st\<lparr>cy_spans := aput i s (cy_spans st)\<rparr>)"
  using assms by (auto simp: replay_inv_def known_def spans_stored_def split: if_splits)

lemma inv_span_record:
  assumes "replay_inv reg st"
  shows "keeps (replay_inv reg) (replay_span_record dest ts t p n short st)"
proof (cases "map_of (cy_spans st) (span_key p)")
  case (Some parent)
  then have "ry_request parent < length (cy_store st)" using assms by (auto simp: replay_inv_def spans_stored_def)
  with assms Some show ?thesis
    using inv_span [of reg "st\<lparr>cy_dest := w\<rparr>" for w]
    by (simp add: replay_span_record_def start_span_def Let_def split: option.split)
qed (simp add: replay_span_record_def assms)

lemma inv_done_record:
  assumes "replay_inv reg st"
  shows "keeps (replay_inv reg) (replay_done_record env renv dest r ts v t kvs st)"
proof (cases "map_of (if r then cy_requests st else cy_spans st) (span_key t)")
  case (Some s)
  have finish: "keeps (same_maps st') (finish_record env renv dest ts s kvs st')" for st'
    using same_maps_replay_keys [of st' env renv dest "ry_request s" "ry_span s" kvs]
    by (auto simp: finish_record_def split: ran.split intro: keeps_trans same_maps_to_dest)
  have "ry_request s < length (cy_store st)" using assms Some by (auto simp: replay_inv_def spans_stored_def split: if_splits)
  moreover from this have "(map rq_definitions (cy_store st))[ry_request s := rq_definitions (cy_store st ! ry_request s)] =
      map rq_definitions (cy_store st)" by (simp add: list_update_same_conv)
  ultimately have "replay_inv reg (st\<lparr>cy_spans := aput (span_key t) (s\<lparr>ry_version := x\<rparr>) (cy_spans st)\<rparr>)"
    "replay_inv reg (st\<lparr>cy_store := (cy_store st)[ry_request s := (cy_store st ! ry_request s)\<lparr>rq_version := x\<rparr>]\<rparr>)" for x
    using assms inv_span [of reg st "s\<lparr>ry_version := x\<rparr>"]
    by (simp_all add: replay_inv_def known_def spans_stored_def map_update)
  with Some inv_keeps [OF finish] show ?thesis by (simp add: replay_done_record_def)
qed (simp add: replay_done_record_def assms)

lemma inv_record:
  assumes "replay_inv reg st" "record_typed reg x"
  shows "keeps (replay_inv reg) (record_calls env renv dest x st)"
proof (cases x)
  case (RDefine ts k)
  with assms show ?thesis
    by (auto simp: replay_define_record_def replay_inv_def typed_by_def known_def spans_stored_def decodedDefinition_def Let_def
        split: if_splits)
next
  case (RLine level ts t pm e data frames)
  have "keeps (same_maps st) (replay_line_record env renv dest level ts t pm e data frames st)"
    by (auto simp: replay_line_record_def Let_def split: option.split prod.split
        intro: keeps_trans [OF same_maps_set_registered same_maps_to_dest])
  from inv_keeps [OF this assms(1)] show ?thesis by (simp add: RLine)
qed (simp_all add: assms inv_start_request inv_span_record inv_done_record)

subsection \<open>The replay of a text is the replay of its records\<close>

lemma replay_one_record:
  assumes "contents_read env renv x" "\<forall>n. order_ok (ce_order env n)" "replay_inv reg st" "record_typed reg x"
  shows "replay_one renv dest (record_line env x) st = note_error (record_calls env renv dest x (count_line st))"
proof (cases x)
  case (RRequestStart ts b n si)
  have "without '' '' ''Request''" by simp
  from replay_one_kind [OF this, of renv dest "request_body env ts b n si" st] assms(1) RRequestStart
  show ?thesis by (simp add: replay_kind_def replay_text_request_start)
next
  case (RSpanStart ts t p n short)
  have "without '' '' ''Span''" by simp
  from replay_one_kind [OF this, of renv dest "time_text env ts @ CHR '' '' # ''Start'' @ CHR '' '' # spanHex t @
      CHR '' '' # spanHex p @ CHR '' '' # string_text env n @ CHR '' '' # short" st] assms(1) RSpanStart
    replay_text_span_start [of env renv ts t p n short dest "count_line st"]
  show ?thesis by (simp add: replay_kind_def)
next
  case (RDone r ts v t cs c)
  have agree: "types_agree (count_line st) (ry_request s) cs"
    if s: "map_of (if r then cy_requests (count_line st) else cy_spans (count_line st)) (span_key t) = Some s" for s
  proof -
    have "ry_request s < length (cy_store (count_line st))"
      using assms(3) s by (auto simp: replay_inv_def spans_stored_def count_line_def split: if_splits)
    moreover have "typed_by reg (known (count_line st))" using assms(3) by (simp add: replay_inv_def count_line_def known_def)
    ultimately show ?thesis
      using typed_definition [of reg "count_line st" "ry_request s"] assms(4)
      by (fastforce simp: types_agree_def RDone list_all_iff)
  qed
  have order: "order_ok (ce_order env c)" and reads: "done_reads env renv ts v t cs"
    using assms(1,2) by (simp_all add: RDone)
  have body: "(if r then replay_text_request else replay_text_span) renv dest
      (done_text_body env ts v t (attributes_ctext env (ce_order env c) cs)) (count_line st) =
      replay_done_record env renv dest r ts v t (record_values env (ce_order env c) cs) (count_line st)"
    by (rule replay_text_done [OF reads order agree])
  have "without '' '' (if r then ''Request'' else ''Span'')" by simp
  from replay_one_kind [OF this, of renv dest "done_text_body env ts v t (attributes_ctext env (ce_order env c) cs)" st] body
  show ?thesis by (cases r) (simp_all add: RDone replay_kind_def)
next
  case (RDefine ts k)
  have "without '' '' ''Def''" by simp
  from replay_one_kind [OF this, of renv dest "time_text env ts @ CHR '' '' # objectText (definitionFields k)" st] assms(1) RDefine
  show ?thesis by (simp add: replay_kind_def replay_text_define)
next
  case (RLine level ts t pm e data frames)
  with assms(1) have l: "line_reads env renv level ts t pm e data frames" by simp
  then have k: "without '' '' (Level_String level)" "map_of replay_levels (Level_String level) = Some level"
      "Level_String level \<noteq> ''Request''" "Level_String level \<noteq> ''Span''" "Level_String level \<noteq> ''Def''"
    using level_kind [of level] by (simp_all add: line_reads_def)
  from replay_one_kind [OF k(1), of renv dest "time_text env ts @ CHR '' '' # spanHex t @ CHR '' '' # end_text env pm e @
      data_text env data @ stack_text env frames" st] k(2-5) replay_text_line_record [OF l, of dest "count_line st"]
  show ?thesis by (simp add: RLine replay_kind_def)
qed

lemma note_error_keeps: "keeps (replay_inv reg) r \<Longrightarrow> note_error r = Fine st \<Longrightarrow> replay_inv reg st"
  by (cases r) (auto simp: note_error_def)

lemma after_record_keeps: "after_record x r = Fine st \<Longrightarrow> \<exists>st0. r = Fine st0 \<and> (replay_inv reg st0 \<longrightarrow> replay_inv reg st)"
  by (cases x; cases r) (auto simp: after_record_def count_line_def)

lemma replay_empty_line: "replay_one renv dest [] st = Fine (count_line st)"
  by (simp add: replay_one_def count_line_def Let_def)

text \<open>The line of a record and the empty line after it.\<close>

lemma replay_record_lines:
  assumes "contents_read env renv x" "\<forall>n. order_ok (ce_order env n)" "replay_inv reg st" "record_typed reg x"
  shows "replay_all renv dest (record_lines env x @ ls) st =
    (case after_record x (note_error (record_calls env renv dest x (count_line st))) of
       Fine st \<Rightarrow> replay_all renv dest ls st | r \<Rightarrow> r)"
  using replay_one_record [OF assms, of dest]
  by (cases x) (simp_all add: record_lines_def after_record_def replay_empty_line split: ran.split)

lemma replay_all_records:
  assumes "\<forall>n. order_ok (ce_order env n)" "list_all (record_reads env renv) xs" "list_all (record_typed reg) xs" "replay_inv reg st"
  shows "replay_all renv dest (concat (map (record_lines env) xs)) st = replay_records env renv dest xs st"
  using assms(2-4)
proof (induction xs arbitrary: st)
  case (Cons x xs)
  then have x: "contents_read env renv x" "record_typed reg x" by (simp_all add: record_reads_def)
  have "replay_inv reg (count_line st)" using Cons.prems(3) by (simp add: count_line_def)
  note keeps = inv_record [OF this x(2), of env renv dest]
  have "replay_inv reg st'" if "after_record x (note_error (record_calls env renv dest x (count_line st))) = Fine st'" for st'
    using after_record_keeps [OF that, of reg] note_error_keeps [OF keeps] by blast
  with replay_record_lines [OF x(1) assms(1) Cons.prems(3) x(2), of dest "concat (map (record_lines env) xs)"]
    Cons.IH Cons.prems(1,2) show ?case by (simp split: ran.split)
qed simp

lemma scan_records:
  assumes "list_all (record_reads env renv) xs"
  shows "scan_lines (concat (map (render env) xs) @ r) = concat (map (record_lines env) xs) @ scan_lines r"
proof -
  have "list_all fits (concat (map (record_lines env) xs))"
    using assms by (induction xs) (auto simp: record_reads_def record_lines_def fits_def MaxScanTokenSize_def split: crecord.split)
  moreover have "concat (map (render env) xs) = with_newlines (concat (map (record_lines env) xs))"
    using assms
  proof (induction xs)
    case (Cons x xs)
    then have "contents_read env renv x" by (simp add: record_reads_def)
    from render_line [OF this] Cons show ?case by (simp add: with_newlines_def)
  qed (simp add: with_newlines_def)
  ultimately show ?thesis by (simp add: scan_with_newlines)
qed

lemma scan_nothing [simp]: "scan_lines [] = []"
  by (simp add: scan_lines.simps)

text \<open>The replay of the records, with the errors that it noted.\<close>

definition Records_Replay ::
    "'m cenv \<Rightarrow> crenv \<Rightarrow> ('h, 'w, 'm) base \<Rightarrow> i32 \<Rightarrow> 'm crecord list \<Rightarrow> 'w \<Rightarrow> ('h, 'w) creplay ran" where
  "Records_Replay env renv dest count xs w =
     (case replay_records env renv dest xs (new_creplay count w) of
        Fine st \<Rightarrow> if cy_errors st \<noteq> [] then Erring st else Fine st
      | r \<Rightarrow> r)"

lemma replay_all_append:
  "replay_all renv dest (ls @ ms) st = (case replay_all renv dest ls st of Fine st \<Rightarrow> replay_all renv dest ms st | r \<Rightarrow> r)"
  by (induction ls arbitrary: st) (simp_all split: ran.split)

text \<open>The records come first in the text.\<close>

lemma replay_records_then:
  assumes "\<forall>n. order_ok (ce_order env n)" "list_all (record_reads env renv) xs" "list_all (record_typed reg) xs"
  shows "Console_Replay renv dest count (concat (map (render env) xs) @ r) w =
    (case (case replay_records env renv dest xs (new_creplay count w) of
             Fine st \<Rightarrow> replay_all renv dest (scan_lines r) st | r \<Rightarrow> r) of
       Fine st \<Rightarrow> if cy_errors st \<noteq> [] then Erring st else Fine st
     | r \<Rightarrow> r)"
  by (simp add: Console_Replay_def scan_records [OF assms(2)] replay_all_append replay_all_records [OF assms inv_new])

lemma replay_of_records:
  assumes "\<forall>n. order_ok (ce_order env n)" "list_all (record_reads env renv) xs" "list_all (record_typed reg) xs"
  shows "Console_Replay renv dest count (concat (map (render env) xs)) w = Records_Replay env renv dest count xs w"
  using replay_records_then [OF assms, of dest count "[]" w] by (simp add: Records_Replay_def split: ran.split)

subsection \<open>What the console logger wrote is replayed as its records\<close>

text \<open>Every record has the types of the attributes that the logger was used with.\<close>

definition records_typed :: "(string \<Rightarrow> Attribute) \<Rightarrow> 'm rlogger \<Rightarrow> bool" where
  "records_typed reg d \<longleftrightarrow> list_all (record_typed reg) (rl_records d)"

lemma typed_emit: "rec_emit env x d = Some d' \<Longrightarrow> records_typed reg d \<Longrightarrow> record_typed reg x \<Longrightarrow> records_typed reg d'"
  by (auto simp: rec_emit_def records_typed_def Let_def split: if_splits)

lemma typed_fields [simp]:
  "records_typed reg (d\<lparr>rl_builders := bs\<rparr>) = records_typed reg d" "records_typed reg (upd_rspan s g d) = records_typed reg d"
  "records_typed reg (d\<lparr>rl_counter := c, rl_spans := ss\<rparr>) = records_typed reg d"
  "records_typed reg (d\<lparr>rl_spans := ss\<rparr>) = records_typed reg d" "records_typed reg (d\<lparr>rl_counter := c\<rparr>) = records_typed reg d"
  by (simp_all add: records_typed_def upd_rspan_def)

lemma typed_copy: "rec_copy b k d = (l, d') \<Longrightarrow> records_typed reg d' = records_typed reg d"
  by (auto simp: rec_copy_def rec_add_def Let_def)

lemma typed_start: "rec_start s k d = (l, d') \<Longrightarrow> records_typed reg d' = records_typed reg d"
  by (auto simp: rec_start_def rec_add_def)

lemma typed_Request: "rec_Request env ts b n si d = Some (s, d') \<Longrightarrow> records_typed reg d \<Longrightarrow> records_typed reg d'"
  by (auto simp: rec_Request_def Let_def split: prod.splits dest!: typed_emit [where reg = reg])

lemma typed_Span: "rec_Span env ts b n code p d = Some (s, d') \<Longrightarrow> records_typed reg d \<Longrightarrow> records_typed reg d'"
  by (auto simp: rec_Span_def Let_def split: prod.splits dest!: typed_emit [where reg = reg])

lemma typed_new:
  "rec_new env c h d = Some (k, d') \<Longrightarrow> records_typed reg d \<Longrightarrow> records_typed reg d'"
  by (induction env c h d rule: rec_new.induct)
    (auto simp: typed_Request typed_Span dest!: typed_copy [where reg = reg] typed_start [where reg = reg] split: prod.splits if_splits ckind.splits)

lemma calls_typed:
  assumes "console_rel env reg (w, hs) (d, ks)" "s < length (rl_spans d)"
  shows "list_all (\<lambda>c. at_subType (fst c) = at_subType (reg (at_key (fst c)))) (rn_calls (rl_spans d ! s))"
proof -
  have "cspans_rel env reg (cl_spans w) (rl_spans d)" using assms(1) by (simp add: console_rel_def)
  from cspans_rel_nth [OF this assms(2)] show ?thesis by (auto simp: cspan_rel_def same_attribute_def list_all_iff)
qed

lemma typed_do:
  assumes "console_rel env reg (w, hs) (d, ks)" "rec_do env a k d = Some d'" "records_typed reg d" "console_cmd_ok reg (Do a n)"
    "chandle_ok (length (rl_spans d)) (length (rl_builders d)) k"
  shows "records_typed reg d'"
proof (cases k)
  case (CSpanH s)
  then have s: "s < length (rl_spans d)" using assms(5) by simp
  show ?thesis
  proof (cases a)
    case (ADone t final)
    with assms(2) CSpanH have call: "rec_Done env t s d = Some d'" by simp
    have "records_typed reg (upd_rspan s (\<lambda>x. x\<lparr>rn_version := rn_version x + 1\<rparr>) d)" using assms(3) by simp
    with call s calls_typed [OF assms(1) s] show ?thesis
      by (auto simp: rec_Done_def upd_rspan_def Let_def elim!: typed_emit)
  next
    case (AMetadata key v)
    with assms(2,4) CSpanH have "rec_Metadata env key v s d = Some d'" "at_subType key = at_subType (reg (at_key key))"
      by (auto simp: same_attribute_def)
    with assms(3) show ?thesis
      by (auto simp: rec_Metadata_def Let_def split: if_splits dest!: typed_emit [where reg = reg])
  qed (use assms(2,3) CSpanH in simp_all)
next
  case (CBuilderH b)
  with assms(2,3) show ?thesis
    by (cases a) (auto simp: rec_Build_def rec_End_def Let_def split: if_splits ckind.splits dest!: typed_emit [where reg = reg])
qed

interpretation typed_console: base_refinement "rec_base ident env" "console_base ident env"
    "\<lambda>r s. console_rel env reg r s \<and> records_typed reg (fst s)" "console_allowed env reg"
proof unfold_locales
  fix x s s' r
  assume x: "exec_cmd (rec_base ident env) x s = Some s'" and rel: "console_rel env reg r s \<and> records_typed reg (fst s)"
    and ok: "console_allowed env reg x"
  obtain w hs where r: "r = (w, hs)" by (cases r)
  obtain d ks where s: "s = (d, ks)" by (cases s)
  have "records_typed reg (fst s')"
  proof (cases x)
    case (New c n)
    with x s rel show ?thesis
      by (cases n) (auto simp: rec_base_def split: if_splits dest!: typed_new [where reg = reg])
  next
    case (Do a m)
    with x s obtain d' where m: "m < length ks" and d': "rec_do env a (ks ! m) d = Some d'" "s' = (d', ks)"
      by (auto simp: rec_base_def split: if_splits)
    have "console_cmd_ok reg (Do a m)" using ok Do by (simp add: console_allowed_def)
    from typed_do [OF _ d'(1) _ this console_rel_handle(2) [OF _ m]] rel r s d'(2) show ?thesis by auto
  qed
  with console.cmd_refines [OF x _ ok] rel show "\<exists>r'. exec_cmd (console_base ident env) x r = Some r' \<and>
      (console_rel env reg r' s' \<and> records_typed reg (fst s'))" by blast
qed


text \<open>A demonstration: quoted texts without escapes, times that are numbers.\<close>

definition demo_crenv :: crenv where
  "demo_crenv = \<lparr>rp_unquote = (\<lambda>s. Some (butlast (tl s))), rp_RFC3339 = (\<lambda>s. map_option (\<lambda>t. (t, 0)) (strconv_ParseInt s)),
     rp_RFC3339Nano = (\<lambda>s. map_option (\<lambda>t. (t, 0)) (strconv_ParseInt s)), rp_duration = strconv_ParseInt, rp_float = (\<lambda>b s. None),
     rp_strict = Some, rp_quote = (\<lambda>s. CHR 0x22 # s @ [CHR 0x22]), rp_namespace = ''xop''\<rparr>"

definition demo_release :: SourceInfo where
  "demo_release = \<lparr>si_Source = ''s'', si_SourceVersion = ''1.0.0'', si_Namespace = ''n'', si_NamespaceVersion = ''2.1.0''\<rparr>"

definition demo_bundle :: Bundle where
  "demo_bundle = NewBundle\<lparr>bu_State := ''a=b''\<rparr>"

definition demo_key :: Attribute where
  "demo_key = sampleAttribute\<lparr>at_subType := 9, at_consoleKey := at_key sampleAttribute @ ''='',
     at_jsonDef := jsonAttributeDefinition (sampleAttribute\<lparr>at_subType := 9\<rparr>)\<rparr>"

definition logged_script :: "int cmd list" where
  "logged_script = [New (NRequest 0 demo_bundle ''get it'' demo_release) None, New NNoPrefill (Some 0),
     New (NLine InfoLevel 1 [(''a.go'', 7)]) (Some 1), Do (ABuild (BInt64 ''a'' 5 8)) 2, Do (ABuild (BBool ''x y'' True)) 2,
     Do (AEnd (LMsg ''hello, world'')) 2, Do (AMetadata demo_key (MString ''u v'')) 0, Do (ADone 3 False) 0]"

lemma strconv_ParseInt_code [code]:
  "strconv_ParseInt s =
     (let (neg, s) = (case s of c # r \<Rightarrow> if c = CHR ''-'' then (True, r) else if c = CHR ''+'' then (False, r) else (False, s)
                      | [] \<Rightarrow> (False, s)) in
      case ParseNat 10 s of
        None \<Rightarrow> None
      | Some n \<Rightarrow> let i = int n in if neg then (if i \<le> 2 ^ 63 then Some (- i) else None) else if i < 2 ^ 63 then Some i else None)"
  by (auto simp: strconv_ParseInt_def Let_def split: option.split prod.split)

lemma fits_code [code]: "fits l \<longleftrightarrow> int (length l) < 65536 \<and> without [CHR 0x0A] l \<and> (l \<noteq> [] \<longrightarrow> last l \<noteq> CHR 0x0D)"
  by (auto simp: fits_def MaxScanTokenSize_def)



definition logged_records :: "int crecord list" where
  "logged_records = [RRequestStart 0 demo_bundle ''get it'' demo_release,
     RLine InfoLevel 1 NewTrace [] (LMsg ''hello, world'') [BInt64 ''a'' 5 8, BBool ''x y'' True] [(''a.go'', 7)],
     RDefine 0 demo_key, RDone True 3 1 NewTrace [(demo_key, MString ''u v'')] 3]"

lemma logged_records:
  "\<exists>d ks. exec (rec_base ''c'' (demo_cenv 0 9)) logged_script (rec_New NewRequestCounter True, []) = Some (d, ks) \<and>
     rl_records d = logged_records"
  by (simp add: logged_script_def logged_records_def rec_base_def rec_New_def rec_Request_def rec_start_def rec_add_def rec_copy_def
      rec_Build_def rec_End_def rec_Metadata_def rec_Done_def rec_emit_def upd_rspan_def spoil_def key_values_def demo_bundle_def NewBundle_def demo_cenv_def split: prod.split)

lemma logged_records_read: "list_all (record_reads (demo_cenv 0 9) demo_crenv) logged_records"
  by code_simp

text \<open>The records are replayed into another logger of records, and their text is the text of the log.\<close>

lemma logged_records_replay:
  "case Records_Replay (demo_cenv 0 9) demo_crenv (rec_base ''d'' (demo_cenv 0 9)) 0 logged_records (rec_New NewRequestCounter True) of
     Fine st \<Rightarrow> map (render (demo_cenv 0 9)) (rl_records (cy_dest st)) = map (render (demo_cenv 0 9)) logged_records
   | _ \<Rightarrow> False"
  by code_simp


end
