(* ===== verification/ConsoleReplayLimits.thy ===== *)
theory ConsoleReplayLimits
  imports ConsoleReplayCorrect
begin

section \<open>What the replay of the console format does not survive\<close>

text \<open>
  The loop over the parameters of a request may never end, so that a log that is cut off there hangs the
  replay; a long line ends the replay without an error; the size of a model may make it panic; and
  a quoted string at the end of a line is logged twice.
\<close>

subsection \<open>The parameters of a request may never be read to their end\<close>

text \<open>
  A text is \<open>stuck\<close> when it starts with no word: nothing is taken off it, and the loop goes around again.
\<close>

definition stuck :: "crenv \<Rightarrow> string \<Rightarrow> bool" where
  "stuck env t \<longleftrightarrow> t \<noteq> [] \<and> oneWordMaybeQuoted env t '' :='' = ([], NUL, t)"

text \<open>A parameter that was taken: what is left, and the bundle after it.\<close>

inductive params_step :: "crenv \<Rightarrow> string \<times> Bundle \<Rightarrow> string \<times> Bundle \<Rightarrow> bool" for env where
  taken: "\<lbrakk>t \<noteq> []; oneWordMaybeQuoted env t '' :='' = (word, CHR '':'', u); oneStringAndSep env u = (value, sep, r);
      sep = NUL \<or> sep = CHR '' ''; request_param word value b = Some b'\<rbrakk>
    \<Longrightarrow> params_step env (t, b) (r, b')"
| skipped: "\<lbrakk>t \<noteq> []; oneWordMaybeQuoted env t '' :='' = ([], NUL, r); r \<noteq> t\<rbrakk> \<Longrightarrow> params_step env (t, b) (r, b)"

inductive_cases params_stepE: "params_step env (t, b) s"

lemma empty_word_left:
  assumes "oneWordMaybeQuoted env t '' :='' = ([], NUL, r)" "t \<noteq> []"
  shows "r = t \<or> length r < length t"
proof (cases "quoted_part t")
  case None
  with assms show ?thesis
    using from_any_length [of "'' :=''" t] by (auto simp: oneWordMaybeQuoted_def oneWord_def NUL_def split: list.splits)
next
  case (Some p)
  then obtain v w where "quoted_part t = Some (v, w)" by (cases p) auto
  with assms quoted_part_length [OF this] show ?thesis
    by (auto simp: oneWordMaybeQuoted_def split: option.splits list.splits)
qed

lemma params_step_shorter: "params_step env s s' \<Longrightarrow> length (fst s') < length (fst s)"
proof (induction rule: params_step.induct)
  case (taken t word u "value" r sep b b')
  then have "length u < length t" using oneWordMaybeQuoted_length(2) [OF taken(2)] by (simp add: NUL_def)
  with oneStringAndSep_length(1) [OF taken(3)] show ?case by simp
next
  case (skipped t r b)
  then show ?case using empty_word_left [of env t r] by auto
qed

lemma params_step_same: "params_step env (t, b) (r, b') \<Longrightarrow> request_params env t b = request_params env r b'"
  by (erule params_stepE; subst request_params.simps) (auto simp: NUL_def)

lemma params_steps_same: "(params_step env)\<^sup>*\<^sup>* s s' \<Longrightarrow> request_params env (fst s) (snd s) = request_params env (fst s') (snd s')"
  by (induction rule: rtranclp_induct) (auto dest: params_step_same)

lemma returned_not_stuck:
  assumes "request_params env t b = Some x"
  shows "\<not> stuck env t"
proof (rule request_params.raw_induct [where P = "\<lambda>env t b x. \<not> stuck env t", OF _ assms])
  fix f env t b x
  assume ih: "\<And>env t b x. f env t b = Some x \<Longrightarrow> \<not> stuck env t"
    and body: "(if t = [] then Some (Some b)
      else let (word, sep, t) = oneWordMaybeQuoted env t '' :='' in
        if sep = NUL then (if word \<noteq> [] then Some None else f env t b)
        else if sep = CHR '':'' then
          (let (value, sep, t) = oneStringAndSep env t in
           if sep \<noteq> NUL \<and> sep \<noteq> CHR '' '' then Some None
           else case request_param word value b of None \<Rightarrow> Some None | Some b \<Rightarrow> f env t b)
        else Some None) = Some x"
  from ih [of env t b x] body show "\<not> stuck env t" by (auto simp: stuck_def)
qed

lemma stuck_hangs: "stuck env t \<Longrightarrow> request_params env t b = None"
  using returned_not_stuck [of env t b] by (cases "request_params env t b") auto

lemma returns_or_stuck: "request_params env t b \<noteq> None \<or> (\<exists>s. (params_step env)\<^sup>*\<^sup>* (t, b) s \<and> stuck env (fst s))"
proof (induction "length t" arbitrary: t b rule: less_induct)
  case less
  have onward: ?case if "params_step env (t, b) (r, b')" for r b'
    using less [OF params_step_shorter [OF that, simplified], of b'] params_step_same [OF that] that
    by (metis converse_rtranclp_into_rtranclp)
  obtain word sep u where w: "oneWordMaybeQuoted env t '' :='' = (word, sep, u)" by (metis prod_cases3)
  show ?case
  proof (cases "t = [] \<or> sep \<notin> {NUL, CHR '':''} \<or> sep = NUL \<and> word \<noteq> []")
    case True
    then show ?thesis using w by (subst request_params.simps) (auto simp: NUL_def)
  next
    case False
    then consider (empty) "t \<noteq> []" "sep = NUL" "word = []" | (colon) "t \<noteq> []" "sep = CHR '':''" by auto
    then show ?thesis
    proof cases
      case empty
      show ?thesis
      proof (cases "u = t")
        case True
        with empty w show ?thesis by (auto simp: stuck_def)
      next
        case False
        show ?thesis by (rule onward [OF skipped]) (use empty w False in auto)
      qed
    next
      case colon
      obtain v c r where v: "oneStringAndSep env u = (v, c, r)" by (metis prod_cases3)
      show ?thesis
      proof (cases "(c = NUL \<or> c = CHR '' '') \<and> request_param word v b \<noteq> None")
        case True
        then obtain b' where b': "request_param word v b = Some b'" "c = NUL \<or> c = CHR '' ''" by auto
        with colon w v onward [OF taken, of word u v c r b'] show ?thesis by simp
      next
        case False
        with colon w v show ?thesis by (subst request_params.simps) (auto simp: NUL_def)
      qed
    qed
  qed
qed

text \<open>
  C27. The loop over the parameters of a request ends exactly when no stuck text is reached.
\<close>

theorem request_params_hang:
  "request_params env t b = None \<longleftrightarrow> (\<exists>s. (params_step env)\<^sup>*\<^sup>* (t, b) s \<and> stuck env (fst s))"
  using returns_or_stuck [of env t b] params_steps_same [of env "(t, b)"] stuck_hangs [of env] by (metis fst_conv snd_conv)

subsection \<open>A text with another line after its records\<close>

lemma replay_records_fine: "replay_records env renv dest xs st \<noteq> Erring st'"
proof (induction xs arbitrary: st)
  case (Cons x xs)
  have "after_record x (note_error r) \<noteq> Erring st'" for r :: "('a, 'b) creplay ran"
    by (cases r; cases x) (auto simp: after_record_def note_error_def)
  with Cons.IH show ?case by (auto split: ran.split)
qed simp

lemma scan_last: "fits l \<Longrightarrow> l \<noteq> [] \<Longrightarrow> scan_lines l = [l]"
proof -
  assume l: "fits l" "l \<noteq> []"
  then have w: "takeWhile (\<lambda>c. c \<noteq> CHR 0x0A) l = l" "dropWhile (\<lambda>c. c \<noteq> CHR 0x0A) l = []"
    by (auto simp: fits_def without_def list_all_iff takeWhile_eq_all_conv dropWhile_eq_Nil_conv)
  have "dropCR l = l" using l by (simp add: dropCR_def fits_def)
  then show ?thesis using l unfolding scan_lines.simps [of l] w by (simp add: fits_def)
qed

lemma scan_long_line: "without [CHR 0x0A] l \<Longrightarrow> MaxScanTokenSize \<le> length l \<Longrightarrow> scan_lines (l @ r) = []"
proof -
  assume l: "without [CHR 0x0A] l" "MaxScanTokenSize \<le> length l"
  then have "takeWhile (\<lambda>c. c \<noteq> CHR 0x0A) (l @ r) = l @ takeWhile (\<lambda>c. c \<noteq> CHR 0x0A) r"
    by (intro takeWhile_append2) (auto simp: without_def list_all_iff)
  with l(2) show ?thesis by (subst scan_lines.simps) (simp add: Let_def)
qed


text \<open>The log of the demonstration, and the start of a request that is cut off in \<open>baggage\<close>.\<close>

lemma demo_order_ok: "\<forall>n. order_ok (ce_order (demo_cenv spare lost) n)"
  using demo_cenv_ok by (simp add: cenv_ok_def)

lemma logged_records_typed: "list_all (record_typed (\<lambda>k. demo_key)) logged_records"
  by (simp add: logged_records_def)

lemma logged_records_return:
  "Records_Replay (demo_cenv 0 9) demo_crenv (rec_base ''d'' (demo_cenv 0 9)) 0 logged_records (rec_New NewRequestCounter True) \<notin> {Panicking, Hanging}"
  using logged_records_replay by auto


text \<open>
  C28. A line of 65536 characters or more ends the replay: what comes before it is replayed, the line and
  everything after it is not, and nothing says so.
\<close>

theorem long_line_ends_replay:
  assumes "\<forall>n. order_ok (ce_order env n)" "list_all (record_reads env renv) xs" "list_all (record_typed reg) xs"
    "without [CHR 0x0A] l" "65536 \<le> length l"
  shows "Console_Replay renv dest count (concat (map (render env) xs) @ l @ rest) v = Records_Replay env renv dest count xs v"
proof -
  have "scan_lines (l @ rest) = []" using assms(4,5) by (intro scan_long_line) (simp_all add: MaxScanTokenSize_def)
  with replay_records_then [OF assms(1-3), of dest count "l @ rest" v] show ?thesis
    by (simp add: Records_Replay_def split: ran.split)
qed

theorem long_line_ends_replay_witness:
  "Console_Replay demo_crenv (rec_base ''d'' (demo_cenv 0 9)) 0
     (concat (map (render (demo_cenv 0 9)) logged_records) @ replicate 65536 (CHR ''x'') @ CHR 0x0A # ''xop nonsense'')
     (rec_New NewRequestCounter True) =
   Records_Replay (demo_cenv 0 9) demo_crenv (rec_base ''d'' (demo_cenv 0 9)) 0 logged_records (rec_New NewRequestCounter True)"
  by (rule long_line_ends_replay [OF demo_order_ok logged_records_read logged_records_typed]) (simp_all add: without_def list_all_iff)

subsection \<open>A model may make the replay panic\<close>

lemma from_any_first: "from_any bs t = c # r \<Longrightarrow> c \<in> set bs"
  by (metis from_any_def hd_dropWhile list.distinct(1) list.sel(1))

lemma size_sign: "sz < 2 ^ 64 \<Longrightarrow> sint (word_of_nat sz :: i64) = (if 2 ^ 63 \<le> sz then int sz - 2 ^ 64 else int sz)"
proof -
  assume sz: "sz < 2 ^ 64"
  have z: "(2 ^ 64 :: i64) = 0" by simp
  have "word_of_int (int sz - 2 ^ 64) = (word_of_nat sz - 2 ^ 64 :: i64)" by simp
  then have w: "word_of_int (int sz - 2 ^ 64) = (word_of_nat sz :: i64)" unfolding z by simp
  have "sint (word_of_int (int sz) :: i64) = int sz" if "\<not> 2 ^ 63 \<le> sz" using that by (intro sint_word_of_int) simp_all
  moreover have "sint (word_of_int (int sz - 2 ^ 64) :: i64) = int sz - 2 ^ 64" if "2 ^ 63 \<le> sz"
    using that sz by (intro sint_word_of_int) simp_all
  ultimately show ?thesis unfolding w by simp
qed

lemma oneWord_found:
  "oneWord t [b] = (w, b, r) \<Longrightarrow> b \<noteq> NUL \<Longrightarrow> t = w @ b # r \<and> without [b] w"
proof -
  assume a: "oneWord t [b] = (w, b, r)" "b \<noteq> NUL"
  then have f: "from_any [b] t = b # r" and w: "w = before_any [b] t" by (auto simp: oneWord_def split: list.splits)
  have "before_any [b] t @ from_any [b] t = t" by (simp add: before_any_def from_any_def)
  moreover have "without [b] (before_any [b] t)"
    by (auto simp: without_def list_all_iff before_any_def dest: set_takeWhileD)
  ultimately show "t = w @ b # r \<and> without [b] w" using f w by simp
qed

text \<open>
  C29. \<open>readAttributeAny\<close> panics exactly when the text starts with a size from \<open>2 ^ 63\<close> in parentheses: the
  size is negative as an \<open>int\<close>, so that no text is too short for it.
\<close>

theorem model_size_panics:
  assumes "length t < 2 ^ 63"
  shows "readAttributeAny env t = Panics \<longleftrightarrow>
    (\<exists>w r sz. t = CHR ''('' # w @ CHR '')'' # r \<and> without '')'' w \<and> strconv_ParseUint w = Some sz \<and> 2 ^ 63 \<le> sz)"
proof (cases "t \<noteq> [] \<and> hd t = CHR ''(''")
  case True
  then obtain s where t: "t = CHR ''('' # s" by (cases t) auto
  obtain w c r where w: "oneWord s '')'' = (w, c, r)" by (metis prod_cases3)
  have less: "length r \<le> length s" using oneWord_length [OF w] by simp
  show ?thesis
  proof (cases "strconv_ParseUint w")
    case None
    have "\<not> (s = v @ CHR '')'' # u \<and> without '')'' v \<and> strconv_ParseUint v = Some sz)" for v u sz
      using w None oneWord_until [of "'')''" v "CHR '')''" u] by auto
    with None w show ?thesis by (auto simp: readAttributeAny_def t)
  next
    case (Some sz)
    then have big: "sz < 2 ^ 64" and "w \<noteq> []" by (auto simp: strconv_ParseUint_def ParseNat_def split: option.splits if_splits)
    then have "c = CHR '')''" using w by (auto simp: oneWord_def split: list.splits dest!: from_any_first)
    with w have s: "s = w @ CHR '')'' # r" "without '')'' w" using oneWord_found [of s "CHR '')''" w r] by (auto simp: NUL_def)
    have "readAttributeAny env t = Panics \<longleftrightarrow> \<not> int (length r) \<le> sint (word_of_nat sz :: i64) \<and> length r < sz"
      using w Some by (auto simp: readAttributeAny_def t Let_def split: option.split prod.split)
    also have "\<dots> \<longleftrightarrow> 2 ^ 63 \<le> sz"
      using size_sign [OF big] big less assms by (auto simp: t)
    finally have panics: "readAttributeAny env t = Panics \<longleftrightarrow> 2 ^ 63 \<le> sz" .
    have same: "v = w" if "s = v @ CHR '')'' # u" "without '')'' v" for v u
      using oneWord_until [of "'')''" v "CHR '')''" u] that w by simp
    show ?thesis
    proof
      assume "readAttributeAny env t = Panics"
      then have "2 ^ 63 \<le> sz" unfolding panics .
      with s Some show "\<exists>w r sz. t = CHR ''('' # w @ CHR '')'' # r \<and> without '')'' w \<and> strconv_ParseUint w = Some sz \<and> 2 ^ 63 \<le> sz"
        unfolding t by blast
    next
      assume "\<exists>w r sz. t = CHR ''('' # w @ CHR '')'' # r \<and> without '')'' w \<and> strconv_ParseUint w = Some sz \<and> 2 ^ 63 \<le> sz"
      then obtain v u sz' where v: "s = v @ CHR '')'' # u" "without '')'' v" "strconv_ParseUint v = Some sz'" "2 ^ 63 \<le> sz'"
        unfolding t list.inject by blast
      from v(3,4) Some show "readAttributeAny env t = Panics" unfolding panics same [OF v(1,2)] by simp
    qed
  qed
qed (auto simp: readAttributeAny_def)

theorem model_size_panics_witness:
  "readAttributeAny demo_crenv (CHR ''('' # formatNat 10 (2 ^ 63) @ '')x'') = Panics"
proof -
  have w: "without '')'' (formatNat 10 (2 ^ 63))"
    using formatNat_digits [of "2 ^ 63"] by (auto simp: without_def list_all_iff isDigit_def)
  have size: "strconv_ParseUint (formatNat 10 (2 ^ 63)) = Some (2 ^ 63)"
    by (simp only: strconv_ParseUint_def ParseNat_formatNat) simp
  have "length (formatNat 10 (2 ^ 63)) = 19" by (simp add: formatNat.simps)
  then have "length (CHR ''('' # formatNat 10 (2 ^ 63) @ '')x'') < 2 ^ 63" by simp
  from model_size_panics [OF this, of demo_crenv] w size show ?thesis by auto
qed

subsection \<open>A quoted string at the end of a line is logged twice\<close>

text \<open>
  C30. A plain string that needs quotes, as the last attribute of a line without a stack, is
  replayed as two attributes: the case of the quote adds it, and goes on to the code that adds it again.
\<close>

theorem last_quoted_string_twice:
  assumes "data_reads env renv True cs" "replayed_calls env renv cs reg = (reg', Some cs')"
    "key_reads env renv k" "quoted_reads renv (ce_quote env s) s" "\<not> unquoted s" "s \<noteq> []" "\<not> is_number s" "s \<noteq> ''t''" "s \<noteq> ''f''"
  shows "read_attributes renv (tl (data_text env (cs @ [BString k s 9]))) [] reg =
    (reg', Parsed (cs' @ [BString k s 9, BString k s 9], []))"
proof -
  let ?r = "data_text env [BString k s 9]"
  have written: "?r = CHR '' '' # string_text env k @ CHR ''='' # ce_quote env s"
    using build_text_value(1) [of env renv False "BString k s 9"] assms(3-9) by (simp add: string_reads_def string_text_cases [of env s])
  have "untyped_value k s = Some (BString k s 9 :: 'a build_call)"
    using assms(6-9) by (simp add: untyped_value_def is_number_def)
  moreover obtain v where "ce_quote env s = dquote # v" using quoted_reads_start [OF assms(4)] by blast
  ultimately have "read_value renv k (ce_quote env s) acc reg' = (reg', Parsed (acc @ [BString k s 9, BString k s 9], []))" for acc :: "'a build_call list"
    using quoted_reads_string [OF assms(4), of "[]"] by (simp add: read_value_def finish_value_def NUL_def dquote_def)
  with read_key [OF assms(3), of "ce_quote env s" cs' reg']
  have "read_attributes renv (tl ?r) cs' reg' = (reg', Parsed (cs' @ [BString k s 9, BString k s 9], []))"
    unfolding written by (simp add: read_attributes.simps [of renv "[]"])
  moreover have "data_reads env renv (?r \<noteq> []) cs" "goes_on ?r" using assms(1) written by (simp_all add: goes_on_def)
  note read_data_then [OF this, of "[]" reg]
  ultimately show ?thesis using assms(2) by simp
qed

theorem last_quoted_string_twice_witness:
  "\<forall>reg. snd (read_attributes demo_crenv (tl (data_text (demo_cenv 0 9) [BInt64 ''a'' 5 8, BString ''b'' ''x y'' 9])) [] reg) =
     Parsed ([BInt64 ''a'' 5 8, BString ''b'' ''x y'' 9, BString ''b'' ''x y'' 9] :: int build_call list, [])"
proof
  fix reg
  have "data_reads (demo_cenv 0 9) demo_crenv True [BInt64 ''a'' 5 8]" by code_simp
  moreover have "replayed_calls (demo_cenv 0 9) demo_crenv [BInt64 ''a'' 5 8] reg = (reg, Some [BInt64 ''a'' 5 8])" by simp
  moreover have "key_reads (demo_cenv 0 9) demo_crenv ''b''" by code_simp
  moreover have "quoted_reads demo_crenv (ce_quote (demo_cenv 0 9) ''x y'') ''x y''" "\<not> unquoted ''x y''" "\<not> is_number ''x y''"
    by code_simp+
  ultimately show "snd (read_attributes demo_crenv (tl (data_text (demo_cenv 0 9) [BInt64 ''a'' 5 8, BString ''b'' ''x y'' 9])) [] reg) =
     Parsed ([BInt64 ''a'' 5 8, BString ''b'' ''x y'' 9, BString ''b'' ''x y'' 9] :: int build_call list, [])"
    using last_quoted_string_twice [of "demo_cenv 0 9" demo_crenv "[BInt64 ''a'' 5 8]" reg reg "[BInt64 ''a'' 5 8]" "''b''" "''x y''"]
    by simp
qed

end
