(* ===== verification/Spec2Isabelle.thy ===== *)
theory Spec2Isabelle
  imports AttributeRegistry ReplayCorrect FrontReturns JSONDefined ConsoleReplayLimits
begin

section \<open>A verification library for xop-go\<close>

text \<open>
  xop is a structured logger. Front-end code makes a logger from a seed; each logger writes
  through one or several \<^emph>\<open>base loggers\<close> (\<open>xopbase\<close>): \<open>xoprecorder\<close> keeps everything in memory,
  \<open>xopjson\<close>, \<open>xopconsole\<close> and \<open>xoppb\<close> write text or protobufs. Spans carry W3C trace ids
  (\<open>xoptrace\<close>), attributes of spans are declared once in a registry (\<open>xopat\<close>), and every
  format can be replayed into another base logger.

  \<^bold>\<open>Theories and the code they model\<close>

  \<^item> \<open>Prelude\<close>: basic types, decimal numbers as \<open>strconv\<close> writes them, association lists in
    insertion order (a Go map whose iteration matters), list lemmas.
  \<^item> \<open>HexBytes\<close> (\<open>xoptrace/hexbytes.go\<close>, \<open>encoding/hex\<close>) and \<open>Trace\<close> (\<open>xoptrace/trace.go\<close>,
    \<open>bundle.go\<close>): a trace is a record of four fields, each with its cached hexadecimal text, plus
    the cached header. The invariant is that the caches agree with the bytes; the theorems are
    the round trip of the header and of JSON, the exact language that is accepted, what a rejected
    text leaves behind, and that the repair of zero ids returns. Random bytes are a function of the
    number of reads so far; loops that draw until something is not zero are recursions with fuel,
    and \<open>rand_live\<close> says that the source yields such a draw within the fuel.
  \<^item> \<open>Propagation\<close> (\<open>xopmiddle\<close>): \<open>traceparent\<close> and \<open>b3\<close> headers and the bundle of an inbound request.
  \<^item> \<open>JBuilder\<close> (\<open>xoputil/jbuilder.go\<close>, \<open>fromphu.go\<close>): the JSON writer against a small JSON reader.
  \<^item> \<open>Enums\<close> (\<open>xopnum\<close>, \<open>xopconst\<close>, \<open>xoprecorder/eventtype_enumer.go\<close>, \<open>xopproto/extra.go\<close>,
    \<open>xopbase/abbr.go\<close>): names and JSON of enumerations; the locale \<open>enum_codec\<close> is interpreted for each.
  \<^item> \<open>Attributes\<close>, \<open>AttributeJSON\<close>, \<open>AttributeRegistry\<close> (\<open>xopat\<close>, \<open>xoputil/replayutil\<close>,
    \<open>xoputil/xopversion\<close>): definitions of attributes, their JSON form and its decoder, the registry.
  \<^item> \<open>Metadata\<close> (\<open>xopbase/model.go\<close>, \<open>xopbase/xopbaseutil/metadata.go\<close>): models and the metadata store,
    which is proved to hold what the flags of the attribute promise about the list of calls.
  \<^item> \<open>BaseAPI\<close> (\<open>xopbase/base.go\<close>): the interfaces. A base logger is a record of functions over
    a state and handles; a client is a script of calls. Three locales state contracts:
    \<open>base_refinement\<close> (a logger implements another, by a relation), its instance
    \<open>base_simulation\<close> (one logger stands in front of another) and \<open>base_invariant\<close>
    (what every call keeps). Each is proved once for scripts and interpreted below.
  \<^item> \<open>BaseGroup\<close> (\<open>basegroup.go\<close>, \<open>base.go\<close>): several loggers as one. Every member sees the calls it
    would see alone (interpretation of \<open>base_simulation\<close>); adding and removing base loggers of a seed.
  \<^item> \<open>Counter\<close> (\<open>xoputil/counter.go\<close>, \<open>atomic.go\<close>): numbers of traces and requests, one call at a time.
  \<^item> \<open>Recorder\<close>, \<open>RecorderInv\<close> (\<open>xoprecorder/recorder.go\<close>): shared objects are indices into stores of
    the state; the invariant holds under every client (interpretation of \<open>base_invariant\<close>).
  \<^item> \<open>RecorderReplay\<close>, \<open>ReplayCorrect\<close> (\<open>xoprecorder/replay.go\<close>): replay as a function over any
    base logger; into a second recorder it reproduces the first.
  \<^item> \<open>Settings\<close> (\<open>sub.go\<close>, \<open>line.go\<close>, \<open>xopbase/skip.go\<close>): the settings of a logger with their setters,
    prefilled data, and what each method of a line calls on the base line. \<open>Seed\<close> (\<open>seed.go\<close>,
    \<open>config.go\<close>): seeds, their modifiers and their reactive callbacks.
  \<^item> \<open>FrontEnd\<close> (\<open>logger.go\<close>, \<open>span.go\<close>, \<open>support.go\<close>): loggers, spans and lines are shared objects, so
    each kind has a store; the state \<open>front\<close> holds the stores, what the loggers of a request share,
    and the states of all base loggers. What calls itself (activity, done, flush, the error lines
    that they write) is one function \<open>invoke\<close> with fuel over a datatype of calls; \<open>fe_step\<close> is one
    operation of a user, \<open>fe_run\<close> a sequence.
  \<^item> \<open>FrontRules\<close>: Hoare-style rules for the result type. \<open>FrontClient\<close>, \<open>FrontLegal\<close>: every operation
    extends the scripts of the base loggers by legal calls. \<open>FrontRecorder\<close>: with \<open>base_invariant\<close>, a
    recorder behind the front end stays well-formed.
  \<^item> \<open>FrontTerm\<close>, \<open>FrontReturns\<close>: as long as the request has no sub-logger of its own, the dependents of
    a span belong to later spans, and fuel quadratic in the number of spans is enough for any
    operation (\<open>fe_fuel\<close>); with one, the first activity after a flush does not return.

  \<^item> \<open>JSONText\<close>: JSON values, a strict reader for them and what makes a text of a value. \<open>JSONAttributes\<close>
    (\<open>xopjson/xopjsonutil\<close>): the attribute buffers of a JSON span; \<open>AttributeTexts\<close>: they agree with
    the metadata store of \<open>Metadata\<close>.
  \<^item> \<open>JSONLogger\<close> (\<open>xopjson/jsonlogger.go\<close>, \<open>models.go\<close>, \<open>xopbytes/iowriter.go\<close>): the JSON base logger,
    with its buffers, its pool of lines and its writer. \<open>JSONObjects\<close>, \<open>JSONLines\<close>, \<open>JSONRecords\<close>: the
    predicate \<open>obj\<close> says which members a buffer holds so far; its rules follow the methods that write.
  \<^item> \<open>JSONSpec\<close>: the abstract logger of documents. \<open>JSONRefine\<close>: the JSON logger implements it
    (interpretation of \<open>base_refinement\<close>). \<open>JSONDefined\<close>: attributes are defined before they are used.

  \<^item> \<open>ConsoleText\<close>, \<open>ConsoleAttributes\<close> (\<open>xopconsole/attributes.go\<close>, \<open>builder.go\<close>, \<open>xoputil/jbuilder.go\<close>):
    the texts of keys and values as the chunks that are appended, and the attributes of a span, which
    hold the texts of what was logged. \<open>ConsoleMemory\<close>: byte slices are windows on arrays in an explicit
    memory, since copies of a builder share their array; \<open>append\<close> writes in place while there is room.
  \<^item> \<open>ConsoleLogger\<close> (\<open>xopconsole/console.go\<close>): the console base logger. \<open>ConsoleSpec\<close>: the abstract logger of
    records, which says when a builder was spoilt by another one. \<open>ConsoleRefine\<close>: the console logger
    implements it however much room new arrays have (interpretation of \<open>base_refinement\<close>), and what two
    open lines of one prefill do to each other.
  \<^item> \<open>ConsoleParse\<close>, \<open>ConsoleReplay\<close> (\<open>xopconsole/replay.go\<close>): the readers and the handlers of the replay
    of the console format into any base logger. The loop over the parameters of a request is a
    \<open>partial_function\<close>, because it may not end; the other loops are recursions whose text gets shorter.
  \<^item> \<open>ConsoleReadBack\<close>, \<open>ConsoleRoundtrip\<close>: each kind of text reads back, first the parts and then the lines
    of a record. \<open>ConsoleReplayCorrect\<close>: an invariant of the replay, and with it that replaying what
    the console logger wrote makes the calls of its records, whatever it is replayed into; the
    predicate \<open>record_reads\<close> lists what the format cannot carry. \<open>ConsoleReplayLimits\<close>: when the replay
    hangs, panics, stops early or logs a value twice.

  \<^bold>\<open>Conventions.\<close> A Go string and a byte slice of text are HOL strings. Errors are values of a sum
  or of an option; a panic is \<^term>\<open>None\<close>. Machine integers are words where the code can wrap.
  Times are their nanoseconds. Parameters stand for code outside the repository: the source of
  random bytes, \<open>semver\<close>, \<open>strconv.AppendQuote\<close>, the marshallers of the standard library, \<open>fmt.Sprint\<close>,
  and the iteration order of a Go map where a loop's result could depend on it.

  \<^bold>\<open>Not modelled.\<close> Loggers in contexts (\<open>context.go\<close>) are lookups in a \<open>context.Context\<close>, with
  level adjusters that read environment variables and the package of the caller. Operations run one
  after the other: mutexes, and interleavings of goroutines that use one logger or one request
  counter at once, are left out; a timer or an asynchronous flush is an operation of its own. The replay
  of JSON (\<open>xopjson/replay.go\<close>) decodes with the reflection of \<open>encoding/json\<close>, and the protobuf
  logger and its replay (\<open>xoppb\<close>) build generated messages: neither decoder is in the repository. The
  console logger for people (\<open>xopcon\<close>) cannot be replayed. The search and dump helpers of the
  recorder, test support, generated code, the template expander under \<open>tools\<close>, the walk over the
  runtime stack and pure input and output are no part of the behaviour that the properties speak of.
\<close>

end
